(* ===== verification/Prelude.thy ===== *)
theory Prelude
  imports Main "HOL-Library.Word" "HOL-Library.Char_ord"
begin

text \<open>
  The prelude: the simplification collections of the development, C strings and the pieces of the
  C library the sources lean on (strstr, isspace, strtol, atoi, decimal rendering, printf with the
  directives %s, %d and %ld), and the 32 and 64 bit integer ranges.

  A std::string or a char array is a HOL string. A C string is the prefix of it before the first
  NUL byte (c_str). An int is a HOL int together with the range predicate is_int32; operations that
  may leave the range are checked in theory Proc.
\<close>

named_theorems sql_text \<open>texts of the SQL statements\<close>
named_theorems proc_defs \<open>definitions of straight line operations\<close>

section \<open>Machine integers\<close>

definition is_int32 :: "int \<Rightarrow> bool" where
  "is_int32 i \<longleftrightarrow> - (2 ^ 31) \<le> i \<and> i < 2 ^ 31"

definition is_int64 :: "int \<Rightarrow> bool" where
  "is_int64 i \<longleftrightarrow> - (2 ^ 63) \<le> i \<and> i < 2 ^ 63"

definition to_int32 :: "int \<Rightarrow> int" where
  "to_int32 i = (i + 2 ^ 31) mod 2 ^ 32 - 2 ^ 31"

definition clamp64 :: "int \<Rightarrow> int" where
  "clamp64 i = (if i < - (2 ^ 63) then - (2 ^ 63) else if 2 ^ 63 \<le> i then 2 ^ 63 - 1 else i)"

lemma is_int32_to_int32 [simp, intro]: "is_int32 (to_int32 i)"
  by (simp add: is_int32_def to_int32_def)

lemma to_int32_id: "is_int32 i \<Longrightarrow> to_int32 i = i"
  by (simp add: is_int32_def to_int32_def)

lemma is_int64_clamp64 [simp, intro]: "is_int64 (clamp64 i)"
  by (simp add: is_int64_def clamp64_def)

lemma clamp64_id: "is_int64 i \<Longrightarrow> clamp64 i = i"
  by (simp add: is_int64_def clamp64_def)

lemma is_int32_is_int64: "is_int32 i \<Longrightarrow> is_int64 i"
  by (simp add: is_int32_def is_int64_def)

section \<open>C strings\<close>

definition NUL :: char where
  "NUL = CHR 0x00"

definition c_str :: "string \<Rightarrow> string" where
  "c_str s = takeWhile (\<lambda>c. c \<noteq> NUL) s"

definition nul_free :: "string \<Rightarrow> bool" where
  "nul_free s \<longleftrightarrow> NUL \<notin> set s"

lemma nul_free_c_str [simp, intro]: "nul_free (c_str s)"
  by (auto simp: nul_free_def c_str_def dest: set_takeWhileD)

lemma c_str_id [simp]: "nul_free s \<Longrightarrow> c_str s = s"
  by (auto simp: nul_free_def c_str_def takeWhile_eq_all_conv)

lemma c_str_idem [simp]: "c_str (c_str s) = c_str s"
  by simp

lemma length_c_str_le: "length (c_str s) \<le> length s"
  by (simp add: c_str_def length_takeWhile_le)

lemma nul_free_Nil [simp]: "nul_free []"
  by (simp add: nul_free_def)

lemma nul_free_Cons [simp]: "nul_free (c # s) \<longleftrightarrow> c \<noteq> NUL \<and> nul_free s"
  by (auto simp: nul_free_def)

lemma nul_free_append [simp]: "nul_free (s @ t) \<longleftrightarrow> nul_free s \<and> nul_free t"
  by (auto simp: nul_free_def)

text \<open>is_prefix and strstr: the suffix that starts at the first occurrence, or no result.\<close>

fun is_prefix :: "string \<Rightarrow> string \<Rightarrow> bool" where
  "is_prefix [] t = True"
| "is_prefix (c # s) [] = False"
| "is_prefix (c # s) (d # t) = (c = d \<and> is_prefix s t)"

fun strstr :: "string \<Rightarrow> string \<Rightarrow> string option" where
  "strstr [] pat = (if pat = [] then Some [] else None)"
| "strstr (c # s) pat = (if is_prefix pat (c # s) then Some (c # s) else strstr s pat)"

lemma is_prefix_iff: "is_prefix s t \<longleftrightarrow> (\<exists>u. t = s @ u)"
  by (induction s t rule: is_prefix.induct) auto

lemma is_prefix_append [simp]: "is_prefix s (s @ t)"
  by (auto simp: is_prefix_iff)

lemma strstr_SomeD: "strstr s pat = Some t \<Longrightarrow> (\<exists>u. s = u @ t) \<and> is_prefix pat t"
proof (induction s)
  case Nil
  then show ?case by (auto split: if_splits)
next
  case (Cons c s)
  then show ?case
    by (auto simp del: is_prefix.simps split: if_splits intro: exI [of _ "[]"] exI [of _ "c # u" for u])
qed

lemma strstr_at_start: "is_prefix pat s \<Longrightarrow> strstr s pat = Some s"
  by (cases s; cases pat) auto

section \<open>Decimal rendering and scanning\<close>

definition digit_char :: "nat \<Rightarrow> char" where
  "digit_char d = char_of (48 + d)"

definition is_digit :: "char \<Rightarrow> bool" where
  "is_digit c \<longleftrightarrow> 48 \<le> (of_char c :: nat) \<and> (of_char c :: nat) \<le> 57"

definition digit_val :: "char \<Rightarrow> nat" where
  "digit_val c = of_char c - 48"

lemma digit_char_props [simp]:
  assumes "d < 10"
  shows "is_digit (digit_char d)" "digit_val (digit_char d) = d"
  using assms by (simp_all add: is_digit_def digit_val_def digit_char_def)

fun show_nat :: "nat \<Rightarrow> string" where
  "show_nat n = (if n < 10 then [digit_char n] else show_nat (n div 10) @ [digit_char (n mod 10)])"

declare show_nat.simps [simp del]

definition show_int :: "int \<Rightarrow> string" where
  "show_int i = (if i < 0 then CHR ''-'' # show_nat (nat (- i)) else show_nat (nat i))"

fun scan_digits :: "nat \<Rightarrow> string \<Rightarrow> nat" where
  "scan_digits acc [] = acc"
| "scan_digits acc (c # s) = (if is_digit c then scan_digits (acc * 10 + digit_val c) s else acc)"

definition isspace :: "char \<Rightarrow> bool" where
  "isspace c \<longleftrightarrow> c = CHR '' '' \<or> (9 \<le> (of_char c :: nat) \<and> (of_char c :: nat) \<le> 13)"

definition strtol :: "string \<Rightarrow> int" where
  "strtol s =
     (case dropWhile isspace s of
        [] \<Rightarrow> 0
      | c # t \<Rightarrow> clamp64
          (if c = CHR ''-'' then - int (scan_digits 0 t)
           else if c = CHR ''+'' then int (scan_digits 0 t)
           else int (scan_digits 0 (c # t))))"

definition atoi :: "string \<Rightarrow> int" where
  "atoi s = to_int32 (strtol s)"

definition atoll :: "string \<Rightarrow> int" where
  "atoll s = strtol s"

lemma show_nat_nonempty [simp]: "show_nat n \<noteq> []"
  by (subst show_nat.simps) simp

lemma show_nat_digits: "\<forall>c \<in> set (show_nat n). is_digit c"
proof (induction n rule: show_nat.induct)
  case (1 n)
  then show ?case by (subst show_nat.simps) auto
qed

lemma scan_digits_append:
  "\<forall>c \<in> set s. is_digit c \<Longrightarrow> scan_digits acc (s @ t) = scan_digits (scan_digits acc s) t"
  by (induction s arbitrary: acc) auto

lemma scan_digits_show_nat: "scan_digits 0 (show_nat n) = n"
proof (induction n rule: show_nat.induct)
  case (1 n)
  show ?case
  proof (cases "n < 10")
    case True
    then show ?thesis by (subst show_nat.simps) simp
  next
    case False
    with 1 have "scan_digits 0 (show_nat (n div 10)) = n div 10" by simp
    with False show ?thesis
      by (subst show_nat.simps) (simp add: scan_digits_append show_nat_digits)
  qed
qed

lemma is_digit_not_special:
  assumes "is_digit c"
  shows "c \<noteq> CHR ''-''" "c \<noteq> CHR ''+''" "\<not> isspace c" "c \<noteq> NUL"
  using assms by (auto simp: is_digit_def isspace_def NUL_def)

lemma strtol_show_int: "is_int64 i \<Longrightarrow> strtol (show_int i) = i"
proof (cases "i < 0")
  case True
  assume "is_int64 i"
  with True show ?thesis
    by (simp add: strtol_def show_int_def isspace_def scan_digits_show_nat clamp64_id)
next
  case False
  assume i: "is_int64 i"
  obtain c t where ct: "show_nat (nat i) = c # t"
    by (cases "show_nat (nat i)") auto
  then have "is_digit c"
    using show_nat_digits [of "nat i"] by simp
  with i False ct show ?thesis
    using scan_digits_show_nat [of "nat i"]
    by (simp add: strtol_def show_int_def is_digit_not_special clamp64_id)
qed

lemma atoll_show_int: "is_int64 i \<Longrightarrow> atoll (show_int i) = i"
  by (simp add: atoll_def strtol_show_int)

lemma atoi_show_int: "is_int32 i \<Longrightarrow> atoi (show_int i) = i"
  by (simp add: atoi_def strtol_show_int is_int32_is_int64 to_int32_id)

lemma nul_free_show_int [simp]: "nul_free (show_int i)"
  using show_nat_digits is_digit_not_special(4)
  by (fastforce simp: show_int_def nul_free_def NUL_def)

lemma show_int_chars: "\<forall>c \<in> set (show_int i). c = CHR ''-'' \<or> is_digit c"
  using show_nat_digits by (simp add: show_int_def)

lemma show_int_nonempty [simp]: "show_int i \<noteq> []"
  by (simp add: show_int_def)

lemma is_int32_atoi [simp, intro]: "is_int32 (atoi s)"
  by (simp add: atoi_def)

section \<open>printf\<close>

datatype parg = PStr string | PInt int

text \<open>
  The conversions used by the sources are %s, %d and %ld. A conversion without an argument of its
  kind ends the text; no format of the sources does that.
\<close>

fun c_printf :: "string \<Rightarrow> parg list \<Rightarrow> string" where
  "c_printf [] args = []"
| "c_printf (c # f) args =
     (if c \<noteq> CHR ''%'' then c # c_printf f args
      else case (f, args) of
          (d # f', PStr s # args') \<Rightarrow> if d = CHR ''s'' then c_str s @ c_printf f' args' else []
        | (d # f', PInt i # args') \<Rightarrow>
            (if d = CHR ''d'' then show_int i @ c_printf f' args'
             else if d = CHR ''l'' then
               (case f' of e # f'' \<Rightarrow> show_int i @ c_printf f'' args' | [] \<Rightarrow> [])
             else [])
        | _ \<Rightarrow> [])"

text \<open>FormatString, formatString1 and formatString2 allocate exactly the rendered length.\<close>

definition FormatString :: "string \<Rightarrow> parg list \<Rightarrow> string" where
  "FormatString fmt args = c_printf fmt args"

end
