(* ===== verification/Proc.thy ===== *)
theory Proc
  imports Prelude
begin

text \<open>
  Effectful code as trees of requests. A value of type proc is a program that returns, crashes, or
  asks one of the services the server runs on (MySQL, Redis, the operating system, the floating
  point conversions of the C library) and continues with the answer. The services are not part of
  the repository: they are the argument E of run, a record of functions on a world of any type.
  The state 's is the memory of the process the code shares between calls (connection pools,
  counters, response queue); GetS reads it, PutS replaces it, Await waits until a predicate of it
  holds, which is how a condition variable blocks.

  run gives the outcome of a program with the state and world it ends in; calls says that every
  request a program can ever make, whatever is answered, satisfies a predicate.
\<close>

section \<open>Requests, answers, programs\<close>

datatype fault =
    NullDeref | UseAfterFree | BufferOverflow | UninitRead | OutOfBounds | SignedOverflow | JsonThrow | AssertFailed
  | InCallback fault

datatype conn_reply = Connected | InitFailed | ConnectFailed

text \<open>
  A table is what mysql_store_result returns: field names and rows of cells, a NULL cell being
  None. QueryOk carries the stored result, if there is one, and mysql_affected_rows.
\<close>

type_synonym row = "string option list"

record table =
  tb_fields :: "string list"
  tb_rows :: "row list"

datatype mysql_reply = QueryFailed | QueryOk "table option" nat

datatype stmt_reply = StmtInitFailed | PrepareFailed | BindFailed | ExecuteFailed | Executed nat nat

datatype redis_reply =
    RString string | RStatus string | RError string | RInteger int | RNil | RArray "redis_reply list"

datatype os_call =
    OsTime | OsRand | OsLocalTime | OsRename string string | OsUnlink string | OsSystem string
  | OsCalloc int int | OsPipe | OsFork | OsExeclp "string list" | OsReadPipe | OsWait
  | OsSend int string | OsRecv int | OsCloseSocket int | OsSetCallback int nat | OsTick
  | OsReadFile string | OsOpenWrite string | OsFwrite string | OsListen string int | OsNetInit
  | SysSocket | SysSockopt int | SysBind int string int | SysListen int | SysConnect int string int | SysAccept int | SysPeerIp | SysPeerPort
  | SysSend int string | SysRecv int nat | SysClose int | SysAvail int | SysError int | SysErrno
  | SysEpollAdd int | SysEpollDel int | SysEpollWait int | SysEpollFd nat | SysEpollEvents nat

record os_reply =
  os_int :: int
  os_str :: string

record libc =
  scan_double :: "string \<Rightarrow> bool"
  format_double :: "string \<Rightarrow> string"
  double_to_int :: "string \<Rightarrow> int option"

datatype ('s, 'a) proc =
    Ret 'a
  | Fault fault
  | Replaced
  | MysqlConnect "string list" "conn_reply \<Rightarrow> ('s, 'a) proc"
  | Mysql string "mysql_reply \<Rightarrow> ('s, 'a) proc"
  | MysqlStmt string "string list" "stmt_reply \<Rightarrow> ('s, 'a) proc"
  | RedisConnect string int "bool \<Rightarrow> ('s, 'a) proc"
  | Redis "string list" "redis_reply option \<Rightarrow> ('s, 'a) proc"
  | Os os_call "os_reply \<Rightarrow> ('s, 'a) proc"
  | Libc "libc \<Rightarrow> ('s, 'a) proc"
  | GetS "'s \<Rightarrow> ('s, 'a) proc"
  | PutS 's "('s, 'a) proc"
  | Await "'s \<Rightarrow> bool" "('s, 'a) proc"

primrec bindp :: "('s, 'a) proc \<Rightarrow> ('a \<Rightarrow> ('s, 'b) proc) \<Rightarrow> ('s, 'b) proc" where
  "bindp (Ret a) f = f a"
| "bindp (Fault e) f = Fault e"
| "bindp Replaced f = Replaced"
| "bindp (MysqlConnect ps k) f = MysqlConnect ps (\<lambda>r. bindp (k r) f)"
| "bindp (Mysql q k) f = Mysql q (\<lambda>r. bindp (k r) f)"
| "bindp (MysqlStmt q ps k) f = MysqlStmt q ps (\<lambda>r. bindp (k r) f)"
| "bindp (RedisConnect h p k) f = RedisConnect h p (\<lambda>r. bindp (k r) f)"
| "bindp (Redis c k) f = Redis c (\<lambda>r. bindp (k r) f)"
| "bindp (Os c k) f = Os c (\<lambda>r. bindp (k r) f)"
| "bindp (Libc k) f = Libc (\<lambda>r. bindp (k r) f)"
| "bindp (GetS k) f = GetS (\<lambda>s. bindp (k s) f)"
| "bindp (PutS s k) f = PutS s (bindp k f)"
| "bindp (Await b k) f = Await b (bindp k f)"

lemma bindp_Ret_right [simp]: "bindp p Ret = p"
  by (induction p) auto

lemma bindp_assoc: "bindp (bindp p f) g = bindp p (\<lambda>a. bindp (f a) g)"
  by (induction p) auto

section \<open>Running a program against services\<close>

record 'w env =
  env_mysql_connect :: "'w \<Rightarrow> string list \<Rightarrow> conn_reply \<times> 'w"
  env_mysql :: "'w \<Rightarrow> string \<Rightarrow> mysql_reply \<times> 'w"
  env_stmt :: "'w \<Rightarrow> string \<Rightarrow> string list \<Rightarrow> stmt_reply \<times> 'w"
  env_redis_connect :: "'w \<Rightarrow> string \<Rightarrow> int \<Rightarrow> bool \<times> 'w"
  env_redis :: "'w \<Rightarrow> string list \<Rightarrow> redis_reply option \<times> 'w"
  env_os :: "'w \<Rightarrow> os_call \<Rightarrow> os_reply \<times> 'w"
  env_libc :: libc

datatype 'a outcome = Done 'a | Crashed fault | Gone | Blocked

primrec run :: "'w env \<Rightarrow> ('s, 'a) proc \<Rightarrow> 's \<Rightarrow> 'w \<Rightarrow> 'a outcome \<times> 's \<times> 'w" where
  "run E (Ret a) s w = (Done a, s, w)"
| "run E (Fault e) s w = (Crashed e, s, w)"
| "run E Replaced s w = (Gone, s, w)"
| "run E (MysqlConnect ps k) s w = (case env_mysql_connect E w ps of (r, w') \<Rightarrow> run E (k r) s w')"
| "run E (Mysql q k) s w = (case env_mysql E w q of (r, w') \<Rightarrow> run E (k r) s w')"
| "run E (MysqlStmt q ps k) s w = (case env_stmt E w q ps of (r, w') \<Rightarrow> run E (k r) s w')"
| "run E (RedisConnect h p k) s w = (case env_redis_connect E w h p of (r, w') \<Rightarrow> run E (k r) s w')"
| "run E (Redis c k) s w = (case env_redis E w c of (r, w') \<Rightarrow> run E (k r) s w')"
| "run E (Os c k) s w = (case env_os E w c of (r, w') \<Rightarrow> run E (k r) s w')"
| "run E (Libc k) s w = run E (k (env_libc E)) s w"
| "run E (GetS k) s w = run E (k s) s w"
| "run E (PutS t k) s w = run E k t w"
| "run E (Await b k) s w = (if b s then run E k s w else (Blocked, s, w))"

fun then_run :: "'a outcome \<times> 's \<times> 'w \<Rightarrow> ('a \<Rightarrow> 's \<Rightarrow> 'w \<Rightarrow> 'b outcome \<times> 's \<times> 'w)
    \<Rightarrow> 'b outcome \<times> 's \<times> 'w" where
  "then_run (Done a, s, w) k = k a s w"
| "then_run (Crashed e, s, w) k = (Crashed e, s, w)"
| "then_run (Gone, s, w) k = (Gone, s, w)"
| "then_run (Blocked, s, w) k = (Blocked, s, w)"

lemma run_bindp [simp]:
  "run E (bindp p f) s w = then_run (run E p s w) (\<lambda>a. run E (f a))"
  by (induction p arbitrary: s w) (auto split: prod.splits)

lemma then_run_Done_iff:
  "then_run x k = (Done b, s'', w'') \<longleftrightarrow> (\<exists>a s' w'. x = (Done a, s', w') \<and> k a s' w' = (Done b, s'', w''))"
  by (cases "(x, k)" rule: then_run.cases) auto

lemma then_run_cong_fst:
  "then_run (if b then x else y) k = (if b then then_run x k else then_run y k)"
  by simp

section \<open>Which requests a program can make\<close>

datatype event =
    EvMysqlConnect "string list" | EvMysql string | EvStmt string "string list"
  | EvRedisConnect string int | EvRedis "string list" | EvOs os_call

primrec calls :: "(event \<Rightarrow> bool) \<Rightarrow> ('s, 'a) proc \<Rightarrow> bool" where
  "calls P (Ret a) = True"
| "calls P (Fault e) = True"
| "calls P Replaced = True"
| "calls P (MysqlConnect ps k) = (P (EvMysqlConnect ps) \<and> (\<forall>r. calls P (k r)))"
| "calls P (Mysql q k) = (P (EvMysql q) \<and> (\<forall>r. calls P (k r)))"
| "calls P (MysqlStmt q ps k) = (P (EvStmt q ps) \<and> (\<forall>r. calls P (k r)))"
| "calls P (RedisConnect h p k) = (P (EvRedisConnect h p) \<and> (\<forall>r. calls P (k r)))"
| "calls P (Redis c k) = (P (EvRedis c) \<and> (\<forall>r. calls P (k r)))"
| "calls P (Os c k) = (P (EvOs c) \<and> (\<forall>r. calls P (k r)))"
| "calls P (Libc k) = (\<forall>r. calls P (k r))"
| "calls P (GetS k) = (\<forall>s. calls P (k s))"
| "calls P (PutS s k) = calls P k"
| "calls P (Await b k) = calls P k"

primrec results :: "('a \<Rightarrow> bool) \<Rightarrow> ('s, 'a) proc \<Rightarrow> bool" where
  "results Q (Ret a) = Q a"
| "results Q (Fault e) = True"
| "results Q Replaced = True"
| "results Q (MysqlConnect ps k) = (\<forall>r. results Q (k r))"
| "results Q (Mysql q k) = (\<forall>r. results Q (k r))"
| "results Q (MysqlStmt q ps k) = (\<forall>r. results Q (k r))"
| "results Q (RedisConnect h p k) = (\<forall>r. results Q (k r))"
| "results Q (Redis c k) = (\<forall>r. results Q (k r))"
| "results Q (Os c k) = (\<forall>r. results Q (k r))"
| "results Q (Libc k) = (\<forall>r. results Q (k r))"
| "results Q (GetS k) = (\<forall>s. results Q (k s))"
| "results Q (PutS s k) = results Q k"
| "results Q (Await b k) = results Q k"

lemma calls_bindp:
  "calls P p \<Longrightarrow> results Q p \<Longrightarrow> (\<And>a. Q a \<Longrightarrow> calls P (f a)) \<Longrightarrow> calls P (bindp p f)"
  by (induction p) auto

lemma calls_bindpI:
  "calls P p \<Longrightarrow> (\<And>a. calls P (f a)) \<Longrightarrow> calls P (bindp p f)"
  by (induction p) auto

lemma results_bindp:
  "results Q p \<Longrightarrow> (\<And>a. Q a \<Longrightarrow> results R (f a)) \<Longrightarrow> results R (bindp p f)"
  by (induction p) auto

lemma results_bindpI:
  "(\<And>a. results R (f a)) \<Longrightarrow> results R (bindp p f)"
  by (induction p) auto

lemma results_mono: "results Q p \<Longrightarrow> (\<And>a. Q a \<Longrightarrow> R a) \<Longrightarrow> results R p"
  by (induction p) auto

lemma results_True [simp]: "results (\<lambda>a. True) p"
  by (induction p) auto

text \<open>What results says of a run: a returned value satisfies the predicate.\<close>

lemma results_run: "results Q p \<Longrightarrow> run E p s w = (Done a, s', w') \<Longrightarrow> Q a"
  by (induction p arbitrary: s w) (fastforce split: prod.splits if_splits)+

section \<open>Effects on the process state\<close>

text \<open>
  ensures Q p s: from state s, whatever the services answer, the program can only return a value
  and a state that satisfy Q. keeps R p: the state a program ends in is related to the one it
  starts in.
\<close>

primrec ensures :: "('a \<Rightarrow> 's \<Rightarrow> bool) \<Rightarrow> ('s, 'a) proc \<Rightarrow> 's \<Rightarrow> bool" where
  "ensures Q (Ret a) s = Q a s"
| "ensures Q (Fault e) s = True"
| "ensures Q Replaced s = True"
| "ensures Q (MysqlConnect ps k) s = (\<forall>r. ensures Q (k r) s)"
| "ensures Q (Mysql q k) s = (\<forall>r. ensures Q (k r) s)"
| "ensures Q (MysqlStmt q ps k) s = (\<forall>r. ensures Q (k r) s)"
| "ensures Q (RedisConnect h p k) s = (\<forall>r. ensures Q (k r) s)"
| "ensures Q (Redis c k) s = (\<forall>r. ensures Q (k r) s)"
| "ensures Q (Os c k) s = (\<forall>r. ensures Q (k r) s)"
| "ensures Q (Libc k) s = (\<forall>r. ensures Q (k r) s)"
| "ensures Q (GetS k) s = ensures Q (k s) s"
| "ensures Q (PutS t k) s = ensures Q k t"
| "ensures Q (Await b k) s = (b s \<longrightarrow> ensures Q k s)"

definition keeps :: "('s \<Rightarrow> 's \<Rightarrow> bool) \<Rightarrow> ('s, 'a) proc \<Rightarrow> bool" where
  "keeps R p \<longleftrightarrow> (\<forall>s. ensures (\<lambda>a. R s) p s)"

lemma ensures_run: "ensures Q p s \<Longrightarrow> run E p s w = (Done a, s', w') \<Longrightarrow> Q a s'"
  by (induction p arbitrary: s w) (fastforce split: prod.splits if_splits)+

lemma keeps_run: "keeps R p \<Longrightarrow> run E p s w = (Done a, s', w') \<Longrightarrow> R s s'"
  unfolding keeps_def by (blast dest: ensures_run)

lemma ensures_bindp:
  "ensures Q p s \<Longrightarrow> (\<And>a t. Q a t \<Longrightarrow> ensures Q' (f a) t) \<Longrightarrow> ensures Q' (bindp p f) s"
  by (induction p arbitrary: s) auto

lemma ensures_mono:
  "ensures Q p s \<Longrightarrow> (\<And>a t. Q a t \<Longrightarrow> Q' a t) \<Longrightarrow> ensures Q' p s"
  by (induction p arbitrary: s) auto

lemma keeps_ensures: "keeps R p \<Longrightarrow> (\<And>a t. R s t \<Longrightarrow> Q a t) \<Longrightarrow> ensures Q p s"
  unfolding keeps_def by (blast intro: ensures_mono)

text \<open>secures B Q p s: as ensures, and a fault the program can run into from s is one of B.\<close>

primrec secures :: "fault set \<Rightarrow> ('a \<Rightarrow> 's \<Rightarrow> bool) \<Rightarrow> ('s, 'a) proc \<Rightarrow> 's \<Rightarrow> bool" where
  "secures B Q (Ret a) s = Q a s"
| "secures B Q (Fault e) s = (e \<in> B)"
| "secures B Q Replaced s = True"
| "secures B Q (MysqlConnect ps k) s = (\<forall>r. secures B Q (k r) s)"
| "secures B Q (Mysql q k) s = (\<forall>r. secures B Q (k r) s)"
| "secures B Q (MysqlStmt q ps k) s = (\<forall>r. secures B Q (k r) s)"
| "secures B Q (RedisConnect h p k) s = (\<forall>r. secures B Q (k r) s)"
| "secures B Q (Redis c k) s = (\<forall>r. secures B Q (k r) s)"
| "secures B Q (Os c k) s = (\<forall>r. secures B Q (k r) s)"
| "secures B Q (Libc k) s = (\<forall>r. secures B Q (k r) s)"
| "secures B Q (GetS k) s = secures B Q (k s) s"
| "secures B Q (PutS t k) s = secures B Q k t"
| "secures B Q (Await b k) s = (b s \<longrightarrow> secures B Q k s)"

lemma secures_bindp:
  "secures B Q p s \<Longrightarrow> (\<And>a t. Q a t \<Longrightarrow> secures B Q' (f a) t) \<Longrightarrow> secures B Q' (bindp p f) s"
  by (induction p arbitrary: s) auto

lemma secures_mono:
  "secures B Q p s \<Longrightarrow> (\<And>a t. Q a t \<Longrightarrow> Q' a t) \<Longrightarrow> secures B Q' p s"
  by (induction p arbitrary: s) auto

lemma secures_run: "secures B Q p s \<Longrightarrow> run E p s w = (Done a, s', w') \<Longrightarrow> Q a s'"
  by (induction p arbitrary: s w) (fastforce split: prod.splits if_splits)+

lemma secures_crash: "secures B Q p s \<Longrightarrow> run E p s w = (Crashed e, s', w') \<Longrightarrow> e \<in> B"
  by (induction p arbitrary: s w) (fastforce split: prod.splits if_splits)+

lemma keeps_bindp:
  assumes "transp R" and "keeps R p" and "\<And>a. keeps R (f a)"
  shows "keeps R (bindp p f)"
  unfolding keeps_def
proof
  fix s
  show "ensures (\<lambda>a. R s) (bindp p f) s"
  proof (rule ensures_bindp)
    show "ensures (\<lambda>a. R s) p s" using assms(2) by (simp add: keeps_def)
    show "ensures (\<lambda>a. R s) (f a) t" if "R s t" for a t
      using assms(3) by (rule keeps_ensures) (use assms(1) that in \<open>blast dest: transpD\<close>)
  qed
qed

text \<open>A program without requests that keeps the state is a computation.\<close>

lemma run_quiet: "calls (\<lambda>e. False) p \<Longrightarrow> snd (snd (run E p s w)) = w"
  by (induction p arbitrary: s w) auto

lemma run_pure_Done:
  assumes "calls (\<lambda>e. False) p" and "keeps (=) p" and "run E p s w = (Done a, s', w')"
  shows "s' = s" "w' = w"
  using keeps_run [OF assms(2,3)] run_quiet [OF assms(1), of E s w] assms(3) by auto

lemma ensures_results: "results Q p \<Longrightarrow> ensures R p s \<Longrightarrow> ensures (\<lambda>a t. Q a \<and> R a t) p s"
  by (induction p arbitrary: s) auto

lemma keeps_GetS: "(\<And>s. keeps R (k s)) \<Longrightarrow> keeps R (GetS k)"
  by (simp add: keeps_def)

lemma keeps_Await: "keeps R k \<Longrightarrow> keeps R (Await b k)"
  by (simp add: keeps_def)

lemma keeps_Ret [simp]: "reflp R \<Longrightarrow> keeps R (Ret a)"
  by (simp add: keeps_def reflp_def)

lemma keeps_Fault [simp]: "keeps R (Fault e)" "keeps R Replaced"
  by (simp_all add: keeps_def)

section \<open>Checked operations of the language\<close>

text \<open>
  sprintf into a char array writes the text and its terminating NUL without a bound; a text that
  does not fit is an overflow. snprintf truncates. strncpy of n characters followed by a store of
  NUL at n needs n + 1 bytes.
\<close>

definition sprintf_buf :: "nat \<Rightarrow> string \<Rightarrow> ('s, string) proc" where
  "sprintf_buf cap text = (if length text < cap then Ret text else Fault BufferOverflow)"

definition snprintf_buf :: "nat \<Rightarrow> string \<Rightarrow> string" where
  "snprintf_buf cap text = take (cap - 1) text"

definition strncpy_buf :: "nat \<Rightarrow> string \<Rightarrow> ('s, string) proc" where
  "strncpy_buf cap text = (if length text < cap then Ret text else Fault BufferOverflow)"

definition add_int32 :: "int \<Rightarrow> int \<Rightarrow> ('s, int) proc" where
  "add_int32 a b = (if is_int32 (a + b) then Ret (a + b) else Fault SignedOverflow)"

definition init_read :: "'a option \<Rightarrow> ('s, 'a) proc" where
  "init_read v = (case v of Some x \<Rightarrow> Ret x | None \<Rightarrow> Fault UninitRead)"

definition deref :: "'a option \<Rightarrow> ('s, 'a) proc" where
  "deref p = (case p of Some x \<Rightarrow> Ret x | None \<Rightarrow> Fault NullDeref)"

lemmas checked_ops = sprintf_buf_def strncpy_buf_def add_int32_def init_read_def deref_def

lemma calls_checked [simp]:
  "calls P (sprintf_buf n t)" "calls P (strncpy_buf n t)" "calls P (add_int32 a b)"
  "calls P (init_read v)" "calls P (deref p)"
  by (auto simp: checked_ops split: option.splits)

lemma keeps_checked [simp]:
  assumes "reflp R"
  shows "keeps R (sprintf_buf n t)" "keeps R (strncpy_buf n t)" "keeps R (add_int32 a b)"
    "keeps R (init_read v)" "keeps R (deref q)"
  using assms by (auto simp: checked_ops split: option.splits)

end
