(* ===== verification/Json_Value.thy ===== *)
theory Json_Value
  imports Proc "HOL-Library.List_Lexorder"
begin

text \<open>
  Json::Value and the two writers (src/jsoncpp/json_value.cpp, json_writer.cpp, json_tool.h).
  An object is a std::map keyed by C strings, kept here as an association list sorted by key, the
  order getMemberNames gives. A double is observed only through its %.16g rendering and its
  conversion to int, which is what JReal holds. Comments, offsets and the other writers are not
  modelled: no value the server writes carries a comment.
\<close>

datatype json =
    JNull
  | JInt int
  | JUInt int
  | JReal string "int option"
  | JStr string
  | JBool bool
  | JArr "json list"
  | JObj "(string \<times> json) list"

section \<open>Members\<close>

text \<open>operator[] with assignment: the member of the key is replaced or inserted in key order.\<close>

fun obj_update :: "string \<Rightarrow> 'v \<Rightarrow> (string \<times> 'v) list \<Rightarrow> (string \<times> 'v) list" where
  "obj_update k v [] = [(k, v)]"
| "obj_update k v ((k', v') # m) =
     (if k = k' then (k, v) # m
      else if k < k' then (k, v) # (k', v') # m
      else (k', v') # obj_update k v m)"

definition obj_sorted :: "(string \<times> 'v) list \<Rightarrow> bool" where
  "obj_sorted m \<longleftrightarrow> sorted_wrt (<) (map fst m)"

text \<open>
  The contract of a keyed store: what a lookup gives after an update. The members of an object
  provide it here; the configuration map provides it in theory Config_Reader.
\<close>

locale keyed_store =
  fixes empty_store :: "'m"
    and update_store :: "'k \<Rightarrow> 'v \<Rightarrow> 'm \<Rightarrow> 'm"
    and lookup_store :: "'m \<Rightarrow> 'k \<Rightarrow> 'v option"
    and store_inv :: "'m \<Rightarrow> bool"
  assumes lookup_empty: "lookup_store empty_store k = None"
    and lookup_update: "store_inv m \<Longrightarrow> lookup_store (update_store k v m) = (lookup_store m)(k \<mapsto> v)"
    and inv_empty: "store_inv empty_store"
    and inv_update: "store_inv m \<Longrightarrow> store_inv (update_store k v m)"
begin

definition store_all :: "('k \<times> 'v) list \<Rightarrow> 'm" where
  "store_all kvs = fold (\<lambda>(k, v). update_store k v) kvs empty_store"

lemma fold_inv: "store_inv m \<Longrightarrow> store_inv (fold (\<lambda>(k, v). update_store k v) kvs m)"
  by (induction kvs arbitrary: m) (auto simp: inv_update)

lemma fold_lookup:
  "store_inv m \<Longrightarrow>
   lookup_store (fold (\<lambda>(k, v). update_store k v) kvs m) = lookup_store m ++ map_of (rev kvs)"
  by (induction kvs arbitrary: m) (auto simp: inv_update lookup_update map_add_def fun_eq_iff split: option.splits)

lemma store_all_inv: "store_inv (store_all kvs)"
  by (simp add: store_all_def fold_inv inv_empty)

lemma store_all_lookup: "lookup_store (store_all kvs) = map_of (rev kvs)"
proof -
  have "lookup_store empty_store = Map.empty"
    by (simp add: fun_eq_iff lookup_empty)
  then show ?thesis
    by (simp add: store_all_def fold_lookup inv_empty)
qed

end

lemma obj_update_keys: "fst ` set (obj_update k v m) = insert k (fst ` set m)"
  by (induction k v m rule: obj_update.induct) (simp_all add: insert_commute)

lemma obj_sorted_update: "obj_sorted m \<Longrightarrow> obj_sorted (obj_update k v m)"
  unfolding obj_sorted_def
proof (induction m)
  case Nil
  then show ?case by simp
next
  case (Cons p m)
  obtain k' v' where p: "p = (k', v')" by (cases p)
  with Cons.prems have less: "\<forall>x \<in> fst ` set m. k' < x" and m: "sorted_wrt (<) (map fst m)"
    by auto
  have "\<forall>x \<in> fst ` set (obj_update k v m). k' < x" if "k' < k"
    using that less by (auto simp: obj_update_keys)
  with Cons.IH m p less show ?case
    by (auto simp: not_less_iff_gr_or_eq dest: order.strict_trans)
qed

lemma map_of_obj_update: "obj_sorted m \<Longrightarrow> map_of (obj_update k v m) = (map_of m)(k \<mapsto> v)"
  by (induction m) (auto simp: obj_sorted_def fun_eq_iff)

lemma obj_update_last: "obj_sorted (acc @ (k, v) # m) \<Longrightarrow> obj_update k v acc = acc @ [(k, v)]"
  by (induction acc) (auto simp: obj_sorted_def)

interpretation members: keyed_store "[]" obj_update map_of obj_sorted
  by unfold_locales (auto simp: map_of_obj_update obj_sorted_update, simp add: obj_sorted_def)

text \<open>Building a response object member by member.\<close>

definition json_object :: "(string \<times> json) list \<Rightarrow> json" where
  "json_object kvs = JObj (members.store_all kvs)"

section \<open>Reading a value\<close>

definition isNull :: "json \<Rightarrow> bool" where
  "isNull v \<longleftrightarrow> v = JNull"

text \<open>
  root[key] on a value that is neither null nor an object throws std::runtime_error; on null and on
  objects a missing member reads as null.
\<close>

definition json_member :: "json \<Rightarrow> string \<Rightarrow> ('s, json) proc" where
  "json_member v key =
     (case v of
        JNull \<Rightarrow> Ret JNull
      | JObj m \<Rightarrow> Ret (case map_of m key of None \<Rightarrow> JNull | Some x \<Rightarrow> x)
      | _ \<Rightarrow> Fault JsonThrow)"

definition valueToString :: "int \<Rightarrow> string" where
  "valueToString i = show_int i"

definition asString :: "json \<Rightarrow> ('s, string) proc" where
  "asString v =
     (case v of
        JNull \<Rightarrow> Ret []
      | JStr s \<Rightarrow> Ret (c_str s)
      | JBool b \<Rightarrow> Ret (if b then ''true'' else ''false'')
      | JInt i \<Rightarrow> Ret (valueToString i)
      | JUInt i \<Rightarrow> Ret (valueToString i)
      | JReal text _ \<Rightarrow> Ret text
      | JArr _ \<Rightarrow> Fault JsonThrow
      | JObj _ \<Rightarrow> Fault JsonThrow)"

definition asInt :: "json \<Rightarrow> ('s, int) proc" where
  "asInt v =
     (case v of
        JInt i \<Rightarrow> if is_int32 i then Ret i else Fault JsonThrow
      | JUInt i \<Rightarrow> if i < 2 ^ 31 then Ret i else Fault JsonThrow
      | JReal _ j \<Rightarrow> (case j of Some i \<Rightarrow> Ret i | None \<Rightarrow> Fault JsonThrow)
      | JNull \<Rightarrow> Ret 0
      | JBool b \<Rightarrow> Ret (if b then 1 else 0)
      | _ \<Rightarrow> Fault JsonThrow)"

text \<open>
  The step every request decoder repeats: a null member fails the decoder (None), any other member
  is converted.
\<close>

definition str_field :: "json \<Rightarrow> string \<Rightarrow> ('s, string option) proc" where
  "str_field root key =
     bindp (json_member root key) (\<lambda>v.
     if isNull v then Ret None else bindp (asString v) (\<lambda>s. Ret (Some s)))"

definition int_field :: "json \<Rightarrow> string \<Rightarrow> ('s, int option) proc" where
  "int_field root key =
     bindp (json_member root key) (\<lambda>v.
     if isNull v then Ret None else bindp (asInt v) (\<lambda>i. Ret (Some i)))"

text \<open>Several string members in a row; the first null one fails the decoder.\<close>

fun str_fields :: "json \<Rightarrow> string list \<Rightarrow> ('s, string list option) proc" where
  "str_fields root [] = Ret (Some [])"
| "str_fields root (key # keys) =
     bindp (str_field root key) (\<lambda>v.
       case v of
         None \<Rightarrow> Ret None
       | Some s \<Rightarrow> bindp (str_fields root keys) (\<lambda>vs. Ret (map_option (\<lambda>ss. s # ss) vs)))"

text \<open>A member that may be missing leaves the variable empty.\<close>

definition opt_str_field :: "json \<Rightarrow> string \<Rightarrow> ('s, string) proc" where
  "opt_str_field root key =
     bindp (str_field root key) (\<lambda>v. Ret (case v of None \<Rightarrow> [] | Some s \<Rightarrow> s))"

section \<open>Quoting\<close>

definition isControlCharacter :: "char \<Rightarrow> bool" where
  "isControlCharacter c \<longleftrightarrow> 0 < (of_char c :: nat) \<and> (of_char c :: nat) \<le> 31"

definition hex_upper :: "nat \<Rightarrow> char" where
  "hex_upper d = (if d < 10 then char_of (48 + d) else char_of (55 + d))"

definition escape_char :: "char \<Rightarrow> string" where
  "escape_char c =
     (if c = CHR 0x22 then [CHR 0x5C, CHR 0x22]
      else if c = CHR 0x5C then [CHR 0x5C, CHR 0x5C]
      else if c = CHR 0x08 then [CHR 0x5C, CHR ''b'']
      else if c = CHR 0x0C then [CHR 0x5C, CHR ''f'']
      else if c = CHR 0x0A then [CHR 0x5C, CHR ''n'']
      else if c = CHR 0x0D then [CHR 0x5C, CHR ''r'']
      else if c = CHR 0x09 then [CHR 0x5C, CHR ''t'']
      else if isControlCharacter c then
        [CHR 0x5C, CHR ''u'', CHR ''0'', CHR ''0'',
         hex_upper (of_char c div 16), hex_upper (of_char c mod 16)]
      else [c])"

definition needs_escape :: "char \<Rightarrow> bool" where
  "needs_escape c \<longleftrightarrow>
     c \<in> set [CHR 0x22, CHR 0x5C, CHR 0x08, CHR 0x0C, CHR 0x0A, CHR 0x0D, CHR 0x09] \<or>
     isControlCharacter c"

text \<open>
  valueToQuotedString copies a text with nothing to escape in one piece and only otherwise walks
  it; quoted_spec is the walk alone.
\<close>

definition valueToQuotedString :: "string \<Rightarrow> string" where
  "valueToQuotedString s =
     (if \<not> list_ex needs_escape (c_str s) then [CHR 0x22] @ c_str s @ [CHR 0x22]
      else [CHR 0x22] @ concat (map escape_char (c_str s)) @ [CHR 0x22])"

definition quoted_spec :: "string \<Rightarrow> string" where
  "quoted_spec s = CHR 0x22 # concat (map escape_char (c_str s)) @ [CHR 0x22]"

lemma escape_char_id: "\<not> needs_escape c \<Longrightarrow> escape_char c = [c]"
  by (simp add: escape_char_def needs_escape_def)

lemma concat_escape_id: "\<not> list_ex needs_escape s \<Longrightarrow> concat (map escape_char s) = s"
  by (induction s) (auto simp: escape_char_id)

lemma valueToQuotedString_eq: "valueToQuotedString s = quoted_spec s"
  by (simp add: valueToQuotedString_def quoted_spec_def concat_escape_id)

section \<open>FastWriter\<close>

definition leaf_text :: "json \<Rightarrow> string" where
  "leaf_text v =
     (case v of
        JInt i \<Rightarrow> valueToString i
      | JUInt i \<Rightarrow> valueToString i
      | JReal text _ \<Rightarrow> text
      | JStr s \<Rightarrow> valueToQuotedString s
      | JBool b \<Rightarrow> (if b then ''true'' else ''false'')
      | _ \<Rightarrow> ''null'')"

fun fast_value :: "json \<Rightarrow> string"
  and fast_elems :: "json list \<Rightarrow> string"
  and fast_members :: "(string \<times> json) list \<Rightarrow> string"
where
  "fast_value (JArr xs) = ''['' @ fast_elems xs @ '']''"
| "fast_value (JObj m) = ''{'' @ fast_members m @ ''}''"
| "fast_value v = leaf_text v"
| "fast_elems [] = []"
| "fast_elems [x] = fast_value x"
| "fast_elems (x # y # xs) = fast_value x @ '','' @ fast_elems (y # xs)"
| "fast_members [] = []"
| "fast_members [(k, x)] = valueToQuotedString k @ '':'' @ fast_value x"
| "fast_members ((k, x) # y # m) =
     valueToQuotedString k @ '':'' @ fast_value x @ '','' @ fast_members (y # m)"

definition FastWriter_write :: "json \<Rightarrow> string" where
  "FastWriter_write root = fast_value root @ [CHR 0x0A]"

section \<open>StyledWriter\<close>

definition rightMargin :: nat where
  "rightMargin = 74"

definition writeIndent :: "string \<Rightarrow> string \<Rightarrow> string" where
  "writeIndent doc ind =
     (if doc = [] then ind
      else if last doc = CHR '' '' then doc
      else if last doc \<noteq> CHR 0x0A then doc @ [CHR 0x0A] @ ind
      else doc @ ind)"

definition is_nonempty_container :: "json \<Rightarrow> bool" where
  "is_nonempty_container v = (case v of JArr xs \<Rightarrow> xs \<noteq> [] | JObj m \<Rightarrow> m \<noteq> [] | _ \<Rightarrow> False)"

text \<open>The text pushValue collects for a child of an array that is neither big nor nested.\<close>

definition child_text :: "json \<Rightarrow> string" where
  "child_text v = (case v of JArr _ \<Rightarrow> ''[]'' | JObj _ \<Rightarrow> ''{}'' | _ \<Rightarrow> leaf_text v)"

definition array_has_child_values :: "json list \<Rightarrow> bool" where
  "array_has_child_values xs \<longleftrightarrow> \<not> (rightMargin \<le> length xs * 3 \<or> list_ex is_nonempty_container xs)"

definition isMultineArray :: "json list \<Rightarrow> bool" where
  "isMultineArray xs \<longleftrightarrow>
     \<not> array_has_child_values xs \<or>
     rightMargin \<le> 4 + (length xs - 1) * 2 + sum_list (map (\<lambda>x. length (child_text x)) xs)"

fun comma_join :: "string list \<Rightarrow> string" where
  "comma_join [] = []"
| "comma_join [x] = x"
| "comma_join (x # y # xs) = x @ '', '' @ comma_join (y # xs)"

fun styled_value :: "string \<Rightarrow> string \<Rightarrow> json \<Rightarrow> string"
  and styled_elems :: "bool \<Rightarrow> string \<Rightarrow> string \<Rightarrow> json list \<Rightarrow> string"
  and styled_members :: "string \<Rightarrow> string \<Rightarrow> (string \<times> json) list \<Rightarrow> string"
where
  "styled_value doc ind (JObj m) =
     (if m = [] then doc @ ''{}''
      else writeIndent (styled_members (writeIndent doc ind @ ''{'') (ind @ ''   '') m) ind @ ''}'')"
| "styled_value doc ind (JArr xs) =
     (if xs = [] then doc @ ''[]''
      else if isMultineArray xs then
        writeIndent (styled_elems (array_has_child_values xs) (writeIndent doc ind @ ''['') (ind @ ''   '') xs) ind @ '']''
      else doc @ ''[ '' @ comma_join (map child_text xs) @ '' ]'')"
| "styled_value doc ind v = doc @ leaf_text v"
| "styled_elems has doc ind [] = doc"
| "styled_elems has doc ind (x # xs) =
     (let doc1 = (if has then writeIndent doc ind @ child_text x else styled_value (writeIndent doc ind) ind x)
      in if xs = [] then doc1 else styled_elems has (doc1 @ '','') ind xs)"
| "styled_members doc ind [] = doc"
| "styled_members doc ind ((k, x) # m) =
     (let doc1 = styled_value (writeIndent doc ind @ valueToQuotedString k @ '' : '') ind x
      in if m = [] then doc1 else styled_members (doc1 @ '','') ind m)"

definition toStyledString :: "json \<Rightarrow> string" where
  "toStyledString root = styled_value [] [] root @ [CHR 0x0A]"

section \<open>Facts the request decoders share\<close>

lemma results_asString: "results nul_free (asString v)" if "\<And>t j. v = JReal t j \<Longrightarrow> nul_free t"
  using that by (auto simp: asString_def valueToString_def NUL_def split: json.splits)

lemma calls_json [simp]:
  "calls P (json_member v k)" "calls P (asString v)" "calls P (asInt v)"
  by (auto simp: json_member_def asString_def asInt_def split: json.splits option.splits)

lemma calls_fields [simp]: "calls P (str_field v k)" "calls P (int_field v k)"
  by (auto simp: str_field_def int_field_def intro!: calls_bindpI)

lemma keeps_json [simp]:
  assumes "reflp R"
  shows "keeps R (json_member v k)" "keeps R (asString v)" "keeps R (asInt v)"
  using assms
  by (auto simp: json_member_def asString_def asInt_def split: json.splits option.splits)

lemma keeps_fields [simp]:
  assumes "reflp R" and "transp R"
  shows "keeps R (str_field v k)" "keeps R (int_field v k)"
  using assms by (auto simp: str_field_def int_field_def intro!: keeps_bindp)

lemma str_field_object [simp]:
  "map_of m k = Some (JStr s) \<Longrightarrow> str_field (JObj m) k = Ret (Some (c_str s))"
  "map_of m k = None \<Longrightarrow> str_field (JObj m) k = Ret None"
  by (simp_all add: str_field_def json_member_def asString_def isNull_def)

lemma int_field_object [simp]:
  "map_of m k = Some (JInt i) \<Longrightarrow> is_int32 i \<Longrightarrow> int_field (JObj m) k = Ret (Some i)"
  "map_of m k = None \<Longrightarrow> int_field (JObj m) k = Ret None"
  by (simp_all add: int_field_def json_member_def asInt_def isNull_def)

declare str_fields.simps [simp del]

lemma calls_str_fields [simp]: "calls P (str_fields v ks)" "calls P (opt_str_field v k)"
  by (induction ks) (auto simp: opt_str_field_def str_fields.simps split: option.splits intro!: calls_bindpI)

lemma keeps_str_fields [simp]:
  assumes "reflp R" and "transp R"
  shows "keeps R (str_fields v ks)" "keeps R (opt_str_field v k)"
  using assms by (induction ks) (auto simp: opt_str_field_def str_fields.simps split: option.splits intro!: keeps_bindp)

lemma results_str_fields:
  "results (\<lambda>r. \<forall>vs. r = Some vs \<longrightarrow> length vs = length ks)
     (str_fields v ks :: ('s, string list option) proc)"
proof (induction ks)
  case (Cons k ks)
  have "results (\<lambda>r. \<forall>vs. r = Some vs \<longrightarrow> length vs = Suc (length ks))
      (bindp (str_fields v ks :: ('s, string list option) proc) (\<lambda>vs. Ret (map_option (\<lambda>ss. s # ss) vs)))"
    for s
    by (rule results_bindp [OF Cons.IH]) auto
  then show ?case
    by (auto simp: str_fields.simps split: option.splits intro!: results_bindpI)
qed (simp add: str_fields.simps)

end
