(* ===== verification/Json_Reader.thy ===== *)
theory Json_Reader
  imports Json_Value
begin

text \<open>
  Json::Reader::parse (src/jsoncpp/json_reader.cpp) with the default features: comments allowed,
  any root. The reader is a cursor into the document, here the list of characters still to read;
  getNextChar and a dereference at the end read NUL. Every recursive call spends one unit of fuel;
  Reader_parse starts with one more than twice the length of the document, which reader_total shows
  to be enough. A failed parse returns false whatever the error recovery skips, so Bad stands for it.
  The conversion of a floating point literal is the C library's and comes from the record libc.
\<close>

datatype token_type =
    TObjectBegin | TObjectEnd | TArrayBegin | TArrayEnd | TString | TNumber | TTrue | TFalse
  | TNull | TArraySeparator | TMemberSeparator | TComment | TEndOfStream | TError

type_synonym token = "token_type \<times> string"

section \<open>Scanner\<close>

definition json_space :: "char \<Rightarrow> bool" where
  "json_space c \<longleftrightarrow> c \<in> set [CHR '' '', CHR 0x09, CHR 0x0D, CHR 0x0A]"

definition skipSpaces :: "string \<Rightarrow> string" where
  "skipSpaces s = dropWhile json_space s"

definition getNextChar :: "string \<Rightarrow> char \<times> string" where
  "getNextChar s = (case s of [] \<Rightarrow> (NUL, []) | c # t \<Rightarrow> (c, t))"

definition peek :: "string \<Rightarrow> char" where
  "peek s = fst (getNextChar s)"

definition match_text :: "string \<Rightarrow> string \<Rightarrow> bool \<times> string" where
  "match_text pat s = (if is_prefix pat s then (True, drop (length pat) s) else (False, s))"

fun readString :: "string \<Rightarrow> bool \<times> string" where
  "readString [] = (False, [])"
| "readString (c # s) =
     (if c = CHR 0x5C then (case s of [] \<Rightarrow> (False, []) | d # s' \<Rightarrow> readString s')
      else if c = CHR 0x22 then (True, s)
      else readString s)"

fun readCStyleComment :: "string \<Rightarrow> bool \<times> string" where
  "readCStyleComment [] = (False, [])"
| "readCStyleComment (c # s) =
     (if c = CHR ''*'' \<and> peek s = CHR ''/'' then (True, tl s) else readCStyleComment s)"

fun readCppStyleComment :: "string \<Rightarrow> string" where
  "readCppStyleComment [] = []"
| "readCppStyleComment (c # s) = (if c = CHR 0x0D \<or> c = CHR 0x0A then s else readCppStyleComment s)"

definition readComment :: "string \<Rightarrow> bool \<times> string" where
  "readComment s =
     (case getNextChar s of (c, t) \<Rightarrow>
        if c = CHR ''*'' then readCStyleComment t
        else if c = CHR ''/'' then (True, readCppStyleComment t)
        else (False, t))"

definition number_char :: "char \<Rightarrow> bool" where
  "number_char c \<longleftrightarrow> is_digit c \<or> c \<in> set [CHR ''.'', CHR ''e'', CHR ''E'', CHR ''+'', CHR ''-'']"

text \<open>One token: its type, the characters from token.start_ to token.end_, and the rest.\<close>

definition token_of :: "string \<Rightarrow> token_type \<Rightarrow> bool \<times> string \<Rightarrow> token \<times> string" where
  "token_of s ty r =
     (((if fst r then ty else TError), take (length s - length (snd r)) s), snd r)"

definition scan_token :: "char \<Rightarrow> string \<Rightarrow> token_type \<times> bool \<times> string" where
  "scan_token c t =
     (if c = CHR ''{'' then (TObjectBegin, True, t)
      else if c = CHR ''}'' then (TObjectEnd, True, t)
      else if c = CHR ''['' then (TArrayBegin, True, t)
      else if c = CHR '']'' then (TArrayEnd, True, t)
      else if c = CHR 0x22 then (TString, readString t)
      else if c = CHR ''/'' then (TComment, readComment t)
      else if is_digit c \<or> c = CHR ''-'' then (TNumber, True, dropWhile number_char t)
      else if c = CHR ''t'' then (TTrue, match_text ''rue'' t)
      else if c = CHR ''f'' then (TFalse, match_text ''alse'' t)
      else if c = CHR ''n'' then (TNull, match_text ''ull'' t)
      else if c = CHR '','' then (TArraySeparator, True, t)
      else if c = CHR '':'' then (TMemberSeparator, True, t)
      else if c = NUL then (TEndOfStream, True, t)
      else (TError, False, t))"

definition readToken :: "string \<Rightarrow> token \<times> string" where
  "readToken inp =
     (let s = skipSpaces inp; (c, t) = getNextChar s; (ty, ok, rest) = scan_token c t
      in token_of s ty (ok, rest))"

text \<open>
  skipCommentTokens reads tokens while they are comments. A comment token is never empty
  (readToken_shrinks below), so the test that the rest is shorter is always true; it is what makes
  the recursion well-founded.
\<close>

function skip_comments :: "token \<times> string \<Rightarrow> token \<times> string" where
  "skip_comments r =
     (if fst (fst r) = TComment \<and> length (snd (readToken (snd r))) < length (snd r)
      then skip_comments (readToken (snd r))
      else if fst (fst r) = TComment then readToken (snd r)
      else r)"
  by pat_completeness auto
termination
  by (relation "measure (\<lambda>r. length (snd r))") auto

declare skip_comments.simps [simp del]

definition skipCommentTokens :: "string \<Rightarrow> token \<times> string" where
  "skipCommentTokens s = skip_comments (readToken s)"

section \<open>Numbers and strings\<close>

definition is_double_lexeme :: "string \<Rightarrow> bool" where
  "is_double_lexeme lxm \<longleftrightarrow>
     list_ex (\<lambda>c. c \<in> set [CHR ''.'', CHR ''e'', CHR ''E'', CHR ''+'']) lxm \<or>
     list_ex (\<lambda>c. c = CHR ''-'') (tl lxm)"

definition decodeDouble :: "libc \<Rightarrow> string \<Rightarrow> json option" where
  "decodeDouble L lxm =
     (if scan_double L lxm then Some (JReal (format_double L lxm) (double_to_int L lxm)) else None)"

text \<open>The integer loop; None means that the literal is decoded as a double instead.\<close>

fun decode_digits :: "int \<Rightarrow> int \<Rightarrow> string \<Rightarrow> int option" where
  "decode_digits mx v [] = Some v"
| "decode_digits mx v (c # s) =
     (let digit = int (digit_val c) in
      if mx div 10 \<le> v \<and> (mx div 10 < v \<or> s \<noteq> [] \<or> mx mod 10 < digit) then None
      else decode_digits mx (v * 10 + digit) s)"

definition decodeNumber :: "libc \<Rightarrow> string \<Rightarrow> json option" where
  "decodeNumber L lxm =
     (if is_double_lexeme lxm then decodeDouble L lxm
      else
        let neg = (peek lxm = CHR ''-''); digits = (if neg then tl lxm else lxm) in
        if \<not> list_all is_digit digits then None
        else
          (case decode_digits (if neg then 2 ^ 63 else 2 ^ 64 - 1) 0 digits of
             None \<Rightarrow> decodeDouble L lxm
           | Some v \<Rightarrow> Some (if neg then JInt (- v) else if v \<le> 2 ^ 31 - 1 then JInt v else JUInt v)))"

definition hex_val :: "char \<Rightarrow> nat option" where
  "hex_val c =
     (let n = (of_char c :: nat) in
      if 48 \<le> n \<and> n \<le> 57 then Some (n - 48)
      else if 97 \<le> n \<and> n \<le> 102 then Some (n - 87)
      else if 65 \<le> n \<and> n \<le> 70 then Some (n - 55)
      else None)"

definition decodeUnicodeEscapeSequence :: "string \<Rightarrow> (nat \<times> string) option" where
  "decodeUnicodeEscapeSequence s =
     (case s of
        a # b # c # d # t \<Rightarrow>
          (case (hex_val a, hex_val b, hex_val c, hex_val d) of
             (Some p, Some q, Some r, Some u) \<Rightarrow> Some (((p * 16 + q) * 16 + r) * 16 + u, t)
           | _ \<Rightarrow> None)
      | _ \<Rightarrow> None)"

definition decodeUnicodeCodePoint :: "string \<Rightarrow> (nat \<times> string) option" where
  "decodeUnicodeCodePoint s =
     (case decodeUnicodeEscapeSequence s of
        None \<Rightarrow> None
      | Some (u, t) \<Rightarrow>
          if 0xD800 \<le> u \<and> u \<le> 0xDBFF then
            (case t of
               a # b # t' \<Rightarrow>
                 if length t < 6 then None
                 else if a = CHR 0x5C \<and> b = CHR ''u'' then
                   (case decodeUnicodeEscapeSequence t' of
                      None \<Rightarrow> None
                    | Some (v, t'') \<Rightarrow> Some (0x10000 + (u mod 1024) * 1024 + v mod 1024, t''))
                 else None
             | _ \<Rightarrow> None)
          else Some (u, t))"

definition codePointToUTF8 :: "nat \<Rightarrow> string" where
  "codePointToUTF8 cp =
     (if cp \<le> 0x7F then [char_of cp]
      else if cp \<le> 0x7FF then [char_of (192 + cp div 64), char_of (128 + cp mod 64)]
      else if cp \<le> 0xFFFF then
        [char_of (224 + cp div 4096), char_of (128 + cp div 64 mod 64), char_of (128 + cp mod 64)]
      else if cp \<le> 0x10FFFF then
        [char_of (240 + cp div 262144), char_of (128 + cp div 4096 mod 64),
         char_of (128 + cp div 64 mod 64), char_of (128 + cp mod 64)]
      else [])"

text \<open>
  decodeString works on the characters between the quotes. decode_chars is its loop; each round
  consumes at least one character and spends one unit of fuel, so the length of the text is enough.
\<close>

definition simple_escape :: "char \<Rightarrow> char option" where
  "simple_escape e =
     (if e = CHR 0x22 then Some (CHR 0x22)
      else if e = CHR ''/'' then Some (CHR ''/'')
      else if e = CHR 0x5C then Some (CHR 0x5C)
      else if e = CHR ''b'' then Some (CHR 0x08)
      else if e = CHR ''f'' then Some (CHR 0x0C)
      else if e = CHR ''n'' then Some (CHR 0x0A)
      else if e = CHR ''r'' then Some (CHR 0x0D)
      else if e = CHR ''t'' then Some (CHR 0x09)
      else None)"

fun decode_chars :: "nat \<Rightarrow> string \<Rightarrow> string option" where
  "decode_chars n [] = Some []"
| "decode_chars 0 (c # s) = None"
| "decode_chars (Suc n) (c # s) =
     (if c = CHR 0x22 then Some []
      else if c = CHR 0x5C then
        (case s of
           [] \<Rightarrow> None
         | e # t \<Rightarrow>
             if e = CHR ''u'' then
               (case decodeUnicodeCodePoint t of
                  None \<Rightarrow> None
                | Some (u, t') \<Rightarrow> map_option (\<lambda>r. codePointToUTF8 u @ r) (decode_chars n t'))
             else
               (case simple_escape e of
                  None \<Rightarrow> None
                | Some x \<Rightarrow> map_option (\<lambda>r. x # r) (decode_chars n t)))
      else map_option (\<lambda>r. c # r) (decode_chars n s))"

definition decodeString :: "string \<Rightarrow> string option" where
  "decodeString lxm =
     (let content = take (length lxm - 2) (drop 1 lxm) in decode_chars (length content) content)"

section \<open>Values\<close>

datatype 'a read = OutOfFuel | Bad | Good 'a string

fun readValue :: "libc \<Rightarrow> nat \<Rightarrow> string \<Rightarrow> json read"
  and readObject :: "libc \<Rightarrow> nat \<Rightarrow> string \<Rightarrow> (string \<times> json) list \<Rightarrow> string \<Rightarrow> json read"
  and readArray :: "libc \<Rightarrow> nat \<Rightarrow> json list \<Rightarrow> string \<Rightarrow> json read"
where
  "readValue L 0 s = OutOfFuel"
| "readValue L (Suc n) s =
     (case skipCommentTokens s of ((ty, lxm), t) \<Rightarrow>
        (case ty of
           TObjectBegin \<Rightarrow> readObject L n [] [] t
         | TArrayBegin \<Rightarrow>
             (if peek (skipSpaces t) = CHR '']'' then Good (JArr []) (snd (readToken t))
              else readArray L n [] t)
         | TNumber \<Rightarrow> (case decodeNumber L lxm of None \<Rightarrow> Bad | Some v \<Rightarrow> Good v t)
         | TString \<Rightarrow> (case decodeString lxm of None \<Rightarrow> Bad | Some v \<Rightarrow> Good (JStr v) t)
         | TTrue \<Rightarrow> Good (JBool True) t
         | TFalse \<Rightarrow> Good (JBool False) t
         | TNull \<Rightarrow> Good JNull t
         | _ \<Rightarrow> Bad))"
| "readObject L 0 name m s = OutOfFuel"
| "readObject L (Suc n) name m s =
     (case skipCommentTokens s of ((ty, lxm), t) \<Rightarrow>
        if ty = TObjectEnd \<and> name = [] then Good (JObj m) t
        else if ty = TString then
          (case decodeString lxm of
             None \<Rightarrow> Bad
           | Some key \<Rightarrow>
               (case readToken t of ((cty, _), t1) \<Rightarrow>
                  if cty \<noteq> TMemberSeparator then Bad
                  else
                    (case readValue L n t1 of
                       OutOfFuel \<Rightarrow> OutOfFuel
                     | Bad \<Rightarrow> Bad
                     | Good v t2 \<Rightarrow>
                         (let m' = obj_update (c_str key) v m; first = readToken t2;
                              comma = skip_comments first
                          in if fst (fst first) \<notin> {TObjectEnd, TArraySeparator, TComment} then Bad
                             else if fst (fst comma) = TObjectEnd then Good (JObj m') (snd comma)
                             else readObject L n key m' (snd comma)))))
        else Bad)"
| "readArray L 0 xs s = OutOfFuel"
| "readArray L (Suc n) xs s =
     (case readValue L n s of
        OutOfFuel \<Rightarrow> OutOfFuel
      | Bad \<Rightarrow> Bad
      | Good v t \<Rightarrow>
          (case skipCommentTokens t of ((ty, _), t') \<Rightarrow>
             if ty = TArrayEnd then Good (JArr (xs @ [v])) t'
             else if ty = TArraySeparator then readArray L n (xs @ [v]) t'
             else Bad))"

definition reader_fuel :: "string \<Rightarrow> nat" where
  "reader_fuel doc = 2 * length doc + 1"

definition Reader_parse :: "string \<Rightarrow> ('s, json option) proc" where
  "Reader_parse doc =
     Libc (\<lambda>L. Ret (case readValue L (reader_fuel doc) doc of
                       OutOfFuel \<Rightarrow> None | Bad \<Rightarrow> None | Good v rest \<Rightarrow> Some v))"

section \<open>The cursor only moves forward\<close>

lemma length_skipSpaces_le: "length (skipSpaces s) \<le> length s"
  by (simp add: skipSpaces_def length_dropWhile_le)

lemma readString_le: "length (snd (readString s)) \<le> length s"
proof (induction s rule: readString.induct)
  case (2 c s)
  then show ?case by (cases s) (simp_all add: le_SucI del: char.inject)
qed simp

lemma readCStyleComment_le: "length (snd (readCStyleComment s)) \<le> length s"
proof (induction s)
  case (Cons c s)
  then show ?case by (cases s) (simp_all add: le_SucI del: char.inject)
qed simp

lemma readCppStyleComment_le: "length (readCppStyleComment s) \<le> length s"
proof (induction s)
  case (Cons c s)
  then show ?case by (simp add: le_SucI)
qed simp

lemma readComment_le: "length (snd (readComment s)) \<le> length s"
proof (cases s)
  case (Cons c t)
  then show ?thesis
    using readCStyleComment_le [of t] readCppStyleComment_le [of t]
    by (auto simp: readComment_def getNextChar_def)
qed (simp add: readComment_def getNextChar_def NUL_def)

lemma match_text_le: "length (snd (match_text p s)) \<le> length s"
  by (simp add: match_text_def)

lemma token_of_rest [simp]: "snd (token_of s ty r) = snd r"
  by (simp add: token_of_def)

lemma if_both: "P x \<Longrightarrow> P y \<Longrightarrow> P (if b then x else y)"
  by simp

lemma scan_token_le: "length (snd (snd (scan_token c t))) \<le> length t"
  unfolding scan_token_def
  by (intro if_both [where P = "\<lambda>r. length (snd (snd r)) \<le> length t"])
     (simp_all add: readString_le readComment_le match_text_le length_dropWhile_le)

lemma readToken_le:
  assumes "skipSpaces s = c # t"
  shows "length (snd (readToken s)) \<le> length t"
  using assms scan_token_le [of c t]
  by (cases "scan_token c t") (simp add: readToken_def getNextChar_def)

lemma readToken_end: "skipSpaces s = [] \<Longrightarrow> readToken s = ((TEndOfStream, []), [])"
  by (simp add: readToken_def getNextChar_def NUL_def token_of_def scan_token_def is_digit_def)

text \<open>Every token but the end of the stream is at least one character long.\<close>

lemma readToken_shrinks:
  assumes "fst (fst (readToken s)) \<noteq> TEndOfStream"
  shows "length (snd (readToken s)) < length s"
proof (cases "skipSpaces s")
  case Nil
  with assms show ?thesis by (simp add: readToken_end)
next
  case (Cons c t)
  then show ?thesis
    using readToken_le [OF Cons] length_skipSpaces_le [of s] by simp
qed

lemma readToken_rest_le: "length (snd (readToken s)) \<le> length s"
  by (cases "fst (fst (readToken s)) = TEndOfStream"; cases "skipSpaces s")
     (use readToken_shrinks [of s] readToken_le [of s] length_skipSpaces_le [of s] in
       \<open>auto simp: readToken_end intro: le_trans\<close>)

lemma skip_comments_le: "length (snd (skip_comments r)) \<le> length (snd r)"
proof (induction r rule: skip_comments.induct)
  case (1 r)
  show ?case
    using 1 readToken_rest_le [of "snd r"]
    by (subst skip_comments.simps) auto
qed

lemma skip_comments_shrinks:
  "fst (fst (skip_comments r)) \<noteq> TEndOfStream \<Longrightarrow> fst (fst r) = TComment \<Longrightarrow>
   length (snd (skip_comments r)) < length (snd r)"
proof (induction r rule: skip_comments.induct)
  case (1 r)
  show ?case
  proof (cases "length (snd (readToken (snd r))) < length (snd r)")
    case True
    with 1 skip_comments_le [of "readToken (snd r)"] show ?thesis
      by (subst skip_comments.simps) auto
  next
    case False
    with 1 readToken_shrinks [of "snd r"] show ?thesis
      by (subst (asm) skip_comments.simps, subst skip_comments.simps) auto
  qed
qed

lemma skipCommentTokens_shrinks:
  assumes "skipCommentTokens s = ((ty, lxm), t)" and "ty \<noteq> TEndOfStream"
  shows "length t < length s"
proof (cases "fst (fst (readToken s)) = TComment")
  case True
  then show ?thesis
    using assms skip_comments_shrinks [of "readToken s"] readToken_rest_le [of s]
    by (simp add: skipCommentTokens_def)
next
  case False
  with assms have "readToken s = ((ty, lxm), t)"
    by (simp add: skipCommentTokens_def skip_comments.simps [of "readToken s"])
  with assms(2) show ?thesis
    using readToken_shrinks [of s] by simp
qed


lemma skip_comments_not_longer:
  assumes "skip_comments r = ((ty, lxm), t)"
  shows "length t \<le> length (snd r)"
  using assms skip_comments_le [of r] by simp

lemma readToken_rest_leD: "readToken s = (tok, t) \<Longrightarrow> length t \<le> length s"
  using readToken_rest_le [of s] by simp

text \<open>
  A value that was read has consumed a character at least, and a reader whose fuel is more than
  twice the text never runs out of it.
\<close>

definition shrinks :: "string \<Rightarrow> json read \<Rightarrow> bool" where
  "shrinks s r \<longleftrightarrow> (\<forall>v t. r = Good v t \<longrightarrow> length t < length s)"

lemma shrinks_simps [simp]:
  "shrinks s OutOfFuel" "shrinks s Bad" "shrinks s (Good v t) \<longleftrightarrow> length t < length s"
  by (simp_all add: shrinks_def)

lemma shrinks_trans: "shrinks t r \<Longrightarrow> length t \<le> length s \<Longrightarrow> shrinks s r"
  unfolding shrinks_def by fastforce

lemma read_shrinks:
  "shrinks s (readValue L n s) \<and> shrinks s (readObject L n name m s) \<and> shrinks s (readArray L n xs s)"
proof (induction n arbitrary: s name m xs)
  case (Suc n)
  obtain ty lxm r where tok: "skipCommentTokens s = ((ty, lxm), r)"
    by (metis surj_pair)
  have r: "ty \<noteq> TEndOfStream \<Longrightarrow> length r < length s"
    using tok by (rule skipCommentTokens_shrinks)
  have sub: "shrinks s (readObject L n [] [] r)" "shrinks s (readArray L n [] r)"
    if "ty \<noteq> TEndOfStream"
    using Suc.IH r [OF that] shrinks_trans less_imp_le by blast+
  have V: "shrinks s (readValue L (Suc n) s)"
    using tok r sub readToken_rest_le [of r]
    by (auto split: token_type.splits option.splits)
  have O: "shrinks s (readObject L (Suc n) name m s)"
  proof (cases "ty = TString")
    case True
    obtain cty cl t1 where t1: "readToken r = ((cty, cl), t1)"
      by (metis surj_pair)
    have "length t1 < length s"
      using r True readToken_rest_leD [OF t1] by simp
    moreover have "shrinks t1 (readValue L n t1)"
      using Suc.IH by blast
    moreover have "length (snd (skip_comments (readToken t2))) \<le> length t2" for t2
      using skip_comments_le [of "readToken t2"] readToken_rest_le [of t2] by simp
    moreover have "shrinks t2 (readObject L n k m' t2)" for t2 k m'
      using Suc.IH by blast
    ultimately show ?thesis
      using True tok t1 
      by (auto simp: Let_def split: option.splits read.splits) (meson le_less_trans less_imp_le less_trans shrinks_trans)+
  qed (use tok r in auto)
  have A: "shrinks s (readArray L (Suc n) xs s)"
  proof (cases "readValue L n s")
    case (Good v t)
    have "length t < length s"
      using Suc.IH [of s] Good by (simp add: shrinks_def)
    moreover obtain ty' lxm' t' where t': "skipCommentTokens t = ((ty', lxm'), t')"
      by (metis surj_pair)
    moreover have "shrinks t' (readArray L n (xs @ [v]) t')"
      using Suc.IH by blast
    ultimately show ?thesis
      using Good skipCommentTokens_shrinks [OF t'] by (auto elim!: shrinks_trans)
  qed simp_all
  show ?case using V O A by blast
qed simp

lemma reader_fuel_enough:
  "(2 * length s < n \<longrightarrow> readValue L n s \<noteq> OutOfFuel) \<and>
   (2 * length s < n \<longrightarrow> readObject L n name m s \<noteq> OutOfFuel) \<and>
   (2 * length s + 1 < n \<longrightarrow> readArray L n xs s \<noteq> OutOfFuel)"
proof (induction n arbitrary: s name m xs)
  case (Suc n)
  note IHV = Suc.IH [THEN conjunct1, rule_format]
  note IHO = Suc.IH [THEN conjunct2, THEN conjunct1, rule_format]
  note IHA = Suc.IH [THEN conjunct2, THEN conjunct2, rule_format]
  obtain ty lxm r where tok: "skipCommentTokens s = ((ty, lxm), r)"
    by (metis surj_pair)
  have r: "ty \<noteq> TEndOfStream \<Longrightarrow> length r < length s"
    using tok by (rule skipCommentTokens_shrinks)
  have V: "readValue L (Suc n) s \<noteq> OutOfFuel" if "2 * length s < Suc n"
    using tok r that by (auto intro!: IHO IHA split: token_type.splits option.splits)
  have O: "readObject L (Suc n) name m s \<noteq> OutOfFuel" if n: "2 * length s < Suc n"
  proof (cases "ty = TString")
    case True
    obtain cty cl t1 where t1: "readToken r = ((cty, cl), t1)"
      by (metis surj_pair)
    have len: "length t1 < length s"
      using r True readToken_rest_leD [OF t1] by simp
    have val: "readValue L n t1 \<noteq> OutOfFuel"
      by (rule IHV) (use len n in simp)
    have rest: "readObject L n k m' (snd (skip_comments (readToken t2))) \<noteq> OutOfFuel"
      if "readValue L n t1 = Good v t2" for v t2 k m'
      using that conjunct1 [OF read_shrinks [of t1 L n]] skip_comments_le [of "readToken t2"]
        readToken_rest_le [of t2] len n
      by (intro IHO) (simp add: shrinks_def)
    show ?thesis
      using True tok t1 val rest by (auto simp: Let_def split: option.splits read.splits)
  qed (use tok in auto)
  have A: "readArray L (Suc n) xs s \<noteq> OutOfFuel" if n: "2 * length s + 1 < Suc n"
  proof (cases "readValue L n s")
    case OutOfFuel
    with IHV [of s] n show ?thesis by simp
  next
    case (Good v t)
    have "length t < length s"
      using read_shrinks [of s L n] Good by (simp add: shrinks_def)
    moreover obtain ty' lxm' t' where t': "skipCommentTokens t = ((ty', lxm'), t')"
      by (metis surj_pair)
    ultimately show ?thesis
      using Good n skipCommentTokens_shrinks [OF t'] by (auto intro!: IHA)
  qed simp
  show ?case using V O A by blast
qed simp

lemma reader_total: "readValue L (reader_fuel doc) doc \<noteq> OutOfFuel"
  using reader_fuel_enough [of doc "reader_fuel doc"] by (simp add: reader_fuel_def)

lemma calls_Reader_parse [simp]: "calls P (Reader_parse doc)"
  by (simp add: Reader_parse_def)

lemma keeps_Reader_parse [simp]: "reflp R \<Longrightarrow> keeps R (Reader_parse doc)"
  by (simp add: Reader_parse_def keeps_def reflp_def)

lemma run_Reader_parse [simp]:
  "run E (Reader_parse doc) s w =
     (Done (case readValue (env_libc E) (reader_fuel doc) doc of
              Good v rest \<Rightarrow> Some v | _ \<Rightarrow> None), s, w)"
  by (simp add: Reader_parse_def split: read.splits)

section \<open>Request decoders\<close>

text \<open>
  Every decodeXxxJson parses the body and reads its string members in order; None is the result -1.
\<close>

definition parse_request :: "string \<Rightarrow> (json \<Rightarrow> ('s, 'a option) proc) \<Rightarrow> ('s, 'a option) proc" where
  "parse_request str_json k =
     bindp (Reader_parse str_json) (\<lambda>res. case res of None \<Rightarrow> Ret None | Some root \<Rightarrow> k root)"

lemma calls_parse_request [simp, intro!]: "(\<And>root. calls P (k root)) \<Longrightarrow> calls P (parse_request s k)"
  by (auto simp: parse_request_def split: option.splits intro!: calls_bindpI)

lemma keeps_parse_request [simp, intro!]:
  "reflp R \<Longrightarrow> transp R \<Longrightarrow> (\<And>root. keeps R (k root)) \<Longrightarrow> keeps R (parse_request s k)"
  by (auto simp: parse_request_def split: option.splits intro!: keeps_bindp)

definition encode_code :: "int \<Rightarrow> string" where
  "encode_code ret = FastWriter_write (json_object [(''code'', JInt ret)])"

lemma encode_code_text: "encode_code i = ''{'' @ [CHR 0x22] @ ''code'' @ [CHR 0x22] @ '':'' @ show_int i @ ''}'' @ [CHR 0x0A]"
  by (simp add: encode_code_def FastWriter_write_def json_object_def members.store_all_def
      valueToQuotedString_def leaf_text_def valueToString_def c_str_def NUL_def needs_escape_def
      isControlCharacter_def)

end
