(* ===== verification/Util_Pdu.thy ===== *)
theory Util_Pdu
  imports Prelude
begin

text \<open>
  base/util_pdu.cc: the growing buffer CSimpleBuffer every connection reads into and writes from, the
  byte stream CByteStream with its big-endian integers, and the two functions that turn an id into
  the path of a short URL and back. Sizes and positions are uint32_t: natural numbers with the
  wrap-around written out. A result None is an access outside of the allocated memory, except where
  the text says it is a CPduException.
\<close>

unbundle bit_operations_syntax

definition u32 :: "nat \<Rightarrow> nat" where
  "u32 n = n mod 2 ^ 32"

lemma u32_id [simp]: "n < 2 ^ 32 \<Longrightarrow> u32 n = n"
  by (simp add: u32_def)

lemma u32_less [simp]: "u32 n < 2 ^ 32"
  by (simp add: u32_def)

section \<open>CSimpleBuffer\<close>

text \<open>write_offset_ is the length of the bytes written.\<close>

record 'b simple_buffer =
  sb_alloc :: nat
  sb_data :: "'b list"

definition new_CSimpleBuffer :: "'b simple_buffer" where
  "new_CSimpleBuffer = \<lparr>sb_alloc = 0, sb_data = []\<rparr>"

definition GetWriteOffset :: "'b simple_buffer \<Rightarrow> nat" where
  "GetWriteOffset b = length (sb_data b)"

definition CSimpleBuffer_Extend :: "nat \<Rightarrow> 'b simple_buffer \<Rightarrow> 'b simple_buffer" where
  "CSimpleBuffer_Extend len b =
     (let a = u32 (GetWriteOffset b + len) in b\<lparr>sb_alloc := u32 (a + a div 4)\<rparr>)"

definition CSimpleBuffer_Write :: "'b list \<Rightarrow> 'b simple_buffer \<Rightarrow> 'b simple_buffer option" where
  "CSimpleBuffer_Write buf b =
     (let b1 = (if sb_alloc b < u32 (GetWriteOffset b + length buf) then CSimpleBuffer_Extend (length buf) b else b)
      in if GetWriteOffset b1 + length buf \<le> sb_alloc b1 then Some (b1\<lparr>sb_data := sb_data b1 @ buf\<rparr>) else None)"

text \<open>What Read copies out, and the buffer after it; a request for more than there is gets all.\<close>

definition CSimpleBuffer_Read :: "nat \<Rightarrow> 'b simple_buffer \<Rightarrow> 'b list \<times> 'b simple_buffer" where
  "CSimpleBuffer_Read len b =
     (if len = 0 then ([], b)
      else
        (let n = (if GetWriteOffset b < len then GetWriteOffset b else len)
         in (take n (sb_data b), b\<lparr>sb_data := drop n (sb_data b)\<rparr>)))"

text \<open>Bytes the caller put behind the end itself, followed by IncWriteOffset.\<close>

definition IncWriteOffset :: "'b list \<Rightarrow> 'b simple_buffer \<Rightarrow> 'b simple_buffer option" where
  "IncWriteOffset got b =
     (if GetWriteOffset b + length got \<le> sb_alloc b then Some (b\<lparr>sb_data := sb_data b @ got\<rparr>) else None)"

definition buffer_ok :: "'b simple_buffer \<Rightarrow> bool" where
  "buffer_ok b \<longleftrightarrow> GetWriteOffset b \<le> sb_alloc b \<and> sb_alloc b < 2 ^ 32"

lemma buffer_ok_new [simp]: "buffer_ok new_CSimpleBuffer"
  by (simp add: buffer_ok_def new_CSimpleBuffer_def GetWriteOffset_def)

lemma Extend_alloc:
  assumes "(GetWriteOffset b + len) * 5 < 2 ^ 34"
  shows "sb_alloc (CSimpleBuffer_Extend len b) = (GetWriteOffset b + len) + (GetWriteOffset b + len) div 4"
    and "GetWriteOffset b + len \<le> sb_alloc (CSimpleBuffer_Extend len b)"
    and "sb_data (CSimpleBuffer_Extend len b) = sb_data b"
    and "sb_alloc (CSimpleBuffer_Extend len b) < 2 ^ 32"
proof -
  have a: "GetWriteOffset b + len < 2 ^ 32" and e: "(GetWriteOffset b + len) + (GetWriteOffset b + len) div 4 < 2 ^ 32"
    using assms by simp_all
  then show "sb_alloc (CSimpleBuffer_Extend len b) = (GetWriteOffset b + len) + (GetWriteOffset b + len) div 4"
    unfolding CSimpleBuffer_Extend_def Let_def by (simp only: u32_id [OF a] u32_id [OF e]) simp
  then show "GetWriteOffset b + len \<le> sb_alloc (CSimpleBuffer_Extend len b)"
    "sb_alloc (CSimpleBuffer_Extend len b) < 2 ^ 32" using e by simp_all
  show "sb_data (CSimpleBuffer_Extend len b) = sb_data b" by (simp add: CSimpleBuffer_Extend_def Let_def)
qed

lemma CSimpleBuffer_Write_appends:
  assumes "buffer_ok b" and "(GetWriteOffset b + length buf) * 5 < 2 ^ 34"
  obtains b' where "CSimpleBuffer_Write buf b = Some b'" "sb_data b' = sb_data b @ buf" "buffer_ok b'"
proof (cases "sb_alloc b < GetWriteOffset b + length buf")
  case True
  let ?e = "CSimpleBuffer_Extend (length buf) b"
  have w: "GetWriteOffset ?e = GetWriteOffset b"
    using Extend_alloc(3) [OF assms(2)] by (simp add: GetWriteOffset_def)
  have "CSimpleBuffer_Write buf b = Some (?e\<lparr>sb_data := sb_data ?e @ buf\<rparr>)"
    using True assms(2) Extend_alloc(2) [OF assms(2)] w by (simp add: CSimpleBuffer_Write_def Let_def)
  moreover have "buffer_ok (?e\<lparr>sb_data := sb_data ?e @ buf\<rparr>)"
    using Extend_alloc [OF assms(2)] by (simp add: buffer_ok_def GetWriteOffset_def)
  ultimately show thesis using Extend_alloc(3) [OF assms(2)] that by simp
next
  case False
  then have "CSimpleBuffer_Write buf b = Some (b\<lparr>sb_data := sb_data b @ buf\<rparr>)"
    using assms(2) by (simp add: CSimpleBuffer_Write_def Let_def)
  then show thesis
    using that False assms(1) by (simp add: buffer_ok_def GetWriteOffset_def)
qed

lemma CSimpleBuffer_Read_splits:
  "fst (CSimpleBuffer_Read len b) = take len (sb_data b)"
  "sb_data (snd (CSimpleBuffer_Read len b)) = drop len (sb_data b)"
  "sb_alloc (snd (CSimpleBuffer_Read len b)) = sb_alloc b"
  by (auto simp: CSimpleBuffer_Read_def Let_def GetWriteOffset_def)

lemma buffer_ok_Read: "buffer_ok b \<Longrightarrow> buffer_ok (snd (CSimpleBuffer_Read len b))"
  using CSimpleBuffer_Read_splits [of len b] by (auto simp: buffer_ok_def GetWriteOffset_def)

section \<open>Big-endian integers\<close>

definition put16 :: "16 word \<Rightarrow> 8 word list" where
  "put16 d = [ucast (drop_bit 8 d), ucast (d AND 0xFF)]"

definition put32 :: "32 word \<Rightarrow> 8 word list" where
  "put32 d = [ucast (drop_bit 24 d), ucast (drop_bit 16 d AND 0xFF), ucast (drop_bit 8 d AND 0xFF), ucast (d AND 0xFF)]"

definition get16 :: "8 word list \<Rightarrow> 16 word option" where
  "get16 buf =
     (case buf of
        b0 # b1 # _ \<Rightarrow> Some (push_bit 8 (ucast b0) OR ucast b1)
      | _ \<Rightarrow> None)"

definition get32 :: "8 word list \<Rightarrow> 32 word option" where
  "get32 buf =
     (case buf of
        b0 # b1 # b2 # b3 # _ \<Rightarrow>
          Some (push_bit 24 (ucast b0) OR push_bit 16 (ucast b1) OR push_bit 8 (ucast b2) OR ucast b3)
      | _ \<Rightarrow> None)"

lemma byte_mask: "(0xFF :: 'a :: len word) = mask 8"
  by (simp add: mask_eq_exp_minus_1)

lemma get16_put16 [simp]: "get16 (put16 d @ rest) = Some d"
proof -
  have "push_bit 8 (ucast (ucast (drop_bit 8 d) :: 8 word)) OR ucast (ucast (d AND 0xFF) :: 8 word) = d"
    unfolding byte_mask by (rule bit_word_eqI) (auto simp: bit_simps)
  then show ?thesis by (simp add: get16_def put16_def)
qed

lemma get32_put32 [simp]: "get32 (put32 d @ rest) = Some d"
proof -
  have "push_bit 24 (ucast (ucast (drop_bit 24 d) :: 8 word)) OR push_bit 16 (ucast (ucast (drop_bit 16 d AND 0xFF) :: 8 word))
      OR push_bit 8 (ucast (ucast (drop_bit 8 d AND 0xFF) :: 8 word)) OR ucast (ucast (d AND 0xFF) :: 8 word) = d"
    unfolding byte_mask
  proof (rule bit_word_eqI)
    fix n :: nat
    assume "n < LENGTH(32)"
    then show "bit (push_bit 24 (ucast (ucast (drop_bit 24 d) :: 8 word)) OR push_bit 16 (ucast (ucast (drop_bit 16 d AND mask 8) :: 8 word))
      OR push_bit 8 (ucast (ucast (drop_bit 8 d AND mask 8) :: 8 word)) OR ucast (ucast (d AND mask 8) :: 8 word) :: 32 word) n = bit d n"
      by (cases "n < 8"; cases "n < 16"; cases "n < 24") (auto simp: bit_simps)
  qed
  then show ?thesis by (simp add: get32_def put32_def)
qed

section \<open>CByteStream\<close>

text \<open>
  A stream is over memory of its own, st_buf with st_len bytes of it in use, or over a CSimpleBuffer,
  with st_len 0. A write that does not fit into memory is dropped without a word, a read that does
  not fit is a CPduException.
\<close>

datatype 'a pdu_result = PduOk 'a | CPduException | PduOverflow

record byte_stream =
  st_simple :: "8 word simple_buffer option"
  st_buf :: "8 word list"
  st_len :: nat
  st_pos :: nat

definition CByteStream_of :: "8 word list \<Rightarrow> nat \<Rightarrow> byte_stream" where
  "CByteStream_of buf len = \<lparr>st_simple = None, st_buf = buf, st_len = len, st_pos = 0\<rparr>"

definition CByteStream_over :: "8 word simple_buffer \<Rightarrow> nat \<Rightarrow> byte_stream" where
  "CByteStream_over b pos = \<lparr>st_simple = Some b, st_buf = [], st_len = 0, st_pos = pos\<rparr>"

definition write_bytes :: "8 word list \<Rightarrow> byte_stream \<Rightarrow> byte_stream pdu_result" where
  "write_bytes buf s =
     (case st_simple s of
        None \<Rightarrow>
          if st_len s < u32 (st_pos s + length buf) then PduOk s
          else if length (st_buf s) < st_pos s + length buf then PduOverflow
          else PduOk (s\<lparr>st_buf := take (st_pos s) (st_buf s) @ buf @ drop (st_pos s + length buf) (st_buf s),
                        st_pos := u32 (st_pos s + length buf)\<rparr>)
      | Some b \<Rightarrow>
          (case CSimpleBuffer_Write buf b of
             None \<Rightarrow> PduOverflow
           | Some b' \<Rightarrow> PduOk (s\<lparr>st_simple := Some b', st_pos := u32 (st_pos s + length buf)\<rparr>)))"

definition read_bytes :: "nat \<Rightarrow> byte_stream \<Rightarrow> (8 word list \<times> byte_stream) pdu_result" where
  "read_bytes len s =
     (if st_len s < u32 (st_pos s + len) then CPduException
      else
        (case st_simple s of
           Some b \<Rightarrow>
             (case CSimpleBuffer_Read len b of (got, b') \<Rightarrow>
                PduOk (got, s\<lparr>st_simple := Some b', st_pos := u32 (st_pos s + len)\<rparr>))
         | None \<Rightarrow>
             if length (st_buf s) < st_pos s + len then PduOverflow
             else PduOk (take len (drop (st_pos s) (st_buf s)), s\<lparr>st_pos := u32 (st_pos s + len)\<rparr>)))"

definition Skip :: "nat \<Rightarrow> byte_stream \<Rightarrow> byte_stream pdu_result" where
  "Skip len s =
     (let s' = s\<lparr>st_pos := u32 (st_pos s + len)\<rparr>
      in if st_len s' < st_pos s' then CPduException else PduOk s')"

definition write_uint32 :: "32 word \<Rightarrow> byte_stream \<Rightarrow> byte_stream pdu_result" where
  "write_uint32 d s = write_bytes (put32 d) s"

definition read_uint16 :: "byte_stream \<Rightarrow> (16 word \<times> byte_stream) pdu_result" where
  "read_uint16 s =
     (case read_bytes 2 s of
        PduOk (bytes, s') \<Rightarrow> (case get16 bytes of Some d \<Rightarrow> PduOk (d, s') | None \<Rightarrow> PduOverflow)
      | CPduException \<Rightarrow> CPduException
      | PduOverflow \<Rightarrow> PduOverflow)"

definition write_uint16 :: "16 word \<Rightarrow> byte_stream \<Rightarrow> byte_stream pdu_result" where
  "write_uint16 d s = write_bytes (put16 d) s"

definition read_uint32 :: "byte_stream \<Rightarrow> (32 word \<times> byte_stream) pdu_result" where
  "read_uint32 s =
     (case read_bytes 4 s of
        PduOk (bytes, s') \<Rightarrow> (case get32 bytes of Some d \<Rightarrow> PduOk (d, s') | None \<Rightarrow> PduOverflow)
      | CPduException \<Rightarrow> CPduException
      | PduOverflow \<Rightarrow> PduOverflow)"

definition WriteData :: "8 word list \<Rightarrow> byte_stream \<Rightarrow> byte_stream pdu_result" where
  "WriteData bytes s =
     (case write_uint32 (of_nat (length bytes)) s of
        PduOk s' \<Rightarrow> write_bytes bytes s'
      | CPduException \<Rightarrow> CPduException
      | PduOverflow \<Rightarrow> PduOverflow)"

definition WriteString :: "string option \<Rightarrow> byte_stream \<Rightarrow> byte_stream pdu_result" where
  "WriteString str s = WriteData (case str of None \<Rightarrow> [] | Some t \<Rightarrow> map of_char (c_str t)) s"

text \<open>ReadData and ReadString return a pointer; what is behind it up to the length is the result.\<close>

definition ReadData :: "byte_stream \<Rightarrow> (8 word list \<times> byte_stream) pdu_result" where
  "ReadData s =
     (case read_uint32 s of
        PduOk (len, s1) \<Rightarrow>
          (case Skip (unat len) s1 of
             PduOk s2 \<Rightarrow>
               if length (st_buf s1) < st_pos s1 + unat len then PduOverflow
               else PduOk (take (unat len) (drop (st_pos s1) (st_buf s1)), s2)
           | CPduException \<Rightarrow> CPduException
           | PduOverflow \<Rightarrow> PduOverflow)
      | CPduException \<Rightarrow> CPduException
      | PduOverflow \<Rightarrow> PduOverflow)"

lemma write_bytes_raw:
  assumes "st_simple s = None" and "st_pos s + length buf \<le> st_len s" and "st_len s \<le> length (st_buf s)"
    and "st_len s < 2 ^ 32"
  shows "write_bytes buf s =
     PduOk (s\<lparr>st_buf := take (st_pos s) (st_buf s) @ buf @ drop (st_pos s + length buf) (st_buf s),
              st_pos := st_pos s + length buf\<rparr>)"
proof -
  have "u32 (st_pos s + length buf) = st_pos s + length buf"
    using assms by simp
  then show ?thesis using assms by (simp add: write_bytes_def)
qed

text \<open>
  A CByteStream over memory gives back what was written: data of n bytes written at some
  position, with n + 4 bytes of room, is what ReadData returns from that position, and the reader
  stops where the writer stopped.
\<close>

lemma ReadData_WriteData:
  assumes "st_simple s = None" and "st_pos s + 4 + length bytes \<le> st_len s" and "st_len s \<le> length (st_buf s)"
    and "st_len s < 2 ^ 32"
  shows "\<exists>s'. WriteData bytes s = PduOk s' \<and> ReadData (s'\<lparr>st_pos := st_pos s\<rparr>) = PduOk (bytes, s')"
proof -
  let ?n = "of_nat (length bytes) :: 32 word"
  let ?p = "st_pos s"
  let ?buf = "take ?p (st_buf s) @ put32 ?n @ bytes @ drop (?p + 4 + length bytes) (st_buf s)"
  have n: "unat ?n = length bytes"
    using assms by (simp add: unat_of_nat)
  have len4: "length (put32 ?n) = 4" by (simp add: put32_def)
  have p: "?p \<le> length (st_buf s)" using assms by simp
  have "WriteData bytes s = PduOk (s\<lparr>st_buf := ?buf, st_pos := ?p + 4 + length bytes\<rparr>)"
    using assms p by (simp add: WriteData_def write_uint32_def write_bytes_raw len4 drop_append add.commute)
  moreover have "read_uint32 (s\<lparr>st_buf := ?buf, st_pos := ?p\<rparr>) = PduOk (?n, s\<lparr>st_buf := ?buf, st_pos := ?p + 4\<rparr>)"
  proof -
    have "take 4 (drop ?p ?buf) = put32 ?n" using p len4 by simp
    then show ?thesis
      using assms len4 get32_put32 [of ?n "[]"] by (simp add: read_uint32_def read_bytes_def)
  qed
  moreover have "drop (?p + 4) ?buf = bytes @ drop (?p + 4 + length bytes) (st_buf s)"
    using p len4 by (simp add: drop_append)
  ultimately show ?thesis
    using assms p n len4 by (simp add: ReadData_def Skip_def Let_def)
qed

lemma ReadData_WriteData_witness:
  "\<exists>s'. WriteData [1, 2, 3] (CByteStream_of (replicate 8 0) 8) = PduOk s' \<and>
     ReadData (s'\<lparr>st_pos := 0\<rparr>) = PduOk ([1, 2, 3], s')"
  using ReadData_WriteData [of "CByteStream_of (replicate 8 0) 8" "[1, 2, 3]"] by (simp add: CByteStream_of_def)

text \<open>A stream over a CSimpleBuffer has no length, and every read of it is refused.\<close>

lemma read_simple_refused:
  "0 < len \<Longrightarrow> pos + len < 2 ^ 32 \<Longrightarrow> read_bytes len (CByteStream_over b pos) = CPduException"
  by (simp add: read_bytes_def CByteStream_over_def)

section \<open>Short URLs\<close>

definition base36_digit :: "nat \<Rightarrow> char" where
  "base36_digit d = ''0123456789abcdefghijklmnopqrstuvwxyz'' ! d"

text \<open>The loop writes from the end of buf; room is the number of bytes in front of ptr.\<close>

function idtourl_loop :: "nat \<Rightarrow> nat \<Rightarrow> string \<Rightarrow> string" where
  "idtourl_loop room val ptr =
     (let ptr' = base36_digit (val mod 36) # ptr; val' = val div 36
      in if 0 < room - 1 \<and> val' \<noteq> 0 then idtourl_loop (room - 1) val' ptr' else ptr')"
  by pat_completeness auto
termination by (relation "measure (\<lambda>(room, val, ptr). room)") auto

declare idtourl_loop.simps [simp del]

definition idtourl :: "nat \<Rightarrow> string" where
  "idtourl ident = CHR ''1'' # idtourl_loop 63 (u32 (ident * 2 + 56)) []"

text \<open>The number of one character of the URL; others are skipped.\<close>

definition base36_val :: "char \<Rightarrow> nat option" where
  "base36_val c =
     (if CHR ''0'' \<le> c \<and> c \<le> CHR ''9'' then Some (of_char c - 48)
      else if CHR ''a'' \<le> c \<and> c \<le> CHR ''z'' then Some (of_char c - 87)
      else if CHR ''A'' \<le> c \<and> c \<le> CHR ''Z'' then Some (of_char c - 55)
      else None)"

fun urltoid_loop :: "nat \<Rightarrow> string \<Rightarrow> nat" where
  "urltoid_loop number [] = number"
| "urltoid_loop number (c # url) =
     (case base36_val c of
        None \<Rightarrow> urltoid_loop number url
      | Some d \<Rightarrow> urltoid_loop (u32 (number * 36 + d)) url)"

definition urltoid :: "string \<Rightarrow> nat" where
  "urltoid url = u32 (urltoid_loop 0 (drop 1 (c_str url)) + (2 ^ 32 - 56)) div 2"

lemma base36_val_digit [simp]:
  assumes "d < 36"
  shows "base36_val (base36_digit d) = Some d"
proof -
  have "\<forall>d < 36. base36_val (base36_digit d) = Some d" by code_simp
  with assms show ?thesis by blast
qed

lemma base36_digit_not_NUL [simp]:
  assumes "d < 36"
  shows "base36_digit d \<noteq> NUL"
proof -
  have "\<forall>d < 36. base36_digit d \<noteq> NUL" by code_simp
  with assms show ?thesis by blast
qed

lemma idtourl_loop_nul_free: "nul_free ptr \<Longrightarrow> nul_free (idtourl_loop room val ptr)"
  by (induction room val ptr rule: idtourl_loop.induct) (subst idtourl_loop.simps, simp add: Let_def)

lemma urltoid_loop_idtourl:
  "val < 36 ^ room \<Longrightarrow> val < 2 ^ 32 \<Longrightarrow> urltoid_loop 0 (idtourl_loop room val ptr) = urltoid_loop val ptr"
proof (induction room val ptr rule: idtourl_loop.induct)
  case (1 room val ptr)
  show ?case
  proof (cases "0 < room - 1 \<and> val div 36 \<noteq> 0")
    case True
    have "val div 36 < 36 ^ (room - 1)"
      using "1.prems"(1) True by (cases room) (auto simp: less_mult_imp_div_less mult.commute)
    moreover have "val div 36 < 2 ^ 32" using "1.prems"(2) by simp
    ultimately show ?thesis
      using "1.IH" [OF refl refl True] "1.prems"(2) True by (subst idtourl_loop.simps) (simp add: Let_def)
  next
    case False
    then have "val < 36"
      using "1.prems"(1) by (cases room) (auto split: if_splits)
    then show ?thesis
      using False by (subst idtourl_loop.simps) (simp add: Let_def)
  qed
qed

text \<open>
  urltoid undoes idtourl up to the highest bit: for every 32-bit id the result is the id modulo
  2 to the 31, because idtourl doubles it. An id below 2 to the 31 comes back as it was.
\<close>

lemma urltoid_idtourl: "urltoid (idtourl ident) = ident mod 2 ^ 31"
proof -
  let ?v = "u32 (ident * 2 + 56)"
  have "?v < 36 ^ 63"
    by (rule less_trans [OF u32_less]) simp
  then have "urltoid (idtourl ident) = u32 (?v + (2 ^ 32 - 56)) div 2"
    using idtourl_loop_nul_free [of "[]" 63 ?v] urltoid_loop_idtourl [of ?v 63 "[]"] u32_less [of "ident * 2 + 56"]
    by (simp add: urltoid_def idtourl_def NUL_def)
  also have "u32 (?v + (2 ^ 32 - 56)) = (ident * 2) mod 2 ^ 32"
  proof -
    have "u32 (?v + (2 ^ 32 - 56)) = (ident * 2 + 56 + (2 ^ 32 - 56)) mod 2 ^ 32"
      unfolding u32_def by (rule mod_add_left_eq)
    then show ?thesis by simp
  qed
  also have "(ident * 2) mod 2 ^ 32 div 2 = ident mod 2 ^ 31"
    using mod_mult_mult2 [of ident 2 "2 ^ 31"] by simp
  finally show ?thesis .
qed

end
