(* ===== verification/Http_Parser.thy ===== *)
theory Http_Parser
  imports Util_Pdu
begin

text \<open>
  base/http_parser.cc, compiled in strict mode: the parser that is fed with the bytes of a connection
  and calls back for the parts of a message. A pointer into the buffer is the text from it to the
  end of the buffer, so p is the text still to read, a mark is the text from the marked byte on, and
  the distance of two pointers is the difference of two lengths. The flags are a set. A byte of the
  loop of http_parser_execute is execute_byte: one definition for each state, which says whether the
  loop goes on with the next byte, looks at this one again (reexecute_byte), or returns. An assert
  that fails and a read outside of a string are Crash.

  A callback gets the parser to read and its object to change, and answers with an int.
\<close>

section \<open>Data\<close>

datatype http_method =
    HTTP_DELETE | HTTP_GET | HTTP_HEAD | HTTP_POST | HTTP_PUT | HTTP_CONNECT | HTTP_OPTIONS | HTTP_TRACE
  | HTTP_COPY | HTTP_LOCK | HTTP_MKCOL | HTTP_MOVE | HTTP_PROPFIND | HTTP_PROPPATCH | HTTP_SEARCH
  | HTTP_UNLOCK | HTTP_REPORT | HTTP_MKACTIVITY | HTTP_CHECKOUT | HTTP_MERGE | HTTP_MSEARCH | HTTP_NOTIFY
  | HTTP_SUBSCRIBE | HTTP_UNSUBSCRIBE | HTTP_PATCH | HTTP_PURGE

datatype http_parser_type = HTTP_REQUEST | HTTP_RESPONSE | HTTP_BOTH

datatype http_flag =
    F_CHUNKED | F_CONNECTION_KEEP_ALIVE | F_CONNECTION_CLOSE | F_TRAILING | F_UPGRADE | F_SKIPBODY

datatype http_errno =
    HPE_OK | HPE_CB_message_begin | HPE_CB_status_complete | HPE_CB_url | HPE_CB_header_field
  | HPE_CB_header_value | HPE_CB_headers_complete | HPE_CB_body | HPE_CB_message_complete
  | HPE_INVALID_EOF_STATE | HPE_HEADER_OVERFLOW | HPE_CLOSED_CONNECTION | HPE_INVALID_VERSION
  | HPE_INVALID_STATUS | HPE_INVALID_METHOD | HPE_INVALID_URL | HPE_INVALID_HOST | HPE_INVALID_PORT
  | HPE_INVALID_PATH | HPE_INVALID_QUERY_STRING | HPE_INVALID_FRAGMENT | HPE_LF_EXPECTED
  | HPE_INVALID_HEADER_TOKEN | HPE_INVALID_CONTENT_LENGTH | HPE_INVALID_CHUNK_SIZE | HPE_INVALID_CONSTANT
  | HPE_INVALID_INTERNAL_STATE | HPE_STRICT | HPE_PAUSED | HPE_UNKNOWN

datatype parse_state =
    s_dead | s_start_req_or_res | s_res_or_resp_H | s_start_res | s_res_H | s_res_HT | s_res_HTT
  | s_res_HTTP | s_res_first_http_major | s_res_http_major | s_res_first_http_minor | s_res_http_minor
  | s_res_first_status_code | s_res_status_code | s_res_status | s_res_line_almost_done
  | s_start_req | s_req_method | s_req_spaces_before_url | s_req_schema | s_req_schema_slash
  | s_req_schema_slash_slash | s_req_server_start | s_req_server | s_req_server_with_at | s_req_path
  | s_req_query_string_start | s_req_query_string | s_req_fragment_start | s_req_fragment
  | s_req_http_start | s_req_http_H | s_req_http_HT | s_req_http_HTT | s_req_http_HTTP
  | s_req_first_http_major | s_req_http_major | s_req_first_http_minor | s_req_http_minor
  | s_req_line_almost_done | s_header_field_start | s_header_field | s_header_value_start | s_header_value
  | s_header_value_lws | s_header_almost_done | s_chunk_size_start | s_chunk_size | s_chunk_parameters
  | s_chunk_size_almost_done | s_headers_almost_done | s_headers_done | s_chunk_data
  | s_chunk_data_almost_done | s_chunk_data_done | s_body_identity | s_body_identity_eof | s_message_done

datatype header_state =
    h_general | h_C | h_CO | h_CON | h_matching_connection | h_matching_proxy_connection
  | h_matching_content_length | h_matching_transfer_encoding | h_matching_upgrade | h_connection
  | h_content_length | h_transfer_encoding | h_upgrade | h_matching_transfer_encoding_chunked
  | h_matching_connection_keep_alive | h_matching_connection_close | h_transfer_encoding_chunked
  | h_connection_keep_alive | h_connection_close

record http_parser =
  hp_type :: http_parser_type
  hp_flags :: "http_flag set"
  hp_state :: parse_state
  hp_header_state :: header_state
  hp_index :: nat
  hp_nread :: int
  hp_content_length :: int
  hp_major :: nat
  hp_minor :: nat
  hp_status_code :: nat
  hp_method :: http_method
  hp_errno :: http_errno
  hp_upgrade :: bool

definition ULLONG_MAX :: int where "ULLONG_MAX = 2 ^ 64 - 1"
definition HTTP_MAX_HEADER_SIZE :: int where "HTTP_MAX_HEADER_SIZE = 80 * 1024"

abbreviation "CHR_CR \<equiv> CHR 0x0D"
abbreviation "CHR_LF \<equiv> CHR 0x0A"
abbreviation "CHR_HT \<equiv> CHR 0x09"

text \<open>The name of a method is the text of the third argument of XX, blanks included.\<close>

primrec method_strings :: "http_method \<Rightarrow> string" where
  "method_strings HTTP_DELETE = ''DELETE''"
| "method_strings HTTP_GET = ''GET''"
| "method_strings HTTP_HEAD = ''HEAD''"
| "method_strings HTTP_POST = ''POST''"
| "method_strings HTTP_PUT = ''PUT''"
| "method_strings HTTP_CONNECT = ''CONNECT''"
| "method_strings HTTP_OPTIONS = ''OPTIONS''"
| "method_strings HTTP_TRACE = ''TRACE''"
| "method_strings HTTP_COPY = ''COPY''"
| "method_strings HTTP_LOCK = ''LOCK''"
| "method_strings HTTP_MKCOL = ''MKCOL''"
| "method_strings HTTP_MOVE = ''MOVE''"
| "method_strings HTTP_PROPFIND = ''PROPFIND''"
| "method_strings HTTP_PROPPATCH = ''PROPPATCH''"
| "method_strings HTTP_SEARCH = ''SEARCH''"
| "method_strings HTTP_UNLOCK = ''UNLOCK''"
| "method_strings HTTP_REPORT = ''REPORT''"
| "method_strings HTTP_MKACTIVITY = ''MKACTIVITY''"
| "method_strings HTTP_CHECKOUT = ''CHECKOUT''"
| "method_strings HTTP_MERGE = ''MERGE''"
| "method_strings HTTP_MSEARCH = ''M - SEARCH''"
| "method_strings HTTP_NOTIFY = ''NOTIFY''"
| "method_strings HTTP_SUBSCRIBE = ''SUBSCRIBE''"
| "method_strings HTTP_UNSUBSCRIBE = ''UNSUBSCRIBE''"
| "method_strings HTTP_PATCH = ''PATCH''"
| "method_strings HTTP_PURGE = ''PURGE''"

section \<open>Characters\<close>

abbreviation byte_of :: "char \<Rightarrow> nat" where
  "byte_of c \<equiv> of_char c"

text \<open>c | 0x20\<close>

definition LOWER :: "char \<Rightarrow> char" where
  "LOWER c = (if byte_of c div 32 mod 2 = 0 then char_of (byte_of c + 32) else c)"

definition IS_ALPHA :: "char \<Rightarrow> bool" where
  "IS_ALPHA c \<longleftrightarrow> 97 \<le> byte_of (LOWER c) \<and> byte_of (LOWER c) \<le> 122"

definition IS_ALPHANUM :: "char \<Rightarrow> bool" where
  "IS_ALPHANUM c \<longleftrightarrow> IS_ALPHA c \<or> is_digit c"

definition IS_HEX :: "char \<Rightarrow> bool" where
  "IS_HEX c \<longleftrightarrow> is_digit c \<or> 97 \<le> byte_of (LOWER c) \<and> byte_of (LOWER c) \<le> 102"

definition IS_MARK :: "char \<Rightarrow> bool" where
  "IS_MARK c \<longleftrightarrow> c \<in> set ''-_.!~*()'' \<or> c = CHR 0x27"

definition IS_USERINFO_CHAR :: "char \<Rightarrow> bool" where
  "IS_USERINFO_CHAR c \<longleftrightarrow> IS_ALPHANUM c \<or> IS_MARK c \<or> c \<in> set ''%;:&=+$,''"

definition IS_HOST_CHAR :: "char \<Rightarrow> bool" where
  "IS_HOST_CHAR c \<longleftrightarrow> IS_ALPHANUM c \<or> c \<in> set ''.-''"

text \<open>The table tokens: letters in lower case, digits and some marks; NUL for every other byte.\<close>

definition TOKEN :: "char \<Rightarrow> char" where
  "TOKEN c =
     (let b = byte_of c
      in if 65 \<le> b \<and> b \<le> 90 then char_of (b + 32)
         else if 97 \<le> b \<and> b \<le> 122 \<or> is_digit c \<or> c \<in> set ''!#$%&*+-.^_|~'' \<or> b = 39 \<or> b = 96 then c
         else NUL)"

text \<open>The bit table normal_url_char: the printable characters but the blank, the # and the ?.\<close>

definition IS_URL_CHAR :: "char \<Rightarrow> bool" where
  "IS_URL_CHAR c \<longleftrightarrow> 33 \<le> byte_of c \<and> byte_of c \<le> 126 \<and> c \<noteq> CHR ''#'' \<and> c \<noteq> CHR ''?''"

text \<open>The table unhex has 256 places but its text gives 128 values: the places behind hold 0.\<close>

definition unhex :: "char \<Rightarrow> int" where
  "unhex c =
     (let b = byte_of c
      in if 128 \<le> b then 0
         else if is_digit c then int (b - 48)
         else if 65 \<le> b \<and> b \<le> 70 then int (b - 55)
         else if 97 \<le> b \<and> b \<le> 102 then int (b - 87)
         else - 1)"

definition PARSING_HEADER :: "parse_state \<Rightarrow> bool" where
  "PARSING_HEADER s \<longleftrightarrow>
     s \<notin> {s_chunk_data, s_chunk_data_almost_done, s_chunk_data_done, s_body_identity, s_body_identity_eof, s_message_done}"

text \<open>word[i] in C: behind the last character there is the NUL, behind that nothing.\<close>

definition char_at :: "string \<Rightarrow> nat \<Rightarrow> char option" where
  "char_at word i = (if i < length word then Some (word ! i) else if i = length word then Some NUL else None)"

section \<open>The URL automaton\<close>

definition parse_url_char :: "parse_state \<Rightarrow> char \<Rightarrow> parse_state" where
  "parse_url_char s ch =
     (if ch = CHR '' '' \<or> ch = CHR_CR \<or> ch = CHR_LF then s_dead
      else if ch = CHR_HT \<or> ch = CHR 0x0C then s_dead
      else if s = s_req_spaces_before_url then
        (if ch = CHR ''/'' \<or> ch = CHR ''*'' then s_req_path else if IS_ALPHA ch then s_req_schema else s_dead)
      else if s = s_req_schema then
        (if IS_ALPHA ch then s else if ch = CHR '':'' then s_req_schema_slash else s_dead)
      else if s = s_req_schema_slash then (if ch = CHR ''/'' then s_req_schema_slash_slash else s_dead)
      else if s = s_req_schema_slash_slash then (if ch = CHR ''/'' then s_req_server_start else s_dead)
      else if s = s_req_server_with_at \<or> s = s_req_server_start \<or> s = s_req_server then
        (if s = s_req_server_with_at \<and> ch = CHR ''@'' then s_dead
         else if ch = CHR ''/'' then s_req_path
         else if ch = CHR ''?'' then s_req_query_string_start
         else if ch = CHR ''@'' then s_req_server_with_at
         else if IS_USERINFO_CHAR ch \<or> ch = CHR ''['' \<or> ch = CHR '']'' then s_req_server
         else s_dead)
      else if s = s_req_path then
        (if IS_URL_CHAR ch then s
         else if ch = CHR ''?'' then s_req_query_string_start
         else if ch = CHR ''#'' then s_req_fragment_start
         else s_dead)
      else if s = s_req_query_string_start \<or> s = s_req_query_string then
        (if IS_URL_CHAR ch then s_req_query_string
         else if ch = CHR ''?'' then s_req_query_string
         else if ch = CHR ''#'' then s_req_fragment_start
         else s_dead)
      else if s = s_req_fragment_start then
        (if IS_URL_CHAR ch then s_req_fragment
         else if ch = CHR ''?'' then s_req_fragment
         else if ch = CHR ''#'' then s
         else s_dead)
      else if s = s_req_fragment then
        (if IS_URL_CHAR ch \<or> ch = CHR ''?'' \<or> ch = CHR ''#'' then s else s_dead)
      else s_dead)"

section \<open>The settings and the callbacks\<close>

datatype data_kind = DataUrl | DataHeaderField | DataHeaderValue | DataBody

type_synonym 'o http_cb = "http_parser \<Rightarrow> 'o \<Rightarrow> int \<times> 'o"
type_synonym 'o http_data_cb = "http_parser \<Rightarrow> string \<Rightarrow> nat \<Rightarrow> 'o \<Rightarrow> int \<times> 'o"

record 'o http_settings =
  cb_message_begin :: "'o http_cb option"
  cb_url :: "'o http_data_cb option"
  cb_status_complete :: "'o http_cb option"
  cb_header_field :: "'o http_data_cb option"
  cb_header_value :: "'o http_data_cb option"
  cb_headers_complete :: "'o http_cb option"
  cb_body :: "'o http_data_cb option"
  cb_message_complete :: "'o http_cb option"

primrec data_cb :: "data_kind \<Rightarrow> 'o http_settings \<Rightarrow> 'o http_data_cb option" where
  "data_cb DataUrl = cb_url"
| "data_cb DataHeaderField = cb_header_field"
| "data_cb DataHeaderValue = cb_header_value"
| "data_cb DataBody = cb_body"

primrec data_errno :: "data_kind \<Rightarrow> http_errno" where
  "data_errno DataUrl = HPE_CB_url"
| "data_errno DataHeaderField = HPE_CB_header_field"
| "data_errno DataHeaderValue = HPE_CB_header_value"
| "data_errno DataBody = HPE_CB_body"

text \<open>The parser, the object of the settings, p and the marks: the variables of http_parser_execute.\<close>

record 'o px =
  px_parser :: http_parser
  px_obj :: 'o
  px_p :: string
  px_mark :: "data_kind \<Rightarrow> string option"

datatype 'o byte_result = Continue "'o px" | Reexecute "'o px" | ReturnAt "'o px" | Crash

definition with_parser :: "(http_parser \<Rightarrow> http_parser) \<Rightarrow> 'o px \<Rightarrow> 'o px" where
  "with_parser f x = x\<lparr>px_parser := f (px_parser x)\<rparr>"

definition in_state :: "parse_state \<Rightarrow> 'o px \<Rightarrow> 'o px" where
  "in_state s x = with_parser (hp_state_update (\<lambda>_. s)) x"

definition in_header :: "header_state \<Rightarrow> 'o px \<Rightarrow> 'o px" where
  "in_header h x = with_parser (hp_header_state_update (\<lambda>_. h)) x"

definition add_flag :: "http_flag \<Rightarrow> 'o px \<Rightarrow> 'o px" where
  "add_flag f x = with_parser (\<lambda>a. a\<lparr>hp_flags := insert f (hp_flags a)\<rparr>) x"

definition set_errno :: "http_errno \<Rightarrow> 'o px \<Rightarrow> 'o px" where
  "set_errno e x = with_parser (hp_errno_update (\<lambda>_. e)) x"

text \<open>SET_ERRNO and goto error: the function returns the place of the byte.\<close>

definition goto_error :: "http_errno \<Rightarrow> 'o px \<Rightarrow> 'o byte_result" where
  "goto_error e x = ReturnAt (set_errno e x)"

definition STRICT_CHECK :: "bool \<Rightarrow> 'o px \<Rightarrow> 'o byte_result \<Rightarrow> 'o byte_result" where
  "STRICT_CHECK cond x r = (if cond then goto_error HPE_STRICT x else r)"

definition assert_then :: "bool \<Rightarrow> 'o byte_result \<Rightarrow> 'o byte_result" where
  "assert_then cond r = (if cond then r else Crash)"

text \<open>The argument er is what p is when the function returns because a callback failed.\<close>

definition CALLBACK_NOTIFY_AT ::
    "'o http_cb option \<Rightarrow> http_errno \<Rightarrow> string \<Rightarrow> 'o px \<Rightarrow> ('o px \<Rightarrow> 'o byte_result) \<Rightarrow> 'o byte_result" where
  "CALLBACK_NOTIFY_AT cb e er x k =
     assert_then (hp_errno (px_parser x) = HPE_OK)
       (case cb of
          None \<Rightarrow> k x
        | Some f \<Rightarrow>
            (let (r, obj) = f (px_parser x) (px_obj x); y = x\<lparr>px_obj := obj\<rparr>
             in if r \<noteq> 0 then goto_error e (y\<lparr>px_p := er\<rparr>) else k y))"

definition CALLBACK_NOTIFY ::
    "'o http_cb option \<Rightarrow> http_errno \<Rightarrow> 'o px \<Rightarrow> ('o px \<Rightarrow> 'o byte_result) \<Rightarrow> 'o byte_result" where
  "CALLBACK_NOTIFY cb e x k = CALLBACK_NOTIFY_AT cb e (tl (px_p x)) x k"

definition CALLBACK_DATA_AT ::
    "'o http_settings \<Rightarrow> data_kind \<Rightarrow> nat \<Rightarrow> string \<Rightarrow> 'o px \<Rightarrow> ('o px \<Rightarrow> 'o byte_result) \<Rightarrow> 'o byte_result" where
  "CALLBACK_DATA_AT S kind extra er x k =
     assert_then (hp_errno (px_parser x) = HPE_OK)
       (case px_mark x kind of
          None \<Rightarrow> k x
        | Some mark \<Rightarrow>
            (let clear = (\<lambda>y. y\<lparr>px_mark := (px_mark y)(kind := None)\<rparr>)
             in case data_cb kind S of
                  None \<Rightarrow> k (clear x)
                | Some f \<Rightarrow>
                    (let (r, obj) = f (px_parser x) mark (length mark - length (px_p x) + extra) (px_obj x);
                         y = x\<lparr>px_obj := obj\<rparr>
                     in if r \<noteq> 0 then goto_error (data_errno kind) (y\<lparr>px_p := er\<rparr>) else k (clear y))))"

definition CALLBACK_DATA ::
    "'o http_settings \<Rightarrow> data_kind \<Rightarrow> 'o px \<Rightarrow> ('o px \<Rightarrow> 'o byte_result) \<Rightarrow> 'o byte_result" where
  "CALLBACK_DATA S kind x k = CALLBACK_DATA_AT S kind 0 (tl (px_p x)) x k"

definition CALLBACK_DATA_NOADVANCE ::
    "'o http_settings \<Rightarrow> data_kind \<Rightarrow> 'o px \<Rightarrow> ('o px \<Rightarrow> 'o byte_result) \<Rightarrow> 'o byte_result" where
  "CALLBACK_DATA_NOADVANCE S kind x k = CALLBACK_DATA_AT S kind 0 (px_p x) x k"

definition MARK :: "data_kind \<Rightarrow> 'o px \<Rightarrow> 'o px" where
  "MARK kind x = (if px_mark x kind = None then x\<lparr>px_mark := (px_mark x)(kind := Some (px_p x))\<rparr> else x)"

section \<open>Between messages\<close>

definition http_message_needs_eof :: "http_parser \<Rightarrow> bool" where
  "http_message_needs_eof a =
     (if hp_type a = HTTP_REQUEST then False
      else if hp_status_code a div 100 = 1 \<or> hp_status_code a = 204 \<or> hp_status_code a = 304 \<or> F_SKIPBODY \<in> hp_flags a
      then False
      else if F_CHUNKED \<in> hp_flags a \<or> hp_content_length a \<noteq> ULLONG_MAX then False
      else True)"

definition http_should_keep_alive :: "http_parser \<Rightarrow> bool" where
  "http_should_keep_alive a =
     (if 0 < hp_major a \<and> 0 < hp_minor a then
        (if F_CONNECTION_CLOSE \<in> hp_flags a then False else \<not> http_message_needs_eof a)
      else (if F_CONNECTION_KEEP_ALIVE \<notin> hp_flags a then False else \<not> http_message_needs_eof a))"

definition start_state :: "http_parser \<Rightarrow> parse_state" where
  "start_state a = (if hp_type a = HTTP_REQUEST then s_start_req else s_start_res)"

definition NEW_MESSAGE :: "http_parser \<Rightarrow> parse_state" where
  "NEW_MESSAGE a = (if http_should_keep_alive a then start_state a else s_dead)"

definition new_message :: "'o px \<Rightarrow> 'o px" where
  "new_message x = in_state (NEW_MESSAGE (px_parser x)) x"

definition clear_message :: "'o px \<Rightarrow> 'o px" where
  "clear_message x = with_parser (\<lambda>a. a\<lparr>hp_flags := {}, hp_content_length := ULLONG_MAX\<rparr>) x"

definition byte_dead :: "char \<Rightarrow> 'o px \<Rightarrow> 'o byte_result" where
  "byte_dead ch x = (if ch = CHR_CR \<or> ch = CHR_LF then Continue x else goto_error HPE_CLOSED_CONNECTION x)"

definition byte_start_req_or_res :: "'o http_settings \<Rightarrow> char \<Rightarrow> 'o px \<Rightarrow> 'o byte_result" where
  "byte_start_req_or_res S ch x =
     (if ch = CHR_CR \<or> ch = CHR_LF then Continue x
      else if ch = CHR ''H'' then
        CALLBACK_NOTIFY (cb_message_begin S) HPE_CB_message_begin (in_state s_res_or_resp_H (clear_message x)) Continue
      else Reexecute (in_state s_start_req (with_parser (hp_type_update (\<lambda>_. HTTP_REQUEST)) (clear_message x))))"

definition byte_res_or_resp_H :: "char \<Rightarrow> 'o px \<Rightarrow> 'o byte_result" where
  "byte_res_or_resp_H ch x =
     (if ch = CHR ''T'' then Continue (in_state s_res_HT (with_parser (hp_type_update (\<lambda>_. HTTP_RESPONSE)) x))
      else if ch \<noteq> CHR ''E'' then goto_error HPE_INVALID_CONSTANT x
      else
        Continue (in_state s_req_method
          (with_parser (\<lambda>a. a\<lparr>hp_type := HTTP_REQUEST, hp_index := 2, hp_method := HTTP_HEAD\<rparr>) x)))"

section \<open>The first line of a response\<close>

definition byte_start_res :: "'o http_settings \<Rightarrow> char \<Rightarrow> 'o px \<Rightarrow> 'o byte_result" where
  "byte_start_res S ch x =
     (let y = clear_message x
      in if ch = CHR ''H'' then CALLBACK_NOTIFY (cb_message_begin S) HPE_CB_message_begin (in_state s_res_H y) Continue
         else if ch = CHR_CR \<or> ch = CHR_LF then CALLBACK_NOTIFY (cb_message_begin S) HPE_CB_message_begin y Continue
         else goto_error HPE_INVALID_CONSTANT y)"

text \<open>s_res_H to s_res_HTTP, and s_req_http_H to s_req_http_HTTP: one character that must be there.\<close>

definition byte_expect :: "char \<Rightarrow> parse_state \<Rightarrow> char \<Rightarrow> 'o px \<Rightarrow> 'o byte_result" where
  "byte_expect c s ch x = STRICT_CHECK (ch \<noteq> c) x (Continue (in_state s x))"

definition byte_res_first_http_major :: "char \<Rightarrow> 'o px \<Rightarrow> 'o byte_result" where
  "byte_res_first_http_major ch x =
     (if \<not> is_digit ch then goto_error HPE_INVALID_VERSION x
      else Continue (in_state s_res_http_major (with_parser (hp_major_update (\<lambda>_. digit_val ch)) x)))"

definition byte_res_http_major :: "char \<Rightarrow> 'o px \<Rightarrow> 'o byte_result" where
  "byte_res_http_major ch x =
     (if ch = CHR ''.'' then Continue (in_state s_res_first_http_minor x)
      else if \<not> is_digit ch then goto_error HPE_INVALID_VERSION x
      else
        (let y = with_parser (\<lambda>a. a\<lparr>hp_major := hp_major a * 10 + digit_val ch\<rparr>) x
         in if 999 < hp_major (px_parser y) then goto_error HPE_INVALID_VERSION y else Continue y))"

definition byte_res_first_http_minor :: "char \<Rightarrow> 'o px \<Rightarrow> 'o byte_result" where
  "byte_res_first_http_minor ch x =
     (if \<not> is_digit ch then goto_error HPE_INVALID_VERSION x
      else Continue (in_state s_res_http_minor (with_parser (hp_minor_update (\<lambda>_. digit_val ch)) x)))"

definition byte_res_http_minor :: "char \<Rightarrow> 'o px \<Rightarrow> 'o byte_result" where
  "byte_res_http_minor ch x =
     (if ch = CHR '' '' then Continue (in_state s_res_first_status_code x)
      else if \<not> is_digit ch then goto_error HPE_INVALID_VERSION x
      else
        (let y = with_parser (\<lambda>a. a\<lparr>hp_minor := hp_minor a * 10 + digit_val ch\<rparr>) x
         in if 999 < hp_minor (px_parser y) then goto_error HPE_INVALID_VERSION y else Continue y))"

definition byte_res_first_status_code :: "char \<Rightarrow> 'o px \<Rightarrow> 'o byte_result" where
  "byte_res_first_status_code ch x =
     (if \<not> is_digit ch then (if ch = CHR '' '' then Continue x else goto_error HPE_INVALID_STATUS x)
      else Continue (in_state s_res_status_code (with_parser (hp_status_code_update (\<lambda>_. digit_val ch)) x)))"

definition byte_res_status_code :: "char \<Rightarrow> 'o px \<Rightarrow> 'o byte_result" where
  "byte_res_status_code ch x =
     (if \<not> is_digit ch then
        (if ch = CHR '' '' then Continue (in_state s_res_status x)
         else if ch = CHR_CR then Continue (in_state s_res_line_almost_done x)
         else if ch = CHR_LF then Continue (in_state s_header_field_start x)
         else goto_error HPE_INVALID_STATUS x)
      else
        (let y = with_parser (\<lambda>a. a\<lparr>hp_status_code := hp_status_code a * 10 + digit_val ch\<rparr>) x
         in if 999 < hp_status_code (px_parser y) then goto_error HPE_INVALID_STATUS y else Continue y))"

definition byte_res_status :: "char \<Rightarrow> 'o px \<Rightarrow> 'o byte_result" where
  "byte_res_status ch x =
     (if ch = CHR_CR then Continue (in_state s_res_line_almost_done x)
      else if ch = CHR_LF then Continue (in_state s_header_field_start x)
      else Continue x)"

definition byte_res_line_almost_done :: "'o http_settings \<Rightarrow> char \<Rightarrow> 'o px \<Rightarrow> 'o byte_result" where
  "byte_res_line_almost_done S ch x =
     STRICT_CHECK (ch \<noteq> CHR_LF) x
       (CALLBACK_NOTIFY (cb_status_complete S) HPE_CB_status_complete (in_state s_header_field_start x) Continue)"

section \<open>The first line of a request\<close>

definition first_method :: "char \<Rightarrow> http_method option" where
  "first_method ch =
     (if ch = CHR ''C'' then Some HTTP_CONNECT
      else if ch = CHR ''D'' then Some HTTP_DELETE
      else if ch = CHR ''G'' then Some HTTP_GET
      else if ch = CHR ''H'' then Some HTTP_HEAD
      else if ch = CHR ''L'' then Some HTTP_LOCK
      else if ch = CHR ''M'' then Some HTTP_MKCOL
      else if ch = CHR ''N'' then Some HTTP_NOTIFY
      else if ch = CHR ''O'' then Some HTTP_OPTIONS
      else if ch = CHR ''P'' then Some HTTP_POST
      else if ch = CHR ''R'' then Some HTTP_REPORT
      else if ch = CHR ''S'' then Some HTTP_SUBSCRIBE
      else if ch = CHR ''T'' then Some HTTP_TRACE
      else if ch = CHR ''U'' then Some HTTP_UNLOCK
      else None)"

definition byte_start_req :: "'o http_settings \<Rightarrow> char \<Rightarrow> 'o px \<Rightarrow> 'o byte_result" where
  "byte_start_req S ch x =
     (if ch = CHR_CR \<or> ch = CHR_LF then Continue x
      else
        (let y = clear_message x
         in if \<not> IS_ALPHA ch then goto_error HPE_INVALID_METHOD y
            else
              (case first_method ch of
                 None \<Rightarrow> goto_error HPE_INVALID_METHOD (with_parser (\<lambda>a. a\<lparr>hp_index := 1, hp_method := HTTP_DELETE\<rparr>) y)
               | Some m \<Rightarrow>
                   CALLBACK_NOTIFY (cb_message_begin S) HPE_CB_message_begin
                     (in_state s_req_method (with_parser (\<lambda>a. a\<lparr>hp_index := 1, hp_method := m\<rparr>) y)) Continue)))"

text \<open>
  The method that a byte changes the guess to, when it is not the next one of the guess: None, it is
  no method.
\<close>

definition other_method :: "http_method \<Rightarrow> nat \<Rightarrow> char \<Rightarrow> http_method option" where
  "other_method m i ch =
     (if m = HTTP_CONNECT then
        (if i = 1 \<and> ch = CHR ''H'' then Some HTTP_CHECKOUT
         else if i = 2 \<and> ch = CHR ''P'' then Some HTTP_COPY
         else None)
      else if m = HTTP_MKCOL then
        (if i = 1 \<and> ch = CHR ''O'' then Some HTTP_MOVE
         else if i = 1 \<and> ch = CHR ''E'' then Some HTTP_MERGE
         else if i = 1 \<and> ch = CHR ''-'' then Some HTTP_MSEARCH
         else if i = 2 \<and> ch = CHR ''A'' then Some HTTP_MKACTIVITY
         else None)
      else if m = HTTP_SUBSCRIBE then (if i = 1 \<and> ch = CHR ''E'' then Some HTTP_SEARCH else None)
      else if i = 1 \<and> m = HTTP_POST then
        (if ch = CHR ''R'' then Some HTTP_PROPFIND
         else if ch = CHR ''U'' then Some HTTP_PUT
         else if ch = CHR ''A'' then Some HTTP_PATCH
         else None)
      else if i = 2 then
        (if m = HTTP_PUT then (if ch = CHR ''R'' then Some HTTP_PURGE else None)
         else if m = HTTP_UNLOCK then (if ch = CHR ''S'' then Some HTTP_UNSUBSCRIBE else None)
         else None)
      else if i = 4 \<and> m = HTTP_PROPFIND \<and> ch = CHR ''P'' then Some HTTP_PROPPATCH
      else None)"

definition byte_req_method :: "char \<Rightarrow> 'o px \<Rightarrow> 'o byte_result" where
  "byte_req_method ch x =
     (let a = px_parser x;
          next = with_parser (\<lambda>a. a\<lparr>hp_index := (hp_index a + 1) mod 256\<rparr>)
      in if ch = NUL then goto_error HPE_INVALID_METHOD x
         else
           (case char_at (method_strings (hp_method a)) (hp_index a) of
              None \<Rightarrow> Crash
            | Some c \<Rightarrow>
                if ch = CHR '' '' \<and> c = NUL then Continue (next (in_state s_req_spaces_before_url x))
                else if ch = c then Continue (next x)
                else
                  (case other_method (hp_method a) (hp_index a) ch of
                     None \<Rightarrow> goto_error HPE_INVALID_METHOD x
                   | Some m \<Rightarrow> Continue (next (with_parser (hp_method_update (\<lambda>_. m)) x)))))"

definition byte_req_spaces_before_url :: "char \<Rightarrow> 'o px \<Rightarrow> 'o byte_result" where
  "byte_req_spaces_before_url ch x =
     (if ch = CHR '' '' then Continue x
      else
        (let y = MARK DataUrl x;
             s = (if hp_method (px_parser y) = HTTP_CONNECT then s_req_server_start else hp_state (px_parser y));
             z = in_state (parse_url_char s ch) y
         in if hp_state (px_parser z) = s_dead then goto_error HPE_INVALID_URL z else Continue z))"

definition byte_req_schema :: "char \<Rightarrow> 'o px \<Rightarrow> 'o byte_result" where
  "byte_req_schema ch x =
     (if ch = CHR '' '' \<or> ch = CHR_CR \<or> ch = CHR_LF then goto_error HPE_INVALID_URL x
      else
        (let z = in_state (parse_url_char (hp_state (px_parser x)) ch) x
         in if hp_state (px_parser z) = s_dead then goto_error HPE_INVALID_URL z else Continue z))"

definition byte_req_url :: "'o http_settings \<Rightarrow> char \<Rightarrow> 'o px \<Rightarrow> 'o byte_result" where
  "byte_req_url S ch x =
     (if ch = CHR '' '' then CALLBACK_DATA S DataUrl (in_state s_req_http_start x) Continue
      else if ch = CHR_CR \<or> ch = CHR_LF then
        CALLBACK_DATA S DataUrl
          (in_state (if ch = CHR_CR then s_req_line_almost_done else s_header_field_start)
            (with_parser (\<lambda>a. a\<lparr>hp_major := 0, hp_minor := 9\<rparr>) x)) Continue
      else
        (let z = in_state (parse_url_char (hp_state (px_parser x)) ch) x
         in if hp_state (px_parser z) = s_dead then goto_error HPE_INVALID_URL z else Continue z))"

definition byte_req_http_start :: "char \<Rightarrow> 'o px \<Rightarrow> 'o byte_result" where
  "byte_req_http_start ch x =
     (if ch = CHR ''H'' then Continue (in_state s_req_http_H x)
      else if ch = CHR '' '' then Continue x
      else goto_error HPE_INVALID_CONSTANT x)"

definition byte_req_first_http_major :: "char \<Rightarrow> 'o px \<Rightarrow> 'o byte_result" where
  "byte_req_first_http_major ch x =
     (if \<not> is_digit ch \<or> ch = CHR ''0'' then goto_error HPE_INVALID_VERSION x
      else Continue (in_state s_req_http_major (with_parser (hp_major_update (\<lambda>_. digit_val ch)) x)))"

definition byte_req_http_major :: "char \<Rightarrow> 'o px \<Rightarrow> 'o byte_result" where
  "byte_req_http_major ch x =
     (if ch = CHR ''.'' then Continue (in_state s_req_first_http_minor x)
      else if \<not> is_digit ch then goto_error HPE_INVALID_VERSION x
      else
        (let y = with_parser (\<lambda>a. a\<lparr>hp_major := hp_major a * 10 + digit_val ch\<rparr>) x
         in if 999 < hp_major (px_parser y) then goto_error HPE_INVALID_VERSION y else Continue y))"

definition byte_req_first_http_minor :: "char \<Rightarrow> 'o px \<Rightarrow> 'o byte_result" where
  "byte_req_first_http_minor ch x =
     (if \<not> is_digit ch then goto_error HPE_INVALID_VERSION x
      else Continue (in_state s_req_http_minor (with_parser (hp_minor_update (\<lambda>_. digit_val ch)) x)))"

definition byte_req_http_minor :: "char \<Rightarrow> 'o px \<Rightarrow> 'o byte_result" where
  "byte_req_http_minor ch x =
     (if ch = CHR_CR then Continue (in_state s_req_line_almost_done x)
      else if ch = CHR_LF then Continue (in_state s_header_field_start x)
      else if \<not> is_digit ch then goto_error HPE_INVALID_VERSION x
      else
        (let y = with_parser (\<lambda>a. a\<lparr>hp_minor := hp_minor a * 10 + digit_val ch\<rparr>) x
         in if 999 < hp_minor (px_parser y) then goto_error HPE_INVALID_VERSION y else Continue y))"

definition byte_req_line_almost_done :: "char \<Rightarrow> 'o px \<Rightarrow> 'o byte_result" where
  "byte_req_line_almost_done ch x =
     (if ch \<noteq> CHR_LF then goto_error HPE_LF_EXPECTED x else Continue (in_state s_header_field_start x))"

section \<open>Headers\<close>

definition first_header_state :: "char \<Rightarrow> header_state" where
  "first_header_state c =
     (if c = CHR ''c'' then h_C
      else if c = CHR ''p'' then h_matching_proxy_connection
      else if c = CHR ''t'' then h_matching_transfer_encoding
      else if c = CHR ''u'' then h_matching_upgrade
      else h_general)"

definition byte_header_field_start :: "char \<Rightarrow> 'o px \<Rightarrow> 'o byte_result" where
  "byte_header_field_start ch x =
     (if ch = CHR_CR then Continue (in_state s_headers_almost_done x)
      else if ch = CHR_LF then Reexecute (in_state s_headers_almost_done x)
      else if TOKEN ch = NUL then goto_error HPE_INVALID_HEADER_TOKEN x
      else
        Continue (with_parser (\<lambda>a. a\<lparr>hp_state := s_header_field, hp_header_state := first_header_state (TOKEN ch),
          hp_index := 0\<rparr>) (MARK DataHeaderField x)))"

text \<open>index++, and whether the byte is the next one of the word: the state after its last byte is found.\<close>

definition match_word :: "string \<Rightarrow> header_state \<Rightarrow> char \<Rightarrow> 'o px \<Rightarrow> 'o byte_result" where
  "match_word word found c x =
     (let y = with_parser (\<lambda>a. a\<lparr>hp_index := (hp_index a + 1) mod 256\<rparr>) x; i = hp_index (px_parser y)
      in if length word < i then Continue (in_header h_general y)
         else
           (case char_at word i of
              None \<Rightarrow> Crash
            | Some w \<Rightarrow>
                if c \<noteq> w then Continue (in_header h_general y)
                else if i = length word - 1 then Continue (in_header found y)
                else Continue y))"

text \<open>index++ and the next of the states h_C, h_CO and h_CON.\<close>

definition next_header :: "header_state \<Rightarrow> 'o px \<Rightarrow> 'o byte_result" where
  "next_header h x =
     Continue (in_header h (with_parser (\<lambda>a. a\<lparr>hp_index := (hp_index a + 1) mod 256\<rparr>) x))"

definition header_field_token :: "char \<Rightarrow> char \<Rightarrow> 'o px \<Rightarrow> 'o byte_result" where
  "header_field_token ch c x =
     (case hp_header_state (px_parser x) of
        h_general \<Rightarrow> Continue x
      | h_C \<Rightarrow> next_header (if c = CHR ''o'' then h_CO else h_general) x
      | h_CO \<Rightarrow> next_header (if c = CHR ''n'' then h_CON else h_general) x
      | h_CON \<Rightarrow>
          next_header (if c = CHR ''n'' then h_matching_connection
            else if c = CHR ''t'' then h_matching_content_length else h_general) x
      | h_matching_connection \<Rightarrow> match_word ''connection'' h_connection c x
      | h_matching_proxy_connection \<Rightarrow> match_word ''proxy-connection'' h_connection c x
      | h_matching_content_length \<Rightarrow> match_word ''content-length'' h_content_length c x
      | h_matching_transfer_encoding \<Rightarrow> match_word ''transfer-encoding'' h_transfer_encoding c x
      | h_matching_upgrade \<Rightarrow> match_word ''upgrade'' h_upgrade c x
      | h_connection \<Rightarrow> Continue (if ch \<noteq> CHR '' '' then in_header h_general x else x)
      | h_content_length \<Rightarrow> Continue (if ch \<noteq> CHR '' '' then in_header h_general x else x)
      | h_transfer_encoding \<Rightarrow> Continue (if ch \<noteq> CHR '' '' then in_header h_general x else x)
      | h_upgrade \<Rightarrow> Continue (if ch \<noteq> CHR '' '' then in_header h_general x else x)
      | _ \<Rightarrow> Crash)"

definition byte_header_field :: "'o http_settings \<Rightarrow> char \<Rightarrow> 'o px \<Rightarrow> 'o byte_result" where
  "byte_header_field S ch x =
     (if TOKEN ch \<noteq> NUL then header_field_token ch (TOKEN ch) x
      else if ch = CHR '':'' then CALLBACK_DATA S DataHeaderField (in_state s_header_value_start x) Continue
      else if ch = CHR_CR then CALLBACK_DATA S DataHeaderField (in_state s_header_almost_done x) Continue
      else if ch = CHR_LF then CALLBACK_DATA S DataHeaderField (in_state s_header_field_start x) Continue
      else goto_error HPE_INVALID_HEADER_TOKEN x)"

text \<open>What the first byte of a value tells, by the header it belongs to.\<close>

definition header_value_first :: "char \<Rightarrow> 'o px \<Rightarrow> 'o byte_result" where
  "header_value_first ch x =
     (case hp_header_state (px_parser x) of
        h_upgrade \<Rightarrow> Continue (in_header h_general (add_flag F_UPGRADE x))
      | h_transfer_encoding \<Rightarrow>
          Continue (in_header (if LOWER ch = CHR ''c'' then h_matching_transfer_encoding_chunked else h_general) x)
      | h_content_length \<Rightarrow>
          if \<not> is_digit ch then goto_error HPE_INVALID_CONTENT_LENGTH x
          else Continue (with_parser (hp_content_length_update (\<lambda>_. int (digit_val ch))) x)
      | h_connection \<Rightarrow>
          Continue (in_header (if LOWER ch = CHR ''k'' then h_matching_connection_keep_alive
            else if LOWER ch = CHR ''c'' then h_matching_connection_close else h_general) x)
      | _ \<Rightarrow> Continue (in_header h_general x))"

definition byte_header_value_start :: "'o http_settings \<Rightarrow> char \<Rightarrow> 'o px \<Rightarrow> 'o byte_result" where
  "byte_header_value_start S ch x =
     (if ch = CHR '' '' \<or> ch = CHR_HT then Continue x
      else
        (let y = with_parser (\<lambda>a. a\<lparr>hp_state := s_header_value, hp_index := 0\<rparr>) (MARK DataHeaderValue x)
         in if ch = CHR_CR then
              CALLBACK_DATA S DataHeaderValue (in_state s_header_almost_done (in_header h_general y)) Continue
            else if ch = CHR_LF then CALLBACK_DATA S DataHeaderValue (in_state s_header_field_start y) Continue
            else header_value_first ch y))"

text \<open>The uint64_t t = 10 * content_length + digit; only some of the values that wrap are noticed.\<close>

definition more_digits :: "int \<Rightarrow> int \<Rightarrow> int \<Rightarrow> int option" where
  "more_digits base content_length d =
     (let t = (content_length * base mod 2 ^ 64 + d) mod 2 ^ 64
      in if t < content_length \<or> t = ULLONG_MAX then None else Some t)"

definition content_length_digit :: "char \<Rightarrow> 'o px \<Rightarrow> 'o byte_result" where
  "content_length_digit ch x =
     (if ch = CHR '' '' then Continue x
      else if \<not> is_digit ch then goto_error HPE_INVALID_CONTENT_LENGTH x
      else
        (case more_digits 10 (hp_content_length (px_parser x)) (int (digit_val ch)) of
           None \<Rightarrow> goto_error HPE_INVALID_CONTENT_LENGTH x
         | Some t \<Rightarrow> Continue (with_parser (hp_content_length_update (\<lambda>_. t)) x)))"

definition header_value_byte :: "char \<Rightarrow> 'o px \<Rightarrow> 'o byte_result" where
  "header_value_byte ch x =
     (case hp_header_state (px_parser x) of
        h_general \<Rightarrow> Continue x
      | h_connection \<Rightarrow> Crash
      | h_transfer_encoding \<Rightarrow> Crash
      | h_content_length \<Rightarrow> content_length_digit ch x
      | h_matching_transfer_encoding_chunked \<Rightarrow> match_word ''chunked'' h_transfer_encoding_chunked (LOWER ch) x
      | h_matching_connection_keep_alive \<Rightarrow> match_word ''keep-alive'' h_connection_keep_alive (LOWER ch) x
      | h_matching_connection_close \<Rightarrow> match_word ''close'' h_connection_close (LOWER ch) x
      | h_transfer_encoding_chunked \<Rightarrow> Continue (if ch \<noteq> CHR '' '' then in_header h_general x else x)
      | h_connection_keep_alive \<Rightarrow> Continue (if ch \<noteq> CHR '' '' then in_header h_general x else x)
      | h_connection_close \<Rightarrow> Continue (if ch \<noteq> CHR '' '' then in_header h_general x else x)
      | _ \<Rightarrow> Continue (in_header h_general (in_state s_header_value x)))"

definition byte_header_value :: "'o http_settings \<Rightarrow> char \<Rightarrow> 'o px \<Rightarrow> 'o byte_result" where
  "byte_header_value S ch x =
     (if ch = CHR_CR then CALLBACK_DATA S DataHeaderValue (in_state s_header_almost_done x) Continue
      else if ch = CHR_LF then CALLBACK_DATA_NOADVANCE S DataHeaderValue (in_state s_header_almost_done x) Reexecute
      else header_value_byte ch x)"

definition byte_header_almost_done :: "char \<Rightarrow> 'o px \<Rightarrow> 'o byte_result" where
  "byte_header_almost_done ch x =
     STRICT_CHECK (ch \<noteq> CHR_LF) x
       (let y = in_state s_header_value_lws x
        in case hp_header_state (px_parser x) of
             h_connection_keep_alive \<Rightarrow> Continue (add_flag F_CONNECTION_KEEP_ALIVE y)
           | h_connection_close \<Rightarrow> Continue (add_flag F_CONNECTION_CLOSE y)
           | h_transfer_encoding_chunked \<Rightarrow> Continue (add_flag F_CHUNKED y)
           | _ \<Rightarrow> Continue y)"

definition byte_header_value_lws :: "char \<Rightarrow> 'o px \<Rightarrow> 'o byte_result" where
  "byte_header_value_lws ch x =
     (if ch = CHR '' '' \<or> ch = CHR_HT then Continue (in_state s_header_value_start x)
      else Reexecute (in_state s_header_field_start x))"

definition byte_headers_almost_done :: "'o http_settings \<Rightarrow> char \<Rightarrow> 'o px \<Rightarrow> 'o byte_result" where
  "byte_headers_almost_done S ch x =
     STRICT_CHECK (ch \<noteq> CHR_LF) x
       (if F_TRAILING \<in> hp_flags (px_parser x) then
          CALLBACK_NOTIFY (cb_message_complete S) HPE_CB_message_complete (new_message x) Continue
        else
          (let y = with_parser (\<lambda>a. a\<lparr>hp_state := s_headers_done,
                     hp_upgrade := (F_UPGRADE \<in> hp_flags a \<or> hp_method a = HTTP_CONNECT)\<rparr>) x
           in case cb_headers_complete S of
                None \<Rightarrow> Reexecute y
              | Some f \<Rightarrow>
                  (let (r, obj) = f (px_parser y) (px_obj y); z = y\<lparr>px_obj := obj\<rparr>
                   in if r = 0 then Reexecute z
                      else if r = 1 then Reexecute (add_flag F_SKIPBODY z)
                      else goto_error HPE_CB_headers_complete z)))"

definition byte_headers_done :: "'o http_settings \<Rightarrow> char \<Rightarrow> 'o px \<Rightarrow> 'o byte_result" where
  "byte_headers_done S ch x =
     STRICT_CHECK (ch \<noteq> CHR_LF) x
       (let y = with_parser (hp_nread_update (\<lambda>_. 0)) x;
            a = px_parser y;
            complete = CALLBACK_NOTIFY (cb_message_complete S) HPE_CB_message_complete (new_message y)
        in if hp_upgrade a then complete (\<lambda>z. ReturnAt (z\<lparr>px_p := tl (px_p z)\<rparr>))
           else if F_SKIPBODY \<in> hp_flags a then complete Continue
           else if F_CHUNKED \<in> hp_flags a then Continue (in_state s_chunk_size_start y)
           else if hp_content_length a = 0 then complete Continue
           else if hp_content_length a \<noteq> ULLONG_MAX then Continue (in_state s_body_identity y)
           else if hp_type a = HTTP_REQUEST \<or> \<not> http_message_needs_eof a then complete Continue
           else Continue (in_state s_body_identity_eof y))"

section \<open>The body\<close>

definition byte_body_identity :: "'o http_settings \<Rightarrow> 'o px \<Rightarrow> 'o byte_result" where
  "byte_body_identity S x =
     (let to_read = min (hp_content_length (px_parser x)) (int (length (px_p x)))
      in assert_then (hp_content_length (px_parser x) \<noteq> 0 \<and> hp_content_length (px_parser x) \<noteq> ULLONG_MAX)
           (let y = with_parser (\<lambda>a. a\<lparr>hp_content_length := hp_content_length a - to_read\<rparr>) (MARK DataBody x);
                z = y\<lparr>px_p := drop (nat to_read - 1) (px_p y)\<rparr>
            in if hp_content_length (px_parser z) = 0 then
                 CALLBACK_DATA_AT S DataBody 1 (px_p z) (in_state s_message_done z) Reexecute
               else Continue z))"

definition byte_body_identity_eof :: "'o px \<Rightarrow> 'o byte_result" where
  "byte_body_identity_eof x =
     (let y = MARK DataBody x in Continue (y\<lparr>px_p := drop (length (px_p y) - 1) (px_p y)\<rparr>))"

definition byte_message_done :: "'o http_settings \<Rightarrow> 'o px \<Rightarrow> 'o byte_result" where
  "byte_message_done S x =
     CALLBACK_NOTIFY (cb_message_complete S) HPE_CB_message_complete (new_message x) Continue"

section \<open>Chunks\<close>

definition assert_chunked :: "'o px \<Rightarrow> 'o byte_result \<Rightarrow> 'o byte_result" where
  "assert_chunked x r = assert_then (F_CHUNKED \<in> hp_flags (px_parser x)) r"

definition byte_chunk_size_start :: "char \<Rightarrow> 'o px \<Rightarrow> 'o byte_result" where
  "byte_chunk_size_start ch x =
     assert_then (hp_nread (px_parser x) = 1) (assert_chunked x
       (if unhex ch = - 1 then goto_error HPE_INVALID_CHUNK_SIZE x
        else Continue (in_state s_chunk_size (with_parser (hp_content_length_update (\<lambda>_. unhex ch)) x))))"

definition byte_chunk_size :: "char \<Rightarrow> 'o px \<Rightarrow> 'o byte_result" where
  "byte_chunk_size ch x =
     assert_chunked x
       (if ch = CHR_CR then Continue (in_state s_chunk_size_almost_done x)
        else if unhex ch = - 1 then
          (if ch = CHR '';'' \<or> ch = CHR '' '' then Continue (in_state s_chunk_parameters x)
           else goto_error HPE_INVALID_CHUNK_SIZE x)
        else
          (case more_digits 16 (hp_content_length (px_parser x)) (unhex ch) of
             None \<Rightarrow> goto_error HPE_INVALID_CONTENT_LENGTH x
           | Some t \<Rightarrow> Continue (with_parser (hp_content_length_update (\<lambda>_. t)) x)))"

definition byte_chunk_parameters :: "char \<Rightarrow> 'o px \<Rightarrow> 'o byte_result" where
  "byte_chunk_parameters ch x =
     assert_chunked x (if ch = CHR_CR then Continue (in_state s_chunk_size_almost_done x) else Continue x)"

definition byte_chunk_size_almost_done :: "char \<Rightarrow> 'o px \<Rightarrow> 'o byte_result" where
  "byte_chunk_size_almost_done ch x =
     assert_chunked x (STRICT_CHECK (ch \<noteq> CHR_LF) x
       (let y = with_parser (hp_nread_update (\<lambda>_. 0)) x
        in if hp_content_length (px_parser y) = 0 then Continue (in_state s_header_field_start (add_flag F_TRAILING y))
           else Continue (in_state s_chunk_data y)))"

definition byte_chunk_data :: "'o px \<Rightarrow> 'o byte_result" where
  "byte_chunk_data x =
     (let to_read = min (hp_content_length (px_parser x)) (int (length (px_p x)))
      in assert_chunked x
           (assert_then (hp_content_length (px_parser x) \<noteq> 0 \<and> hp_content_length (px_parser x) \<noteq> ULLONG_MAX)
             (let y = with_parser (\<lambda>a. a\<lparr>hp_content_length := hp_content_length a - to_read\<rparr>) (MARK DataBody x);
                  z = y\<lparr>px_p := drop (nat to_read - 1) (px_p y)\<rparr>
              in if hp_content_length (px_parser z) = 0 then Continue (in_state s_chunk_data_almost_done z)
                 else Continue z)))"

definition byte_chunk_data_almost_done :: "'o http_settings \<Rightarrow> char \<Rightarrow> 'o px \<Rightarrow> 'o byte_result" where
  "byte_chunk_data_almost_done S ch x =
     assert_chunked x (assert_then (hp_content_length (px_parser x) = 0)
       (STRICT_CHECK (ch \<noteq> CHR_CR) x (CALLBACK_DATA S DataBody (in_state s_chunk_data_done x) Continue)))"

definition byte_chunk_data_done :: "char \<Rightarrow> 'o px \<Rightarrow> 'o byte_result" where
  "byte_chunk_data_done ch x =
     assert_chunked x (STRICT_CHECK (ch \<noteq> CHR_LF) x
       (Continue (in_state s_chunk_size_start (with_parser (hp_nread_update (\<lambda>_. 0)) x))))"

section \<open>The loop over the bytes\<close>

primrec execute_byte :: "parse_state \<Rightarrow> 'o http_settings \<Rightarrow> char \<Rightarrow> 'o px \<Rightarrow> 'o byte_result" where
  "execute_byte s_dead = (\<lambda>S. byte_dead)"
| "execute_byte s_start_req_or_res = byte_start_req_or_res"
| "execute_byte s_res_or_resp_H = (\<lambda>S. byte_res_or_resp_H)"
| "execute_byte s_start_res = byte_start_res"
| "execute_byte s_res_H = (\<lambda>S. byte_expect (CHR ''T'') s_res_HT)"
| "execute_byte s_res_HT = (\<lambda>S. byte_expect (CHR ''T'') s_res_HTT)"
| "execute_byte s_res_HTT = (\<lambda>S. byte_expect (CHR ''P'') s_res_HTTP)"
| "execute_byte s_res_HTTP = (\<lambda>S. byte_expect (CHR ''/'') s_res_first_http_major)"
| "execute_byte s_res_first_http_major = (\<lambda>S. byte_res_first_http_major)"
| "execute_byte s_res_http_major = (\<lambda>S. byte_res_http_major)"
| "execute_byte s_res_first_http_minor = (\<lambda>S. byte_res_first_http_minor)"
| "execute_byte s_res_http_minor = (\<lambda>S. byte_res_http_minor)"
| "execute_byte s_res_first_status_code = (\<lambda>S. byte_res_first_status_code)"
| "execute_byte s_res_status_code = (\<lambda>S. byte_res_status_code)"
| "execute_byte s_res_status = (\<lambda>S. byte_res_status)"
| "execute_byte s_res_line_almost_done = byte_res_line_almost_done"
| "execute_byte s_start_req = byte_start_req"
| "execute_byte s_req_method = (\<lambda>S. byte_req_method)"
| "execute_byte s_req_spaces_before_url = (\<lambda>S. byte_req_spaces_before_url)"
| "execute_byte s_req_schema = (\<lambda>S. byte_req_schema)"
| "execute_byte s_req_schema_slash = (\<lambda>S. byte_req_schema)"
| "execute_byte s_req_schema_slash_slash = (\<lambda>S. byte_req_schema)"
| "execute_byte s_req_server_start = (\<lambda>S. byte_req_schema)"
| "execute_byte s_req_server = byte_req_url"
| "execute_byte s_req_server_with_at = byte_req_url"
| "execute_byte s_req_path = byte_req_url"
| "execute_byte s_req_query_string_start = byte_req_url"
| "execute_byte s_req_query_string = byte_req_url"
| "execute_byte s_req_fragment_start = byte_req_url"
| "execute_byte s_req_fragment = byte_req_url"
| "execute_byte s_req_http_start = (\<lambda>S. byte_req_http_start)"
| "execute_byte s_req_http_H = (\<lambda>S. byte_expect (CHR ''T'') s_req_http_HT)"
| "execute_byte s_req_http_HT = (\<lambda>S. byte_expect (CHR ''T'') s_req_http_HTT)"
| "execute_byte s_req_http_HTT = (\<lambda>S. byte_expect (CHR ''P'') s_req_http_HTTP)"
| "execute_byte s_req_http_HTTP = (\<lambda>S. byte_expect (CHR ''/'') s_req_first_http_major)"
| "execute_byte s_req_first_http_major = (\<lambda>S. byte_req_first_http_major)"
| "execute_byte s_req_http_major = (\<lambda>S. byte_req_http_major)"
| "execute_byte s_req_first_http_minor = (\<lambda>S. byte_req_first_http_minor)"
| "execute_byte s_req_http_minor = (\<lambda>S. byte_req_http_minor)"
| "execute_byte s_req_line_almost_done = (\<lambda>S. byte_req_line_almost_done)"
| "execute_byte s_header_field_start = (\<lambda>S. byte_header_field_start)"
| "execute_byte s_header_field = byte_header_field"
| "execute_byte s_header_value_start = byte_header_value_start"
| "execute_byte s_header_value = byte_header_value"
| "execute_byte s_header_value_lws = (\<lambda>S. byte_header_value_lws)"
| "execute_byte s_header_almost_done = (\<lambda>S. byte_header_almost_done)"
| "execute_byte s_chunk_size_start = (\<lambda>S. byte_chunk_size_start)"
| "execute_byte s_chunk_size = (\<lambda>S. byte_chunk_size)"
| "execute_byte s_chunk_parameters = (\<lambda>S. byte_chunk_parameters)"
| "execute_byte s_chunk_size_almost_done = (\<lambda>S. byte_chunk_size_almost_done)"
| "execute_byte s_headers_almost_done = byte_headers_almost_done"
| "execute_byte s_headers_done = byte_headers_done"
| "execute_byte s_chunk_data = (\<lambda>S ch. byte_chunk_data)"
| "execute_byte s_chunk_data_almost_done = byte_chunk_data_almost_done"
| "execute_byte s_chunk_data_done = (\<lambda>S. byte_chunk_data_done)"
| "execute_byte s_body_identity = (\<lambda>S ch. byte_body_identity S)"
| "execute_byte s_body_identity_eof = (\<lambda>S ch. byte_body_identity_eof)"
| "execute_byte s_message_done = (\<lambda>S ch. byte_message_done S)"

text \<open>The four ways a byte ends, and what holds then. Crash is allowed if the argument b says so.\<close>

primrec fits ::
    "('o px \<Rightarrow> bool) \<Rightarrow> ('o px \<Rightarrow> bool) \<Rightarrow> ('o px \<Rightarrow> bool) \<Rightarrow> bool \<Rightarrow> 'o byte_result \<Rightarrow> bool" where
  "fits C R T b (Continue x) = C x"
| "fits C R T b (Reexecute x) = R x"
| "fits C R T b (ReturnAt x) = T x"
| "fits C R T b Crash = b"

lemma fits_fail [simp]: "fits C R T b (goto_error e x) = T (set_errno e x)"
  by (simp add: goto_error_def)

lemma fits_strict [simp]: "fits C R T b (STRICT_CHECK c x r) = (if c then T (set_errno HPE_STRICT x) else fits C R T b r)"
  by (simp add: STRICT_CHECK_def)

lemma fits_assert [simp]: "fits C R T b (assert_then c r) = (if c then fits C R T b r else b)"
  by (simp add: assert_then_def)

lemma px_parts [simp]:
  "px_p (with_parser f x) = px_p x" "px_obj (with_parser f x) = px_obj x" "px_mark (with_parser f x) = px_mark x"
  "px_parser (with_parser f x) = f (px_parser x)"
  by (simp_all add: with_parser_def)

lemma px_more_parts [simp]:
  "px_p (in_state s x) = px_p x" "px_mark (in_state s x) = px_mark x"
  "px_p (in_header h x) = px_p x" "px_mark (in_header h x) = px_mark x"
  "px_p (add_flag g x) = px_p x" "px_mark (add_flag g x) = px_mark x"
  "px_p (set_errno e x) = px_p x" "px_mark (set_errno e x) = px_mark x"
  "px_p (clear_message x) = px_p x" "px_mark (clear_message x) = px_mark x"
  "px_p (new_message x) = px_p x" "px_mark (new_message x) = px_mark x"
  "px_p (MARK k x) = px_p x" "px_parser (MARK k x) = px_parser x"
  by (simp_all add: in_state_def in_header_def add_flag_def set_errno_def clear_message_def new_message_def MARK_def)

lemma px_parser_parts [simp]:
  "px_parser (in_state s x) = (px_parser x)\<lparr>hp_state := s\<rparr>"
  "px_parser (in_header h x) = (px_parser x)\<lparr>hp_header_state := h\<rparr>"
  "px_parser (add_flag g x) = (px_parser x)\<lparr>hp_flags := insert g (hp_flags (px_parser x))\<rparr>"
  "px_parser (set_errno e x) = (px_parser x)\<lparr>hp_errno := e\<rparr>"
  "px_parser (clear_message x) = (px_parser x)\<lparr>hp_flags := {}, hp_content_length := ULLONG_MAX\<rparr>"
  "px_parser (new_message x) = (px_parser x)\<lparr>hp_state := NEW_MESSAGE (px_parser x)\<rparr>"
  by (simp_all add: in_state_def in_header_def add_flag_def set_errno_def clear_message_def new_message_def)

lemma fits_notify:
  assumes "hp_errno (px_parser x) = HPE_OK \<or> b" and "\<And>obj. T (set_errno e (x\<lparr>px_obj := obj, px_p := er\<rparr>))"
    and "\<And>obj. fits C R T b (k (x\<lparr>px_obj := obj\<rparr>))"
  shows "fits C R T b (CALLBACK_NOTIFY_AT cb e er x k)"
  using assms(1,2) assms(3) [of "px_obj x"] assms(3)
  by (auto simp: CALLBACK_NOTIFY_AT_def Let_def split: option.splits prod.splits)

lemma fits_data:
  assumes "hp_errno (px_parser x) = HPE_OK \<or> b" and "\<And>obj e. T (set_errno e (x\<lparr>px_obj := obj, px_p := er\<rparr>))"
    and "\<And>obj. fits C R T b (k (x\<lparr>px_obj := obj, px_mark := (px_mark x)(kind := None)\<rparr>))"
  shows "fits C R T b (CALLBACK_DATA_AT S kind extra er x k)"
proof -
  have "x\<lparr>px_obj := px_obj x, px_mark := (px_mark x)(kind := None)\<rparr> = x" if "px_mark x kind = None"
    using that fun_upd_triv [of "px_mark x" kind] by simp
  moreover have "x\<lparr>px_obj := px_obj x, px_mark := (px_mark x)(kind := None)\<rparr> = x\<lparr>px_mark := (px_mark x)(kind := None)\<rparr>"
    by simp
  ultimately show ?thesis
    using assms(1,2) assms(3) [of "px_obj x"] assms(3)
    by (auto simp: CALLBACK_DATA_AT_def Let_def split: option.splits prod.splits)
qed

lemmas callback_at = CALLBACK_NOTIFY_def CALLBACK_DATA_def CALLBACK_DATA_NOADVANCE_def

text \<open>How often a byte may still be looked at again.\<close>

definition again_rank :: "parse_state \<Rightarrow> nat" where
  "again_rank s =
     (if s = s_header_value_lws then 3
      else if s = s_header_field_start then 2
      else if s \<in> {s_start_req_or_res, s_headers_almost_done, s_header_value, s_body_identity} then 1
      else 0)"

definition ahead :: "'o px \<Rightarrow> 'o px \<Rightarrow> bool" where
  "ahead x y \<longleftrightarrow> px_p y \<noteq> [] \<and> length (px_p y) \<le> length (px_p x)"

definition moves :: "parse_state \<Rightarrow> 'o px \<Rightarrow> 'o byte_result \<Rightarrow> bool" where
  "moves s x = fits (ahead x) (\<lambda>y. ahead x y \<and> again_rank (hp_state (px_parser y)) < again_rank s) (\<lambda>_. True) True"

lemma ahead_same [simp]: "px_p y = px_p x \<Longrightarrow> ahead x y \<longleftrightarrow> px_p x \<noteq> []"
  by (simp add: ahead_def)

lemma ahead_drop [simp]: "px_p y = drop k (px_p x) \<Longrightarrow> ahead x y \<longleftrightarrow> k < length (px_p x)"
  by (auto simp: ahead_def)

lemma moves_simps [simp]:
  "moves s x (Continue y) = ahead x y"
  "moves s x (Reexecute y) = (ahead x y \<and> again_rank (hp_state (px_parser y)) < again_rank s)"
  "moves s x (ReturnAt y)" "moves s x Crash" "moves s x (goto_error e y)"
  "moves s x (STRICT_CHECK c y r) = (c \<or> moves s x r)" "moves s x (assert_then c r) = (c \<longrightarrow> moves s x r)"
  by (simp_all add: moves_def)

lemma moves_callbacks [intro!]:
  "(\<And>obj. moves s z (k (x\<lparr>px_obj := obj\<rparr>))) \<Longrightarrow> moves s z (CALLBACK_NOTIFY cb e x k)"
  "(\<And>obj m. moves s z (k (x\<lparr>px_obj := obj, px_mark := m\<rparr>))) \<Longrightarrow> moves s z (CALLBACK_DATA_AT S kind extra er x k)"
  "(\<And>obj m. moves s z (k (x\<lparr>px_obj := obj, px_mark := m\<rparr>))) \<Longrightarrow> moves s z (CALLBACK_DATA S kind x k)"
  "(\<And>obj m. moves s z (k (x\<lparr>px_obj := obj, px_mark := m\<rparr>))) \<Longrightarrow> moves s z (CALLBACK_DATA_NOADVANCE S kind x k)"
  unfolding moves_def callback_at by (auto intro!: fits_notify fits_data)

lemmas line_byte_defs =
  byte_dead_def byte_start_req_or_res_def byte_res_or_resp_H_def byte_start_res_def byte_expect_def
  byte_res_first_http_major_def byte_res_http_major_def byte_res_first_http_minor_def byte_res_http_minor_def
  byte_res_first_status_code_def byte_res_status_code_def byte_res_status_def byte_res_line_almost_done_def
  byte_start_req_def byte_req_method_def byte_req_spaces_before_url_def byte_req_schema_def byte_req_url_def
  byte_req_http_start_def byte_req_first_http_major_def byte_req_http_major_def byte_req_first_http_minor_def
  byte_req_http_minor_def byte_req_line_almost_done_def

lemmas header_byte_defs =
  byte_header_field_start_def byte_header_field_def byte_header_value_start_def byte_header_value_def
  byte_header_value_lws_def

lemmas body_byte_defs =
  byte_body_identity_eof_def byte_message_done_def assert_chunked_def byte_chunk_size_start_def
  byte_chunk_size_def byte_chunk_parameters_def byte_chunk_size_almost_done_def
  byte_chunk_data_almost_done_def byte_chunk_data_done_def

lemma moves_header:
  assumes "px_p y \<noteq> []" and "px_p y = px_p x"
  shows moves_match: "moves s x (match_word w f c y)"
    and moves_header_field_token: "moves s x (header_field_token ch c y)"
    and moves_header_value_first: "moves s x (header_value_first ch y)"
    and moves_header_value_byte: "moves s x (header_value_byte ch y)"
    and moves_header_almost_done: "moves s x (byte_header_almost_done ch y)"
proof -
  show m: "moves s x (match_word w f c y)" for w f c
    using assms by (simp add: match_word_def Let_def split: option.split)
  show "moves s x (header_field_token ch c y)" "moves s x (header_value_first ch y)"
    "moves s x (byte_header_almost_done ch y)"
    using assms
    by (cases "hp_header_state (px_parser y)";
        simp add: header_field_token_def header_value_first_def byte_header_almost_done_def next_header_def m Let_def)+
  show "moves s x (header_value_byte ch y)"
    using assms
    by (cases "hp_header_state (px_parser y)";
        simp add: header_value_byte_def content_length_digit_def m split: option.split)
qed

lemma moves_headers_end:
  assumes "px_p x \<noteq> []"
  shows "moves s_headers_almost_done x (byte_headers_almost_done S ch x)" "moves s x (byte_headers_done S ch x)"
  using assms
  by (auto simp: byte_headers_almost_done_def byte_headers_done_def again_rank_def Let_def split: option.split prod.split)

lemma to_read_bound:
  assumes "p \<noteq> []"
  shows "nat (min c (int (length p))) - 1 < length p"
proof -
  have "nat (min c (int (length p))) \<le> length p" by simp
  with assms show ?thesis by (cases "nat (min c (int (length p)))") auto
qed

lemma moves_body:
  assumes "px_p x \<noteq> []"
  shows "moves s_body_identity x (byte_body_identity S x)" "moves s x (byte_chunk_data x)"
  unfolding byte_body_identity_def byte_chunk_data_def assert_chunked_def Let_def again_rank_def
  using to_read_bound [OF assms, of "hp_content_length (px_parser x)"]
  by (auto simp del: One_nat_def simp: again_rank_def intro!: moves_callbacks)

lemma execute_byte_moves:
  assumes "px_p x \<noteq> []"
  shows "moves s x (execute_byte s S ch x)"
  using assms
  by (cases s;
      simp add: line_byte_defs header_byte_defs body_byte_defs moves_header moves_headers_end moves_body moves_callbacks Let_def again_rank_def
      split: option.split)

text \<open>A byte, until the state of it says break. The argument ch is *p of the first time.\<close>

function byte_loop :: "'o http_settings \<Rightarrow> char \<Rightarrow> 'o px \<Rightarrow> 'o byte_result" where
  "byte_loop S ch x =
     (if px_p x = [] then Crash
      else
        (case execute_byte (hp_state (px_parser x)) S ch x of
           Reexecute y \<Rightarrow> byte_loop S ch y
         | r \<Rightarrow> r))"
  by pat_completeness auto
termination
proof (relation "measure (\<lambda>(S, ch, x). again_rank (hp_state (px_parser x)))", simp, goal_cases)
  case (1 S ch x y)
  then show ?case using execute_byte_moves [of x "hp_state (px_parser x)" S ch] by simp
qed

declare byte_loop.simps [simp del]

lemma byte_loop_moves: "byte_loop S ch x = Continue y \<Longrightarrow> ahead x y"
proof (induction S ch x rule: byte_loop.induct)
  case (1 S ch x)
  have "moves (hp_state (px_parser x)) x (execute_byte (hp_state (px_parser x)) S ch x)" if "px_p x \<noteq> []"
    by (rule execute_byte_moves [OF that])
  with 1 show ?case
    by (auto simp: byte_loop.simps [of S ch x] ahead_def split: if_splits byte_result.splits)
qed

text \<open>The header of a message is limited: more bytes than HTTP_MAX_HEADER_SIZE are an error.\<close>

definition count_byte :: "'o px \<Rightarrow> 'o px" where
  "count_byte x =
     (if PARSING_HEADER (hp_state (px_parser x)) then with_parser (\<lambda>a. a\<lparr>hp_nread := (hp_nread a + 1) mod 2 ^ 32\<rparr>) x else x)"

definition header_overflow :: "'o px \<Rightarrow> bool" where
  "header_overflow x \<longleftrightarrow> PARSING_HEADER (hp_state (px_parser x)) \<and> HTTP_MAX_HEADER_SIZE < hp_nread (px_parser x)"

lemma px_p_count_byte [simp]: "px_p (count_byte x) = px_p x"
  by (simp add: count_byte_def)

function execute_from :: "'o http_settings \<Rightarrow> 'o px \<Rightarrow> 'o byte_result" where
  "execute_from S x =
     (if px_p x = [] then Continue x
      else if header_overflow (count_byte x) then goto_error HPE_HEADER_OVERFLOW (count_byte x)
      else
        (case byte_loop S (hd (px_p x)) (count_byte x) of
           Continue y \<Rightarrow> execute_from S (y\<lparr>px_p := tl (px_p y)\<rparr>)
         | r \<Rightarrow> r))"
  by pat_completeness auto
termination
proof (relation "measure (\<lambda>(S, x). length (px_p x))", simp, goal_cases)
  case (1 S x y)
  then show ?case using byte_loop_moves [OF 1(3)] by (cases "px_p y") (auto simp: ahead_def)
qed

declare execute_from.simps [simp del]

section \<open>http_parser_execute\<close>

text \<open>The states in which the buffer starts inside of a piece that is marked.\<close>

definition first_marks :: "parse_state \<Rightarrow> string \<Rightarrow> data_kind \<Rightarrow> string option" where
  "first_marks s data kind =
     (if kind = DataHeaderField \<and> s = s_header_field \<or> kind = DataHeaderValue \<and> s = s_header_value \<or>
         kind = DataUrl \<and> s \<in> {s_req_path, s_req_schema, s_req_schema_slash, s_req_schema_slash_slash, s_req_server_start,
           s_req_server, s_req_server_with_at, s_req_query_string_start, s_req_query_string, s_req_fragment_start,
           s_req_fragment}
      then Some data else None)"

definition marks_set :: "'o px \<Rightarrow> nat" where
  "marks_set x = length (filter (\<lambda>k. px_mark x k \<noteq> None) [DataHeaderField, DataHeaderValue, DataUrl, DataBody])"

text \<open>Behind the loop: the pieces that are marked are handed out up to the end of the buffer.\<close>

definition leftover :: "'o http_settings \<Rightarrow> 'o px \<Rightarrow> 'o byte_result" where
  "leftover S x =
     assert_then (marks_set x \<le> 1)
       (CALLBACK_DATA_NOADVANCE S DataHeaderField x (\<lambda>x.
        CALLBACK_DATA_NOADVANCE S DataHeaderValue x (\<lambda>x.
        CALLBACK_DATA_NOADVANCE S DataUrl x (\<lambda>x.
        CALLBACK_DATA_NOADVANCE S DataBody x ReturnAt))))"

text \<open>
  The parser, the object and the number of bytes read; None, the program was aborted. An empty buffer
  says that the connection is at its end.
\<close>

definition http_parser_execute ::
    "'o http_settings \<Rightarrow> http_parser \<Rightarrow> 'o \<Rightarrow> string \<Rightarrow> (http_parser \<times> 'o \<times> nat) option" where
  "http_parser_execute S parser obj data =
     (let s = hp_state parser;
          x = \<lparr>px_parser = parser, px_obj = obj, px_p = data, px_mark = first_marks s data\<rparr>
      in if hp_errno parser \<noteq> HPE_OK then Some (parser, obj, 0)
         else if data = [] then
           (if s = s_body_identity_eof then
              (case CALLBACK_NOTIFY_AT (cb_message_complete S) HPE_CB_message_complete data x ReturnAt of
                 ReturnAt y \<Rightarrow> Some (px_parser y, px_obj y, 0)
               | _ \<Rightarrow> None)
            else if s \<in> {s_dead, s_start_req_or_res, s_start_res, s_start_req} then Some (parser, obj, 0)
            else Some (parser\<lparr>hp_errno := HPE_INVALID_EOF_STATE\<rparr>, obj, 1))
         else
           (case (case execute_from S x of Continue y \<Rightarrow> leftover S y | r \<Rightarrow> r) of
              ReturnAt y \<Rightarrow> Some (px_parser y, px_obj y, length data - length (px_p y))
            | _ \<Rightarrow> None))"

definition http_parser_init :: "http_parser_type \<Rightarrow> http_parser" where
  "http_parser_init t =
     \<lparr>hp_type = t, hp_flags = {},
      hp_state = (if t = HTTP_REQUEST then s_start_req else if t = HTTP_RESPONSE then s_start_res else s_start_req_or_res),
      hp_header_state = h_general, hp_index = 0, hp_nread = 0, hp_content_length = 0, hp_major = 0, hp_minor = 0,
      hp_status_code = 0, hp_method = HTTP_DELETE, hp_errno = HPE_OK, hp_upgrade = False\<rparr>"

text \<open>Pausing a parser that is in an error state is an assert that fails.\<close>

definition http_parser_pause :: "http_parser \<Rightarrow> bool \<Rightarrow> http_parser option" where
  "http_parser_pause parser paused =
     (if hp_errno parser = HPE_OK \<or> hp_errno parser = HPE_PAUSED
      then Some (parser\<lparr>hp_errno := (if paused then HPE_PAUSED else HPE_OK)\<rparr>)
      else None)"

definition http_body_is_final :: "http_parser \<Rightarrow> bool" where
  "http_body_is_final parser \<longleftrightarrow> hp_state parser = s_message_done"

end
