(* ===== verification/Http_Parser_Safety.thy ===== *)
theory Http_Parser_Safety
  imports Http_Parser
begin

text \<open>
  http_parser_execute never aborts and stays inside of its buffer: px_ok is kept by every byte, for
  all settings and whatever the callbacks answer.
\<close>

section \<open>Pointers into the buffer\<close>

definition within :: "string \<Rightarrow> string \<Rightarrow> bool" where
  "within p q \<longleftrightarrow> (\<exists>u. q = u @ p)"

lemma within_refl [simp]: "within p p"
  by (simp add: within_def)

lemma within_drop: "within p q \<Longrightarrow> within (drop n p) q"
proof -
  assume "within p q"
  then obtain u where "q = (u @ take n p) @ drop n p" by (auto simp: within_def)
  then show ?thesis unfolding within_def by blast
qed

lemma within_tl: "within p q \<Longrightarrow> within (tl p) q"
  using within_drop [of p q 1] by (simp add: drop_Suc)

lemma within_length: "within p q \<Longrightarrow> length p \<le> length q"
  by (auto simp: within_def)

lemma within_trans: "within p q \<Longrightarrow> within q r \<Longrightarrow> within p r"
  by (auto simp: within_def)

section \<open>The invariant\<close>

abbreviation "url_states \<equiv>
  {s_req_path, s_req_schema, s_req_schema_slash, s_req_schema_slash_slash, s_req_server_start, s_req_server,
   s_req_server_with_at, s_req_query_string_start, s_req_query_string, s_req_fragment_start, s_req_fragment}"

primrec mark_states :: "data_kind \<Rightarrow> parse_state set" where
  "mark_states DataUrl = url_states"
| "mark_states DataHeaderField = {s_header_field}"
| "mark_states DataHeaderValue = {s_header_value}"
| "mark_states DataBody = {s_body_identity, s_body_identity_eof, s_chunk_data, s_chunk_data_almost_done}"

abbreviation "chunk_states \<equiv>
  {s_chunk_size_start, s_chunk_size, s_chunk_parameters, s_chunk_size_almost_done, s_chunk_data,
   s_chunk_data_almost_done, s_chunk_data_done}"

text \<open>The number of bytes counted at the start of a chunk size is k: 0 between two bytes, 1 during one.\<close>

definition parser_ok :: "int \<Rightarrow> http_parser \<Rightarrow> bool" where
  "parser_ok k a \<longleftrightarrow>
     hp_errno a = HPE_OK \<and>
     (hp_state a = s_chunk_size_start \<longrightarrow> hp_nread a = k) \<and>
     (hp_state a \<in> chunk_states \<longrightarrow> F_CHUNKED \<in> hp_flags a) \<and>
     0 \<le> hp_content_length a \<and> hp_content_length a \<le> ULLONG_MAX \<and>
     (hp_state a \<in> {s_chunk_size, s_chunk_parameters, s_chunk_size_almost_done, s_chunk_data, s_body_identity} \<longrightarrow>
       hp_content_length a \<noteq> ULLONG_MAX) \<and>
     (hp_state a \<in> {s_chunk_data, s_body_identity} \<longrightarrow> hp_content_length a \<noteq> 0) \<and>
     (hp_state a = s_chunk_data_almost_done \<longrightarrow> hp_content_length a = 0) \<and>
     (hp_state a = s_req_method \<longrightarrow> hp_index a \<le> length (method_strings (hp_method a))) \<and>
     (hp_state a = s_header_field \<longrightarrow>
       hp_header_state a \<in> {h_general, h_C, h_CO, h_CON, h_matching_connection, h_matching_proxy_connection,
         h_matching_content_length, h_matching_transfer_encoding, h_matching_upgrade, h_connection, h_content_length,
         h_transfer_encoding, h_upgrade}) \<and>
     (hp_state a = s_header_value \<longrightarrow> hp_header_state a \<notin> {h_connection, h_transfer_encoding})"

definition mark_ok :: "string \<Rightarrow> 'o px \<Rightarrow> data_kind \<Rightarrow> bool" where
  "mark_ok data x kind \<longleftrightarrow>
     (case px_mark x kind of
        None \<Rightarrow> True
      | Some m \<Rightarrow> hp_state (px_parser x) \<in> mark_states kind \<and> within m data \<and> within (px_p x) m)"

definition px_ok :: "string \<Rightarrow> ('o \<Rightarrow> bool) \<Rightarrow> int \<Rightarrow> 'o px \<Rightarrow> bool" where
  "px_ok data I k x \<longleftrightarrow>
     parser_ok k (px_parser x) \<and> within (px_p x) data \<and> I (px_obj x) \<and>
     mark_ok data x DataUrl \<and> mark_ok data x DataHeaderField \<and> mark_ok data x DataHeaderValue \<and> mark_ok data x DataBody"

text \<open>A parser to go on with: in an error it does nothing any more.\<close>

definition resumable :: "http_parser \<Rightarrow> bool" where
  "resumable a \<longleftrightarrow> hp_errno a \<noteq> HPE_OK \<or> parser_ok 0 a"

definition returns_ok :: "string \<Rightarrow> ('o \<Rightarrow> bool) \<Rightarrow> 'o px \<Rightarrow> bool" where
  "returns_ok data I x \<longleftrightarrow> resumable (px_parser x) \<and> I (px_obj x) \<and> within (px_p x) data"

text \<open>Callbacks keep I, provided that what they are handed is a part of the buffer.\<close>

definition notify_keeps :: "('o \<Rightarrow> bool) \<Rightarrow> 'o http_cb option \<Rightarrow> bool" where
  "notify_keeps I cb \<longleftrightarrow> (\<forall>f a obj. cb = Some f \<longrightarrow> I obj \<longrightarrow> I (snd (f a obj)))"

definition callbacks_keep :: "string \<Rightarrow> ('o \<Rightarrow> bool) \<Rightarrow> 'o http_settings \<Rightarrow> bool" where
  "callbacks_keep data I S \<longleftrightarrow>
     notify_keeps I (cb_message_begin S) \<and> notify_keeps I (cb_status_complete S) \<and>
     notify_keeps I (cb_headers_complete S) \<and> notify_keeps I (cb_message_complete S) \<and>
     (\<forall>kind f a at len obj. data_cb kind S = Some f \<longrightarrow> within at data \<longrightarrow> len \<le> length at \<longrightarrow> I obj \<longrightarrow>
       I (snd (f a at len obj)))"

abbreviation steps_ok :: "string \<Rightarrow> ('o \<Rightarrow> bool) \<Rightarrow> 'o byte_result \<Rightarrow> bool" where
  "steps_ok data I \<equiv> fits (px_ok data I 0) (px_ok data I 1) (returns_ok data I) False"

lemma ok_fail [simp]: "e \<noteq> HPE_OK \<Longrightarrow> returns_ok data I (set_errno e x) = (I (px_obj x) \<and> within (px_p x) data)"
  by (simp add: returns_ok_def resumable_def set_errno_def)

lemma ok_notify:
  assumes "notify_keeps I cb" and "e \<noteq> HPE_OK" and "hp_errno (px_parser x) = HPE_OK" and "I (px_obj x)"
    and "within er data" and "\<And>obj. I obj \<Longrightarrow> fits C R (returns_ok data I) False (k (x\<lparr>px_obj := obj\<rparr>))"
  shows "fits C R (returns_ok data I) False (CALLBACK_NOTIFY_AT cb e er x k)"
proof (cases cb)
  case None
  then show ?thesis using assms(3,4) assms(6) [of "px_obj x"] by (simp add: CALLBACK_NOTIFY_AT_def)
next
  case (Some f)
  obtain r obj where f: "f (px_parser x) (px_obj x) = (r, obj)" by fastforce
  then have "I obj" using assms(1,4) Some unfolding notify_keeps_def by (metis snd_conv)
  then show ?thesis using assms(2,3,5,6) Some f by (simp add: CALLBACK_NOTIFY_AT_def Let_def)
qed

lemma ok_data:
  assumes "callbacks_keep data I S" and "hp_errno (px_parser x) = HPE_OK" and "I (px_obj x)" and "within er data"
    and "\<And>m. px_mark x kind = Some m \<Longrightarrow> within m data \<and> within (px_p x) m \<and> extra \<le> length (px_p x)"
    and "\<And>obj. I obj \<Longrightarrow> fits C R (returns_ok data I) False (k (x\<lparr>px_obj := obj, px_mark := (px_mark x)(kind := None)\<rparr>))"
  shows "fits C R (returns_ok data I) False (CALLBACK_DATA_AT S kind extra er x k)"
proof (cases "px_mark x kind")
  case None
  then have "x\<lparr>px_obj := px_obj x, px_mark := (px_mark x)(kind := None)\<rparr> = x"
    using fun_upd_triv [of "px_mark x" kind] by simp
  then show ?thesis using None assms(2,3) assms(6) [of "px_obj x"] by (simp add: CALLBACK_DATA_AT_def)
next
  case (Some m)
  note m = assms(5) [OF Some]
  show ?thesis
  proof (cases "data_cb kind S")
    case None
    then show ?thesis using Some assms(2,3) assms(6) [of "px_obj x"] by (simp add: CALLBACK_DATA_AT_def Let_def)
  next
    case f: (Some f)
    obtain r obj where r: "f (px_parser x) m (length m - length (px_p x) + extra) (px_obj x) = (r, obj)" by fastforce
    have "length m - length (px_p x) + extra \<le> length m" using m within_length [of "px_p x" m] by linarith
    then have "I obj" using assms(1,3) f m r unfolding callbacks_keep_def by (metis snd_conv)
    moreover have "data_errno kind \<noteq> HPE_OK" by (cases kind) simp_all
    ultimately show ?thesis using Some f r assms(2,4,6) by (simp add: CALLBACK_DATA_AT_def Let_def)
  qed
qed

section \<open>Every byte keeps it\<close>

lemma no_marks:
  assumes "px_ok data I k x" and "\<And>kind. hp_state (px_parser x) \<notin> mark_states kind"
  shows "px_mark x = (\<lambda>_. None)"
proof
  fix kind
  show "px_mark x kind = None"
    using assms(1) assms(2) [of kind] by (cases kind; auto simp: px_ok_def mark_ok_def split: option.splits)
qed

lemma px_ok_unmarked:
  "px_mark y = (\<lambda>_. None) \<Longrightarrow>
   px_ok data I k y = (parser_ok k (px_parser y) \<and> within (px_p y) data \<and> I (px_obj y))"
  by (simp add: px_ok_def mark_ok_def)

lemma px_obj_parts [simp]:
  "px_obj (in_state s x) = px_obj x" "px_obj (in_header h x) = px_obj x" "px_obj (add_flag f x) = px_obj x"
  "px_obj (set_errno e x) = px_obj x" "px_obj (clear_message x) = px_obj x" "px_obj (new_message x) = px_obj x"
  "px_obj (MARK kind x) = px_obj x"
  by (simp_all add: in_state_def in_header_def add_flag_def set_errno_def clear_message_def new_message_def MARK_def)

lemma other_method_length: "other_method m i ch = Some m' \<Longrightarrow> Suc i \<le> length (method_strings m')"
  by (auto simp: other_method_def split: if_splits)

lemma method_length: "Suc 0 \<le> length (method_strings m)" "length (method_strings m) \<le> 11"
  by (cases m; simp)+

lemma char_at_cases:
  "char_at w i = None \<longleftrightarrow> length w < i" "char_at w i = Some c \<Longrightarrow> c \<noteq> NUL \<Longrightarrow> Suc i \<le> length w"
  by (auto simp: char_at_def split: if_splits)

lemma NEW_MESSAGE_state: "NEW_MESSAGE a \<in> {s_dead, s_start_req, s_start_res}"
  by (simp add: NEW_MESSAGE_def start_state_def)

lemma more_digits_bound:
  assumes "more_digits base n d = Some t"
  shows "0 \<le> t \<and> t < ULLONG_MAX"
proof -
  have "t = (n * base mod 2 ^ 64 + d) mod 2 ^ 64" "t \<noteq> ULLONG_MAX"
    using assms by (auto simp: more_digits_def Let_def split: if_splits)
  moreover have "(n * base mod 2 ^ 64 + d) mod 2 ^ 64 < 2 ^ 64" "0 \<le> (n * base mod 2 ^ 64 + d) mod 2 ^ 64"
    by simp_all
  ultimately show ?thesis by (simp add: ULLONG_MAX_def)
qed

lemma digit_val_bound: "int (digit_val c) \<le> ULLONG_MAX"
proof -
  have "(of_char c :: nat) < 256" by simp
  then have "digit_val c < 256" unfolding digit_val_def by linarith
  then have "int (digit_val c) < 256" by simp
  then show ?thesis by (simp add: ULLONG_MAX_def)
qed

lemma unhex_bound: "unhex c \<noteq> - 1 \<Longrightarrow> 0 \<le> unhex c \<and> unhex c < ULLONG_MAX"
  by (auto simp: unhex_def Let_def is_digit_def ULLONG_MAX_def split: if_splits)

lemma parse_url_char_state:
  "s \<in> url_states \<or> s = s_req_spaces_before_url \<Longrightarrow> parse_url_char s ch \<in> url_states \<union> {s_dead}"
  by (simp add: parse_url_char_def)

text \<open>The states of the first line, and between two messages, but for the URL.\<close>

lemma line_bytes_ok:
  assumes "px_ok data I 1 x" and "hp_state (px_parser x) = s" and "px_p x \<noteq> []" and "callbacks_keep data I S"
    and "s \<in> {s_dead, s_start_req_or_res, s_res_or_resp_H, s_start_res, s_res_H, s_res_HT, s_res_HTT,
      s_res_HTTP, s_res_first_http_major, s_res_http_major, s_res_first_http_minor, s_res_http_minor,
      s_res_first_status_code, s_res_status_code, s_res_status, s_res_line_almost_done, s_start_req,
      s_req_http_start, s_req_http_H, s_req_http_HT, s_req_http_HTT, s_req_http_HTTP,
      s_req_first_http_major, s_req_http_major, s_req_first_http_minor, s_req_http_minor, s_req_line_almost_done}"
  shows "steps_ok data I (execute_byte s S ch x)"
proof -
  have n: "px_mark x = (\<lambda>_. None)"
  proof (rule no_marks [OF assms(1)])
    show "hp_state (px_parser x) \<notin> mark_states kind" for kind
      using assms(2,5) by (cases kind) auto
  qed
  have x: "hp_errno (px_parser x) = HPE_OK" "0 \<le> hp_content_length (px_parser x) \<and> hp_content_length (px_parser x) \<le> ULLONG_MAX" "within (px_p x) data" "I (px_obj x)"
    using assms(1) by (simp_all add: px_ok_def parser_ok_def)
  have k: "notify_keeps I (cb_message_begin S)" "notify_keeps I (cb_status_complete S)"
    using assms(4) by (simp_all add: callbacks_keep_def)
  show ?thesis
    using assms(2,5) x k
    by (cases s; simp add: line_byte_defs px_ok_unmarked n CALLBACK_NOTIFY_def ok_notify parser_ok_def Let_def
        within_tl ULLONG_MAX_def method_length split: option.split)
qed

lemma method_byte_ok:
  assumes "px_ok data I 1 x" and "hp_state (px_parser x) = s_req_method"
  shows "steps_ok data I (byte_req_method ch x)"
proof -
  let ?a = "px_parser x"
  have n: "px_mark x = (\<lambda>_. None)"
  proof (rule no_marks [OF assms(1)])
    show "hp_state ?a \<notin> mark_states kind" for kind using assms(2) by (cases kind) auto
  qed
  have x: "hp_errno ?a = HPE_OK" "0 \<le> hp_content_length ?a \<and> hp_content_length ?a \<le> ULLONG_MAX" "within (px_p x) data" "I (px_obj x)"
      "hp_index ?a \<le> length (method_strings (hp_method ?a))"
    using assms by (simp_all add: px_ok_def parser_ok_def)
  have small: "Suc (hp_index ?a) mod 256 = Suc (hp_index ?a)"
    using x(5) method_length(2) [of "hp_method ?a"] by simp
  show ?thesis
    using x assms(2) small
    by (auto simp: byte_req_method_def px_ok_unmarked n parser_ok_def Let_def char_at_cases
        dest: char_at_cases(2) other_method_length split: option.split)
qed

lemma url_bytes_ok:
  assumes "px_ok data I 1 x" and "hp_state (px_parser x) = s" and "px_p x \<noteq> []" and "callbacks_keep data I S"
    and "s \<in> insert s_req_spaces_before_url url_states"
  shows "steps_ok data I (execute_byte s S ch x)"
proof -
  have x: "hp_errno (px_parser x) = HPE_OK" "0 \<le> hp_content_length (px_parser x) \<and> hp_content_length (px_parser x) \<le> ULLONG_MAX" "within (px_p x) data" "I (px_obj x)"
    using assms(1) by (simp_all add: px_ok_def parser_ok_def)
  have m: "px_mark x kind = None" if "kind \<noteq> DataUrl" for kind
    using assms(1,2,5) that by (cases kind; auto simp: px_ok_def mark_ok_def split: option.splits)
  have u: "within m data \<and> within (px_p x) m" if "px_mark x DataUrl = Some m" for m
    using assms(1) that by (simp add: px_ok_def mark_ok_def)
  have mk: "px_ok data I k (in_state t (MARK DataUrl x))" if "t \<in> url_states" for t k
    using that x m u by (auto simp: px_ok_def parser_ok_def mark_ok_def MARK_def split: option.split)
  have pl: "px_ok data I k (in_state t x)" if "t \<in> url_states" for t k
    using that x m u by (auto simp: px_ok_def parser_ok_def mark_ok_def split: option.split)
  have cb: "steps_ok data I (CALLBACK_DATA S DataUrl (in_state t (with_parser f x)) Continue)"
    if "t \<in> {s_req_http_start, s_req_line_almost_done, s_header_field_start}" and "\<And>a. hp_errno (f a) = hp_errno a"
      "\<And>a. hp_content_length (f a) = hp_content_length a" for t f
    unfolding CALLBACK_DATA_def
    using that x u m
    by (intro ok_data [OF assms(4)]) (auto simp: px_ok_def parser_ok_def mark_ok_def within_tl split: option.split)
  have cb0: "steps_ok data I (CALLBACK_DATA S DataUrl (in_state s_req_http_start x) Continue)"
    using cb [of s_req_http_start "\<lambda>a. a"] by (simp add: with_parser_def)
  have d: "returns_ok data I (set_errno HPE_INVALID_URL y)" if "px_obj y = px_obj x" "px_p y = px_p x" for y
    using x that by simp
  show ?thesis
  proof (cases "s = s_req_spaces_before_url")
    case True
    have p: "parse_url_char t ch \<in> url_states" if "parse_url_char t ch \<noteq> s_dead" "t = s_req_spaces_before_url \<or> t = s_req_server_start" for t
      using parse_url_char_state [of t ch] that by auto
    show ?thesis
      using True assms(1,2) mk [OF p] d x
      by (auto simp: byte_req_spaces_before_url_def Let_def px_ok_def parser_ok_def)
  next
    case False
    then have s: "s \<in> url_states" using assms(5) by simp
    then have "parse_url_char s ch \<in> url_states" if "parse_url_char s ch \<noteq> s_dead"
      using parse_url_char_state [of s ch] that by auto
    with pl have go: "px_ok data I 0 (in_state (parse_url_char s ch) x)" if "parse_url_char s ch \<noteq> s_dead"
      using that by blast
    have a: "steps_ok data I (byte_req_schema ch x)"
      using assms(2) go d x by (simp add: byte_req_schema_def Let_def)
    have "steps_ok data I (byte_req_url S ch x)"
      using assms(2) go d x cb0 cb by (simp add: byte_req_url_def Let_def)
    with a s show ?thesis by auto
  qed
qed

lemma mark_ok_with_parser [simp]:
  "hp_state (f (px_parser x)) = hp_state (px_parser x) \<Longrightarrow> mark_ok data (with_parser f x) kind = mark_ok data x kind"
  by (simp add: mark_ok_def split: option.split)

lemma header_field_ok:
  assumes "px_ok data I 1 x" and "hp_state (px_parser x) = s" and "px_p x \<noteq> []" and "callbacks_keep data I S"
    and "s \<in> {s_header_field_start, s_header_field}"
  shows "steps_ok data I (execute_byte s S ch x)"
proof -
  have x: "hp_errno (px_parser x) = HPE_OK" "0 \<le> hp_content_length (px_parser x) \<and> hp_content_length (px_parser x) \<le> ULLONG_MAX" "within (px_p x) data" "I (px_obj x)"
    using assms(1) by (simp_all add: px_ok_def parser_ok_def)
  have m: "px_mark x kind = None" if "kind \<noteq> DataHeaderField" for kind
    using assms(1,2,5) that by (cases kind; auto simp: px_ok_def mark_ok_def split: option.splits)
  have u: "within m data \<and> within (px_p x) m" if "px_mark x DataHeaderField = Some m" for m
    using assms(1) that by (simp add: px_ok_def mark_ok_def)
  show ?thesis
  proof (cases "s = s_header_field")
    case False
    then have s: "s = s_header_field_start" using assms(5) by simp
    then have n: "px_mark x DataHeaderField = None"
      using assms(1,2) by (auto simp: px_ok_def mark_ok_def split: option.splits)
    show ?thesis
      using s n assms(1,2) x m
      by (simp add: byte_header_field_start_def px_ok_def parser_ok_def mark_ok_def MARK_def first_header_state_def)
  next
    case True
    have h: "hp_header_state (px_parser x) \<in> {h_general, h_C, h_CO, h_CON, h_matching_connection,
        h_matching_proxy_connection, h_matching_content_length, h_matching_transfer_encoding, h_matching_upgrade,
        h_connection, h_content_length, h_transfer_encoding, h_upgrade}"
      using assms(1,2) True by (simp add: px_ok_def parser_ok_def)
    have "steps_ok data I (header_field_token ch c x)" for c
      using assms(1,2) True h
      by (cases "hp_header_state (px_parser x)";
          simp add: header_field_token_def next_header_def match_word_def Let_def in_header_def px_ok_def parser_ok_def
            char_at_cases split: option.split)
    moreover have "steps_ok data I (CALLBACK_DATA S DataHeaderField (in_state t x) Continue)"
      if "t \<in> {s_header_value_start, s_header_almost_done, s_header_field_start}" for t
      unfolding CALLBACK_DATA_def
      using that x u m
      by (intro ok_data [OF assms(4)]) (auto simp: px_ok_def parser_ok_def mark_ok_def within_tl split: option.split)
    ultimately show ?thesis
      using True x by (simp add: byte_header_field_def)
  qed
qed

lemma px_ok_facts:
  assumes "px_ok data I k x"
  shows "hp_errno (px_parser x) = HPE_OK" "0 \<le> hp_content_length (px_parser x) \<and> hp_content_length (px_parser x) \<le> ULLONG_MAX" "within (px_p x) data" "I (px_obj x)"
  using assms by (simp_all add: px_ok_def parser_ok_def)

lemma px_ok_mark:
  assumes "px_ok data I k x"
  shows "mark_ok data x kind"
    and "px_mark x kind = Some m \<Longrightarrow> hp_state (px_parser x) \<in> mark_states kind \<and> within m data \<and> within (px_p x) m"
    and "hp_state (px_parser x) \<notin> mark_states kind \<Longrightarrow> px_mark x kind = None"
proof -
  show m: "mark_ok data x kind" using assms by (cases kind) (simp_all add: px_ok_def)
  show "px_mark x kind = Some m \<Longrightarrow> hp_state (px_parser x) \<in> mark_states kind \<and> within m data \<and> within (px_p x) m"
    using m by (simp add: mark_ok_def)
  show "hp_state (px_parser x) \<notin> mark_states kind \<Longrightarrow> px_mark x kind = None"
    using m by (cases "px_mark x kind") (simp_all add: mark_ok_def)
qed

lemma header_value_facts:
  assumes "px_ok data I 1 x" and "hp_state (px_parser x) \<in> {s_header_value_start, s_header_value}"
  shows "px_mark x DataUrl = None" "px_mark x DataHeaderField = None" "px_mark x DataBody = None"
    and "px_mark x DataHeaderValue = Some m \<Longrightarrow> within m data \<and> within (px_p x) m"
  using assms(2) px_ok_mark(2,3) [OF assms(1)] by auto

lemma header_value_first_ok:
  assumes "px_ok data I 1 x" and "hp_state (px_parser x) = s_header_value_start"
  shows "steps_ok data I (header_value_first ch (with_parser (\<lambda>a. a\<lparr>hp_state := s_header_value, hp_index := 0\<rparr>) (MARK DataHeaderValue x)))"
  using px_ok_facts [OF assms(1)] header_value_facts [OF assms(1)] assms(2)
  by (cases "hp_header_state (px_parser x)";
      simp add: header_value_first_def in_header_def add_flag_def px_ok_def parser_ok_def mark_ok_def MARK_def
        digit_val_bound split: option.split)

lemma header_value_callback:
  assumes "px_ok data I 1 x" and "hp_state (px_parser x) \<in> {s_header_value_start, s_header_value}"
    and "callbacks_keep data I S" and "t \<in> {s_header_almost_done, s_header_field_start}"
    and "px_mark y = px_mark x \<or> px_mark y = px_mark (MARK DataHeaderValue x)"
    and y: "px_p y = px_p x" "px_obj y = px_obj x" "hp_errno (px_parser y) = HPE_OK" "0 \<le> hp_content_length (px_parser y) \<and> hp_content_length (px_parser y) \<le> ULLONG_MAX"
  shows "steps_ok data I (CALLBACK_DATA S DataHeaderValue (in_state t y) Continue)"
    "steps_ok data I (CALLBACK_DATA_NOADVANCE S DataHeaderValue (in_state t y) Reexecute)"
proof -
  have m: "px_mark y k = None" if "k \<noteq> DataHeaderValue" for k
    using header_value_facts [OF assms(1,2)] assms(5) that by (cases k; auto simp: MARK_def)
  have u: "within m data \<and> within (px_p x) m" if "px_mark y DataHeaderValue = Some m" for m
    using px_ok_facts [OF assms(1)] header_value_facts [OF assms(1,2)] assms(5) that by (auto simp: MARK_def split: if_splits)
  show "steps_ok data I (CALLBACK_DATA S DataHeaderValue (in_state t y) Continue)"
    "steps_ok data I (CALLBACK_DATA_NOADVANCE S DataHeaderValue (in_state t y) Reexecute)"
    unfolding CALLBACK_DATA_def CALLBACK_DATA_NOADVANCE_def
    using y u m assms(4) px_ok_facts [OF assms(1)] header_value_facts [OF assms(1,2)]
    by (auto intro!: ok_data [OF assms(3)] simp: px_ok_def parser_ok_def mark_ok_def within_tl)
qed

lemma header_value_byte_ok:
  assumes "px_ok data I 1 x" and "hp_state (px_parser x) = s_header_value"
  shows "steps_ok data I (header_value_byte ch x)"
proof -
  have h: "hp_header_state (px_parser x) \<notin> {h_connection, h_transfer_encoding}"
    using assms by (simp add: px_ok_def parser_ok_def)
  note x = px_ok_facts [OF assms(1)] px_ok_mark(1) [OF assms(1)]
  show ?thesis
    using x assms(2) h
    by (cases "hp_header_state (px_parser x)";
        simp add: header_value_byte_def content_length_digit_def match_word_def Let_def in_header_def in_state_def
          px_ok_def parser_ok_def char_at_cases more_digits_bound less_imp_le split: option.split)
qed

lemma header_value_ok:
  assumes "px_ok data I 1 x" and "hp_state (px_parser x) = s" and "callbacks_keep data I S"
    and "s \<in> {s_header_value_start, s_header_value}"
  shows "steps_ok data I (execute_byte s S ch x)"
proof -
  have s: "hp_state (px_parser x) \<in> {s_header_value_start, s_header_value}" using assms(2,4) by simp
  note cb = header_value_callback [OF assms(1) s assms(3)]
  note x = px_ok_facts [OF assms(1)] header_value_facts [OF assms(1) s]
  show ?thesis
  proof (cases "s = s_header_value")
    case False
    then have "s = s_header_value_start" using assms(4) by simp
    then show ?thesis
      using assms(1,2) x header_value_first_ok [OF assms(1)]
      by (simp add: byte_header_value_start_def Let_def px_ok_def parser_ok_def px_ok_mark(1) [OF assms(1)] cb)
  next
    case True
    then show ?thesis
      using assms(2) x header_value_byte_ok [OF assms(1)]
      by (simp add: byte_header_value_def cb)
  qed
qed

lemma NEW_MESSAGE_not [simp]:
  "NEW_MESSAGE a \<noteq> s_chunk_size_start" "NEW_MESSAGE a \<noteq> s_chunk_size" "NEW_MESSAGE a \<noteq> s_chunk_parameters"
  "NEW_MESSAGE a \<noteq> s_chunk_size_almost_done" "NEW_MESSAGE a \<noteq> s_chunk_data" "NEW_MESSAGE a \<noteq> s_chunk_data_almost_done"
  "NEW_MESSAGE a \<noteq> s_chunk_data_done" "NEW_MESSAGE a \<noteq> s_body_identity" "NEW_MESSAGE a \<noteq> s_req_method"
  "NEW_MESSAGE a \<noteq> s_header_field" "NEW_MESSAGE a \<noteq> s_header_value"
  by (simp_all add: NEW_MESSAGE_def start_state_def)

lemma quiet_bytes_ok:
  assumes "px_ok data I 1 x" and "hp_state (px_parser x) = s" and "px_p x \<noteq> []" and "callbacks_keep data I S"
    and "s \<in> {s_header_value_lws, s_header_almost_done, s_headers_almost_done, s_headers_done, s_message_done, s_chunk_size_start,
      s_chunk_size, s_chunk_parameters, s_chunk_size_almost_done, s_chunk_data_done}"
  shows "steps_ok data I (execute_byte s S ch x)"
proof -
  have n: "px_mark x = (\<lambda>_. None)"
  proof (rule no_marks [OF assms(1)])
    show "hp_state (px_parser x) \<notin> mark_states kind" for kind
      using assms(2,5) by (cases kind) auto
  qed
  have p: "parser_ok 1 (px_parser x)" using assms(1) by (simp add: px_ok_def)
  note x = px_ok_facts [OF assms(1)]
  have k: "notify_keeps I (cb_headers_complete S)" "notify_keeps I (cb_message_complete S)"
    using assms(4) by (simp_all add: callbacks_keep_def)
  have fin: "fits (px_ok data I 0) R (returns_ok data I) False
      (CALLBACK_NOTIFY (cb_message_complete S) HPE_CB_message_complete (new_message y) g)"
    if "px_mark y = (\<lambda>_. None)" "px_p y = px_p x" "px_obj y = px_obj x" "hp_errno (px_parser y) = HPE_OK"
      "0 \<le> hp_content_length (px_parser y) \<and> hp_content_length (px_parser y) \<le> ULLONG_MAX" "g = Continue \<or> g = (\<lambda>z. ReturnAt (z\<lparr>px_p := tl (px_p z)\<rparr>))" for y g R
    unfolding CALLBACK_NOTIFY_def
    using that x k
    by (intro ok_notify) (auto simp: px_ok_unmarked parser_ok_def within_tl returns_ok_def resumable_def)
  have almost: "steps_ok data I (byte_header_almost_done ch x)"
    using x n by (cases "hp_header_state (px_parser x)"; simp add: byte_header_almost_done_def Let_def px_ok_unmarked parser_ok_def)
  have complete: "steps_ok data I (byte_headers_almost_done S ch x)"
  proof (cases "cb_headers_complete S")
    case None
    then show ?thesis using x n p fin by (simp add: byte_headers_almost_done_def Let_def px_ok_unmarked parser_ok_def)
  next
    case (Some f)
    have "I obj" if "f a (px_obj x) = (r, obj)" for a r obj
      using Some k(1) x(4) that unfolding notify_keeps_def by (metis snd_conv)
    then show ?thesis
      using Some x n fin by (auto simp: byte_headers_almost_done_def Let_def px_ok_unmarked parser_ok_def split: prod.split)
  qed
  have headers: "steps_ok data I (byte_headers_done S ch x)"
    using x n p fin by (simp add: byte_headers_done_def Let_def px_ok_unmarked parser_ok_def)
  show ?thesis
    using assms(2,5) x n p almost complete headers fin
    by (cases s; simp add: byte_header_value_lws_def byte_message_done_def body_byte_defs px_ok_unmarked parser_ok_def Let_def
        more_digits_bound unhex_bound less_imp_le less_imp_neq split: option.split)
qed

lemma body_bytes_ok:
  assumes "px_ok data I 1 x" and "hp_state (px_parser x) = s" and "px_p x \<noteq> []" and "callbacks_keep data I S"
    and "s \<in> mark_states DataBody"
  shows "steps_ok data I (execute_byte s S ch x)"
proof -
  note x = px_ok_facts [OF assms(1)]
  have m: "px_mark x kind = None" if "kind \<noteq> DataBody" for kind
    using px_ok_mark(3) [OF assms(1)] assms(2,5) that by (cases kind) auto
  have u: "within m data \<and> within (px_p x) m" if "px_mark x DataBody = Some m" for m
    using px_ok_mark(2) [OF assms(1) that] by simp
  have p: "parser_ok 1 (px_parser x)" using assms(1) by (simp add: px_ok_def)
  have mk: "px_mark (MARK DataBody x) kind = None" if "kind \<noteq> DataBody" for kind
    using m [OF that] that by (simp add: MARK_def)
  have mb: "within m data \<and> within (px_p x) m" if "px_mark (MARK DataBody x) DataBody = Some m" for m
    using that x u by (auto simp: MARK_def split: if_splits)
  have cb: "steps_ok data I (CALLBACK_DATA_AT S DataBody extra er y k)"
    if "\<And>j. j \<noteq> DataBody \<Longrightarrow> px_mark y j = None" "\<And>m. px_mark y DataBody = Some m \<Longrightarrow> within m data \<and> within (px_p y) m"
      "px_obj y = px_obj x" "hp_errno (px_parser y) = HPE_OK" "0 \<le> hp_content_length (px_parser y) \<and> hp_content_length (px_parser y) \<le> ULLONG_MAX" "within er data"
      "extra \<le> length (px_p y)" "within (px_p y) data" "hp_state (px_parser y) = s_chunk_data_done \<and> k = Continue \<and> F_CHUNKED \<in> hp_flags (px_parser y) \<or>
      hp_state (px_parser y) = s_message_done \<and> k = Reexecute" for y extra er k
    using that x
    by (intro ok_data [OF assms(4)]) (auto simp: px_ok_def parser_ok_def mark_ok_def)
  define t where "t = min (hp_content_length (px_parser x)) (int (length (px_p x)))"
  have ne: "nat t - 1 < length (px_p x)" unfolding t_def by (rule to_read_bound [OF assms(3)])
  have w: "within (drop n (px_p x)) q" if "within (px_p x) q" for q n
    by (rule within_drop [OF that])
  have t: "0 < t" "t \<le> hp_content_length (px_parser x)" if "hp_content_length (px_parser x) \<noteq> 0"
    using that x(2) assms(3) by (auto simp: t_def)
  have le: "hp_content_length (px_parser x) - t \<le> ULLONG_MAX" "0 \<le> hp_content_length (px_parser x) - t"
      "hp_content_length (px_parser x) - t \<noteq> ULLONG_MAX" if "hp_content_length (px_parser x) \<noteq> 0"
    using t [OF that] x(2) by linarith+
  have ok: "mark_ok data y kind"
    if "kind = DataBody \<longrightarrow> hp_state (px_parser y) \<in> mark_states DataBody" "px_mark y = px_mark (MARK DataBody x)"
      "px_p y = drop n (px_p x)" for y kind n
    using that mk [of kind] mb w by (cases "kind = DataBody"; auto simp: mark_ok_def split: option.split)
  consider "s = s_body_identity" | "s = s_body_identity_eof" | "s = s_chunk_data" | "s = s_chunk_data_almost_done"
    using assms(5) by auto
  then show ?thesis
  proof cases
    case 1
    then have c: "hp_content_length (px_parser x) \<noteq> 0" "hp_content_length (px_parser x) \<noteq> ULLONG_MAX"
      using p assms(2) by (simp_all add: parser_ok_def)
    show ?thesis
      using 1 c assms(2) x le w mk mb ne
      by (auto simp: byte_body_identity_def Let_def t_def [symmetric] px_ok_def parser_ok_def intro!: ok cb)
  next
    case 2
    then show ?thesis
      using assms(2) x w
      by (auto simp: byte_body_identity_eof_def Let_def px_ok_def parser_ok_def intro!: ok)
  next
    case 3
    then have c: "hp_content_length (px_parser x) \<noteq> 0" "hp_content_length (px_parser x) \<noteq> ULLONG_MAX"
        "F_CHUNKED \<in> hp_flags (px_parser x)"
      using p assms(2) by (simp_all add: parser_ok_def)
    show ?thesis
      using 3 c assms(2) x le w
      by (auto simp: byte_chunk_data_def assert_chunked_def Let_def t_def [symmetric] px_ok_def parser_ok_def intro!: ok)
  next
    case 4
    then show ?thesis
      using p assms(2) x m u
      by (auto simp: byte_chunk_data_almost_done_def assert_chunked_def parser_ok_def CALLBACK_DATA_def within_tl intro!: cb)
  qed
qed

lemma execute_byte_ok:
  assumes "px_ok data I 1 x" and "px_p x \<noteq> []" and "callbacks_keep data I S"
  shows "steps_ok data I (execute_byte (hp_state (px_parser x)) S ch x)"
proof -
  let ?s = "hp_state (px_parser x)"
  note q = assms(1) refl [of ?s] assms(2,3)
  show ?thesis
    using line_bytes_ok [OF q, of ch] url_bytes_ok [OF q, of ch] method_byte_ok [OF assms(1), of ch]
      header_field_ok [OF q, of ch] header_value_ok [OF assms(1) refl assms(3), of ch] quiet_bytes_ok [OF q, of ch]
      body_bytes_ok [OF q, of ch]
    by (cases ?s) simp_all
qed

section \<open>So does the loop\<close>

lemma byte_loop_ok:
  assumes "px_ok data I 1 x" and "px_p x \<noteq> []" and "callbacks_keep data I S"
  shows "fits (px_ok data I 0) (\<lambda>_. False) (returns_ok data I) False (byte_loop S ch x)"
  using assms
proof (induction S ch x rule: byte_loop.induct)
  case (1 S ch x)
  note ok = execute_byte_ok [OF 1(2-4), of ch]
  show ?case
  proof (cases "execute_byte (hp_state (px_parser x)) S ch x")
    case (Reexecute y)
    moreover have "px_p y \<noteq> []"
      using execute_byte_moves [OF 1(3), of "hp_state (px_parser x)" S ch] Reexecute by (simp add: ahead_def)
    ultimately show ?thesis
      using ok 1(1) [OF 1(3) Reexecute _ _ 1(4)] 1(3) by (simp add: byte_loop.simps [of S ch x])
  qed (use ok 1(3) in \<open>simp_all add: byte_loop.simps [of S ch x]\<close>)
qed

lemma count_byte_ok:
  assumes "px_ok data I 0 x"
  shows "px_ok data I 1 (count_byte x)"
proof -
  have m: "mark_ok data (count_byte x) k" for k
    using px_ok_mark(1) [OF assms, of k] by (simp add: count_byte_def)
  show ?thesis
    using assms m by (auto simp: px_ok_def parser_ok_def count_byte_def PARSING_HEADER_def)
qed

lemma next_byte_ok:
  assumes "px_ok data I k x"
  shows "px_ok data I k (x\<lparr>px_p := tl (px_p x)\<rparr>)"
proof -
  have "mark_ok data (x\<lparr>px_p := tl (px_p x)\<rparr>) kind" for kind
    using px_ok_mark(1) [OF assms, of kind] by (auto simp: mark_ok_def within_tl split: option.splits)
  then show ?thesis using assms by (simp add: px_ok_def within_tl)
qed

lemma execute_from_ok:
  assumes "px_ok data I 0 x" and "callbacks_keep data I S"
  shows "fits (\<lambda>y. px_ok data I 0 y \<and> px_p y = []) (\<lambda>_. False) (returns_ok data I) False (execute_from S x)"
  using assms
proof (induction S x rule: execute_from.induct)
  case (1 S x)
  note c = count_byte_ok [OF 1(2)]
  show ?case
  proof (cases "px_p x = []")
    case True
    then show ?thesis using 1(2) by (simp add: execute_from.simps [of S x])
  next
    case ne: False
    show ?thesis
    proof (cases "header_overflow (count_byte x)")
      case True
      then show ?thesis using ne c by (simp add: execute_from.simps [of S x] px_ok_def)
    next
      case False
      have b: "fits (px_ok data I 0) (\<lambda>_. False) (returns_ok data I) False (byte_loop S (hd (px_p x)) (count_byte x))"
        by (rule byte_loop_ok [OF c _ 1(3)]) (simp add: ne)
      show ?thesis
      proof (cases "byte_loop S (hd (px_p x)) (count_byte x)")
        case (Continue y)
        then have "px_ok data I 0 (y\<lparr>px_p := tl (px_p y)\<rparr>)" using b next_byte_ok by simp
        from 1(1) [OF ne False Continue this 1(3)] show ?thesis
          using ne False Continue by (simp add: execute_from.simps [of S x])
      qed (use b ne False in \<open>simp_all add: execute_from.simps [of S x]\<close>)
    qed
  qed
qed

lemma cleared_ok:
  assumes "px_ok data I k x" and "I obj"
  shows "px_ok data I k (x\<lparr>px_obj := obj, px_mark := (px_mark x)(kind := None)\<rparr>)"
proof -
  have "mark_ok data (x\<lparr>px_obj := obj, px_mark := (px_mark x)(kind := None)\<rparr>) j" for j
    using px_ok_mark(1) [OF assms(1), of j] by (cases "j = kind") (simp_all add: mark_ok_def split: option.splits)
  then show ?thesis using assms by (simp add: px_ok_def)
qed

lemma leftover_data:
  assumes "px_ok data I 0 x" and "callbacks_keep data I S"
    and "\<And>y. px_ok data I 0 y \<Longrightarrow> fits (\<lambda>_. False) (\<lambda>_. False) (returns_ok data I) False (g y)"
  shows "fits (\<lambda>_. False) (\<lambda>_. False) (returns_ok data I) False (CALLBACK_DATA_NOADVANCE S kind x g)"
  unfolding CALLBACK_DATA_NOADVANCE_def
  using assms(3) [OF cleared_ok [OF assms(1)]] px_ok_facts [OF assms(1)] px_ok_mark(2) [OF assms(1)]
  by (intro ok_data [OF assms(2)]) auto

lemma mark_states_disjoint: "s \<in> mark_states j \<Longrightarrow> s \<in> mark_states k \<Longrightarrow> j = k"
  by (cases s; cases j; simp; cases k; simp)

lemma leftover_ok:
  assumes "px_ok data I 0 x" and "callbacks_keep data I S"
  shows "fits (\<lambda>_. False) (\<lambda>_. False) (returns_ok data I) False (leftover S x)"
proof -
  obtain j where "px_mark x k = None" if "k \<noteq> j" for k
    using px_ok_mark(3) [OF assms(1)] mark_states_disjoint by metis
  then have "marks_set x \<le> 1" by (cases j) (simp_all add: marks_set_def)
  moreover have "returns_ok data I y" if "px_ok data I 0 y" for y
    using that by (simp add: px_ok_def returns_ok_def resumable_def)
  ultimately show ?thesis
    unfolding leftover_def using assms by (simp add: leftover_data)
qed

lemma start_ok:
  assumes "parser_ok 0 parser" and "I obj"
  shows "px_ok data I 0 \<lparr>px_parser = parser, px_obj = obj, px_p = data, px_mark = first_marks (hp_state parser) data\<rparr>"
  using assms by (simp add: px_ok_def mark_ok_def first_marks_def)

lemma execute_safe:
  assumes "resumable parser" and "callbacks_keep data I S" and "I obj"
  shows "\<exists>parser' obj' n. http_parser_execute S parser obj data = Some (parser', obj', n) \<and> resumable parser' \<and> I obj' \<and>
    n \<le> max 1 (length data)"
proof (cases "hp_errno parser = HPE_OK")
  case False
  then show ?thesis using assms by (simp add: http_parser_execute_def)
next
  case ok: True
  then have p: "parser_ok 0 parser" using assms(1) by (simp add: resumable_def)
  let ?x = "\<lparr>px_parser = parser, px_obj = obj, px_p = data, px_mark = first_marks (hp_state parser) data\<rparr>"
  note x = start_ok [where data = data and I = I, OF p assms(3)]
  show ?thesis
  proof (cases "data = []")
    case True
    have k: "notify_keeps I (cb_message_complete S)" using assms(2) by (simp add: callbacks_keep_def)
    have "fits (\<lambda>_. False) (\<lambda>_. False) (returns_ok data I) False
        (CALLBACK_NOTIFY_AT (cb_message_complete S) HPE_CB_message_complete data ?x ReturnAt)"
      using p assms(3) ok True by (intro ok_notify [OF k]) (auto simp: returns_ok_def resumable_def)
    then show ?thesis
      using True ok assms(3) p
      by (auto simp: http_parser_execute_def Let_def returns_ok_def resumable_def split: byte_result.splits)
  next
    case False
    have "fits (\<lambda>y. px_ok data I 0 y \<and> px_p y = []) (\<lambda>_. False) (returns_ok data I) False (execute_from S ?x)"
      by (rule execute_from_ok [OF x assms(2)])
    then have "fits (\<lambda>_. False) (\<lambda>_. False) (returns_ok data I) False
        (case execute_from S ?x of Continue y \<Rightarrow> leftover S y | r \<Rightarrow> r)"
      using leftover_ok [OF _ assms(2)] by (auto split: byte_result.split)
    then show ?thesis
      using False ok by (auto simp: http_parser_execute_def Let_def returns_ok_def split: byte_result.splits)
  qed
qed

section \<open>For every sequence of buffers\<close>

text \<open>A parser fed with one buffer after the other.\<close>

fun feed :: "'o http_settings \<Rightarrow> string list \<Rightarrow> http_parser \<Rightarrow> 'o \<Rightarrow> (http_parser \<times> 'o) option" where
  "feed S [] parser obj = Some (parser, obj)"
| "feed S (data # datas) parser obj =
     (case http_parser_execute S parser obj data of
        None \<Rightarrow> None
      | Some (parser', obj', _) \<Rightarrow> feed S datas parser' obj')"

lemma feed_safe:
  assumes "\<forall>data \<in> set datas. callbacks_keep data I S" and "resumable parser" and "I obj"
  shows "\<exists>parser' obj'. feed S datas parser obj = Some (parser', obj') \<and> I obj'"
  using assms
proof (induction datas arbitrary: parser obj)
  case (Cons data datas)
  obtain parser' obj' n where "http_parser_execute S parser obj data = Some (parser', obj', n)" "resumable parser'" "I obj'"
    using execute_safe [of parser data I S obj] Cons.prems by auto
  then show ?case using Cons by simp
qed simp

lemma init_resumable: "resumable (http_parser_init t)"
  by (simp add: resumable_def parser_ok_def http_parser_init_def ULLONG_MAX_def)

text \<open>
  C3. The parser is safe on every input: a fresh parser of any type, fed with any bytes cut into
  buffers in any way, fails none of its assertions, reads no word it matches out of bounds and comes
  to an end; and every piece of text a callback is handed lies inside of the buffer, so whatever
  the callbacks keep under that condition holds in the end.
\<close>

theorem http_parser_safe:
  assumes "\<forall>data \<in> set datas. callbacks_keep data I S" and "I obj"
  shows "\<exists>parser' obj'. feed S datas (http_parser_init t) obj = Some (parser', obj') \<and> I obj'"
  by (rule feed_safe [OF assms(1) init_resumable assms(2)])

text \<open>Callbacks that note the length of what they are handed and of what is left of the buffer.\<close>

definition noting_settings :: "(nat \<times> nat) list http_settings" where
  "noting_settings =
     (let note = Some (\<lambda>a at len l. (0, l @ [(len, length at)]))
      in \<lparr>cb_message_begin = None, cb_url = note, cb_status_complete = None, cb_header_field = note,
          cb_header_value = note, cb_headers_complete = None, cb_body = note, cb_message_complete = None\<rparr>)"

theorem http_parser_safe_witness:
  "\<exists>parser' l. feed noting_settings [''GET /x'', '' HTTP/1.1'' @ [CHR_LF, CHR_LF]] (http_parser_init HTTP_BOTH) [] = Some (parser', l) \<and>
     (\<forall>(len, room) \<in> set l. len \<le> room)"
proof (rule http_parser_safe)
  have "data_cb kind noting_settings = Some (\<lambda>a at len l. (0, l @ [(len, length at)]))" for kind
    by (cases kind) (simp_all add: noting_settings_def Let_def)
  then show "\<forall>data \<in> set [''GET /x'', '' HTTP/1.1'' @ [CHR_LF, CHR_LF]].
      callbacks_keep data (\<lambda>l. \<forall>(len, room) \<in> set l. len \<le> room) noting_settings"
    by (auto simp: callbacks_keep_def notify_keeps_def) (simp_all add: noting_settings_def Let_def)
qed simp

end
