(* ===== verification/Http_Parser_Object.thy ===== *)
theory Http_Parser_Object
  imports Http_Parser_Safety
begin

text \<open>
  The parser knows nothing of the object its callbacks work on: callbacks that answer the same and
  whose objects are related by a function leave the parser in the same state and the objects related.
\<close>

section \<open>The object of the callbacks\<close>

definition map_px :: "('a \<Rightarrow> 'b) \<Rightarrow> 'a px \<Rightarrow> 'b px" where
  "map_px h x = \<lparr>px_parser = px_parser x, px_obj = h (px_obj x), px_p = px_p x, px_mark = px_mark x\<rparr>"

primrec map_result :: "('a \<Rightarrow> 'b) \<Rightarrow> 'a byte_result \<Rightarrow> 'b byte_result" where
  "map_result h (Continue x) = Continue (map_px h x)"
| "map_result h (Reexecute x) = Reexecute (map_px h x)"
| "map_result h (ReturnAt x) = ReturnAt (map_px h x)"
| "map_result h Crash = Crash"

definition same_notify :: "('a \<Rightarrow> 'b) \<Rightarrow> 'a http_cb option \<Rightarrow> 'b http_cb option \<Rightarrow> bool" where
  "same_notify h cb cb' \<longleftrightarrow>
     (case (cb, cb') of
        (None, None) \<Rightarrow> True
      | (Some f, Some f') \<Rightarrow> (\<forall>a obj. f' a (h obj) = (fst (f a obj), h (snd (f a obj))))
      | _ \<Rightarrow> False)"

definition same_settings :: "('a \<Rightarrow> 'b) \<Rightarrow> 'a http_settings \<Rightarrow> 'b http_settings \<Rightarrow> bool" where
  "same_settings h S S' \<longleftrightarrow>
     same_notify h (cb_message_begin S) (cb_message_begin S') \<and> same_notify h (cb_status_complete S) (cb_status_complete S') \<and>
     same_notify h (cb_headers_complete S) (cb_headers_complete S') \<and>
     same_notify h (cb_message_complete S) (cb_message_complete S') \<and>
     (\<forall>kind. case (data_cb kind S, data_cb kind S') of
        (None, None) \<Rightarrow> True
      | (Some f, Some f') \<Rightarrow> (\<forall>a at len obj. f' a at len (h obj) = (fst (f a at len obj), h (snd (f a at len obj))))
      | _ \<Rightarrow> False)"

lemma map_px_parts [simp]:
  "px_parser (map_px h x) = px_parser x" "px_p (map_px h x) = px_p x" "px_mark (map_px h x) = px_mark x"
  "px_obj (map_px h x) = h (px_obj x)"
  by (simp_all add: map_px_def)

lemma map_px_ops [simp]:
  "with_parser f (map_px h x) = map_px h (with_parser f x)" "in_state s (map_px h x) = map_px h (in_state s x)"
  "in_header k (map_px h x) = map_px h (in_header k x)" "add_flag g (map_px h x) = map_px h (add_flag g x)"
  "set_errno e (map_px h x) = map_px h (set_errno e x)" "clear_message (map_px h x) = map_px h (clear_message x)"
  "new_message (map_px h x) = map_px h (new_message x)" "MARK kind (map_px h x) = map_px h (MARK kind x)"
  "(map_px h x)\<lparr>px_p := p\<rparr> = map_px h (x\<lparr>px_p := p\<rparr>)"
  "(map_px h x)\<lparr>px_mark := m\<rparr> = map_px h (x\<lparr>px_mark := m\<rparr>)"
  "(map_px h x)\<lparr>px_obj := h obj\<rparr> = map_px h (x\<lparr>px_obj := obj\<rparr>)"
  by (simp_all add: map_px_def with_parser_def in_state_def in_header_def add_flag_def set_errno_def clear_message_def
      new_message_def MARK_def)

lemma map_result_ops [simp]:
  "map_result h (goto_error e x) = goto_error e (map_px h x)"
  "map_result h (STRICT_CHECK c x r) = STRICT_CHECK c (map_px h x) (map_result h r)"
  "map_result h (assert_then c r) = assert_then c (map_result h r)"
  by (simp_all add: goto_error_def STRICT_CHECK_def assert_then_def)

lemma map_notify:
  assumes "same_notify h cb cb'" and "\<And>y. k' (map_px h y) = map_result h (k y)"
  shows "CALLBACK_NOTIFY_AT cb' e er (map_px h x) k' = map_result h (CALLBACK_NOTIFY_AT cb e er x k)"
  using assms
  by (auto simp: CALLBACK_NOTIFY_AT_def same_notify_def Let_def split_def split: option.splits)

lemma map_data:
  assumes "same_settings h S S'" and "\<And>y. k' (map_px h y) = map_result h (k y)"
  shows "CALLBACK_DATA_AT S' kind extra er (map_px h x) k' = map_result h (CALLBACK_DATA_AT S kind extra er x k)"
proof (cases "px_mark x kind")
  case (Some m)
  have s: "case (data_cb kind S, data_cb kind S') of
        (None, None) \<Rightarrow> True
      | (Some f, Some f') \<Rightarrow> (\<forall>a at len obj. f' a at len (h obj) = (fst (f a at len obj), h (snd (f a at len obj))))
      | _ \<Rightarrow> False"
    using assms(1) by (simp add: same_settings_def)
  show ?thesis
  proof (cases "data_cb kind S")
    case None
    then have "data_cb kind S' = None" using s by (cases "data_cb kind S'") auto
    then show ?thesis using None Some assms(2) by (simp add: CALLBACK_DATA_AT_def Let_def)
  next
    case f: (Some f)
    then obtain f' where f': "data_cb kind S' = Some f'" using s by (cases "data_cb kind S'") auto
    have "f' a at len (h obj) = (fst (f a at len obj), h (snd (f a at len obj)))" for a at len obj
      using s f f' by simp
    then show ?thesis using f f' Some assms(2) by (simp add: CALLBACK_DATA_AT_def Let_def split_def)
  qed
qed (simp add: CALLBACK_DATA_AT_def assms(2))

lemma map_calls:
  assumes "same_settings h S S'"
  shows "CALLBACK_NOTIFY (cb_message_begin S') e (map_px h x) Continue =
      map_result h (CALLBACK_NOTIFY (cb_message_begin S) e x Continue)"
    "CALLBACK_NOTIFY (cb_status_complete S') e (map_px h x) Continue =
      map_result h (CALLBACK_NOTIFY (cb_status_complete S) e x Continue)"
    "CALLBACK_NOTIFY (cb_message_complete S') e (map_px h x) Continue =
      map_result h (CALLBACK_NOTIFY (cb_message_complete S) e x Continue)"
    "CALLBACK_NOTIFY (cb_message_complete S') e (map_px h x) (\<lambda>z. ReturnAt (z\<lparr>px_p := tl (px_p z)\<rparr>)) =
      map_result h (CALLBACK_NOTIFY (cb_message_complete S) e x (\<lambda>z. ReturnAt (z\<lparr>px_p := tl (px_p z)\<rparr>)))"
    "CALLBACK_DATA S' kind (map_px h x) Continue = map_result h (CALLBACK_DATA S kind x Continue)"
    "CALLBACK_DATA_NOADVANCE S' kind (map_px h x) Reexecute = map_result h (CALLBACK_DATA_NOADVANCE S kind x Reexecute)"
    "CALLBACK_DATA_AT S' kind extra er (map_px h x) Reexecute = map_result h (CALLBACK_DATA_AT S kind extra er x Reexecute)"
  using assms
  by (auto simp: callback_at same_settings_def intro!: map_notify map_data)

lemma map_header_bytes:
  "header_field_token ch c (map_px h x) = map_result h (header_field_token ch c x)"
  "header_value_first ch (map_px h x) = map_result h (header_value_first ch x)"
  "header_value_byte ch (map_px h x) = map_result h (header_value_byte ch x)"
  "byte_header_almost_done ch (map_px h x) = map_result h (byte_header_almost_done ch x)"
proof -
  have m: "match_word w f c (map_px h x) = map_result h (match_word w f c x)" for w f
    by (simp add: match_word_def Let_def split: option.split)
  have d: "content_length_digit ch (map_px h x) = map_result h (content_length_digit ch x)"
    by (simp add: content_length_digit_def split: option.split)
  show "header_field_token ch c (map_px h x) = map_result h (header_field_token ch c x)"
    by (cases "hp_header_state (px_parser x)"; simp add: header_field_token_def m next_header_def)
  show "header_value_first ch (map_px h x) = map_result h (header_value_first ch x)"
    by (cases "hp_header_state (px_parser x)"; simp add: header_value_first_def)
  have m: "match_word w f c (map_px h x) = map_result h (match_word w f c x)" for w f c
    by (simp add: match_word_def Let_def split: option.split)
  show "header_value_byte ch (map_px h x) = map_result h (header_value_byte ch x)"
    by (cases "hp_header_state (px_parser x)"; simp add: header_value_byte_def m d)
  show "byte_header_almost_done ch (map_px h x) = map_result h (byte_header_almost_done ch x)"
    by (cases "hp_header_state (px_parser x)"; simp add: byte_header_almost_done_def Let_def)
qed

lemma map_headers_end:
  assumes "same_settings h S S'"
  shows "byte_headers_almost_done S' ch (map_px h x) = map_result h (byte_headers_almost_done S ch x)"
    and "byte_headers_done S' ch (map_px h x) = map_result h (byte_headers_done S ch x)"
proof -
  have s: "same_notify h (cb_headers_complete S) (cb_headers_complete S')" using assms by (simp add: same_settings_def)
  show "byte_headers_almost_done S' ch (map_px h x) = map_result h (byte_headers_almost_done S ch x)"
    using s
    by (auto simp: byte_headers_almost_done_def same_notify_def Let_def split_def map_calls [OF assms] split: option.splits)
  show "byte_headers_done S' ch (map_px h x) = map_result h (byte_headers_done S ch x)"
    by (simp add: byte_headers_done_def Let_def map_calls [OF assms])
qed

lemma map_execute_byte:
  assumes "same_settings h S S'"
  shows "execute_byte s S' ch (map_px h x) = map_result h (execute_byte s S ch x)"
  by (cases s;
      simp add: line_byte_defs header_byte_defs body_byte_defs byte_body_identity_def byte_chunk_data_def map_header_bytes
        map_headers_end [OF assms] map_calls [OF assms] Let_def split: option.split)

lemma map_byte_loop: "same_settings h S S' \<Longrightarrow> byte_loop S' ch (map_px h x) = map_result h (byte_loop S ch x)"
proof (induction S ch x rule: byte_loop.induct)
  case (1 S ch x)
  note m = map_execute_byte [OF 1(2), of "hp_state (px_parser x)" ch x]
  show ?case
  proof (cases "px_p x \<noteq> [] \<and> (\<exists>y. execute_byte (hp_state (px_parser x)) S ch x = Reexecute y)")
    case True
    then obtain y where "px_p x \<noteq> []" "execute_byte (hp_state (px_parser x)) S ch x = Reexecute y" by auto
    then show ?thesis using 1(1) [of y] 1(2) m by (simp add: byte_loop.simps [of S ch x] byte_loop.simps [of S' ch "map_px h x"])
  next
    case False
    then show ?thesis
      using m by (cases "execute_byte (hp_state (px_parser x)) S ch x")
        (auto simp: byte_loop.simps [of S ch x] byte_loop.simps [of S' ch "map_px h x"])
  qed
qed

lemma map_count_byte [simp]:
  "count_byte (map_px h x) = map_px h (count_byte x)" "header_overflow (map_px h x) = header_overflow x"
  by (simp_all add: count_byte_def header_overflow_def)

lemma map_execute_from: "same_settings h S S' \<Longrightarrow> execute_from S' (map_px h x) = map_result h (execute_from S x)"
proof (induction S x rule: execute_from.induct)
  case (1 S x)
  note m = map_byte_loop [OF 1(2), of "hd (px_p x)" "count_byte x"]
  note e = execute_from.simps [of S x] execute_from.simps [of S' "map_px h x"]
  show ?case
  proof (cases "px_p x \<noteq> [] \<and> \<not> header_overflow (count_byte x) \<and> (\<exists>y. byte_loop S (hd (px_p x)) (count_byte x) = Continue y)")
    case True
    then obtain y where "px_p x \<noteq> []" "\<not> header_overflow (count_byte x)" "byte_loop S (hd (px_p x)) (count_byte x) = Continue y"
      by auto
    then show ?thesis using 1(1) [of y] 1(2) m by (simp add: e)
  next
    case False
    then show ?thesis
      using m by (cases "byte_loop S (hd (px_p x)) (count_byte x)") (auto simp: e)
  qed
qed

lemma map_leftover:
  assumes "same_settings h S S'"
  shows "leftover S' (map_px h x) = map_result h (leftover S x)"
proof -
  have n: "CALLBACK_DATA_NOADVANCE S' kind (map_px h y) k' = map_result h (CALLBACK_DATA_NOADVANCE S kind y k)"
    if "\<And>z. k' (map_px h z) = map_result h (k z)" for kind y k k'
    unfolding CALLBACK_DATA_NOADVANCE_def map_px_parts by (rule map_data [OF assms]) (rule that)
  have "marks_set (map_px h x) = marks_set x" by (simp add: marks_set_def)
  then show ?thesis
    unfolding leftover_def map_result_ops by (auto intro!: arg_cong2 [where f = assert_then] n)
qed

lemma execute_object:
  assumes "same_settings h S S'"
  shows "http_parser_execute S' parser (h obj) data =
    map_option (\<lambda>(parser', obj', n). (parser', h obj', n)) (http_parser_execute S parser obj data)"
proof -
  let ?x = "\<lparr>px_parser = parser, px_obj = obj, px_p = data, px_mark = first_marks (hp_state parser) data\<rparr>"
  have x: "\<lparr>px_parser = parser, px_obj = h obj, px_p = data, px_mark = first_marks (hp_state parser) data\<rparr> = map_px h ?x"
    by (simp add: map_px_def)
  have c: "CALLBACK_NOTIFY_AT (cb_message_complete S') e er (map_px h ?x) ReturnAt =
      map_result h (CALLBACK_NOTIFY_AT (cb_message_complete S) e er ?x ReturnAt)" for e er
    using assms by (intro map_notify) (auto simp: same_settings_def)
  have l: "(case map_result h r of Continue y \<Rightarrow> leftover S' y | r \<Rightarrow> r) =
      map_result h (case r of Continue y \<Rightarrow> leftover S y | r \<Rightarrow> r)" for r
    by (cases r) (simp_all add: map_leftover [OF assms])
  have r: "(case map_result h r of ReturnAt y \<Rightarrow> Some (px_parser y, px_obj y, f (px_p y)) | _ \<Rightarrow> None) =
      map_option (\<lambda>(parser', obj', n). (parser', h obj', n))
        (case r of ReturnAt y \<Rightarrow> Some (px_parser y, px_obj y, f (px_p y)) | _ \<Rightarrow> None)" for r and f :: "string \<Rightarrow> nat"
    by (cases r) simp_all
  show ?thesis
    unfolding http_parser_execute_def Let_def x c map_execute_from [OF assms] l r [where f = "\<lambda>_. 0"]
      r [where f = "\<lambda>p. length data - length p"]
    by simp
qed

end
