(* ===== verification/Http_Parser_Wrapper.thy ===== *)
theory Http_Parser_Wrapper
  imports Http_Parser_Object
begin

text \<open>
  base/http_parser_wrapper.cc: the callbacks that collect the parts of a request, on the parser of
  theory Http_Parser. A call of a callback is an event; the text of OnHeaderField is the buffer from
  the start of the field on, since strncasecmp does not look at the length. The buffer ends with the
  NUL byte CHttpConn::OnRead has put behind it.
\<close>

datatype parser_event =
    OnUrl string | OnHeaderField string | OnHeaderValue string | OnHeadersComplete nat int
  | OnBody string | OnMessageComplete

record parser_wrapper =
  pw_read_all :: bool
  read_referer :: bool
  read_forward_ip :: bool
  read_user_agent :: bool
  read_content_type :: bool
  read_content_len :: bool
  read_host :: bool
  total_length :: nat
  pw_url :: string
  body_content :: string
  pw_referer :: string
  pw_forward_ip :: string
  pw_user_agent :: string
  pw_content_type :: string
  pw_content_len :: nat
  pw_host :: string

definition wrapper_reset :: parser_wrapper where
  "wrapper_reset =
     \<lparr>pw_read_all = False, read_referer = False, read_forward_ip = False, read_user_agent = False,
      read_content_type = False, read_content_len = False, read_host = False, total_length = 0, pw_url = [],
      body_content = [], pw_referer = [], pw_forward_ip = [], pw_user_agent = [], pw_content_type = [], pw_content_len = 0,
      pw_host = []\<rparr>"

definition lower_char :: "char \<Rightarrow> char" where
  "lower_char c = (if CHR ''A'' \<le> c \<and> c \<le> CHR ''Z'' then char_of (of_char c + 32 :: nat) else c)"

text \<open>strncasecmp(at, name, strlen(name)) == 0\<close>

definition starts_with_ci :: "string \<Rightarrow> string \<Rightarrow> bool" where
  "starts_with_ci at name = is_prefix (map lower_char name) (map lower_char (c_str at))"

definition MAX_REFERER_LEN :: nat where
  "MAX_REFERER_LEN = 32"

text \<open>A header is looked for as long as no value of it has been stored.\<close>

definition on_header_field :: "string \<Rightarrow> parser_wrapper \<Rightarrow> parser_wrapper" where
  "on_header_field at w =
     w\<lparr>read_referer := (if pw_referer w = [] \<and> starts_with_ci at ''Referer'' then True else read_referer w),
       read_forward_ip := (if pw_forward_ip w = [] \<and> starts_with_ci at ''X-Forwarded-For'' then True else read_forward_ip w),
       read_user_agent := (if pw_user_agent w = [] \<and> starts_with_ci at ''User-Agent'' then True else read_user_agent w),
       read_content_type := (if pw_content_type w = [] \<and> starts_with_ci at ''Content-Type'' then True else read_content_type w),
       read_content_len := (if pw_content_len w = 0 \<and> starts_with_ci at ''Content-Length'' then True else read_content_len w),
       read_host := (if pw_host w = [] \<and> starts_with_ci at ''Host'' then True else read_host w)\<rparr>"

text \<open>The content length is the int of atoi converted to uint32_t.\<close>

definition on_header_value :: "string \<Rightarrow> parser_wrapper \<Rightarrow> parser_wrapper" where
  "on_header_value v w =
     w\<lparr>pw_referer := (if read_referer w then pw_referer w @ take MAX_REFERER_LEN v else pw_referer w),
       pw_forward_ip := (if read_forward_ip w then pw_forward_ip w @ v else pw_forward_ip w),
       pw_user_agent := (if read_user_agent w then pw_user_agent w @ v else pw_user_agent w),
       pw_content_type := (if read_content_type w then pw_content_type w @ v else pw_content_type w),
       pw_content_len := (if read_content_len w then nat (atoi (c_str v) mod 2 ^ 32) else pw_content_len w),
       pw_host := (if read_host w then pw_host w @ v else pw_host w),
       read_referer := False, read_forward_ip := False, read_user_agent := False,
       read_content_type := False, read_content_len := False, read_host := False\<rparr>"

fun wrapper_step :: "parser_event \<Rightarrow> parser_wrapper \<Rightarrow> parser_wrapper" where
  "wrapper_step (OnUrl at) w = w\<lparr>pw_url := pw_url w @ at\<rparr>"
| "wrapper_step (OnHeaderField at) w = on_header_field at w"
| "wrapper_step (OnHeaderValue at) w = on_header_value at w"
| "wrapper_step (OnHeadersComplete nread len) w = w\<lparr>total_length := u32 (nread + nat (len mod 2 ^ 32))\<rparr>"
| "wrapper_step (OnBody at) w = w\<lparr>body_content := body_content w @ at\<rparr>"
| "wrapper_step OnMessageComplete w = w\<lparr>pw_read_all := True\<rparr>"

text \<open>The settings of ParseHttpContent: what a callback does to the object is step; all answer with 0.\<close>

definition event_settings :: "(parser_event \<Rightarrow> 'o \<Rightarrow> 'o) \<Rightarrow> 'o http_settings" where
  "event_settings step =
     \<lparr>cb_message_begin = None,
      cb_url = Some (\<lambda>a at len w. (0, step (OnUrl (take len at)) w)),
      cb_status_complete = None,
      cb_header_field = Some (\<lambda>a at len w. (0, step (OnHeaderField at) w)),
      cb_header_value = Some (\<lambda>a at len w. (0, step (OnHeaderValue (take len at)) w)),
      cb_headers_complete = Some (\<lambda>a w. (0, step (OnHeadersComplete (nat (hp_nread a)) (hp_content_length a)) w)),
      cb_body = Some (\<lambda>a at len w. (0, step (OnBody (take len at)) w)),
      cb_message_complete = Some (\<lambda>a w. (0, step OnMessageComplete w))\<rparr>"

text \<open>None: an assert of the parser has failed.\<close>

definition ParseHttpContent :: "string \<Rightarrow> parser_wrapper option" where
  "ParseHttpContent buf =
     (case http_parser_execute (event_settings wrapper_step) (http_parser_init HTTP_REQUEST) wrapper_reset buf of
        None \<Rightarrow> None
      | Some (_, w, _) \<Rightarrow> Some w)"

text \<open>What the parser reports of a buffer, by callbacks that only note it.\<close>

definition parser_events :: "string \<Rightarrow> parser_event list option" where
  "parser_events buf =
     (case http_parser_execute (event_settings (\<lambda>e es. es @ [e])) (http_parser_init HTTP_REQUEST) [] buf of
        None \<Rightarrow> None
      | Some (_, es, _) \<Rightarrow> Some es)"

text \<open>The getters hand out the C string, which ends at a NUL byte.\<close>

definition GetUrl :: "parser_wrapper \<Rightarrow> string" where
  "GetUrl w = c_str (pw_url w)"

definition GetBodyContent :: "parser_wrapper \<Rightarrow> string" where
  "GetBodyContent w = c_str (body_content w)"

section \<open>What is collected\<close>

fun url_part :: "parser_event \<Rightarrow> string" where
  "url_part (OnUrl at) = at"
| "url_part _ = []"

fun body_part :: "parser_event \<Rightarrow> string" where
  "body_part (OnBody at) = at"
| "body_part _ = []"

lemma wrapper_step_fields [simp]:
  "pw_url (wrapper_step e w) = pw_url w @ url_part e"
  "body_content (wrapper_step e w) = body_content w @ body_part e"
  "pw_read_all (wrapper_step e w) \<longleftrightarrow> pw_read_all w \<or> e = OnMessageComplete"
  by (cases e; simp add: on_header_field_def on_header_value_def)+

lemma fold_wrapper_fields:
  "pw_url (fold wrapper_step es w) = pw_url w @ concat (map url_part es)"
  "body_content (fold wrapper_step es w) = body_content w @ concat (map body_part es)"
  "pw_read_all (fold wrapper_step es w) \<longleftrightarrow> pw_read_all w \<or> OnMessageComplete \<in> set es"
  by (induction es arbitrary: w) auto

lemma same_event_settings:
  assumes "\<And>e w. h (step e w) = step' e (h w)"
  shows "same_settings h (event_settings step) (event_settings step')"
proof -
  have "case (data_cb kind (event_settings step), data_cb kind (event_settings step')) of
        (None, None) \<Rightarrow> True
      | (Some f, Some f') \<Rightarrow> (\<forall>a at len obj. f' a at len (h obj) = (fst (f a at len obj), h (snd (f a at len obj))))
      | _ \<Rightarrow> False" for kind
    by (cases kind) (simp_all add: event_settings_def assms)
  then show ?thesis by (simp add: same_settings_def same_notify_def event_settings_def assms)
qed

lemma event_settings_keep: "callbacks_keep data (\<lambda>_. True) (event_settings step)"
  by (simp add: callbacks_keep_def notify_keeps_def)

text \<open>The parser reports something for every buffer.\<close>

lemma parser_events_total: "\<exists>es. parser_events buf = Some es"
proof -
  obtain p es n where "http_parser_execute (event_settings (\<lambda>e es. es @ [e])) (http_parser_init HTTP_REQUEST) [] buf = Some (p, es, n)"
    using execute_safe [OF init_resumable [of HTTP_REQUEST] event_settings_keep [of buf "\<lambda>e es. es @ [e]"] TrueI, of "[]"]
    by blast
  then show ?thesis by (simp add: parser_events_def)
qed

lemma ParseHttpContent_events:
  "ParseHttpContent buf = map_option (\<lambda>es. fold wrapper_step es wrapper_reset) (parser_events buf)"
proof -
  let ?h = "\<lambda>es. fold wrapper_step es wrapper_reset"
  have "same_settings ?h (event_settings (\<lambda>e es. es @ [e])) (event_settings wrapper_step)"
    by (rule same_event_settings) simp
  from execute_object [OF this, of "http_parser_init HTTP_REQUEST" "[]" buf] show ?thesis
    by (auto simp: ParseHttpContent_def parser_events_def split: option.splits)
qed

text \<open>
  Whatever the buffer holds, the parser comes to an end with a list of events, in whatever
  pieces; and the wrapper ends with the pieces of the URL and of the body joined in their order, and
  with the request complete exactly if the parser said so; no other event touches the three.
\<close>

lemma ParseHttpContent_collects:
  "\<exists>es w. parser_events buf = Some es \<and> ParseHttpContent buf = Some w \<and> pw_url w = concat (map url_part es) \<and>
     body_content w = concat (map body_part es) \<and> (pw_read_all w \<longleftrightarrow> OnMessageComplete \<in> set es)"
proof -
  obtain es where "parser_events buf = Some es" using parser_events_total by blast
  then show ?thesis by (simp add: ParseHttpContent_events fold_wrapper_fields wrapper_reset_def)
qed

text \<open>A header seen by its field and its value.\<close>

lemma header_content_length:
  assumes "pw_content_len w = 0" and "starts_with_ci at ''Content-Length''" and "n < 2 ^ 31"
  shows "pw_content_len (wrapper_step (OnHeaderValue (show_int (int n))) (wrapper_step (OnHeaderField at) w)) = n"
proof -
  have "is_int32 (int n)" using assms(3) by (simp add: is_int32_def)
  then show ?thesis
    using assms by (simp add: on_header_field_def on_header_value_def atoi_show_int)
qed

end
