(* ===== verification/Server_State.thy ===== *)
theory Server_State
  imports Json_Reader Http_Parser_Wrapper
begin

text \<open>
  The memory of the process that requests share: the connections and the pools of the two managers
  (mysql/db_pool.h, redis/cache_pool.h), the response queue of the event loop
  (CHttpConn::s_response_pdu_list, http_conn.h) and the configuration strings main sets
  (api/api_common.cc). A pointer to a connection is a nat option, NULL being None; the objects are
  in db_heap and cache_heap. A connection object refers to its pool by the pool's name, which is
  the key the managers file the pool under.

  A MySQL or Redis request does not name its connection: the servers behind the pools are one
  world, as in the configuration of the repository, where every instance has the same server.

  The event loop keeps its connections in http_heap (None once deleted) and finds them through two
  hash maps, here association lists from handles and from uuids to objects.
\<close>

record db_conn =
  dbc_pool :: string
  row_num :: int

record db_pool =
  dbp_server_ip :: string
  dbp_server_port :: int
  dbp_username :: string
  dbp_password :: string
  dbp_db_name :: string
  db_cur_conn_cnt :: int
  db_max_conn_cnt :: int
  db_free_list :: "nat list"
  db_abort :: bool

record cache_conn =
  cc_server_ip :: string
  cc_server_port :: int
  cc_password :: string
  cc_pool :: string
  cc_context :: bool
  cc_last_connect :: int

record cache_pool =
  cp_server_ip :: string
  cp_server_port :: int
  cp_password :: string
  cur_conn_cnt :: int
  max_conn_cnt :: int
  free_list :: "nat list"
  abort_request :: bool

record response_pdu =
  conn_uuid :: int
  resp_data :: string

text \<open>
  A connection of a client (http_conn.h) with the reference count of its base class CRefObject, and
  the tasks the worker threads wait for: the functions the program hands to its thread pool.
\<close>

datatype conn_state = ConnIdle | ConnConnected | ConnOpen | ConnClosed

record http_conn =
  ref_count :: int
  m_sock_handle :: int
  conn_handle :: nat
  busy :: bool
  hc_state :: conn_state
  peer_ip :: string
  in_buf :: "char simple_buffer"
  out_buf :: "char simple_buffer"
  last_send_tick :: int
  last_recv_tick :: int
  http_parser :: parser_wrapper
  hc_uuid :: nat

datatype task = RegisterTask nat string string | LoginTask nat string string

record srv =
  db_heap :: "nat \<Rightarrow> db_conn option"
  cache_heap :: "nat \<Rightarrow> cache_conn option"
  next_conn :: nat
  dbpool_map :: "string \<Rightarrow> db_pool option"
  cache_pool_map :: "string \<Rightarrow> cache_pool option"
  s_response_pdu_list :: "response_pdu list"
  s_dfs_path_client :: string
  s_web_server_ip :: string
  s_web_server_port :: string
  s_storage_web_server_ip :: string
  s_storage_web_server_port :: string
  http_heap :: "nat \<Rightarrow> http_conn option"
  next_http :: nat
  g_http_conn_map :: "(nat \<times> nat) list"
  g_uuid_conn_map :: "(nat \<times> nat) list"
  g_conn_handle_generator :: nat
  s_uuid_alloctor :: nat
  pool_tasks :: "task list"

type_synonym 'a prog = "(srv, 'a) proc"
type_synonym conn_ptr = "nat option"

section \<open>Reading and changing the state\<close>

definition readS :: "(srv \<Rightarrow> 'a) \<Rightarrow> 'a prog" where
  "readS f = GetS (\<lambda>s. Ret (f s))"

definition modS :: "(srv \<Rightarrow> srv) \<Rightarrow> unit prog" where
  "modS f = GetS (\<lambda>s. PutS (f s) (Ret ()))"

lemma run_state [simp]:
  "run E (readS f) s w = (Done (f s), s, w)"
  "run E (modS g) s w = (Done (), g s, w)"
  by (simp_all add: readS_def modS_def)

lemma calls_state [simp]: "calls P (readS f)" "calls P (modS g)"
  by (simp_all add: readS_def modS_def)

lemma results_readS: "(\<And>s. Q (f s)) \<Longrightarrow> results Q (readS f)"
  by (simp add: readS_def)

lemma keeps_readS [simp]: "reflp R \<Longrightarrow> keeps R (readS f)"
  by (simp add: readS_def keeps_def reflp_def)

lemma keeps_modS: "keeps R (modS f) \<longleftrightarrow> (\<forall>s. R s (f s))"
  by (simp add: modS_def keeps_def)

text \<open>A method call on a NULL pointer, or on an object that is gone, is a fault.\<close>

definition the_db_conn :: "conn_ptr \<Rightarrow> (nat \<Rightarrow> db_conn \<Rightarrow> 'a prog) \<Rightarrow> 'a prog" where
  "the_db_conn p k =
     GetS (\<lambda>s. case p of
                 None \<Rightarrow> Fault NullDeref
               | Some c \<Rightarrow> (case db_heap s c of None \<Rightarrow> Fault NullDeref | Some conn \<Rightarrow> k c conn))"

definition the_cache_conn :: "conn_ptr \<Rightarrow> (nat \<Rightarrow> cache_conn \<Rightarrow> 'a prog) \<Rightarrow> 'a prog" where
  "the_cache_conn p k =
     GetS (\<lambda>s. case p of
                 None \<Rightarrow> Fault NullDeref
               | Some c \<Rightarrow> (case cache_heap s c of None \<Rightarrow> Fault NullDeref | Some conn \<Rightarrow> k c conn))"

lemma calls_the_conn [intro!]:
  "(\<And>c conn. calls P (k c conn)) \<Longrightarrow> calls P (the_db_conn p k)"
  "(\<And>c conn. calls P (h c conn)) \<Longrightarrow> calls P (the_cache_conn p h)"
  by (auto simp: the_db_conn_def the_cache_conn_def split: option.splits)

lemma results_the_conn [intro!]:
  "(\<And>c conn. results Q (k c conn)) \<Longrightarrow> results Q (the_db_conn p k)"
  "(\<And>c conn. results Q (h c conn)) \<Longrightarrow> results Q (the_cache_conn p h)"
  by (auto simp: the_db_conn_def the_cache_conn_def split: option.splits)

lemma keeps_the_conn [intro!]:
  "(\<And>c conn. keeps R (k c conn)) \<Longrightarrow> keeps R (the_db_conn p k)"
  "(\<And>c conn. keeps R (h c conn)) \<Longrightarrow> keeps R (the_cache_conn p h)"
  by (auto simp: the_db_conn_def the_cache_conn_def keeps_def split: option.splits)

lemma run_the_conn [simp]:
  "run E (the_db_conn None k) s w = (Crashed NullDeref, s, w)"
  "db_heap s c = Some conn \<Longrightarrow> run E (the_db_conn (Some c) k) s w = run E (k c conn) s w"
  "run E (the_cache_conn None h) s w = (Crashed NullDeref, s, w)"
  "cache_heap s c = Some cc \<Longrightarrow> run E (the_cache_conn (Some c) h) s w = run E (h c cc) s w"
  by (simp_all add: the_db_conn_def the_cache_conn_def)

text \<open>Sending a request leaves the state alone.\<close>

lemma keeps_request [intro!]:
  "(\<And>r. keeps R (k1 r)) \<Longrightarrow> keeps R (Mysql q k1)"
  "(\<And>r. keeps R (k2 r)) \<Longrightarrow> keeps R (MysqlStmt q ps k2)"
  "(\<And>r. keeps R (k3 r)) \<Longrightarrow> keeps R (MysqlConnect ps k3)"
  "(\<And>r. keeps R (k4 r)) \<Longrightarrow> keeps R (RedisConnect h p k4)"
  "(\<And>r. keeps R (k5 r)) \<Longrightarrow> keeps R (Redis c k5)"
  "(\<And>r. keeps R (k6 r)) \<Longrightarrow> keeps R (Os oc k6)"
  "(\<And>r. keeps R (k7 r)) \<Longrightarrow> keeps R (Libc k7)"
  by (auto simp: keeps_def)

end
