(* ===== verification/Db_Conn.thy ===== *)
theory Db_Conn
  imports Server_State
begin

text \<open>
  CResultSet, CPrepareStatement and CDBConn (mysql/db_pool.cc). A result set is the stored table,
  the rows not fetched yet and row_, which is uninitialised before the first Next and NULL after
  the last row. The client library answers the requests of theory Proc; mysql_ping, which may
  reconnect, is part of the request that follows it.
\<close>

section \<open>CResultSet\<close>

datatype row_state = RowUnset | RowNull | RowAt row

record result_set =
  key_map :: "string list"
  rows_left :: "row list"
  row_cur :: row_state

definition new_CResultSet :: "table \<Rightarrow> result_set" where
  "new_CResultSet t = \<lparr>key_map = tb_fields t, rows_left = tb_rows t, row_cur = RowUnset\<rparr>"

definition CResultSet_Next :: "result_set \<Rightarrow> bool \<times> result_set" where
  "CResultSet_Next rs =
     (case rows_left rs of
        [] \<Rightarrow> (False, rs\<lparr>row_cur := RowNull\<rparr>)
      | r # rest \<Rightarrow> (True, rs\<lparr>rows_left := rest, row_cur := RowAt r\<rparr>))"

text \<open>The index key_map_ holds for a name is that of the first column with it.\<close>

fun first_index :: "string \<Rightarrow> string list \<Rightarrow> nat option" where
  "first_index k [] = None"
| "first_index k (f # fs) = (if c_str f = k then Some 0 else map_option Suc (first_index k fs))"

definition GetIndex :: "result_set \<Rightarrow> string \<Rightarrow> nat option" where
  "GetIndex rs key = first_index key (key_map rs)"

definition cell_at :: "result_set \<Rightarrow> nat \<Rightarrow> string option prog" where
  "cell_at rs idx =
     (case row_cur rs of
        RowUnset \<Rightarrow> Fault UninitRead
      | RowNull \<Rightarrow> Fault NullDeref
      | RowAt r \<Rightarrow> if idx < length r then Ret (r ! idx) else Fault OutOfBounds)"

definition CResultSet_GetInt :: "result_set \<Rightarrow> string \<Rightarrow> int prog" where
  "CResultSet_GetInt rs key =
     (case GetIndex rs key of
        None \<Rightarrow> Ret 0
      | Some idx \<Rightarrow>
          bindp (cell_at rs idx) (\<lambda>cell.
          bindp (deref cell) (\<lambda>text. Ret (atoi (c_str text)))))"

definition CResultSet_GetString :: "result_set \<Rightarrow> string \<Rightarrow> string option prog" where
  "CResultSet_GetString rs key =
     (case GetIndex rs key of
        None \<Rightarrow> Ret None
      | Some idx \<Rightarrow> bindp (cell_at rs idx) (\<lambda>cell. Ret (map_option c_str cell)))"

lemma calls_CResultSet [simp]:
  "calls P (CResultSet_GetInt rs k)" "calls P (CResultSet_GetString rs k)"
  by (auto simp: CResultSet_GetInt_def CResultSet_GetString_def cell_at_def
      split: option.splits row_state.splits intro!: calls_bindpI)

lemma keeps_CResultSet [simp]:
  assumes "reflp R" and "transp R"
  shows "keeps R (CResultSet_GetInt rs k)" "keeps R (CResultSet_GetString rs k)"
  using assms
  by (auto simp: CResultSet_GetInt_def CResultSet_GetString_def cell_at_def
      split: option.splits row_state.splits intro!: keeps_bindp)

lemma results_GetInt: "results is_int32 (CResultSet_GetInt rs k)"
proof -
  have "is_int32 0" by (simp add: is_int32_def)
  then show ?thesis
    by (auto simp: CResultSet_GetInt_def split: option.splits intro!: results_bindpI)
qed

text \<open>A row of the shape the columns say, after Next, never faults on GetString.\<close>

lemma first_index_less: "first_index k fs = Some i \<Longrightarrow> i < length fs"
  by (induction fs arbitrary: i) (auto split: if_splits)

lemma GetString_no_fault:
  assumes "row_cur rs = RowAt r" and "length r = length (key_map rs)"
  obtains v where "CResultSet_GetString rs key = Ret v"
  using assms
  by (cases "GetIndex rs key")
     (auto simp: CResultSet_GetString_def cell_at_def GetIndex_def dest: first_index_less)

section \<open>CDBConn\<close>

definition CDBConn_Init :: "db_pool \<Rightarrow> int prog" where
  "CDBConn_Init pool =
     MysqlConnect [dbp_server_ip pool, dbp_username pool, dbp_password pool, dbp_db_name pool,
                   show_int (dbp_server_port pool)]
       (\<lambda>r. Ret (case r of InitFailed \<Rightarrow> 1 | ConnectFailed \<Rightarrow> 2 | Connected \<Rightarrow> 0))"

definition real_query :: "conn_ptr \<Rightarrow> string \<Rightarrow> bool prog" where
  "real_query p sql = the_db_conn p (\<lambda>c conn. Mysql (c_str sql) (\<lambda>r. Ret (r \<noteq> QueryFailed)))"

definition CDBConn_ExecuteCreate :: "conn_ptr \<Rightarrow> string \<Rightarrow> bool prog" where
  "CDBConn_ExecuteCreate p sql = real_query p sql"

definition CDBConn_ExecutePassQuery :: "conn_ptr \<Rightarrow> string \<Rightarrow> bool prog" where
  "CDBConn_ExecutePassQuery p sql = real_query p sql"

definition CDBConn_ExecuteDrop :: "conn_ptr \<Rightarrow> string \<Rightarrow> bool prog" where
  "CDBConn_ExecuteDrop p sql = real_query p sql"

definition row_num_update_at :: "nat \<Rightarrow> int \<Rightarrow> srv \<Rightarrow> srv" where
  "row_num_update_at c n s =
     s\<lparr>db_heap := (db_heap s)(c := map_option (\<lambda>conn. conn\<lparr>row_num := n\<rparr>) (db_heap s c))\<rparr>"

definition set_row_num :: "nat \<Rightarrow> int \<Rightarrow> unit prog" where
  "set_row_num c n = modS (row_num_update_at c n)"

definition CDBConn_ExecuteQuery :: "conn_ptr \<Rightarrow> string \<Rightarrow> result_set option prog" where
  "CDBConn_ExecuteQuery p sql =
     the_db_conn p (\<lambda>c conn.
       bindp (set_row_num c 0) (\<lambda>_.
       Mysql (c_str sql) (\<lambda>r.
         case r of
           QueryOk (Some t) _ \<Rightarrow>
             bindp (set_row_num c (to_int32 (int (length (tb_rows t))))) (\<lambda>_. Ret (Some (new_CResultSet t)))
         | _ \<Rightarrow> Ret None)))"

definition CDBConn_ExecuteUpdate :: "conn_ptr \<Rightarrow> string \<Rightarrow> bool \<Rightarrow> bool prog" where
  "CDBConn_ExecuteUpdate p sql care_affected_rows =
     the_db_conn p (\<lambda>c conn.
       Mysql (c_str sql) (\<lambda>r.
         case r of
           QueryFailed \<Rightarrow> Ret False
         | QueryOk _ affected \<Rightarrow>
             if 0 < affected then Ret True
             else if care_affected_rows then Ret False
             else Ret True))"

text \<open>The lengths 17, 8 and 6 cut the newline of the three literals off.\<close>

definition CDBConn_StartTransaction :: "conn_ptr \<Rightarrow> bool prog" where
  "CDBConn_StartTransaction p = real_query p (take 17 (''start transaction'' @ [CHR 0x0A]))"

definition CDBConn_Rollback :: "conn_ptr \<Rightarrow> bool prog" where
  "CDBConn_Rollback p = real_query p (take 8 (''rollback'' @ [CHR 0x0A]))"

definition CDBConn_Commit :: "conn_ptr \<Rightarrow> bool prog" where
  "CDBConn_Commit p = real_query p (take 6 (''commit'' @ [CHR 0x0A]))"

definition CDBConn_GetRowNum :: "conn_ptr \<Rightarrow> int prog" where
  "CDBConn_GetRowNum p = the_db_conn p (\<lambda>c conn. Ret (row_num conn))"

section \<open>CPrepareStatement\<close>

text \<open>
  Init and ExecuteUpdate of a statement with its parameters bound in order. The reply says how far
  the client library got; the id of the inserted row comes with it. The C++ object is used in one
  place, Init, SetParam for each parameter, ExecuteUpdate, so the two calls share one request:
  stmt_init_ok is what Init returned, stmt_update_ok what ExecuteUpdate returned after it.
\<close>

definition CPrepareStatement_run :: "conn_ptr \<Rightarrow> string \<Rightarrow> string list \<Rightarrow> stmt_reply prog" where
  "CPrepareStatement_run p sql params = the_db_conn p (\<lambda>c conn. MysqlStmt (c_str sql) params Ret)"

definition stmt_init_ok :: "stmt_reply \<Rightarrow> bool" where
  "stmt_init_ok r = (case r of StmtInitFailed \<Rightarrow> False | PrepareFailed \<Rightarrow> False | _ \<Rightarrow> True)"

definition stmt_update_ok :: "stmt_reply \<Rightarrow> bool" where
  "stmt_update_ok r = (case r of Executed affected _ \<Rightarrow> 0 < affected | _ \<Rightarrow> False)"

section \<open>What the operations ask and keep\<close>

lemma calls_CDBConn [simp]:
  "calls P (CDBConn_Init pool) \<longleftrightarrow>
     P (EvMysqlConnect [dbp_server_ip pool, dbp_username pool, dbp_password pool, dbp_db_name pool,
                        show_int (dbp_server_port pool)])"
  "P (EvMysql (c_str q)) \<Longrightarrow> calls P (real_query p q)"
  "P (EvMysql (c_str q)) \<Longrightarrow> calls P (CDBConn_ExecuteCreate p q)"
  "P (EvMysql (c_str q)) \<Longrightarrow> calls P (CDBConn_ExecutePassQuery p q)"
  "P (EvMysql (c_str q)) \<Longrightarrow> calls P (CDBConn_ExecuteDrop p q)"
  "P (EvMysql (c_str q)) \<Longrightarrow> calls P (CDBConn_ExecuteQuery p q)"
  "P (EvMysql (c_str q)) \<Longrightarrow> calls P (CDBConn_ExecuteUpdate p q care)"
  "P (EvStmt (c_str q) ps) \<Longrightarrow> calls P (CPrepareStatement_run p q ps)"
  "calls P (CDBConn_GetRowNum p)" "calls P (set_row_num c n)"
  by (auto simp: CDBConn_Init_def real_query_def CDBConn_ExecuteCreate_def CDBConn_ExecutePassQuery_def
      CDBConn_ExecuteDrop_def CDBConn_ExecuteQuery_def CDBConn_ExecuteUpdate_def set_row_num_def
      CPrepareStatement_run_def CDBConn_GetRowNum_def split: mysql_reply.splits option.splits
      intro!: calls_bindpI)

definition query_value :: "mysql_reply \<Rightarrow> result_set option" where
  "query_value r = (case r of QueryOk (Some t) _ \<Rightarrow> Some (new_CResultSet t) | _ \<Rightarrow> None)"

definition update_value :: "bool \<Rightarrow> mysql_reply \<Rightarrow> bool" where
  "update_value care r = (case r of QueryFailed \<Rightarrow> False | QueryOk _ affected \<Rightarrow> 0 < affected \<or> \<not> care)"

definition rows_of :: "mysql_reply \<Rightarrow> int" where
  "rows_of r = (case r of QueryOk (Some t) _ \<Rightarrow> to_int32 (int (length (tb_rows t))) | _ \<Rightarrow> 0)"

lemma row_num_update_at_idem [simp]:
  "row_num_update_at c n (row_num_update_at c m s) = row_num_update_at c n s"
  by (simp add: row_num_update_at_def option.map_comp comp_def)

lemma run_CDBConn [simp]:
  assumes "db_heap s c = Some conn"
  shows "run E (real_query (Some c) q) s w =
           (case env_mysql E w (c_str q) of (r, w') \<Rightarrow> (Done (r \<noteq> QueryFailed), s, w'))"
    and "run E (CDBConn_ExecuteQuery (Some c) q) s w =
           (case env_mysql E w (c_str q) of (r, w') \<Rightarrow>
              (Done (query_value r), row_num_update_at c (rows_of r) s, w'))"
    and "run E (CDBConn_ExecuteUpdate (Some c) q care) s w =
           (case env_mysql E w (c_str q) of (r, w') \<Rightarrow> (Done (update_value care r), s, w'))"
    and "run E (CDBConn_GetRowNum (Some c)) s w = (Done (row_num conn), s, w)"
    and "run E (CPrepareStatement_run (Some c) q ps) s w =
           (case env_stmt E w (c_str q) ps of (r, w') \<Rightarrow> (Done r, s, w'))"
proof -
  show "run E (CDBConn_ExecuteQuery (Some c) q) s w =
           (case env_mysql E w (c_str q) of (r, w') \<Rightarrow>
              (Done (query_value r), row_num_update_at c (rows_of r) s, w'))"
    using assms
    by (auto simp: CDBConn_ExecuteQuery_def set_row_num_def query_value_def rows_of_def
        split: mysql_reply.splits option.splits prod.splits)
qed (use assms in \<open>auto simp: real_query_def CDBConn_ExecuteUpdate_def CDBConn_GetRowNum_def
       CPrepareStatement_run_def update_value_def split: mysql_reply.splits prod.splits\<close>)

text \<open>A relation on states that row_num does not matter to is kept by every operation.\<close>

lemma keeps_CDBConn:
  assumes "reflp R" and "transp R" and "\<And>c n s. R s (row_num_update_at c n s)"
  shows "keeps R (real_query p q)" "keeps R (CDBConn_ExecuteCreate p q)"
    "keeps R (CDBConn_ExecutePassQuery p q)" "keeps R (CDBConn_ExecuteDrop p q)"
    "keeps R (CDBConn_ExecuteQuery p q)" "keeps R (CDBConn_ExecuteUpdate p q care)"
    "keeps R (CDBConn_GetRowNum p)" "keeps R (CPrepareStatement_run p q ps)"
  using assms
  by (auto simp: real_query_def CDBConn_ExecuteCreate_def CDBConn_ExecutePassQuery_def
      CDBConn_ExecuteDrop_def CDBConn_ExecuteQuery_def CDBConn_ExecuteUpdate_def set_row_num_def
      CPrepareStatement_run_def CDBConn_GetRowNum_def keeps_modS
      split: mysql_reply.splits option.splits intro!: keeps_bindp)

lemma null_db_conn [simp]:
  "run E (real_query None q) s w = (Crashed NullDeref, s, w)"
  "run E (CDBConn_ExecuteQuery None q) s w = (Crashed NullDeref, s, w)"
  "run E (CDBConn_ExecuteUpdate None q care) s w = (Crashed NullDeref, s, w)"
  by (simp_all add: real_query_def CDBConn_ExecuteQuery_def CDBConn_ExecuteUpdate_def)

lemma run_ExecuteQuery_Done:
  assumes "run E (CDBConn_ExecuteQuery p q) s w = (Done r, s', w')"
  obtains m where "env_mysql E w (c_str q) = (m, w')" "r = query_value m"
proof -
  from assms obtain c conn where "p = Some c" "db_heap s c = Some conn"
    by (cases p; cases "db_heap s (the p)")
       (auto simp: CDBConn_ExecuteQuery_def the_db_conn_def)
  with assms show thesis
    by (auto split: prod.splits intro: that)
qed

lemma run_GetString_row:
  "run E (CResultSet_GetString rs k) s w = (Done v, s', w') \<Longrightarrow>
     s' = s \<and> w' = w \<and> CResultSet_GetString rs k = Ret v"
  by (auto simp: CResultSet_GetString_def cell_at_def split: option.splits row_state.splits if_splits)

text \<open>The cell of a column in the first row of a table.\<close>

definition first_cell :: "table \<Rightarrow> string \<Rightarrow> string option" where
  "first_cell t key =
     (case (tb_rows t, first_index key (tb_fields t)) of
        (r # _, Some i) \<Rightarrow> if i < length r then map_option c_str (r ! i) else None
      | _ \<Rightarrow> None)"

lemma first_cell_GetString:
  assumes "CResultSet_Next (new_CResultSet t) = (True, rs)"
    and "CResultSet_GetString rs k = Ret v"
  shows "v = first_cell t k"
  using assms
  by (auto simp: CResultSet_Next_def new_CResultSet_def CResultSet_GetString_def cell_at_def
      GetIndex_def first_cell_def split: list.splits option.splits if_splits)

end
