(* ===== verification/Cache_Conn.thy ===== *)
theory Cache_Conn
  imports Server_State
begin

text \<open>
  CacheConn (redis/cache_pool.cpp): a Redis connection that connects itself on first use. Init is
  called by every operation; a command without a reply drops the context, so that the next
  operation connects again. hiredis (redis/hiredis.c) turns a format into the argument vector of
  the command, one argument for each word of the format; the vector is what Redis carries.
  The operations on sorted sets use the reply without a test for NULL.
\<close>

section \<open>Replies\<close>

definition reply_str :: "redis_reply \<Rightarrow> string option" where
  "reply_str r = (case r of RString s \<Rightarrow> Some s | RStatus s \<Rightarrow> Some s | RError s \<Rightarrow> Some s | _ \<Rightarrow> None)"

text \<open>std::string(reply->str, reply->len): str is NULL and len is 0 in the other replies.\<close>

definition reply_text :: "redis_reply \<Rightarrow> string" where
  "reply_text r = (case reply_str r of Some s \<Rightarrow> s | None \<Rightarrow> [])"

definition reply_integer :: "redis_reply \<Rightarrow> int" where
  "reply_integer r = (case r of RInteger i \<Rightarrow> i | _ \<Rightarrow> 0)"

definition reply_elements :: "redis_reply \<Rightarrow> redis_reply list" where
  "reply_elements r = (case r of RArray rs \<Rightarrow> rs | _ \<Rightarrow> [])"

definition is_RString :: "redis_reply \<Rightarrow> bool" where
  "is_RString r = (case r of RString _ \<Rightarrow> True | _ \<Rightarrow> False)"

definition is_RStatus :: "redis_reply \<Rightarrow> bool" where
  "is_RStatus r = (case r of RStatus _ \<Rightarrow> True | _ \<Rightarrow> False)"

definition is_RError :: "redis_reply \<Rightarrow> bool" where
  "is_RError r = (case r of RError _ \<Rightarrow> True | _ \<Rightarrow> False)"

definition is_RInteger :: "redis_reply \<Rightarrow> bool" where
  "is_RInteger r = (case r of RInteger _ \<Rightarrow> True | _ \<Rightarrow> False)"

definition is_RArray :: "redis_reply \<Rightarrow> bool" where
  "is_RArray r = (case r of RArray _ \<Rightarrow> True | _ \<Rightarrow> False)"

section \<open>Connecting\<close>

definition cache_update_at :: "nat \<Rightarrow> (cache_conn \<Rightarrow> cache_conn) \<Rightarrow> srv \<Rightarrow> srv" where
  "cache_update_at c f s = s\<lparr>cache_heap := (cache_heap s)(c := map_option f (cache_heap s c))\<rparr>"

definition set_context :: "nat \<Rightarrow> bool \<Rightarrow> unit prog" where
  "set_context c b = modS (cache_update_at c (\<lambda>cc. cc\<lparr>cc_context := b\<rparr>))"

definition select_db :: "int prog" where
  "select_db =
     Redis [''SELECT'', show_int 0] (\<lambda>reply.
       case reply of
         None \<Rightarrow> Ret 2
       | Some r \<Rightarrow> Ret (if is_RStatus r \<and> is_prefix ''OK'' (c_str (reply_text r)) then 0 else 2))"

definition CacheConn_Init :: "conn_ptr \<Rightarrow> int prog" where
  "CacheConn_Init p =
     the_cache_conn p (\<lambda>c cc.
       if cc_context cc then Ret 0
       else
         Os OsTime (\<lambda>now.
           let cur_time = os_int now mod 2 ^ 64 in
           if cur_time < (cc_last_connect cc + 1) mod 2 ^ 64 then Ret 1
           else
             bindp (modS (cache_update_at c (\<lambda>cc. cc\<lparr>cc_last_connect := cur_time\<rparr>))) (\<lambda>_.
             RedisConnect (c_str (cc_server_ip cc)) (cc_server_port cc) (\<lambda>connected.
               if \<not> connected then Ret 1
               else
                 bindp (set_context c True) (\<lambda>_.
                 if cc_password cc \<noteq> [] then
                   Redis [''AUTH'', c_str (cc_password cc)] (\<lambda>reply.
                     case reply of
                       None \<Rightarrow> Ret (- 1)
                     | Some r \<Rightarrow> if is_RError r then Ret (- 1) else select_db)
                 else select_db)))))"

definition CacheConn_DeInit :: "conn_ptr \<Rightarrow> unit prog" where
  "CacheConn_DeInit p = the_cache_conn p (\<lambda>c cc. set_context c False)"

text \<open>
  command p fail argv k is the step the operations on strings, hashes and lists share: connect if
  needed, send, and on no reply free the context. The sorted set operations use zcommand.
\<close>

definition command :: "conn_ptr \<Rightarrow> 'a \<Rightarrow> string list \<Rightarrow> (redis_reply \<Rightarrow> 'a prog) \<Rightarrow> 'a prog" where
  "command p fail argv k =
     bindp (CacheConn_Init p) (\<lambda>rc.
       if rc \<noteq> 0 then Ret fail
       else
         Redis argv (\<lambda>reply.
           case reply of
             None \<Rightarrow> the_cache_conn p (\<lambda>c cc. bindp (set_context c False) (\<lambda>_. Ret fail))
           | Some r \<Rightarrow> k r))"

definition zcommand :: "conn_ptr \<Rightarrow> 'a \<Rightarrow> string list \<Rightarrow> (redis_reply \<Rightarrow> 'a prog) \<Rightarrow> 'a prog" where
  "zcommand p fail argv k =
     bindp (CacheConn_Init p) (\<lambda>rc.
       if rc \<noteq> 0 then Ret fail else Redis argv (\<lambda>reply. bindp (deref reply) k))"

section \<open>Strings\<close>

definition CacheConn_Get :: "conn_ptr \<Rightarrow> string \<Rightarrow> string prog" where
  "CacheConn_Get p key =
     command p [] [''GET'', c_str key] (\<lambda>r. Ret (if is_RString r then reply_text r else []))"

definition CacheConn_Set :: "conn_ptr \<Rightarrow> string \<Rightarrow> string \<Rightarrow> string prog" where
  "CacheConn_Set p key val = command p [] [''SET'', c_str key, c_str val] (\<lambda>r. Ret (reply_text r))"

definition CacheConn_SetEx :: "conn_ptr \<Rightarrow> string \<Rightarrow> int \<Rightarrow> string \<Rightarrow> string prog" where
  "CacheConn_SetEx p key secs val =
     command p [] [''SETEX'', c_str key, show_int secs, c_str val] (\<lambda>r. Ret (reply_text r))"

definition CacheConn_IsExists :: "conn_ptr \<Rightarrow> string \<Rightarrow> bool prog" where
  "CacheConn_IsExists p key =
     command p False [''EXISTS'', c_str key] (\<lambda>r. Ret (reply_integer r \<noteq> 0))"

definition CacheConn_Del :: "conn_ptr \<Rightarrow> string \<Rightarrow> int prog" where
  "CacheConn_Del p key = command p 0 [''DEL'', c_str key] (\<lambda>r. Ret (reply_integer r))"

text \<open>Incr clears its output parameter first, Decr only writes it; the result is the pair.\<close>

definition CacheConn_Incr :: "conn_ptr \<Rightarrow> string \<Rightarrow> (int \<times> int) prog" where
  "CacheConn_Incr p key = command p (- 1, 0) [''INCR'', c_str key] (\<lambda>r. Ret (0, reply_integer r))"

definition CacheConn_Decr :: "conn_ptr \<Rightarrow> string \<Rightarrow> int \<Rightarrow> (int \<times> int) prog" where
  "CacheConn_Decr p key val =
     command p (- 1, val) [''DECR'', c_str key] (\<lambda>r. Ret (0, reply_integer r))"

definition CacheConn_IncrBy :: "conn_ptr \<Rightarrow> string \<Rightarrow> int \<Rightarrow> int prog" where
  "CacheConn_IncrBy p key n =
     command p (- 1) [''INCRBY'', c_str key, show_int n] (\<lambda>r. Ret (reply_integer r))"

section \<open>Hashes\<close>

definition CacheConn_Hdel :: "conn_ptr \<Rightarrow> string \<Rightarrow> string \<Rightarrow> int prog" where
  "CacheConn_Hdel p key field =
     command p (- 1) [''HDEL'', c_str key, c_str field] (\<lambda>r. Ret (reply_integer r))"

definition CacheConn_Hget :: "conn_ptr \<Rightarrow> string \<Rightarrow> string \<Rightarrow> string prog" where
  "CacheConn_Hget p key field =
     command p [] [''HGET'', c_str key, c_str field]
       (\<lambda>r. Ret (if is_RString r then reply_text r else []))"

definition VALUES_ID_SIZE :: nat where
  "VALUES_ID_SIZE = 1024"

text \<open>
  The overload that copies into a char array of cap bytes: the store of the NUL is at index len,
  which may be VALUES_ID_SIZE itself. None is the result -1.
\<close>

definition CacheConn_Hget_buf :: "conn_ptr \<Rightarrow> string \<Rightarrow> string \<Rightarrow> nat \<Rightarrow> string option prog" where
  "CacheConn_Hget_buf p key field cap =
     bindp (CacheConn_Init p) (\<lambda>rc.
       if rc \<noteq> 0 then Ret None
       else
         Redis [''hget'', c_str key, c_str field] (\<lambda>reply.
           case reply of
             Some (RString str) \<Rightarrow>
               (let len = min (length str) VALUES_ID_SIZE in
                if len < cap then Ret (Some (c_str (take len str))) else Fault BufferOverflow)
           | _ \<Rightarrow> Ret None))"

fun hgetall_pairs :: "redis_reply list \<Rightarrow> (string \<times> string) list" where
  "hgetall_pairs (f # v # rs) = (reply_text f, reply_text v) # hgetall_pairs rs"
| "hgetall_pairs rs = []"

text \<open>std::map::insert keeps the entry that is already there.\<close>

definition insert_new :: "('k \<Rightarrow> 'v option) \<Rightarrow> 'k \<times> 'v \<Rightarrow> ('k \<Rightarrow> 'v option)" where
  "insert_new m kv = (if m (fst kv) = None then m(fst kv \<mapsto> snd kv) else m)"

definition CacheConn_HgetAll ::
    "conn_ptr \<Rightarrow> string \<Rightarrow> (string \<Rightarrow> string option) \<Rightarrow> (bool \<times> (string \<Rightarrow> string option)) prog" where
  "CacheConn_HgetAll p key ret =
     command p (False, ret) [''HGETALL'', c_str key] (\<lambda>r.
       Ret (True,
         if is_RArray r \<and> even (length (reply_elements r))
         then foldl insert_new ret (hgetall_pairs (reply_elements r)) else ret))"

definition CacheConn_Hset :: "conn_ptr \<Rightarrow> string \<Rightarrow> string \<Rightarrow> string \<Rightarrow> int prog" where
  "CacheConn_Hset p key field val =
     command p (- 1) [''HSET'', c_str key, c_str field, c_str val] (\<lambda>r. Ret (reply_integer r))"

definition CacheConn_HincrBy :: "conn_ptr \<Rightarrow> string \<Rightarrow> string \<Rightarrow> int \<Rightarrow> int prog" where
  "CacheConn_HincrBy p key field n =
     command p (- 1) [''HINCRBY'', c_str key, c_str field, show_int n] (\<lambda>r. Ret (reply_integer r))"

text \<open>The std::map argument is given by its entries in key order.\<close>

definition CacheConn_Hmset :: "conn_ptr \<Rightarrow> string \<Rightarrow> (string \<times> string) list \<Rightarrow> string prog" where
  "CacheConn_Hmset p key hash =
     command p [] (''HMSET'' # c_str key # concat (map (\<lambda>(f, v). [c_str f, c_str v]) hash))
       (\<lambda>r. Ret (reply_text r))"

definition CacheConn_Hmget :: "conn_ptr \<Rightarrow> string \<Rightarrow> string list \<Rightarrow> string list \<Rightarrow> (bool \<times> string list) prog" where
  "CacheConn_Hmget p key flds ret =
     command p (False, ret) (''HMGET'' # c_str key # map c_str flds)
       (\<lambda>r. Ret (True, ret @ map reply_text (reply_elements r)))"

section \<open>Lists\<close>

definition CacheConn_Lpush :: "conn_ptr \<Rightarrow> string \<Rightarrow> string \<Rightarrow> int prog" where
  "CacheConn_Lpush p key val =
     command p (- 1) [''LPUSH'', c_str key, c_str val] (\<lambda>r. Ret (reply_integer r))"

definition CacheConn_Rpush :: "conn_ptr \<Rightarrow> string \<Rightarrow> string \<Rightarrow> int prog" where
  "CacheConn_Rpush p key val =
     command p (- 1) [''RPUSH'', c_str key, c_str val] (\<lambda>r. Ret (reply_integer r))"

definition CacheConn_Llen :: "conn_ptr \<Rightarrow> string \<Rightarrow> int prog" where
  "CacheConn_Llen p key = command p (- 1) [''LLEN'', c_str key] (\<lambda>r. Ret (reply_integer r))"

text \<open>The positions are longs formatted with %d, so their low 32 bits are sent.\<close>

definition CacheConn_Lrange ::
    "conn_ptr \<Rightarrow> string \<Rightarrow> int \<Rightarrow> int \<Rightarrow> string list \<Rightarrow> (bool \<times> string list) prog" where
  "CacheConn_Lrange p key start stop ret =
     command p (False, ret)
       [''LRANGE'', c_str key, show_int (to_int32 start), show_int (to_int32 stop)]
       (\<lambda>r. Ret (True, ret @ map reply_text (reply_elements r)))"

section \<open>Sorted sets\<close>

definition CacheConn_ZsetExit :: "conn_ptr \<Rightarrow> string \<Rightarrow> string \<Rightarrow> int prog" where
  "CacheConn_ZsetExit p key member =
     zcommand p (- 1)
       [''zlexcount'', c_str key, CHR ''['' # c_str member, CHR ''['' # c_str member]
       (\<lambda>r. Ret (if is_RInteger r then to_int32 (reply_integer r) else - 1))"

definition CacheConn_ZsetAdd :: "conn_ptr \<Rightarrow> string \<Rightarrow> int \<Rightarrow> string \<Rightarrow> int prog" where
  "CacheConn_ZsetAdd p key score member =
     zcommand p (- 1) [''ZADD'', c_str key, show_int score, c_str member]
       (\<lambda>r. Ret (if is_RInteger r then 0 else - 1))"

definition CacheConn_ZsetZrem :: "conn_ptr \<Rightarrow> string \<Rightarrow> string \<Rightarrow> int prog" where
  "CacheConn_ZsetZrem p key member =
     zcommand p (- 1) [''ZREM'', c_str key, c_str member]
       (\<lambda>r. Ret (if is_RInteger r then 0 else - 1))"

text \<open>ZsetIncr compares the reply with OK, and returns false, which is 0, when Init fails.\<close>

definition CacheConn_ZsetIncr :: "conn_ptr \<Rightarrow> string \<Rightarrow> string \<Rightarrow> int prog" where
  "CacheConn_ZsetIncr p key member =
     zcommand p 0 [''ZINCRBY'', c_str key, ''1'', c_str member]
       (\<lambda>r. bindp (deref (reply_str r)) (\<lambda>text. Ret (if c_str text = ''OK'' then 0 else - 1)))"

definition CacheConn_ZsetZcard :: "conn_ptr \<Rightarrow> string \<Rightarrow> int prog" where
  "CacheConn_ZsetZcard p key =
     zcommand p (- 1) [''ZCARD'', c_str key]
       (\<lambda>r. Ret (if is_RInteger r then to_int32 (reply_integer r) else - 1))"

text \<open>
  The result is retn and the values copied, whose number is get_num; None for them when get_num is
  not set. A negative count becomes a huge size_t in the comparison with the number of elements.
\<close>

fun copy_values :: "redis_reply list \<Rightarrow> string list prog" where
  "copy_values [] = Ret []"
| "copy_values (r # rs) =
     bindp (deref (reply_str r)) (\<lambda>text.
     bindp (copy_values rs) (\<lambda>vs. Ret (take (VALUES_ID_SIZE - 1) (c_str text) # vs)))"

definition CacheConn_ZsetZrevrange ::
    "conn_ptr \<Rightarrow> string \<Rightarrow> int \<Rightarrow> int \<Rightarrow> (int \<times> string list option) prog" where
  "CacheConn_ZsetZrevrange p key from_pos end_pos =
     bindp (CacheConn_Init p) (\<lambda>rc.
       if rc \<noteq> 0 then Ret (- 1, None)
       else
         bindp (add_int32 end_pos (- from_pos)) (\<lambda>span.
         bindp (add_int32 span 1) (\<lambda>count.
         Redis [''ZREVRANGE'', c_str key, show_int from_pos, show_int end_pos] (\<lambda>reply.
           bindp (deref reply) (\<lambda>r.
             if \<not> is_RArray r then Ret (- 1, None)
             else
               (let els = reply_elements r;
                    max_count = (if 0 \<le> count \<and> count < int (length els) then nat count else length els)
                in bindp (copy_values (take max_count els)) (\<lambda>vs. Ret (0, Some vs))))))))"

definition CacheConn_ZsetGetScore :: "conn_ptr \<Rightarrow> string \<Rightarrow> string \<Rightarrow> int prog" where
  "CacheConn_ZsetGetScore p key member =
     zcommand p (- 1) [''ZSCORE'', c_str key, c_str member]
       (\<lambda>r. Ret (if is_RString r then atoi (c_str (reply_text r)) else - 1))"

definition CacheConn_FlushDb :: "conn_ptr \<Rightarrow> bool prog" where
  "CacheConn_FlushDb p =
     command p False [''FLUSHDB'']
       (\<lambda>r. Ret (is_RString r \<and> is_prefix ''OK'' (c_str (reply_text r))))"

section \<open>What the operations ask, keep and return\<close>

text \<open>
  conn_event holds of the requests that connecting may send; conn_ok P says that P allows them.
\<close>

definition conn_event :: "event \<Rightarrow> bool" where
  "conn_event e =
     (case e of
        EvOs oc \<Rightarrow> oc = OsTime
      | EvMysqlConnect _ \<Rightarrow> True
      | EvRedisConnect _ _ \<Rightarrow> True
      | EvRedis argv \<Rightarrow> argv \<noteq> [] \<and> hd argv \<in> {''AUTH'', ''SELECT''}
      | _ \<Rightarrow> False)"

definition conn_ok :: "(event \<Rightarrow> bool) \<Rightarrow> bool" where
  "conn_ok P \<longleftrightarrow> (\<forall>e. conn_event e \<longrightarrow> P e)"

lemma calls_CacheConn_Init [simp]:
  assumes "conn_ok P"
  shows "calls P (CacheConn_Init p)"
proof -
  have ev: "conn_event e \<Longrightarrow> P e" for e
    using assms by (simp add: conn_ok_def)
  have "calls P select_db"
    by (simp add: select_db_def ev conn_event_def split: option.splits)
  with ev show ?thesis
    by (auto simp: CacheConn_Init_def set_context_def Let_def conn_event_def
        split: option.splits intro!: calls_bindpI)
qed

lemma calls_command:
  assumes "conn_ok P" and "P (EvRedis argv)" and "\<And>r. calls P (k r)"
  shows "calls P (command p fail argv k)" "calls P (zcommand p fail argv k)"
  using assms
  by (auto simp: command_def zcommand_def set_context_def split: option.splits intro!: calls_bindpI)

lemma calls_CacheConn [simp]:
  assumes "conn_ok P"
  shows "P (EvRedis [''GET'', c_str key]) \<Longrightarrow> calls P (CacheConn_Get p key)"
    "P (EvRedis [''SET'', c_str key, c_str val]) \<Longrightarrow> calls P (CacheConn_Set p key val)"
    "P (EvRedis [''SETEX'', c_str key, show_int n, c_str val]) \<Longrightarrow> calls P (CacheConn_SetEx p key n val)"
    "P (EvRedis [''INCR'', c_str key]) \<Longrightarrow> calls P (CacheConn_Incr p key)"
    "P (EvRedis [''DECR'', c_str key]) \<Longrightarrow> calls P (CacheConn_Decr p key i)"
    "P (EvRedis [''HDEL'', c_str key, c_str fl]) \<Longrightarrow> calls P (CacheConn_Hdel p key fl)"
    "P (EvRedis [''HGET'', c_str key, c_str fl]) \<Longrightarrow> calls P (CacheConn_Hget p key fl)"
    "P (EvRedis [''hget'', c_str key, c_str fl]) \<Longrightarrow> calls P (CacheConn_Hget_buf p key fl cap)"
    "P (EvRedis [''HSET'', c_str key, c_str fl, c_str val]) \<Longrightarrow> calls P (CacheConn_Hset p key fl val)"
    "P (EvRedis [''DEL'', c_str key]) \<Longrightarrow> calls P (CacheConn_Del p key)"
  using assms
  by (auto simp: CacheConn_Get_def CacheConn_Set_def CacheConn_SetEx_def CacheConn_Incr_def
      CacheConn_Decr_def CacheConn_Hdel_def CacheConn_Hget_def CacheConn_Hget_buf_def
      CacheConn_Hset_def CacheConn_Del_def Let_def
      split: option.splits redis_reply.splits intro!: calls_bindpI calls_command)

lemma calls_copy_values [simp]: "calls P (copy_values rs)"
  by (induction rs) (auto intro!: calls_bindpI)

lemma calls_CacheConn_Zset [simp]:
  assumes "conn_ok P"
  shows "P (EvRedis [''zlexcount'', c_str key, CHR ''['' # c_str m, CHR ''['' # c_str m]) \<Longrightarrow>
           calls P (CacheConn_ZsetExit p key m)"
    "P (EvRedis [''ZADD'', c_str key, show_int n, c_str m]) \<Longrightarrow> calls P (CacheConn_ZsetAdd p key n m)"
    "P (EvRedis [''ZREM'', c_str key, c_str m]) \<Longrightarrow> calls P (CacheConn_ZsetZrem p key m)"
    "P (EvRedis [''ZINCRBY'', c_str key, ''1'', c_str m]) \<Longrightarrow> calls P (CacheConn_ZsetIncr p key m)"
    "P (EvRedis [''ZCARD'', c_str key]) \<Longrightarrow> calls P (CacheConn_ZsetZcard p key)"
    "P (EvRedis [''ZSCORE'', c_str key, c_str m]) \<Longrightarrow> calls P (CacheConn_ZsetGetScore p key m)"
    "P (EvRedis [''ZREVRANGE'', c_str key, show_int i, show_int j]) \<Longrightarrow>
       calls P (CacheConn_ZsetZrevrange p key i j)"
  using assms
  by (auto simp: CacheConn_ZsetExit_def CacheConn_ZsetAdd_def CacheConn_ZsetZrem_def
      CacheConn_ZsetIncr_def CacheConn_ZsetZcard_def CacheConn_ZsetGetScore_def
      CacheConn_ZsetZrevrange_def Let_def intro!: calls_bindpI calls_command)

text \<open>A relation on states that does not look at the connection objects is kept.\<close>

lemma keeps_CacheConn_Init:
  assumes "reflp R" and "transp R" and "\<And>c b s. R s (cache_update_at c (cc_context_update b) s)"
    and "\<And>c b s. R s (cache_update_at c (cc_last_connect_update b) s)"
  shows "keeps R (CacheConn_Init p)"
  using assms
  by (auto simp: CacheConn_Init_def select_db_def set_context_def Let_def keeps_modS
      split: option.splits intro!: keeps_bindp)

lemma keeps_command:
  assumes "reflp R" and "transp R" and "\<And>c b s. R s (cache_update_at c (cc_context_update b) s)"
    and "\<And>c b s. R s (cache_update_at c (cc_last_connect_update b) s)"
    and "\<And>r. keeps R (k r)"
  shows "keeps R (command p fail argv k)" "keeps R (zcommand p fail argv k)"
  using assms keeps_CacheConn_Init [OF assms(1-4)]
  by (auto simp: command_def zcommand_def set_context_def keeps_modS
      split: option.splits intro!: keeps_bindp)

text \<open>On a connected object Init asks nothing, and a command is one exchange.\<close>

lemma run_CacheConn_Init [simp]:
  "cache_heap s c = Some cc \<Longrightarrow> cc_context cc \<Longrightarrow> run E (CacheConn_Init (Some c)) s w = (Done 0, s, w)"
  by (simp add: CacheConn_Init_def)

definition drop_context :: "nat \<Rightarrow> srv \<Rightarrow> srv" where
  "drop_context c = cache_update_at c (\<lambda>cc. cc\<lparr>cc_context := False\<rparr>)"

lemma run_command:
  assumes "cache_heap s c = Some cc" and "cc_context cc"
  shows "run E (command (Some c) fail argv k) s w =
           (case env_redis E w argv of
              (None, w') \<Rightarrow> (Done fail, drop_context c s, w')
            | (Some r, w') \<Rightarrow> run E (k r) s w')"
  using assms
  by (auto simp: command_def set_context_def drop_context_def split: prod.splits option.splits)

lemma run_zcommand:
  assumes "cache_heap s c = Some cc" and "cc_context cc"
  shows "run E (zcommand (Some c) fail argv k) s w =
           (case env_redis E w argv of
              (None, w') \<Rightarrow> (Crashed NullDeref, s, w')
            | (Some r, w') \<Rightarrow> run E (k r) s w')"
  using assms by (auto simp: zcommand_def deref_def split: prod.splits option.splits)

end
