(* ===== verification/Conn_Pool.thy ===== *)
theory Conn_Pool
  imports Db_Conn Cache_Conn
begin

text \<open>
  The two connection pools and their managers (CDBPool and CDBManager in mysql/db_pool.cc,
  CachePool and CacheManager in redis/cache_pool.cpp), and the scoped release AutoRelDBCon and
  AutoRelCacheCon. A pool is changed under its mutex by three operations: take the front of the
  free list, add a connection just created, and give one back unless it is in the list already.
  Locale conn_pool states what these promise, what a completed call of GetDBConn may do with them,
  and that calls of this kind never lend a connection twice and lose none. Both pools are
  interpretations of it; what their GetDBConn and RelDBConn do is proved from the programs. A waiting
  GetDBConn is Await: the mutex is free then, and the call is completed by the run that finds its
  condition true.
\<close>

section \<open>The contract of a pool\<close>

text \<open>The connections a client holds after asking for one.\<close>

definition with_got :: "nat option \<Rightarrow> nat list \<Rightarrow> nat list" where
  "with_got r lent = (case r of None \<Rightarrow> lent | Some c \<Rightarrow> c # lent)"

locale conn_pool =
  fixes free :: "'p \<Rightarrow> nat list"
    and cur :: "'p \<Rightarrow> int"
    and top :: "'p \<Rightarrow> int"
    and pop :: "'p \<Rightarrow> 'p"
    and grow :: "nat \<Rightarrow> 'p \<Rightarrow> 'p"
    and give_back :: "nat \<Rightarrow> 'p \<Rightarrow> 'p"
  assumes pop: "free (pop p) = tl (free p)" "cur (pop p) = cur p" "top (pop p) = top p"
    and grow: "free (grow c p) = free p @ [c]" "cur (grow c p) = cur p + 1" "top (grow c p) = top p"
    and give_back: "free (give_back c p) = (if c \<in> set (free p) then free p else free p @ [c])"
      "cur (give_back c p) = cur p" "top (give_back c p) = top p"
begin

text \<open>
  The connections of a pool with those its clients hold: none twice, all counted, no more than b or
  the maximum, and all of them older than the next one to be created.
\<close>

definition pool_ok :: "int \<Rightarrow> nat \<Rightarrow> 'p \<Rightarrow> nat list \<Rightarrow> bool" where
  "pool_ok b n p lent \<longleftrightarrow>
     distinct (free p @ lent) \<and> cur p = int (length (free p) + length lent) \<and> cur p \<le> max b (top p) \<and>
     (\<forall>c \<in> set (free p @ lent). c < n)"

text \<open>
  A completed call that asks for a connection: nothing, the front of the free list, or, if that is
  empty and the maximum not reached, the connection n it has created.
\<close>

definition got :: "nat \<Rightarrow> 'p \<Rightarrow> nat option \<Rightarrow> nat \<Rightarrow> 'p \<Rightarrow> bool" where
  "got n p r n' q \<longleftrightarrow>
     n \<le> n' \<and>
     (case r of
        None \<Rightarrow> q = p
      | Some c \<Rightarrow>
          (\<exists>cs. free p = c # cs) \<and> q = pop p \<or>
          free p = [] \<and> cur p < top p \<and> c = n \<and> n < n' \<and> q = pop (grow c p))"

lemma pool_ok_later: "pool_ok b n p lent \<Longrightarrow> n \<le> n' \<Longrightarrow> pool_ok b n' p lent"
  by (auto simp: pool_ok_def intro: less_le_trans)

lemma got_ok:
  assumes ok: "pool_ok b n p lent" and got: "got n p r n' q"
  shows "pool_ok b n' q (with_got r lent)" and "top q = top p"
proof -
  have "pool_ok b n' q (with_got r lent) \<and> top q = top p"
  proof (cases r)
    case None
    then have "q = p" "n \<le> n'" using got by (simp_all add: got_def)
    then show ?thesis using None pool_ok_later [OF ok] by (simp add: with_got_def)
  next
    case (Some c)
    then consider cs where "free p = c # cs" "q = pop p" | "free p = []" "cur p < top p" "c = n" "n < n'" "q = pop (grow c p)"
      using got by (auto simp: got_def)
    then show ?thesis
    proof cases
      case 1
      moreover have "pool_ok b n' p lent" using pool_ok_later [OF ok] got by (simp add: got_def)
      ultimately show ?thesis using Some by (auto simp: pool_ok_def with_got_def pop)
    next
      case 2
      then show ?thesis using ok Some by (auto simp: pool_ok_def with_got_def pop grow)
    qed
  qed
  then show "pool_ok b n' q (with_got r lent)" and "top q = top p" by blast+
qed

lemma returned_ok:
  assumes ok: "pool_ok b n p lent" and c: "c \<in> set (free p @ lent)"
  shows "pool_ok b n (give_back c p) (remove1 c lent)"
proof (cases "c \<in> set (free p)")
  case True
  then have "c \<notin> set lent" using ok by (auto simp: pool_ok_def)
  then show ?thesis using ok True by (simp add: pool_ok_def give_back remove1_idem)
next
  case False
  then have "c \<in> set lent" using c by simp
  moreover from this have "length lent = Suc (length (remove1 c lent))"
    by (simp add: length_remove1) (metis Suc_pred length_pos_if_in_set)
  ultimately show ?thesis using ok False
    by (auto simp: pool_ok_def give_back distinct_remove1 dest: notin_set_remove1)
qed

lemma returned_top: "top (give_back c p) = top p"
  by (rule give_back)

end

section \<open>CDBPool\<close>

definition MIN_DB_CONN_CNT :: int where
  "MIN_DB_CONN_CNT = 1"

definition new_CDBPool :: "string \<Rightarrow> int \<Rightarrow> string \<Rightarrow> string \<Rightarrow> string \<Rightarrow> int \<Rightarrow> db_pool" where
  "new_CDBPool ip port user pwd dbname max_cnt =
     \<lparr>dbp_server_ip = c_str ip, dbp_server_port = port mod 65536, dbp_username = c_str user,
      dbp_password = c_str pwd, dbp_db_name = c_str dbname, db_cur_conn_cnt = MIN_DB_CONN_CNT,
      db_max_conn_cnt = max_cnt, db_free_list = [], db_abort = False\<rparr>"

definition db_push :: "nat \<Rightarrow> db_pool \<Rightarrow> db_pool" where
  "db_push c p = p\<lparr>db_free_list := db_free_list p @ [c]\<rparr>"

definition db_pop :: "db_pool \<Rightarrow> db_pool" where
  "db_pop p = p\<lparr>db_free_list := tl (db_free_list p)\<rparr>"

definition db_grow :: "nat \<Rightarrow> db_pool \<Rightarrow> db_pool" where
  "db_grow c p = (db_push c p)\<lparr>db_cur_conn_cnt := db_cur_conn_cnt p + 1\<rparr>"

definition db_give_back :: "nat \<Rightarrow> db_pool \<Rightarrow> db_pool" where
  "db_give_back c p = (if c \<in> set (db_free_list p) then p else db_push c p)"

interpretation dbq: conn_pool db_free_list db_cur_conn_cnt db_max_conn_cnt db_pop db_grow db_give_back
  by unfold_locales (simp_all add: db_pop_def db_grow_def db_push_def db_give_back_def)

definition set_db_pool :: "string \<Rightarrow> (db_pool \<Rightarrow> db_pool) \<Rightarrow> srv \<Rightarrow> srv" where
  "set_db_pool name f s = s\<lparr>dbpool_map := (dbpool_map s)(name := map_option f (dbpool_map s name))\<rparr>"

definition the_db_pool :: "string \<Rightarrow> (db_pool \<Rightarrow> 'a prog) \<Rightarrow> 'a prog" where
  "the_db_pool name k =
     GetS (\<lambda>s. case dbpool_map s name of None \<Rightarrow> Fault NullDeref | Some p \<Rightarrow> k p)"

text \<open>new CDBConn(this) and delete.\<close>

definition new_CDBConn :: "string \<Rightarrow> nat prog" where
  "new_CDBConn name =
     GetS (\<lambda>s. PutS (s\<lparr>db_heap := (db_heap s)(next_conn s \<mapsto> \<lparr>dbc_pool = name, row_num = 0\<rparr>),
                         next_conn := Suc (next_conn s)\<rparr>) (Ret (next_conn s)))"

definition delete_CDBConn :: "nat \<Rightarrow> unit prog" where
  "delete_CDBConn c = modS (\<lambda>s. s\<lparr>db_heap := (db_heap s)(c := None)\<rparr>)"

fun CDBPool_Init_loop :: "string \<Rightarrow> nat \<Rightarrow> int prog" where
  "CDBPool_Init_loop name 0 = Ret 0"
| "CDBPool_Init_loop name (Suc n) =
     the_db_pool name (\<lambda>p.
       bindp (new_CDBConn name) (\<lambda>c.
       bindp (CDBConn_Init p) (\<lambda>ret.
       if ret \<noteq> 0 then bindp (delete_CDBConn c) (\<lambda>_. Ret ret)
       else bindp (modS (set_db_pool name (db_push c))) (\<lambda>_. CDBPool_Init_loop name n))))"

definition CDBPool_Init :: "string \<Rightarrow> int prog" where
  "CDBPool_Init name = the_db_pool name (\<lambda>p. CDBPool_Init_loop name (nat (db_cur_conn_cnt p)))"

definition db_take_front :: "string \<Rightarrow> conn_ptr prog" where
  "db_take_front name =
     the_db_pool name (\<lambda>p.
       case db_free_list p of
         [] \<Rightarrow> Fault OutOfBounds
       | c # _ \<Rightarrow> bindp (modS (set_db_pool name db_pop)) (\<lambda>_. Ret (Some c)))"

definition db_ready :: "string \<Rightarrow> srv \<Rightarrow> bool" where
  "db_ready name s =
     (case dbpool_map s name of None \<Rightarrow> False | Some p \<Rightarrow> db_free_list p \<noteq> [] \<or> db_abort p)"

text \<open>
  A wait with a timeout whose predicate does not hold has timed out: it returns, and the list is
  still empty.
\<close>

definition CDBPool_GetDBConn :: "string \<Rightarrow> int \<Rightarrow> conn_ptr prog" where
  "CDBPool_GetDBConn name timeout_ms =
     the_db_pool name (\<lambda>p.
       if db_abort p then Ret None
       else if db_free_list p = [] then
         if db_max_conn_cnt p \<le> db_cur_conn_cnt p then
           (let after_wait = the_db_pool name (\<lambda>q. if db_abort q then Ret None else db_take_front name)
            in if timeout_ms \<le> 0 then Await (db_ready name) after_wait
               else the_db_pool name (\<lambda>q. if db_free_list q = [] then Ret None else after_wait))
         else
           bindp (new_CDBConn name) (\<lambda>c.
           bindp (CDBConn_Init p) (\<lambda>ret.
           if ret \<noteq> 0 then bindp (delete_CDBConn c) (\<lambda>_. Ret None)
           else bindp (modS (set_db_pool name (db_grow c))) (\<lambda>_. db_take_front name)))
       else db_take_front name)"

definition CDBPool_RelDBConn :: "string \<Rightarrow> nat \<Rightarrow> unit prog" where
  "CDBPool_RelDBConn name c = modS (set_db_pool name (db_give_back c))"

section \<open>CDBManager\<close>

definition CDBManager_GetDBConn :: "string \<Rightarrow> conn_ptr prog" where
  "CDBManager_GetDBConn name =
     GetS (\<lambda>s. case dbpool_map s name of None \<Rightarrow> Ret None | Some p \<Rightarrow> CDBPool_GetDBConn name 0)"

definition CDBManager_RelDBConn :: "conn_ptr \<Rightarrow> unit prog" where
  "CDBManager_RelDBConn p =
     (if p = None then Ret ()
      else the_db_conn p (\<lambda>c conn.
        GetS (\<lambda>s. case dbpool_map s (dbc_pool conn) of
                    None \<Rightarrow> Ret ()
                  | Some q \<Rightarrow> CDBPool_RelDBConn (dbc_pool conn) c)))"

text \<open>GetDBConn followed by AUTO_REL_DBCONN: the connection is released when the scope ends.\<close>

definition with_db_conn :: "string \<Rightarrow> (conn_ptr \<Rightarrow> 'a prog) \<Rightarrow> 'a prog" where
  "with_db_conn name body =
     bindp (CDBManager_GetDBConn name) (\<lambda>p.
     bindp (body p) (\<lambda>a.
     bindp (CDBManager_RelDBConn p) (\<lambda>_. Ret a)))"

section \<open>CachePool\<close>

definition MIN_CACHE_CONN_CNT :: int where
  "MIN_CACHE_CONN_CNT = 2"

definition new_CachePool :: "string \<Rightarrow> int \<Rightarrow> string \<Rightarrow> int \<Rightarrow> cache_pool" where
  "new_CachePool ip port pwd max_cnt =
     \<lparr>cp_server_ip = c_str ip, cp_server_port = port, cp_password = c_str pwd,
      cur_conn_cnt = MIN_CACHE_CONN_CNT, max_conn_cnt = max_cnt, free_list = [], abort_request = False\<rparr>"

definition cache_push :: "nat \<Rightarrow> cache_pool \<Rightarrow> cache_pool" where
  "cache_push c p = p\<lparr>free_list := free_list p @ [c]\<rparr>"

definition cache_pop :: "cache_pool \<Rightarrow> cache_pool" where
  "cache_pop p = p\<lparr>free_list := tl (free_list p)\<rparr>"

definition cache_grow :: "nat \<Rightarrow> cache_pool \<Rightarrow> cache_pool" where
  "cache_grow c p = (cache_push c p)\<lparr>cur_conn_cnt := cur_conn_cnt p + 1\<rparr>"

definition cache_give_back :: "nat \<Rightarrow> cache_pool \<Rightarrow> cache_pool" where
  "cache_give_back c p = (if c \<in> set (free_list p) then p else cache_push c p)"

interpretation cacheq: conn_pool free_list cur_conn_cnt max_conn_cnt cache_pop cache_grow cache_give_back
  by unfold_locales (simp_all add: cache_pop_def cache_grow_def cache_push_def cache_give_back_def)

definition set_cache_pool :: "string \<Rightarrow> (cache_pool \<Rightarrow> cache_pool) \<Rightarrow> srv \<Rightarrow> srv" where
  "set_cache_pool name f s =
     s\<lparr>cache_pool_map := (cache_pool_map s)(name := map_option f (cache_pool_map s name))\<rparr>"

definition the_cache_pool :: "string \<Rightarrow> (cache_pool \<Rightarrow> 'a prog) \<Rightarrow> 'a prog" where
  "the_cache_pool name k =
     GetS (\<lambda>s. case cache_pool_map s name of None \<Rightarrow> Fault NullDeref | Some p \<Rightarrow> k p)"

definition new_CacheConn :: "string \<Rightarrow> cache_pool \<Rightarrow> nat prog" where
  "new_CacheConn name p =
     GetS (\<lambda>s. PutS (s\<lparr>cache_heap := (cache_heap s)(next_conn s \<mapsto>
                           \<lparr>cc_server_ip = cp_server_ip p, cc_server_port = cp_server_port p mod 65536,
                            cc_password = cp_password p, cc_pool = name, cc_context = False,
                            cc_last_connect = 0\<rparr>),
                         next_conn := Suc (next_conn s)\<rparr>) (Ret (next_conn s)))"

definition delete_CacheConn :: "nat \<Rightarrow> unit prog" where
  "delete_CacheConn c = modS (\<lambda>s. s\<lparr>cache_heap := (cache_heap s)(c := None)\<rparr>)"

fun CachePool_Init_loop :: "string \<Rightarrow> nat \<Rightarrow> int prog" where
  "CachePool_Init_loop name 0 = Ret 0"
| "CachePool_Init_loop name (Suc n) =
     the_cache_pool name (\<lambda>p.
       bindp (new_CacheConn name p) (\<lambda>c.
       bindp (CacheConn_Init (Some c)) (\<lambda>ret.
       if ret \<noteq> 0 then bindp (delete_CacheConn c) (\<lambda>_. Ret 1)
       else bindp (modS (set_cache_pool name (cache_push c))) (\<lambda>_. CachePool_Init_loop name n))))"

definition CachePool_Init :: "string \<Rightarrow> int prog" where
  "CachePool_Init name = the_cache_pool name (\<lambda>p. CachePool_Init_loop name (nat (cur_conn_cnt p)))"

definition cache_take_front :: "string \<Rightarrow> conn_ptr prog" where
  "cache_take_front name =
     the_cache_pool name (\<lambda>p.
       case free_list p of
         [] \<Rightarrow> Fault OutOfBounds
       | c # _ \<Rightarrow> bindp (modS (set_cache_pool name cache_pop)) (\<lambda>_. Ret (Some c)))"

definition cache_ready :: "string \<Rightarrow> srv \<Rightarrow> bool" where
  "cache_ready name s =
     (case cache_pool_map s name of None \<Rightarrow> False | Some p \<Rightarrow> free_list p \<noteq> [] \<or> abort_request p)"

definition CachePool_GetCacheConn :: "string \<Rightarrow> int \<Rightarrow> conn_ptr prog" where
  "CachePool_GetCacheConn name timeout_ms =
     the_cache_pool name (\<lambda>p.
       if abort_request p then Ret None
       else if free_list p = [] then
         if max_conn_cnt p \<le> cur_conn_cnt p then
           (let after_wait = the_cache_pool name (\<lambda>q. if abort_request q then Ret None else cache_take_front name)
            in if timeout_ms \<le> 0 then Await (cache_ready name) after_wait
               else the_cache_pool name (\<lambda>q. if free_list q = [] then Ret None else after_wait))
         else
           bindp (new_CacheConn name p) (\<lambda>c.
           bindp (CacheConn_Init (Some c)) (\<lambda>ret.
           if ret \<noteq> 0 then bindp (delete_CacheConn c) (\<lambda>_. Ret None)
           else bindp (modS (set_cache_pool name (cache_grow c))) (\<lambda>_. cache_take_front name)))
       else cache_take_front name)"

definition CachePool_RelCacheConn :: "string \<Rightarrow> nat \<Rightarrow> unit prog" where
  "CachePool_RelCacheConn name c = modS (set_cache_pool name (cache_give_back c))"

section \<open>CacheManager\<close>

definition CacheManager_GetCacheConn :: "string \<Rightarrow> conn_ptr prog" where
  "CacheManager_GetCacheConn name =
     GetS (\<lambda>s. case cache_pool_map s name of None \<Rightarrow> Ret None | Some p \<Rightarrow> CachePool_GetCacheConn name 0)"

definition CacheManager_RelCacheConn :: "conn_ptr \<Rightarrow> unit prog" where
  "CacheManager_RelCacheConn p =
     (if p = None then Ret ()
      else the_cache_conn p (\<lambda>c conn.
        GetS (\<lambda>s. case cache_pool_map s (cc_pool conn) of
                    None \<Rightarrow> Ret ()
                  | Some q \<Rightarrow> CachePool_RelCacheConn (cc_pool conn) c)))"

definition with_cache_conn :: "string \<Rightarrow> (conn_ptr \<Rightarrow> 'a prog) \<Rightarrow> 'a prog" where
  "with_cache_conn name body =
     bindp (CacheManager_GetCacheConn name) (\<lambda>p.
     bindp (body p) (\<lambda>a.
     bindp (CacheManager_RelCacheConn p) (\<lambda>_. Ret a)))"

section \<open>Any number of threads at a pool\<close>

text \<open>What a run of GetDBConn does to its pool, read off the program.\<close>

lemma map_set_db_pool: "dbpool_map s name = Some p \<Longrightarrow> dbpool_map (set_db_pool name f s) name = Some (f p)"
  "next_conn (set_db_pool name f s) = next_conn s"
  by (simp_all add: set_db_pool_def)

lemma db_take_front_run:
  "dbpool_map s name = Some p \<Longrightarrow> db_free_list p = c # cs \<Longrightarrow>
   ensures Q (db_take_front name) s = Q (Some c) (set_db_pool name db_pop s)"
  "dbpool_map s name = Some p \<Longrightarrow> db_free_list p = [] \<Longrightarrow> ensures Q (db_take_front name) s"
  by (simp_all add: db_take_front_def the_db_pool_def modS_def)

lemma GetDBConn_got:
  assumes s: "dbpool_map s name = Some p"
  shows "ensures (\<lambda>r t. \<exists>q. dbpool_map t name = Some q \<and> dbq.got (next_conn s) p r (next_conn t) q)
     (CDBPool_GetDBConn name ms) s" (is "ensures ?Q _ s")
proof -
  have front: "ensures ?Q (db_take_front name) s"
    using s by (cases "db_free_list p") (simp_all add: db_take_front_run map_set_db_pool dbq.got_def)
  have none: "?Q None s" using s by (simp add: dbq.got_def)
  have created: "ensures ?Q (bindp (new_CDBConn name) (\<lambda>c. bindp (CDBConn_Init p) (\<lambda>ret.
       if ret \<noteq> 0 then bindp (delete_CDBConn c) (\<lambda>_. Ret None)
       else bindp (modS (set_db_pool name (db_grow c))) (\<lambda>_. db_take_front name)))) s"
    if free: "db_free_list p = []" and room: "\<not> db_max_conn_cnt p \<le> db_cur_conn_cnt p"
  proof -
    let ?c = "next_conn s"
    let ?t = "s\<lparr>db_heap := (db_heap s)(?c \<mapsto> \<lparr>dbc_pool = name, row_num = 0\<rparr>), next_conn := Suc ?c\<rparr>"
    let ?g = "set_db_pool name (db_grow ?c) ?t"
    have "dbpool_map ?t name = Some p" using s by simp
    then have g: "dbpool_map ?g name = Some (db_grow ?c p)" by (rule map_set_db_pool)
    have "db_free_list (db_grow ?c p) = [?c]" using free by (simp add: db_grow_def db_push_def)
    then have "ensures ?Q (db_take_front name) ?g"
      using free room g by (simp add: db_take_front_run [OF g] map_set_db_pool(1) [OF g] map_set_db_pool(2) dbq.got_def)
    moreover have "?Q None (?t\<lparr>db_heap := (db_heap ?t)(?c := None)\<rparr>)" using s by (simp add: dbq.got_def)
    ultimately show ?thesis by (simp add: new_CDBConn_def CDBConn_Init_def delete_CDBConn_def modS_def split: conn_reply.splits)
  qed
  show ?thesis
    using front none created s by (auto simp: CDBPool_GetDBConn_def the_db_pool_def Let_def)
qed

text \<open>A waiting call that is woken does what a call made at that moment would do.\<close>

lemma GetDBConn_resumes:
  assumes "db_ready name s"
  shows "run E (the_db_pool name (\<lambda>q. if db_abort q then Ret None else db_take_front name)) s w =
    run E (CDBPool_GetDBConn name ms) s w"
  using assms by (auto simp: CDBPool_GetDBConn_def the_db_pool_def db_ready_def split: option.splits)

text \<open>
  The completed calls of any number of threads at the pool called name, and what the rest of the
  process does meanwhile, which is not to touch the pool. The list holds the connections handed out
  and not given back.
\<close>

inductive db_step :: "'w env \<Rightarrow> string \<Rightarrow> srv \<times> nat list \<Rightarrow> srv \<times> nat list \<Rightarrow> bool" for E name where
  get: "run E (CDBPool_GetDBConn name ms) s w = (Done (Some c), t, w') \<Longrightarrow> db_step E name (s, lent) (t, c # lent)"
| get_none: "run E (CDBPool_GetDBConn name ms) s w = (Done None, t, w') \<Longrightarrow> db_step E name (s, lent) (t, lent)"
| release: "dbpool_map s name = Some p \<Longrightarrow> c \<in> set (db_free_list p @ lent) \<Longrightarrow>
    run E (CDBPool_RelDBConn name c) s w = (Done (), t, w') \<Longrightarrow> db_step E name (s, lent) (t, remove1 c lent)"
| elsewhere: "dbpool_map t name = dbpool_map s name \<Longrightarrow> next_conn s \<le> next_conn t \<Longrightarrow> db_step E name (s, lent) (t, lent)"

definition db_lent_ok :: "string \<Rightarrow> int \<Rightarrow> srv \<times> nat list \<Rightarrow> bool" where
  "db_lent_ok name m x \<longleftrightarrow>
     (\<exists>p. dbpool_map (fst x) name = Some p \<and> dbq.pool_ok MIN_DB_CONN_CNT (next_conn (fst x)) p (snd x) \<and> db_max_conn_cnt p = m)"

lemma get_lent_ok:
  assumes run: "run E (CDBPool_GetDBConn name ms) s w = (Done r, t, w')" and ok: "db_lent_ok name m (s, lent)"
  shows "db_lent_ok name m (t, with_got r lent)"
proof -
  obtain p where p: "dbpool_map s name = Some p" "dbq.pool_ok MIN_DB_CONN_CNT (next_conn s) p lent" "db_max_conn_cnt p = m"
    using ok by (auto simp: db_lent_ok_def)
  obtain q where "dbpool_map t name = Some q" "dbq.got (next_conn s) p r (next_conn t) q"
    using ensures_run [OF GetDBConn_got [OF p(1)] run] by blast
  then show ?thesis using dbq.got_ok [OF p(2)] p(3) by (auto simp: db_lent_ok_def)
qed

lemma db_step_ok: "db_step E name x y \<Longrightarrow> db_lent_ok name m x \<Longrightarrow> db_lent_ok name m y"
proof (induction rule: db_step.induct)
  case (get ms s w c t w' lent)
  then show ?case using get_lent_ok by (fastforce simp: with_got_def)
next
  case (get_none ms s w t w' lent)
  then show ?case using get_lent_ok by (fastforce simp: with_got_def)
next
  case (release s p c lent w t w')
  then have "t = set_db_pool name (db_give_back c) s" by (simp add: CDBPool_RelDBConn_def)
  then show ?case using release(1,2,4) dbq.returned_ok [of _ _ p lent c] dbq.returned_top [of c p]
    by (auto simp: db_lent_ok_def map_set_db_pool)
next
  case (elsewhere t s lent)
  then show ?case using dbq.pool_ok_later by (auto simp: db_lent_ok_def)
qed

lemma db_steps_ok: "(db_step E name)\<^sup>*\<^sup>* x y \<Longrightarrow> db_lent_ok name m x \<Longrightarrow> db_lent_ok name m y"
  by (induction rule: rtranclp_induct) (auto intro: db_step_ok)

text \<open>Init opens the connections the counter of the constructor announces.\<close>

lemma Init_loop_ok:
  assumes "dbpool_map s name = Some p" and "distinct (db_free_list p)" and "\<forall>c \<in> set (db_free_list p). c < next_conn s"
  shows "ensures (\<lambda>r t. r = 0 \<longrightarrow> (\<exists>q. dbpool_map t name = Some q \<and> distinct (db_free_list q) \<and>
       (\<forall>c \<in> set (db_free_list q). c < next_conn t) \<and> length (db_free_list q) = length (db_free_list p) + n \<and>
       db_cur_conn_cnt q = db_cur_conn_cnt p \<and> db_max_conn_cnt q = db_max_conn_cnt p)) (CDBPool_Init_loop name n) s"
  using assms
proof (induction n arbitrary: s p)
  case (Suc n)
  let ?c = "next_conn s"
  let ?t = "s\<lparr>db_heap := (db_heap s)(?c \<mapsto> \<lparr>dbc_pool = name, row_num = 0\<rparr>), next_conn := Suc ?c\<rparr>"
  let ?g = "set_db_pool name (db_push ?c) ?t"
  have g: "dbpool_map ?g name = Some (db_push ?c p)" using Suc.prems(1) by (simp add: set_db_pool_def)
  have "distinct (db_free_list (db_push ?c p))" "\<forall>d \<in> set (db_free_list (db_push ?c p)). d < next_conn ?g"
    using Suc.prems(2,3) by (auto simp: db_push_def map_set_db_pool(2))
  note rest = Suc.IH [OF g this]
  show ?case using Suc.prems(1) rest
    by (simp add: the_db_pool_def new_CDBConn_def CDBConn_Init_def delete_CDBConn_def modS_def db_push_def split: conn_reply.splits)
qed simp

lemma Init_ok:
  assumes "dbpool_map s name = Some (new_CDBPool ip port user pwd dbname m)"
    and "run E (CDBPool_Init name) s w = (Done 0, t, w')"
  shows "db_lent_ok name m (t, [])"
proof -
  let ?p = "new_CDBPool ip port user pwd dbname m"
  have p: "db_free_list ?p = []" "db_cur_conn_cnt ?p = MIN_DB_CONN_CNT" "db_max_conn_cnt ?p = m" by (simp_all add: new_CDBPool_def)
  have "run E (CDBPool_Init_loop name (nat MIN_DB_CONN_CNT)) s w = (Done 0, t, w')"
    using assms p(2) by (simp add: CDBPool_Init_def the_db_pool_def)
  moreover note Init_loop_ok [OF assms(1), of "nat MIN_DB_CONN_CNT"]
  ultimately obtain q where "dbpool_map t name = Some q" "distinct (db_free_list q)" "\<forall>c \<in> set (db_free_list q). c < next_conn t"
      "length (db_free_list q) = nat MIN_DB_CONN_CNT" "db_cur_conn_cnt q = MIN_DB_CONN_CNT" "db_max_conn_cnt q = m"
    using p ensures_run by fastforce
  then show ?thesis by (simp add: db_lent_ok_def dbq.pool_ok_def MIN_DB_CONN_CNT_def)
qed

text \<open>
  C22. Whatever the threads of the server do with a MySQL pool that was created and initialised:
  after any sequence of runs of GetDBConn, with and without a timeout, and of RelDBConn, for
  connections lent or already given back, against a server that answers as it likes, no connection is
  lent twice or lent and free at once, cur_conn_cnt_ is the number of free and lent connections, and
  there are never more of them than the maximum, or the one of the start.
\<close>

theorem CDBPool_lends_once:
  assumes "dbpool_map s0 name = Some (new_CDBPool ip port user pwd dbname m)"
    and "run E (CDBPool_Init name) s0 w = (Done 0, s, w')"
    and "(db_step E name)\<^sup>*\<^sup>* (s, []) (t, lent)"
  shows "\<exists>q. dbpool_map t name = Some q \<and> distinct (db_free_list q @ lent) \<and>
    db_cur_conn_cnt q = int (length (db_free_list q) + length lent) \<and> db_cur_conn_cnt q \<le> max MIN_DB_CONN_CNT m"
  using db_steps_ok [OF assms(3) Init_ok [OF assms(1,2)]] by (auto simp: db_lent_ok_def dbq.pool_ok_def)


text \<open>The same for the Redis pool, whose new connection also talks to the server.\<close>

lemma map_set_cache_pool:
  "cache_pool_map s name = Some p \<Longrightarrow> cache_pool_map (set_cache_pool name f s) name = Some (f p)"
  "next_conn (set_cache_pool name f s) = next_conn s"
  by (simp_all add: set_cache_pool_def)

lemma cache_take_front_run:
  "cache_pool_map s name = Some p \<Longrightarrow> free_list p = c # cs \<Longrightarrow>
   ensures Q (cache_take_front name) s = Q (Some c) (set_cache_pool name cache_pop s)"
  "cache_pool_map s name = Some p \<Longrightarrow> free_list p = [] \<Longrightarrow> ensures Q (cache_take_front name) s"
  by (simp_all add: cache_take_front_def the_cache_pool_def modS_def)

definition same_cache_pools :: "srv \<Rightarrow> srv \<Rightarrow> bool" where
  "same_cache_pools s t \<longleftrightarrow> cache_pool_map t = cache_pool_map s \<and> next_conn t = next_conn s"

lemma CacheConn_Init_pools: "keeps same_cache_pools (CacheConn_Init p)"
  by (auto simp: keeps_def CacheConn_Init_def the_cache_conn_def set_context_def select_db_def modS_def cache_update_at_def
      same_cache_pools_def Let_def split: option.splits)

lemma GetCacheConn_got:
  assumes s: "cache_pool_map s name = Some p"
  shows "ensures (\<lambda>r t. \<exists>q. cache_pool_map t name = Some q \<and> cacheq.got (next_conn s) p r (next_conn t) q)
     (CachePool_GetCacheConn name ms) s" (is "ensures ?Q _ s")
proof -
  have front: "ensures ?Q (cache_take_front name) s"
    using s by (cases "free_list p") (simp_all add: cache_take_front_run map_set_cache_pool cacheq.got_def)
  have none: "?Q None s" using s by (simp add: cacheq.got_def)
  have created: "ensures ?Q (bindp (new_CacheConn name p) (\<lambda>c. bindp (CacheConn_Init (Some c)) (\<lambda>ret.
       if ret \<noteq> 0 then bindp (delete_CacheConn c) (\<lambda>_. Ret None)
       else bindp (modS (set_cache_pool name (cache_grow c))) (\<lambda>_. cache_take_front name)))) s"
    if free: "free_list p = []" and room: "\<not> max_conn_cnt p \<le> cur_conn_cnt p"
  proof -
    let ?c = "next_conn s"
    let ?rest = "\<lambda>ret. if ret \<noteq> 0 then bindp (delete_CacheConn ?c) (\<lambda>_. Ret None)
       else bindp (modS (set_cache_pool name (cache_grow ?c))) (\<lambda>_. cache_take_front name)"
    have rest: "ensures ?Q (?rest ret) t" if t: "cache_pool_map t = cache_pool_map s" "next_conn t = Suc ?c" for ret t
    proof -
      have "cache_pool_map t name = Some p" using s t(1) by simp
      then have g: "cache_pool_map (set_cache_pool name (cache_grow ?c) t) name = Some (cache_grow ?c p)"
        by (rule map_set_cache_pool)
      have "free_list (cache_grow ?c p) = [?c]" using free by (simp add: cache_grow_def cache_push_def)
      then have "ensures ?Q (cache_take_front name) (set_cache_pool name (cache_grow ?c) t)"
        using free room g t(2)
        by (simp add: cache_take_front_run [OF g] map_set_cache_pool(1) [OF g] map_set_cache_pool(2) cacheq.got_def)
      moreover have "?Q None (t\<lparr>cache_heap := (cache_heap t)(?c := None)\<rparr>)" using s t by (simp add: cacheq.got_def)
      ultimately show ?thesis by (simp add: delete_CacheConn_def modS_def)
    qed
    have "ensures ?Q (bindp (CacheConn_Init (Some ?c)) ?rest) t" if t: "cache_pool_map t = cache_pool_map s" "next_conn t = Suc ?c" for t
    proof (rule ensures_bindp)
      show "ensures (\<lambda>ret u. same_cache_pools t u) (CacheConn_Init (Some ?c)) t"
        using CacheConn_Init_pools by (simp add: keeps_def)
      show "same_cache_pools t u \<Longrightarrow> ensures ?Q (?rest ret) u" for ret u
        by (rule rest) (use t in \<open>simp_all add: same_cache_pools_def\<close>)
    qed
    then show ?thesis by (simp add: new_CacheConn_def)
  qed
  show ?thesis
    using front none created s by (auto simp: CachePool_GetCacheConn_def the_cache_pool_def Let_def)
qed

text \<open>So a completed GetCacheConn, and any RelCacheConn, keep the pool and its clients in order.\<close>

lemma CachePool_calls_ok:
  assumes "cache_pool_map s name = Some p" and ok: "cacheq.pool_ok b (next_conn s) p lent"
  shows "run E (CachePool_GetCacheConn name ms) s w = (Done r, t, w') \<Longrightarrow>
      \<exists>q. cache_pool_map t name = Some q \<and> cacheq.pool_ok b (next_conn t) q (with_got r lent)"
    and "c \<in> set (free_list p @ lent) \<Longrightarrow> run E (CachePool_RelCacheConn name c) s w = (Done (), t, w') \<Longrightarrow>
      \<exists>q. cache_pool_map t name = Some q \<and> cacheq.pool_ok b (next_conn t) q (remove1 c lent)"
proof -
  show "\<exists>q. cache_pool_map t name = Some q \<and> cacheq.pool_ok b (next_conn t) q (with_got r lent)"
    if "run E (CachePool_GetCacheConn name ms) s w = (Done r, t, w')"
    using ensures_run [OF GetCacheConn_got [OF assms(1)] that] cacheq.got_ok(1) [OF ok] by blast
  show "\<exists>q. cache_pool_map t name = Some q \<and> cacheq.pool_ok b (next_conn t) q (remove1 c lent)"
    if "c \<in> set (free_list p @ lent)" "run E (CachePool_RelCacheConn name c) s w = (Done (), t, w')"
    using that cacheq.returned_ok [OF ok that(1)] map_set_cache_pool(1) [OF assms(1)]
    by (auto simp: CachePool_RelCacheConn_def map_set_cache_pool(2))
qed

text \<open>A pool of at most two connections, with one open, lends both and gets one back.\<close>

definition pool_demo_env :: "unit env" where
  "pool_demo_env =
     \<lparr>env_mysql_connect = \<lambda>w ps. (Connected, w), env_mysql = \<lambda>w q. (QueryFailed, w), env_stmt = \<lambda>w q ps. (StmtInitFailed, w),
      env_redis_connect = \<lambda>w h p. (False, w), env_redis = \<lambda>w c. (None, w), env_os = \<lambda>w c. (\<lparr>os_int = 0, os_str = []\<rparr>, w),
      env_libc = \<lparr>scan_double = \<lambda>t. False, format_double = \<lambda>t. t, double_to_int = \<lambda>t. None\<rparr>\<rparr>"

definition pool_demo_srv :: srv where
  "pool_demo_srv =
     \<lparr>db_heap = \<lambda>_. None, cache_heap = \<lambda>_. None, next_conn = 0,
      dbpool_map = [''m'' \<mapsto> new_CDBPool ''h'' 1 ''u'' ''p'' ''d'' 2], cache_pool_map = \<lambda>_. None,
      s_response_pdu_list = [], s_dfs_path_client = [], s_web_server_ip = [], s_web_server_port = [],
      s_storage_web_server_ip = [], s_storage_web_server_port = [], http_heap = \<lambda>_. None, next_http = 0,
      g_http_conn_map = [], g_uuid_conn_map = [], g_conn_handle_generator = 0, s_uuid_alloctor = 0, pool_tasks = []\<rparr>"

theorem CDBPool_lends_once_witness:
  "\<exists>s t q. run pool_demo_env (CDBPool_Init ''m'') pool_demo_srv () = (Done 0, s, ()) \<and>
     (db_step pool_demo_env ''m'')\<^sup>*\<^sup>* (s, []) (t, [0]) \<and>
     dbpool_map t ''m'' = Some q \<and> distinct (db_free_list q @ [0]) \<and> db_cur_conn_cnt q = 2 \<and> db_cur_conn_cnt q \<le> max MIN_DB_CONN_CNT 2"
proof -
  let ?E = pool_demo_env
  let ?s = "fst (snd (run ?E (CDBPool_Init ''m'') pool_demo_srv ()))"
  let ?t1 = "fst (snd (run ?E (CDBPool_GetDBConn ''m'' 0) ?s ()))"
  let ?t2 = "fst (snd (run ?E (CDBPool_GetDBConn ''m'' 0) ?t1 ()))"
  let ?t3 = "fst (snd (run ?E (CDBPool_RelDBConn ''m'' 1) ?t2 ()))"
  note defs = pool_demo_env_def pool_demo_srv_def CDBPool_Init_def CDBPool_GetDBConn_def CDBPool_RelDBConn_def the_db_pool_def
    new_CDBPool_def MIN_DB_CONN_CNT_def new_CDBConn_def CDBConn_Init_def set_db_pool_def db_take_front_def db_push_def
    db_pop_def db_grow_def db_give_back_def
  have init: "run ?E (CDBPool_Init ''m'') pool_demo_srv () = (Done 0, ?s, ())" by (simp add: defs)
  have r1: "run ?E (CDBPool_GetDBConn ''m'' 0) ?s () = (Done (Some 0), ?t1, ())" by (simp add: defs)
  have r2: "run ?E (CDBPool_GetDBConn ''m'' 0) ?t1 () = (Done (Some 1), ?t2, ())" by (simp add: defs)
  have r3: "run ?E (CDBPool_RelDBConn ''m'' 1) ?t2 () = (Done (), ?t3, ())" by (simp add: defs)
  obtain p where p: "dbpool_map ?t2 ''m'' = Some p" by (simp add: defs)
  have "db_step ?E ''m'' (?s, []) (?t1, [0])" using r1 by (rule db_step.get)
  moreover have "db_step ?E ''m'' (?t1, [0]) (?t2, [1, 0])" using r2 by (rule db_step.get)
  moreover have "db_step ?E ''m'' (?t2, [1, 0]) (?t3, remove1 1 [1, 0])" using p _ r3 by (rule db_step.release) simp
  ultimately have steps: "(db_step ?E ''m'')\<^sup>*\<^sup>* (?s, []) (?t3, [0])" by (auto intro: rtranclp.rtrancl_into_rtrancl)
  have start: "dbpool_map pool_demo_srv ''m'' = Some (new_CDBPool ''h'' 1 ''u'' ''p'' ''d'' 2)" by (simp add: pool_demo_srv_def)
  obtain q where q: "dbpool_map ?t3 ''m'' = Some q" "distinct (db_free_list q @ [0])" "db_cur_conn_cnt q \<le> max MIN_DB_CONN_CNT 2"
    using CDBPool_lends_once [OF start init steps] by blast
  moreover have "db_cur_conn_cnt q = 2" using q(1) by (auto simp: defs)
  ultimately show ?thesis using init steps by blast
qed

end
