(* ===== verification/Lending.thy ===== *)
theory Lending
  imports Conn_Pool
begin

text \<open>
  Scoped borrowing is balanced. A view keeps what matters of one kind of pool: the free list and
  the connection count of each pool, the pool each connection object belongs to, and the next
  object. balanced relates two states when the later one has the same number of connections lent
  out by every pool, has kept the invariant of the pools, and has not put a connection somebody
  else holds into a free list. with_db_conn and with_cache_conn keep balanced whenever their body
  does, whatever the services answer, so a handler that borrows only through them leaks nothing.
\<close>

record lend_view =
  lv_pools :: "string \<Rightarrow> (nat list \<times> int) option"
  lv_owner :: "nat \<Rightarrow> string option"
  lv_next :: nat

definition lv_free :: "lend_view \<Rightarrow> string \<Rightarrow> nat list" where
  "lv_free v name = (case lv_pools v name of None \<Rightarrow> [] | Some (fr, n) \<Rightarrow> fr)"

definition lv_out :: "lend_view \<Rightarrow> string \<Rightarrow> int" where
  "lv_out v name = (case lv_pools v name of None \<Rightarrow> 0 | Some (fr, n) \<Rightarrow> n - int (length fr))"

definition view_inv :: "lend_view \<Rightarrow> bool" where
  "view_inv v \<longleftrightarrow>
     (\<forall>name. distinct (lv_free v name) \<and> (\<forall>c \<in> set (lv_free v name). lv_owner v c = Some name)) \<and>
     (\<forall>c. lv_owner v c \<noteq> None \<longrightarrow> c < lv_next v)"

definition same_pools :: "lend_view \<Rightarrow> lend_view \<Rightarrow> bool" where
  "same_pools v v' \<longleftrightarrow>
     (\<forall>name. lv_pools v' name = None \<longleftrightarrow> lv_pools v name = None) \<and>
     lv_next v \<le> lv_next v' \<and>
     (\<forall>c < lv_next v. lv_owner v' c = lv_owner v c)"

definition view_bal :: "lend_view \<Rightarrow> lend_view \<Rightarrow> bool" where
  "view_bal v v' \<longleftrightarrow>
     (view_inv v \<longrightarrow>
        view_inv v' \<and> same_pools v v' \<and> (\<forall>name. lv_out v' name = lv_out v name) \<and>
        (\<forall>c < lv_next v. \<forall>name. c \<notin> set (lv_free v name) \<longrightarrow> c \<notin> set (lv_free v' name)))"

text \<open>lent name c v v': from v to v' the pool of that name has lent c.\<close>

definition lent :: "string \<Rightarrow> nat \<Rightarrow> lend_view \<Rightarrow> lend_view \<Rightarrow> bool" where
  "lent name c v v' \<longleftrightarrow>
     (view_inv v \<longrightarrow>
        view_inv v' \<and> same_pools v v' \<and> lv_pools v name \<noteq> None \<and> lv_owner v' c = Some name \<and>
        (\<forall>n. c \<notin> set (lv_free v' n)) \<and> (c \<in> set (lv_free v name) \<or> lv_next v \<le> c) \<and>
        (\<forall>n. lv_out v' n = lv_out v n + (if n = name then 1 else 0)) \<and>
        (\<forall>c < lv_next v. \<forall>n. c \<notin> set (lv_free v n) \<longrightarrow> c \<notin> set (lv_free v' n)))"

section \<open>Steps on views\<close>

definition lv_pop :: "string \<Rightarrow> lend_view \<Rightarrow> lend_view" where
  "lv_pop name v = v\<lparr>lv_pools := (lv_pools v)(name := map_option (\<lambda>(fr, n). (tl fr, n)) (lv_pools v name))\<rparr>"

definition lv_give :: "string \<Rightarrow> nat \<Rightarrow> lend_view \<Rightarrow> lend_view" where
  "lv_give name c v =
     v\<lparr>lv_pools := (lv_pools v)(name := map_option (\<lambda>(fr, n). (if c \<in> set fr then fr else fr @ [c], n)) (lv_pools v name))\<rparr>"

definition lv_create :: "string \<Rightarrow> lend_view \<Rightarrow> lend_view" where
  "lv_create name v = v\<lparr>lv_owner := (lv_owner v)(lv_next v \<mapsto> name), lv_next := Suc (lv_next v)\<rparr>"

definition lv_count :: "string \<Rightarrow> lend_view \<Rightarrow> lend_view" where
  "lv_count name v = v\<lparr>lv_pools := (lv_pools v)(name := map_option (\<lambda>(fr, n). (fr, n + 1)) (lv_pools v name))\<rparr>"

lemma view_bal_refl [simp]: "view_bal v v"
  by (simp add: view_bal_def same_pools_def)

lemma same_pools_trans: "same_pools u v \<Longrightarrow> same_pools v w \<Longrightarrow> same_pools u w"
  by (auto simp: same_pools_def)

lemma view_bal_trans: "view_bal u v \<Longrightarrow> view_bal v w \<Longrightarrow> view_bal u w"
proof -
  assume uv: "view_bal u v" and vw: "view_bal v w"
  show ?thesis
    unfolding view_bal_def
  proof
    assume "view_inv u"
    with uv vw have A: "view_inv v" "view_inv w" "same_pools u v" "same_pools v w"
      by (auto simp: view_bal_def)
    have "c \<notin> set (lv_free w n)" if "c < lv_next u" "c \<notin> set (lv_free u n)" for c n
    proof -
      have "c \<notin> set (lv_free v n)"
        using uv \<open>view_inv u\<close> that by (auto simp: view_bal_def)
      moreover have "c < lv_next v"
        using A(3) that by (auto simp: same_pools_def)
      ultimately show ?thesis
        using vw A(1) by (auto simp: view_bal_def)
    qed
    with uv vw A \<open>view_inv u\<close> show "view_inv w \<and> same_pools u w \<and> (\<forall>n. lv_out w n = lv_out u n) \<and>
        (\<forall>c < lv_next u. \<forall>n. c \<notin> set (lv_free u n) \<longrightarrow> c \<notin> set (lv_free w n))"
      using same_pools_trans [of u v w] by (auto simp: view_bal_def)
  qed
qed

lemma lv_pop_simps [simp]:
  "lv_owner (lv_pop name v) = lv_owner v" "lv_next (lv_pop name v) = lv_next v"
  "lv_pools (lv_pop name v) m = None \<longleftrightarrow> lv_pools v m = None"
  "lv_free (lv_pop name v) m = (if m = name then tl (lv_free v m) else lv_free v m)"
  by (auto simp: lv_pop_def lv_free_def split: option.splits)

lemma lv_out_pop [simp]:
  "lv_free v name \<noteq> [] \<Longrightarrow> lv_out (lv_pop name v) m = lv_out v m + (if m = name then 1 else 0)"
  by (auto simp: lv_pop_def lv_free_def lv_out_def neq_Nil_conv split: option.splits)

lemma lv_give_simps [simp]:
  "lv_owner (lv_give name c v) = lv_owner v" "lv_next (lv_give name c v) = lv_next v"
  "lv_pools (lv_give name c v) m = None \<longleftrightarrow> lv_pools v m = None"
  "lv_pools v name \<noteq> None \<Longrightarrow> c \<notin> set (lv_free v name) \<Longrightarrow>
     lv_free (lv_give name c v) m = (if m = name then lv_free v m @ [c] else lv_free v m)"
  "lv_pools v name \<noteq> None \<Longrightarrow> c \<notin> set (lv_free v name) \<Longrightarrow>
     lv_out (lv_give name c v) m = lv_out v m - (if m = name then 1 else 0)"
  by (auto simp: lv_give_def lv_free_def lv_out_def split: option.splits)

lemma lv_create_simps [simp]:
  "lv_owner (lv_create name v) = (lv_owner v)(lv_next v \<mapsto> name)"
  "lv_next (lv_create name v) = Suc (lv_next v)" "lv_pools (lv_create name v) = lv_pools v"
  "lv_free (lv_create name v) = lv_free v" "lv_out (lv_create name v) = lv_out v"
  by (auto simp: lv_create_def lv_free_def lv_out_def)

lemma lv_count_simps [simp]:
  "lv_owner (lv_count name v) = lv_owner v" "lv_next (lv_count name v) = lv_next v"
  "lv_pools (lv_count name v) m = None \<longleftrightarrow> lv_pools v m = None"
  "lv_free (lv_count name v) = lv_free v"
  "lv_pools v name \<noteq> None \<Longrightarrow> lv_out (lv_count name v) m = lv_out v m + (if m = name then 1 else 0)"
  by (auto simp: lv_count_def lv_free_def lv_out_def fun_eq_iff split: option.splits)

lemma view_invD:
  assumes "view_inv v"
  shows "distinct (lv_free v n)" "c \<in> set (lv_free v n) \<Longrightarrow> lv_owner v c = Some n"
    "lv_owner v c = Some n \<Longrightarrow> c < lv_next v" "c \<in> set (lv_free v n) \<Longrightarrow> c < lv_next v"
  using assms by (fastforce simp: view_inv_def)+

text \<open>The front of a free list is in no other list, and not twice in its own.\<close>

lemma front_unique:
  assumes "view_inv v" and "lv_free v name = c # fr"
  shows "c \<notin> set (lv_free (lv_pop name v) n)"
proof (cases "n = name")
  case True
  then show ?thesis using view_invD(1) [OF assms(1), of name] assms(2) by simp
next
  case False
  then show ?thesis
    using view_invD(2) [OF assms(1), of c name] view_invD(2) [OF assms(1), of c n] assms(2) by auto
qed

lemma in_set_tl: "x \<in> set (tl xs) \<Longrightarrow> x \<in> set xs"
  by (cases xs) auto

lemma view_inv_pop: "view_inv v \<Longrightarrow> view_inv (lv_pop name v)"
  by (auto simp: view_inv_def distinct_tl dest: in_set_tl)

lemma lent_pop:
  assumes "lv_free v name = c # fr"
  shows "lent name c v (lv_pop name v)"
proof -
  have "lv_pools v name \<noteq> None" using assms by (auto simp: lv_free_def split: option.splits)
  moreover have "view_inv v \<Longrightarrow> lv_owner v c = Some name" using assms by (simp add: view_invD(2))
  ultimately show ?thesis
    using assms front_unique [of v name c fr] view_inv_pop [of v name]
    by (auto simp: lent_def same_pools_def)
qed

text \<open>A connection is created only when the free list is empty, and lent at once.\<close>

lemma lent_create:
  assumes "lv_pools v name \<noteq> None"
  shows "lent name (lv_next v) v (lv_count name (lv_create name v))"
  using assms by (auto simp: lent_def same_pools_def view_inv_def less_Suc_eq)

lemma bal_next:
  assumes "lv_pools v' = lv_pools v" and "lv_owner v' = lv_owner v" and "lv_next v \<le> lv_next v'"
  shows "view_bal v v'"
  using assms
  by (auto simp: view_bal_def same_pools_def view_inv_def lv_free_def lv_out_def intro: less_le_trans)

text \<open>Giving back what was lent, after anything balanced, closes the scope.\<close>

lemma bal_give:
  assumes "lent name c u v" and "view_bal v w"
  shows "view_bal u (lv_give name c w)"
proof -
  have "view_inv (lv_give name c w) \<and> same_pools u (lv_give name c w) \<and>
      (\<forall>n. lv_out (lv_give name c w) n = lv_out u n) \<and>
      (\<forall>d < lv_next u. \<forall>n. d \<notin> set (lv_free u n) \<longrightarrow> d \<notin> set (lv_free (lv_give name c w) n))"
    if u: "view_inv u"
  proof -
    from assms(1) u have v: "view_inv v" "same_pools u v" "lv_pools u name \<noteq> None"
      "lv_owner v c = Some name" "\<And>n. c \<notin> set (lv_free v n)" "c \<in> set (lv_free u name) \<or> lv_next u \<le> c"
      "\<And>n. lv_out v n = lv_out u n + (if n = name then 1 else 0)"
      "\<And>d n. d < lv_next u \<Longrightarrow> d \<notin> set (lv_free u n) \<Longrightarrow> d \<notin> set (lv_free v n)"
      by (simp_all add: lent_def)
    then have c: "c < lv_next v" by (simp add: view_invD(3))
    from assms(2) v(1) have w: "view_inv w" "same_pools v w" "\<And>n. lv_out w n = lv_out v n"
      "\<And>d n. d < lv_next v \<Longrightarrow> d \<notin> set (lv_free v n) \<Longrightarrow> d \<notin> set (lv_free w n)"
      by (simp_all add: view_bal_def)
    have cw: "c \<notin> set (lv_free w n)" for n using w(4) c v(5) by blast
    have pw: "lv_pools w name \<noteq> None" using v(2,3) w(2) by (simp add: same_pools_def)
    have ow: "lv_owner w c = Some name" using w(2) c v(4) by (simp add: same_pools_def)
    have "view_inv (lv_give name c w)"
      using w(1) cw pw ow by (auto simp: view_inv_def)
    moreover have "same_pools u (lv_give name c w)"
      using same_pools_trans [OF v(2) w(2)] by (simp add: same_pools_def)
    moreover have "lv_out (lv_give name c w) n = lv_out u n" for n
      using w(3) v(7) cw pw by simp
    moreover have "d \<notin> set (lv_free (lv_give name c w) n)"
      if "d < lv_next u" "d \<notin> set (lv_free u n)" for d n
    proof -
      have "d < lv_next v" using that(1) v(2) by (auto simp: same_pools_def)
      then show ?thesis using w(4) v(8) that v(6) cw pw by auto
    qed
    ultimately show ?thesis by blast
  qed
  then show ?thesis by (simp add: view_bal_def)
qed

section \<open>Views of the state\<close>

definition db_view :: "srv \<Rightarrow> lend_view" where
  "db_view s =
     \<lparr>lv_pools = (\<lambda>n. map_option (\<lambda>p. (db_free_list p, db_cur_conn_cnt p)) (dbpool_map s n)),
      lv_owner = (\<lambda>c. map_option dbc_pool (db_heap s c)), lv_next = next_conn s\<rparr>"

definition cache_view :: "srv \<Rightarrow> lend_view" where
  "cache_view s =
     \<lparr>lv_pools = (\<lambda>n. map_option (\<lambda>p. (free_list p, cur_conn_cnt p)) (cache_pool_map s n)),
      lv_owner = (\<lambda>c. map_option cc_pool (cache_heap s c)), lv_next = next_conn s\<rparr>"

text \<open>The part of the state that belongs to the event loop.\<close>

definition http_part where
  "http_part s = (http_heap s, next_http s, g_http_conn_map s, g_uuid_conn_map s, g_conn_handle_generator s,
     s_uuid_alloctor s, pool_tasks s)"

lemma http_part_updates [simp]:
  "http_part (set_db_pool name f s) = http_part s" "http_part (set_cache_pool name g s) = http_part s"
  "http_part (row_num_update_at c n s) = http_part s" "http_part (cache_update_at c h s) = http_part s"
  "http_part (db_heap_update dh s) = http_part s" "http_part (cache_heap_update ch s) = http_part s"
  "http_part (next_conn_update nc s) = http_part s" "http_part (s_response_pdu_list_update rl s) = http_part s"
  by (simp_all add: http_part_def set_db_pool_def set_cache_pool_def row_num_update_at_def cache_update_at_def)

definition balanced :: "srv \<Rightarrow> srv \<Rightarrow> bool" where
  "balanced s t \<longleftrightarrow>
     view_bal (db_view s) (db_view t) \<and> view_bal (cache_view s) (cache_view t) \<and> http_part t = http_part s"

lemma balanced_props [simp]: "reflp balanced" "transp balanced"
  by (auto simp: balanced_def reflp_def intro: view_bal_trans intro!: transpI)

lemma balanced_trans: "balanced s t \<Longrightarrow> balanced t u \<Longrightarrow> balanced s u"
  using balanced_props(2) by (rule transpD)

lemma db_view_steps [simp]:
  "db_view (set_db_pool name db_pop s) = lv_pop name (db_view s)"
  "db_view (set_db_pool name (db_give_back c) s) = lv_give name c (db_view s)"
  "cache_view (set_db_pool name f s) = cache_view s"
  "db_view (set_cache_pool name g s) = db_view s"
  "db_view (row_num_update_at c n s) = db_view s"
  "cache_view (row_num_update_at c n s) = cache_view s"
  "db_view (cache_update_at c h s) = db_view s"
  by (auto simp: db_view_def cache_view_def set_db_pool_def set_cache_pool_def lv_pop_def lv_give_def
      db_pop_def db_give_back_def db_push_def row_num_update_at_def cache_update_at_def fun_eq_iff
      option.map_comp comp_def intro!: option.map_cong0)

lemma cache_view_steps [simp]:
  "cache_view (set_cache_pool name cache_pop s) = lv_pop name (cache_view s)"
  "cache_view (set_cache_pool name (cache_give_back c) s) = lv_give name c (cache_view s)"
  "cache_view (cache_update_at c (cc_context_update f) s) = cache_view s"
  "cache_view (cache_update_at c (cc_last_connect_update g) s) = cache_view s"
  by (auto simp: cache_view_def set_cache_pool_def lv_pop_def lv_give_def cache_pop_def
      cache_give_back_def cache_push_def cache_update_at_def fun_eq_iff option.map_comp comp_def
      intro!: option.map_cong0)

text \<open>What a scope knows between its GetDBConn and its release.\<close>

definition db_lent :: "string \<Rightarrow> nat \<Rightarrow> srv \<Rightarrow> srv \<Rightarrow> bool" where
  "db_lent name c s t \<longleftrightarrow>
     lent name c (db_view s) (db_view t) \<and> view_bal (cache_view s) (cache_view t) \<and> http_part t = http_part s"

definition cache_lent :: "string \<Rightarrow> nat \<Rightarrow> srv \<Rightarrow> srv \<Rightarrow> bool" where
  "cache_lent name c s t \<longleftrightarrow>
     lent name c (cache_view s) (cache_view t) \<and> view_bal (db_view s) (db_view t) \<and> http_part t = http_part s"


definition db_got :: "string \<Rightarrow> srv \<Rightarrow> conn_ptr \<Rightarrow> srv \<Rightarrow> bool" where
  "db_got name s r t \<longleftrightarrow> (case r of None \<Rightarrow> balanced s t | Some c \<Rightarrow> db_lent name c s t)"

definition cache_got :: "string \<Rightarrow> srv \<Rightarrow> conn_ptr \<Rightarrow> srv \<Rightarrow> bool" where
  "cache_got name s r t \<longleftrightarrow> (case r of None \<Rightarrow> balanced s t | Some c \<Rightarrow> cache_lent name c s t)"

lemma view_lookups [simp]:
  "dbpool_map s name = Some p \<Longrightarrow> lv_pools (db_view s) name = Some (db_free_list p, db_cur_conn_cnt p)"
  "dbpool_map s name = Some p \<Longrightarrow> lv_free (db_view s) name = db_free_list p"
  "lv_owner (db_view s) c = map_option dbc_pool (db_heap s c)" "lv_next (db_view s) = next_conn s"
  "cache_pool_map s name = Some q \<Longrightarrow> lv_pools (cache_view s) name = Some (free_list q, cur_conn_cnt q)"
  "cache_pool_map s name = Some q \<Longrightarrow> lv_free (cache_view s) name = free_list q"
  "lv_owner (cache_view s) c = map_option cc_pool (cache_heap s c)" "lv_next (cache_view s) = next_conn s"
  by (simp_all add: db_view_def cache_view_def lv_free_def)

lemma db_take_front_got:
  assumes "dbpool_map s name = Some p"
  shows "ensures (db_got name s) (db_take_front name) s"
proof (cases "db_free_list p")
  case (Cons c cs)
  then have "lent name c (db_view s) (lv_pop name (db_view s))"
    using assms lent_pop [of "db_view s" name] by simp
  with Cons assms show ?thesis
    by (simp add: db_take_front_def the_db_pool_def modS_def db_got_def db_lent_def)
qed (use assms in \<open>simp add: db_take_front_def the_db_pool_def\<close>)

definition db_created :: "string \<Rightarrow> srv \<Rightarrow> srv" where
  "db_created name s =
     s\<lparr>db_heap := (db_heap s)(next_conn s \<mapsto> \<lparr>dbc_pool = name, row_num = 0\<rparr>), next_conn := Suc (next_conn s)\<rparr>"

lemma http_part_created [simp]: "http_part (db_created name s) = http_part s"
  by (simp add: db_created_def http_part_def)

lemma db_created_views:
  assumes "dbpool_map s name = Some p" and "db_free_list p = []"
  shows "db_view (set_db_pool name db_pop (set_db_pool name (db_grow (next_conn s)) (db_created name s))) =
           lv_count name (lv_create name (db_view s))"
    and "cache_view (db_created name s) = cache_view s\<lparr>lv_next := Suc (next_conn s)\<rparr>"
  using assms
  by (auto simp: db_view_def cache_view_def set_db_pool_def db_grow_def db_push_def db_pop_def
      lv_count_def lv_create_def db_created_def fun_eq_iff)

lemma db_deleted_views:
  assumes "view_inv (db_view s)"
  shows "db_view ((db_created name s)\<lparr>db_heap := (db_heap (db_created name s))(next_conn s := None)\<rparr>) =
           db_view s\<lparr>lv_next := Suc (next_conn s)\<rparr>"
proof -
  have "db_heap s (next_conn s) = None"
    using assms by (auto simp: view_inv_def)
  then show ?thesis by (auto simp: db_view_def db_created_def fun_eq_iff)
qed

lemma balanced_next:
  assumes "db_view t = db_view s\<lparr>lv_next := n\<rparr>" and "cache_view t = cache_view s\<lparr>lv_next := n\<rparr>"
    and "next_conn s \<le> n" and "http_part t = http_part s"
  shows "balanced s t"
  using assms by (auto simp: balanced_def intro!: bal_next)

lemma ensures_the_db_pool:
  "dbpool_map s name = Some p \<Longrightarrow> ensures Q (the_db_pool name k) s = ensures Q (k p) s"
  by (simp add: the_db_pool_def)

lemma CDBPool_GetDBConn_got: "ensures (db_got name s) (CDBPool_GetDBConn name ms) s"
proof (cases "dbpool_map s name")
  case None
  then show ?thesis by (simp add: CDBPool_GetDBConn_def the_db_pool_def)
next
  case (Some p)
  note front = db_take_front_got [OF Some]
  have none: "db_got name s None s"
    by (simp add: db_got_def balanced_def)
  have created: "ensures (db_got name s)
      (bindp (new_CDBConn name) (\<lambda>c. bindp (CDBConn_Init p) (\<lambda>ret.
         if ret \<noteq> 0 then bindp (delete_CDBConn c) (\<lambda>_. Ret None)
         else bindp (modS (set_db_pool name (db_grow c))) (\<lambda>_. db_take_front name)))) s"
    if free: "db_free_list p = []"
  proof -
    let ?t = "db_created name s"
    let ?d = "?t\<lparr>db_heap := (db_heap ?t)(next_conn s := None)\<rparr>"
    let ?g = "set_db_pool name (db_grow (next_conn s)) ?t"
    have "cache_view ?d = cache_view s\<lparr>lv_next := Suc (next_conn s)\<rparr>"
      using db_created_views(2) [OF Some free] by (simp add: cache_view_def)
    then have "view_inv (db_view s) \<Longrightarrow> balanced s ?d"
      by (intro balanced_next [where n = "Suc (next_conn s)"] db_deleted_views) simp_all
    moreover have "\<not> view_inv (db_view s) \<Longrightarrow> balanced s ?d"
      using \<open>cache_view ?d = _\<close> by (auto simp: balanced_def view_bal_def [of "db_view s"] intro!: bal_next)
    ultimately have deleted: "db_got name s None ?d"
      by (auto simp: db_got_def)
    have "lent name (next_conn s) (db_view s) (db_view (set_db_pool name db_pop ?g))"
      using lent_create [of "db_view s" name] db_created_views(1) [OF Some free] Some by simp
    moreover have "view_bal (cache_view s) (cache_view (set_db_pool name db_pop ?g))"
      using db_created_views(2) [OF Some free] by (intro bal_next) simp_all
    ultimately have "db_got name s (Some (next_conn s)) (set_db_pool name db_pop ?g)"
      by (simp add: db_got_def db_lent_def)
    moreover have "dbpool_map ?g name = Some (db_grow (next_conn s) p)" "db_free_list (db_grow (next_conn s) p) = [next_conn s]"
      using Some free by (simp_all add: set_db_pool_def db_created_def db_grow_def db_push_def)
    ultimately have "ensures (db_got name s) (db_take_front name) ?g"
      by (simp add: db_take_front_def the_db_pool_def modS_def)
    with deleted show ?thesis
      by (simp add: new_CDBConn_def CDBConn_Init_def delete_CDBConn_def modS_def db_created_def
          split: conn_reply.splits)
  qed
  show ?thesis
    using front none created Some
    by (auto simp: CDBPool_GetDBConn_def ensures_the_db_pool Let_def)
qed

text \<open>The same for the cache pool, where creating a connection also talks to the server.\<close>

definition same_views :: "srv \<Rightarrow> srv \<Rightarrow> bool" where
  "same_views s t \<longleftrightarrow>
     db_view t = db_view s \<and> cache_view t = cache_view s \<and>
     cache_pool_map t = cache_pool_map s \<and> http_part t = http_part s"

lemma same_views_props [simp]: "reflp same_views" "transp same_views"
  by (auto simp: same_views_def reflp_def intro!: transpI)

lemma keeps_Init_same_views: "keeps same_views (CacheConn_Init p)"
  by (rule keeps_CacheConn_Init) (simp_all add: same_views_def, simp_all add: cache_update_at_def)

lemma cache_take_front_got:
  assumes "cache_pool_map s name = Some p"
  shows "ensures (cache_got name s) (cache_take_front name) s"
proof (cases "free_list p")
  case (Cons c cs)
  then have "lent name c (cache_view s) (lv_pop name (cache_view s))"
    using assms lent_pop [of "cache_view s" name] by simp
  with Cons assms show ?thesis
    by (simp add: cache_take_front_def the_cache_pool_def modS_def cache_got_def cache_lent_def)
qed (use assms in \<open>simp add: cache_take_front_def the_cache_pool_def\<close>)

definition cache_created :: "string \<Rightarrow> cache_pool \<Rightarrow> srv \<Rightarrow> srv" where
  "cache_created name p s =
     s\<lparr>cache_heap := (cache_heap s)(next_conn s \<mapsto>
          \<lparr>cc_server_ip = cp_server_ip p, cc_server_port = cp_server_port p mod 65536,
           cc_password = cp_password p, cc_pool = name, cc_context = False, cc_last_connect = 0\<rparr>),
        next_conn := Suc (next_conn s)\<rparr>"

lemma http_part_cache_created [simp]: "http_part (cache_created name p s) = http_part s"
  by (simp add: cache_created_def http_part_def)

lemma cache_created_views:
  "cache_view (cache_created name p s) = lv_create name (cache_view s)"
  "db_view (cache_created name p s) = db_view s\<lparr>lv_next := Suc (next_conn s)\<rparr>"
  by (auto simp: db_view_def cache_view_def lv_create_def cache_created_def fun_eq_iff)

lemma cache_pop_grow_view:
  assumes "cache_pool_map t name = Some p" and "free_list p = []"
  shows "cache_view (set_cache_pool name cache_pop (set_cache_pool name (cache_grow c) t)) =
           lv_count name (cache_view t)"
  using assms
  by (auto simp: cache_view_def set_cache_pool_def cache_grow_def cache_push_def cache_pop_def
      lv_count_def fun_eq_iff)

lemma cache_deleted_view:
  assumes "cache_view t = lv_create name (cache_view s)" and "view_inv (cache_view s)"
  shows "cache_view (t\<lparr>cache_heap := (cache_heap t)(next_conn s := None)\<rparr>) =
           cache_view s\<lparr>lv_next := Suc (next_conn s)\<rparr>"
proof -
  have "lv_owner (cache_view s) (next_conn s) = None"
    using assms(2) by (auto simp: view_inv_def)
  then have "map_option cc_pool (cache_heap s (next_conn s)) = None" by simp
  with assms(1) show ?thesis
    by (auto simp: cache_view_def lv_create_def fun_eq_iff fun_upd_def split: if_splits)
qed

lemma cache_fresh_got:
  assumes "cache_pool_map s name = Some p" and "free_list p = []" and "same_views (cache_created name p s) t"
  shows "ensures (cache_got name s)
           (bindp (delete_CacheConn (next_conn s)) (\<lambda>_. Ret None)) t"
    and "ensures (cache_got name s)
           (bindp (modS (set_cache_pool name (cache_grow (next_conn s)))) (\<lambda>_. cache_take_front name)) t"
proof -
  have views: "cache_view t = lv_create name (cache_view s)" "db_view t = db_view s\<lparr>lv_next := Suc (next_conn s)\<rparr>"
      "cache_pool_map t name = Some p" and http: "http_part t = http_part s"
    using assms by (simp_all add: same_views_def cache_created_views) (simp add: cache_created_def)
  let ?d = "t\<lparr>cache_heap := (cache_heap t)(next_conn s := None)\<rparr>"
  have db: "view_bal (db_view s) (db_view ?d)"
    using views(2) by (intro bal_next) (simp_all add: db_view_def)
  have "view_inv (cache_view s) \<Longrightarrow> view_bal (cache_view s) (cache_view ?d)"
    by (subst cache_deleted_view [OF views(1)]) (auto intro!: bal_next)
  then have "view_bal (cache_view s) (cache_view ?d)"
    by (auto simp: view_bal_def [of "cache_view s"])
  with db show "ensures (cache_got name s)
           (bindp (delete_CacheConn (next_conn s)) (\<lambda>_. Ret None)) t"
    by (simp add: delete_CacheConn_def modS_def cache_got_def balanced_def http)
  let ?g = "set_cache_pool name (cache_grow (next_conn s)) t"
  have "cache_view (set_cache_pool name cache_pop ?g) = lv_count name (lv_create name (cache_view s))"
    using cache_pop_grow_view [OF views(3) assms(2)] views(1) by simp
  then have "lent name (next_conn s) (cache_view s) (cache_view (set_cache_pool name cache_pop ?g))"
    using lent_create [of "cache_view s" name] assms(1) by simp
  moreover have "view_bal (db_view s) (db_view (set_cache_pool name cache_pop ?g))"
    using views(2) by (intro bal_next) simp_all
  ultimately have "cache_got name s (Some (next_conn s)) (set_cache_pool name cache_pop ?g)"
    by (simp add: cache_got_def cache_lent_def http)
  moreover have "cache_pool_map ?g name = Some (cache_grow (next_conn s) p)"
      "free_list (cache_grow (next_conn s) p) = [next_conn s]"
    using views(3) assms(2) by (simp_all add: set_cache_pool_def cache_grow_def cache_push_def)
  ultimately show "ensures (cache_got name s)
           (bindp (modS (set_cache_pool name (cache_grow (next_conn s)))) (\<lambda>_. cache_take_front name)) t"
    by (simp add: cache_take_front_def the_cache_pool_def modS_def)
qed

lemma CachePool_GetCacheConn_got: "ensures (cache_got name s) (CachePool_GetCacheConn name ms) s"
proof (cases "cache_pool_map s name")
  case None
  then show ?thesis by (simp add: CachePool_GetCacheConn_def the_cache_pool_def)
next
  case (Some p)
  have none: "cache_got name s None s"
    by (simp add: cache_got_def balanced_def)
  have created: "ensures (cache_got name s)
      (bindp (new_CacheConn name p) (\<lambda>c. bindp (CacheConn_Init (Some c)) (\<lambda>ret.
         if ret \<noteq> 0 then bindp (delete_CacheConn c) (\<lambda>_. Ret None)
         else bindp (modS (set_cache_pool name (cache_grow c))) (\<lambda>_. cache_take_front name)))) s"
    if free: "free_list p = []"
  proof -
    have "ensures (cache_got name s)
        (bindp (CacheConn_Init (Some (next_conn s))) (\<lambda>ret.
           if ret \<noteq> 0 then bindp (delete_CacheConn (next_conn s)) (\<lambda>_. Ret None)
           else bindp (modS (set_cache_pool name (cache_grow (next_conn s)))) (\<lambda>_. cache_take_front name)))
        (cache_created name p s)"
    proof (rule ensures_bindp)
      show "ensures (\<lambda>a. same_views (cache_created name p s)) (CacheConn_Init (Some (next_conn s))) (cache_created name p s)"
        using keeps_Init_same_views by (simp add: keeps_def)
    qed (use cache_fresh_got [OF Some free] in auto)
    then show ?thesis
      by (simp add: new_CacheConn_def cache_created_def)
  qed
  show ?thesis
    using cache_take_front_got [OF Some] none created Some
    by (auto simp: CachePool_GetCacheConn_def the_cache_pool_def Let_def)
qed

section \<open>Scopes\<close>

lemma db_release_balanced:
  assumes "db_lent name c s t" and "balanced t u"
  shows "ensures (\<lambda>_. balanced s) (CDBManager_RelDBConn (Some c)) u"
proof -
  have cache: "view_bal (cache_view s) (cache_view u)"
    using assms view_bal_trans by (auto simp: db_lent_def balanced_def)
  have http: "http_part u = http_part s"
    using assms by (simp add: db_lent_def balanced_def)
  have give: "view_bal (db_view s) (lv_give name c (db_view u))"
    using assms bal_give by (auto simp: db_lent_def balanced_def)
  have owner: "dbc_pool conn = name" if "db_heap u c = Some conn" "view_inv (db_view s)" for conn
  proof -
    have "view_inv (db_view t)" "lv_owner (db_view t) c = Some name"
      using assms(1) that(2) by (auto simp: db_lent_def lent_def)
    then have "lv_owner (db_view u) c = Some name"
      using assms(2) view_invD(3) [of "db_view t" c name]
      by (auto simp: balanced_def view_bal_def same_pools_def simp del: view_lookups)
    with that(1) show ?thesis by simp
  qed
  have absent: "lv_give name c (db_view u) = db_view u" if "dbpool_map u name = None"
    using that by (auto simp: lv_give_def db_view_def fun_eq_iff)
  show ?thesis
  proof (cases "view_inv (db_view s)")
    case True
    then show ?thesis
      using cache give owner absent http
      by (auto simp: CDBManager_RelDBConn_def the_db_conn_def CDBPool_RelDBConn_def modS_def balanced_def
          split: option.splits)
  next
    case False
    then show ?thesis
      using cache http
      by (auto simp: CDBManager_RelDBConn_def the_db_conn_def CDBPool_RelDBConn_def modS_def balanced_def
          view_bal_def [of "db_view s"] split: option.splits)
  qed
qed

lemma keeps_with_db_conn [intro!]:
  assumes "\<And>p. keeps balanced (body p)"
  shows "keeps balanced (with_db_conn name body)"
  unfolding keeps_def with_db_conn_def
proof
  fix s
  have got: "ensures (db_got name s) (CDBManager_GetDBConn name) s"
    using CDBPool_GetDBConn_got [of name s 0]
    by (auto simp: CDBManager_GetDBConn_def db_got_def balanced_def split: option.splits)
  show "ensures (\<lambda>a. balanced s)
      (bindp (CDBManager_GetDBConn name) (\<lambda>p. bindp (body p) (\<lambda>a. bindp (CDBManager_RelDBConn p) (\<lambda>_. Ret a)))) s"
  proof (rule ensures_bindp [OF got])
    fix p t assume g: "db_got name s p t"
    have body: "ensures (\<lambda>a. balanced t) (body p) t"
      using assms by (simp add: keeps_def)
    show "ensures (\<lambda>a. balanced s) (bindp (body p) (\<lambda>a. bindp (CDBManager_RelDBConn p) (\<lambda>_. Ret a))) t"
    proof (rule ensures_bindp [OF body])
      fix a u assume u: "balanced t u"
      show "ensures (\<lambda>a. balanced s) (bindp (CDBManager_RelDBConn p) (\<lambda>_. Ret a)) u"
      proof (cases p)
        case None
        with g u show ?thesis
          by (simp add: CDBManager_RelDBConn_def db_got_def balanced_trans)
      next
        case (Some c)
        with g u db_release_balanced [of name c s t u] show ?thesis
          by (intro ensures_bindp [where Q = "\<lambda>_. balanced s"]) (simp_all add: db_got_def)
      qed
    qed
  qed
qed

lemma cache_release_balanced:
  assumes "cache_lent name c s t" and "balanced t u"
  shows "ensures (\<lambda>_. balanced s) (CacheManager_RelCacheConn (Some c)) u"
proof -
  have db: "view_bal (db_view s) (db_view u)"
    using assms view_bal_trans by (auto simp: cache_lent_def balanced_def)
  have http: "http_part u = http_part s"
    using assms by (simp add: cache_lent_def balanced_def)
  have give: "view_bal (cache_view s) (lv_give name c (cache_view u))"
    using assms bal_give by (auto simp: cache_lent_def balanced_def)
  have owner: "cc_pool conn = name" if "cache_heap u c = Some conn" "view_inv (cache_view s)" for conn
  proof -
    have "view_inv (cache_view t)" "lv_owner (cache_view t) c = Some name"
      using assms(1) that(2) by (auto simp: cache_lent_def lent_def)
    then have "lv_owner (cache_view u) c = Some name"
      using assms(2) view_invD(3) [of "cache_view t" c name]
      by (auto simp: balanced_def view_bal_def same_pools_def simp del: view_lookups)
    with that(1) show ?thesis by simp
  qed
  have absent: "lv_give name c (cache_view u) = cache_view u" if "cache_pool_map u name = None"
    using that by (auto simp: lv_give_def cache_view_def fun_eq_iff)
  show ?thesis
  proof (cases "view_inv (cache_view s)")
    case True
    then show ?thesis
      using db give owner absent http
      by (auto simp: CacheManager_RelCacheConn_def the_cache_conn_def CachePool_RelCacheConn_def modS_def
          balanced_def split: option.splits)
  next
    case False
    then show ?thesis
      using db http
      by (auto simp: CacheManager_RelCacheConn_def the_cache_conn_def CachePool_RelCacheConn_def modS_def
          balanced_def view_bal_def [of "cache_view s"] split: option.splits)
  qed
qed

lemma keeps_with_cache_conn [intro!]:
  assumes "\<And>p. keeps balanced (body p)"
  shows "keeps balanced (with_cache_conn name body)"
  unfolding keeps_def with_cache_conn_def
proof
  fix s
  have got: "ensures (cache_got name s) (CacheManager_GetCacheConn name) s"
    using CachePool_GetCacheConn_got [of name s 0]
    by (auto simp: CacheManager_GetCacheConn_def cache_got_def balanced_def split: option.splits)
  show "ensures (\<lambda>a. balanced s)
      (bindp (CacheManager_GetCacheConn name) (\<lambda>p. bindp (body p) (\<lambda>a. bindp (CacheManager_RelCacheConn p) (\<lambda>_. Ret a)))) s"
  proof (rule ensures_bindp [OF got])
    fix p t assume g: "cache_got name s p t"
    have body: "ensures (\<lambda>a. balanced t) (body p) t"
      using assms by (simp add: keeps_def)
    show "ensures (\<lambda>a. balanced s) (bindp (body p) (\<lambda>a. bindp (CacheManager_RelCacheConn p) (\<lambda>_. Ret a))) t"
    proof (rule ensures_bindp [OF body])
      fix a u assume u: "balanced t u"
      show "ensures (\<lambda>a. balanced s) (bindp (CacheManager_RelCacheConn p) (\<lambda>_. Ret a)) u"
      proof (cases p)
        case None
        with g u show ?thesis
          by (simp add: CacheManager_RelCacheConn_def cache_got_def balanced_trans)
      next
        case (Some c)
        with g u cache_release_balanced [of name c s t u] show ?thesis
          by (intro ensures_bindp [where Q = "\<lambda>_. balanced s"]) (simp_all add: cache_got_def)
      qed
    qed
  qed
qed

section \<open>What the handlers use\<close>

lemma balanced_heap_updates [simp]:
  "balanced s (row_num_update_at c n s)" "balanced s (cache_update_at c (cc_context_update f) s)"
  "balanced s (cache_update_at c (cc_last_connect_update g) s)"
  by (simp_all add: balanced_def)

lemma keeps_balanced_db [simp]:
  "keeps balanced (CDBConn_ExecuteCreate p q)" "keeps balanced (CDBConn_ExecutePassQuery p q)"
  "keeps balanced (CDBConn_ExecuteDrop p q)" "keeps balanced (CDBConn_ExecuteQuery p q)"
  "keeps balanced (CDBConn_ExecuteUpdate p q care)" "keeps balanced (CDBConn_GetRowNum p)"
  "keeps balanced (CPrepareStatement_run p q ps)"
  by (simp_all add: keeps_CDBConn)

lemma keeps_balanced_command:
  assumes "\<And>r. keeps balanced (k r)"
  shows "keeps balanced (command p fail argv k)" "keeps balanced (zcommand p fail argv k)"
  by (rule keeps_command; simp add: assms)+

lemma keeps_balanced_Init [simp]: "keeps balanced (CacheConn_Init p)"
  by (rule keeps_CacheConn_Init) simp_all

lemma keeps_balanced_cache [simp]:
  "keeps balanced (CacheConn_Get p key)" "keeps balanced (CacheConn_Set p key val)"
  "keeps balanced (CacheConn_SetEx p key n val)" "keeps balanced (CacheConn_Incr p key)"
  "keeps balanced (CacheConn_Decr p key i)" "keeps balanced (CacheConn_Hdel p key fl)"
  "keeps balanced (CacheConn_Hget p key fl)" "keeps balanced (CacheConn_Hget_buf p key fl cap)"
  "keeps balanced (CacheConn_Hset p key fl val)" "keeps balanced (CacheConn_Del p key)"
  by (auto simp: CacheConn_Get_def CacheConn_Set_def CacheConn_SetEx_def CacheConn_Incr_def
      CacheConn_Decr_def CacheConn_Hdel_def CacheConn_Hget_def CacheConn_Hget_buf_def
      CacheConn_Hset_def CacheConn_Del_def Let_def split: option.splits redis_reply.splits
      intro!: keeps_bindp keeps_balanced_command)

lemma keeps_copy_values [simp]: "keeps balanced (copy_values rs)"
  by (induction rs) (auto intro!: keeps_bindp)

lemma keeps_balanced_zset [simp]:
  "keeps balanced (CacheConn_ZsetExit p key m)" "keeps balanced (CacheConn_ZsetAdd p key n m)"
  "keeps balanced (CacheConn_ZsetZrem p key m)" "keeps balanced (CacheConn_ZsetIncr p key m)"
  "keeps balanced (CacheConn_ZsetZcard p key)" "keeps balanced (CacheConn_ZsetGetScore p key m)"
  "keeps balanced (CacheConn_ZsetZrevrange p key i j)"
  by (auto simp: CacheConn_ZsetExit_def CacheConn_ZsetAdd_def CacheConn_ZsetZrem_def
      CacheConn_ZsetIncr_def CacheConn_ZsetZcard_def CacheConn_ZsetGetScore_def
      CacheConn_ZsetZrevrange_def Let_def intro!: keeps_bindp keeps_balanced_command)

lemma calls_with_db_conn [intro!]:
  assumes "conn_ok P" and "\<And>p. calls P (body p)"
  shows "calls P (with_db_conn name body)"
proof -
  have "P (EvMysqlConnect ps)" for ps
    using assms(1) by (simp add: conn_ok_def conn_event_def)
  then have "calls P (CDBManager_GetDBConn name)"
    by (auto simp: CDBManager_GetDBConn_def CDBPool_GetDBConn_def the_db_pool_def new_CDBConn_def
        delete_CDBConn_def db_take_front_def Let_def split: option.splits list.splits intro!: calls_bindpI)
  moreover have "calls P (CDBManager_RelDBConn p)" for p
    by (auto simp: CDBManager_RelDBConn_def CDBPool_RelDBConn_def split: option.splits)
  ultimately show ?thesis
    using assms(2) by (auto simp: with_db_conn_def intro!: calls_bindpI)
qed

lemma calls_with_cache_conn [intro!]:
  assumes "conn_ok P" and "\<And>p. calls P (body p)"
  shows "calls P (with_cache_conn name body)"
proof -
  have "calls P (CacheManager_GetCacheConn name)"
    using assms(1)
    by (auto simp: CacheManager_GetCacheConn_def CachePool_GetCacheConn_def the_cache_pool_def
        new_CacheConn_def delete_CacheConn_def cache_take_front_def Let_def
        split: option.splits list.splits intro!: calls_bindpI)
  moreover have "calls P (CacheManager_RelCacheConn p)" for p
    by (auto simp: CacheManager_RelCacheConn_def CachePool_RelCacheConn_def split: option.splits)
  ultimately show ?thesis
    using assms(2) by (auto simp: with_cache_conn_def intro!: calls_bindpI)
qed

lemma results_with_conn [intro!]:
  "(\<And>p. results Q (body p)) \<Longrightarrow> results Q (with_db_conn name body)"
  "(\<And>p. results Q (body p)) \<Longrightarrow> results Q (with_cache_conn cname body)"
  unfolding with_db_conn_def with_cache_conn_def
  by (rule results_bindpI, rule results_bindp [where Q = Q], assumption, rule results_bindpI, simp)+

text \<open>A borrow from a pool with a free connection, and what the scope leaves behind.\<close>

lemma run_with_db_conn:
  assumes "dbpool_map s name = Some p" and "\<not> db_abort p" and "db_free_list p = c # cs"
  shows "run E (with_db_conn name body) s w =
           then_run (run E (body (Some c)) (set_db_pool name db_pop s) w)
             (\<lambda>a. run E (bindp (CDBManager_RelDBConn (Some c)) (\<lambda>_. Ret a)))"
  using assms
  by (simp add: with_db_conn_def CDBManager_GetDBConn_def CDBPool_GetDBConn_def the_db_pool_def
      db_take_front_def)

lemma run_with_cache_conn:
  assumes "cache_pool_map s name = Some p" and "\<not> abort_request p" and "free_list p = c # cs"
  shows "run E (with_cache_conn name body) s w =
           then_run (run E (body (Some c)) (set_cache_pool name cache_pop s) w)
             (\<lambda>a. run E (bindp (CacheManager_RelCacheConn (Some c)) (\<lambda>_. Ret a)))"
  using assms
  by (simp add: with_cache_conn_def CacheManager_GetCacheConn_def CachePool_GetCacheConn_def
      the_cache_pool_def cache_take_front_def)

lemma run_with_no_pool:
  "dbpool_map s name = None \<Longrightarrow>
     run E (with_db_conn name body) s w = run E (body None) s w"
  "cache_pool_map s cname = None \<Longrightarrow>
     run E (with_cache_conn cname cbody) s w = run E (cbody None) s w"
  by (simp_all add: with_db_conn_def CDBManager_GetDBConn_def CDBManager_RelDBConn_def
      with_cache_conn_def CacheManager_GetCacheConn_def CacheManager_RelCacheConn_def)

text \<open>A scope that returned ran its body to the end.\<close>

lemma run_with_conn_Done:
  "run E (with_db_conn name body) s w = (Done a, s', w') \<Longrightarrow>
     \<exists>p s1 w1 s2 w2. run E (body p) s1 w1 = (Done a, s2, w2)"
  "run E (with_cache_conn name body) s w = (Done a, s', w') \<Longrightarrow>
     \<exists>p s1 w1 s2 w2. run E (body p) s1 w1 = (Done a, s2, w2)"
  by (auto simp: with_db_conn_def with_cache_conn_def then_run_Done_iff) blast+

end
