(* ===== verification/Common.thy ===== *)
theory Common
  imports Lending
begin

text \<open>
  base/common.cc: trimming, the query string parser, the file suffix, the token check, the random
  string, and the three helpers that run one SELECT. A char array argument is the string in it and,
  where the function writes without a bound, the size of the array.
\<close>

definition SQL_MAX_LEN :: nat where
  "SQL_MAX_LEN = 512"

definition TEMP_BUF_MAX_LEN :: nat where
  "TEMP_BUF_MAX_LEN = 512"

definition HTTP_RESP_OK :: int where "HTTP_RESP_OK = 0"
definition HTTP_RESP_FAIL :: int where "HTTP_RESP_FAIL = 1"
definition HTTP_RESP_USER_EXIST :: int where "HTTP_RESP_USER_EXIST = 2"
definition HTTP_RESP_DEALFILE_EXIST :: int where "HTTP_RESP_DEALFILE_EXIST = 3"
definition HTTP_RESP_TOKEN_ERR :: int where "HTTP_RESP_TOKEN_ERR = 4"
definition HTTP_RESP_FILE_EXIST :: int where "HTTP_RESP_FILE_EXIST = 5"

lemmas http_resp_defs = HTTP_RESP_OK_def HTTP_RESP_FAIL_def HTTP_RESP_USER_EXIST_def
  HTTP_RESP_DEALFILE_EXIST_def HTTP_RESP_TOKEN_ERR_def HTTP_RESP_FILE_EXIST_def

section \<open>Strings\<close>

text \<open>
  The loop indices of TrimSpace: i skips the spaces at the front, j those at the end but not
  beyond i. On an empty text j starts at -1 and str[-1] is read.
\<close>

fun trim_back :: "string \<Rightarrow> nat \<Rightarrow> nat \<Rightarrow> nat" where
  "trim_back str i 0 = 0"
| "trim_back str i (Suc j) = (if isspace (str ! Suc j) \<and> i < Suc j then trim_back str i j else Suc j)"

definition TrimSpace :: "string \<Rightarrow> ('s, int \<times> string) proc" where
  "TrimSpace inbuf =
     (let str = c_str inbuf in
      if str = [] then Fault OutOfBounds
      else
        (let i = length (takeWhile isspace str);
             j = trim_back str i (length str - 1);
             count = Suc j - i
         in Ret (0, take count (drop i str))))"

definition stop_char :: "char \<Rightarrow> bool" where
  "stop_char c \<longleftrightarrow> c = CHR ''#'' \<or> c = CHR ''&''"

text \<open>
  The value of a key: what follows the first occurrence of the key anywhere in the query and one
  more character, up to # or &. The result is the return code with the value and its length.
\<close>

definition QueryParseKeyValue :: "string \<Rightarrow> string \<Rightarrow> nat \<Rightarrow> ('s, (string \<times> int) option) proc" where
  "QueryParseKeyValue query key cap =
     (case strstr (c_str query) (c_str key) of
        None \<Rightarrow> Ret None
      | Some found \<Rightarrow>
          (case drop (length (c_str key)) found of
             [] \<Rightarrow> Fault OutOfBounds
           | _ # rest \<Rightarrow>
               (let val = takeWhile (\<lambda>c. \<not> stop_char c) rest
                in bindp (strncpy_buf cap val) (\<lambda>v. Ret (Some (v, int (length v)))))))"

text \<open>The text after the last dot: k walks back from the end to the dot or the start.\<close>

fun after_last_dot :: "string \<Rightarrow> string option" where
  "after_last_dot [] = None"
| "after_last_dot (c # s) =
     (case after_last_dot s of Some t \<Rightarrow> Some t | None \<Rightarrow> if c = CHR ''.'' then Some s else None)"

definition GetFileSuffix :: "string option \<Rightarrow> nat \<Rightarrow> ('s, int \<times> string option) proc" where
  "GetFileSuffix file_name cap =
     (case file_name of
        None \<Rightarrow> Ret (- 1, None)
      | Some name \<Rightarrow>
          (case after_last_dot (c_str name) of
             Some sfx \<Rightarrow>
               if sfx \<noteq> [] then bindp (strncpy_buf cap sfx) (\<lambda>v. Ret (0, Some v))
               else bindp (strncpy_buf cap ''null'') (\<lambda>v. Ret (0, Some v))
           | None \<Rightarrow> bindp (strncpy_buf cap ''null'') (\<lambda>v. Ret (0, Some v))))"

fun RandomString :: "nat \<Rightarrow> string prog" where
  "RandomString 0 = Ret []"
| "RandomString (Suc n) =
     Os OsRand (\<lambda>r. bindp (RandomString n) (\<lambda>s. Ret (char_of (97 + nat (os_int r mod 26)) # s)))"

text \<open>The array cmd has 20 bytes and no initial value; a URL without cmd leaves it unset.\<close>

definition read_cmd :: "string \<Rightarrow> string prog" where
  "read_cmd url =
     bindp (QueryParseKeyValue url ''cmd'' 20) (\<lambda>r. init_read (map_option fst r))"

section \<open>Token check\<close>

definition VerifyToken :: "string \<Rightarrow> string \<Rightarrow> int prog" where
  "VerifyToken user_name token =
     with_cache_conn ''token'' (\<lambda>cache_conn.
       if cache_conn = None then Ret (- 1)
       else
         bindp (CacheConn_Get cache_conn user_name) (\<lambda>tmp_token.
         if tmp_token = token then Ret 0 else Ret (- 1)))"

section \<open>One SELECT\<close>

definition GetResultOneCount :: "conn_ptr \<Rightarrow> string \<Rightarrow> int \<Rightarrow> (int \<times> int) prog" where
  "GetResultOneCount db_conn sql_cmd count =
     bindp (CDBConn_ExecuteQuery db_conn sql_cmd) (\<lambda>pResultSet.
     bindp (deref pResultSet) (\<lambda>rs.
       case CResultSet_Next rs of (found, rs') \<Rightarrow>
         if count = 0 then
           if found then bindp (CResultSet_GetInt rs' ''count'') (\<lambda>n. Ret (0, n))
           else Ret (1, count)
         else Ret (if found then 2 else 1, count)))"

definition CheckwhetherHaveRecord :: "conn_ptr \<Rightarrow> string \<Rightarrow> int prog" where
  "CheckwhetherHaveRecord db_conn sql_cmd =
     bindp (CDBConn_ExecuteQuery db_conn sql_cmd) (\<lambda>pResultSet.
       case pResultSet of
         None \<Rightarrow> Ret (- 1)
       | Some rs \<Rightarrow> Ret (if fst (CResultSet_Next rs) then 1 else 0))"

definition GetResultOneStatus :: "conn_ptr \<Rightarrow> string \<Rightarrow> int \<Rightarrow> (int \<times> int) prog" where
  "GetResultOneStatus db_conn sql_cmd shared_status =
     bindp (CDBConn_ExecuteQuery db_conn sql_cmd) (\<lambda>pResultSet.
     bindp (deref pResultSet) (\<lambda>rs.
       case CResultSet_Next rs of (found, rs') \<Rightarrow>
         if found then bindp (CResultSet_GetInt rs' ''shared_status'') (\<lambda>n. Ret (0, n))
         else Ret (- 1, shared_status)))"

section \<open>Properties of the string functions\<close>

lemma after_last_dot_None: "after_last_dot s = None \<longleftrightarrow> CHR ''.'' \<notin> set s"
  by (induction s) (auto split: option.splits)

lemma after_last_dot_append:
  "CHR ''.'' \<notin> set sfx \<Longrightarrow> after_last_dot (base @ CHR ''.'' # sfx) = Some sfx"
proof (induction base)
  case Nil
  then have "after_last_dot sfx = None" by (simp add: after_last_dot_None)
  then show ?case by simp
qed simp

lemma trim_back_spec:
  "i \<le> j \<Longrightarrow> trim_back str i j = i + length (dropWhile isspace (rev (take (j - i) (drop (Suc i) str))))"
  if "j < length str"
  using that
proof (induction j)
  case (Suc j)
  show ?case
  proof (cases "i = Suc j")
    case True
    then show ?thesis by simp
  next
    case False
    with Suc.prems have "i \<le> j" by simp
    moreover have "take (Suc j - i) (drop (Suc i) str) = take (j - i) (drop (Suc i) str) @ [str ! Suc j]"
      using Suc.prems \<open>i \<le> j\<close> by (simp add: Suc_diff_le take_Suc_conv_app_nth)
    ultimately show ?thesis
      using Suc by auto
  qed
qed simp

definition strip :: "string \<Rightarrow> string" where
  "strip s = rev (dropWhile isspace (rev (dropWhile isspace s)))"

lemma take_rev_dropWhile: "take (length (dropWhile P (rev t))) t = rev (dropWhile P (rev t))"
  by (simp add: dropWhile_eq_drop rev_drop)

lemma TrimSpace_strip:
  assumes "c_str s \<noteq> []"
  shows "TrimSpace s = Ret (0, strip (c_str s))"
proof -
  let ?str = "c_str s"
  let ?i = "length (takeWhile isspace ?str)"
  have mid: "drop ?i ?str = dropWhile isspace ?str"
    by (simp add: dropWhile_eq_drop)
  show ?thesis
  proof (cases "dropWhile isspace ?str")
    case Nil
    with mid assms have "drop ?i ?str = []" by simp
    moreover have "strip ?str = []" unfolding strip_def Nil by simp
    ultimately show ?thesis
      using assms by (simp add: TrimSpace_def Let_def)
  next
    case (Cons c t)
    have c: "\<not> isspace c" using Cons by (rule dropWhile_eq_Cons_conv [THEN iffD1, THEN conjunct2])
    have lens: "length ?str = Suc (?i + length t)"
      using arg_cong [OF mid, of length] Cons by simp
    have "drop (Suc ?i) ?str = t"
      using mid Cons by (metis drop_Suc tl_drop list.sel(3))
    then have "trim_back ?str ?i (length ?str - 1) = ?i + length (dropWhile isspace (rev t))"
      using lens by (subst trim_back_spec) simp_all
    moreover have "strip ?str = c # rev (dropWhile isspace (rev t))"
      using Cons c by (simp add: strip_def dropWhile_append)
    ultimately show ?thesis
      using assms mid Cons take_rev_dropWhile [of isspace t] by (simp add: TrimSpace_def Let_def Suc_diff_le)
  qed
qed

text \<open>
  A query that starts with key=value gives that value; one in which the key first occurs elsewhere,
  inside another name for instance, gives what follows it there.
\<close>

lemma QueryParseKeyValue_first:
  assumes "nul_free (key @ CHR ''='' # val @ rest)" and "\<forall>c \<in> set val. \<not> stop_char c"
    and "rest = [] \<or> stop_char (hd rest)" and "length val < cap"
  shows "QueryParseKeyValue (key @ CHR ''='' # val @ rest) key cap = Ret (Some (val, int (length val)))"
proof -
  have "strstr (key @ CHR ''='' # val @ rest) key = Some (key @ CHR ''='' # val @ rest)"
    by (rule strstr_at_start) simp
  moreover have "takeWhile (\<lambda>c. \<not> stop_char c) (val @ rest) = val"
    using assms(2,3) by (cases rest) (auto simp: takeWhile_append)
  moreover have "nul_free key" "nul_free (key @ CHR ''='' # val @ rest)"
    using assms(1) by simp_all
  ultimately show ?thesis
    using assms(4) by (simp add: QueryParseKeyValue_def strncpy_buf_def del: nul_free_append)
qed

lemma GetFileSuffix_last_dot:
  assumes "nul_free (base @ CHR ''.'' # sfx)" and "CHR ''.'' \<notin> set sfx" and "sfx \<noteq> []" and "length sfx < cap"
  shows "GetFileSuffix (Some (base @ CHR ''.'' # sfx)) cap = Ret (0, Some sfx)"
proof -
  have "c_str (base @ CHR ''.'' # sfx) = base @ CHR ''.'' # sfx"
    using assms(1) by (rule c_str_id)
  with assms after_last_dot_append [of sfx base] show ?thesis
    by (simp add: GetFileSuffix_def strncpy_buf_def)
qed

section \<open>What the helpers ask, keep and return\<close>

lemma calls_string_helpers [simp]:
  "calls P (TrimSpace s)" "calls P (QueryParseKeyValue q k cap)" "calls P (GetFileSuffix f cap)"
  by (auto simp: TrimSpace_def QueryParseKeyValue_def GetFileSuffix_def Let_def
      split: option.splits list.splits intro!: calls_bindpI)

lemma keeps_string_helpers [simp]:
  assumes "reflp R" "transp R"
  shows "keeps R (TrimSpace s)" "keeps R (QueryParseKeyValue q k cap)" "keeps R (GetFileSuffix f cap)"
  using assms
  by (auto simp: TrimSpace_def QueryParseKeyValue_def GetFileSuffix_def Let_def
      split: option.splits list.splits intro!: keeps_bindp)

lemma calls_read_cmd [simp]: "calls P (read_cmd url)"
  by (auto simp: read_cmd_def intro!: calls_bindpI)

lemma keeps_read_cmd [simp]: "reflp R \<Longrightarrow> transp R \<Longrightarrow> keeps R (read_cmd url)"
  by (auto simp: read_cmd_def intro!: keeps_bindp)

lemma calls_RandomString: "P (EvOs OsRand) \<Longrightarrow> calls P (RandomString n)"
  by (induction n) (auto intro!: calls_bindpI)

lemma keeps_RandomString [simp]: "keeps balanced (RandomString n)"
  by (induction n) (auto intro!: keeps_bindp)

lemma results_RandomString:
  "results (\<lambda>s. length s = n \<and> (\<forall>c \<in> set s. CHR ''a'' \<le> c \<and> c \<le> CHR ''z'')) (RandomString n)"
proof (induction n)
  case (Suc n)
  have "CHR ''a'' \<le> char_of (97 + nat (i mod 26)) \<and> char_of (97 + nat (i mod 26)) \<le> CHR ''z''" for i :: int
  proof -
    have "nat (i mod 26) < 26" by (simp add: nat_less_iff)
    then show ?thesis by (simp add: less_eq_char_def)
  qed
  then show ?case
    by (auto intro!: results_bindp [OF Suc.IH])
qed simp

lemma results_select_helpers [simp]:
  "results (\<lambda>r. fst r \<in> {0, 1, 2}) (GetResultOneCount p q n)"
  "results (\<lambda>r. r \<in> {- 1, 0, 1}) (CheckwhetherHaveRecord p q)"
  "results (\<lambda>r. fst r \<in> {- 1, 0}) (GetResultOneStatus p q n)"
  "results (\<lambda>r. r \<in> {- 1, 0}) (VerifyToken u t)"
  by (auto simp: GetResultOneCount_def CheckwhetherHaveRecord_def GetResultOneStatus_def VerifyToken_def
      split: prod.splits option.splits intro!: results_bindpI)

lemma calls_select_helpers [simp]:
  assumes "P (EvMysql (c_str q))"
  shows "calls P (GetResultOneCount p q n)" "calls P (CheckwhetherHaveRecord p q)"
    "calls P (GetResultOneStatus p q n)"
  using assms
  by (auto simp: GetResultOneCount_def CheckwhetherHaveRecord_def GetResultOneStatus_def
      split: prod.splits option.splits intro!: calls_bindpI)

lemma keeps_select_helpers [simp]:
  "keeps balanced (GetResultOneCount p q n)" "keeps balanced (CheckwhetherHaveRecord p q)"
  "keeps balanced (GetResultOneStatus p q n)" "keeps balanced (VerifyToken u t)"
  by (auto simp: GetResultOneCount_def CheckwhetherHaveRecord_def GetResultOneStatus_def VerifyToken_def
      split: prod.splits option.splits intro!: keeps_bindp)

lemma calls_VerifyToken:
  "conn_ok P \<Longrightarrow> P (EvRedis [''GET'', c_str u]) \<Longrightarrow> calls P (VerifyToken u t)"
  by (auto simp: VerifyToken_def intro!: calls_bindpI)

end
