(* ===== verification/Api_Common.thy ===== *)
theory Api_Common
  imports Common
begin

text \<open>
  api/api_common.cc: the counters kept in Redis, their recomputation from MySQL, the start-up call
  ApiInit and the removal of a file from FastDFS. The texts of the SQL statements are definitions
  of their own, in the collection sql_text.
\<close>


definition FILE_PUBLIC_COUNT :: string where "FILE_PUBLIC_COUNT = ''FILE_PUBLIC_COUNT''"
definition FILE_USER_COUNT :: string where "FILE_USER_COUNT = ''FILE_USER_COUNT''"
definition FILE_PUBLIC_ZSET :: string where "FILE_PUBLIC_ZSET = ''FILE_PUBLIC_ZSET''"
definition FILE_NAME_HASH :: string where "FILE_NAME_HASH = ''FILE_NAME_HASH''"
definition SHARE_PIC_COUNT :: string where "SHARE_PIC_COUNT = ''SHARE_PIC_COUNT''"

section \<open>Counters in Redis\<close>

definition CacheSetCount :: "conn_ptr \<Rightarrow> string \<Rightarrow> int \<Rightarrow> int prog" where
  "CacheSetCount cache_conn key count =
     bindp (CacheConn_Set cache_conn key (show_int count)) (\<lambda>ret. Ret (if ret \<noteq> [] then 0 else - 1))"

text \<open>The result is the return code and the output parameter.\<close>

definition CacheGetCount :: "conn_ptr \<Rightarrow> string \<Rightarrow> (int \<times> int) prog" where
  "CacheGetCount cache_conn key =
     bindp (CacheConn_Get cache_conn key) (\<lambda>str_count.
     Ret (if str_count \<noteq> [] then (0, atoll (c_str str_count)) else (- 1, 0)))"

definition CacheIncrCount :: "conn_ptr \<Rightarrow> string \<Rightarrow> int prog" where
  "CacheIncrCount cache_conn key =
     bindp (CacheConn_Incr cache_conn key) (\<lambda>(ret, count). Ret (if ret < 0 then - 1 else 0))"

definition CacheDecrCount :: "conn_ptr \<Rightarrow> string \<Rightarrow> int prog" where
  "CacheDecrCount cache_conn key =
     bindp (CacheConn_Decr cache_conn key 0) (\<lambda>(ret, count).
       if ret < 0 then Ret (- 1)
       else if count < 0 then
         bindp (CacheSetCount cache_conn key 0) (\<lambda>ret. Ret (if ret < 0 then - 1 else 0))
       else Ret 0)"

section \<open>Counts from MySQL\<close>

definition sql_user_files_count :: "string \<Rightarrow> string" where
  [sql_text]: "sql_user_files_count user =
     FormatString (''select count(*) from user_file_list where user='%s'' @ [CHR 0x27]) [PStr user]"

definition sql_share_pictures_count :: "string \<Rightarrow> string" where
  [sql_text]: "sql_share_pictures_count user =
     FormatString (''select count(*) from share_picture_list where user='%s'' @ [CHR 0x27]) [PStr user]"

definition sql_share_files_count :: string where
  [sql_text]: "sql_share_files_count = ''select count(*) from share_file_list''"

text \<open>The three functions differ in the statement: ret and count.\<close>

definition DBGetCount :: "conn_ptr \<Rightarrow> string \<Rightarrow> (int \<times> int) prog" where
  "DBGetCount db_conn str_sql =
     bindp (CDBConn_ExecuteQuery db_conn str_sql) (\<lambda>pResultSet.
       case pResultSet of
         None \<Rightarrow> Ret (- 1, 0)
       | Some rs \<Rightarrow>
           (case CResultSet_Next rs of (found, rs') \<Rightarrow>
              if found then bindp (CResultSet_GetInt rs' ''count(*)'') (\<lambda>n. Ret (0, n))
              else Ret (0, 0)))"

definition DBGetUserFilesCountByUsername :: "conn_ptr \<Rightarrow> string \<Rightarrow> (int \<times> int) prog" where
  "DBGetUserFilesCountByUsername db_conn user_name = DBGetCount db_conn (sql_user_files_count user_name)"

definition DBGetSharePictureCountByUsername :: "conn_ptr \<Rightarrow> string \<Rightarrow> (int \<times> int) prog" where
  "DBGetSharePictureCountByUsername db_conn user_name = DBGetCount db_conn (sql_share_pictures_count user_name)"

definition DBGetShareFilesCount :: "conn_ptr \<Rightarrow> (int \<times> int) prog" where
  "DBGetShareFilesCount db_conn = DBGetCount db_conn sql_share_files_count"

definition ApiInit :: "int prog" where
  "ApiInit =
     with_db_conn ''tuchuang_slave'' (\<lambda>db_conn.
     with_cache_conn ''token'' (\<lambda>cache_conn.
       bindp (DBGetShareFilesCount db_conn) (\<lambda>(ret, count).
       if ret < 0 then Ret (- 1)
       else
         bindp (CacheSetCount cache_conn FILE_PUBLIC_COUNT count) (\<lambda>ret.
         Ret (if ret < 0 then - 1 else 0)))))"

section \<open>FastDFS\<close>

definition RemoveFileFromFastDfs :: "string \<Rightarrow> int prog" where
  "RemoveFileFromFastDfs fileid =
     bindp (readS s_dfs_path_client) (\<lambda>client.
     bindp (sprintf_buf (1024 * 2) (c_printf ''fdfs_delete_file %s %s'' [PStr client, PStr fileid])) (\<lambda>cmd.
     Os (OsSystem cmd) (\<lambda>r. Ret (os_int r))))"

section \<open>What the operations ask, keep and return\<close>

lemma results_counts [simp]:
  "results (\<lambda>r. r \<in> {- 1, 0}) (CacheSetCount p k n)"
  "results (\<lambda>r. fst r \<in> {- 1, 0}) (CacheGetCount p k)"
  "results (\<lambda>r. r \<in> {- 1, 0}) (CacheIncrCount p k)"
  "results (\<lambda>r. r \<in> {- 1, 0}) (CacheDecrCount p k)"
  by (auto simp: CacheSetCount_def CacheGetCount_def CacheIncrCount_def CacheDecrCount_def
      intro!: results_bindpI)

lemma is_int32_0 [simp]: "is_int32 0"
  by (simp add: is_int32_def)

lemma results_DBGetCount: "results (\<lambda>r. fst r \<in> {- 1, 0} \<and> is_int32 (snd r)) (DBGetCount p q)"
  by (auto simp: DBGetCount_def split: option.splits prod.splits
      intro!: results_bindpI results_bindp [OF results_GetInt])

lemma calls_counts [simp]:
  assumes "conn_ok P"
  shows "P (EvRedis [''SET'', c_str k, show_int n]) \<Longrightarrow> calls P (CacheSetCount p k n)"
    "P (EvRedis [''GET'', c_str k]) \<Longrightarrow> calls P (CacheGetCount p k)"
    "P (EvRedis [''INCR'', c_str k]) \<Longrightarrow> calls P (CacheIncrCount p k)"
    "P (EvRedis [''DECR'', c_str k]) \<Longrightarrow> P (EvRedis [''SET'', c_str k, show_int 0]) \<Longrightarrow>
       calls P (CacheDecrCount p k)"
  using assms
  by (auto simp: CacheSetCount_def CacheGetCount_def CacheIncrCount_def CacheDecrCount_def
      intro!: calls_bindpI)

lemma calls_DBGetCount [simp]: "P (EvMysql (c_str q)) \<Longrightarrow> calls P (DBGetCount p q)"
  by (auto simp: DBGetCount_def split: option.splits prod.splits intro!: calls_bindpI)

lemma keeps_counts [simp]:
  "keeps balanced (CacheSetCount p k n)" "keeps balanced (CacheGetCount p k)"
  "keeps balanced (CacheIncrCount p k)" "keeps balanced (CacheDecrCount p k)"
  "keeps balanced (DBGetCount p q)" "keeps balanced (RemoveFileFromFastDfs f)"
  by (auto simp: CacheSetCount_def CacheGetCount_def CacheIncrCount_def CacheDecrCount_def
      DBGetCount_def RemoveFileFromFastDfs_def split: option.splits prod.splits intro!: keeps_bindp)

lemmas db_count_defs = DBGetUserFilesCountByUsername_def DBGetSharePictureCountByUsername_def
  DBGetShareFilesCount_def

section \<open>The counters against a Redis server\<close>

text \<open>
  A Redis string store, as far as the counters use it: INCR, DECR, GET and SET on decimal
  values. It is what the documentation of Redis says of the four commands, and serves as the
  concrete service of the properties below.
\<close>

definition redis_num :: "(string \<Rightarrow> string option) \<Rightarrow> string \<Rightarrow> int" where
  "redis_num m k = (case m k of None \<Rightarrow> 0 | Some v \<Rightarrow> strtol v)"

definition redis_strings :: "(string \<Rightarrow> string option) \<Rightarrow> string list \<Rightarrow>
    redis_reply option \<times> (string \<Rightarrow> string option)" where
  "redis_strings m argv =
     (case argv of
        [c, k] \<Rightarrow>
          if c = ''GET'' then (Some (case m k of None \<Rightarrow> RNil | Some v \<Rightarrow> RString v), m)
          else if c = ''INCR'' then
            (Some (RInteger (redis_num m k + 1)), m(k \<mapsto> show_int (redis_num m k + 1)))
          else if c = ''DECR'' then
            (Some (RInteger (redis_num m k - 1)), m(k \<mapsto> show_int (redis_num m k - 1)))
          else (Some (RError ''ERR''), m)
      | [c, k, v] \<Rightarrow> if c = ''SET'' then (Some (RStatus ''OK''), m(k \<mapsto> v)) else (Some (RError ''ERR''), m)
      | _ \<Rightarrow> (Some (RError ''ERR''), m))"

text \<open>A connected cache connection: the operations on it are single exchanges.\<close>

definition cache_live :: "srv \<Rightarrow> nat \<Rightarrow> bool" where
  "cache_live s c = (case cache_heap s c of None \<Rightarrow> False | Some cc \<Rightarrow> cc_context cc)"

lemma cache_liveE:
  assumes "cache_live s c"
  obtains cc where "cache_heap s c = Some cc" "cc_context cc"
  using assms by (auto simp: cache_live_def split: option.splits)

lemma run_command_live:
  assumes "cache_live s c"
  shows "run E (command (Some c) fail argv k) s w =
           (case env_redis E w argv of
              (None, w') \<Rightarrow> (Done fail, drop_context c s, w')
            | (Some r, w') \<Rightarrow> run E (k r) s w')"
  using assms by (rule cache_liveE) (rule run_command)

end
