(* ===== verification/Http_Response.thy ===== *)
theory Http_Response
  imports Api_Common
begin

text \<open>
  The response text (HTTP_RESPONSE_HTML and the snprintf into a buffer of HTTP_RESPONSE_HTML_MAX
  bytes that every request handler of http_conn.cc and ApiRegisterUser repeat) and the queue worker
  threads put responses into (CHttpConn::AddResponseData).
\<close>

definition crlf :: string where
  "crlf = [CHR 0x0D, CHR 0x0A]"

definition HTTP_RESPONSE_HTML :: string where
  "HTTP_RESPONSE_HTML =
     ''HTTP/1.1 200 OK'' @ crlf @ ''Connection:close'' @ crlf @ ''Content-Length:%d'' @ crlf @
     ''Content-Type:application/json;charset=utf-8'' @ crlf @ crlf @ ''%s''"

definition HTTP_RESPONSE_HTML_MAX :: nat where
  "HTTP_RESPONSE_HTML_MAX = 4096"

text \<open>snprintf of the length (a uint32_t printed with %d) and the body, read back as a C string.\<close>

definition http_response :: "string \<Rightarrow> string" where
  "http_response str_json =
     c_str (snprintf_buf HTTP_RESPONSE_HTML_MAX
       (c_printf HTTP_RESPONSE_HTML
          [PInt (to_int32 (int (length str_json))), PStr (c_str str_json)]))"

definition AddResponseData :: "int \<Rightarrow> string \<Rightarrow> unit prog" where
  "AddResponseData uuid data =
     modS (\<lambda>s. s\<lparr>s_response_pdu_list := s_response_pdu_list s @ [\<lparr>conn_uuid = uuid, resp_data = data\<rparr>]\<rparr>)"

lemma calls_AddResponseData [simp]: "calls P (AddResponseData u d)"
  by (simp add: AddResponseData_def)

lemma views_response_queue [simp]:
  "db_view (s_response_pdu_list_update f s) = db_view s"
  "cache_view (s_response_pdu_list_update f s) = cache_view s"
  by (simp_all add: db_view_def cache_view_def)

lemma keeps_AddResponseData [simp]: "keeps balanced (AddResponseData u d)"
  by (simp add: AddResponseData_def keeps_modS balanced_def)

text \<open>The header of a response to a body of n bytes.\<close>

definition response_header :: "nat \<Rightarrow> string" where
  "response_header n =
     ''HTTP/1.1 200 OK'' @ crlf @ ''Connection:close'' @ crlf @ ''Content-Length:'' @ show_int (int n) @ crlf @
     ''Content-Type:application/json;charset=utf-8'' @ crlf @ crlf"

lemma c_printf_response:
  "c_printf HTTP_RESPONSE_HTML [PInt n, PStr body] =
     ''HTTP/1.1 200 OK'' @ crlf @ ''Connection:close'' @ crlf @ ''Content-Length:'' @ show_int n @ crlf @
     ''Content-Type:application/json;charset=utf-8'' @ crlf @ crlf @ c_str body"
  by (simp add: HTTP_RESPONSE_HTML_def crlf_def)

lemma nul_free_response_header [simp]: "nul_free (response_header n)"
  by (simp add: response_header_def crlf_def NUL_def [symmetric]) (simp add: NUL_def)

text \<open>A body that fits is sent whole, with its own length in the header.\<close>

lemma http_response_fits:
  assumes "nul_free body" and "length (response_header (length body) @ body) < HTTP_RESPONSE_HTML_MAX"
  shows "http_response body = response_header (length body) @ body"
proof -
  have "is_int32 (int (length body))"
    using assms(2) by (simp add: is_int32_def HTTP_RESPONSE_HTML_MAX_def)
  then have "c_printf HTTP_RESPONSE_HTML [PInt (to_int32 (int (length body))), PStr (c_str body)] =
      response_header (length body) @ body"
    using assms(1) by (simp add: c_printf_response response_header_def to_int32_id)
  then show ?thesis
    using assms by (simp add: http_response_def snprintf_buf_def)
qed

text \<open>A longer one is cut to 4095 bytes in all, while the header still says its full length.\<close>

lemma http_response_truncated:
  assumes "nul_free body" and "HTTP_RESPONSE_HTML_MAX \<le> length (response_header (length body) @ body)"
    and "is_int32 (int (length body))"
  shows "http_response body = take (HTTP_RESPONSE_HTML_MAX - 1) (response_header (length body) @ body)"
    and "length (http_response body) = HTTP_RESPONSE_HTML_MAX - 1"
proof -
  have "c_printf HTTP_RESPONSE_HTML [PInt (to_int32 (int (length body))), PStr (c_str body)] =
      response_header (length body) @ body"
    using assms(1,3) by (simp add: c_printf_response response_header_def to_int32_id)
  moreover have "nul_free (take n (response_header (length body) @ body))" for n
    using assms(1) nul_free_response_header [of "length body"]
    by (auto simp: nul_free_def dest!: in_set_takeD)
  ultimately show "http_response body = take (HTTP_RESPONSE_HTML_MAX - 1) (response_header (length body) @ body)"
    by (simp add: http_response_def snprintf_buf_def del: take_append)
  then show "length (http_response body) = HTTP_RESPONSE_HTML_MAX - 1"
    using assms(2) by simp
qed

section \<open>Nothing else touches the queue\<close>

definition same_queue :: "srv \<Rightarrow> srv \<Rightarrow> bool" where
  "same_queue s t \<longleftrightarrow> s_response_pdu_list t = s_response_pdu_list s"

lemma same_queue_props [simp]: "reflp same_queue" "transp same_queue"
  by (auto simp: same_queue_def reflp_def intro!: transpI)

lemma keeps_queue_modS [simp]:
  "keeps same_queue (modS (set_db_pool n f))" "keeps same_queue (modS (set_cache_pool n g))"
  "keeps same_queue (modS (cache_update_at c h))" "keeps same_queue (delete_CDBConn c)"
  "keeps same_queue (delete_CacheConn c)" "keeps same_queue (new_CDBConn n)" "keeps same_queue (new_CacheConn n p)"
  by (simp_all add: keeps_modS same_queue_def set_db_pool_def set_cache_pool_def cache_update_at_def
      delete_CDBConn_def delete_CacheConn_def new_CDBConn_def new_CacheConn_def keeps_def modS_def)

lemma same_queue_updates [simp]:
  "same_queue s (row_num_update_at c n s)" "same_queue s (cache_update_at c h s)"
  by (simp_all add: same_queue_def row_num_update_at_def cache_update_at_def)

lemma keeps_queue_db [simp]:
  "keeps same_queue (CDBConn_ExecuteQuery p q)" "keeps same_queue (CPrepareStatement_run p q ps)"
  by (simp_all add: keeps_CDBConn)

lemma keeps_queue_with_db_conn [intro!]:
  assumes "\<And>p. keeps same_queue (body p)"
  shows "keeps same_queue (with_db_conn name body)"
proof -
  have front: "keeps same_queue (db_take_front name)" for name
    by (auto simp: db_take_front_def the_db_pool_def split: option.splits list.splits
        intro!: keeps_GetS keeps_bindp)
  have "keeps same_queue (CDBManager_GetDBConn name)"
    using front
    by (auto simp: CDBManager_GetDBConn_def CDBPool_GetDBConn_def the_db_pool_def CDBConn_Init_def Let_def
        split: option.splits intro!: keeps_GetS keeps_bindp keeps_Await)
  moreover have "keeps same_queue (CDBManager_RelDBConn p)" for p
    by (auto simp: CDBManager_RelDBConn_def CDBPool_RelDBConn_def split: option.splits intro!: keeps_GetS)
  ultimately show ?thesis
    using assms by (auto simp: with_db_conn_def intro!: keeps_bindp)
qed

end
