(* ===== verification/Scenario.thy ===== *)
theory Scenario
  imports Api_Common
begin

text \<open>
  Symbolic runs. serving cf dl cl says that the configuration strings are cf and that the pools the
  handlers borrow from (tuchuang_slave and token) are up: every connection of theirs is in place and
  connected, free ones and the ones lent, dl and cl. yields E P w p a w' Q: from every state with P and world w, program p returns a and
  ends in world w' and a state with Q. The rules follow the text of a program; the properties of
  the handlers on answering services are proved by walking along it.
\<close>

definition slave :: string where "slave = ''tuchuang_slave''"
definition token_pool :: string where "token_pool = ''token''"

definition opt_list :: "'a option \<Rightarrow> 'a list" where
  "opt_list x = (case x of None \<Rightarrow> [] | Some a \<Rightarrow> [a])"

definition db_serving :: "conn_ptr \<Rightarrow> srv \<Rightarrow> bool" where
  "db_serving dl s \<longleftrightarrow>
     (case dbpool_map s slave of
        None \<Rightarrow> False
      | Some p \<Rightarrow>
          \<not> db_abort p \<and> distinct (db_free_list p @ opt_list dl) \<and> db_free_list p @ opt_list dl \<noteq> [] \<and>
          list_all (\<lambda>c. map_option dbc_pool (db_heap s c) = Some slave) (db_free_list p @ opt_list dl))"

definition cache_serving :: "conn_ptr \<Rightarrow> srv \<Rightarrow> bool" where
  "cache_serving cl s \<longleftrightarrow>
     (case cache_pool_map s token_pool of
        None \<Rightarrow> False
      | Some q \<Rightarrow>
          \<not> abort_request q \<and> distinct (free_list q @ opt_list cl) \<and> free_list q @ opt_list cl \<noteq> [] \<and>
          list_all (\<lambda>c. map_option (\<lambda>cc. (cc_pool cc, cc_context cc)) (cache_heap s c) = Some (token_pool, True))
            (free_list q @ opt_list cl))"

definition srv_config :: "srv \<Rightarrow> string \<times> string \<times> string" where
  "srv_config s = (s_dfs_path_client s, s_storage_web_server_ip s, s_storage_web_server_port s)"

definition serving :: "string \<times> string \<times> string \<Rightarrow> conn_ptr \<Rightarrow> conn_ptr \<Rightarrow> srv \<Rightarrow> bool" where
  "serving cf dl cl s \<longleftrightarrow> srv_config s = cf \<and> db_serving dl s \<and> cache_serving cl s"

lemma srv_config_updates [simp]:
  "srv_config (set_db_pool n f s) = srv_config s" "srv_config (set_cache_pool n g s) = srv_config s"
  "srv_config (row_num_update_at c i s) = srv_config s" "srv_config (cache_update_at c h s) = srv_config s"
  by (simp_all add: srv_config_def set_db_pool_def set_cache_pool_def row_num_update_at_def cache_update_at_def)

definition yields :: "'w env \<Rightarrow> (srv \<Rightarrow> bool) \<Rightarrow> 'w \<Rightarrow> 'a prog \<Rightarrow> 'a \<Rightarrow> 'w \<Rightarrow> (srv \<Rightarrow> bool) \<Rightarrow> bool" where
  "yields E P w p a w' Q \<longleftrightarrow> (\<forall>s. P s \<longrightarrow> (\<exists>s'. run E p s w = (Done a, s', w') \<and> Q s'))"

section \<open>Rules\<close>

lemma yields_Ret [simp]: "yields E P w (Ret a) a w P"
  by (simp add: yields_def)

lemma yields_bindp:
  "yields E P w p a w1 Q \<Longrightarrow> yields E Q w1 (f a) b w2 R \<Longrightarrow> yields E P w (bindp p f) b w2 R"
  unfolding yields_def by (fastforce simp: then_run_Done_iff)

lemma yields_cong: "yields E P w p a w' Q \<Longrightarrow> p = p' \<Longrightarrow> a = a' \<Longrightarrow> yields E P w p' a' w' Q"
  by simp

lemma yieldsD:
  assumes "yields E P w p a w' Q" and "P s"
  obtains s' where "run E p s w = (Done a, s', w')" "Q s'"
  using assms by (auto simp: yields_def)

lemma yields_pure:
  assumes "\<And>s. run E p s w = (Done a, s, w)"
  shows "yields E P w p a w P"
  using assms by (simp add: yields_def)

lemma yields_Os:
  "env_os E w c = (r, w1) \<Longrightarrow> yields E P w1 (k r) a w2 Q \<Longrightarrow> yields E P w (Os c k) a w2 Q"
  by (simp add: yields_def)

lemma yields_sprintf: "length text < cap \<Longrightarrow> yields E P w (sprintf_buf cap text) text w P"
  by (simp add: yields_def sprintf_buf_def)

lemma yields_deref: "yields E P w (deref (Some a)) a w P"
  by (simp add: yields_def deref_def)

lemma yields_add_int32: "is_int32 (i + j) \<Longrightarrow> yields E P w (add_int32 i j) (i + j) w P"
  by (simp add: yields_def add_int32_def)

section \<open>Borrowing\<close>

lemma db_serving_heap:
  "db_serving (Some c) s \<Longrightarrow> \<exists>conn. db_heap s c = Some conn \<and> dbc_pool conn = slave"
  by (auto simp: db_serving_def opt_list_def split: option.splits)

lemma cache_serving_heap:
  "cache_serving (Some c) s \<Longrightarrow> \<exists>cc. cache_heap s c = Some cc \<and> cc_context cc \<and> cc_pool cc = token_pool"
  by (auto simp: cache_serving_def opt_list_def split: option.splits)

lemma db_serving_pop:
  assumes "db_serving None s" and "dbpool_map s slave = Some p" and "db_free_list p = c # cs"
  shows "db_serving (Some c) (set_db_pool slave db_pop s)"
  using assms by (auto simp: db_serving_def set_db_pool_def db_pop_def opt_list_def)

lemma db_serving_give:
  assumes "db_serving (Some c) s"
  shows "db_serving None (set_db_pool slave (db_give_back c) s)"
  using assms
  by (auto simp: db_serving_def set_db_pool_def db_give_back_def db_push_def opt_list_def split: option.splits)

lemma cache_serving_pop:
  assumes "cache_serving None s" and "cache_pool_map s token_pool = Some p" and "free_list p = c # cs"
  shows "cache_serving (Some c) (set_cache_pool token_pool cache_pop s)"
  using assms by (auto simp: cache_serving_def set_cache_pool_def cache_pop_def opt_list_def)

lemma cache_serving_give:
  assumes "cache_serving (Some c) s"
  shows "cache_serving None (set_cache_pool token_pool (cache_give_back c) s)"
  using assms
  by (auto simp: cache_serving_def set_cache_pool_def cache_give_back_def cache_push_def opt_list_def
      split: option.splits)

lemma serving_other [simp]:
  "cache_serving cl (set_db_pool n f s) = cache_serving cl s"
  "db_serving dl (set_cache_pool n g s) = db_serving dl s"
  "cache_serving cl (row_num_update_at c i s) = cache_serving cl s"
  by (simp_all add: cache_serving_def db_serving_def set_db_pool_def set_cache_pool_def row_num_update_at_def
      cong: option.case_cong)

lemma db_serving_row_num [simp]: "db_serving dl (row_num_update_at c i s) = db_serving dl s"
proof -
  have "map_option dbc_pool (db_heap (row_num_update_at c i s) d) = map_option dbc_pool (db_heap s d)" for d
    by (simp add: row_num_update_at_def option.map_comp comp_def)
  moreover have "dbpool_map (row_num_update_at c i s) = dbpool_map s"
    by (simp add: row_num_update_at_def)
  ultimately show ?thesis by (simp add: db_serving_def cong: option.case_cong)
qed

lemma yields_with_db_conn:
  assumes "\<And>c. yields E (serving cf (Some c) cl) w (body (Some c)) a w' (serving cf (Some c) cl)"
  shows "yields E (serving cf None cl) w (with_db_conn ''tuchuang_slave'' body) a w' (serving cf None cl)"
  unfolding yields_def
proof (intro allI impI)
  fix s assume s: "serving cf None cl s"
  then obtain p c cs where p: "dbpool_map s slave = Some p" "\<not> db_abort p" "db_free_list p = c # cs"
    by (cases "dbpool_map s slave"; cases "db_free_list (the (dbpool_map s slave))")
       (auto simp: serving_def db_serving_def opt_list_def)
  have "serving cf (Some c) cl (set_db_pool slave db_pop s)"
    using s db_serving_pop [OF _ p(1,3)] by (simp add: serving_def)
  then obtain t where t: "run E (body (Some c)) (set_db_pool slave db_pop s) w = (Done a, t, w')" "serving cf (Some c) cl t"
    using assms [of c] by (auto simp: yields_def)
  then obtain conn where "db_heap t c = Some conn" "dbc_pool conn = slave"
    using db_serving_heap [of c t] by (auto simp: serving_def)
  then have "\<exists>u. run E (bindp (CDBManager_RelDBConn (Some c)) (\<lambda>_. Ret a)) t w' = (Done a, u, w') \<and> serving cf None cl u"
    using t(2) db_serving_give [of c t]
    by (cases "dbpool_map t slave")
       (auto simp: CDBManager_RelDBConn_def CDBPool_RelDBConn_def serving_def db_serving_def [of "Some c"])
  with t(1) p show "\<exists>s'. run E (with_db_conn ''tuchuang_slave'' body) s w = (Done a, s', w') \<and> serving cf None cl s'"
    by (auto simp: run_with_db_conn slave_def simp del: run_bindp)
qed

lemma yields_with_cache_conn:
  assumes "\<And>c. yields E (serving cf dl (Some c)) w (body (Some c)) a w' (serving cf dl (Some c))"
  shows "yields E (serving cf dl None) w (with_cache_conn ''token'' body) a w' (serving cf dl None)"
  unfolding yields_def
proof (intro allI impI)
  fix s assume s: "serving cf dl None s"
  then obtain p c cs where p: "cache_pool_map s token_pool = Some p" "\<not> abort_request p" "free_list p = c # cs"
    by (cases "cache_pool_map s token_pool"; cases "free_list (the (cache_pool_map s token_pool))")
       (auto simp: serving_def cache_serving_def opt_list_def)
  have "serving cf dl (Some c) (set_cache_pool token_pool cache_pop s)"
    using s cache_serving_pop [OF _ p(1,3)] by (simp add: serving_def)
  then obtain t where t: "run E (body (Some c)) (set_cache_pool token_pool cache_pop s) w = (Done a, t, w')"
      "serving cf dl (Some c) t"
    using assms [of c] by (auto simp: yields_def)
  then obtain cc where "cache_heap t c = Some cc" "cc_pool cc = token_pool"
    using cache_serving_heap [of c t] by (auto simp: serving_def)
  then have "\<exists>u. run E (bindp (CacheManager_RelCacheConn (Some c)) (\<lambda>_. Ret a)) t w' = (Done a, u, w') \<and> serving cf dl None u"
    using t(2) cache_serving_give [of c t]
    by (cases "cache_pool_map t token_pool")
       (auto simp: CacheManager_RelCacheConn_def CachePool_RelCacheConn_def serving_def cache_serving_def [of "Some c"])
  with t(1) p show "\<exists>s'. run E (with_cache_conn ''token'' body) s w = (Done a, s', w') \<and> serving cf dl None s'"
    by (auto simp: run_with_cache_conn token_pool_def simp del: run_bindp)
qed

section \<open>Operations on a connection\<close>

lemma yields_db:
  assumes "env_mysql E w (c_str q) = (m, w')"
  shows "yields E (serving cf (Some c) cl) w (CDBConn_ExecuteQuery (Some c) q) (query_value m) w' (serving cf (Some c) cl)"
    and "yields E (serving cf (Some c) cl) w (CDBConn_ExecuteUpdate (Some c) q care) (update_value care m) w'
           (serving cf (Some c) cl)"
    and "yields E (serving cf (Some c) cl) w (CDBConn_ExecuteCreate (Some c) q) (m \<noteq> QueryFailed) w' (serving cf (Some c) cl)"
    and "yields E (serving cf (Some c) cl) w (CDBConn_ExecutePassQuery (Some c) q) (m \<noteq> QueryFailed) w' (serving cf (Some c) cl)"
    and "yields E (serving cf (Some c) cl) w (CDBConn_ExecuteDrop (Some c) q) (m \<noteq> QueryFailed) w' (serving cf (Some c) cl)"
proof -
  have "\<exists>conn. db_heap s c = Some conn" if "serving cf (Some c) cl s" for s
    using that db_serving_heap by (auto simp: serving_def)
  then show "yields E (serving cf (Some c) cl) w (CDBConn_ExecuteQuery (Some c) q) (query_value m) w' (serving cf (Some c) cl)"
    "yields E (serving cf (Some c) cl) w (CDBConn_ExecuteUpdate (Some c) q care) (update_value care m) w' (serving cf (Some c) cl)"
    "yields E (serving cf (Some c) cl) w (CDBConn_ExecuteCreate (Some c) q) (m \<noteq> QueryFailed) w' (serving cf (Some c) cl)"
    "yields E (serving cf (Some c) cl) w (CDBConn_ExecutePassQuery (Some c) q) (m \<noteq> QueryFailed) w' (serving cf (Some c) cl)"
    "yields E (serving cf (Some c) cl) w (CDBConn_ExecuteDrop (Some c) q) (m \<noteq> QueryFailed) w' (serving cf (Some c) cl)"
    using assms
    by (fastforce simp: yields_def CDBConn_ExecuteCreate_def CDBConn_ExecutePassQuery_def CDBConn_ExecuteDrop_def
        serving_def)+
qed

lemma yields_stmt:
  assumes "env_stmt E w (c_str q) ps = (r, w')"
  shows "yields E (serving cf (Some c) cl) w (CPrepareStatement_run (Some c) q ps) r w' (serving cf (Some c) cl)"
proof -
  have "\<exists>conn. db_heap s c = Some conn" if "serving cf (Some c) cl s" for s
    using that db_serving_heap by (auto simp: serving_def)
  then show ?thesis
    using assms by (fastforce simp: yields_def)
qed

lemma yields_command:
  assumes "env_redis E w argv = (Some r, w1)" and "yields E (serving cf dl (Some c)) w1 (k r) a w2 Q"
  shows "yields E (serving cf dl (Some c)) w (command (Some c) fail argv k) a w2 Q"
    and "yields E (serving cf dl (Some c)) w (zcommand (Some c) fail argv k) a w2 Q"
proof -
  have live: "\<exists>cc. cache_heap s c = Some cc \<and> cc_context cc" if "serving cf dl (Some c) s" for s
    using that cache_serving_heap [of c s] by (auto simp: serving_def)
  show "yields E (serving cf dl (Some c)) w (command (Some c) fail argv k) a w2 Q"
    using live assms by (fastforce simp: yields_def run_command)
  show "yields E (serving cf dl (Some c)) w (zcommand (Some c) fail argv k) a w2 Q"
    using live assms by (fastforce simp: yields_def run_zcommand)
qed

text \<open>The operations the handlers use, on a reply r.\<close>

lemma yields_cache:
  "env_redis E w [''GET'', c_str key] = (Some r, w') \<Longrightarrow>
     yields E (serving cf dl (Some c)) w (CacheConn_Get (Some c) key) (if is_RString r then reply_text r else []) w'
       (serving cf dl (Some c))"
  "env_redis E w [''SET'', c_str key, c_str val] = (Some r, w') \<Longrightarrow>
     yields E (serving cf dl (Some c)) w (CacheConn_Set (Some c) key val) (reply_text r) w' (serving cf dl (Some c))"
  "env_redis E w [''SETEX'', c_str key, show_int n, c_str val] = (Some r, w') \<Longrightarrow>
     yields E (serving cf dl (Some c)) w (CacheConn_SetEx (Some c) key n val) (reply_text r) w' (serving cf dl (Some c))"
  "env_redis E w [''INCR'', c_str key] = (Some r, w') \<Longrightarrow>
     yields E (serving cf dl (Some c)) w (CacheConn_Incr (Some c) key) (0, reply_integer r) w' (serving cf dl (Some c))"
  "env_redis E w [''DECR'', c_str key] = (Some r, w') \<Longrightarrow>
     yields E (serving cf dl (Some c)) w (CacheConn_Decr (Some c) key i) (0, reply_integer r) w' (serving cf dl (Some c))"
  "env_redis E w [''HSET'', c_str key, c_str fl, c_str val] = (Some r, w') \<Longrightarrow>
     yields E (serving cf dl (Some c)) w (CacheConn_Hset (Some c) key fl val) (reply_integer r) w' (serving cf dl (Some c))"
  "env_redis E w [''HDEL'', c_str key, c_str fl] = (Some r, w') \<Longrightarrow>
     yields E (serving cf dl (Some c)) w (CacheConn_Hdel (Some c) key fl) (reply_integer r) w' (serving cf dl (Some c))"
  by (simp_all only: CacheConn_Get_def CacheConn_Set_def CacheConn_SetEx_def CacheConn_Incr_def
      CacheConn_Decr_def CacheConn_Hset_def CacheConn_Hdel_def)
     (rule yields_command(1), assumption, rule yields_Ret)+

lemma yields_zset:
  "env_redis E w [''zlexcount'', c_str key, CHR ''['' # c_str m, CHR ''['' # c_str m] = (Some (RInteger i), w') \<Longrightarrow>
     yields E (serving cf dl (Some c)) w (CacheConn_ZsetExit (Some c) key m) (to_int32 i) w' (serving cf dl (Some c))"
  "env_redis E w [''ZADD'', c_str key, show_int n, c_str m] = (Some (RInteger i), w') \<Longrightarrow>
     yields E (serving cf dl (Some c)) w (CacheConn_ZsetAdd (Some c) key n m) 0 w' (serving cf dl (Some c))"
  "env_redis E w [''ZREM'', c_str key, c_str m] = (Some (RInteger i), w') \<Longrightarrow>
     yields E (serving cf dl (Some c)) w (CacheConn_ZsetZrem (Some c) key m) 0 w' (serving cf dl (Some c))"
  "env_redis E w [''ZINCRBY'', c_str key, ''1'', c_str m] = (Some (RString v), w') \<Longrightarrow> c_str v \<noteq> ''OK'' \<Longrightarrow>
     yields E (serving cf dl (Some c)) w (CacheConn_ZsetIncr (Some c) key m) (- 1) w' (serving cf dl (Some c))"
  by (simp_all only: CacheConn_ZsetExit_def CacheConn_ZsetAdd_def CacheConn_ZsetZrem_def CacheConn_ZsetIncr_def)
     (rule yields_command(2), assumption,
      simp add: is_RInteger_def reply_integer_def reply_str_def deref_def)+

section \<open>Helpers of base/common.cc and api_common.cc\<close>

definition reply_token :: "redis_reply \<Rightarrow> string" where
  "reply_token r = (if is_RString r then reply_text r else [])"

lemma yields_VerifyToken:
  assumes "env_redis E w [''GET'', c_str user] = (Some r, w')"
  shows "yields E (serving cf dl None) w (VerifyToken user tok) (if reply_token r = tok then 0 else - 1) w' (serving cf dl None)"
  unfolding VerifyToken_def
  by (rule yields_with_cache_conn, simp split del: if_split, rule yields_bindp, rule yields_cache(1) [OF assms])
     (simp add: reply_token_def)

lemma yields_CacheSetCount:
  assumes "env_redis E w [''SET'', c_str key, show_int n] = (Some r, w')" and "reply_text r \<noteq> []"
  shows "yields E (serving cf dl (Some c)) w (CacheSetCount (Some c) key n) 0 w' (serving cf dl (Some c))"
  unfolding CacheSetCount_def
  by (rule yields_bindp, rule yields_cache(2) [where val = "show_int n", simplified, OF assms(1)])
     (simp add: assms(2))

lemma yields_CacheGetCount:
  assumes "env_redis E w [''GET'', c_str key] = (Some r, w')"
  shows "yields E (serving cf dl (Some c)) w (CacheGetCount (Some c) key)
           (if reply_token r \<noteq> [] then (0, atoll (c_str (reply_token r))) else (- 1, 0)) w' (serving cf dl (Some c))"
  unfolding CacheGetCount_def reply_token_def
  by (rule yields_bindp, rule yields_cache(1) [OF assms]) simp

lemma yields_CacheIncrCount:
  assumes "env_redis E w [''INCR'', c_str key] = (Some r, w')"
  shows "yields E (serving cf dl (Some c)) w (CacheIncrCount (Some c) key) 0 w' (serving cf dl (Some c))"
  unfolding CacheIncrCount_def
  by (rule yields_bindp, rule yields_cache(4) [OF assms]) simp

lemma yields_CacheDecrCount:
  assumes "env_redis E w [''DECR'', c_str key] = (Some r, w1)"
    and "reply_integer r < 0 \<Longrightarrow> env_redis E w1 [''SET'', c_str key, show_int 0] = (Some r2, w2) \<and> reply_text r2 \<noteq> []"
    and "0 \<le> reply_integer r \<Longrightarrow> w2 = w1"
  shows "yields E (serving cf dl (Some c)) w (CacheDecrCount (Some c) key) 0 w2 (serving cf dl (Some c))"
proof (cases "reply_integer r < 0")
  case True
  then show ?thesis
    unfolding CacheDecrCount_def
    by (intro yields_bindp [OF yields_cache(5) [OF assms(1)]])
       (use assms(2) in \<open>auto intro!: yields_bindp [OF yields_CacheSetCount]\<close>)
next
  case False
  then show ?thesis
    unfolding CacheDecrCount_def
    by (intro yields_bindp [OF yields_cache(5) [OF assms(1)]]) (use assms(3) in simp)
qed

lemma yields_RemoveFile:
  assumes "env_os E w (OsSystem (c_printf ''fdfs_delete_file %s %s'' [PStr client, PStr fileid])) = (r, w')"
    and "length (c_printf ''fdfs_delete_file %s %s'' [PStr client, PStr fileid]) < 1024 * 2"
  shows "yields E (serving (client, ip, port) dl cl) w (RemoveFileFromFastDfs fileid) (os_int r) w'
           (serving (client, ip, port) dl cl)"
  using assms by (auto simp: yields_def RemoveFileFromFastDfs_def sprintf_buf_def serving_def srv_config_def)

text \<open>The reply to a SELECT of one column with one row.\<close>

definition one_cell :: "string \<Rightarrow> string \<Rightarrow> mysql_reply" where
  "one_cell col v = QueryOk (Some \<lparr>tb_fields = [col], tb_rows = [[Some v]]\<rparr>) 0"

definition no_rows :: "string list \<Rightarrow> mysql_reply" where
  "no_rows cols = QueryOk (Some \<lparr>tb_fields = cols, tb_rows = []\<rparr>) 0"

definition record_value :: "mysql_reply \<Rightarrow> int" where
  "record_value m = (case m of QueryOk (Some t) _ \<Rightarrow> if tb_rows t = [] then 0 else 1 | _ \<Rightarrow> - 1)"

lemma yields_CheckwhetherHaveRecord:
  assumes "env_mysql E w (c_str q) = (m, w')"
  shows "yields E (serving cf (Some c) cl) w (CheckwhetherHaveRecord (Some c) q) (record_value m) w' (serving cf (Some c) cl)"
  unfolding CheckwhetherHaveRecord_def
  by (rule yields_bindp, rule yields_db(1) [OF assms])
     (auto simp: query_value_def record_value_def CResultSet_Next_def new_CResultSet_def
       split: mysql_reply.splits option.splits list.splits)

lemma GetInt_one_cell:
  assumes "nul_free col" and "is_int32 n"
  shows "CResultSet_GetInt (snd (CResultSet_Next (new_CResultSet \<lparr>tb_fields = [col], tb_rows = [[Some (show_int n)]]\<rparr>))) col = Ret n"
  using assms
  by (simp add: CResultSet_GetInt_def CResultSet_Next_def new_CResultSet_def GetIndex_def cell_at_def deref_def
      atoi_show_int)

lemma Next_one_cell:
  "fst (CResultSet_Next (new_CResultSet \<lparr>tb_fields = [col], tb_rows = [[Some v]]\<rparr>))"
  by (simp add: CResultSet_Next_def new_CResultSet_def)

lemma yields_GetResultOneCount:
  assumes "env_mysql E w (c_str q) = (one_cell ''count'' (show_int n), w')" and "is_int32 n"
  shows "yields E (serving cf (Some c) cl) w (GetResultOneCount (Some c) q 0) (0, n) w' (serving cf (Some c) cl)"
  unfolding GetResultOneCount_def
  by (rule yields_bindp, rule yields_db(1) [OF assms(1)])
     (use GetInt_one_cell [of "''count''" n] Next_one_cell [of "''count''" "show_int n"] assms(2) in
       \<open>simp add: query_value_def one_cell_def deref_def split_beta NUL_def\<close>)

lemma yields_GetResultOneCount_none:
  assumes "env_mysql E w (c_str q) = (no_rows cols, w')"
  shows "yields E (serving cf (Some c) cl) w (GetResultOneCount (Some c) q 0) (1, 0) w' (serving cf (Some c) cl)"
  unfolding GetResultOneCount_def
  by (rule yields_bindp, rule yields_db(1) [OF assms])
     (simp add: query_value_def no_rows_def deref_def new_CResultSet_def CResultSet_Next_def)

lemma yields_GetResultOneStatus:
  assumes "env_mysql E w (c_str q) = (one_cell ''shared_status'' (show_int n), w')" and "is_int32 n"
  shows "yields E (serving cf (Some c) cl) w (GetResultOneStatus (Some c) q k) (0, n) w' (serving cf (Some c) cl)"
  unfolding GetResultOneStatus_def
  by (rule yields_bindp, rule yields_db(1) [OF assms(1)])
     (use GetInt_one_cell [of "''shared_status''" n] Next_one_cell [of "''shared_status''" "show_int n"] assms(2) in
       \<open>simp add: query_value_def one_cell_def deref_def split_beta NUL_def\<close>)

lemma yields_DBGetCount:
  assumes "env_mysql E w (c_str q) = (one_cell ''count(*)'' (show_int n), w')" and "is_int32 n"
  shows "yields E (serving cf (Some c) cl) w (DBGetCount (Some c) q) (0, n) w' (serving cf (Some c) cl)"
  unfolding DBGetCount_def
  by (rule yields_bindp, rule yields_db(1) [OF assms(1)])
     (use GetInt_one_cell [of "''count(*)''" n] Next_one_cell [of "''count(*)''" "show_int n"] assms(2) in
       \<open>simp add: query_value_def one_cell_def split_beta NUL_def\<close>)

section \<open>Request bodies\<close>

lemma yields_read_cmd:
  assumes "QueryParseKeyValue url ''cmd'' 20 = (Ret (Some (cmd, n)) :: (string \<times> int) option prog)"
  shows "yields E P w (read_cmd url) cmd w P"
  by (rule yields_pure) (simp add: read_cmd_def assms init_read_def)

lemma yields_decode_strs:
  assumes "readValue (env_libc E) (reader_fuel text) text = Good (JObj m) rest"
    and "list_all2 (\<lambda>k v. map_of m k = Some (JStr v) \<and> nul_free v) ks vs"
  shows "yields E P w (parse_request text (\<lambda>root. str_fields root ks)) (Some vs) w P"
proof -
  have fields: "str_fields (JObj m) ks = (Ret (Some vs) :: string list option prog)"
    using assms(2) by (induction rule: list_all2_induct) (simp_all add: str_fields.simps)
  show ?thesis
    by (rule yields_pure) (simp add: parse_request_def assms(1) fields)
qed

end
