(* ===== verification/Demo.thy ===== *)
theory Demo
  imports Http_Response Scenario
begin

text \<open>
  Concrete servers and states the examples of the other theories run the model on: one database
  pool and one cache pool with a free connection each, a database that answers a statement with a
  given table, a Redis server that is a map, and an operating system with a fixed clock.
\<close>

definition demo_db_pool :: db_pool where
  "demo_db_pool =
     \<lparr>dbp_server_ip = ''127.0.0.1'', dbp_server_port = 3306, dbp_username = ''root'',
      dbp_password = ''123456'', dbp_db_name = ''tuchuang'', db_cur_conn_cnt = 1,
      db_max_conn_cnt = 4, db_free_list = [0], db_abort = False\<rparr>"

definition demo_cache_pool :: cache_pool where
  "demo_cache_pool =
     \<lparr>cp_server_ip = ''127.0.0.1'', cp_server_port = 6379, cp_password = [], cur_conn_cnt = 2,
      max_conn_cnt = 4, free_list = [1, 2], abort_request = False\<rparr>"

definition demo_cache_conn :: cache_conn where
  "demo_cache_conn =
     \<lparr>cc_server_ip = ''127.0.0.1'', cc_server_port = 6379, cc_password = [], cc_pool = ''token'',
      cc_context = True, cc_last_connect = 0\<rparr>"

definition demo_srv :: srv where
  "demo_srv =
     \<lparr>db_heap = [0 \<mapsto> \<lparr>dbc_pool = ''tuchuang_slave'', row_num = 0\<rparr>],
      cache_heap = [1 \<mapsto> demo_cache_conn, 2 \<mapsto> demo_cache_conn], next_conn = 3,
      dbpool_map = [''tuchuang_slave'' \<mapsto> demo_db_pool],
      cache_pool_map = [''token'' \<mapsto> demo_cache_pool],
      s_response_pdu_list = [], s_dfs_path_client = ''/etc/fdfs/client.conf'', s_web_server_ip = ''127.0.0.1'',
      s_web_server_port = ''80'',
      s_storage_web_server_ip = ''127.0.0.1'', s_storage_web_server_port = ''80'',
      http_heap = Map.empty, next_http = 0, g_http_conn_map = [], g_uuid_conn_map = [],
      g_conn_handle_generator = 0, s_uuid_alloctor = 0, pool_tasks = []\<rparr>"

definition demo_libc :: libc where
  "demo_libc = \<lparr>scan_double = (\<lambda>s. False), format_double = (\<lambda>s. []), double_to_int = (\<lambda>s. None)\<rparr>"

text \<open>The world of a demo is the string store of the Redis server.\<close>

type_synonym demo_world = "string \<Rightarrow> string option"

definition demo_env :: "(string \<Rightarrow> mysql_reply) \<Rightarrow> (demo_world \<Rightarrow> string list \<Rightarrow> redis_reply option \<times> demo_world)
    \<Rightarrow> demo_world env" where
  "demo_env sql redis =
     \<lparr>env_mysql_connect = (\<lambda>w ps. (Connected, w)), env_mysql = (\<lambda>w q. (sql q, w)),
      env_stmt = (\<lambda>w q ps. (Executed 1 1, w)), env_redis_connect = (\<lambda>w h p. (True, w)),
      env_redis = redis, env_os = (\<lambda>w c. (\<lparr>os_int = 0, os_str = ''2024-01-01 00:00:00''\<rparr>, w)),
      env_libc = demo_libc\<rparr>"

text \<open>A JSON text: a double quote around a word.\<close>

definition dq :: "string \<Rightarrow> string" where
  "dq s = [CHR 0x22] @ s @ [CHR 0x22]"

definition demo_config :: "string \<times> string \<times> string" where
  "demo_config = (''/etc/fdfs/client.conf'', ''127.0.0.1'', ''80'')"

lemma demo_serving: "serving demo_config None None demo_srv"
  by (simp add: serving_def srv_config_def demo_config_def db_serving_def cache_serving_def demo_srv_def demo_db_pool_def
      demo_cache_pool_def demo_cache_conn_def slave_def token_pool_def opt_list_def)

lemma demo_env_simps [simp]:
  "env_mysql (demo_env sql redis) w q = (sql q, w)" "env_redis (demo_env sql redis) = redis"
  "env_os (demo_env sql redis) w c = (\<lparr>os_int = 0, os_str = ''2024-01-01 00:00:00''\<rparr>, w)"
  "env_libc (demo_env sql redis) = demo_libc" "env_stmt (demo_env sql redis) w q ps = (Executed 1 1, w)"
  by (simp_all add: demo_env_def)

lemma run_RandomString_demo:
  "run (demo_env sql redis) (RandomString n) s w = (Done (replicate n (CHR ''a'')), s, w)"
proof -
  have "char_of (97 :: nat) = CHR ''a''" by code_simp
  then show ?thesis by (induction n) simp_all
qed

text \<open>The body {"user":"bob","token":"t","md5":"m","filename":"f.png"} and what it parses to.\<close>

definition file_body :: string where
  "file_body =
     ''{'' @ dq ''user'' @ '':'' @ dq ''bob'' @ '','' @ dq ''token'' @ '':'' @ dq ''t'' @ '','' @
     dq ''md5'' @ '':'' @ dq ''m'' @ '','' @ dq ''filename'' @ '':'' @ dq ''f.png'' @ ''}''"

definition file_members :: "(string \<times> json) list" where
  "file_members =
     [(''filename'', JStr ''f.png''), (''md5'', JStr ''m''), (''token'', JStr ''t''), (''user'', JStr ''bob'')]"

lemma file_body_parsed:
  "readValue demo_libc (reader_fuel file_body) file_body = Good (JObj file_members) []"
  by code_simp

lemma file_members_lookup:
  "map_of file_members ''user'' = Some (JStr ''bob'')" "map_of file_members ''token'' = Some (JStr ''t'')"
  "map_of file_members ''md5'' = Some (JStr ''m'')" "map_of file_members ''filename'' = Some (JStr ''f.png'')"
  by (simp_all add: file_members_def)

text \<open>A database that knows some statements, and a Redis server that answers every command.\<close>

definition sql_script :: "(string \<times> mysql_reply) list \<Rightarrow> string \<Rightarrow> mysql_reply" where
  "sql_script script q = (case map_of script q of None \<Rightarrow> QueryFailed | Some r \<Rightarrow> r)"

definition calm_redis :: "int \<Rightarrow> demo_world \<Rightarrow> string list \<Rightarrow> redis_reply option \<times> demo_world" where
  "calm_redis shared w argv =
     (let c = hd argv in
      (Some (if c = ''zlexcount'' then RInteger shared
             else if c = ''GET'' then RString ''t''
             else if c = ''SET'' \<or> c = ''SETEX'' then RStatus ''OK''
             else if c = ''ZINCRBY'' then RString ''1''
             else RInteger 1), w))"

lemma calm_redis [simp]:
  "calm_redis n w (''zlexcount'' # xs) = (Some (RInteger n), w)"
  "calm_redis n w (''GET'' # xs) = (Some (RString ''t''), w)"
  "calm_redis n w (''SET'' # xs) = (Some (RStatus ''OK''), w)"
  "calm_redis n w (''ZINCRBY'' # xs) = (Some (RString ''1''), w)"
  "calm_redis n w (''INCR'' # xs) = (Some (RInteger 1), w)"
  "calm_redis n w (''DECR'' # xs) = (Some (RInteger 1), w)"
  "calm_redis n w (''ZADD'' # xs) = (Some (RInteger 1), w)"
  "calm_redis n w (''ZREM'' # xs) = (Some (RInteger 1), w)"
  "calm_redis n w (''HSET'' # xs) = (Some (RInteger 1), w)"
  "calm_redis n w (''HDEL'' # xs) = (Some (RInteger 1), w)"
  by (simp_all add: calm_redis_def)

end
