(* ===== verification/Api_Dealfile.thy ===== *)
theory Api_Dealfile
  imports Demo
begin

text \<open>
  api/api_dealfile.cc: sharing, deleting and counting a download of one of the user's own files.
  handlePvFile of this file is handlePvFile_user; api_deal_sharefile.cc has another of that name.
  The local variable ret of handleShareFile is not part of its result and is left out.
\<close>

datatype ShareState = ShareOk | ShareFail | ShareHad | ShareTokenFail

definition share_code :: "ShareState \<Rightarrow> int" where
  "share_code st = (case st of ShareOk \<Rightarrow> 0 | ShareFail \<Rightarrow> 1 | ShareHad \<Rightarrow> 3 | ShareTokenFail \<Rightarrow> 4)"

definition ApiDealfileInit :: "string \<Rightarrow> int prog" where
  "ApiDealfileInit dfs_path_client = bindp (modS (s_dfs_path_client_update (\<lambda>_. dfs_path_client))) (\<lambda>_. Ret 0)"

definition decodeDealfileJson :: "string \<Rightarrow> string list option prog" where
  "decodeDealfileJson str_json =
     parse_request str_json (\<lambda>root. str_fields root [''user'', ''token'', ''md5'', ''filename''])"

definition encodeDealfileJson :: "int \<Rightarrow> string" where
  "encodeDealfileJson ret = encode_code ret"

section \<open>Statements\<close>

definition file_id_of :: "string \<Rightarrow> string \<Rightarrow> string" where
  "file_id_of md5 filename = c_printf ''%s%s'' [PStr md5, PStr filename]"

definition sql_shared_by_anyone :: "string \<Rightarrow> string \<Rightarrow> string" where
  [sql_text]: "sql_shared_by_anyone md5 filename =
     c_printf (''select * from share_file_list where md5 = '%s' and file_name = '%s'' @ [CHR 0x27])
       [PStr md5, PStr filename]"

definition sql_mark_shared :: "string \<Rightarrow> string \<Rightarrow> string \<Rightarrow> string" where
  [sql_text]: "sql_mark_shared user md5 filename =
     c_printf (''update user_file_list set shared_status = 1 where user = '%s' and md5 = '%s' and file_name = '%s'' @ [CHR 0x27])
       [PStr user, PStr md5, PStr filename]"

definition sql_insert_share :: "string \<Rightarrow> string \<Rightarrow> string \<Rightarrow> string \<Rightarrow> string" where
  [sql_text]: "sql_insert_share user md5 now filename =
     c_printf ''insert into share_file_list (user, md5, create_time, file_name, pv) values ('%s', '%s', '%s', '%s', %d)''
       [PStr user, PStr md5, PStr now, PStr filename, PInt 0]"

definition sql_shared_status :: "string \<Rightarrow> string \<Rightarrow> string \<Rightarrow> string" where
  [sql_text]: "sql_shared_status user md5 filename =
     c_printf (''select shared_status from user_file_list where user = '%s' and md5 = '%s' and file_name = '%s'' @ [CHR 0x27])
       [PStr user, PStr md5, PStr filename]"

definition sql_delete_share :: "string \<Rightarrow> string \<Rightarrow> string \<Rightarrow> string" where
  [sql_text]: "sql_delete_share user md5 filename =
     c_printf (''delete from share_file_list where user = '%s' and md5 = '%s' and file_name = '%s'' @ [CHR 0x27])
       [PStr user, PStr md5, PStr filename]"

definition sql_delete_user_file :: "string \<Rightarrow> string \<Rightarrow> string \<Rightarrow> string" where
  [sql_text]: "sql_delete_user_file user md5 filename =
     c_printf (''delete from user_file_list where user = '%s' and md5 = '%s' and file_name = '%s'' @ [CHR 0x27])
       [PStr user, PStr md5, PStr filename]"

definition sql_ref_count :: "string \<Rightarrow> string" where
  [sql_text]: "sql_ref_count md5 =
     c_printf (''select count from file_info where md5 = '%s'' @ [CHR 0x27]) [PStr md5]"

definition sql_set_ref_count :: "int \<Rightarrow> string \<Rightarrow> string" where
  [sql_text]: "sql_set_ref_count n md5 =
     c_printf (''update file_info set count=%d where md5 = '%s'' @ [CHR 0x27]) [PInt n, PStr md5]"

definition sql_file_id :: "string \<Rightarrow> string" where
  [sql_text]: "sql_file_id md5 =
     c_printf (''select file_id from file_info where md5 = '%s'' @ [CHR 0x27]) [PStr md5]"

definition sql_delete_file_info :: "string \<Rightarrow> string" where
  [sql_text]: "sql_delete_file_info md5 =
     c_printf (''delete from file_info where md5 = '%s'' @ [CHR 0x27]) [PStr md5]"

definition sql_user_pv :: "string \<Rightarrow> string \<Rightarrow> string \<Rightarrow> string" where
  [sql_text]: "sql_user_pv user md5 filename =
     c_printf (''select pv from user_file_list where user = '%s' and md5 = '%s' and file_name = '%s'' @ [CHR 0x27])
       [PStr user, PStr md5, PStr filename]"

definition sql_set_user_pv :: "int \<Rightarrow> string \<Rightarrow> string \<Rightarrow> string \<Rightarrow> string" where
  [sql_text]: "sql_set_user_pv pv user md5 filename =
     c_printf (''update user_file_list set pv = %d where user = '%s' and md5 = '%s' and file_name = '%s'' @ [CHR 0x27])
       [PInt pv, PStr user, PStr md5, PStr filename]"

section \<open>Sharing\<close>

text \<open>Steps 4 to 6 of handleShareFile, which run when nobody has shared the file.\<close>

definition share_now :: "conn_ptr \<Rightarrow> conn_ptr \<Rightarrow> string \<Rightarrow> string \<Rightarrow> string \<Rightarrow> string \<Rightarrow> ShareState prog" where
  "share_now db_conn cache_conn user md5 filename fileid =
     bindp (sprintf_buf SQL_MAX_LEN (sql_mark_shared user md5 filename)) (\<lambda>sql_cmd.
     bindp (CDBConn_ExecuteUpdate db_conn sql_cmd False) (\<lambda>marked.
     if \<not> marked then Ret ShareFail
     else
       Os OsLocalTime (\<lambda>create_time.
       bindp (sprintf_buf SQL_MAX_LEN (sql_insert_share user md5 (os_str create_time) filename)) (\<lambda>sql_cmd.
       bindp (CDBConn_ExecuteCreate db_conn sql_cmd) (\<lambda>inserted.
       if \<not> inserted then Ret ShareFail
       else
         bindp (CacheIncrCount cache_conn FILE_PUBLIC_COUNT) (\<lambda>ret.
         if ret < 0 then Ret ShareFail
         else
           bindp (CacheConn_ZsetAdd cache_conn FILE_PUBLIC_ZSET 0 fileid) (\<lambda>_.
           bindp (CacheConn_Hset cache_conn FILE_NAME_HASH fileid filename) (\<lambda>_. Ret ShareOk))))))))"

definition handleShareFile :: "string \<Rightarrow> string \<Rightarrow> string \<Rightarrow> ShareState prog" where
  "handleShareFile user md5 filename =
     with_db_conn ''tuchuang_slave'' (\<lambda>db_conn.
     with_cache_conn ''token'' (\<lambda>cache_conn.
       bindp (sprintf_buf 1024 (file_id_of md5 filename)) (\<lambda>fileid.
       bindp (if cache_conn \<noteq> None then CacheConn_ZsetExit cache_conn FILE_PUBLIC_ZSET fileid else Ret 0) (\<lambda>ret2.
       if ret2 = 1 then Ret ShareHad
       else if ret2 = 0 then
         bindp (sprintf_buf SQL_MAX_LEN (sql_shared_by_anyone md5 filename)) (\<lambda>sql_cmd.
         bindp (CheckwhetherHaveRecord db_conn sql_cmd) (\<lambda>ret2.
         if ret2 = 1 then
           bindp (CacheConn_ZsetAdd cache_conn FILE_PUBLIC_ZSET 0 fileid) (\<lambda>_.
           bindp (CacheConn_Hset cache_conn FILE_NAME_HASH fileid filename) (\<lambda>_. Ret ShareHad))
         else share_now db_conn cache_conn user md5 filename fileid))
       else Ret ShareFail))))"

section \<open>Deleting\<close>

text \<open>
  The pieces of handleDeleteFile in their order: is the file shared (None is an error), taking it
  out of the shared files, and releasing the reference to the stored file. The results of the last
  two are the variable ret.
\<close>

definition delete_is_shared :: "conn_ptr \<Rightarrow> conn_ptr \<Rightarrow> string \<Rightarrow> string \<Rightarrow> string \<Rightarrow> string \<Rightarrow> (int \<times> bool) option prog" where
  "delete_is_shared db_conn cache_conn user md5 filename fileid =
     bindp (CacheConn_ZsetExit cache_conn FILE_PUBLIC_ZSET fileid) (\<lambda>ret2.
     if ret2 = 1 then Ret (Some (1, True))
     else if ret2 = 0 then
       bindp (sprintf_buf SQL_MAX_LEN (sql_shared_status user md5 filename)) (\<lambda>sql_cmd.
       bindp (GetResultOneStatus db_conn sql_cmd 0) (\<lambda>(ret2, shared_status).
       Ret (Some (if ret2 = 0 then shared_status else 0, False))))
     else Ret None)"

definition delete_share :: "conn_ptr \<Rightarrow> conn_ptr \<Rightarrow> string \<Rightarrow> string \<Rightarrow> string \<Rightarrow> string \<Rightarrow> bool \<Rightarrow> int prog" where
  "delete_share db_conn cache_conn user md5 filename fileid redis_has_record =
     bindp (sprintf_buf SQL_MAX_LEN (sql_delete_share user md5 filename)) (\<lambda>sql_cmd.
     bindp (CDBConn_ExecuteDrop db_conn sql_cmd) (\<lambda>dropped.
     if \<not> dropped then Ret (- 1)
     else
       bindp (CacheDecrCount cache_conn FILE_PUBLIC_COUNT) (\<lambda>ret.
       if ret < 0 then Ret (- 1)
       else if redis_has_record then
         bindp (CacheConn_ZsetZrem cache_conn FILE_PUBLIC_ZSET fileid) (\<lambda>_.
         bindp (CacheConn_Hdel cache_conn FILE_NAME_HASH fileid) (\<lambda>_. Ret 0))
       else Ret 0)))"

definition delete_stored_file :: "conn_ptr \<Rightarrow> string \<Rightarrow> int prog" where
  "delete_stored_file db_conn md5 =
     bindp (sprintf_buf SQL_MAX_LEN (sql_file_id md5)) (\<lambda>sql_cmd.
     bindp (CDBConn_ExecuteQuery db_conn sql_cmd) (\<lambda>pResultSet.
     bindp (deref pResultSet) (\<lambda>rs.
     case CResultSet_Next rs of (found, rs') \<Rightarrow>
       bindp (if found
              then bindp (CResultSet_GetString rs' ''file_id'') deref
              else Ret []) (\<lambda>fileid.
       bindp (sprintf_buf SQL_MAX_LEN (sql_delete_file_info md5)) (\<lambda>sql_cmd.
       bindp (CDBConn_ExecuteDrop db_conn sql_cmd) (\<lambda>_.
       bindp (RemoveFileFromFastDfs fileid) (\<lambda>ret2.
       Ret (if ret2 \<noteq> 0 then - 1 else 0))))))))"

definition release_reference :: "conn_ptr \<Rightarrow> string \<Rightarrow> int prog" where
  "release_reference db_conn md5 =
     bindp (sprintf_buf SQL_MAX_LEN (sql_ref_count md5)) (\<lambda>sql_cmd.
     bindp (GetResultOneCount db_conn sql_cmd 0) (\<lambda>(ret2, count).
     if ret2 \<noteq> 0 then Ret (- 1)
     else
       bindp
         (if 0 < count then
            bindp (sprintf_buf SQL_MAX_LEN (sql_set_ref_count (count - 1) md5)) (\<lambda>sql_cmd.
            bindp (CDBConn_ExecuteUpdate db_conn sql_cmd True) (\<lambda>updated. Ret (updated, count - 1)))
          else Ret (True, count)) (\<lambda>(ok, count).
       if \<not> ok then Ret (- 1)
       else if count = 0 then delete_stored_file db_conn md5
       else Ret 0)))"

definition handleDeleteFile :: "string \<Rightarrow> string \<Rightarrow> string \<Rightarrow> int prog" where
  "handleDeleteFile user md5 filename =
     bindp
       (with_db_conn ''tuchuang_slave'' (\<lambda>db_conn.
        with_cache_conn ''token'' (\<lambda>cache_conn.
          bindp (sprintf_buf 1024 (file_id_of md5 filename)) (\<lambda>fileid.
          bindp (delete_is_shared db_conn cache_conn user md5 filename fileid) (\<lambda>shared.
          case shared of
            None \<Rightarrow> Ret (- 1)
          | Some (is_shared, redis_has_record) \<Rightarrow>
              bindp (if is_shared = 1
                     then delete_share db_conn cache_conn user md5 filename fileid redis_has_record
                     else Ret 0) (\<lambda>ret.
              if ret \<noteq> 0 then Ret ret
              else
                bindp (CacheDecrCount cache_conn (FILE_USER_COUNT @ user)) (\<lambda>ret.
                if ret < 0 then Ret (- 1)
                else
                  bindp (sprintf_buf SQL_MAX_LEN (sql_delete_user_file user md5 filename)) (\<lambda>sql_cmd.
                  bindp (CDBConn_ExecuteDrop db_conn sql_cmd) (\<lambda>dropped.
                  if \<not> dropped then Ret (- 1)
                  else release_reference db_conn md5)))))))))
       (\<lambda>ret. Ret (if ret = 0 then HTTP_RESP_OK else HTTP_RESP_FAIL))"

section \<open>Counting a download\<close>

definition handlePvFile_user :: "string \<Rightarrow> string \<Rightarrow> string \<Rightarrow> int prog" where
  "handlePvFile_user user md5 filename =
     with_db_conn ''tuchuang_slave'' (\<lambda>db_conn.
       bindp (sprintf_buf SQL_MAX_LEN (sql_user_pv user md5 filename)) (\<lambda>sql_cmd.
       bindp (CDBConn_ExecuteQuery db_conn sql_cmd) (\<lambda>pResultSet.
       case pResultSet of
         None \<Rightarrow> Ret HTTP_RESP_FAIL
       | Some rs \<Rightarrow>
           (case CResultSet_Next rs of (found, rs') \<Rightarrow>
              if \<not> found then Ret HTTP_RESP_FAIL
              else
                bindp (CResultSet_GetInt rs' ''pv'') (\<lambda>pv.
                bindp (add_int32 pv 1) (\<lambda>pv1.
                bindp (sprintf_buf SQL_MAX_LEN (sql_set_user_pv pv1 user md5 filename)) (\<lambda>sql_cmd.
                bindp (CDBConn_ExecuteUpdate db_conn sql_cmd True) (\<lambda>updated.
                Ret (if updated then HTTP_RESP_OK else HTTP_RESP_FAIL)))))))))"

section \<open>The request\<close>

definition ApiDealfile :: "string \<Rightarrow> string \<Rightarrow> (int \<times> string) prog" where
  "ApiDealfile url post_data =
     bindp (read_cmd url) (\<lambda>cmd.
     bindp (decodeDealfileJson post_data) (\<lambda>req.
       case req of
         Some [user_name, token, md5, filename] \<Rightarrow>
           bindp (VerifyToken user_name token) (\<lambda>ret.
             if ret \<noteq> 0 then Ret (0, encodeDealfileJson (share_code ShareTokenFail))
             else if cmd = ''share'' then
               bindp (handleShareFile user_name md5 filename) (\<lambda>st. Ret (0, encodeDealfileJson (share_code st)))
             else if cmd = ''del'' then
               bindp (handleDeleteFile user_name md5 filename) (\<lambda>ret. Ret (0, encodeDealfileJson ret))
             else if cmd = ''pv'' then
               bindp (handlePvFile_user user_name md5 filename) (\<lambda>ret. Ret (0, encodeDealfileJson ret))
             else Ret (0, encodeDealfileJson 1))
       | _ \<Rightarrow> Ret (0, encodeDealfileJson (share_code ShareFail))))"

lemma keeps_dealfile [simp]:
  "keeps balanced (handleShareFile user md5 filename)" "keeps balanced (handleDeleteFile user md5 filename)"
  "keeps balanced (handlePvFile_user user md5 filename)"
  by (auto simp: handleShareFile_def share_now_def handleDeleteFile_def delete_is_shared_def delete_share_def
      release_reference_def delete_stored_file_def handlePvFile_user_def
      split: option.splits prod.splits intro!: keeps_bindp)

lemma keeps_ApiDealfile [simp]: "keeps balanced (ApiDealfile url post_data)"
  by (auto simp: ApiDealfile_def decodeDealfileJson_def split: option.splits list.splits intro!: keeps_bindp)

section \<open>The token gate\<close>

text \<open>
  Sharing, deleting and counting need the token: when Redis has another value for the user, the
  answer is code 4 after that one exchange, whatever the command is.
\<close>

lemma ApiDealfile_token_gate:
  assumes "QueryParseKeyValue url ''cmd'' 20 = (Ret (Some (cmd, n)) :: (string \<times> int) option prog)"
    and "readValue (env_libc E) (reader_fuel post_data) post_data = Good (JObj m) rest"
    and "list_all2 (\<lambda>k v. map_of m k = Some (JStr v) \<and> nul_free v)
           [''user'', ''token'', ''md5'', ''filename''] [user, tok, md5, filename]"
    and "env_redis E w [''GET'', c_str user] = (Some r, w1)" and "reply_token r \<noteq> tok"
  shows "yields E (serving cf None None) w (ApiDealfile url post_data) (0, encode_code 4) w1 (serving cf None None)"
  unfolding ApiDealfile_def decodeDealfileJson_def
  by (rule yields_bindp, rule yields_read_cmd [OF assms(1)],
      rule yields_bindp, rule yields_decode_strs [OF assms(2,3)], simp split del: if_split,
      rule yields_bindp, rule yields_VerifyToken [OF assms(4)])
     (simp add: assms(5) encodeDealfileJson_def share_code_def)

lemma demo_url_cmd: "QueryParseKeyValue ''/api/dealfile?cmd=del'' ''cmd'' 20 = Ret (Some (''del'', 3))"
  by (simp add: QueryParseKeyValue_def c_str_def NUL_def strncpy_buf_def stop_char_def)

lemma ApiDealfile_token_gate_witness:
  "yields (demo_env (\<lambda>q. QueryFailed) (\<lambda>w argv. (Some RNil, w))) (serving demo_config None None) Map.empty
     (ApiDealfile ''/api/dealfile?cmd=del'' file_body) (0, encode_code 4) Map.empty (serving demo_config None None)"
  by (rule ApiDealfile_token_gate [OF demo_url_cmd, where m = file_members and rest = "[]" and user = "''bob''"
        and tok = "''t''" and ?md5.0 = "''m''" and filename = "''f.png''" and r = RNil])
     (simp_all add: file_body_parsed file_members_lookup NUL_def reply_token_def is_RString_def)

section \<open>Sharing a file nobody has shared\<close>

definition share_texts_fit :: "string \<Rightarrow> string \<Rightarrow> string \<Rightarrow> string \<Rightarrow> bool" where
  "share_texts_fit user md5 filename now \<longleftrightarrow>
     length (file_id_of md5 filename) < 1024 \<and> length (sql_shared_by_anyone md5 filename) < SQL_MAX_LEN \<and>
     length (sql_mark_shared user md5 filename) < SQL_MAX_LEN \<and>
     length (sql_insert_share user md5 now filename) < SQL_MAX_LEN"

abbreviation "member_query fileid \<equiv>
  [''zlexcount'', c_str FILE_PUBLIC_ZSET, CHR ''['' # c_str fileid, CHR ''['' # c_str fileid]"

text \<open>
  C17. A file that neither Redis nor the database lists as shared becomes shared in five steps, in
  this order: the user's entry is marked, the entry of the list of shared files inserted, the public
  counter incremented, the member added to the sorted set with score 0, and the name stored in the
  hash under the file's identity, MD5 followed by name.
\<close>

theorem handleShareFile_first:
  assumes fit: "share_texts_fit user md5 filename (os_str now)"
    and zset: "env_redis E w (member_query (file_id_of md5 filename)) = (Some (RInteger 0), w1)"
    and nobody: "env_mysql E w1 (c_str (sql_shared_by_anyone md5 filename)) = (no_rows cols, w2)"
    and mark: "env_mysql E w2 (c_str (sql_mark_shared user md5 filename)) = (QueryOk u1 k1, w3)"
    and time: "env_os E w3 OsLocalTime = (now, w4)"
    and ins: "env_mysql E w4 (c_str (sql_insert_share user md5 (os_str now) filename)) = (QueryOk u2 k2, w5)"
    and incr: "env_redis E w5 [''INCR'', c_str FILE_PUBLIC_COUNT] = (Some r1, w6)"
    and zadd: "env_redis E w6 [''ZADD'', c_str FILE_PUBLIC_ZSET, show_int 0, c_str (file_id_of md5 filename)] =
                 (Some (RInteger i), w7)"
    and hset: "env_redis E w7 [''HSET'', c_str FILE_NAME_HASH, c_str (file_id_of md5 filename), c_str filename] =
                 (Some r2, w8)"
  shows "yields E (serving cf None None) w (handleShareFile user md5 filename) ShareOk w8 (serving cf None None)"
proof -
  have now: "yields E (serving cf (Some c) (Some d)) w2
      (share_now (Some c) (Some d) user md5 filename (file_id_of md5 filename)) ShareOk w8
      (serving cf (Some c) (Some d))" for c d
    unfolding share_now_def
    using fit
    by - (rule yields_bindp, rule yields_sprintf, simp add: share_texts_fit_def,
          rule yields_bindp, rule yields_db(2) [OF mark], simp add: update_value_def,
          rule yields_Os [OF time],
          rule yields_bindp, rule yields_sprintf, simp add: share_texts_fit_def,
          rule yields_bindp, rule yields_db(3) [OF ins], simp,
          rule yields_bindp, rule yields_CacheIncrCount [OF incr], simp,
          rule yields_bindp, rule yields_zset(2) [OF zadd],
          rule yields_bindp, rule yields_cache(6) [OF hset], simp)
  show ?thesis
    unfolding handleShareFile_def
    using fit
    by (intro yields_with_db_conn yields_with_cache_conn)
       (rule yields_bindp, rule yields_sprintf, simp add: share_texts_fit_def, simp only: option.distinct simp_thms if_True,
        rule yields_bindp, rule yields_zset(1) [OF zset], simp add: to_int32_def,
        rule yields_bindp, rule yields_sprintf, simp add: share_texts_fit_def,
        rule yields_bindp, rule yields_CheckwhetherHaveRecord [OF nobody],
        simp add: record_value_def no_rows_def, rule now)
qed

definition share_demo_sql :: "string \<Rightarrow> mysql_reply" where
  "share_demo_sql = sql_script
     [(sql_shared_by_anyone ''m'' ''f.png'', no_rows [''id'']),
      (sql_mark_shared ''bob'' ''m'' ''f.png'', QueryOk None 1),
      (sql_insert_share ''bob'' ''m'' ''2024-01-01 00:00:00'' ''f.png'', QueryOk None 1)]"

lemma share_demo_answers:
  "share_demo_sql (c_str (sql_shared_by_anyone ''m'' ''f.png'')) = no_rows [''id'']"
  "share_demo_sql (c_str (sql_mark_shared ''bob'' ''m'' ''f.png'')) = QueryOk None 1"
  "share_demo_sql (c_str (sql_insert_share ''bob'' ''m'' ''2024-01-01 00:00:00'' ''f.png'')) = QueryOk None 1"
  by code_simp+

lemma share_demo_fit: "share_texts_fit ''bob'' ''m'' ''f.png'' ''2024-01-01 00:00:00''"
  by code_simp

theorem handleShareFile_first_witness:
  "yields (demo_env share_demo_sql (calm_redis 0)) (serving demo_config None None) Map.empty
     (handleShareFile ''bob'' ''m'' ''f.png'') ShareOk Map.empty (serving demo_config None None)"
  by (rule handleShareFile_first [where now = "\<lparr>os_int = 0, os_str = ''2024-01-01 00:00:00''\<rparr>"
        and ?w1.0 = Map.empty and ?w2.0 = Map.empty and ?w3.0 = Map.empty and ?w4.0 = Map.empty
        and ?w5.0 = Map.empty and ?w6.0 = Map.empty and ?w7.0 = Map.empty and cols = "[''id'']"
        and ?u1.0 = None and ?k1.0 = 1 and ?u2.0 = None and ?k2.0 = 1 and ?r1.0 = "RInteger 1"
        and ?r2.0 = "RInteger 1" and i = 1])
     (simp_all add: share_demo_answers share_demo_fit)

section \<open>Deleting a file nobody sees\<close>

definition delete_texts_fit :: "string \<Rightarrow> string \<Rightarrow> string \<Rightarrow> int \<Rightarrow> bool" where
  "delete_texts_fit user md5 filename n \<longleftrightarrow>
     length (file_id_of md5 filename) < 1024 \<and> length (sql_shared_status user md5 filename) < SQL_MAX_LEN \<and>
     length (sql_delete_user_file user md5 filename) < SQL_MAX_LEN \<and> length (sql_ref_count md5) < SQL_MAX_LEN \<and>
     length (sql_set_ref_count (n - 1) md5) < SQL_MAX_LEN \<and> length (sql_file_id md5) < SQL_MAX_LEN \<and>
     length (sql_delete_file_info md5) < SQL_MAX_LEN"

text \<open>What release_reference does to a file with n references, the last of which takes it away.\<close>

lemma yields_release_kept:
  assumes "delete_texts_fit user md5 filename n" and "is_int32 n" and "2 \<le> n"
    and "env_mysql E w (c_str (sql_ref_count md5)) = (one_cell ''count'' (show_int n), w1)"
    and "env_mysql E w1 (c_str (sql_set_ref_count (n - 1) md5)) = (QueryOk u (Suc k), w2)"
  shows "yields E (serving cf (Some c) cl) w (release_reference (Some c) md5) 0 w2 (serving cf (Some c) cl)"
  unfolding release_reference_def
  using assms(1,3)
  by - (rule yields_bindp, rule yields_sprintf, simp add: delete_texts_fit_def,
        rule yields_bindp, rule yields_GetResultOneCount [OF assms(4,2)], simp,
        rule yields_bindp, rule yields_bindp, rule yields_sprintf, simp add: delete_texts_fit_def,
        rule yields_bindp, rule yields_db(2) [OF assms(5)], simp add: update_value_def, rule yields_Ret, simp)

lemma yields_stored_gone:
  assumes "delete_texts_fit user md5 filename n" and "nul_free fileid"
    and "env_mysql E w (c_str (sql_file_id md5)) = (one_cell ''file_id'' fileid, w1)"
    and "env_mysql E w1 (c_str (sql_delete_file_info md5)) = (r, w2)"
    and "env_os E w2 (OsSystem (c_printf ''fdfs_delete_file %s %s'' [PStr client, PStr fileid])) = (rc, w3)"
    and "length (c_printf ''fdfs_delete_file %s %s'' [PStr client, PStr fileid]) < 1024 * 2"
  shows "yields E (serving (client, ip, port) (Some c) cl) w (delete_stored_file (Some c) md5)
           (if os_int rc \<noteq> 0 then - 1 else 0) w3 (serving (client, ip, port) (Some c) cl)"
  unfolding delete_stored_file_def
  using assms(1)
  by - (rule yields_bindp, rule yields_sprintf, simp add: delete_texts_fit_def,
        rule yields_bindp, rule yields_db(1) [OF assms(3)],
        simp add: query_value_def one_cell_def deref_def new_CResultSet_def CResultSet_Next_def
          CResultSet_GetString_def GetIndex_def cell_at_def assms(2) NUL_def split del: if_split,
        rule yields_bindp, rule yields_sprintf, simp add: delete_texts_fit_def,
        rule yields_bindp, rule yields_db(5) [OF assms(4)],
        rule yields_bindp, rule yields_RemoveFile [OF assms(5,6)], rule yields_Ret)

lemma yields_release_last:
  assumes "delete_texts_fit user md5 filename 1" and "nul_free fileid"
    and "env_mysql E w (c_str (sql_ref_count md5)) = (one_cell ''count'' (show_int 1), w1)"
    and "env_mysql E w1 (c_str (sql_set_ref_count 0 md5)) = (QueryOk u (Suc k), w2)"
    and "env_mysql E w2 (c_str (sql_file_id md5)) = (one_cell ''file_id'' fileid, w3)"
    and "env_mysql E w3 (c_str (sql_delete_file_info md5)) = (r, w4)"
    and "env_os E w4 (OsSystem (c_printf ''fdfs_delete_file %s %s'' [PStr client, PStr fileid])) = (rc, w5)"
    and "length (c_printf ''fdfs_delete_file %s %s'' [PStr client, PStr fileid]) < 1024 * 2"
    and "os_int rc = 0"
  shows "yields E (serving (client, ip, port) (Some c) cl) w (release_reference (Some c) md5) 0 w5
           (serving (client, ip, port) (Some c) cl)"
proof -
  have n: "is_int32 1" by (simp add: is_int32_def)
  have stored: "yields E (serving (client, ip, port) (Some c) cl) w2 (delete_stored_file (Some c) md5) 0 w5
      (serving (client, ip, port) (Some c) cl)"
    using yields_stored_gone [OF assms(1,2,5-8)] assms(9) by simp
  show ?thesis
    unfolding release_reference_def
    using assms(1)
    by - (rule yields_bindp, rule yields_sprintf, simp add: delete_texts_fit_def,
          rule yields_bindp, rule yields_GetResultOneCount [OF assms(3) n], simp,
          rule yields_bindp, rule yields_bindp, rule yields_sprintf, simp add: delete_texts_fit_def,
          rule yields_bindp, rule yields_db(2) [OF assms(4)], simp add: update_value_def, rule yields_Ret,
          simp add: stored)
qed

text \<open>
  C7. Deleting a file that is not shared takes the user's entry away and releases one of its n
  references. While others remain the stored count becomes n - 1 and nothing else happens to the
  file; with the last one its row in file_info is deleted and FastDFS is told to delete the very
  file the row named.
\<close>

theorem handleDeleteFile_private:
  assumes fit: "delete_texts_fit user md5 filename n" and n: "is_int32 n" "1 \<le> n"
    and zset: "env_redis E w (member_query (file_id_of md5 filename)) = (Some (RInteger 0), w1)"
    and status: "env_mysql E w1 (c_str (sql_shared_status user md5 filename)) = (one_cell ''shared_status'' (show_int 0), w2)"
    and decr: "env_redis E w2 [''DECR'', c_str (FILE_USER_COUNT @ user)] = (Some (RInteger i), w3)" "0 \<le> i"
    and entry: "env_mysql E w3 (c_str (sql_delete_user_file user md5 filename)) = (QueryOk u0 k0, w4)"
    and count: "env_mysql E w4 (c_str (sql_ref_count md5)) = (one_cell ''count'' (show_int n), w5)"
    and set: "env_mysql E w5 (c_str (sql_set_ref_count (n - 1) md5)) = (QueryOk u (Suc k), w6)"
    and kept: "2 \<le> n \<Longrightarrow> w9 = w6"
    and last: "n = 1 \<Longrightarrow> nul_free fileid \<and>
         length (c_printf ''fdfs_delete_file %s %s'' [PStr client, PStr fileid]) < 1024 * 2 \<and>
         env_mysql E w6 (c_str (sql_file_id md5)) = (one_cell ''file_id'' fileid, w7) \<and>
         env_mysql E w7 (c_str (sql_delete_file_info md5)) = (r, w8) \<and>
         env_os E w8 (OsSystem (c_printf ''fdfs_delete_file %s %s'' [PStr client, PStr fileid])) = (rc, w9) \<and>
         os_int rc = 0"
  shows "yields E (serving (client, ip, port) None None) w (handleDeleteFile user md5 filename) HTTP_RESP_OK w9
           (serving (client, ip, port) None None)"
proof -
  let ?S = "\<lambda>c d. serving (client, ip, port) (Some c) (Some d)"
  have release: "yields E (?S c d) w4 (release_reference (Some c) md5) 0 w9 (?S c d)" for c d
  proof (cases "n = 1")
    case True
    then have fit1: "delete_texts_fit user md5 filename 1" using fit by simp
    have one: "env_mysql E w4 (c_str (sql_ref_count md5)) = (one_cell ''count'' (show_int 1), w5)"
      and zero: "env_mysql E w5 (c_str (sql_set_ref_count 0 md5)) = (QueryOk u (Suc k), w6)"
      using count set True by simp_all
    show ?thesis
      using last [OF True] by (intro yields_release_last [OF fit1 _ one zero]) auto
  next
    case False
    then have two: "2 \<le> n" using n(2) by simp
    show ?thesis
      using yields_release_kept [OF fit n(1) two count set] kept [OF two] by simp
  qed
  have shared: "yields E (?S c d) w (delete_is_shared (Some c) (Some d) user md5 filename (file_id_of md5 filename))
      (Some (0, False)) w2 (?S c d)" for c d
    unfolding delete_is_shared_def
    using fit
    by - (rule yields_bindp, rule yields_zset(1) [OF zset], simp add: to_int32_def,
          rule yields_bindp, rule yields_sprintf, simp add: delete_texts_fit_def,
          rule yields_bindp, rule yields_GetResultOneStatus [OF status], simp_all)
  have gone: "yields E (?S c d) w2 (CacheDecrCount (Some d) (FILE_USER_COUNT @ user)) 0 w3 (?S c d)" for c d
    by (rule yields_CacheDecrCount [OF decr(1)]) (use decr(2) in \<open>simp_all add: reply_integer_def\<close>)
  show ?thesis
    unfolding handleDeleteFile_def
    using fit
    by - (rule yields_bindp, rule yields_with_db_conn, rule yields_with_cache_conn,
          rule yields_bindp, rule yields_sprintf, simp add: delete_texts_fit_def,
          rule yields_bindp, rule shared, simp,
          rule yields_bindp, rule gone, simp,
          rule yields_bindp, rule yields_sprintf, simp add: delete_texts_fit_def,
          rule yields_bindp, rule yields_db(5) [OF entry], simp, rule release, simp)
qed

definition delete_demo_sql :: "string \<Rightarrow> mysql_reply" where
  "delete_demo_sql = sql_script
     [(sql_shared_status ''bob'' ''m'' ''f.png'', one_cell ''shared_status'' (show_int 0)),
      (sql_delete_user_file ''bob'' ''m'' ''f.png'', QueryOk None 1),
      (sql_ref_count ''m'', one_cell ''count'' (show_int 1)),
      (sql_set_ref_count 0 ''m'', QueryOk None 1),
      (sql_file_id ''m'', one_cell ''file_id'' ''group1/M00''),
      (sql_delete_file_info ''m'', QueryOk None 1)]"

lemma delete_demo_answers:
  "delete_demo_sql (c_str (sql_shared_status ''bob'' ''m'' ''f.png'')) = one_cell ''shared_status'' (show_int 0)"
  "delete_demo_sql (c_str (sql_delete_user_file ''bob'' ''m'' ''f.png'')) = QueryOk None 1"
  "delete_demo_sql (c_str (sql_ref_count ''m'')) = one_cell ''count'' (show_int 1)"
  "delete_demo_sql (c_str (sql_set_ref_count 0 ''m'')) = QueryOk None 1"
  "delete_demo_sql (c_str (sql_file_id ''m'')) = one_cell ''file_id'' ''group1/M00''"
  "delete_demo_sql (c_str (sql_delete_file_info ''m'')) = QueryOk None 1"
  by code_simp+

lemma delete_demo_fit: "delete_texts_fit ''bob'' ''m'' ''f.png'' 1"
  "length (c_printf ''fdfs_delete_file %s %s'' [PStr ''/etc/fdfs/client.conf'', PStr ''group1/M00'']) < 1024 * 2"
  by code_simp+

theorem handleDeleteFile_private_witness:
  "yields (demo_env delete_demo_sql (calm_redis 0)) (serving (''/etc/fdfs/client.conf'', ''127.0.0.1'', ''80'') None None)
     Map.empty (handleDeleteFile ''bob'' ''m'' ''f.png'') HTTP_RESP_OK Map.empty
     (serving (''/etc/fdfs/client.conf'', ''127.0.0.1'', ''80'') None None)"
  by (rule handleDeleteFile_private [OF delete_demo_fit(1), where fileid = "''group1/M00''" and i = 1
        and rc = "\<lparr>os_int = 0, os_str = ''2024-01-01 00:00:00''\<rparr>" and k = 0 and ?k0.0 = 1 and u = None and ?u0.0 = None
        and r = "QueryOk None 1" and ?w1.0 = Map.empty and ?w2.0 = Map.empty and ?w3.0 = Map.empty
        and ?w4.0 = Map.empty and ?w5.0 = Map.empty and ?w6.0 = Map.empty and ?w7.0 = Map.empty
        and ?w8.0 = Map.empty])
     (use delete_demo_fit(2) in \<open>simp_all add: delete_demo_answers is_int32_def NUL_def\<close>)

end
