(* ===== verification/Api_Deal_Sharefile.thy ===== *)
theory Api_Deal_Sharefile
  imports Api_Dealfile
begin

text \<open>
  api/api_deal_sharefile.cc: counting a download of a shared file, taking a share back, and saving
  another user's shared file as one's own. No token is asked for. The texts that are those of
  api_dealfile.cc to the letter are the definitions of that theory.
\<close>

definition decodeDealsharefileJson :: "string \<Rightarrow> string list option prog" where
  "decodeDealsharefileJson str_json =
     parse_request str_json (\<lambda>root. str_fields root [''user'', ''md5'', ''filename''])"

definition encodeDealsharefileJson :: "int \<Rightarrow> string" where
  "encodeDealsharefileJson ret = encode_code ret"

section \<open>Statements\<close>

definition sql_share_pv :: "string \<Rightarrow> string \<Rightarrow> string" where
  [sql_text]: "sql_share_pv md5 filename =
     c_printf (''select pv from share_file_list where md5 = '%s' and file_name = '%s'' @ [CHR 0x27])
       [PStr md5, PStr filename]"

definition sql_set_share_pv :: "int \<Rightarrow> string \<Rightarrow> string \<Rightarrow> string" where
  [sql_text]: "sql_set_share_pv pv md5 filename =
     c_printf (''update share_file_list set pv = %d where md5 = '%s' and file_name = '%s'' @ [CHR 0x27])
       [PInt pv, PStr md5, PStr filename]"

definition sql_mark_unshared :: "string \<Rightarrow> string \<Rightarrow> string \<Rightarrow> string" where
  [sql_text]: "sql_mark_unshared user md5 filename =
     c_printf (''update user_file_list set shared_status = 0 where user = '%s' and md5 = '%s' and file_name = '%s'' @ [CHR 0x27])
       [PStr user, PStr md5, PStr filename]"

definition sql_has_entry :: "string \<Rightarrow> string \<Rightarrow> string \<Rightarrow> string" where
  [sql_text]: "sql_has_entry user md5 filename =
     c_printf (''select * from user_file_list where user = '%s' and md5 = '%s' and file_name = '%s'' @ [CHR 0x27])
       [PStr user, PStr md5, PStr filename]"

definition sql_save_ref_count :: "int \<Rightarrow> string \<Rightarrow> string" where
  [sql_text]: "sql_save_ref_count n md5 =
     c_printf (''update file_info set count = %d where md5 = '%s'' @ [CHR 0x27]) [PInt n, PStr md5]"

definition sql_save_entry :: "string \<Rightarrow> string \<Rightarrow> string \<Rightarrow> string \<Rightarrow> string" where
  [sql_text]: "sql_save_entry user md5 now filename =
     c_printf ''insert into user_file_list(user, md5, create_time, file_name, shared_status, pv) values ('%s', '%s', '%s', '%s', %d, %d)''
       [PStr user, PStr md5, PStr now, PStr filename, PInt 0, PInt 0]"

section \<open>Counting a download\<close>

definition handlePvFile :: "string \<Rightarrow> string \<Rightarrow> int prog" where
  "handlePvFile md5 filename =
     bindp
       (with_db_conn ''tuchuang_slave'' (\<lambda>db_conn.
        with_cache_conn ''token'' (\<lambda>cache_conn.
          bindp (sprintf_buf 1024 (file_id_of md5 filename)) (\<lambda>fileid.
          bindp (sprintf_buf SQL_MAX_LEN (sql_share_pv md5 filename)) (\<lambda>sql_cmd.
          bindp (CDBConn_ExecuteQuery db_conn sql_cmd) (\<lambda>pResultSet.
          case pResultSet of
            None \<Rightarrow> Ret (- 1)
          | Some rs \<Rightarrow>
              (case CResultSet_Next rs of (found, rs') \<Rightarrow>
                 if \<not> found then Ret (- 1)
                 else
                   bindp (CResultSet_GetInt rs' ''pv'') (\<lambda>pv.
                   bindp (add_int32 pv 1) (\<lambda>pv1.
                   bindp (sprintf_buf SQL_MAX_LEN (sql_set_share_pv pv1 md5 filename)) (\<lambda>sql_cmd.
                   bindp (CDBConn_ExecuteUpdate db_conn sql_cmd False) (\<lambda>updated.
                   if \<not> updated then Ret (- 1)
                   else
                     bindp (CacheConn_ZsetExit cache_conn FILE_PUBLIC_ZSET fileid) (\<lambda>ret2.
                     if ret2 = 1 then CacheConn_ZsetIncr cache_conn FILE_PUBLIC_ZSET fileid
                     else if ret2 = 0 then
                       bindp (CacheConn_ZsetAdd cache_conn FILE_PUBLIC_ZSET pv1 fileid) (\<lambda>_.
                       bindp (CacheConn_Hset cache_conn FILE_NAME_HASH fileid filename) (\<lambda>_. Ret 0))
                     else Ret (- 1)))))))))))))
       (\<lambda>ret. Ret (if ret = 0 then HTTP_RESP_OK else HTTP_RESP_FAIL))"

section \<open>Taking a share back\<close>

definition handleCancelShareFile :: "string \<Rightarrow> string \<Rightarrow> string \<Rightarrow> int prog" where
  "handleCancelShareFile user_name md5 filename =
     bindp
       (with_db_conn ''tuchuang_slave'' (\<lambda>db_conn.
        with_cache_conn ''token'' (\<lambda>cache_conn.
          bindp (sprintf_buf 1024 (file_id_of md5 filename)) (\<lambda>fileid.
          bindp (sprintf_buf SQL_MAX_LEN (sql_mark_unshared user_name md5 filename)) (\<lambda>sql_cmd.
          bindp (CDBConn_ExecuteUpdate db_conn sql_cmd False) (\<lambda>updated.
          if \<not> updated then Ret (- 1)
          else
            bindp (CacheDecrCount cache_conn FILE_PUBLIC_COUNT) (\<lambda>ret2.
            if ret2 < 0 then Ret (- 1)
            else
              bindp (sprintf_buf SQL_MAX_LEN (sql_delete_share user_name md5 filename)) (\<lambda>sql_cmd.
              bindp (CDBConn_ExecuteDrop db_conn sql_cmd) (\<lambda>dropped.
              if \<not> dropped then Ret (- 1)
              else
                bindp (CacheConn_ZsetZrem cache_conn FILE_PUBLIC_ZSET fileid) (\<lambda>ret.
                if ret \<noteq> 0 then Ret ret
                else CacheConn_Hdel cache_conn FILE_NAME_HASH fileid))))))))))
       (\<lambda>ret. Ret (if ret = 0 then HTTP_RESP_OK else HTTP_RESP_FAIL))"

section \<open>Saving a shared file\<close>

definition save_as_own :: "conn_ptr \<Rightarrow> conn_ptr \<Rightarrow> string \<Rightarrow> string \<Rightarrow> string \<Rightarrow> int prog" where
  "save_as_own db_conn cache_conn user_name md5 filename =
     bindp (sprintf_buf SQL_MAX_LEN (sql_ref_count md5)) (\<lambda>sql_cmd.
     bindp (GetResultOneCount db_conn sql_cmd 0) (\<lambda>(ret2, count).
     if ret2 \<noteq> 0 then Ret (- 1)
     else
       bindp (add_int32 count 1) (\<lambda>count1.
       bindp (sprintf_buf SQL_MAX_LEN (sql_save_ref_count count1 md5)) (\<lambda>sql_cmd.
       bindp (CDBConn_ExecuteUpdate db_conn sql_cmd True) (\<lambda>updated.
       if \<not> updated then Ret (- 1)
       else
         Os OsLocalTime (\<lambda>time_str.
         bindp (sprintf_buf SQL_MAX_LEN (sql_save_entry user_name md5 (os_str time_str) filename)) (\<lambda>sql_cmd.
         bindp (CDBConn_ExecuteCreate db_conn sql_cmd) (\<lambda>inserted.
         if \<not> inserted then Ret (- 1)
         else
           bindp (CacheIncrCount cache_conn (FILE_USER_COUNT @ user_name)) (\<lambda>ret.
           Ret (if ret < 0 then - 1 else 0))))))))))"

definition handleSaveFile :: "string \<Rightarrow> string \<Rightarrow> string \<Rightarrow> int prog" where
  "handleSaveFile user_name md5 filename =
     bindp
       (with_db_conn ''tuchuang_slave'' (\<lambda>db_conn.
        with_cache_conn ''token'' (\<lambda>cache_conn.
          bindp (sprintf_buf SQL_MAX_LEN (sql_has_entry user_name md5 filename)) (\<lambda>sql_cmd.
          bindp (CheckwhetherHaveRecord db_conn sql_cmd) (\<lambda>ret2.
          if ret2 = 1 then Ret (- 2)
          else if ret2 < 0 then Ret (- 1)
          else save_as_own db_conn cache_conn user_name md5 filename)))))
       (\<lambda>ret. Ret (if ret = 0 then HTTP_RESP_OK
                   else if ret = - 1 then HTTP_RESP_FAIL
                   else if ret = - 2 then HTTP_RESP_FILE_EXIST
                   else 0))"

section \<open>The request\<close>

text \<open>cmd is read for the first time by the log line behind the decoder.\<close>

definition ApiDealsharefile :: "string \<Rightarrow> string \<Rightarrow> (int \<times> string) prog" where
  "ApiDealsharefile url post_data =
     bindp (QueryParseKeyValue url ''cmd'' 20) (\<lambda>value.
     bindp (decodeDealsharefileJson post_data) (\<lambda>req.
     bindp (init_read (map_option fst value)) (\<lambda>cmd.
       case req of
         Some [user_name, md5, filename] \<Rightarrow>
           bindp (if cmd = ''cancel'' then handleCancelShareFile user_name md5 filename
                  else if cmd = ''save'' then handleSaveFile user_name md5 filename
                  else if cmd = ''pv'' then handlePvFile md5 filename
                  else Ret 0) (\<lambda>ret.
           Ret (0, encodeDealsharefileJson (if ret < 0 then HTTP_RESP_FAIL else HTTP_RESP_OK)))
       | _ \<Rightarrow> Ret (0, encodeDealsharefileJson HTTP_RESP_FAIL))))"

lemma keeps_deal_sharefile [simp]:
  "keeps balanced (handlePvFile md5 filename)" "keeps balanced (handleCancelShareFile user_name md5 filename)"
  "keeps balanced (handleSaveFile user_name md5 filename)"
  by (auto simp: handlePvFile_def handleCancelShareFile_def handleSaveFile_def save_as_own_def
      split: option.splits prod.splits intro!: keeps_bindp)

lemma keeps_ApiDealsharefile [simp]: "keeps balanced (ApiDealsharefile url post_data)"
  by (auto simp: ApiDealsharefile_def decodeDealsharefileJson_def split: option.splits list.splits intro!: keeps_bindp)

lemma results_deal_sharefile:
  "results (\<lambda>r. r \<in> {HTTP_RESP_OK, HTTP_RESP_FAIL}) (handlePvFile md5 filename)"
  "results (\<lambda>r. r \<in> {HTTP_RESP_OK, HTTP_RESP_FAIL}) (handleCancelShareFile user_name md5 filename)"
  "results (\<lambda>r. r \<in> {HTTP_RESP_OK, HTTP_RESP_FAIL, HTTP_RESP_FILE_EXIST}) (handleSaveFile user_name md5 filename)"
  by (auto simp: handlePvFile_def handleCancelShareFile_def handleSaveFile_def http_resp_defs intro!: results_bindpI)

section \<open>The answer\<close>

text \<open>
  C16. Once the body decodes, the answer is code 0 whatever happened: the three handlers report
  their failures as HTTP_RESP_FAIL and HTTP_RESP_FILE_EXIST, which are positive, and ApiDealsharefile
  takes only a negative result for a failure.
\<close>

theorem ApiDealsharefile_always_ok:
  assumes "readValue (env_libc E) (reader_fuel post_data) post_data = Good (JObj m) rest"
    and "list_all2 (\<lambda>k v. map_of m k = Some (JStr v) \<and> nul_free v)
           [''user'', ''md5'', ''filename''] [user, md5, filename]"
    and "run E (ApiDealsharefile url post_data) s w = (Done (rc, str_json), s', w')"
  shows "str_json = encode_code 0"
proof -
  have decode: "yields E (\<lambda>t. True) v (decodeDealsharefileJson post_data) (Some [user, md5, filename]) v (\<lambda>t. True)" for v
    unfolding decodeDealsharefileJson_def by (rule yields_decode_strs [OF assms(1,2)])
  have handled: "results (\<lambda>ret. \<not> ret < 0)
      (if cmd = ''cancel'' then handleCancelShareFile user md5 filename
       else if cmd = ''save'' then handleSaveFile user md5 filename
       else if cmd = ''pv'' then handlePvFile md5 filename else Ret 0)" for cmd
    by (auto simp: http_resp_defs
        intro: results_mono [OF results_deal_sharefile(1)] results_mono [OF results_deal_sharefile(2)]
          results_mono [OF results_deal_sharefile(3)])
  have "results (\<lambda>r. snd r = encode_code 0)
      (bindp (init_read (map_option fst val)) (\<lambda>cmd.
         bindp (if cmd = ''cancel'' then handleCancelShareFile user md5 filename
                else if cmd = ''save'' then handleSaveFile user md5 filename
                else if cmd = ''pv'' then handlePvFile md5 filename else Ret 0) (\<lambda>ret.
         Ret (0 :: int, encodeDealsharefileJson (if ret < 0 then HTTP_RESP_FAIL else HTTP_RESP_OK)))))" for val
    by (rule results_bindpI, rule results_bindp [OF handled])
       (simp add: encodeDealsharefileJson_def HTTP_RESP_OK_def)
  note ok = results_run [OF this]
  from assms(3) obtain v t u where q: "run E (QueryParseKeyValue url ''cmd'' 20) s w = (Done v, t, u)"
    by (auto simp: ApiDealsharefile_def then_run_Done_iff)
  obtain t' where "run E (decodeDealsharefileJson post_data) t u = (Done (Some [user, md5, filename]), t', u)"
    using decode [of u] by (auto simp: yields_def)
  with q assms(3) have "run E (bindp (init_read (map_option fst v)) (\<lambda>cmd.
         bindp (if cmd = ''cancel'' then handleCancelShareFile user md5 filename
                else if cmd = ''save'' then handleSaveFile user md5 filename
                else if cmd = ''pv'' then handlePvFile md5 filename else Ret 0) (\<lambda>ret.
         Ret (0 :: int, encodeDealsharefileJson (if ret < 0 then HTTP_RESP_FAIL else HTTP_RESP_OK))))) t' u
       = (Done (rc, str_json), s', w')"
    by (simp add: ApiDealsharefile_def)
  from ok [OF this] show ?thesis by simp
qed

section \<open>Counting a download\<close>

definition pv_texts_fit :: "string \<Rightarrow> string \<Rightarrow> int \<Rightarrow> bool" where
  "pv_texts_fit md5 filename n \<longleftrightarrow>
     length (file_id_of md5 filename) < 1024 \<and> length (sql_share_pv md5 filename) < SQL_MAX_LEN \<and>
     length (sql_set_share_pv (n + 1) md5 filename) < SQL_MAX_LEN"

lemma GetInt_row:
  assumes "nul_free col" and "is_int32 n"
  shows "CResultSet_GetInt \<lparr>key_map = [col], rows_left = rs, row_cur = RowAt [Some (show_int n)]\<rparr> col = Ret n"
  using assms by (simp add: CResultSet_GetInt_def GetIndex_def cell_at_def deref_def atoi_show_int)

lemma show_int_not_OK: "c_str (show_int j) \<noteq> ''OK''"
proof
  assume "c_str (show_int j) = ''OK''"
  then have "show_int j = ''OK''" by simp
  then show False using show_int_chars [of j] by (simp add: is_digit_def)
qed

text \<open>
  C33. A download of a shared file with pv n stores n + 1 in the database. A file missing from the
  sorted set is put there with score n + 1 and its name into the hash, and the answer is success;
  for a file already there the score is incremented too, but the reply to ZINCRBY, a number, is
  compared with OK, and the answer is failure.
\<close>

theorem handlePvFile_counts:
  assumes fit: "pv_texts_fit md5 filename n" and n: "is_int32 n" "is_int32 (n + 1)"
    and pv: "env_mysql E w (c_str (sql_share_pv md5 filename)) = (one_cell ''pv'' (show_int n), w1)"
    and set: "env_mysql E w1 (c_str (sql_set_share_pv (n + 1) md5 filename)) = (QueryOk u k, w2)"
    and zset: "env_redis E w2 (member_query (file_id_of md5 filename)) = (Some (RInteger i), w3)" "i = 0 \<or> i = 1"
    and new: "i = 0 \<Longrightarrow>
        env_redis E w3 [''ZADD'', c_str FILE_PUBLIC_ZSET, show_int (n + 1), c_str (file_id_of md5 filename)] = (Some (RInteger j), w4) \<and>
        env_redis E w4 [''HSET'', c_str FILE_NAME_HASH, c_str (file_id_of md5 filename), c_str filename] = (Some r, w5)"
    and known: "i = 1 \<Longrightarrow>
        env_redis E w3 [''ZINCRBY'', c_str FILE_PUBLIC_ZSET, ''1'', c_str (file_id_of md5 filename)] = (Some (RString (show_int j)), w5)"
  shows "yields E (serving cf None None) w (handlePvFile md5 filename)
           (if i = 0 then HTTP_RESP_OK else HTTP_RESP_FAIL) w5 (serving cf None None)"
proof -
  let ?S = "\<lambda>c d. serving cf (Some c) (Some d)"
  have j: "c_str (show_int j) \<noteq> ''OK''"
    by (rule show_int_not_OK)
  have tail: "yields E (?S c d) w3
     (if to_int32 i = 1 then CacheConn_ZsetIncr (Some d) FILE_PUBLIC_ZSET (file_id_of md5 filename)
      else if to_int32 i = 0 then
        bindp (CacheConn_ZsetAdd (Some d) FILE_PUBLIC_ZSET (n + 1) (file_id_of md5 filename)) (\<lambda>_.
        bindp (CacheConn_Hset (Some d) FILE_NAME_HASH (file_id_of md5 filename) filename) (\<lambda>_. Ret 0))
      else Ret (- 1)) (if i = 0 then 0 else - 1) w5 (?S c d)" for c d
  proof (cases "i = 0")
    case True
    then show ?thesis
      using new by (simp add: to_int32_def)
       (rule yields_bindp, rule yields_zset(2), blast, rule yields_bindp, rule yields_cache(6), blast, simp)
  next
    case False
    then have "i = 1" using zset(2) by simp
    with yields_zset(4) [OF known [OF this] j] show ?thesis by (simp add: to_int32_def)
  qed
  show ?thesis
    unfolding handlePvFile_def
    using fit n
    by - (rule yields_bindp, rule yields_with_db_conn, rule yields_with_cache_conn,
      rule yields_bindp, rule yields_sprintf, simp add: pv_texts_fit_def,
      rule yields_bindp, rule yields_sprintf, simp add: pv_texts_fit_def,
      rule yields_bindp, rule yields_db(1) [OF pv],
      simp add: query_value_def one_cell_def new_CResultSet_def CResultSet_Next_def GetInt_row NUL_def split del: if_split,
      rule yields_bindp, rule yields_add_int32, simp,
      rule yields_bindp, rule yields_sprintf, simp add: pv_texts_fit_def,
      rule yields_bindp, rule yields_db(2) [OF set], simp add: update_value_def split del: if_split,
      rule yields_bindp, rule yields_zset(1) [OF zset(1)], rule tail, simp)
qed


definition pv_demo_sql :: "string \<Rightarrow> mysql_reply" where
  "pv_demo_sql = sql_script
     [(sql_share_pv ''m'' ''f.png'', one_cell ''pv'' (show_int 6)),
      (sql_set_share_pv 7 ''m'' ''f.png'', QueryOk None 1)]"

lemma pv_demo:
  "pv_demo_sql (c_str (sql_share_pv ''m'' ''f.png'')) = one_cell ''pv'' (show_int 6)"
  "pv_demo_sql (c_str (sql_set_share_pv 7 ''m'' ''f.png'')) = QueryOk None 1"
  "pv_texts_fit ''m'' ''f.png'' 6" "show_int 1 = ''1''"
  by code_simp+

theorem handlePvFile_counts_witness:
  "yields (demo_env pv_demo_sql (calm_redis 1)) (serving demo_config None None) Map.empty
     (handlePvFile ''m'' ''f.png'') (if (1 :: int) = 0 then HTTP_RESP_OK else HTTP_RESP_FAIL) Map.empty
     (serving demo_config None None)"
  by (rule handlePvFile_counts [OF pv_demo(3), where u = None and k = 1 and i = 1 and j = 1
        and ?w1.0 = Map.empty and ?w2.0 = Map.empty and ?w3.0 = Map.empty and ?w4.0 = Map.empty])
     (simp_all add: pv_demo is_int32_def)

section \<open>Saving a file\<close>

definition save_texts_fit :: "string \<Rightarrow> string \<Rightarrow> string \<Rightarrow> int \<Rightarrow> string \<Rightarrow> bool" where
  "save_texts_fit user md5 filename n now \<longleftrightarrow>
     length (sql_has_entry user md5 filename) < SQL_MAX_LEN \<and> length (sql_ref_count md5) < SQL_MAX_LEN \<and>
     length (sql_save_ref_count (n + 1) md5) < SQL_MAX_LEN \<and>
     length (sql_save_entry user md5 now filename) < SQL_MAX_LEN"

lemma record_value_cases: "record_value m = - 1 \<or> record_value m = 0 \<or> record_value m = 1"
  by (simp add: record_value_def split: mysql_reply.splits option.splits)

text \<open>
  C19. A user who has the file already is refused with code 5 after one SELECT. One who has not gets
  an entry for it: the reference count n becomes n + 1 before the entry is inserted and the counter
  of the user incremented. When the insertion fails the answer is code 1 and the count stays raised.
\<close>

theorem handleSaveFile_references:
  assumes fit: "save_texts_fit user md5 filename n (os_str now)" and n: "is_int32 n" "is_int32 (n + 1)"
    and mine: "env_mysql E w (c_str (sql_has_entry user md5 filename)) = (m, w1)" "0 \<le> record_value m"
    and has: "record_value m = 1 \<Longrightarrow> code = 5 \<and> w6 = w1"
    and count: "record_value m = 0 \<Longrightarrow>
        env_mysql E w1 (c_str (sql_ref_count md5)) = (one_cell ''count'' (show_int n), w2) \<and>
        env_mysql E w2 (c_str (sql_save_ref_count (n + 1) md5)) = (QueryOk u (Suc k), w3) \<and>
        env_os E w3 OsLocalTime = (now, w4) \<and>
        env_mysql E w4 (c_str (sql_save_entry user md5 (os_str now) filename)) = (r, w5) \<and>
        (if r = QueryFailed then code = 1 \<and> w6 = w5
         else code = 0 \<and> env_redis E w5 [''INCR'', c_str (FILE_USER_COUNT @ user)] = (Some i, w6))"
  shows "yields E (serving cf None None) w (handleSaveFile user md5 filename) code w6 (serving cf None None)"
proof -
  let ?S = "\<lambda>c d. serving cf (Some c) (Some d)"
  have save: "yields E (?S c d) w1 (save_as_own (Some c) (Some d) user md5 filename) (- code) w6 (?S c d)"
    if 0: "record_value m = 0" for c d
  proof -
    note a = count [OF 0]
    have tail: "yields E (?S c d) w5
        (if \<not> r \<noteq> QueryFailed then Ret (- 1)
         else bindp (CacheIncrCount (Some d) (FILE_USER_COUNT @ user)) (\<lambda>ret. Ret (if ret < 0 then - 1 else 0)))
        (- code) w6 (?S c d)"
    proof (cases "r = QueryFailed")
      case False
      then have "yields E (?S c d) w5 (CacheIncrCount (Some d) (FILE_USER_COUNT @ user)) 0 w6 (?S c d)"
        using a by (auto intro: yields_CacheIncrCount)
      then show ?thesis
        using False a by (auto intro: yields_bindp)
    qed (use a in simp)
    show ?thesis
      unfolding save_as_own_def
      using fit n
      by - (rule yields_bindp, rule yields_sprintf, simp add: save_texts_fit_def,
        rule yields_bindp, rule yields_GetResultOneCount [OF a [THEN conjunct1] n(1)], simp split del: if_split,
        rule yields_bindp, rule yields_add_int32, simp,
        rule yields_bindp, rule yields_sprintf, simp add: save_texts_fit_def,
        rule yields_bindp, rule yields_db(2) [OF a [THEN conjunct2, THEN conjunct1]], simp add: update_value_def split del: if_split,
        rule yields_Os [OF a [THEN conjunct2, THEN conjunct2, THEN conjunct1]],
        rule yields_bindp, rule yields_sprintf, simp add: save_texts_fit_def,
        rule yields_bindp, rule yields_db(3) [OF a [THEN conjunct2, THEN conjunct2, THEN conjunct2, THEN conjunct1]], rule tail)
  qed
  have step: "yields E (?S c d) w1 (if record_value m = 1 then Ret (- 2) else if record_value m < 0 then Ret (- 1)
      else save_as_own (Some c) (Some d) user md5 filename) (if record_value m = 1 then - 2 else - code) w6 (?S c d)" for c d
    using mine(2) has save [of c d] record_value_cases [of m] by auto
  have code: "code = 5 \<or> code = 1 \<or> code = 0" "record_value m \<noteq> 1 \<Longrightarrow> code \<noteq> 5" "record_value m = 1 \<Longrightarrow> code = 5"
    using mine(2) has count record_value_cases [of m] by (auto split: if_splits)
  show ?thesis
    unfolding handleSaveFile_def
    using fit code
    by - (rule yields_bindp, rule yields_with_db_conn, rule yields_with_cache_conn,
      rule yields_bindp, rule yields_sprintf, simp add: save_texts_fit_def,
      rule yields_bindp, rule yields_CheckwhetherHaveRecord [OF mine(1)], rule step,
      auto simp: http_resp_defs)
qed


definition save_demo_sql :: "string \<Rightarrow> mysql_reply" where
  "save_demo_sql = sql_script
     [(sql_has_entry ''eve'' ''m'' ''f.png'', no_rows [''id'']),
      (sql_ref_count ''m'', one_cell ''count'' (show_int 1)),
      (sql_save_ref_count 2 ''m'', QueryOk None 1),
      (sql_save_entry ''eve'' ''m'' ''2024-01-01 00:00:00'' ''f.png'', QueryOk None 1)]"

lemma save_demo:
  "save_demo_sql (c_str (sql_has_entry ''eve'' ''m'' ''f.png'')) = no_rows [''id'']"
  "save_demo_sql (c_str (sql_ref_count ''m'')) = one_cell ''count'' (show_int 1)"
  "save_demo_sql (c_str (sql_save_ref_count 2 ''m'')) = QueryOk None 1"
  "save_demo_sql (c_str (sql_save_entry ''eve'' ''m'' ''2024-01-01 00:00:00'' ''f.png'')) = QueryOk None 1"
  "save_texts_fit ''eve'' ''m'' ''f.png'' 1 ''2024-01-01 00:00:00''"
  by code_simp+

theorem handleSaveFile_references_witness:
  "yields (demo_env save_demo_sql redis_strings) (serving demo_config None None) Map.empty
     (handleSaveFile ''eve'' ''m'' ''f.png'') 0 [FILE_USER_COUNT @ ''eve'' \<mapsto> show_int 1] (serving demo_config None None)"
  by (rule handleSaveFile_references [where now = "\<lparr>os_int = 0, os_str = ''2024-01-01 00:00:00''\<rparr>" and n = 1
        and ?w1.0 = Map.empty and ?w2.0 = Map.empty and ?w3.0 = Map.empty and ?w4.0 = Map.empty
        and ?w5.0 = Map.empty and m = "no_rows [''id'']" and u = None and k = 0 and r = "QueryOk None 1"
        and i = "RInteger 1"])
     (simp_all add: save_demo is_int32_def record_value_def no_rows_def redis_strings_def redis_num_def
       FILE_USER_COUNT_def NUL_def)

text \<open>A cancellation the database refuses at its first statement.\<close>

lemma demo_cancel_fails:
  "yields (demo_env (\<lambda>q. QueryFailed) (calm_redis 1)) (serving demo_config None None) Map.empty
     (handleCancelShareFile ''bob'' ''m'' ''f.png'') HTTP_RESP_FAIL Map.empty (serving demo_config None None)"
proof -
  have fit: "length (file_id_of ''m'' ''f.png'') < 1024" "length (sql_mark_unshared ''bob'' ''m'' ''f.png'') < SQL_MAX_LEN"
    by code_simp+
  show ?thesis
    unfolding handleCancelShareFile_def
    by (rule yields_bindp, rule yields_with_db_conn, rule yields_with_cache_conn,
        rule yields_bindp, rule yields_sprintf, rule fit, rule yields_bindp, rule yields_sprintf, rule fit,
        rule yields_bindp, rule yields_db(2) [where m = QueryFailed], simp, simp add: update_value_def,
        rule yields_Ret, simp)
qed

lemma demo_cancel_run:
  "\<exists>s'. run (demo_env (\<lambda>q. QueryFailed) (calm_redis 1)) (ApiDealsharefile ''/api/dealsharefile?cmd=cancel'' file_body)
     demo_srv Map.empty = (Done (0, encode_code 0), s', Map.empty)"
proof -
  have "QueryParseKeyValue ''/api/dealsharefile?cmd=cancel'' ''cmd'' 20 = (Ret (Some (''cancel'', 6)) :: (string \<times> int) option prog)"
    by (simp add: QueryParseKeyValue_def c_str_def NUL_def strncpy_buf_def stop_char_def)
  moreover obtain s' where "run (demo_env (\<lambda>q. QueryFailed) (calm_redis 1)) (handleCancelShareFile ''bob'' ''m'' ''f.png'')
      demo_srv Map.empty = (Done HTTP_RESP_FAIL, s', Map.empty)"
    using yieldsD [OF demo_cancel_fails demo_serving] by blast
  ultimately show ?thesis
    by (simp add: ApiDealsharefile_def decodeDealsharefileJson_def parse_request_def file_body_parsed str_fields.simps
        file_members_lookup init_read_def encodeDealsharefileJson_def http_resp_defs NUL_def)
qed

theorem ApiDealsharefile_always_ok_witness:
  "\<exists>s' str_json. run (demo_env (\<lambda>q. QueryFailed) (calm_redis 1)) (ApiDealsharefile ''/api/dealsharefile?cmd=cancel'' file_body)
     demo_srv Map.empty = (Done (0, str_json), s', Map.empty) \<and> str_json = encode_code 0"
proof -
  obtain s' where s': "run (demo_env (\<lambda>q. QueryFailed) (calm_redis 1)) (ApiDealsharefile ''/api/dealsharefile?cmd=cancel'' file_body)
     demo_srv Map.empty = (Done (0, encode_code 0), s', Map.empty)"
    using demo_cancel_run by blast
  have "encode_code 0 = encode_code 0"
    by (rule ApiDealsharefile_always_ok [OF _ _ s', of file_members "[]" "''bob''" "''m''" "''f.png''"])
       (simp_all add: file_body_parsed file_members_lookup NUL_def)
  with s' show ?thesis by blast
qed

end
