(* ===== verification/Api_Login.thy ===== *)
theory Api_Login
  imports Demo
begin

text \<open>
  api/api_login.cc: the login request. A call of time whose result is not used is left out of
  verifyUserPassword.
\<close>

definition decodeLoginJson :: "string \<Rightarrow> string list option prog" where
  "decodeLoginJson str_json = parse_request str_json (\<lambda>root. str_fields root [''user'', ''pwd''])"

definition encodeLoginJson :: "int \<Rightarrow> string \<Rightarrow> string" where
  "encodeLoginJson ret token =
     FastWriter_write (json_object
       ((''code'', JInt ret) # (if ret = 0 then [(''token'', JStr token)] else [])))"

definition sql_password :: "string \<Rightarrow> string" where
  [sql_text]: "sql_password user =
     FormatString (''select password from user_info where user_name='%s'' @ [CHR 0x27]) [PStr user]"

definition verifyUserPassword :: "string \<Rightarrow> string \<Rightarrow> int prog" where
  "verifyUserPassword user_name pwd =
     with_db_conn ''tuchuang_slave'' (\<lambda>db_conn.
       bindp (CDBConn_ExecuteQuery db_conn (sql_password user_name)) (\<lambda>pResultSet.
         case pResultSet of
           None \<Rightarrow> Ret (- 1)
         | Some rs \<Rightarrow>
             (case CResultSet_Next rs of (found, rs') \<Rightarrow>
                if found then
                  bindp (CResultSet_GetString rs' ''password'') (\<lambda>cell.
                  bindp (deref cell) (\<lambda>password. Ret (if password = pwd then 0 else - 1)))
                else Ret (- 1))))"

text \<open>The result is the return code and the token.\<close>

definition setToken :: "string \<Rightarrow> (int \<times> string) prog" where
  "setToken user_name =
     with_cache_conn ''token'' (\<lambda>cache_conn.
       bindp (RandomString 32) (\<lambda>token.
         if cache_conn \<noteq> None then
           bindp (CacheConn_SetEx cache_conn user_name 86400 token) (\<lambda>_. Ret (0, token))
         else Ret (- 1, token)))"

definition loadMyfilesCountAndSharepictureCount :: "string \<Rightarrow> int prog" where
  "loadMyfilesCountAndSharepictureCount user_name =
     with_db_conn ''tuchuang_slave'' (\<lambda>db_conn.
     with_cache_conn ''token'' (\<lambda>cache_conn.
       bindp (DBGetUserFilesCountByUsername db_conn user_name) (\<lambda>(ret, file_count).
       if ret < 0 then Ret (- 1)
       else
         bindp (CacheSetCount cache_conn (FILE_USER_COUNT @ user_name) file_count) (\<lambda>ret.
         if ret < 0 then Ret (- 1)
         else
           bindp (DBGetSharePictureCountByUsername db_conn user_name) (\<lambda>(ret, pic_count).
           if ret < 0 then Ret (- 1)
           else
             bindp (CacheSetCount cache_conn (SHARE_PIC_COUNT @ user_name) pic_count) (\<lambda>ret.
             Ret (if ret < 0 then - 1 else 0)))))))"

definition ApiUserLogin :: "string \<Rightarrow> string \<Rightarrow> (int \<times> string) prog" where
  "ApiUserLogin url post_data =
     (if post_data = [] then Ret (- 1, [])
      else
        bindp (decodeLoginJson post_data) (\<lambda>req.
          case req of
            Some [user_name, pwd] \<Rightarrow>
              bindp (verifyUserPassword user_name pwd) (\<lambda>ret.
              if ret < 0 then Ret (- 1, encodeLoginJson 1 [])
              else
                bindp (setToken user_name) (\<lambda>(ret, token).
                if ret < 0 then Ret (- 1, encodeLoginJson 1 token)
                else
                  bindp (loadMyfilesCountAndSharepictureCount user_name) (\<lambda>ret.
                  if ret < 0 then Ret (- 1, encodeLoginJson 1 token)
                  else Ret (0, encodeLoginJson 0 token))))
          | _ \<Rightarrow> Ret (- 1, encodeLoginJson 1 [])))"

section \<open>Lemmas\<close>

lemma encodeLoginJson_fail [simp]: "encodeLoginJson 1 token = encode_code 1"
  by (simp add: encodeLoginJson_def encode_code_def)

definition lower_word :: "nat \<Rightarrow> string \<Rightarrow> bool" where
  "lower_word n s \<longleftrightarrow> length s = n \<and> (\<forall>c \<in> set s. CHR ''a'' \<le> c \<and> c \<le> CHR ''z'')"

lemma results_setToken:
  "results (\<lambda>(ret, token). ret \<in> {- 1, 0} \<and> lower_word 32 token) (setToken u)"
  unfolding setToken_def
  by (rule results_with_conn(2), rule results_bindp [OF results_RandomString])
     (auto simp: lower_word_def intro!: results_bindpI)

lemma results_load: "results (\<lambda>r. r \<in> {- 1, 0}) (loadMyfilesCountAndSharepictureCount u)"
  by (auto simp: loadMyfilesCountAndSharepictureCount_def intro!: results_bindpI)

lemma results_verifyUserPassword: "results (\<lambda>r. r \<in> {- 1, 0}) (verifyUserPassword u p)"
  by (auto simp: verifyUserPassword_def split: option.splits prod.splits intro!: results_bindpI)

lemma calls_decodeLoginJson [simp]: "calls P (decodeLoginJson s)"
  by (simp add: decodeLoginJson_def)

text \<open>
  C40. Logging in answers in one of three ways: nothing for an empty body; code 1 with return value
  -1; or, with return value 0, code 0 and a token of 32 lower case letters. The token is never
  part of a failed answer.
\<close>

theorem ApiUserLogin_answers:
  "results (\<lambda>(ret, str_json).
      (post_data = [] \<and> ret = - 1 \<and> str_json = []) \<or>
      (ret = - 1 \<and> str_json = encode_code 1) \<or>
      (ret = 0 \<and> (\<exists>token. lower_word 32 token \<and> str_json = encodeLoginJson 0 token)))
    (ApiUserLogin url post_data)"
  unfolding ApiUserLogin_def
  by ((rule results_bindp [OF results_setToken] results_bindpI
       | simp split: option.splits list.splits prod.splits | intro conjI impI allI | fastforce)+)

lemma keeps_ApiUserLogin [simp]: "keeps balanced (ApiUserLogin url post_data)"
  by (auto simp: ApiUserLogin_def decodeLoginJson_def verifyUserPassword_def setToken_def
      loadMyfilesCountAndSharepictureCount_def db_count_defs checked_ops
      split: option.splits list.splits prod.splits intro!: keeps_bindp)

section \<open>A login succeeds only with the stored password\<close>

lemma verifyUserPassword_0:
  assumes "run E (verifyUserPassword u pwd) s w = (Done 0, s', w')"
  shows "\<exists>w1 t n w2. env_mysql E w1 (c_str (sql_password u)) = (QueryOk (Some t) n, w2) \<and>
           first_cell t ''password'' = Some pwd"
proof -
  obtain p s1 w1 s2 w2 where body:
    "run E (bindp (CDBConn_ExecuteQuery p (sql_password u)) (\<lambda>pResultSet.
         case pResultSet of
           None \<Rightarrow> Ret (- 1)
         | Some rs \<Rightarrow>
             (case CResultSet_Next rs of (found, rs') \<Rightarrow>
                if found then
                  bindp (CResultSet_GetString rs' ''password'') (\<lambda>cell.
                  bindp (deref cell) (\<lambda>password. Ret (if password = pwd then 0 else - 1)))
                else Ret (- 1)))) s1 w1 = (Done (0::int), s2, w2)"
    using run_with_conn_Done(1) [OF assms [unfolded verifyUserPassword_def]] by blast
  then obtain rso s3 w3 where q: "run E (CDBConn_ExecuteQuery p (sql_password u)) s1 w1 = (Done rso, s3, w3)"
    by (auto simp: then_run_Done_iff)
  then obtain m where m: "env_mysql E w1 (c_str (sql_password u)) = (m, w3)" "rso = query_value m"
    by (rule run_ExecuteQuery_Done)
  from body q m(2) obtain t n where t: "m = QueryOk (Some t) n"
    by (auto simp: query_value_def split: mysql_reply.splits option.splits)
  with m(2) have "rso = Some (new_CResultSet t)" by (simp add: query_value_def)
  with body q obtain rs' cell s4 w4 where nxt: "CResultSet_Next (new_CResultSet t) = (True, rs')"
      and cell: "run E (CResultSet_GetString rs' ''password'') s3 w3 = (Done cell, s4, w4)"
      and eq: "run E (bindp (deref cell) (\<lambda>password. Ret (if password = pwd then 0 else - 1))) s4 w4 =
             (Done (0::int), s2, w2)"
    by (auto simp: then_run_Done_iff split: prod.splits if_splits)
  from eq have "cell = Some pwd"
    by (auto simp: deref_def split: option.splits if_splits)
  moreover have "CResultSet_GetString rs' ''password'' = Ret cell"
    using run_GetString_row [OF cell] by simp
  ultimately have "first_cell t ''password'' = Some pwd"
    using first_cell_GetString [OF nxt] by metis
  with m(1) t show ?thesis by blast
qed

text \<open>
  C6. Whatever the database and Redis answer, a login request returns success only if the body
  decodes to a user name and a password and the database, asked for the password of that user,
  has answered with a first row whose password is the one sent.
\<close>

theorem ApiUserLogin_needs_password:
  assumes "run E (ApiUserLogin url post_data) s w = (Done (0, str_json), s', w')"
  shows "\<exists>user pwd w1 t n w2.
           run E (decodeLoginJson post_data) s w = (Done (Some [user, pwd]), s, w) \<and>
           env_mysql E w1 (c_str (sql_password user)) = (QueryOk (Some t) n, w2) \<and>
           first_cell t ''password'' = Some pwd"
proof -
  have "post_data \<noteq> []" using assms by (auto simp: ApiUserLogin_def)
  with assms obtain req s1 w1 where d: "run E (decodeLoginJson post_data) s w = (Done req, s1, w1)"
    by (auto simp: ApiUserLogin_def then_run_Done_iff)
  have "s1 = s" "w1 = w"
    by (rule run_pure_Done [OF _ _ d]; simp add: decodeLoginJson_def)+
  with assms d \<open>post_data \<noteq> []\<close> obtain user pwd where req: "req = Some [user, pwd]"
    by (auto simp: ApiUserLogin_def split: option.splits list.splits)
  with assms d \<open>post_data \<noteq> []\<close> \<open>s1 = s\<close> \<open>w1 = w\<close> obtain v s2 w2
    where v: "run E (verifyUserPassword user pwd) s w = (Done v, s2, w2)" "\<not> v < 0"
    by (auto simp: ApiUserLogin_def then_run_Done_iff split: if_splits)
  have "v \<in> {- 1, 0}" using results_run [OF results_verifyUserPassword v(1)] by simp
  with v have "run E (verifyUserPassword user pwd) s w = (Done 0, s2, w2)" by auto
  from verifyUserPassword_0 [OF this] d req \<open>s1 = s\<close> \<open>w1 = w\<close> show ?thesis by blast
qed

section \<open>A login that succeeds\<close>

lemma yields_verifyUserPassword:
  assumes "env_mysql E w (c_str (sql_password user)) = (one_cell ''password'' pwd, w1)" and "nul_free pwd"
  shows "yields E (serving cf None cl) w (verifyUserPassword user pwd) 0 w1 (serving cf None cl)"
  unfolding verifyUserPassword_def
  by (rule yields_with_db_conn, rule yields_bindp, rule yields_db(1) [OF assms(1)])
     (use assms(2) in \<open>simp add: query_value_def one_cell_def new_CResultSet_def CResultSet_Next_def
       CResultSet_GetString_def GetIndex_def cell_at_def deref_def NUL_def\<close>)

lemma yields_setToken:
  assumes "\<And>s. run E (RandomString 32) s w = (Done token, s, w1)"
    and "env_redis E w1 [''SETEX'', c_str user, show_int 86400, c_str token] = (Some r, w2)"
  shows "yields E (serving cf dl None) w (setToken user) (0, token) w2 (serving cf dl None)"
proof -
  have "yields E (serving cf dl (Some c)) w (RandomString 32) token w1 (serving cf dl (Some c))" for c
    using assms(1) by (simp add: yields_def)
  then show ?thesis
    unfolding setToken_def
    by (intro yields_with_cache_conn)
       (rule yields_bindp, assumption, simp, rule yields_bindp, rule yields_cache(3) [OF assms(2)], simp)
qed

lemma yields_load:
  assumes "env_mysql E w (c_str (sql_user_files_count user)) = (one_cell ''count(*)'' (show_int n), w1)" "is_int32 n"
    and "env_redis E w1 [''SET'', c_str (FILE_USER_COUNT @ user), show_int n] = (Some r1, w2)" "reply_text r1 \<noteq> []"
    and "env_mysql E w2 (c_str (sql_share_pictures_count user)) = (one_cell ''count(*)'' (show_int m), w3)" "is_int32 m"
    and "env_redis E w3 [''SET'', c_str (SHARE_PIC_COUNT @ user), show_int m] = (Some r2, w4)" "reply_text r2 \<noteq> []"
  shows "yields E (serving cf None None) w (loadMyfilesCountAndSharepictureCount user) 0 w4 (serving cf None None)"
  unfolding loadMyfilesCountAndSharepictureCount_def db_count_defs
  by (rule yields_with_db_conn, rule yields_with_cache_conn,
      rule yields_bindp, rule yields_DBGetCount [OF assms(1,2)], simp,
      rule yields_bindp, rule yields_CacheSetCount [OF assms(3,4)], simp,
      rule yields_bindp, rule yields_DBGetCount [OF assms(5,6)], simp,
      rule yields_bindp, rule yields_CacheSetCount [OF assms(7,8)], simp)

text \<open>
  C13. With the pools up, a body that decodes to a user and the password the database has, and
  services that answer, a login returns code 0 with the token it drew, after exactly these requests
  in this order: the password is read, the token stored for 86400 seconds under the user name, the
  two counts of the user read from the database and stored under their keys. Both connections are
  back in their pools.
\<close>

theorem ApiUserLogin_success:
  assumes body: "readValue (env_libc E) (reader_fuel post_data) post_data = Good (JObj m) rest"
    and members: "map_of m ''user'' = Some (JStr user)" "map_of m ''pwd'' = Some (JStr pwd)"
      "nul_free user" "nul_free pwd"
    and password: "env_mysql E w (c_str (sql_password user)) = (one_cell ''password'' pwd, w1)"
    and drawn: "\<And>s. run E (RandomString 32) s w1 = (Done token, s, w2)"
    and stored: "env_redis E w2 [''SETEX'', c_str user, show_int 86400, c_str token] = (Some r, w3)"
    and files: "env_mysql E w3 (c_str (sql_user_files_count user)) = (one_cell ''count(*)'' (show_int n), w4)"
      "is_int32 n"
      "env_redis E w4 [''SET'', c_str (FILE_USER_COUNT @ user), show_int n] = (Some r1, w5)" "reply_text r1 \<noteq> []"
    and pictures: "env_mysql E w5 (c_str (sql_share_pictures_count user)) = (one_cell ''count(*)'' (show_int k), w6)"
      "is_int32 k"
      "env_redis E w6 [''SET'', c_str (SHARE_PIC_COUNT @ user), show_int k] = (Some r2, w7)" "reply_text r2 \<noteq> []"
  shows "yields E (serving cf None None) w (ApiUserLogin url post_data) (0, encodeLoginJson 0 token) w7 (serving cf None None)"
proof -
  have ne: "post_data \<noteq> []"
  proof
    assume "post_data = []"
    with body show False
      by (simp add: reader_fuel_def skipCommentTokens_def skipSpaces_def readToken_end skip_comments.simps)
  qed
  have dec: "yields E (serving cf None None) w (decodeLoginJson post_data) (Some [user, pwd]) w (serving cf None None)"
    unfolding decodeLoginJson_def by (rule yields_decode_strs [OF body]) (simp add: members)
  show ?thesis
    unfolding ApiUserLogin_def if_not_P [OF ne]
    by (rule yields_bindp, rule dec, simp,
        rule yields_bindp, rule yields_verifyUserPassword [OF password \<open>nul_free pwd\<close>], simp,
        rule yields_bindp, rule yields_setToken [OF drawn stored], simp,
        rule yields_bindp, rule yields_load [OF files pictures], simp)
qed

section \<open>Examples\<close>

definition login_demo_sql :: "string \<Rightarrow> mysql_reply" where
  "login_demo_sql q =
     (if is_prefix ''select password'' q then one_cell ''password'' ''pw''
      else one_cell ''count(*)'' (show_int 3))"

definition login_demo_redis :: "demo_world \<Rightarrow> string list \<Rightarrow> redis_reply option \<times> demo_world" where
  "login_demo_redis w argv = (Some (RStatus ''OK''), w)"

definition login_body :: string where
  "login_body = ''{'' @ dq ''user'' @ '':'' @ dq ''bob'' @ '','' @ dq ''pwd'' @ '':'' @ dq ''pw'' @ ''}''"

lemma login_body_parsed:
  "readValue demo_libc (reader_fuel login_body) login_body =
     Good (JObj [(''pwd'', JStr ''pw''), (''user'', JStr ''bob'')]) []"
  by code_simp

lemma login_demo_answers:
  "login_demo_sql (c_str (sql_password ''bob'')) = one_cell ''password'' ''pw''"
  "login_demo_sql (c_str (sql_user_files_count ''bob'')) = one_cell ''count(*)'' (show_int 3)"
  "login_demo_sql (c_str (sql_share_pictures_count ''bob'')) = one_cell ''count(*)'' (show_int 3)"
  by code_simp+

abbreviation "login_demo \<equiv> demo_env login_demo_sql login_demo_redis"

theorem ApiUserLogin_success_witness:
  "yields login_demo (serving demo_config None None) Map.empty (ApiUserLogin [] login_body)
     (0, encodeLoginJson 0 (replicate 32 CHR ''a'')) Map.empty (serving demo_config None None)
   \<and> serving demo_config None None demo_srv"
  by (rule conjI [OF ApiUserLogin_success [where m = "[(''pwd'', JStr ''pw''), (''user'', JStr ''bob'')]"
        and user = "''bob''" and pwd = "''pw''" and n = 3 and k = 3 and ?w1.0 = Map.empty and ?w2.0 = Map.empty
        and ?w3.0 = Map.empty and ?w4.0 = Map.empty and ?w5.0 = Map.empty and ?w6.0 = Map.empty
        and r = "RStatus ''OK''" and ?r1.0 = "RStatus ''OK''" and ?r2.0 = "RStatus ''OK''" and rest = "[]"]
        demo_serving])
     (simp_all add: login_body_parsed login_demo_answers run_RandomString_demo login_demo_redis_def
       NUL_def is_int32_def reply_text_def reply_str_def)

lemma login_demo_run:
  "\<exists>s'. run login_demo (ApiUserLogin [] login_body) demo_srv Map.empty =
     (Done (0, encodeLoginJson 0 (replicate 32 CHR ''a'')), s', Map.empty)"
proof -
  have ne: "login_body \<noteq> []" by (simp add: login_body_def)
  have dec: "yields login_demo (serving demo_config None None) Map.empty (decodeLoginJson login_body)
      (Some [''bob'', ''pw'']) Map.empty (serving demo_config None None)"
    unfolding decodeLoginJson_def
    by (rule yields_decode_strs [where m = "[(''pwd'', JStr ''pw''), (''user'', JStr ''bob'')]"])
       (simp_all add: login_body_parsed NUL_def)
  have "yields login_demo (serving demo_config None None) Map.empty (ApiUserLogin [] login_body)
      (0, encodeLoginJson 0 (replicate 32 CHR ''a'')) Map.empty (serving demo_config None None)"
    unfolding ApiUserLogin_def if_not_P [OF ne]
    by (rule yields_bindp, rule dec, simp,
        rule yields_bindp, rule yields_verifyUserPassword, simp add: login_demo_answers, simp add: NUL_def, simp,
        rule yields_bindp, rule yields_setToken, rule run_RandomString_demo, simp add: login_demo_redis_def, simp,
        rule yields_bindp, rule yields_load [where n = 3 and m = 3 and ?r1.0 = "RStatus ''OK''"
          and ?r2.0 = "RStatus ''OK''" and ?w1.0 = Map.empty and ?w2.0 = Map.empty and ?w3.0 = Map.empty
          and ?w4.0 = Map.empty])
       (simp_all add: login_demo_answers login_demo_redis_def is_int32_def reply_text_def reply_str_def)
  then show ?thesis
    using demo_serving by (auto simp: yields_def)
qed

theorem ApiUserLogin_needs_password_witness:
  "\<exists>user pwd w1 t n w2.
     run login_demo (decodeLoginJson login_body) demo_srv Map.empty = (Done (Some [user, pwd]), demo_srv, Map.empty) \<and>
     env_mysql login_demo w1 (c_str (sql_password user)) = (QueryOk (Some t) n, w2) \<and>
     first_cell t ''password'' = Some pwd"
proof -
  obtain s' where "run login_demo (ApiUserLogin [] login_body) demo_srv Map.empty =
      (Done (0, encodeLoginJson 0 (replicate 32 CHR ''a'')), s', Map.empty)"
    using login_demo_run by blast
  then show ?thesis
    by (rule ApiUserLogin_needs_password)
qed

end
