(* ===== verification/Api_Md5.thy ===== *)
theory Api_Md5
  imports Demo
begin

text \<open>
  api/api_md5.cc: upload by fingerprint. A file whose MD5 the database knows is not sent again: its
  reference count goes up by one and the user gets an entry for it. gettimeofday, localtime and
  strftime together are OsLocalTime.
\<close>

datatype Md5State = Md5Ok | Md5Failed | Md5TokenFaild | Md5FileExit

definition md5_code :: "Md5State \<Rightarrow> int" where
  "md5_code st = (case st of Md5Ok \<Rightarrow> 0 | Md5Failed \<Rightarrow> 1 | Md5TokenFaild \<Rightarrow> 4 | Md5FileExit \<Rightarrow> 5)"

definition decodeMd5Json :: "string \<Rightarrow> string list option prog" where
  "decodeMd5Json str_json =
     parse_request str_json (\<lambda>root. str_fields root [''user'', ''token'', ''md5'', ''filename''])"

definition encodeMd5Json :: "int \<Rightarrow> string" where
  "encodeMd5Json ret = encode_code ret"

definition sql_file_count :: "string \<Rightarrow> string" where
  [sql_text]: "sql_file_count md5 =
     c_printf (''select count from file_info where md5 = '%s'' @ [CHR 0x27]) [PStr md5]"

definition sql_user_file :: "string \<Rightarrow> string \<Rightarrow> string \<Rightarrow> string" where
  [sql_text]: "sql_user_file user md5 filename =
     c_printf (''select * from user_file_list where user = '%s' and md5 = '%s' and file_name = '%s'' @ [CHR 0x27])
       [PStr user, PStr md5, PStr filename]"

definition sql_set_file_count :: "int \<Rightarrow> string \<Rightarrow> string" where
  [sql_text]: "sql_set_file_count n md5 =
     c_printf (''update file_info set count = %d where md5 = '%s'' @ [CHR 0x27]) [PInt n, PStr md5]"

definition sql_insert_user_file :: "string \<Rightarrow> string \<Rightarrow> string \<Rightarrow> string \<Rightarrow> string" where
  [sql_text]: "sql_insert_user_file user md5 now filename =
     c_printf (''insert into user_file_list(user, md5, create_time, file_name, shared_status, pv) values ('%s', '%s', '%s', '%s', %d, %d)'')
       [PStr user, PStr md5, PStr now, PStr filename, PInt 0, PInt 0]"

text \<open>handleDealMd5 up to the label END.\<close>

definition deal_md5_state :: "string \<Rightarrow> string \<Rightarrow> string \<Rightarrow> Md5State prog" where
  "deal_md5_state user md5 filename =
     with_db_conn ''tuchuang_slave'' (\<lambda>db_conn.
     with_cache_conn ''token'' (\<lambda>cache_conn.
       bindp (sprintf_buf SQL_MAX_LEN (sql_file_count md5)) (\<lambda>sql_cmd.
       bindp (GetResultOneCount db_conn sql_cmd 0) (\<lambda>(ret, file_ref_count).
       if ret \<noteq> 0 then Ret Md5Failed
       else
         bindp (sprintf_buf SQL_MAX_LEN (sql_user_file user md5 filename)) (\<lambda>sql_cmd.
         bindp (CheckwhetherHaveRecord db_conn sql_cmd) (\<lambda>ret.
         if ret = 1 then Ret Md5FileExit
         else
           bindp (add_int32 file_ref_count 1) (\<lambda>plus1.
           bindp (sprintf_buf SQL_MAX_LEN (sql_set_file_count plus1 md5)) (\<lambda>sql_cmd.
           bindp (CDBConn_ExecutePassQuery db_conn sql_cmd) (\<lambda>updated.
           if \<not> updated then Ret Md5Failed
           else
             Os OsLocalTime (\<lambda>time_str.
             bindp (sprintf_buf SQL_MAX_LEN (sql_insert_user_file user md5 (os_str time_str) filename)) (\<lambda>sql_cmd.
             bindp (CDBConn_ExecuteCreate db_conn sql_cmd) (\<lambda>inserted.
             if \<not> inserted then
               bindp (sprintf_buf SQL_MAX_LEN (sql_set_file_count file_ref_count md5)) (\<lambda>sql_cmd.
               bindp (CDBConn_ExecutePassQuery db_conn sql_cmd) (\<lambda>_. Ret Md5Failed))
             else
               bindp (CacheIncrCount cache_conn (FILE_USER_COUNT @ user)) (\<lambda>_. Ret Md5Ok)))))))))))))"

definition handleDealMd5 :: "string \<Rightarrow> string \<Rightarrow> string \<Rightarrow> string prog" where
  "handleDealMd5 user md5 filename =
     bindp (deal_md5_state user md5 filename) (\<lambda>st. Ret (encodeMd5Json (md5_code st)))"

definition ApiMd5 :: "string \<Rightarrow> string \<Rightarrow> (int \<times> string) prog" where
  "ApiMd5 url post_data =
     bindp (decodeMd5Json post_data) (\<lambda>req.
       case req of
         Some [user, token, md5, filename] \<Rightarrow>
           bindp (VerifyToken user token) (\<lambda>ret.
             if ret = 0 then
               bindp (handleDealMd5 (c_str user) (c_str md5) (c_str filename)) (\<lambda>str_json. Ret (0, str_json))
             else Ret (0, encodeMd5Json HTTP_RESP_TOKEN_ERR))
       | _ \<Rightarrow> Ret (0, encodeMd5Json (md5_code Md5Failed)))"

lemma keeps_ApiMd5 [simp]: "keeps balanced (ApiMd5 url post_data)"
  by (auto simp: ApiMd5_def decodeMd5Json_def handleDealMd5_def deal_md5_state_def
      split: option.splits list.splits prod.splits intro!: keeps_bindp)

section \<open>Every way through handleDealMd5\<close>

text \<open>The texts fit the buffer; what a user name, an MD5 and a file name of usual lengths give.\<close>

definition md5_texts_fit :: "string \<Rightarrow> string \<Rightarrow> string \<Rightarrow> int \<Rightarrow> string \<Rightarrow> bool" where
  "md5_texts_fit user md5 filename n now \<longleftrightarrow>
     length (sql_file_count md5) < SQL_MAX_LEN \<and> length (sql_user_file user md5 filename) < SQL_MAX_LEN \<and>
     length (sql_set_file_count (n + 1) md5) < SQL_MAX_LEN \<and> length (sql_set_file_count n md5) < SQL_MAX_LEN \<and>
     length (sql_insert_user_file user md5 now filename) < SQL_MAX_LEN"

lemma yields_md5_found:
  assumes fit: "md5_texts_fit user md5 filename n (os_str now)"
    and n: "is_int32 n" "is_int32 (n + 1)"
    and count: "env_mysql E w (c_str (sql_file_count md5)) = (one_cell ''count'' (show_int n), w1)"
    and mine: "env_mysql E w1 (c_str (sql_user_file user md5 filename)) = (no_rows cols, w2)"
    and set: "env_mysql E w2 (c_str (sql_set_file_count (n + 1) md5)) = (QueryOk u1 k1, w3)"
    and now: "env_os E w3 OsLocalTime = (now, w4)"
    and ins: "env_mysql E w4 (c_str (sql_insert_user_file user md5 (os_str now) filename)) = (r, w5)"
    and incr: "r \<noteq> QueryFailed \<Longrightarrow> env_redis E w5 [''INCR'', c_str (FILE_USER_COUNT @ user)] = (Some i, w6)"
    and undo: "r = QueryFailed \<Longrightarrow> env_mysql E w5 (c_str (sql_set_file_count n md5)) = (u2, w6)"
  shows "yields E (serving cf None None) w (deal_md5_state user md5 filename)
           (if r = QueryFailed then Md5Failed else Md5Ok) w6 (serving cf None None)"
proof -
  have tail: "yields E (serving cf (Some c) (Some d)) w5
      (if \<not> r \<noteq> QueryFailed then
         bindp (sprintf_buf SQL_MAX_LEN (sql_set_file_count n md5)) (\<lambda>sql_cmd.
         bindp (CDBConn_ExecutePassQuery (Some c) sql_cmd) (\<lambda>_. Ret Md5Failed))
       else bindp (CacheIncrCount (Some d) (FILE_USER_COUNT @ user)) (\<lambda>_. Ret Md5Ok))
      (if r = QueryFailed then Md5Failed else Md5Ok) w6 (serving cf (Some c) (Some d))" for c d
  proof (cases "r = QueryFailed")
    case True
    then show ?thesis
      using fit by simp
        (rule yields_bindp, rule yields_sprintf, simp add: md5_texts_fit_def,
         rule yields_bindp, rule yields_db(4) [OF undo [OF True]], simp)
  next
    case False
    then show ?thesis
      by simp (rule yields_bindp, rule yields_CacheIncrCount [OF incr [OF False]], simp)
  qed
  show ?thesis
    unfolding deal_md5_state_def
    using fit n
    by (intro yields_with_db_conn yields_with_cache_conn)
       (rule yields_bindp, rule yields_sprintf, simp add: md5_texts_fit_def,
        rule yields_bindp, rule yields_GetResultOneCount [OF count n(1)], simp split del: if_split,
        rule yields_bindp, rule yields_sprintf, simp add: md5_texts_fit_def,
        rule yields_bindp, rule yields_CheckwhetherHaveRecord [OF mine],
        simp add: record_value_def no_rows_def split del: if_split,
        rule yields_bindp, rule yields_add_int32, simp,
        rule yields_bindp, rule yields_sprintf, simp add: md5_texts_fit_def,
        rule yields_bindp, rule yields_db(4) [OF set], simp split del: if_split,
        rule yields_Os [OF now],
        rule yields_bindp, rule yields_sprintf, simp add: md5_texts_fit_def,
        rule yields_bindp, rule yields_db(3) [OF ins], rule tail)
qed

section \<open>Properties\<close>

text \<open>
  A fingerprint upload whose token is not the one Redis has for the user is answered with code
  4, and the one exchange that found this out is all the request did: no statement reaches the
  database.
\<close>

lemma ApiMd5_token_gate:
  assumes "readValue (env_libc E) (reader_fuel post_data) post_data = Good (JObj m) rest"
    and "list_all2 (\<lambda>k v. map_of m k = Some (JStr v) \<and> nul_free v)
           [''user'', ''token'', ''md5'', ''filename''] [user, tok, md5, filename]"
    and "env_redis E w [''GET'', c_str user] = (Some r, w1)" and "reply_token r \<noteq> tok"
  shows "yields E (serving cf None None) w (ApiMd5 url post_data) (0, encode_code 4) w1 (serving cf None None)"
  unfolding ApiMd5_def decodeMd5Json_def
  by (rule yields_bindp, rule yields_decode_strs [OF assms(1,2)], simp,
      rule yields_bindp, rule yields_VerifyToken [OF assms(3)])
     (simp add: assms(4) encodeMd5Json_def HTTP_RESP_TOKEN_ERR_def)

theorem ApiMd5_token_gate_witness:
  "yields (demo_env (\<lambda>q. QueryFailed) (\<lambda>w argv. (Some (RString ''other''), w))) (serving demo_config None None) Map.empty
     (ApiMd5 [] file_body) (0, encode_code 4) Map.empty (serving demo_config None None)"
  by (rule ApiMd5_token_gate [where m = file_members and rest = "[]" and user = "''bob''" and tok = "''t''"
        and ?md5.0 = "''m''" and filename = "''f.png''" and r = "RString ''other''"])
     (simp_all add: file_body_parsed file_members_lookup NUL_def reply_token_def is_RString_def
       reply_text_def reply_str_def)

text \<open>
  C8. A known file the user does not have yet: the count n the database gave is raised to n + 1, the
  entry of the user inserted and the user's counter incremented, in this order, and the answer is
  code 0. If the entry cannot be inserted the count is written back to n, the counter is not
  touched, and the answer is code 1.
\<close>

theorem handleDealMd5_known_file:
  assumes "md5_texts_fit user md5 filename n (os_str now)" and "is_int32 n" "is_int32 (n + 1)"
    and "env_mysql E w (c_str (sql_file_count md5)) = (one_cell ''count'' (show_int n), w1)"
    and "env_mysql E w1 (c_str (sql_user_file user md5 filename)) = (no_rows cols, w2)"
    and "env_mysql E w2 (c_str (sql_set_file_count (n + 1) md5)) = (QueryOk u1 k1, w3)"
    and "env_os E w3 OsLocalTime = (now, w4)"
    and "env_mysql E w4 (c_str (sql_insert_user_file user md5 (os_str now) filename)) = (r, w5)"
    and "r \<noteq> QueryFailed \<Longrightarrow> env_redis E w5 [''INCR'', c_str (FILE_USER_COUNT @ user)] = (Some i, w6)"
    and "r = QueryFailed \<Longrightarrow> env_mysql E w5 (c_str (sql_set_file_count n md5)) = (u2, w6)"
  shows "yields E (serving cf None None) w (handleDealMd5 user md5 filename)
           (encode_code (if r = QueryFailed then 1 else 0)) w6 (serving cf None None)"
  unfolding handleDealMd5_def
  by (rule yields_bindp, rule yields_md5_found [OF assms]) (simp_all add: encodeMd5Json_def md5_code_def)

definition md5_demo_sql :: "string \<Rightarrow> mysql_reply" where
  "md5_demo_sql q =
     (if q = sql_file_count ''m'' then one_cell ''count'' (show_int 2)
      else if q = sql_user_file ''bob'' ''m'' ''f.png'' then no_rows [''id'']
      else if q = sql_set_file_count 3 ''m'' then QueryOk None 1
      else if q = sql_insert_user_file ''bob'' ''m'' ''2024-01-01 00:00:00'' ''f.png'' then QueryOk None 1
      else QueryFailed)"

lemma md5_demo_answers:
  "md5_demo_sql (c_str (sql_file_count ''m'')) = one_cell ''count'' (show_int 2)"
  "md5_demo_sql (c_str (sql_user_file ''bob'' ''m'' ''f.png'')) = no_rows [''id'']"
  "md5_demo_sql (c_str (sql_set_file_count 3 ''m'')) = QueryOk None 1"
  "md5_demo_sql (c_str (sql_insert_user_file ''bob'' ''m'' ''2024-01-01 00:00:00'' ''f.png'')) = QueryOk None 1"
  by code_simp+

lemma md5_demo_fit: "md5_texts_fit ''bob'' ''m'' ''f.png'' 2 ''2024-01-01 00:00:00''"
  by code_simp

theorem handleDealMd5_known_file_witness:
  "yields (demo_env md5_demo_sql redis_strings) (serving demo_config None None) Map.empty
     (handleDealMd5 ''bob'' ''m'' ''f.png'') (encode_code 0)
     [FILE_USER_COUNT @ ''bob'' \<mapsto> show_int 1] (serving demo_config None None)
   \<and> serving demo_config None None demo_srv"
proof -
  have "yields (demo_env md5_demo_sql redis_strings) (serving demo_config None None) Map.empty
     (handleDealMd5 ''bob'' ''m'' ''f.png'') (encode_code (if QueryOk None 1 = QueryFailed then 1 else 0))
     [FILE_USER_COUNT @ ''bob'' \<mapsto> show_int 1] (serving demo_config None None)"
    by (rule handleDealMd5_known_file [where n = 2 and now = "\<lparr>os_int = 0, os_str = ''2024-01-01 00:00:00''\<rparr>"
          and ?w1.0 = Map.empty and ?w2.0 = Map.empty and ?w3.0 = Map.empty and ?w4.0 = Map.empty
          and ?w5.0 = Map.empty and cols = "[''id'']" and ?u1.0 = None and ?k1.0 = 1 and ?u2.0 = QueryFailed
          and i = "RInteger 1"])
       (simp_all add: md5_demo_answers md5_demo_fit is_int32_def redis_strings_def redis_num_def
         FILE_USER_COUNT_def NUL_def)
  then show ?thesis using demo_serving by simp
qed

text \<open>
  In the other two cases nothing changes: an MD5 the database does not know is answered with
  code 1 after one SELECT, and a file the user already has with code 5 after two.
\<close>

lemma handleDealMd5_refuses:
  assumes "md5_texts_fit user md5 filename n now"
    and "env_mysql E w (c_str (sql_file_count md5)) = (m1, w1)"
    and "m1 = no_rows cols \<and> code = 1 \<and> w2 = w1 \<or>
         is_int32 n \<and> m1 = one_cell ''count'' (show_int n) \<and> code = 5 \<and>
         (\<exists>m2. env_mysql E w1 (c_str (sql_user_file user md5 filename)) = (m2, w2) \<and> record_value m2 = 1)"
  shows "yields E (serving cf None None) w (handleDealMd5 user md5 filename) (encode_code code) w2 (serving cf None None)"
  using assms(3)
proof
  assume none: "m1 = no_rows cols \<and> code = 1 \<and> w2 = w1"
  then have "env_mysql E w (c_str (sql_file_count md5)) = (no_rows cols, w1)"
    using assms(2) by simp
  from yields_GetResultOneCount_none [OF this]
  have "yields E (serving cf None None) w (deal_md5_state user md5 filename) Md5Failed w1 (serving cf None None)"
    unfolding deal_md5_state_def
    by (intro yields_with_db_conn yields_with_cache_conn)
       (rule yields_bindp, rule yields_sprintf, use assms(1) in \<open>simp add: md5_texts_fit_def\<close>,
        rule yields_bindp, assumption, simp)
  then show ?thesis
    unfolding handleDealMd5_def
    by (rule yields_bindp) (simp add: none encodeMd5Json_def md5_code_def)
next
  assume "is_int32 n \<and> m1 = one_cell ''count'' (show_int n) \<and> code = 5 \<and>
    (\<exists>m2. env_mysql E w1 (c_str (sql_user_file user md5 filename)) = (m2, w2) \<and> record_value m2 = 1)"
  then obtain m2 where n: "is_int32 n" and count: "env_mysql E w (c_str (sql_file_count md5)) = (one_cell ''count'' (show_int n), w1)"
    and code: "code = 5" and mine: "env_mysql E w1 (c_str (sql_user_file user md5 filename)) = (m2, w2)" "record_value m2 = 1"
    using assms(2) by auto
  have "yields E (serving cf None None) w (deal_md5_state user md5 filename) Md5FileExit w2 (serving cf None None)"
    unfolding deal_md5_state_def
    by (intro yields_with_db_conn yields_with_cache_conn)
       (rule yields_bindp, rule yields_sprintf, use assms(1) in \<open>simp add: md5_texts_fit_def\<close>,
        rule yields_bindp, rule yields_GetResultOneCount [OF count n], simp split del: if_split,
        rule yields_bindp, rule yields_sprintf, use assms(1) in \<open>simp add: md5_texts_fit_def\<close>,
        rule yields_bindp, rule yields_CheckwhetherHaveRecord [OF mine(1)], simp add: mine(2))
  then show ?thesis
    unfolding handleDealMd5_def
    by (rule yields_bindp) (simp add: code encodeMd5Json_def md5_code_def)
qed

lemma handleDealMd5_refuses_witness:
  "yields (demo_env (\<lambda>q. no_rows [''count'']) redis_strings) (serving demo_config None None) Map.empty
     (handleDealMd5 ''bob'' ''m'' ''f.png'') (encode_code 1) Map.empty (serving demo_config None None)"
  by (rule handleDealMd5_refuses [OF md5_demo_fit, where cols = "[''count'']"]) simp_all

end
