(* ===== verification/Listing.thy ===== *)
theory Listing
  imports Demo
begin

text \<open>
  What the handlers that answer with a list share: the loop over a result set (while Next) and the
  conversion of a row into a JSON object, one member for each column asked for.
\<close>

section \<open>The loop over a result set\<close>

function fetch_all :: "(result_set \<Rightarrow> 'a prog) \<Rightarrow> result_set \<Rightarrow> 'a list prog" where
  "fetch_all body rs =
     (case CResultSet_Next rs of (found, rs') \<Rightarrow>
        if found then bindp (body rs') (\<lambda>x. bindp (fetch_all body rs') (\<lambda>xs. Ret (x # xs)))
        else Ret [])"
  by pat_completeness auto

termination
  by (relation "measure (\<lambda>(body, rs). length (rows_left rs))")
     (auto simp: CResultSet_Next_def split: list.splits)

declare fetch_all.simps [simp del]

lemma fetch_all_rows:
  "rows_left rs = [] \<Longrightarrow> fetch_all body rs = Ret []"
  "rows_left rs = r # rest \<Longrightarrow>
     fetch_all body rs =
       (let rs' = rs\<lparr>rows_left := rest, row_cur := RowAt r\<rparr>
        in bindp (body rs') (\<lambda>x. bindp (fetch_all body rs') (\<lambda>xs. Ret (x # xs))))"
  by (subst fetch_all.simps, simp add: CResultSet_Next_def Let_def)+

lemma calls_fetch_all [intro!]: "(\<And>rs. calls P (body rs)) \<Longrightarrow> calls P (fetch_all body rs)"
proof (induction body rs rule: fetch_all.induct)
  case (1 body rs)
  then show ?case by (subst fetch_all.simps) (auto split: prod.splits intro!: calls_bindpI)
qed

lemma keeps_fetch_all [intro!]:
  assumes "reflp R" and "transp R"
  shows "(\<And>rs. keeps R (body rs)) \<Longrightarrow> keeps R (fetch_all body rs)"
proof (induction body rs rule: fetch_all.induct)
  case (1 body rs)
  with assms show ?case by (subst fetch_all.simps) (auto split: prod.splits intro!: keeps_bindp)
qed

text \<open>The loop visits every row once, in order.\<close>

lemma yields_fetch_all:
  assumes "\<And>i rs'. i < length rows \<Longrightarrow>
      rs' = \<lparr>key_map = km, rows_left = drop (Suc i) rows, row_cur = RowAt (rows ! i)\<rparr> \<Longrightarrow>
      yields E P w (body rs') (f (rows ! i)) w P"
  shows "yields E P w (fetch_all body \<lparr>key_map = km, rows_left = rows, row_cur = cur\<rparr>) (map f rows) w P"
  using assms
proof (induction rows arbitrary: cur)
  case Nil
  then show ?case by (simp add: fetch_all_rows)
next
  case (Cons r rest)
  have "yields E P w (body \<lparr>key_map = km, rows_left = rest, row_cur = RowAt r\<rparr>) (f r) w P"
    using Cons.prems [of 0] by simp
  moreover have "yields E P w (fetch_all body \<lparr>key_map = km, rows_left = rest, row_cur = RowAt r\<rparr>) (map f rest) w P"
    by (rule Cons.IH) (use Cons.prems [of "Suc i" for i] in auto)
  ultimately show ?case
    by (simp add: fetch_all_rows Let_def) (rule yields_bindp, assumption, rule yields_bindp, assumption, simp)
qed

section \<open>Rows as JSON objects\<close>

datatype column = StrColumn string | IntColumn string

text \<open>
  file[key] = GetString(column) with a NULL cell or an unknown column gives strlen a NULL pointer;
  GetInt of an unknown column is 0.
\<close>

fun row_members :: "(string \<times> column) list \<Rightarrow> result_set \<Rightarrow> (string \<times> json) list prog" where
  "row_members [] rs = Ret []"
| "row_members ((key, StrColumn col) # cols) rs =
     bindp (CResultSet_GetString rs col) (\<lambda>p.
     bindp (deref p) (\<lambda>s.
     bindp (row_members cols rs) (\<lambda>ms. Ret ((key, JStr s) # ms))))"
| "row_members ((key, IntColumn col) # cols) rs =
     bindp (CResultSet_GetInt rs col) (\<lambda>i.
     bindp (row_members cols rs) (\<lambda>ms. Ret ((key, JInt i) # ms)))"

definition row_object :: "(string \<times> column) list \<Rightarrow> result_set \<Rightarrow> json prog" where
  "row_object cols rs = bindp (row_members cols rs) (\<lambda>ms. Ret (json_object ms))"

text \<open>A value that gets elements by index is null until the first one.\<close>

definition json_list :: "json list \<Rightarrow> json" where
  "json_list xs = (if xs = [] then JNull else JArr xs)"

lemma calls_row_object [simp]: "calls P (row_object cols rs)"
proof -
  have "calls P (row_members cols rs)"
    by (induction cols rs rule: row_members.induct) (auto intro!: calls_bindpI)
  then show ?thesis by (auto simp: row_object_def intro!: calls_bindpI)
qed

lemma keeps_row_object [simp]:
  assumes "reflp R" and "transp R"
  shows "keeps R (row_object cols rs)"
proof -
  have "keeps R (row_members cols rs)"
    using assms by (induction cols rs rule: row_members.induct) (auto intro!: keeps_bindp)
  with assms show ?thesis by (auto simp: row_object_def intro!: keeps_bindp)
qed

text \<open>What a row without NULL cells becomes: the cell of the first column with the name.\<close>

definition cell_of :: "string list \<Rightarrow> row \<Rightarrow> string \<Rightarrow> string option" where
  "cell_of km r col = (case first_index col km of None \<Rightarrow> None | Some i \<Rightarrow> r ! i)"

definition column_value :: "string list \<Rightarrow> row \<Rightarrow> column \<Rightarrow> json" where
  "column_value km r c =
     (case c of
        StrColumn col \<Rightarrow> (case cell_of km r col of None \<Rightarrow> JNull | Some t \<Rightarrow> JStr (c_str t))
      | IntColumn col \<Rightarrow> (case cell_of km r col of None \<Rightarrow> JInt 0 | Some t \<Rightarrow> JInt (atoi (c_str t))))"

definition row_full :: "string list \<Rightarrow> row \<Rightarrow> bool" where
  "row_full km r \<longleftrightarrow> length r = length km \<and> (\<forall>c \<in> set r. c \<noteq> None)"

definition has_columns :: "string list \<Rightarrow> (string \<times> column) list \<Rightarrow> bool" where
  "has_columns km cols \<longleftrightarrow>
     (\<forall>c \<in> snd ` set cols. case c of StrColumn col \<Rightarrow> first_index col km \<noteq> None | IntColumn col \<Rightarrow> True)"

definition row_json :: "(string \<times> column) list \<Rightarrow> string list \<Rightarrow> row \<Rightarrow> json" where
  "row_json cols km r = json_object (map (\<lambda>(key, c). (key, column_value km r c)) cols)"

lemma cell_in_row:
  assumes "row_full km r" and "first_index col km = Some i"
  obtains t where "i < length r" "r ! i = Some t"
  using assms first_index_less [OF assms(2)] by (fastforce simp: row_full_def)

lemma row_object_full:
  assumes "row_full km r" and "has_columns km cols"
  shows "row_object cols \<lparr>key_map = km, rows_left = rest, row_cur = RowAt r\<rparr> = Ret (row_json cols km r)"
proof -
  let ?rs = "\<lparr>key_map = km, rows_left = rest, row_cur = RowAt r\<rparr>"
  have "row_members cols ?rs = Ret (map (\<lambda>(key, c). (key, column_value km r c)) cols)"
    using assms(2)
  proof (induction cols)
    case (Cons kc cols)
    obtain key c where kc: "kc = (key, c)" by (cases kc)
    from Cons have IH: "row_members cols ?rs = Ret (map (\<lambda>(key, c). (key, column_value km r c)) cols)"
      by (simp add: has_columns_def)
    show ?case
    proof (cases c)
      case (StrColumn col)
      then obtain i where "first_index col km = Some i"
        using Cons.prems kc by (auto simp: has_columns_def)
      then show ?thesis
        using IH kc StrColumn assms(1)
        by (auto elim!: cell_in_row simp: CResultSet_GetString_def GetIndex_def cell_at_def deref_def
            column_value_def cell_of_def)
    next
      case (IntColumn col)
      then show ?thesis
        using IH kc assms(1)
        by (cases "first_index col km")
           (auto elim!: cell_in_row simp: CResultSet_GetInt_def GetIndex_def cell_at_def deref_def
            column_value_def cell_of_def)
    qed
  qed simp
  then show ?thesis by (simp add: row_object_def row_json_def)
qed

lemma yields_rows:
  assumes "\<forall>r \<in> set rows. row_full km r" and "has_columns km cols"
  shows "yields E P w (fetch_all (row_object cols) (new_CResultSet \<lparr>tb_fields = km, tb_rows = rows\<rparr>))
           (map (row_json cols km) rows) w P"
  unfolding new_CResultSet_def
  by (simp, rule yields_fetch_all) (use assms in \<open>simp add: row_object_full\<close>)

end
