(* ===== verification/Api_Myfiles.thy ===== *)
theory Api_Myfiles
  imports Listing
begin

text \<open>
  api/api_myfiles.cc: how many files a user has, and the list of them in three orders. ApiMyfiles
  returns its code and the response text.
\<close>

definition decodeCountJson :: "string \<Rightarrow> string list option prog" where
  "decodeCountJson str_json =
     parse_request str_json (\<lambda>root. str_fields root [''user'', ''token''])"

definition encodeCountJson :: "int \<Rightarrow> int \<Rightarrow> string" where
  "encodeCountJson ret file_total =
     FastWriter_write (json_object
       ([(''code'', JInt ret)] @ (if ret = 0 then [(''total'', JInt file_total)] else [])))"

text \<open>user and token, then start and count.\<close>

definition decodeFileslistJson :: "string \<Rightarrow> (string list \<times> int \<times> int) option prog" where
  "decodeFileslistJson str_json =
     parse_request str_json (\<lambda>root.
       bindp (str_fields root [''user'', ''token'']) (\<lambda>strs.
         case strs of
           None \<Rightarrow> Ret None
         | Some ss \<Rightarrow>
             bindp (int_field root ''start'') (\<lambda>start.
               case start of
                 None \<Rightarrow> Ret None
               | Some i \<Rightarrow>
                   bindp (int_field root ''count'') (\<lambda>count.
                   Ret (case count of None \<Rightarrow> None | Some n \<Rightarrow> Some (ss, i, n))))))"

section \<open>The number of files\<close>

text \<open>
  The result is ret and count. A count of 0, which a missing key is taken for, is loaded from MySQL
  and written back; ret stays -1 after a missing key.
\<close>

definition getUserFilesCount :: "conn_ptr \<Rightarrow> conn_ptr \<Rightarrow> string \<Rightarrow> (int \<times> int) prog" where
  "getUserFilesCount db_conn cache_conn user_name =
     bindp (CacheGetCount cache_conn (FILE_USER_COUNT @ user_name)) (\<lambda>(got, cached).
       let file_count = (if got < 0 then 0 else cached);
           ret = (if got < 0 then - 1 else 0)
       in if file_count = 0 then
            bindp (DBGetUserFilesCountByUsername db_conn user_name) (\<lambda>(got, count).
            if got < 0 then Ret (- 1, count)
            else
              bindp (CacheSetCount cache_conn (FILE_USER_COUNT @ user_name) count) (\<lambda>set.
              Ret (if set < 0 then - 1 else ret, count)))
          else Ret (ret, to_int32 file_count))"

definition handleUserFilesCount :: "string \<Rightarrow> (int \<times> int) prog" where
  "handleUserFilesCount user_name =
     with_db_conn ''tuchuang_slave'' (\<lambda>db_conn.
     with_cache_conn ''token'' (\<lambda>cache_conn. getUserFilesCount db_conn cache_conn user_name))"

section \<open>The list of files\<close>

definition sql_files_normal :: "string \<Rightarrow> int \<Rightarrow> int \<Rightarrow> string" where
  [sql_text]: "sql_files_normal user start count =
     FormatString ''select user_file_list.*, file_info.url, file_info.size,  file_info.type from file_info, user_file_list where user = '%s'             and file_info.md5 = user_file_list.md5 limit %d, %d''
       [PStr user, PInt start, PInt count]"

definition sql_files_pvasc :: "string \<Rightarrow> int \<Rightarrow> int \<Rightarrow> string" where
  [sql_text]: "sql_files_pvasc user start count =
     FormatString ''select user_file_list.*, file_info.url, file_info.size, file_info.type from file_info,          user_file_list where user = '%s' and file_info.md5 = user_file_list.md5  order by pv asc limit %d, %d''
       [PStr user, PInt start, PInt count]"

definition sql_files_pvdesc :: "string \<Rightarrow> int \<Rightarrow> int \<Rightarrow> string" where
  [sql_text]: "sql_files_pvdesc user start count =
     FormatString ''select user_file_list.*, file_info.url, file_info.size, file_info.type from file_info,             user_file_list where user = '%s' and file_info.md5 = user_file_list.md5 order by pv desc limit %d, %d''
       [PStr user, PInt start, PInt count]"

definition user_file_list_sql :: "string \<Rightarrow> string \<Rightarrow> int \<Rightarrow> int \<Rightarrow> string option" where
  "user_file_list_sql cmd user start count =
     (if cmd = ''normal'' then Some (sql_files_normal user start count)
      else if cmd = ''pvasc'' then Some (sql_files_pvasc user start count)
      else if cmd = ''pvdesc'' then Some (sql_files_pvdesc user start count)
      else None)"

definition file_columns :: "(string \<times> column) list" where
  "file_columns =
     [(''user'', StrColumn ''user''), (''md5'', StrColumn ''md5''),
      (''create_time'', StrColumn ''create_time''), (''file_name'', StrColumn ''file_name''),
      (''share_status'', IntColumn ''shared_status''), (''pv'', IntColumn ''pv''),
      (''url'', StrColumn ''url''), (''size'', IntColumn ''size''), (''type'', StrColumn ''type'')]"

text \<open>The response with the files; file_index counts them.\<close>

definition files_response :: "json list \<Rightarrow> int \<Rightarrow> string" where
  "files_response files file_total =
     FastWriter_write (json_object
       [(''code'', JInt 0), (''files'', json_list files),
        (''count'', JInt (to_int32 (int (length files)))), (''total'', JInt file_total)])"

definition no_files_response :: string where
  "no_files_response =
     FastWriter_write (json_object [(''code'', JInt 0), (''count'', JInt 0), (''total'', JInt 0)])"

text \<open>None is the result -1, which leaves the response unset.\<close>

definition getUserFileList :: "string \<Rightarrow> string \<Rightarrow> int \<Rightarrow> int \<Rightarrow> string option prog" where
  "getUserFileList cmd user_name start count =
     with_db_conn ''tuchuang_slave'' (\<lambda>db_conn.
     with_cache_conn ''token'' (\<lambda>cache_conn.
       bindp (getUserFilesCount db_conn cache_conn user_name) (\<lambda>(ret, file_total).
       if ret < 0 then Ret None
       else if file_total = 0 then Ret (Some no_files_response)
       else
         (case user_file_list_sql cmd user_name start count of
            None \<Rightarrow> Ret None
          | Some str_sql \<Rightarrow>
              bindp (CDBConn_ExecuteQuery db_conn str_sql) (\<lambda>pResultSet.
                case pResultSet of
                  None \<Rightarrow> Ret None
                | Some rs \<Rightarrow>
                    bindp (fetch_all (row_object file_columns) rs) (\<lambda>files.
                    Ret (Some (files_response files file_total))))))))"

section \<open>The request\<close>

text \<open>
  A command that is none of the four is noted and the request goes on; the response encoded for it
  is overwritten on every path behind it.
\<close>

definition ApiMyfiles :: "string \<Rightarrow> string \<Rightarrow> (int \<times> string) prog" where
  "ApiMyfiles url post_data =
     bindp (read_cmd url) (\<lambda>cmd.
       if cmd = ''count'' then
         bindp (decodeCountJson post_data) (\<lambda>req.
           case req of
             Some [user_name, token] \<Rightarrow>
               bindp (VerifyToken user_name token) (\<lambda>ret.
                 if ret = 0 then
                   bindp (handleUserFilesCount user_name) (\<lambda>(ret, count).
                   Ret (0, if ret < 0 then encodeCountJson 1 0 else encodeCountJson 0 count))
                 else Ret (0, encodeCountJson 1 0))
           | _ \<Rightarrow> Ret (- 1, encodeCountJson 1 0))
       else
         bindp (decodeFileslistJson post_data) (\<lambda>req.
           case req of
             Some ([user_name, token], start, count) \<Rightarrow>
               bindp (VerifyToken user_name token) (\<lambda>ret.
                 if ret = 0 then
                   bindp (getUserFileList cmd user_name start count) (\<lambda>r.
                   Ret (0, case r of None \<Rightarrow> encodeCountJson 1 0 | Some str_json \<Rightarrow> str_json))
                 else Ret (0, encodeCountJson 1 0))
           | _ \<Rightarrow> Ret (0, encodeCountJson 1 0)))"

lemma keeps_getUserFilesCount [simp]: "keeps balanced (getUserFilesCount p q user)"
  by (auto simp: getUserFilesCount_def Let_def db_count_defs split: prod.splits intro!: keeps_bindp)

lemma keeps_myfiles [simp]:
  "keeps balanced (handleUserFilesCount user)" "keeps balanced (getUserFileList cmd user start count)"
  by (auto simp: handleUserFilesCount_def getUserFileList_def split: option.splits prod.splits intro!: keeps_bindp)

lemma keeps_ApiMyfiles [simp]: "keeps balanced (ApiMyfiles url post_data)"
  by (auto simp: ApiMyfiles_def decodeCountJson_def decodeFileslistJson_def
      split: option.splits list.splits prod.splits intro!: keeps_bindp)

section \<open>The counter\<close>

text \<open>
  A counter that Redis lacks or has as 0 is counted in MySQL and written back. After the key 0
  the count is returned with success; after a missing key the result is -1, an error, although the
  count is right and Redis has it now.
\<close>

lemma getUserFilesCount_reload:
  assumes "env_redis E w [''GET'', c_str (FILE_USER_COUNT @ user)] = (Some r, w1)"
    and "r = RNil \<or> r = RString (show_int 0)"
    and "env_mysql E w1 (c_str (sql_user_files_count user)) = (one_cell ''count(*)'' (show_int n), w2)"
    and "is_int32 n"
    and "env_redis E w2 [''SET'', c_str (FILE_USER_COUNT @ user), show_int n] = (Some (RStatus ''OK''), w3)"
  shows "yields E (serving cf (Some c) (Some d)) w (getUserFilesCount (Some c) (Some d) user)
           (if r = RNil then - 1 else 0, n) w3 (serving cf (Some c) (Some d))"
proof -
  have zero: "reply_token r \<noteq> [] \<Longrightarrow> atoll (c_str (reply_token r)) = 0" "reply_token r = [] \<longleftrightarrow> r = RNil"
    using assms(2)
    by (auto simp: reply_token_def is_RString_def reply_text_def reply_str_def atoll_show_int is_int64_def)
  have reload: "yields E (serving cf (Some c) (Some d)) w1
      (bindp (DBGetUserFilesCountByUsername (Some c) user) (\<lambda>(got, count).
         if got < 0 then Ret (- 1, count)
         else bindp (CacheSetCount (Some d) (FILE_USER_COUNT @ user) count) (\<lambda>set.
              Ret (if set < 0 then - 1 else i, count)))) (i, n) w3 (serving cf (Some c) (Some d))" for i
    unfolding DBGetUserFilesCountByUsername_def
    by (rule yields_bindp, rule yields_DBGetCount [OF assms(3,4)], simp,
        rule yields_bindp, rule yields_CacheSetCount [OF assms(5)]) (simp_all add: reply_text_def reply_str_def)
  show ?thesis
    unfolding getUserFilesCount_def
    by (rule yields_bindp, rule yields_CacheGetCount [OF assms(1)])
       (use reload zero in \<open>auto simp: Let_def\<close>)
qed

definition count_demo_sql :: "string \<Rightarrow> mysql_reply" where
  "count_demo_sql = sql_script [(sql_user_files_count ''bob'', one_cell ''count(*)'' (show_int 2))]"

lemma count_demo: "count_demo_sql (c_str (sql_user_files_count ''bob'')) = one_cell ''count(*)'' (show_int 2)"
  by code_simp

text \<open>The first of two calls fails, the second does not.\<close>

lemma getUserFilesCount_reload_witness:
  "yields (demo_env count_demo_sql redis_strings) (serving demo_config (Some 0) (Some 1)) Map.empty
     (getUserFilesCount (Some 0) (Some 1) ''bob'') (if RNil = RNil then - 1 else 0, 2)
     [c_str (FILE_USER_COUNT @ ''bob'') \<mapsto> show_int 2] (serving demo_config (Some 0) (Some 1))"
  by (rule getUserFilesCount_reload [where ?w1.0 = Map.empty and ?w2.0 = Map.empty])
     (simp_all add: count_demo redis_strings_def is_int32_def)

section \<open>The list\<close>

text \<open>
  C18. A list request with the right token, from a user with files: the answer is the files MySQL
  gave for the order asked, one object for each row in the order of the rows, their number, and the
  counter.
\<close>

theorem ApiMyfiles_lists:
  assumes cmd: "QueryParseKeyValue url ''cmd'' 20 = (Ret (Some (cmd, k)) :: (string \<times> int) option prog)"
    and sql: "user_file_list_sql cmd user start count = Some q"
    and parsed: "readValue (env_libc E) (reader_fuel post_data) post_data = Good (JObj m) rest"
    and strs: "map_of m ''user'' = Some (JStr user)" "nul_free user" "map_of m ''token'' = Some (JStr tok)" "nul_free tok"
    and ints: "map_of m ''start'' = Some (JInt start)" "is_int32 start" "map_of m ''count'' = Some (JInt count)" "is_int32 count"
    and tok: "env_redis E w [''GET'', c_str user] = (Some r, w1)" "reply_token r = tok"
    and counter: "env_redis E w1 [''GET'', c_str (FILE_USER_COUNT @ user)] = (Some (RString (show_int n)), w2)"
      "is_int32 n" "n \<noteq> 0"
    and rows: "env_mysql E w2 (c_str q) = (QueryOk (Some \<lparr>tb_fields = km, tb_rows = rows\<rparr>) a, w3)"
      "\<forall>r \<in> set rows. row_full km r" "has_columns km file_columns"
  shows "yields E (serving cf None None) w (ApiMyfiles url post_data)
           (0, files_response (map (row_json file_columns km) rows) n) w3 (serving cf None None)"
proof -
  have ne: "cmd \<noteq> ''count''" using sql by (auto simp: user_file_list_sql_def)
  have decode: "yields E P w (decodeFileslistJson post_data) (Some ([user, tok], start, count)) w P" for P
    by (rule yields_pure)
       (simp add: decodeFileslistJson_def parse_request_def parsed str_fields.simps strs ints)
  have i64: "is_int64 n" by (rule is_int32_is_int64 [OF counter(2)])
  have list: "yields E (serving cf None None) w1 (getUserFileList cmd user start count)
      (Some (files_response (map (row_json file_columns km) rows) n)) w3 (serving cf None None)"
    unfolding getUserFileList_def getUserFilesCount_def
    by (rule yields_with_db_conn, rule yields_with_cache_conn, rule yields_bindp, rule yields_bindp,
        rule yields_CacheGetCount [OF counter(1)],
        simp add: reply_token_def is_RString_def reply_text_def reply_str_def atoll_show_int i64 counter to_int32_id,
        rule yields_Ret, simp add: counter sql,
        rule yields_bindp, rule yields_db(1) [OF rows(1)], simp add: query_value_def,
        rule yields_bindp, rule yields_rows [OF rows(2,3)], simp)
  show ?thesis
    unfolding ApiMyfiles_def
    by (rule yields_bindp, rule yields_read_cmd [OF cmd], simp add: ne,
        rule yields_bindp, rule decode, simp,
        rule yields_bindp, rule yields_VerifyToken [OF tok(1)], simp add: tok(2),
        rule yields_bindp, rule list, simp)
qed


definition list_body :: string where
  "list_body =
     ''{'' @ dq ''user'' @ '':'' @ dq ''bob'' @ '','' @ dq ''token'' @ '':'' @ dq ''t'' @ '','' @
     dq ''start'' @ '':0,'' @ dq ''count'' @ '':10}''"

definition list_members :: "(string \<times> json) list" where
  "list_members =
     [(''count'', JInt 10), (''start'', JInt 0), (''token'', JStr ''t''), (''user'', JStr ''bob'')]"

lemma list_body_parsed:
  "readValue demo_libc (reader_fuel list_body) list_body = Good (JObj list_members) []"
  by code_simp

definition list_km :: "string list" where
  "list_km = [''id'', ''user'', ''md5'', ''create_time'', ''file_name'', ''shared_status'', ''pv'', ''url'', ''size'', ''type'']"

definition list_row :: row where
  "list_row = map Some [''7'', ''bob'', ''m'', ''2024-01-01 00:00:00'', ''f.png'', ''0'', ''3'', ''http://h/f.png'', ''1024'', ''png'']"

definition list_demo_sql :: "string \<Rightarrow> mysql_reply" where
  "list_demo_sql =
     sql_script [(sql_files_normal ''bob'' 0 10, QueryOk (Some \<lparr>tb_fields = list_km, tb_rows = [list_row]\<rparr>) 0)]"

lemma list_demo:
  "list_demo_sql (c_str (sql_files_normal ''bob'' 0 10)) = QueryOk (Some \<lparr>tb_fields = list_km, tb_rows = [list_row]\<rparr>) 0"
  "row_full list_km list_row" "has_columns list_km file_columns"
  by code_simp+

definition list_world :: demo_world where
  "list_world = [''bob'' \<mapsto> ''t'', FILE_USER_COUNT @ ''bob'' \<mapsto> show_int 1]"

lemma list_world:
  "redis_strings list_world [''GET'', ''bob''] = (Some (RString ''t''), list_world)"
  "redis_strings list_world [''GET'', c_str (FILE_USER_COUNT @ ''bob'')] = (Some (RString (show_int 1)), list_world)"
  by (simp_all add: list_world_def redis_strings_def FILE_USER_COUNT_def NUL_def)

lemma demo_url_normal:
  "QueryParseKeyValue ''/api/myfiles?cmd=normal'' ''cmd'' 20 = Ret (Some (''normal'', 6))"
  by (simp add: QueryParseKeyValue_def c_str_def NUL_def strncpy_buf_def stop_char_def)

theorem ApiMyfiles_lists_witness:
  "yields (demo_env list_demo_sql redis_strings) (serving demo_config None None) list_world
     (ApiMyfiles ''/api/myfiles?cmd=normal'' list_body)
     (0, files_response (map (row_json file_columns list_km) [list_row]) 1) list_world (serving demo_config None None)"
  by (rule ApiMyfiles_lists [OF demo_url_normal, where q = "sql_files_normal ''bob'' 0 10" and start = 0 and count = 10
        and m = list_members and rest = "[]" and user = "''bob''" and tok = "''t''" and r = "RString ''t''"
        and ?w1.0 = list_world and ?w2.0 = list_world and n = 1 and a = 0])
     (simp_all add: list_body_parsed list_demo list_world user_file_list_sql_def list_members_def is_int32_def NUL_def
       reply_token_def is_RString_def reply_text_def reply_str_def)

end
