(* ===== verification/Api_Register.thy ===== *)
theory Api_Register
  imports Demo
begin

text \<open>
  api/api_register.cc: the registration request. It runs on a worker thread and puts its response
  into the queue. The buffer of strftime is large enough for the format, so OsLocalTime stands for
  time, localtime and strftime together.
\<close>

text \<open>userName, nickName, firstPwd, and the two members that may be missing.\<close>

definition decodeRegisterJson :: "string \<Rightarrow> string list option prog" where
  "decodeRegisterJson str_json =
     parse_request str_json (\<lambda>root.
       bindp (str_fields root [''userName'', ''nickName'', ''firstPwd'']) (\<lambda>req.
       case req of
         None \<Rightarrow> Ret None
       | Some xs \<Rightarrow>
           bindp (opt_str_field root ''phone'') (\<lambda>phone.
           bindp (opt_str_field root ''email'') (\<lambda>email. Ret (Some (xs @ [phone, email]))))))"

definition encodeRegisterJson :: "int \<Rightarrow> string" where
  "encodeRegisterJson ret = encode_code ret"

definition sql_user_exists :: "string \<Rightarrow> string" where
  [sql_text]: "sql_user_exists user =
     FormatString (''select * from user_info where user_name='%s'' @ [CHR 0x27]) [PStr user]"

definition sql_insert_user :: string where
  [sql_text]: "sql_insert_user =
     ''insert into user_info (`user_name`,`nick_name`,`password`,`phone`,`email`,`create_time`) values(?,?,?,?,?,?)''"

definition registerUser :: "string \<Rightarrow> string \<Rightarrow> string \<Rightarrow> string \<Rightarrow> string \<Rightarrow> int prog" where
  "registerUser user_name nick_name pwd phone email =
     with_db_conn ''tuchuang_slave'' (\<lambda>db_conn.
       bindp (CDBConn_ExecuteQuery db_conn (sql_user_exists user_name)) (\<lambda>pResultSet.
       let register =
         Os OsLocalTime (\<lambda>now.
         bindp (CPrepareStatement_run db_conn sql_insert_user
                  [user_name, nick_name, pwd, phone, email, c_str (os_str now)]) (\<lambda>stmt.
         Ret (if stmt_init_ok stmt then (if stmt_update_ok stmt then 0 else 1) else 0)))
       in
         case pResultSet of
           None \<Rightarrow> register
         | Some rs \<Rightarrow>
             (case CResultSet_Next rs of (found, rs') \<Rightarrow>
                if found then
                  bindp (CResultSet_GetInt rs' ''id'') (\<lambda>_.
                  bindp (CResultSet_GetString rs' ''user_name'') (\<lambda>_. Ret 2))
                else register)))"

text \<open>The part before the label END, and the whole.\<close>

definition register_answer :: "string \<Rightarrow> (int \<times> string) prog" where
  "register_answer post_data =
     (if post_data = [] then Ret (- 1, encodeRegisterJson 1)
      else
        bindp (decodeRegisterJson post_data) (\<lambda>req.
          case req of
            Some [user_name, nick_name, pwd, phone, email] \<Rightarrow>
              bindp (registerUser user_name nick_name pwd phone email) (\<lambda>ret.
              Ret (0, encodeRegisterJson ret))
          | _ \<Rightarrow> Ret (- 1, encodeRegisterJson 1)))"

definition ApiRegisterUser :: "int \<Rightarrow> string \<Rightarrow> string \<Rightarrow> int prog" where
  "ApiRegisterUser uuid url post_data =
     bindp (register_answer post_data) (\<lambda>(ret, str_json).
     bindp (AddResponseData uuid (http_response str_json)) (\<lambda>_. Ret ret))"

section \<open>Lemmas\<close>

lemma keeps_ApiRegisterUser [simp]: "keeps balanced (ApiRegisterUser uuid url post_data)"
  by (auto simp: ApiRegisterUser_def register_answer_def decodeRegisterJson_def registerUser_def Let_def
      split: option.splits list.splits prod.splits intro!: keeps_bindp)

lemma results_registerUser: "results (\<lambda>r. r \<in> {0, 1, 2}) (registerUser u n p ph e)"
  unfolding registerUser_def Let_def
  by ((rule results_with_conn(1) results_bindpI | simp split: option.splits prod.splits | intro conjI impI allI)+)

definition register_statements :: "event \<Rightarrow> bool" where
  "register_statements e \<longleftrightarrow>
     conn_event e \<or> e = EvOs OsLocalTime \<or> (\<exists>user. e = EvMysql (c_str (sql_user_exists user))) \<or>
     (\<exists>ps. length ps = 6 \<and> e = EvStmt (c_str sql_insert_user) ps)"

lemma register_statements [simp]:
  "conn_ok register_statements" "register_statements (EvOs OsLocalTime)"
  "register_statements (EvMysql (c_str (sql_user_exists user)))"
  "length ps = 6 \<Longrightarrow> register_statements (EvStmt (c_str sql_insert_user) ps)"
  by (auto simp: conn_ok_def register_statements_def)

text \<open>
  A registration changes the database by one prepared statement only, whose six values are
  bound and never become part of the statement's text; besides it, it asks only whether the user
  exists, and the time.
\<close>

lemma ApiRegisterUser_statements: "calls register_statements (ApiRegisterUser uuid url post_data)"
  by (auto simp: ApiRegisterUser_def register_answer_def decodeRegisterJson_def registerUser_def Let_def
      split: option.splits list.splits prod.splits intro!: calls_bindpI)

text \<open>
  C15. Every run of ApiRegisterUser that ends has put exactly one response into the queue, for the
  connection it was called for and with one of the codes 0, 1 and 2, and has left what was in the
  queue before it in place.
\<close>

theorem ApiRegisterUser_one_response:
  "keeps (\<lambda>s t. \<exists>code \<in> {0, 1, 2}. s_response_pdu_list t = s_response_pdu_list s @
            [\<lparr>conn_uuid = uuid, resp_data = http_response (encode_code code)\<rparr>])
     (ApiRegisterUser uuid url post_data)"
proof -
  have "results (\<lambda>r. \<exists>code \<in> {0, 1, 2}. snd r = encode_code code) (register_answer post_data)"
    unfolding register_answer_def
    by ((rule results_bindp [OF results_registerUser] results_bindpI
         | simp add: encodeRegisterJson_def split: option.splits list.splits | intro conjI impI allI | fastforce)+)
  moreover have "keeps same_queue (register_answer post_data)"
    by (auto simp: register_answer_def decodeRegisterJson_def registerUser_def Let_def
        split: option.splits list.splits prod.splits intro!: keeps_bindp)
  ultimately have answer: "ensures (\<lambda>r t. (\<exists>code \<in> {0, 1, 2}. snd r = encode_code code) \<and> same_queue s t)
      (register_answer post_data) s" for s
    by (intro ensures_results) (simp_all add: keeps_def)
  show ?thesis
    unfolding keeps_def ApiRegisterUser_def
    by (auto intro!: ensures_bindp [OF answer] simp: AddResponseData_def modS_def same_queue_def)
qed

section \<open>Answers\<close>

lemma yields_registerUser_exists:
  assumes "env_mysql E w (c_str (sql_user_exists user)) = (QueryOk (Some t) n, w1)"
    and "tb_fields t = [''id'', ''user_name'']" and "tb_rows t = [Some (show_int i), Some u] # rest"
  shows "yields E (serving cf None cl) w (registerUser user nick pwd phone email) 2 w1 (serving cf None cl)"
  unfolding registerUser_def Let_def
  by (rule yields_with_db_conn, rule yields_bindp, rule yields_db(1) [OF assms(1)])
     (simp add: query_value_def assms(2,3) new_CResultSet_def CResultSet_Next_def CResultSet_GetInt_def
       CResultSet_GetString_def GetIndex_def cell_at_def deref_def NUL_def)

lemma yields_registerUser_new:
  assumes "env_mysql E w (c_str (sql_user_exists user)) = (no_rows cols, w1)"
    and "env_os E w1 OsLocalTime = (now, w2)"
    and "env_stmt E w2 (c_str sql_insert_user) [user, nick, pwd, phone, email, c_str (os_str now)] = (r, w3)"
  shows "yields E (serving cf None cl) w (registerUser user nick pwd phone email)
           (if stmt_init_ok r then (if stmt_update_ok r then 0 else 1) else 0) w3 (serving cf None cl)"
  unfolding registerUser_def Let_def
  by (rule yields_with_db_conn, rule yields_bindp, rule yields_db(1) [OF assms(1)],
      simp add: query_value_def no_rows_def new_CResultSet_def CResultSet_Next_def split del: if_split,
      rule yields_Os [OF assms(2)], rule yields_bindp, rule yields_stmt [OF assms(3)])
     simp

end
