(* ===== verification/Api_Sharefiles.thy ===== *)
theory Api_Sharefiles
  imports Listing
begin

text \<open>
  api/api_sharefiles.cc: how many files are shared, the list of them, and the ranking by downloads.
  The ranking is read from Redis, a sorted set of file identities and a hash from identity to name;
  when their number differs from the counter of shared files, both are rebuilt from MySQL first.
\<close>

section \<open>The number of shared files\<close>

text \<open>Unlike getUserFilesCount this one reports success after loading a missing counter.\<close>

definition getShareFilesCount :: "conn_ptr \<Rightarrow> conn_ptr \<Rightarrow> (int \<times> int) prog" where
  "getShareFilesCount db_conn cache_conn =
     bindp (CacheGetCount cache_conn FILE_PUBLIC_COUNT) (\<lambda>(got, file_count).
       let ret = (if got < 0 then - 1 else 0)
       in if file_count = 0 then
            bindp (DBGetShareFilesCount db_conn) (\<lambda>(got, count).
            if got < 0 then Ret (- 1, count)
            else
              bindp (CacheSetCount cache_conn FILE_PUBLIC_COUNT count) (\<lambda>set.
              Ret (if set < 0 then - 1 else 0, count)))
          else Ret (ret, to_int32 file_count))"

definition handleGetSharefilesCount :: "(int \<times> int) prog" where
  "handleGetSharefilesCount =
     with_db_conn ''tuchuang_slave'' (\<lambda>db_conn.
     with_cache_conn ''token'' (\<lambda>cache_conn. getShareFilesCount db_conn cache_conn))"

definition decodeShareFileslistJson :: "string \<Rightarrow> (int \<times> int) option prog" where
  "decodeShareFileslistJson str_json =
     parse_request str_json (\<lambda>root.
       bindp (int_field root ''start'') (\<lambda>start.
         case start of
           None \<Rightarrow> Ret None
         | Some i \<Rightarrow>
             bindp (int_field root ''count'') (\<lambda>count.
             Ret (map_option (\<lambda>n. (i, n)) count))))"

section \<open>The list\<close>

definition sql_share_files :: "int \<Rightarrow> int \<Rightarrow> string" where
  [sql_text]: "sql_share_files start count =
     FormatString ''select share_file_list.*, file_info.url, file_info.size, file_info.type from file_info,         share_file_list where file_info.md5 = share_file_list.md5 limit %d, %d''
       [PInt start, PInt count]"

definition share_file_columns :: "(string \<times> column) list" where
  "share_file_columns =
     [(''user'', StrColumn ''user''), (''md5'', StrColumn ''md5''), (''file_name'', StrColumn ''file_name''),
      (''share_status'', IntColumn ''share_status''), (''pv'', IntColumn ''pv''),
      (''create_time'', StrColumn ''create_time''), (''url'', StrColumn ''url''),
      (''size'', IntColumn ''size''), (''type'', StrColumn ''type'')]"

text \<open>What stands behind the label END in both handlers; None is ret = -1.\<close>

definition share_list_response :: "(json list \<times> int) option \<Rightarrow> string" where
  "share_list_response r =
     toStyledString (json_object
       (case r of
          None \<Rightarrow> [(''code'', JInt 1)]
        | Some (files, file_total) \<Rightarrow>
            (if files \<noteq> [] then [(''files'', json_list files)] else []) @
            [(''code'', JInt 0), (''total'', JInt file_total),
             (''count'', JInt (to_int32 (int (length files))))]))"

definition handleGetShareFilelist :: "int \<Rightarrow> int \<Rightarrow> string prog" where
  "handleGetShareFilelist start count =
     bindp
       (with_db_conn ''tuchuang_slave'' (\<lambda>db_conn.
        with_cache_conn ''token'' (\<lambda>cache_conn.
          bindp (getShareFilesCount db_conn cache_conn) (\<lambda>(ret, file_total).
          if ret < 0 then Ret None
          else if file_total = 0 then Ret (Some ([], 0))
          else
            bindp (CDBConn_ExecuteQuery db_conn (sql_share_files start count)) (\<lambda>pResultSet.
              case pResultSet of
                None \<Rightarrow> Ret None
              | Some rs \<Rightarrow>
                  bindp (fetch_all (row_object share_file_columns) rs) (\<lambda>files.
                  Ret (Some (files, file_total))))))))
       (\<lambda>r. Ret (share_list_response r))"

section \<open>The ranking\<close>

definition sql_share_ranking :: string where
  [sql_text]: "sql_share_ranking = ''select md5, file_name, pv from share_file_list order by pv desc''"

text \<open>One row of share_file_list goes into the sorted set and the hash.\<close>

definition import_share :: "conn_ptr \<Rightarrow> result_set \<Rightarrow> unit prog" where
  "import_share cache_conn rs =
     bindp (CResultSet_GetString rs ''md5'') (\<lambda>p. bindp (deref p) (\<lambda>md5.
     bindp (CResultSet_GetString rs ''file_name'') (\<lambda>p. bindp (deref p) (\<lambda>file_name.
     bindp (CResultSet_GetInt rs ''pv'') (\<lambda>pv.
     bindp (sprintf_buf 1024 (c_printf ''%s%s'' [PStr md5, PStr file_name])) (\<lambda>field.
     bindp (CacheConn_ZsetAdd cache_conn FILE_PUBLIC_ZSET pv field) (\<lambda>_.
     bindp (CacheConn_Hset cache_conn FILE_NAME_HASH field file_name) (\<lambda>_. Ret ()))))))))"

text \<open>Steps a and b; the result is False when the statement fails.\<close>

definition rebuild_ranking :: "conn_ptr \<Rightarrow> conn_ptr \<Rightarrow> bool prog" where
  "rebuild_ranking db_conn cache_conn =
     bindp (CacheConn_Del cache_conn FILE_PUBLIC_ZSET) (\<lambda>_.
     bindp (CacheConn_Del cache_conn FILE_NAME_HASH) (\<lambda>_.
     bindp (CDBConn_ExecuteQuery db_conn sql_share_ranking) (\<lambda>pCResultSet.
       case pCResultSet of
         None \<Rightarrow> Ret False
       | Some rs \<Rightarrow> bindp (fetch_all (import_share cache_conn) rs) (\<lambda>_. Ret True))))"

text \<open>
  calloc of count elements of VALUES_ID_SIZE bytes. The int becomes a size_t, and the product of a
  negative one overflows, which calloc refuses; another amount is for the system to give or not.
\<close>

definition calloc_values :: "int \<Rightarrow> bool prog" where
  "calloc_values count =
     (if count < 0 then Ret False
      else Os (OsCalloc count (int VALUES_ID_SIZE)) (\<lambda>r. Ret (os_int r \<noteq> 0)))"

fun rank_files :: "conn_ptr \<Rightarrow> string list \<Rightarrow> json list option prog" where
  "rank_files cache_conn [] = Ret (Some [])"
| "rank_files cache_conn (v # vs) =
     bindp (CacheConn_Hget_buf cache_conn FILE_NAME_HASH v 1024) (\<lambda>got.
       case got of
         None \<Rightarrow> Ret None
       | Some filename \<Rightarrow>
           bindp (CacheConn_ZsetGetScore cache_conn FILE_PUBLIC_ZSET v) (\<lambda>score.
           if score = - 1 then Ret None
           else
             bindp (rank_files cache_conn vs) (\<lambda>rest.
             Ret (map_option (\<lambda>fs. json_object [(''filename'', JStr filename), (''pv'', JInt score)] # fs) rest))))"

definition read_ranking :: "conn_ptr \<Rightarrow> int \<Rightarrow> int \<Rightarrow> json list option prog" where
  "read_ranking cache_conn start count =
     bindp (calloc_values count) (\<lambda>ok.
     if \<not> ok then Ret None
     else
       bindp (add_int32 start count) (\<lambda>sum.
       bindp (add_int32 sum (- 1)) (\<lambda>end_pos.
       bindp (CacheConn_ZsetZrevrange cache_conn FILE_PUBLIC_ZSET start end_pos) (\<lambda>(ret, vals).
       if ret \<noteq> 0 then Ret None
       else rank_files cache_conn (case vals of None \<Rightarrow> [] | Some vs \<Rightarrow> vs)))))"

definition handleGetRankingFilelist :: "int \<Rightarrow> int \<Rightarrow> string prog" where
  "handleGetRankingFilelist start count =
     bindp
       (with_db_conn ''tuchuang_slave'' (\<lambda>db_conn.
        with_cache_conn ''token'' (\<lambda>cache_conn.
          bindp (getShareFilesCount db_conn cache_conn) (\<lambda>(ret, sql_num).
          if ret \<noteq> 0 then Ret None
          else
            bindp (CacheConn_ZsetZcard cache_conn FILE_PUBLIC_ZSET) (\<lambda>redis_num.
            if redis_num = - 1 then Ret None
            else
              bindp (if redis_num \<noteq> sql_num then rebuild_ranking db_conn cache_conn else Ret True) (\<lambda>ok.
              if \<not> ok then Ret None
              else
                bindp (read_ranking cache_conn start count) (\<lambda>files.
                Ret (map_option (\<lambda>fs. (fs, sql_num)) files))))))))
       (\<lambda>r. Ret (share_list_response r))"

section \<open>The request\<close>

definition encodeSharefilesJson :: "int \<Rightarrow> int \<Rightarrow> string" where
  "encodeSharefilesJson ret file_total =
     FastWriter_write (json_object
       ([(''code'', JInt ret)] @ (if ret = 0 then [(''total'', JInt file_total)] else [])))"

definition ApiSharefiles :: "string \<Rightarrow> string \<Rightarrow> (int \<times> string) prog" where
  "ApiSharefiles url post_data =
     bindp (read_cmd url) (\<lambda>cmd.
       if cmd = ''count'' then
         bindp handleGetSharefilesCount (\<lambda>(ret, count).
         Ret (0, if ret < 0 then encodeSharefilesJson 1 0 else encodeSharefilesJson 0 count))
       else
         bindp (decodeShareFileslistJson post_data) (\<lambda>req.
           case req of
             None \<Rightarrow> Ret (0, encodeSharefilesJson 1 0)
           | Some (start, count) \<Rightarrow>
               if cmd = ''normal'' then bindp (handleGetShareFilelist start count) (\<lambda>str_json. Ret (0, str_json))
               else if cmd = ''pvdesc'' then bindp (handleGetRankingFilelist start count) (\<lambda>str_json. Ret (0, str_json))
               else Ret (0, encodeSharefilesJson 1 0)))"

section \<open>Borrowing\<close>

lemma keeps_share_steps [simp]:
  "keeps balanced (getShareFilesCount p q)" "keeps balanced (import_share q rs)"
  "keeps balanced (calloc_values n)" "keeps balanced (rank_files q vs)"
proof -
  show "keeps balanced (rank_files q vs)"
    by (induction vs) (auto split: option.splits intro!: keeps_bindp)
qed (auto simp: getShareFilesCount_def import_share_def calloc_values_def Let_def db_count_defs
    split: prod.splits intro!: keeps_bindp)

lemma keeps_share_lists [simp]:
  "keeps balanced (rebuild_ranking p q)" "keeps balanced (read_ranking q start count)"
  by (auto simp: rebuild_ranking_def read_ranking_def split: option.splits prod.splits intro!: keeps_bindp)

lemma keeps_sharefiles [simp]:
  "keeps balanced handleGetSharefilesCount" "keeps balanced (handleGetShareFilelist start count)"
  "keeps balanced (handleGetRankingFilelist start count)"
  by (auto simp: handleGetSharefilesCount_def handleGetShareFilelist_def handleGetRankingFilelist_def
      split: option.splits prod.splits intro!: keeps_bindp)

lemma keeps_ApiSharefiles [simp]: "keeps balanced (ApiSharefiles url post_data)"
  by (auto simp: ApiSharefiles_def decodeShareFileslistJson_def split: option.splits prod.splits intro!: keeps_bindp)

lemma yields_fetch_all_step:
  assumes "\<And>i v. i < length rs \<Longrightarrow>
      yields E P v (body \<lparr>key_map = km, rows_left = map row_of (drop (Suc i) rs), row_cur = RowAt (row_of (rs ! i))\<rparr>)
        (g (rs ! i)) (f (rs ! i) v) P"
  shows "yields E P w (fetch_all body \<lparr>key_map = km, rows_left = map row_of rs, row_cur = cur\<rparr>) (map g rs) (fold f rs w) P"
  using assms
proof (induction rs arbitrary: w cur)
  case Nil
  then show ?case by (simp add: fetch_all_rows)
next
  case (Cons r rest)
  have "yields E P w (body \<lparr>key_map = km, rows_left = map row_of rest, row_cur = RowAt (row_of r)\<rparr>) (g r) (f r w) P"
    using Cons.prems [of 0 w] by simp
  moreover have "yields E P (f r w) (fetch_all body \<lparr>key_map = km, rows_left = map row_of rest, row_cur = RowAt (row_of r)\<rparr>)
      (map g rest) (fold f rest (f r w)) P"
    by (rule Cons.IH) (use Cons.prems [of "Suc i" for i] in auto)
  ultimately show ?case
    by (simp add: fetch_all_rows Let_def) (rule yields_bindp, assumption, rule yields_bindp, assumption, simp)
qed

lemma yields_del:
  assumes "env_redis E w [''DEL'', c_str key] = (Some (RInteger i), w')"
  shows "yields E (serving cf dl (Some c)) w (CacheConn_Del (Some c) key) i w' (serving cf dl (Some c))"
  unfolding CacheConn_Del_def
  by (rule yields_command(1) [OF assms]) (simp add: reply_integer_def)

section \<open>The rebuilt ranking\<close>

text \<open>
  The sorted set and the hash as a Redis server keeps them: DEL, ZADD and HSET as its documentation
  describes them, on the two keys the ranking uses.
\<close>

type_synonym ranking_world = "(string \<Rightarrow> int option) \<times> (string \<Rightarrow> string option)"

definition redis_ranking :: "ranking_world \<Rightarrow> string list \<Rightarrow> redis_reply option \<times> ranking_world" where
  "redis_ranking w argv =
     (let (z, h) = w
      in case argv of
           [c, k] \<Rightarrow>
             if c = ''DEL'' then
               (Some (RInteger 1), if k = FILE_PUBLIC_ZSET then Map.empty else z,
                if k = FILE_NAME_HASH then Map.empty else h)
             else (Some (RError ''ERR''), w)
         | [c, k, x, y] \<Rightarrow>
             if c = ''ZADD'' \<and> k = FILE_PUBLIC_ZSET then
               (Some (RInteger (if z y = None then 1 else 0)), z(y \<mapsto> strtol x), h)
             else if c = ''HSET'' \<and> k = FILE_NAME_HASH then
               (Some (RInteger (if h x = None then 1 else 0)), z, h(x \<mapsto> y))
             else (Some (RError ''ERR''), w)
         | _ \<Rightarrow> (Some (RError ''ERR''), w))"

text \<open>A row of the statement: MD5, file name and pv.\<close>

type_synonym share_row = "string \<times> string \<times> int"

definition share_row :: "share_row \<Rightarrow> row" where
  "share_row r = (case r of (md5, name, pv) \<Rightarrow> [Some md5, Some name, Some (show_int pv)])"

definition share_id :: "share_row \<Rightarrow> string" where
  "share_id r = (case r of (md5, name, pv) \<Rightarrow> md5 @ name)"

definition share_row_ok :: "share_row \<Rightarrow> bool" where
  "share_row_ok r \<longleftrightarrow>
     (case r of (md5, name, pv) \<Rightarrow> nul_free md5 \<and> nul_free name \<and> is_int32 pv \<and> length (md5 @ name) < 1024)"

definition add_share :: "share_row \<Rightarrow> ranking_world \<Rightarrow> ranking_world" where
  "add_share r w = ((fst w)(share_id r \<mapsto> snd (snd r)), (snd w)(share_id r \<mapsto> fst (snd r)))"

lemma fold_add_share:
  "fold add_share rs w =
     (fst w ++ map_of (rev (map (\<lambda>r. (share_id r, snd (snd r))) rs)),
      snd w ++ map_of (rev (map (\<lambda>r. (share_id r, fst (snd r))) rs)))"
  by (induction rs arbitrary: w) (auto simp: add_share_def map_add_def fun_eq_iff split: option.splits)

lemma yields_import_share:
  assumes redis: "env_redis E = redis_ranking" and ok: "share_row_ok r"
  shows "yields E (serving cf (Some c) (Some d)) w
      (import_share (Some d)
        \<lparr>key_map = [''md5'', ''file_name'', ''pv''], rows_left = rest, row_cur = RowAt (share_row r)\<rparr>)
      () (add_share r w) (serving cf (Some c) (Some d))"
proof -
  obtain md5 name pv where r: "r = (md5, name, pv)" by (metis surj_pair)
  with ok have f: "nul_free md5" "nul_free name" "is_int32 pv" "length (md5 @ name) < 1024"
    by (simp_all add: share_row_ok_def)
  have id: "c_printf ''%s%s'' [PStr md5, PStr name] = md5 @ name"
    using f by simp
  obtain z h where w: "w = (z, h)" by (cases w)
  have add: "env_redis E w [''ZADD'', c_str FILE_PUBLIC_ZSET, show_int pv, c_str (md5 @ name)] =
      (Some (RInteger (if z (md5 @ name) = None then 1 else 0)), z(md5 @ name \<mapsto> pv), h)"
    using f strtol_show_int [OF is_int32_is_int64 [OF f(3)]]
    by (simp add: redis w redis_ranking_def FILE_PUBLIC_ZSET_def NUL_def)
  have set: "env_redis E (z(md5 @ name \<mapsto> pv), h) [''HSET'', c_str FILE_NAME_HASH, c_str (md5 @ name), c_str name] =
      (Some (RInteger (if h (md5 @ name) = None then 1 else 0)), add_share r w)"
    using f by (simp add: redis w r redis_ranking_def FILE_NAME_HASH_def NUL_def add_share_def share_id_def)
  show ?thesis
    unfolding import_share_def
    using f
    by (simp add: r share_row_def CResultSet_GetString_def CResultSet_GetInt_def GetIndex_def cell_at_def deref_def
        atoi_show_int id NUL_def w)
       (rule yields_bindp, rule yields_sprintf, simp,
        rule yields_bindp, rule yields_zset(2) [OF add [unfolded w]],
        rule yields_bindp, rule yields_cache(6) [OF set], simp add: r w)
qed

text \<open>
  C20. When the sorted set and the counter disagree, what the ranking does to Redis is exact:
  whatever the sorted set and the hash held before, afterwards they hold the rows MySQL answered
  with, the identity of each with its pv and its name, and nothing else.
\<close>

theorem rebuild_ranking_exact:
  assumes "env_redis E = redis_ranking"
    and "env_mysql E (Map.empty, Map.empty) (c_str sql_share_ranking) =
           (QueryOk (Some \<lparr>tb_fields = [''md5'', ''file_name'', ''pv''], tb_rows = map share_row rs\<rparr>) n,
            Map.empty, Map.empty)"
    and "list_all share_row_ok rs"
  shows "yields E (serving cf (Some c) (Some d)) w (rebuild_ranking (Some c) (Some d)) True
           (map_of (rev (map (\<lambda>r. (share_id r, snd (snd r))) rs)),
            map_of (rev (map (\<lambda>r. (share_id r, fst (snd r))) rs))) (serving cf (Some c) (Some d))"
proof -
  let ?S = "serving cf (Some c) (Some d)"
  obtain z h where w: "w = (z, h)" by (cases w)
  have del: "env_redis E (z, h) [''DEL'', c_str FILE_PUBLIC_ZSET] = (Some (RInteger 1), Map.empty, h)"
    "env_redis E (Map.empty, h) [''DEL'', c_str FILE_NAME_HASH] = (Some (RInteger 1), Map.empty, Map.empty)"
    by (simp_all add: assms(1) redis_ranking_def FILE_PUBLIC_ZSET_def FILE_NAME_HASH_def NUL_def)
  have rows: "yields E ?S (Map.empty, Map.empty)
      (fetch_all (import_share (Some d)) (new_CResultSet \<lparr>tb_fields = [''md5'', ''file_name'', ''pv''], tb_rows = map share_row rs\<rparr>))
      (map (\<lambda>r. ()) rs) (fold add_share rs (Map.empty, Map.empty)) ?S"
    unfolding new_CResultSet_def
    by (simp, rule yields_fetch_all_step)
       (use assms(3) in \<open>auto simp: list_all_length intro: yields_import_share [OF assms(1)]\<close>)
  show ?thesis
    unfolding rebuild_ranking_def w
    by (rule yields_bindp, rule yields_del [OF del(1)], rule yields_bindp, rule yields_del [OF del(2)],
        rule yields_bindp, rule yields_db(1) [OF assms(2)], simp add: query_value_def,
        rule yields_bindp, rule rows, simp add: fold_add_share)
qed


definition ranking_env :: "(string \<Rightarrow> mysql_reply) \<Rightarrow> ranking_world env" where
  "ranking_env sql =
     \<lparr>env_mysql_connect = (\<lambda>w ps. (Connected, w)), env_mysql = (\<lambda>w q. (sql q, w)),
      env_stmt = (\<lambda>w q ps. (Executed 1 1, w)), env_redis_connect = (\<lambda>w h p. (True, w)),
      env_redis = redis_ranking, env_os = (\<lambda>w c. (\<lparr>os_int = 1, os_str = ''2024-01-01 00:00:00''\<rparr>, w)),
      env_libc = demo_libc\<rparr>"

text \<open>A stale member goes, two rows come.\<close>

theorem rebuild_ranking_exact_witness:
  "\<exists>w'. yields (ranking_env (\<lambda>q. QueryOk (Some \<lparr>tb_fields = [''md5'', ''file_name'', ''pv''],
            tb_rows = map share_row [(''m1'', ''a.png'', 7), (''m2'', ''b.png'', 3)]\<rparr>) 0))
       (serving demo_config (Some 0) (Some 1)) ([''gone'' \<mapsto> 9], [''gone'' \<mapsto> ''x.png''])
       (rebuild_ranking (Some 0) (Some 1)) True w' (serving demo_config (Some 0) (Some 1)) \<and>
     w' = ([''m1a.png'' \<mapsto> 7, ''m2b.png'' \<mapsto> 3], [''m1a.png'' \<mapsto> ''a.png'', ''m2b.png'' \<mapsto> ''b.png''])"
  by (intro exI conjI, rule rebuild_ranking_exact [where n = 0 and rs = "[(''m1'', ''a.png'', 7), (''m2'', ''b.png'', 3)]"])
     (simp_all add: ranking_env_def share_row_ok_def is_int32_def NUL_def share_id_def fun_eq_iff)

end
