(* ===== verification/Api_Sharepicture.thy ===== *)
theory Api_Sharepicture
  imports Listing
begin

text \<open>
  api/api_sharepicture.cc: pictures shared by a link, which is a random word of 32 letters. A share
  holds a reference to the stored file like an entry of a user does; cancelling the last one takes
  the file away. Statements whose text is also used elsewhere have their own names here.
\<close>

section \<open>Requests and answers\<close>

definition decodeSharePictureJson :: "string \<Rightarrow> string list option prog" where
  "decodeSharePictureJson str_json =
     parse_request str_json (\<lambda>root. str_fields root [''token'', ''user'', ''md5'', ''filename''])"

definition encodeSharePictureJson :: "int \<Rightarrow> string \<Rightarrow> string" where
  "encodeSharePictureJson ret urlmd5 =
     FastWriter_write (json_object
       ([(''code'', JInt ret)] @ (if HTTP_RESP_OK = ret then [(''urlmd5'', JStr urlmd5)] else [])))"

definition decodePictureListJson :: "string \<Rightarrow> (string list \<times> int \<times> int) option prog" where
  "decodePictureListJson str_json =
     parse_request str_json (\<lambda>root.
       bindp (str_fields root [''token'', ''user'']) (\<lambda>strs.
         case strs of
           None \<Rightarrow> Ret None
         | Some ss \<Rightarrow>
             bindp (int_field root ''start'') (\<lambda>start.
               case start of
                 None \<Rightarrow> Ret None
               | Some i \<Rightarrow>
                   bindp (int_field root ''count'') (\<lambda>count.
                   Ret (map_option (\<lambda>n. (ss, i, n)) count)))))"

definition decodeCancelPictureJson :: "string \<Rightarrow> string list option prog" where
  "decodeCancelPictureJson str_json =
     parse_request str_json (\<lambda>root. str_fields root [''user'', ''urlmd5''])"

definition encodeCancelPictureJson :: "int \<Rightarrow> string" where
  "encodeCancelPictureJson ret = encode_code ret"

definition decodeBrowsePictureJson :: "string \<Rightarrow> string list option prog" where
  "decodeBrowsePictureJson str_json = parse_request str_json (\<lambda>root. str_fields root [''urlmd5''])"

definition encodeBrowselPictureJson :: "int \<Rightarrow> int \<Rightarrow> string \<Rightarrow> string \<Rightarrow> string \<Rightarrow> string" where
  "encodeBrowselPictureJson ret pv url user time =
     FastWriter_write (json_object
       ([(''code'', JInt ret)] @
        (if ret = 0 then [(''pv'', JInt pv), (''url'', JStr url), (''user'', JStr user), (''time'', JStr time)] else [])))"

section \<open>Statements\<close>

definition sql_share_pictures :: "string \<Rightarrow> int \<Rightarrow> int \<Rightarrow> string" where
  [sql_text]: "sql_share_pictures user start count =
     c_printf ''select share_picture_list.user, share_picture_list.filemd5, share_picture_list.file_name,share_picture_list.urlmd5, share_picture_list.pv,         share_picture_list.create_time, file_info.size from file_info, share_picture_list where share_picture_list.user = '%s' and          file_info.md5 = share_picture_list.filemd5 limit %d, %d''
       [PStr user, PInt start, PInt count]"

definition sql_own_picture :: "string \<Rightarrow> string \<Rightarrow> string" where
  [sql_text]: "sql_own_picture user urlmd5 =
     c_printf (''select * from share_picture_list where user = '%s' and urlmd5 = '%s'' @ [CHR 0x27])
       [PStr user, PStr urlmd5]"

definition sql_picture_md5 :: "string \<Rightarrow> string" where
  [sql_text]: "sql_picture_md5 urlmd5 =
     c_printf (''select filemd5 from share_picture_list where urlmd5 = '%s'' @ [CHR 0x27]) [PStr urlmd5]"

definition sql_lock_file :: "string \<Rightarrow> string" where
  [sql_text]: "sql_lock_file md5 =
     c_printf ''select count, file_id from file_info where md5 = '%s' for update'' [PStr md5]"

definition sql_picture_set_count :: "int \<Rightarrow> string \<Rightarrow> string" where
  [sql_text]: "sql_picture_set_count n md5 =
     c_printf (''update file_info set count=%d where md5 = '%s'' @ [CHR 0x27]) [PInt n, PStr md5]"

definition sql_delete_picture :: "string \<Rightarrow> string \<Rightarrow> string" where
  [sql_text]: "sql_delete_picture user urlmd5 =
     c_printf (''delete from share_picture_list where user = '%s' and urlmd5 = '%s'' @ [CHR 0x27])
       [PStr user, PStr urlmd5]"

definition sql_picture_delete_file :: "string \<Rightarrow> string" where
  [sql_text]: "sql_picture_delete_file md5 =
     c_printf (''delete from file_info where md5 = '%s'' @ [CHR 0x27]) [PStr md5]"

definition sql_insert_picture :: "string \<Rightarrow> string \<Rightarrow> string \<Rightarrow> string \<Rightarrow> string \<Rightarrow> string \<Rightarrow> string" where
  [sql_text]: "sql_insert_picture user filemd5 file_name urlmd5 key create_time =
     c_printf (''insert into share_picture_list (user, filemd5, file_name, urlmd5, '' @ [CHR 0x60] @ ''key'' @ [CHR 0x60] @
         '', pv, create_time) values ('%s', '%s', '%s', '%s', '%s', %d, '%s')'')
       [PStr user, PStr filemd5, PStr file_name, PStr urlmd5, PStr key, PInt 0, PStr create_time]"

definition sql_picture_ref_count :: "string \<Rightarrow> string" where
  [sql_text]: "sql_picture_ref_count md5 =
     c_printf (''select count from file_info where md5 = '%s'' @ [CHR 0x27]) [PStr md5]"

definition sql_picture_add_ref :: "int \<Rightarrow> string \<Rightarrow> string" where
  [sql_text]: "sql_picture_add_ref n md5 =
     c_printf (''update file_info set count = %d where md5 = '%s'' @ [CHR 0x27]) [PInt n, PStr md5]"

definition sql_browse_picture :: "string \<Rightarrow> string" where
  [sql_text]: "sql_browse_picture urlmd5 =
     c_printf (''select user, filemd5, file_name, pv, create_time from share_picture_list where urlmd5 = '%s'' @ [CHR 0x27])
       [PStr urlmd5]"

definition sql_picture_url :: "string \<Rightarrow> string" where
  [sql_text]: "sql_picture_url md5 =
     c_printf (''select url from file_info where md5 ='%s'' @ [CHR 0x27]) [PStr md5]"

definition sql_picture_set_pv :: "int \<Rightarrow> string \<Rightarrow> string" where
  [sql_text]: "sql_picture_set_pv pv urlmd5 =
     c_printf (''update share_picture_list set pv = %d where urlmd5 = '%s'' @ [CHR 0x27]) [PInt pv, PStr urlmd5]"

section \<open>Listing\<close>

definition getSharePicturesCount :: "conn_ptr \<Rightarrow> conn_ptr \<Rightarrow> string \<Rightarrow> (int \<times> int) prog" where
  "getSharePicturesCount db_conn cache_conn user_name =
     bindp (CacheGetCount cache_conn (SHARE_PIC_COUNT @ user_name)) (\<lambda>(got, file_count).
       let ret = (if got < 0 then - 1 else 0)
       in if file_count = 0 then
            bindp (DBGetSharePictureCountByUsername db_conn user_name) (\<lambda>(got, count).
            if got < 0 then Ret (- 1, count)
            else
              bindp (CacheSetCount cache_conn (SHARE_PIC_COUNT @ user_name) count) (\<lambda>set.
              Ret (if set < 0 then - 1 else 0, count)))
          else Ret (ret, to_int32 file_count))"

definition picture_columns :: "(string \<times> column) list" where
  "picture_columns =
     [(''user'', StrColumn ''user''), (''filemd5'', StrColumn ''filemd5''), (''file_name'', StrColumn ''file_name''),
      (''urlmd5'', StrColumn ''urlmd5''), (''pv'', IntColumn ''pv''), (''create_time'', StrColumn ''create_time''),
      (''size'', IntColumn ''size'')]"

text \<open>
  Behind END the branch of a failure sets the code of a second variable root, local to the branch;
  the root that is printed stays null.
\<close>

definition picture_list_response :: "(json list \<times> int) option \<Rightarrow> string" where
  "picture_list_response r =
     toStyledString
       (case r of
          None \<Rightarrow> JNull
        | Some (files, file_total) \<Rightarrow>
            json_object
              ((if files \<noteq> [] then [(''files'', json_list files)] else []) @
               [(''code'', JInt 0), (''count'', JInt (to_int32 (int (length files)))), (''total'', JInt file_total)]))"

definition handleGetSharePicturesList :: "string \<Rightarrow> int \<Rightarrow> int \<Rightarrow> string prog" where
  "handleGetSharePicturesList user start count =
     bindp
       (with_db_conn ''tuchuang_slave'' (\<lambda>db_conn.
        with_cache_conn ''token'' (\<lambda>cache_conn.
          bindp (getSharePicturesCount db_conn cache_conn user) (\<lambda>(ret, file_total).
          if ret < 0 then Ret None
          else if file_total = 0 then Ret (Some ([], 0))
          else
            bindp (sprintf_buf SQL_MAX_LEN (sql_share_pictures user start count)) (\<lambda>sql_cmd.
            bindp (CDBConn_ExecuteQuery db_conn sql_cmd) (\<lambda>pResultSet.
              case pResultSet of
                None \<Rightarrow> Ret None
              | Some rs \<Rightarrow>
                  bindp (fetch_all (row_object picture_columns) rs) (\<lambda>files.
                  Ret (Some (files, file_total)))))))))
       (\<lambda>r. Ret (picture_list_response r))"

section \<open>Cancelling\<close>

text \<open>The text in a column of the current row, as std::string takes it.\<close>

definition get_text :: "result_set \<Rightarrow> string \<Rightarrow> string prog" where
  "get_text rs key = bindp (CResultSet_GetString rs key) deref"

text \<open>What follows once the MD5 of the shared file is known. The result is ret.\<close>

definition cancel_reference :: "conn_ptr \<Rightarrow> conn_ptr \<Rightarrow> string \<Rightarrow> string \<Rightarrow> string \<Rightarrow> int prog" where
  "cancel_reference db_conn cache_conn user urlmd5 filemd5 =
     bindp (sprintf_buf SQL_MAX_LEN (sql_lock_file filemd5)) (\<lambda>sql_cmd.
     bindp (CDBConn_ExecuteQuery db_conn sql_cmd) (\<lambda>pResultSet.
       case pResultSet of
         None \<Rightarrow> Ret (- 1)
       | Some rs \<Rightarrow>
           (case CResultSet_Next rs of (found, rs') \<Rightarrow>
              if \<not> found then Ret (- 1)
              else
                bindp (get_text rs' ''file_id'') (\<lambda>fileid.
                bindp (CResultSet_GetInt rs' ''count'') (\<lambda>count0.
                bindp
                  (if 0 < count0 then
                     bindp (sprintf_buf SQL_MAX_LEN (sql_picture_set_count (count0 - 1) filemd5)) (\<lambda>sql_cmd.
                     bindp (CDBConn_ExecuteUpdate db_conn sql_cmd True) (\<lambda>updated. Ret (updated, count0 - 1)))
                   else Ret (True, count0)) (\<lambda>(ok, count).
                if \<not> ok then Ret (- 1)
                else
                  bindp (sprintf_buf SQL_MAX_LEN (sql_delete_picture user urlmd5)) (\<lambda>sql_cmd.
                  bindp (CDBConn_ExecutePassQuery db_conn sql_cmd) (\<lambda>deleted.
                  if \<not> deleted then Ret (- 1)
                  else
                    bindp
                      (if count = 0 then
                         bindp (sprintf_buf SQL_MAX_LEN (sql_picture_delete_file filemd5)) (\<lambda>sql_cmd.
                         bindp (CDBConn_ExecuteDrop db_conn sql_cmd) (\<lambda>dropped.
                         if \<not> dropped then Ret (- 1)
                         else bindp (RemoveFileFromFastDfs fileid) (\<lambda>ret2. Ret (if ret2 \<noteq> 0 then - 1 else 0))))
                       else Ret 0) (\<lambda>ret.
                    if ret \<noteq> 0 then Ret ret
                    else bindp (CacheDecrCount cache_conn (SHARE_PIC_COUNT @ user)) (\<lambda>_. Ret 0))))))))))"

definition handleCancelSharePicture :: "string \<Rightarrow> string \<Rightarrow> string prog" where
  "handleCancelSharePicture user urlmd5 =
     bindp
       (with_db_conn ''tuchuang_slave'' (\<lambda>db_conn.
        with_cache_conn ''token'' (\<lambda>cache_conn.
          bindp (sprintf_buf SQL_MAX_LEN (sql_own_picture user urlmd5)) (\<lambda>sql_cmd.
          bindp (CDBConn_ExecuteQuery db_conn sql_cmd) (\<lambda>pResultSet.
          if pResultSet = None then Ret (- 1)
          else
            bindp (CDBConn_GetRowNum db_conn) (\<lambda>line.
            if line = 0 then Ret 0
            else
              bindp (sprintf_buf SQL_MAX_LEN (sql_picture_md5 urlmd5)) (\<lambda>sql_cmd.
              bindp (CDBConn_ExecuteQuery db_conn sql_cmd) (\<lambda>pResultSet.
                case pResultSet of
                  None \<Rightarrow> Ret (- 1)
                | Some rs \<Rightarrow>
                    (case CResultSet_Next rs of (found, rs') \<Rightarrow>
                       if \<not> found then Ret (- 1)
                       else
                         bindp (get_text rs' ''filemd5'') (\<lambda>filemd5.
                         cancel_reference db_conn cache_conn user urlmd5 filemd5))))))))))
       (\<lambda>ret. Ret (encodeCancelPictureJson (if 0 = ret then HTTP_RESP_OK else HTTP_RESP_FAIL)))"

section \<open>Sharing\<close>

text \<open>
  The result is ret and the response. key is an array of five zero bytes, the empty string. The row
  of the share is inserted before anything asks whether the file exists.
\<close>

definition handleSharePicture :: "string \<Rightarrow> string \<Rightarrow> string \<Rightarrow> (int \<times> string) prog" where
  "handleSharePicture user filemd5 file_name =
     with_db_conn ''tuchuang_slave'' (\<lambda>db_conn.
     with_cache_conn ''token'' (\<lambda>cache_conn.
       bindp (RandomString 32) (\<lambda>urlmd5.
       Os OsLocalTime (\<lambda>create_time.
       bindp (sprintf_buf SQL_MAX_LEN (sql_insert_picture user filemd5 file_name urlmd5 [] (os_str create_time))) (\<lambda>sql_cmd.
       bindp (CDBConn_ExecuteCreate db_conn sql_cmd) (\<lambda>inserted.
       bindp
         (if \<not> inserted then Ret (- 1)
          else
            bindp (sprintf_buf SQL_MAX_LEN (sql_picture_ref_count filemd5)) (\<lambda>sql_cmd.
            bindp (GetResultOneCount db_conn sql_cmd 0) (\<lambda>(ret, count).
            if ret \<noteq> 0 then Ret (- 1)
            else
              bindp (add_int32 count 1) (\<lambda>count1.
              bindp (sprintf_buf SQL_MAX_LEN (sql_picture_add_ref count1 filemd5)) (\<lambda>sql_cmd.
              bindp (CDBConn_ExecuteUpdate db_conn sql_cmd True) (\<lambda>updated.
              if \<not> updated then Ret (- 1)
              else bindp (CacheIncrCount cache_conn (SHARE_PIC_COUNT @ user)) (\<lambda>_. Ret 0))))))) (\<lambda>ret.
       Ret (ret, encodeSharePictureJson (if ret = 0 then HTTP_RESP_OK else HTTP_RESP_FAIL) urlmd5))))))))"

section \<open>Browsing\<close>

text \<open>Some (pv, url, user, time) where the code reaches END with ret = 0.\<close>

definition browse_picture :: "conn_ptr \<Rightarrow> string \<Rightarrow> (int \<times> string \<times> string \<times> string) option prog" where
  "browse_picture db_conn urlmd5 =
     bindp (sprintf_buf SQL_MAX_LEN (sql_browse_picture urlmd5)) (\<lambda>sql_cmd.
     bindp (CDBConn_ExecuteQuery db_conn sql_cmd) (\<lambda>pResultSet.
       case pResultSet of
         None \<Rightarrow> Ret None
       | Some rs \<Rightarrow>
           (case CResultSet_Next rs of (found, rs') \<Rightarrow>
              if \<not> found then Ret None
              else
                bindp (get_text rs' ''user'') (\<lambda>user.
                bindp (get_text rs' ''filemd5'') (\<lambda>filemd5.
                bindp (get_text rs' ''file_name'') (\<lambda>file_name.
                bindp (CResultSet_GetInt rs' ''pv'') (\<lambda>pv.
                bindp (get_text rs' ''create_time'') (\<lambda>create_time.
                bindp (sprintf_buf SQL_MAX_LEN (sql_picture_url filemd5)) (\<lambda>sql_cmd.
                bindp (CDBConn_ExecuteQuery db_conn sql_cmd) (\<lambda>pResultSet.
                  case pResultSet of
                    None \<Rightarrow> Ret None
                  | Some us \<Rightarrow>
                      (case CResultSet_Next us of (found, us') \<Rightarrow>
                         if \<not> found then Ret None
                         else
                           bindp (get_text us' ''url'') (\<lambda>picture_url.
                           bindp (add_int32 pv 1) (\<lambda>pv1.
                           bindp (sprintf_buf SQL_MAX_LEN (sql_picture_set_pv pv1 urlmd5)) (\<lambda>sql_cmd.
                           bindp (CDBConn_ExecuteUpdate db_conn sql_cmd True) (\<lambda>updated.
                           Ret (if updated then Some (pv1, picture_url, user, create_time) else None))))))))))))))))"

definition handleBrowsePicture :: "string \<Rightarrow> string prog" where
  "handleBrowsePicture urlmd5 =
     with_db_conn ''tuchuang_slave'' (\<lambda>db_conn.
     with_cache_conn ''token'' (\<lambda>cache_conn.
       bindp (browse_picture db_conn urlmd5) (\<lambda>r.
       Ret (case r of
              Some (pv, url, user, time) \<Rightarrow> encodeBrowselPictureJson HTTP_RESP_OK pv url user time
            | None \<Rightarrow> encodeBrowselPictureJson HTTP_RESP_FAIL 0 [] [] []))))"

section \<open>The request\<close>

definition ApiSharepicture :: "string \<Rightarrow> string \<Rightarrow> (int \<times> string) prog" where
  "ApiSharepicture url post_data =
     bindp (read_cmd url) (\<lambda>cmd.
       let malformed = Ret (0, encodeSharePictureJson HTTP_RESP_FAIL [])
       in if cmd = ''share'' then
            bindp (decodeSharePictureJson post_data) (\<lambda>req.
              case req of
                Some [token, user_name, md5, filename] \<Rightarrow>
                  bindp (handleSharePicture user_name md5 filename) (\<lambda>(_, str_json). Ret (0, str_json))
              | _ \<Rightarrow> malformed)
          else if cmd = ''normal'' then
            bindp (decodePictureListJson post_data) (\<lambda>req.
              case req of
                Some ([token, user_name], start, count) \<Rightarrow>
                  bindp (handleGetSharePicturesList user_name start count) (\<lambda>str_json. Ret (0, str_json))
              | _ \<Rightarrow> malformed)
          else if cmd = ''cancel'' then
            bindp (decodeCancelPictureJson post_data) (\<lambda>req.
              case req of
                Some [user_name, urlmd5] \<Rightarrow>
                  bindp (handleCancelSharePicture user_name urlmd5) (\<lambda>str_json. Ret (0, str_json))
              | _ \<Rightarrow> Ret (0, encodeCancelPictureJson 1))
          else if cmd = ''browse'' then
            bindp (decodeBrowsePictureJson post_data) (\<lambda>req.
              case req of
                Some [urlmd5] \<Rightarrow> bindp (handleBrowsePicture urlmd5) (\<lambda>str_json. Ret (0, str_json))
              | _ \<Rightarrow> malformed)
          else malformed)"

section \<open>Borrowing\<close>

lemma keeps_get_text [simp]: "reflp R \<Longrightarrow> transp R \<Longrightarrow> keeps R (get_text rs key)"
  by (auto simp: get_text_def intro!: keeps_bindp)

lemma keeps_picture_steps [simp]:
  "keeps balanced (getSharePicturesCount p q user)" "keeps balanced (cancel_reference p q user urlmd5 filemd5)"
  "keeps balanced (browse_picture p urlmd5)"
  by (auto simp: getSharePicturesCount_def cancel_reference_def browse_picture_def Let_def db_count_defs
      split: prod.splits option.splits intro!: keeps_bindp)

lemma keeps_sharepicture [simp]:
  "keeps balanced (handleGetSharePicturesList user start count)" "keeps balanced (handleCancelSharePicture user urlmd5)"
  "keeps balanced (handleSharePicture user filemd5 file_name)" "keeps balanced (handleBrowsePicture urlmd5)"
  by (auto simp: handleGetSharePicturesList_def handleCancelSharePicture_def handleSharePicture_def
      handleBrowsePicture_def split: prod.splits option.splits intro!: keeps_bindp)

lemma keeps_if: "keeps R p \<Longrightarrow> keeps R q \<Longrightarrow> keeps R (if b then p else q)"
  by simp

lemma keeps_ApiSharepicture [simp]: "keeps balanced (ApiSharepicture url post_data)"
  unfolding ApiSharepicture_def Let_def decodeSharePictureJson_def decodePictureListJson_def
    decodeCancelPictureJson_def decodeBrowsePictureJson_def
  by (intro keeps_bindp keeps_if balanced_props keeps_parse_request;
      simp add: keeps_bindp split: option.split list.split prod.split)

section \<open>Cancelling a share releases its reference\<close>

lemma yields_get_text:
  "CResultSet_GetString rs key = Ret (Some v) \<Longrightarrow> yields E P w (get_text rs key) v w P"
  by (simp add: get_text_def yields_deref)

text \<open>A SELECT whose rows are only counted.\<close>

lemma yields_count_rows:
  assumes reply: "env_mysql E w (c_str q) = (QueryOk (Some t) n, w1)"
    and rest: "yields E (serving cf (Some c) cl) w1 (k (to_int32 (int (length (tb_rows t))))) a w2 Q"
  shows "yields E (serving cf (Some c) cl) w
     (bindp (CDBConn_ExecuteQuery (Some c) q) (\<lambda>r.
        if r = None then fail else bindp (CDBConn_GetRowNum (Some c)) k)) a w2 Q"
  unfolding yields_def
proof (intro allI impI)
  fix s assume s: "serving cf (Some c) cl s"
  then obtain conn where conn: "db_heap s c = Some conn"
    using db_serving_heap by (auto simp: serving_def)
  let ?s1 = "row_num_update_at c (to_int32 (int (length (tb_rows t)))) s"
  have s1: "serving cf (Some c) cl ?s1" using s by (simp add: serving_def)
  have heap: "db_heap ?s1 c = Some (conn\<lparr>row_num := to_int32 (int (length (tb_rows t)))\<rparr>)"
    using conn by (simp add: row_num_update_at_def)
  obtain s' where "run E (k (to_int32 (int (length (tb_rows t))))) ?s1 w1 = (Done a, s', w2)" "Q s'"
    using yieldsD [OF rest s1] by blast
  then show "\<exists>s'. run E (bindp (CDBConn_ExecuteQuery (Some c) q) (\<lambda>r.
        if r = None then fail else bindp (CDBConn_GetRowNum (Some c)) k)) s w = (Done a, s', w2) \<and> Q s'"
    using conn heap by (simp add: reply rows_of_def query_value_def)
qed

definition cancel_texts_fit :: "string \<Rightarrow> string \<Rightarrow> string \<Rightarrow> int \<Rightarrow> bool" where
  "cancel_texts_fit user urlmd5 md5 n \<longleftrightarrow>
     length (sql_own_picture user urlmd5) < SQL_MAX_LEN \<and> length (sql_picture_md5 urlmd5) < SQL_MAX_LEN \<and>
     length (sql_lock_file md5) < SQL_MAX_LEN \<and> length (sql_picture_set_count (n - 1) md5) < SQL_MAX_LEN \<and>
     length (sql_delete_picture user urlmd5) < SQL_MAX_LEN \<and> length (sql_picture_delete_file md5) < SQL_MAX_LEN"

text \<open>The reply to the SELECT of the reference count and the file id.\<close>

definition locked_file :: "int \<Rightarrow> string \<Rightarrow> mysql_reply" where
  "locked_file n fileid =
     QueryOk (Some \<lparr>tb_fields = [''count'', ''file_id''], tb_rows = [[Some (show_int n), Some fileid]]\<rparr>) 0"

lemma yields_cancel_reference:
  assumes fit: "cancel_texts_fit user urlmd5 md5 n" and n: "is_int32 n" "1 \<le> n" and "nul_free fileid"
    and lock: "env_mysql E w (c_str (sql_lock_file md5)) = (locked_file n fileid, w1)"
    and set: "env_mysql E w1 (c_str (sql_picture_set_count (n - 1) md5)) = (QueryOk u (Suc k), w2)"
    and del: "env_mysql E w2 (c_str (sql_delete_picture user urlmd5)) = (QueryOk u0 k0, w3)"
    and kept: "2 \<le> n \<Longrightarrow> w5 = w3"
    and last: "n = 1 \<Longrightarrow>
         length (c_printf ''fdfs_delete_file %s %s'' [PStr client, PStr fileid]) < 1024 * 2 \<and>
         env_mysql E w3 (c_str (sql_picture_delete_file md5)) = (QueryOk u1 k1, w4) \<and>
         env_os E w4 (OsSystem (c_printf ''fdfs_delete_file %s %s'' [PStr client, PStr fileid])) = (rc, w5) \<and>
         os_int rc = 0"
    and decr: "env_redis E w5 [''DECR'', c_str (SHARE_PIC_COUNT @ user)] = (Some (RInteger i), w6)" "0 \<le> i"
  shows "yields E (serving (client, ip, port) (Some c) (Some d)) w
           (cancel_reference (Some c) (Some d) user urlmd5 md5) 0 w6 (serving (client, ip, port) (Some c) (Some d))"
proof -
  let ?S = "serving (client, ip, port) (Some c) (Some d)"
  have gone: "yields E ?S w5 (CacheDecrCount (Some d) (SHARE_PIC_COUNT @ user)) 0 w6 ?S"
    by (rule yields_CacheDecrCount [OF decr(1)]) (use decr(2) in \<open>simp_all add: reply_integer_def\<close>)
  have stored: "yields E ?S w3
      (if n = 1 then
         bindp (sprintf_buf SQL_MAX_LEN (sql_picture_delete_file md5)) (\<lambda>sql_cmd.
         bindp (CDBConn_ExecuteDrop (Some c) sql_cmd) (\<lambda>dropped.
         if \<not> dropped then Ret (- 1)
         else bindp (RemoveFileFromFastDfs fileid) (\<lambda>ret2. Ret (if ret2 \<noteq> 0 then - 1 else 0))))
       else Ret 0) 0 w5 ?S"
  proof (cases "n = 1")
    case True
    note L = last [OF True]
    show ?thesis
      unfolding if_P [OF True]
      using fit True
      by - (rule yields_bindp, rule yields_sprintf, simp add: cancel_texts_fit_def,
          rule yields_bindp, rule yields_db(5) [OF L [THEN conjunct2, THEN conjunct1]],
          simp only: mysql_reply.distinct simp_thms if_False,
          rule yields_bindp,
          rule yields_RemoveFile [OF L [THEN conjunct2, THEN conjunct2, THEN conjunct1] L [THEN conjunct1]],
          simp add: L)
  next
    case False
    with kept n show ?thesis by simp
  qed
  show ?thesis
    unfolding cancel_reference_def
    using fit n \<open>nul_free fileid\<close>
    by - (rule yields_bindp, rule yields_sprintf, simp add: cancel_texts_fit_def,
        rule yields_bindp, rule yields_db(1) [OF lock],
        simp add: query_value_def locked_file_def new_CResultSet_def CResultSet_Next_def NUL_def split del: if_split,
        rule yields_bindp, rule yields_get_text, simp add: CResultSet_GetString_def GetIndex_def cell_at_def NUL_def,
        simp add: CResultSet_GetInt_def GetIndex_def cell_at_def deref_def atoi_show_int NUL_def split del: if_split,
        rule yields_bindp, rule yields_bindp, rule yields_sprintf, simp add: cancel_texts_fit_def,
        rule yields_bindp, rule yields_db(2) [OF set], simp add: update_value_def, rule yields_Ret,
        simp split del: if_split,
        rule yields_bindp, rule yields_sprintf, simp add: cancel_texts_fit_def,
        rule yields_bindp, rule yields_db(4) [OF del], simp split del: if_split,
        rule yields_bindp, rule stored, simp,
        rule yields_bindp, rule gone, simp)
qed

text \<open>
  C34. A picture share its owner cancels gives its reference to the stored file back: the count
  goes from n to n - 1, the row of the share is deleted, and if it was the last reference the row of
  the file goes too and FastDFS is told to delete the very file it named; the counter of the user
  is decremented at the end and the answer is code 0.
\<close>

theorem handleCancelSharePicture_releases:
  assumes fit: "cancel_texts_fit user urlmd5 md5 n" and n: "is_int32 n" "1 \<le> n"
    and free: "nul_free fileid" "nul_free md5"
    and own: "env_mysql E w (c_str (sql_own_picture user urlmd5)) = (QueryOk (Some t) j, w')" "length (tb_rows t) = 1"
    and md5: "env_mysql E w' (c_str (sql_picture_md5 urlmd5)) = (one_cell ''filemd5'' md5, w'')"
    and lock: "env_mysql E w'' (c_str (sql_lock_file md5)) = (locked_file n fileid, w1)"
    and set: "env_mysql E w1 (c_str (sql_picture_set_count (n - 1) md5)) = (QueryOk u (Suc k), w2)"
    and del: "env_mysql E w2 (c_str (sql_delete_picture user urlmd5)) = (QueryOk u0 k0, w3)"
    and kept: "2 \<le> n \<Longrightarrow> w5 = w3"
    and last: "n = 1 \<Longrightarrow>
         length (c_printf ''fdfs_delete_file %s %s'' [PStr client, PStr fileid]) < 1024 * 2 \<and>
         env_mysql E w3 (c_str (sql_picture_delete_file md5)) = (QueryOk u1 k1, w4) \<and>
         env_os E w4 (OsSystem (c_printf ''fdfs_delete_file %s %s'' [PStr client, PStr fileid])) = (rc, w5) \<and>
         os_int rc = 0"
    and decr: "env_redis E w5 [''DECR'', c_str (SHARE_PIC_COUNT @ user)] = (Some (RInteger i), w6)" "0 \<le> i"
  shows "yields E (serving (client, ip, port) None None) w (handleCancelSharePicture user urlmd5)
           (encodeCancelPictureJson 0) w6 (serving (client, ip, port) None None)"
proof -
  have release: "yields E (serving (client, ip, port) (Some c) (Some d)) w''
      (cancel_reference (Some c) (Some d) user urlmd5 md5) 0 w6 (serving (client, ip, port) (Some c) (Some d))" for c d
    by (rule yields_cancel_reference [OF fit n free(1) lock set del kept last decr])
  show ?thesis
    unfolding handleCancelSharePicture_def
    using fit
    by - (rule yields_bindp, rule yields_with_db_conn, rule yields_with_cache_conn,
        rule yields_bindp, rule yields_sprintf, simp add: cancel_texts_fit_def,
        rule yields_count_rows [OF own(1)], simp add: own(2) to_int32_def,
        rule yields_bindp, rule yields_sprintf, simp add: cancel_texts_fit_def,
        rule yields_bindp, rule yields_db(1) [OF md5],
        simp add: query_value_def one_cell_def new_CResultSet_def CResultSet_Next_def,
        rule yields_bindp, rule yields_get_text,
        simp add: CResultSet_GetString_def GetIndex_def cell_at_def NUL_def free,
        rule release, simp add: HTTP_RESP_OK_def)
qed


definition cancel_demo_sql :: "string \<Rightarrow> mysql_reply" where
  "cancel_demo_sql = sql_script
     [(sql_own_picture ''bob'' ''u'', one_cell ''user'' ''bob''),
      (sql_picture_md5 ''u'', one_cell ''filemd5'' ''m''),
      (sql_lock_file ''m'', locked_file 1 ''group1/M00''),
      (sql_picture_set_count 0 ''m'', QueryOk None 1),
      (sql_delete_picture ''bob'' ''u'', QueryOk None 1),
      (sql_picture_delete_file ''m'', QueryOk None 1)]"

lemma cancel_demo_answers:
  "cancel_demo_sql (c_str (sql_own_picture ''bob'' ''u'')) = one_cell ''user'' ''bob''"
  "cancel_demo_sql (c_str (sql_picture_md5 ''u'')) = one_cell ''filemd5'' ''m''"
  "cancel_demo_sql (c_str (sql_lock_file ''m'')) = locked_file 1 ''group1/M00''"
  "cancel_demo_sql (c_str (sql_picture_set_count 0 ''m'')) = QueryOk None 1"
  "cancel_demo_sql (c_str (sql_delete_picture ''bob'' ''u'')) = QueryOk None 1"
  "cancel_demo_sql (c_str (sql_picture_delete_file ''m'')) = QueryOk None 1"
  by code_simp+

lemma cancel_demo_fit: "cancel_texts_fit ''bob'' ''u'' ''m'' 1"
  "length (c_printf ''fdfs_delete_file %s %s'' [PStr ''/etc/fdfs/client.conf'', PStr ''group1/M00'']) < 1024 * 2"
  by code_simp+

theorem handleCancelSharePicture_releases_witness:
  "yields (demo_env cancel_demo_sql (calm_redis 0)) (serving (''/etc/fdfs/client.conf'', ''127.0.0.1'', ''80'') None None)
     Map.empty (handleCancelSharePicture ''bob'' ''u'') (encodeCancelPictureJson 0) Map.empty
     (serving (''/etc/fdfs/client.conf'', ''127.0.0.1'', ''80'') None None)"
  by (rule handleCancelSharePicture_releases [OF cancel_demo_fit(1), where fileid = "''group1/M00''" and i = 1
        and rc = "\<lparr>os_int = 0, os_str = ''2024-01-01 00:00:00''\<rparr>" and k = 0 and ?k0.0 = 1 and ?k1.0 = 1 and u = None
        and ?u0.0 = None and ?u1.0 = None and j = 0 and t = "\<lparr>tb_fields = [''user''], tb_rows = [[Some ''bob'']]\<rparr>"
        and w' = Map.empty and w'' = Map.empty and ?w1.0 = Map.empty
        and ?w2.0 = Map.empty and ?w3.0 = Map.empty and ?w4.0 = Map.empty and ?w5.0 = Map.empty])
     (use cancel_demo_fit(2) in \<open>simp_all add: cancel_demo_answers is_int32_def NUL_def one_cell_def\<close>)

lemma yields_state: "(\<And>s. run E p s w = (Done a, s, w')) \<Longrightarrow> yields E P w p a w' P"
  by (simp add: yields_def)

section \<open>Sharing takes a reference, after the row of the share was inserted\<close>

definition picture_texts_fit :: "string \<Rightarrow> string \<Rightarrow> string \<Rightarrow> string \<Rightarrow> string \<Rightarrow> int \<Rightarrow> bool" where
  "picture_texts_fit user md5 file_name urlmd5 now n \<longleftrightarrow>
     length (sql_insert_picture user md5 file_name urlmd5 [] now) < SQL_MAX_LEN \<and>
     length (sql_picture_ref_count md5) < SQL_MAX_LEN \<and> length (sql_picture_add_ref (n + 1) md5) < SQL_MAX_LEN"

text \<open>
  C35. Sharing a picture inserts the row of the share first and asks for the file afterwards. A
  file with n references gets n + 1, the counter of the user is incremented and the answer is code 0
  with the drawn link. A file the database does not know is answered with code 1, but nothing takes
  the inserted row back: the share stays in the list.
\<close>

theorem handleSharePicture_references:
  assumes fit: "picture_texts_fit user md5 file_name urlmd5 (os_str now) (case known of None \<Rightarrow> 0 | Some n \<Rightarrow> n)"
    and drawn: "\<And>s. run E (RandomString 32) s w = (Done urlmd5, s, w1)"
    and time: "env_os E w1 OsLocalTime = (now, w2)"
    and ins: "env_mysql E w2 (c_str (sql_insert_picture user md5 file_name urlmd5 [] (os_str now))) = (QueryOk u k, w3)"
    and count: "env_mysql E w3 (c_str (sql_picture_ref_count md5)) =
                  (case known of None \<Rightarrow> no_rows cols | Some n \<Rightarrow> one_cell ''count'' (show_int n), w4)"
    and ref: "\<And>n. known = Some n \<Longrightarrow> is_int32 n \<and> is_int32 (n + 1) \<and>
                  env_mysql E w4 (c_str (sql_picture_add_ref (n + 1) md5)) = (QueryOk u' (Suc k'), w5) \<and>
                  env_redis E w5 [''INCR'', c_str (SHARE_PIC_COUNT @ user)] = (Some r, w6)"
    and none: "known = None \<Longrightarrow> w6 = w4"
  shows "yields E (serving cf None None) w (handleSharePicture user md5 file_name)
           (case known of
              None \<Rightarrow> (- 1, encodeSharePictureJson HTTP_RESP_FAIL urlmd5)
            | Some _ \<Rightarrow> (0, encodeSharePictureJson HTTP_RESP_OK urlmd5)) w6 (serving cf None None)"
proof -
  let ?ret = "if known = None then - 1 else (0 :: int)"
  have tail: "yields E (serving cf (Some c) (Some d)) w3
      (bindp (sprintf_buf SQL_MAX_LEN (sql_picture_ref_count md5)) (\<lambda>sql_cmd.
       bindp (GetResultOneCount (Some c) sql_cmd 0) (\<lambda>(ret, count).
       if ret \<noteq> 0 then Ret (- 1)
       else
         bindp (add_int32 count 1) (\<lambda>count1.
         bindp (sprintf_buf SQL_MAX_LEN (sql_picture_add_ref count1 md5)) (\<lambda>sql_cmd.
         bindp (CDBConn_ExecuteUpdate (Some c) sql_cmd True) (\<lambda>updated.
         if \<not> updated then Ret (- 1)
         else bindp (CacheIncrCount (Some d) (SHARE_PIC_COUNT @ user)) (\<lambda>_. Ret 0))))))) ?ret w6
      (serving cf (Some c) (Some d))" for c d
  proof (cases known)
    case None
    with count have q: "env_mysql E w3 (c_str (sql_picture_ref_count md5)) = (no_rows cols, w4)" by simp
    show ?thesis
      using fit None none
      by - (rule yields_bindp, rule yields_sprintf, simp add: picture_texts_fit_def,
          rule yields_bindp, rule yields_GetResultOneCount_none [OF q], simp)
  next
    case (Some n)
    with count have q: "env_mysql E w3 (c_str (sql_picture_ref_count md5)) = (one_cell ''count'' (show_int n), w4)" by simp
    note R = ref [OF Some]
    show ?thesis
      using fit Some
      by - (rule yields_bindp, rule yields_sprintf, simp add: picture_texts_fit_def,
          rule yields_bindp, rule yields_GetResultOneCount [OF q], simp add: R, simp,
          rule yields_bindp, rule yields_add_int32, simp add: R,
          rule yields_bindp, rule yields_sprintf, simp add: picture_texts_fit_def,
          rule yields_bindp, rule yields_db(2) [OF R [THEN conjunct2, THEN conjunct2, THEN conjunct1]],
          simp add: update_value_def,
          rule yields_bindp, rule yields_CacheIncrCount, simp add: R, simp)
  qed
  show ?thesis
    unfolding handleSharePicture_def
    using fit
    by (intro yields_with_db_conn yields_with_cache_conn)
       (rule yields_bindp, rule yields_state, rule drawn, rule yields_Os [OF time],
        rule yields_bindp, rule yields_sprintf, simp add: picture_texts_fit_def,
        rule yields_bindp, rule yields_db(3) [OF ins], simp,
        rule yields_bindp, rule tail, simp split: option.splits)
qed

definition share_picture_demo_sql :: "string \<Rightarrow> mysql_reply" where
  "share_picture_demo_sql q =
     (if is_prefix ''select count'' q then no_rows [''count''] else QueryOk None 1)"

lemma share_picture_demo_answers:
  "share_picture_demo_sql (c_str (sql_insert_picture ''bob'' ''m'' ''f.png'' (replicate 32 CHR ''a'') [] ''2024-01-01 00:00:00'')) =
     QueryOk None 1"
  "share_picture_demo_sql (c_str (sql_picture_ref_count ''m'')) = no_rows [''count'']"
  by code_simp+

lemma share_picture_demo_fit:
  "picture_texts_fit ''bob'' ''m'' ''f.png'' (replicate 32 CHR ''a'') ''2024-01-01 00:00:00'' 0"
  by code_simp

theorem handleSharePicture_references_witness:
  "yields (demo_env share_picture_demo_sql (calm_redis 0)) (serving demo_config None None) Map.empty
     (handleSharePicture ''bob'' ''m'' ''f.png'')
     (- 1, encodeSharePictureJson HTTP_RESP_FAIL (replicate 32 CHR ''a'')) Map.empty (serving demo_config None None)"
  using handleSharePicture_references [where known = None and now = "\<lparr>os_int = 0, os_str = ''2024-01-01 00:00:00''\<rparr>"
        and E = "demo_env share_picture_demo_sql (calm_redis 0)" and ?urlmd5.0 = "replicate 32 CHR ''a''"
        and ?w1.0 = Map.empty and ?w2.0 = Map.empty and ?w3.0 = Map.empty and ?w4.0 = Map.empty and ?w5.0 = Map.empty
        and ?w6.0 = Map.empty and w = Map.empty and cols = "[''count'']" and u = None and k = 1 and user = "''bob''"
        and u' = None and k' = 0 and r = "RInteger 1" and ?md5.0 = "''m''" and file_name = "''f.png''" and cf = demo_config]
  by (simp add: share_picture_demo_answers share_picture_demo_fit run_RandomString_demo)

end
