(* ===== verification/Api_Upload.thy ===== *)
theory Api_Upload
  imports Demo
begin

text \<open>
  api/api_upload.cc: what happens after nginx has stored an uploaded file and passed its form on. The
  multipart body is taken apart by hand, the stored file renamed, handed to FastDFS by a child
  process whose output comes back through a pipe, and entered into the two tables.

  A char pointer into the body is the rest of the body from there; strstr stops at a NUL byte, the
  pointer arithmetic does not. FastDFS is the operating system's: the replies to OsFork, OsExeclp
  and OsReadPipe. A child whose execlp fails returns from the function like the parent does and goes
  on with the rest of the upload.
\<close>

section \<open>The form\<close>

definition find_in :: "string \<Rightarrow> string \<Rightarrow> string option" where
  "find_in p pat =
     map_option (\<lambda>found. drop (length (c_str p) - length found) p) (strstr (c_str p) pat)"

text \<open>
  strncpy of the n characters before a found position into an array of cap zero bytes. Beyond the
  array it is an overflow; an array filled to the end has no terminator, and the log statement that
  follows reads on.
\<close>

definition strncpy_zeroed :: "nat \<Rightarrow> string \<Rightarrow> nat \<Rightarrow> string prog" where
  "strncpy_zeroed cap src n =
     (if cap < n then Fault BufferOverflow
      else if n = cap then Fault OutOfBounds
      else Ret (take n src))"

text \<open>
  The value below the line a pointer is in: four bytes beyond the end of the line, up to the next
  end of a line. The result is the value and the position behind it. A NULL from the first strstr is
  used as an address, one from the second gives strncpy an enormous length.
\<close>

definition line_below :: "nat \<Rightarrow> string \<Rightarrow> (string \<times> string) prog" where
  "line_below cap p =
     (case find_in p crlf of
        None \<Rightarrow> Fault NullDeref
      | Some p2 \<Rightarrow>
          if length p2 < 4 then Fault OutOfBounds
          else
            (let start = drop 4 p2 in
             case find_in start crlf of
               None \<Rightarrow> Fault BufferOverflow
             | Some q \<Rightarrow>
                 bindp (strncpy_zeroed cap start (length start - length q)) (\<lambda>val.
                 Ret (val, drop 2 q))))"

definition form_field :: "nat \<Rightarrow> string \<Rightarrow> string \<Rightarrow> (string \<times> string) option prog" where
  "form_field cap pat p =
     (case find_in p pat of
        None \<Rightarrow> Ret None
      | Some p2 \<Rightarrow> bindp (line_below cap p2) (\<lambda>r. Ret (Some r)))"

text \<open>The name of a field as it stands in the body.\<close>

definition field_name :: "string \<Rightarrow> string" where
  "field_name n = ''name='' @ [CHR 0x22] @ n @ [CHR 0x22]"

record upload_form =
  up_boundary :: string
  up_file_name :: string
  up_content_type :: string
  up_file_path :: string
  up_file_md5 :: string
  up_file_size :: int
  up_user :: string

text \<open>
  Steps 1 and following of ApiUpload, up to the user. The search for file_name is only a check: the
  value is taken below the first line behind the boundary, whatever field that is.
\<close>

definition parse_upload :: "string \<Rightarrow> upload_form option prog" where
  "parse_upload post_data =
     (case find_in post_data crlf of
        None \<Rightarrow> Ret None
      | Some p1 \<Rightarrow>
          bindp (strncpy_buf TEMP_BUF_MAX_LEN (take (length post_data - length p1) post_data)) (\<lambda>boundary.
          let begin0 = drop 2 p1 in
          if find_in begin0 (field_name ''file_name'') = None then Ret None
          else
            bindp (line_below 128 begin0) (\<lambda>(file_name, begin1).
            bindp (form_field 128 (field_name ''file_content_type'') begin1) (\<lambda>r. case r of None \<Rightarrow> Ret None
              | Some (content_type, begin2) \<Rightarrow>
            bindp (form_field 128 (field_name ''file_path'') begin2) (\<lambda>r. case r of None \<Rightarrow> Ret None
              | Some (file_path, begin3) \<Rightarrow>
            bindp (form_field 128 (field_name ''file_md5'') begin3) (\<lambda>r. case r of None \<Rightarrow> Ret None
              | Some (file_md5, begin4) \<Rightarrow>
            bindp (form_field 32 (field_name ''file_size'') begin4) (\<lambda>r. case r of None \<Rightarrow> Ret None
              | Some (file_size, begin5) \<Rightarrow>
            bindp (form_field 32 (field_name ''user'') begin5) (\<lambda>r. case r of None \<Rightarrow> Ret None
              | Some (user, begin6) \<Rightarrow>
            Ret (Some \<lparr>up_boundary = boundary, up_file_name = file_name, up_content_type = content_type,
                       up_file_path = file_path, up_file_md5 = file_md5, up_file_size = strtol file_size,
                       up_user = user\<rparr>)))))))))"

section \<open>FastDFS\<close>

text \<open>
  Both commands run in a child: Some output is the parent with what it read from the pipe into an
  array of TEMP_BUF_MAX_LEN zero bytes, None the child whose execlp failed; the outer None is a
  failed pipe or fork.
\<close>

definition run_child :: "string list \<Rightarrow> string option option prog" where
  "run_child argv =
     Os OsPipe (\<lambda>r.
       if os_int r < 0 then Ret None
       else
         Os OsFork (\<lambda>pid.
           if os_int pid < 0 then Ret None
           else if os_int pid = 0 then
             Os (OsExeclp argv) (\<lambda>r. if os_int r < 0 then Ret (Some None) else Replaced)
           else
             Os OsReadPipe (\<lambda>r.
               let buf = take TEMP_BUF_MAX_LEN (os_str r)
               in if length (c_str buf) = TEMP_BUF_MAX_LEN then Fault OutOfBounds
                  else Ret (Some (Some (c_str buf))))))"

text \<open>The results are ret and the output parameter.\<close>

definition uploadFileToFastDfs :: "string \<Rightarrow> (int \<times> string) prog" where
  "uploadFileToFastDfs file_path =
     bindp (readS s_dfs_path_client) (\<lambda>client.
     bindp (run_child [''fdfs_upload_file'', c_str client, file_path]) (\<lambda>r.
       case r of
         None \<Rightarrow> Ret (- 1, [])
       | Some None \<Rightarrow> Ret (0, [])
       | Some (Some out) \<Rightarrow>
           bindp (TrimSpace out) (\<lambda>(_, fileid).
           if fileid = [] then Ret (- 1, fileid) else Os OsWait (\<lambda>_. Ret (0, fileid)))))"

definition HOST_NAME_LEN :: nat where "HOST_NAME_LEN = 30"
definition FILE_URL_LEN :: nat where "FILE_URL_LEN = 512"
definition SUFFIX_LEN :: nat where "SUFFIX_LEN = 8"

definition source_ip :: string where
  "source_ip = ''source ip address: ''"

definition getFullurlByFileid :: "string \<Rightarrow> (int \<times> string) prog" where
  "getFullurlByFileid fileid =
     bindp (readS s_dfs_path_client) (\<lambda>client.
     bindp (run_child [''fdfs_file_info'', c_str client, fileid]) (\<lambda>r.
       case r of
         None \<Rightarrow> Ret (- 1, [])
       | Some None \<Rightarrow> Ret (0, [])
       | Some (Some fdfs_file_stat_buf) \<Rightarrow>
           Os OsWait (\<lambda>_.
           case strstr fdfs_file_stat_buf source_ip of
             None \<Rightarrow> Fault NullDeref
           | Some p \<Rightarrow>
               (let q = drop (length source_ip) p in
                case strstr q [CHR 0x0A] of
                  None \<Rightarrow> Fault BufferOverflow
                | Some k \<Rightarrow>
                    bindp (strncpy_buf HOST_NAME_LEN (take (length q - length k) q)) (\<lambda>fdfs_file_host_name.
                    bindp (readS s_storage_web_server_ip) (\<lambda>ip.
                    bindp (readS s_storage_web_server_port) (\<lambda>port.
                    bindp (sprintf_buf FILE_URL_LEN (''http://'' @ c_str ip @ '':'' @ c_str port @ ''/'' @ fileid)) (\<lambda>url.
                    Ret (0, url)))))))))"

section \<open>The two tables\<close>

definition sql_insert_file_info :: "string \<Rightarrow> string \<Rightarrow> string \<Rightarrow> int \<Rightarrow> string \<Rightarrow> string" where
  [sql_text]: "sql_insert_file_info md5 fileid fdfs_file_url file_size suffix =
     c_printf ''insert into file_info (md5, file_id, url, size, type, count) values ('%s', '%s', '%s', '%ld', '%s', %d)''
       [PStr md5, PStr fileid, PStr fdfs_file_url, PInt file_size, PStr suffix, PInt 1]"

definition sql_insert_upload :: "string \<Rightarrow> string \<Rightarrow> string \<Rightarrow> string \<Rightarrow> string" where
  [sql_text]: "sql_insert_upload user md5 create_time filename =
     c_printf ''insert into user_file_list(user, md5, create_time, file_name, shared_status, pv) values ('%s', '%s', '%s', '%s', %d, %d)''
       [PStr user, PStr md5, PStr create_time, PStr filename, PInt 0, PInt 0]"

text \<open>The counter that is incremented has the name of the user as its key.\<close>

definition storeFileinfo ::
    "conn_ptr \<Rightarrow> conn_ptr \<Rightarrow> string \<Rightarrow> string \<Rightarrow> string \<Rightarrow> int \<Rightarrow> string \<Rightarrow> string \<Rightarrow> int prog" where
  "storeFileinfo db_conn cache_conn user filename md5 file_size fileid fdfs_file_url =
     bindp (GetFileSuffix (Some filename) SUFFIX_LEN) (\<lambda>(_, suffix).
     bindp (init_read suffix) (\<lambda>suffix.
     bindp (sprintf_buf SQL_MAX_LEN (sql_insert_file_info md5 fileid fdfs_file_url file_size suffix)) (\<lambda>sql_cmd.
     bindp (CDBConn_ExecuteCreate db_conn sql_cmd) (\<lambda>created.
     if \<not> created then Ret (- 1)
     else
       Os OsLocalTime (\<lambda>create_time.
       bindp (sprintf_buf SQL_MAX_LEN (sql_insert_upload user md5 (os_str create_time) filename)) (\<lambda>sql_cmd.
       bindp (CDBConn_ExecuteCreate db_conn sql_cmd) (\<lambda>created.
       if \<not> created then Ret (- 1)
       else bindp (CacheIncrCount cache_conn user) (\<lambda>_. Ret 0))))))))"

section \<open>The request\<close>

definition ApiUploadInit :: "string \<Rightarrow> string \<Rightarrow> string \<Rightarrow> string \<Rightarrow> string \<Rightarrow> int prog" where
  "ApiUploadInit dfs_path_client web_server_ip web_server_port storage_web_server_ip storage_web_server_port =
     bindp (modS (\<lambda>s. s\<lparr>s_dfs_path_client := dfs_path_client, s_web_server_ip := web_server_ip,
                        s_web_server_port := web_server_port, s_storage_web_server_ip := storage_web_server_ip,
                        s_storage_web_server_port := storage_web_server_port\<rparr>)) (\<lambda>_. Ret 0)"

text \<open>What is done with a parsed form: True where the code reaches the answer 0.\<close>

definition store_upload :: "conn_ptr \<Rightarrow> conn_ptr \<Rightarrow> upload_form \<Rightarrow> bool prog" where
  "store_upload db_conn cache_conn form =
     bindp (GetFileSuffix (Some (up_file_name form)) SUFFIX_LEN) (\<lambda>(_, suffix).
     bindp (init_read suffix) (\<lambda>suffix.
     bindp (sprintf_buf 128 (up_file_path form @ ''.'' @ suffix)) (\<lambda>new_file_path.
     Os (OsRename (up_file_path form) new_file_path) (\<lambda>ret.
     if os_int ret < 0 then Ret False
     else
       bindp (uploadFileToFastDfs new_file_path) (\<lambda>(ret, fileid).
       if ret < 0 then Ret False
       else
         Os (OsUnlink new_file_path) (\<lambda>_.
         bindp (getFullurlByFileid fileid) (\<lambda>(ret, fdfs_file_url).
         if ret < 0 then Ret False
         else
           bindp (storeFileinfo db_conn cache_conn (up_user form) (up_file_name form) (up_file_md5 form)
                    (up_file_size form) fileid fdfs_file_url) (\<lambda>ret.
           Ret (0 \<le> ret)))))))))"

definition ApiUpload :: "string \<Rightarrow> string \<Rightarrow> (int \<times> string) prog" where
  "ApiUpload url post_data =
     with_db_conn ''tuchuang_slave'' (\<lambda>db_conn.
     with_cache_conn ''token'' (\<lambda>cache_conn.
       bindp (parse_upload post_data) (\<lambda>form.
       bindp (case form of None \<Rightarrow> Ret False | Some f \<Rightarrow> store_upload db_conn cache_conn f) (\<lambda>ok.
       Ret (if ok then (0, toStyledString (json_object [(''code'', JInt 0)]))
            else (- 1, toStyledString (json_object [(''code'', JInt 1)])))))))"

section \<open>Borrowing\<close>

lemma keeps_form [simp]:
  "keeps balanced (strncpy_zeroed cap src n)" "keeps balanced (line_below cap p)" "keeps balanced (form_field cap pat p)"
  by (auto simp: strncpy_zeroed_def line_below_def form_field_def Let_def split: option.splits intro!: keeps_bindp)

lemma keeps_parse_upload [simp]: "keeps balanced (parse_upload post_data)"
  unfolding parse_upload_def Let_def
  by (auto split: option.split prod.split intro!: keeps_bindp)

lemma keeps_upload_steps [simp]:
  "keeps balanced (run_child argv)" "keeps balanced (uploadFileToFastDfs path)"
  "keeps balanced (getFullurlByFileid fileid)" "keeps balanced (storeFileinfo p q user name md5 n fileid url)"
proof -
  show child: "keeps balanced (run_child argv)" for argv
    by (auto simp: run_child_def Let_def)
  show "keeps balanced (uploadFileToFastDfs path)" "keeps balanced (getFullurlByFileid fileid)"
    using child
    by (auto simp: uploadFileToFastDfs_def getFullurlByFileid_def Let_def split: option.splits prod.splits
        intro!: keeps_bindp)
  show "keeps balanced (storeFileinfo p q user name md5 n fileid url)"
    by (auto simp: storeFileinfo_def split: prod.splits intro!: keeps_bindp)
qed

lemma keeps_ApiUpload [simp]: "keeps balanced (ApiUpload url post_data)"
  by (auto simp: ApiUpload_def store_upload_def split: prod.splits option.splits intro!: keeps_bindp)

section \<open>A form that was built is taken apart again\<close>

text \<open>
  The body nginx sends: the boundary line and then, for each field, its disposition line, an empty
  line, the value and the boundary line.
\<close>

definition disposition :: string where
  "disposition = ''Content-Disposition: form-data; ''"

definition form_part :: "string \<Rightarrow> string \<times> string \<Rightarrow> string" where
  "form_part boundary nv =
     disposition @ field_name (fst nv) @ crlf @ crlf @ snd nv @ crlf @ boundary @ crlf"

definition form_body :: "string \<Rightarrow> (string \<times> string) list \<Rightarrow> string" where
  "form_body boundary parts = boundary @ crlf @ concat (map (form_part boundary) parts)"

definition value_ok :: "nat \<Rightarrow> string \<Rightarrow> bool" where
  "value_ok cap v \<longleftrightarrow> nul_free v \<and> CHR 0x0D \<notin> set v \<and> length v < cap"

definition boundary_ok :: "string \<Rightarrow> bool" where
  "boundary_ok b \<longleftrightarrow> value_ok TEMP_BUF_MAX_LEN b \<and> CHR 0x22 \<notin> set b"

lemma find_in_nul_free: "nul_free p \<Longrightarrow> find_in p pat = strstr p pat"
  by (cases "strstr p pat") (auto simp: find_in_def dest: strstr_SomeD)

lemma strstr_skip:
  assumes "q \<notin> set (u @ v)" and "length v = length a"
  shows "strstr (u @ v @ s) (a @ q # b) = strstr (v @ s) (a @ q # b)"
  using assms
proof (induction u)
  case (Cons c u)
  have "\<not> is_prefix (a @ q # b) (c # u @ v @ s)"
  proof
    assume "is_prefix (a @ q # b) (c # u @ v @ s)"
    then obtain t where t: "c # u @ v @ s = (a @ q # b) @ t" by (auto simp: is_prefix_iff)
    have "(c # u @ v @ s) ! length a = q" by (simp add: t nth_append)
    moreover have "(c # u @ v @ s) ! length a = (c # u @ v) ! length a"
      using Cons.prems(2) nth_append [of "c # u @ v" s "length a"] by simp
    ultimately show False
      using Cons.prems nth_mem [of "length a" "c # u @ v"] by simp
  qed
  with Cons show ?case by simp
qed simp

lemma strstr_crlf: "CHR 0x0D \<notin> set u \<Longrightarrow> strstr (u @ crlf @ s) crlf = Some (crlf @ s)"
  using strstr_skip [of "CHR 0x0D" u "[]" "[]" "crlf @ s" "[CHR 0x0A]"] by (simp add: crlf_def)

lemma nul_free_crlf [simp]: "nul_free crlf"
  by (simp add: crlf_def NUL_def)

lemma length_crlf [simp]: "length crlf = 2"
  by (simp add: crlf_def)

lemma line_below_value:
  assumes "nul_free (u @ crlf @ crlf @ v @ crlf @ rest)" and "CHR 0x0D \<notin> set u" and "value_ok cap v"
  shows "line_below cap (u @ crlf @ crlf @ v @ crlf @ rest) = Ret (v, rest)"
proof -
  have "find_in (u @ crlf @ crlf @ v @ crlf @ rest) crlf = Some (crlf @ crlf @ v @ crlf @ rest)"
    using assms(2) by (simp add: find_in_nul_free [OF assms(1)] strstr_crlf)
  moreover have "find_in (v @ crlf @ rest) crlf = Some (crlf @ rest)"
    using assms(1,3) by (simp add: find_in_nul_free strstr_crlf value_ok_def)
  ultimately show ?thesis
    using assms(3) by (simp add: line_below_def Let_def strncpy_zeroed_def value_ok_def)
qed

lemma field_name_chars: "CHR 0x0D \<notin> set n \<Longrightarrow> CHR 0x0D \<notin> set (field_name n)" "nul_free (field_name n) \<longleftrightarrow> nul_free n"
  by (auto simp: field_name_def NUL_def)

lemma strstr_field:
  assumes "CHR 0x22 \<notin> set u"
  shows "strstr (u @ disposition @ field_name n @ s) (field_name n) = Some (field_name n @ s)"
proof -
  have "strstr ((u @ ''Content-Disposition: form-d'') @ ''ata; '' @ field_name n @ s) (''name='' @ CHR 0x22 # n @ [CHR 0x22]) =
      strstr (''ata; '' @ field_name n @ s) (''name='' @ CHR 0x22 # n @ [CHR 0x22])"
    by (rule strstr_skip) (use assms in auto)
  then show ?thesis
    by (simp add: field_name_def is_prefix_iff disposition_def)
qed

lemma form_field_value:
  assumes b: "boundary_ok b" and n: "nul_free n" "CHR 0x0D \<notin> set n" and v: "value_ok cap v" and "nul_free rest"
  shows "form_field cap (field_name n) (b @ crlf @ disposition @ field_name n @ crlf @ crlf @ v @ crlf @ rest) =
     Ret (Some (v, rest))"
proof -
  let ?p = "b @ crlf @ disposition @ field_name n @ crlf @ crlf @ v @ crlf @ rest"
  have free: "nul_free ?p" "nul_free (field_name n @ crlf @ crlf @ v @ crlf @ rest)"
    using assms by (auto simp: boundary_ok_def value_ok_def field_name_chars disposition_def crlf_def NUL_def)
  have "find_in ?p (field_name n) = Some (field_name n @ crlf @ crlf @ v @ crlf @ rest)"
    unfolding find_in_nul_free [OF free(1)]
    using strstr_field [of "b @ crlf" n] b by (simp add: boundary_ok_def crlf_def)
  then show ?thesis
    using line_below_value [OF free(2) field_name_chars(1) [OF n(2)] v] by (simp add: form_field_def)
qed

definition upload_fields :: "upload_form \<Rightarrow> (string \<times> string) list" where
  "upload_fields f =
     [(''file_name'', up_file_name f), (''file_content_type'', up_content_type f), (''file_path'', up_file_path f),
      (''file_md5'', up_file_md5 f), (''file_size'', show_int (up_file_size f)), (''user'', up_user f)]"

definition upload_form_ok :: "upload_form \<Rightarrow> bool" where
  "upload_form_ok f \<longleftrightarrow>
     boundary_ok (up_boundary f) \<and> value_ok 128 (up_file_name f) \<and> value_ok 128 (up_content_type f) \<and>
     value_ok 128 (up_file_path f) \<and> value_ok 128 (up_file_md5 f) \<and> is_int64 (up_file_size f) \<and>
     value_ok 32 (up_user f)"

lemma length_show_nat: "n < 10 ^ Suc k \<Longrightarrow> length (show_nat n) \<le> Suc k"
proof (induction k arbitrary: n)
  case (Suc k)
  then show ?case
    using Suc.IH [of "n div 10"] by (subst show_nat.simps) (auto simp: less_mult_imp_div_less)
qed (subst show_nat.simps, simp)

lemma value_ok_show_int: "is_int64 i \<Longrightarrow> value_ok 32 (show_int i)"
proof -
  assume "is_int64 i"
  then have "nat i < 10 ^ Suc 18 * 10" "nat (- i) < 10 ^ Suc 18 * 10" by (auto simp: is_int64_def)
  then have "length (show_nat (nat i)) \<le> 20" "length (show_nat (nat (- i))) \<le> 20"
    using length_show_nat [of "nat i" 19] length_show_nat [of "nat (- i)" 19] by simp_all
  moreover have "CHR 0x0D \<notin> set (show_int i)"
  proof
    assume "CHR 0x0D \<in> set (show_int i)"
    with show_int_chars [of i] have "CHR 0x0D = CHR ''-'' \<or> is_digit (CHR 0x0D)" by (rule bspec)
    then show False by (simp add: is_digit_def)
  qed
  moreover have "length (show_int i) \<le> Suc (max (length (show_nat (nat i))) (length (show_nat (nat (- i)))))"
    by (auto simp: show_int_def max_def)
  ultimately show ?thesis
    by (simp add: value_ok_def)
qed

text \<open>
  C36. The form parser reads back what a client that follows the format sends: the body built from
  the fields of a form, in the order the upload module sends them, parses to that form, whatever the
  values are, as long as they hold no carriage return or NUL byte and fit the arrays they are
  copied to.
\<close>

theorem parse_upload_form_body:
  assumes "upload_form_ok f"
  shows "parse_upload (form_body (up_boundary f) (upload_fields f)) = Ret (Some f)"
proof -
  let ?b = "up_boundary f"
  note ok = assms [unfolded upload_form_ok_def]
  have b: "boundary_ok ?b" "nul_free ?b" "CHR 0x0D \<notin> set ?b" "length ?b < TEMP_BUF_MAX_LEN"
    using ok by (auto simp: boundary_ok_def value_ok_def)
  have free: "nul_free disposition" "nul_free (show_int (up_file_size f))" "CHR 0x0D \<notin> set disposition"
    by (simp_all add: disposition_def NUL_def)
  have size: "value_ok 32 (show_int (up_file_size f))"
    using ok by (simp add: value_ok_show_int)
  have names: "nul_free ''file_name''" "nul_free ''file_content_type''" "nul_free ''file_path''" "nul_free ''file_md5''"
    "nul_free ''file_size''" "nul_free ''user''" "CHR 0x0D \<notin> set ''file_name''" "CHR 0x0D \<notin> set ''file_content_type''"
    "CHR 0x0D \<notin> set ''file_path''" "CHR 0x0D \<notin> set ''file_md5''" "CHR 0x0D \<notin> set ''file_size''" "CHR 0x0D \<notin> set ''user''"
    by (simp_all add: NUL_def)
  define parts where "parts = upload_fields f"
  let ?fn = "up_file_name f"
  let ?r1 = "?b @ crlf @ concat (map (form_part ?b) (tl parts))"
  have body: "form_body ?b parts = ?b @ crlf @ (disposition @ field_name ''file_name'') @ crlf @ crlf @ ?fn @ crlf @ ?r1"
    by (simp add: form_body_def parts_def upload_fields_def form_part_def)
  have all_free: "nul_free (form_body ?b parts)"
    using ok b free names by (simp add: form_body_def parts_def upload_fields_def form_part_def field_name_chars value_ok_def)
  then have free0: "nul_free ((disposition @ field_name ''file_name'') @ crlf @ crlf @ ?fn @ crlf @ ?r1)"
    unfolding body by simp
  have first: "find_in (form_body ?b parts) crlf =
      Some (crlf @ (disposition @ field_name ''file_name'') @ crlf @ crlf @ ?fn @ crlf @ ?r1)"
    using strstr_crlf [OF b(3)] find_in_nul_free [OF all_free, of crlf] by (simp add: body)
  have name: "find_in ((disposition @ field_name ''file_name'') @ crlf @ crlf @ ?fn @ crlf @ ?r1) (field_name ''file_name'') \<noteq> None"
    using find_in_nul_free [OF free0, of "field_name ''file_name''"] strstr_field [of "[]" "''file_name''"] by simp
  have line: "line_below 128 ((disposition @ field_name ''file_name'') @ crlf @ crlf @ ?fn @ crlf @ ?r1) = Ret (?fn, ?r1)"
    by (rule line_below_value [OF free0]) (use ok free names in \<open>simp_all add: field_name_chars\<close>)
  have rest: "nul_free (concat (map (form_part ?b) ps))" if "list_all (\<lambda>(n, v). nul_free n \<and> nul_free v) ps" for ps
    using that b free by (induction ps) (auto simp: form_part_def field_name_chars)
  have fields: "form_field cap (field_name n) (?b @ crlf @ concat (map (form_part ?b) qs)) =
      Ret (Some (v, ?b @ crlf @ concat (map (form_part ?b) ps)))"
    if "qs = (n, v) # ps" "list_all (\<lambda>(n, v). nul_free n \<and> nul_free v) ps" "nul_free n" "CHR 0x0D \<notin> set n" "value_ok cap v"
    for cap n v ps qs
    using form_field_value [OF b(1) that(3-5), of "?b @ crlf @ concat (map (form_part ?b) ps)"] rest [OF that(2)] b
    by (simp add: that(1) form_part_def)
  have taken: "take (length (form_body ?b parts) - length (crlf @ (disposition @ field_name ''file_name'') @ crlf @ crlf @ ?fn @ crlf @ ?r1))
      (form_body ?b parts) = ?b"
    by (simp add: body)
  have ps: "parts = (''file_name'', ?fn) # tl parts" "tl parts =
      [(''file_content_type'', up_content_type f), (''file_path'', up_file_path f),
       (''file_md5'', up_file_md5 f), (''file_size'', show_int (up_file_size f)), (''user'', up_user f)]"
    by (simp_all add: parts_def upload_fields_def)
  have boundary: "(strncpy_buf TEMP_BUF_MAX_LEN ?b :: string prog) = Ret ?b"
    using b(4) by (simp add: strncpy_buf_def)
  have drop2: "drop 2 (crlf @ p) = p" for p
    by (simp add: crlf_def)
  have vals: "nul_free (up_content_type f)" "nul_free (up_file_path f)" "nul_free (up_file_md5 f)" "nul_free (up_user f)"
    using ok by (simp_all add: value_ok_def)
  let ?free = "list_all (\<lambda>(n, v). nul_free n \<and> nul_free v)"
  have frees: "?free (drop 2 parts)" "?free (drop 3 parts)" "?free (drop 4 parts)" "?free (drop 5 parts)" "?free (drop 6 parts)"
    using vals free names by (simp_all add: parts_def upload_fields_def)
  have tails: "tl parts = (''file_content_type'', up_content_type f) # drop 2 parts"
    "drop 2 parts = (''file_path'', up_file_path f) # drop 3 parts"
    "drop 3 parts = (''file_md5'', up_file_md5 f) # drop 4 parts"
    "drop 4 parts = (''file_size'', show_int (up_file_size f)) # drop 5 parts"
    "drop 5 parts = (''user'', up_user f) # drop 6 parts"
    by (simp_all add: parts_def upload_fields_def)
  let ?r = "\<lambda>k. ?b @ crlf @ concat (map (form_part ?b) (drop k parts))"
  have lines: "form_field 128 (field_name ''file_content_type'') ?r1 = Ret (Some (up_content_type f, ?r 2))"
    "form_field 128 (field_name ''file_path'') (?r 2) = Ret (Some (up_file_path f, ?r 3))"
    "form_field 128 (field_name ''file_md5'') (?r 3) = Ret (Some (up_file_md5 f, ?r 4))"
    "form_field 32 (field_name ''file_size'') (?r 4) = Ret (Some (show_int (up_file_size f), ?r 5))"
    "form_field 32 (field_name ''user'') (?r 5) = Ret (Some (up_user f, ?r 6))"
    by (rule fields [OF tails(1) frees(1)] fields [OF tails(2) frees(2)] fields [OF tails(3) frees(3)]
          fields [OF tails(4) frees(4)] fields [OF tails(5) frees(5)]; use names ok size in simp)+
  show ?thesis
    unfolding parse_upload_def parts_def [symmetric]
    by (simp only: first taken option.case boundary bindp.simps drop2 Let_def name if_False line lines prod.case)
       (use ok in \<open>simp add: strtol_show_int\<close>)
qed

section \<open>Storing an upload\<close>

text \<open>A child ran and wrote a text into the pipe, and the parent waited for it.\<close>

definition child_says :: "'w env \<Rightarrow> 'w \<Rightarrow> string \<Rightarrow> 'w \<Rightarrow> bool" where
  "child_says E w out w' \<longleftrightarrow>
     (\<exists>p w1 pid w2 rd w3 st.
        env_os E w OsPipe = (p, w1) \<and> 0 \<le> os_int p \<and> env_os E w1 OsFork = (pid, w2) \<and> 0 < os_int pid \<and>
        env_os E w2 OsReadPipe = (rd, w3) \<and> os_str rd = out \<and> env_os E w3 OsWait = (st, w'))"

definition pipe_text :: "string \<Rightarrow> bool" where
  "pipe_text out \<longleftrightarrow> nul_free out \<and> out \<noteq> [] \<and> length out < TEMP_BUF_MAX_LEN"

text \<open>A program that waits for its child after reading from the pipe.\<close>

lemma yields_run_child:
  assumes "child_says E w out w'" and "pipe_text out"
    and "\<And>w3 st. env_os E w3 OsWait = (st, w') \<Longrightarrow> yields E P w3 (f (Some (Some out))) a w'' Q"
  shows "yields E P w (bindp (run_child argv) f) a w'' Q"
proof -
  obtain p w1 pid w2 rd w3 st where c: "env_os E w OsPipe = (p, w1)" "0 \<le> os_int p" "env_os E w1 OsFork = (pid, w2)"
      "0 < os_int pid" "env_os E w2 OsReadPipe = (rd, w3)" "os_str rd = out" "env_os E w3 OsWait = (st, w')"
    using assms(1) by (auto simp: child_says_def)
  have n: "\<not> os_int p < 0" "\<not> os_int pid < 0" "os_int pid \<noteq> 0"
    using c(2,4) by simp_all
  have "yields E P w (run_child argv) (Some (Some out)) w3 P"
    unfolding run_child_def Let_def
    by (rule yields_Os [OF c(1)], simp only: n if_False, rule yields_Os [OF c(3)], simp only: n if_False,
        rule yields_Os [OF c(5)])
       (use assms(2) in \<open>simp add: c(6) pipe_text_def\<close>)
  then show ?thesis by (rule yields_bindp) (rule assms(3) [OF c(7)])
qed

lemma yields_readS: "(\<And>s. P s \<Longrightarrow> f s = v) \<Longrightarrow> yields E P w (readS f) v w P"
  by (simp add: yields_def)

lemma serving_config:
  "serving (client, ip, port) dl cl s \<Longrightarrow> s_dfs_path_client s = client"
  "serving (client, ip, port) dl cl s \<Longrightarrow> s_storage_web_server_ip s = ip"
  "serving (client, ip, port) dl cl s \<Longrightarrow> s_storage_web_server_port s = port"
  by (simp_all add: serving_def srv_config_def)

lemma yields_upload:
  assumes "child_says E w out w'" and "pipe_text out" and "strip out \<noteq> []"
  shows "yields E (serving (client, ip, port) dl cl) w (uploadFileToFastDfs path) (0, strip out) w'
           (serving (client, ip, port) dl cl)"
  unfolding uploadFileToFastDfs_def
  using assms(2,3)
  by (intro yields_bindp [OF yields_readS [where v = client]] yields_run_child [OF assms(1,2)])
     (auto simp: serving_config TrimSpace_strip pipe_text_def intro: yields_Os)

definition file_url :: "string \<Rightarrow> string \<Rightarrow> string \<Rightarrow> string" where
  "file_url ip port fileid = ''http://'' @ ip @ '':'' @ port @ ''/'' @ fileid"

lemma strstr_newline: "CHR 0x0A \<notin> set u \<Longrightarrow> strstr (u @ CHR 0x0A # s) [CHR 0x0A] = Some (CHR 0x0A # s)"
  using strstr_skip [of "CHR 0x0A" u "[]" "[]" "CHR 0x0A # s" "[]"] by simp

lemma yields_full_url:
  assumes "child_says E w out w'" and "pipe_text out"
    and "strstr out source_ip = Some (source_ip @ host @ CHR 0x0A # rest)"
    and "CHR 0x0A \<notin> set host" and "length host < HOST_NAME_LEN"
    and "nul_free ip" and "nul_free port" and "length (file_url ip port fileid) < FILE_URL_LEN"
  shows "yields E (serving (client, ip, port) dl cl) w (getFullurlByFileid fileid) (0, file_url ip port fileid) w'
           (serving (client, ip, port) dl cl)"
proof -
  have host: "(strncpy_buf HOST_NAME_LEN host :: string prog) = Ret host"
    using assms(5) by (simp add: strncpy_buf_def)
  have tail: "yields E (serving (client, ip, port) dl cl) w' 
      (bindp (readS s_storage_web_server_ip) (\<lambda>ip.
       bindp (readS s_storage_web_server_port) (\<lambda>port.
       bindp (sprintf_buf FILE_URL_LEN (''http://'' @ c_str ip @ '':'' @ c_str port @ ''/'' @ fileid)) (\<lambda>url.
       Ret (0, url))))) (0, file_url ip port fileid) w' (serving (client, ip, port) dl cl)"
    using assms(6-8) by (auto simp: yields_def sprintf_buf_def file_url_def serving_config)
  show ?thesis
    unfolding getFullurlByFileid_def
    by (intro yields_bindp [OF yields_readS [where v = client]] yields_run_child [OF assms(1,2)])
       (auto simp: serving_config assms(3) strstr_newline [OF assms(4)] Let_def host intro!: yields_Os tail [simplified])
qed


definition upload_texts_fit :: "upload_form \<Rightarrow> string \<Rightarrow> string \<Rightarrow> string \<Rightarrow> string \<Rightarrow> bool" where
  "upload_texts_fit f sfx fileid url now \<longleftrightarrow>
     length (up_file_path f @ ''.'' @ sfx) < 128 \<and>
     length (sql_insert_file_info (up_file_md5 f) fileid url (up_file_size f) sfx) < SQL_MAX_LEN \<and>
     length (sql_insert_upload (up_user f) (up_file_md5 f) now (up_file_name f)) < SQL_MAX_LEN"

lemma yields_storeFileinfo:
  assumes sfx: "(GetFileSuffix (Some (up_file_name f)) SUFFIX_LEN :: (int \<times> string option) prog) = Ret (0, Some sfx)"
    and fit: "upload_texts_fit f sfx fileid url (os_str now)"
    and ins: "env_mysql E w4 (c_str (sql_insert_file_info (up_file_md5 f) fileid url (up_file_size f) sfx)) = (QueryOk u k, w5)"
    and time: "env_os E w5 OsLocalTime = (now, w6)"
    and ent: "env_mysql E w6 (c_str (sql_insert_upload (up_user f) (up_file_md5 f) (os_str now) (up_file_name f))) =
                (QueryOk u' k', w7)"
    and incr: "env_redis E w7 [''INCR'', c_str (up_user f)] = (Some r, w8)"
  shows "yields E (serving cf (Some c) (Some d)) w4
      (storeFileinfo (Some c) (Some d) (up_user f) (up_file_name f) (up_file_md5 f) (up_file_size f) fileid url) 0 w8
      (serving cf (Some c) (Some d))"
  unfolding storeFileinfo_def
  using fit
  by - (simp only: sfx bindp.simps prod.case init_read_def option.case, rule yields_bindp, rule yields_sprintf,
      simp add: upload_texts_fit_def, rule yields_bindp, rule yields_db(3) [OF ins], simp,
      rule yields_Os [OF time], rule yields_bindp, rule yields_sprintf, simp add: upload_texts_fit_def,
      rule yields_bindp, rule yields_db(3) [OF ent], simp, rule yields_bindp, rule yields_CacheIncrCount [OF incr], simp)

text \<open>
  C14. An upload whose form parses, on services that answer, is stored in this order: the temporary
  file gets its suffix, FastDFS takes it and prints an id, the temporary file is deleted, FastDFS
  prints where the id lives, the row of the file with one reference is inserted, then the entry of
  the user, then the counter is incremented; the answer is code 0. The id is what FastDFS printed,
  stripped; the URL is built from the configured storage server, not from the address FastDFS
  printed. The key of the counter is the bare name of the user.
\<close>

theorem ApiUpload_stores:
  assumes form: "upload_form_ok f" and post: "post_data = form_body (up_boundary f) (upload_fields f)"
    and suffix: "after_last_dot (up_file_name f) = Some sfx" "sfx \<noteq> []" "length sfx < SUFFIX_LEN"
    and rename: "env_os E w (OsRename (up_file_path f) (up_file_path f @ ''.'' @ sfx)) = (r0, w1)" "0 \<le> os_int r0"
    and upload: "child_says E w1 out w2" "pipe_text out" "strip out \<noteq> []"
    and unlink: "env_os E w2 (OsUnlink (up_file_path f @ ''.'' @ sfx)) = (r1, w3)"
    and info: "child_says E w3 out' w4" "pipe_text out'"
      "strstr out' source_ip = Some (source_ip @ host @ CHR 0x0A # rest)" "CHR 0x0A \<notin> set host"
      "length host < HOST_NAME_LEN"
    and web: "nul_free ip" "nul_free port" "length (file_url ip port (strip out)) < FILE_URL_LEN"
    and fit: "upload_texts_fit f sfx (strip out) (file_url ip port (strip out)) (os_str now)"
    and ins: "env_mysql E w4 (c_str (sql_insert_file_info (up_file_md5 f) (strip out) (file_url ip port (strip out))
                (up_file_size f) sfx)) = (QueryOk u k, w5)"
    and time: "env_os E w5 OsLocalTime = (now, w6)"
    and ent: "env_mysql E w6 (c_str (sql_insert_upload (up_user f) (up_file_md5 f) (os_str now) (up_file_name f))) =
                (QueryOk u' k', w7)"
    and incr: "env_redis E w7 [''INCR'', c_str (up_user f)] = (Some r, w8)"
  shows "yields E (serving (client, ip, port) None None) w (ApiUpload target post_data)
           (0, toStyledString (json_object [(''code'', JInt 0)])) w8 (serving (client, ip, port) None None)"
proof -
  have free: "nul_free (up_file_name f)"
    using form by (simp add: upload_form_ok_def value_ok_def)
  have sfx: "(GetFileSuffix (Some (up_file_name f)) SUFFIX_LEN :: (int \<times> string option) prog) = Ret (0, Some sfx)"
    using suffix by (simp add: GetFileSuffix_def free strncpy_buf_def)
  have ok: "\<not> os_int r0 < 0" using rename(2) by simp
  have store: "yields E (serving (client, ip, port) (Some c) (Some d)) w4
      (storeFileinfo (Some c) (Some d) (up_user f) (up_file_name f) (up_file_md5 f) (up_file_size f) (strip out)
         (file_url ip port (strip out))) 0 w8 (serving (client, ip, port) (Some c) (Some d))" for c d
    by (rule yields_storeFileinfo [OF sfx fit ins time ent incr])
  have stored: "yields E (serving (client, ip, port) (Some c) (Some d)) w (store_upload (Some c) (Some d) f) True w8
      (serving (client, ip, port) (Some c) (Some d))" for c d
    unfolding store_upload_def
    using fit
    by - (simp only: sfx bindp.simps prod.case init_read_def option.case, rule yields_bindp, rule yields_sprintf,
        simp add: upload_texts_fit_def, rule yields_Os [OF rename(1)], simp only: ok if_False,
        rule yields_bindp, rule yields_upload [OF upload], simp only: prod.case less_irrefl if_False,
        rule yields_Os [OF unlink], rule yields_bindp, rule yields_full_url [OF info web],
        simp only: prod.case less_irrefl if_False, rule yields_bindp, rule store, simp)
  show ?thesis
    unfolding ApiUpload_def post
    by (intro yields_with_db_conn yields_with_cache_conn)
       (simp only: parse_upload_form_body [OF form] bindp.simps option.case, rule yields_bindp, rule stored, simp)
qed


text \<open>The world counts what was read from pipes: an id first, then where it lives.\<close>

definition upload_env :: "nat env" where
  "upload_env =
     \<lparr>env_mysql_connect = (\<lambda>w ps. (Connected, w)), env_mysql = (\<lambda>w q. (QueryOk None 1, w)),
      env_stmt = (\<lambda>w q ps. (Executed 1 1, w)), env_redis_connect = (\<lambda>w h p. (True, w)),
      env_redis = (\<lambda>w c. (Some (RInteger 1), w)),
      env_os = (\<lambda>w c. if c = OsReadPipe
                       then (\<lparr>os_int = 9, os_str = if w = 0 then ''g1/M00/a.png'' @ [CHR 0x0A]
                                                 else ''source ip address: 10.0.0.1'' @ [CHR 0x0A]\<rparr>, Suc w)
                       else (\<lparr>os_int = 1, os_str = ''2024-01-01 00:00:00''\<rparr>, w)),
      env_libc = demo_libc\<rparr>"

definition upload_demo_form :: upload_form where
  "upload_demo_form =
     \<lparr>up_boundary = ''--b'', up_file_name = ''a.png'', up_content_type = ''image/png'', up_file_path = ''/tmp/1'',
      up_file_md5 = ''m'', up_file_size = 7, up_user = ''bob''\<rparr>"

lemma upload_demo_facts:
  "upload_form_ok upload_demo_form" "after_last_dot ''a.png'' = Some ''png''"
  "strip (''g1/M00/a.png'' @ [CHR 0x0A]) = ''g1/M00/a.png''"
  "strstr (''source ip address: 10.0.0.1'' @ [CHR 0x0A]) source_ip = Some (source_ip @ ''10.0.0.1'' @ CHR 0x0A # [])"
  "upload_texts_fit upload_demo_form ''png'' ''g1/M00/a.png'' (file_url ''127.0.0.1'' ''80'' ''g1/M00/a.png'') ''2024-01-01 00:00:00''"
  "length (file_url ''127.0.0.1'' ''80'' ''g1/M00/a.png'') < FILE_URL_LEN"
  "pipe_text (''g1/M00/a.png'' @ [CHR 0x0A])" "pipe_text (''source ip address: 10.0.0.1'' @ [CHR 0x0A])"
  by code_simp+

lemma upload_env_child:
  "child_says upload_env 0 (''g1/M00/a.png'' @ [CHR 0x0A]) 1"
  "child_says upload_env 1 (''source ip address: 10.0.0.1'' @ [CHR 0x0A]) 2"
  by (simp_all add: child_says_def upload_env_def numeral_2_eq_2)

theorem ApiUpload_stores_witness:
  "yields upload_env (serving (''/etc/fdfs/client.conf'', ''127.0.0.1'', ''80'') None None) 0
     (ApiUpload [] (form_body (up_boundary upload_demo_form) (upload_fields upload_demo_form)))
     (0, toStyledString (json_object [(''code'', JInt 0)])) 2
     (serving (''/etc/fdfs/client.conf'', ''127.0.0.1'', ''80'') None None)"
  by (rule ApiUpload_stores [OF upload_demo_facts(1) refl, where sfx = "''png''" and out = "''g1/M00/a.png'' @ [CHR 0x0A]"
        and out' = "''source ip address: 10.0.0.1'' @ [CHR 0x0A]" and host = "''10.0.0.1''" and rest = "[]"
        and ?w1.0 = 0 and ?w2.0 = 1 and ?w3.0 = 1 and ?w4.0 = 2 and ?w5.0 = 2 and ?w6.0 = 2 and ?w7.0 = 2
        and ?r0.0 = "\<lparr>os_int = 1, os_str = ''2024-01-01 00:00:00''\<rparr>" and ?r1.0 = "\<lparr>os_int = 1, os_str = ''2024-01-01 00:00:00''\<rparr>"
        and now = "\<lparr>os_int = 1, os_str = ''2024-01-01 00:00:00''\<rparr>" and u = None and k = 1 and u' = None and k' = 1
        and r = "RInteger 1"])
     (use upload_env_child in \<open>simp_all only: upload_demo_facts(3) upload_env_child upload_demo_facts\<close>,
      simp_all add: upload_demo_facts upload_demo_facts(5) [unfolded upload_demo_form_def] upload_demo_form_def upload_env_def SUFFIX_LEN_def HOST_NAME_LEN_def NUL_def)

theorem parse_upload_form_body_witness:
  "parse_upload (form_body (up_boundary upload_demo_form) (upload_fields upload_demo_form)) = Ret (Some upload_demo_form)"
  by (rule parse_upload_form_body [OF upload_demo_facts(1)])


section \<open>The child that could not run its command\<close>

definition exec_fails :: "'w env \<Rightarrow> 'w \<Rightarrow> string list \<Rightarrow> 'w \<Rightarrow> bool" where
  "exec_fails E w argv w' \<longleftrightarrow>
     (\<exists>p w1 pid w2 r.
        env_os E w OsPipe = (p, w1) \<and> 0 \<le> os_int p \<and> env_os E w1 OsFork = (pid, w2) \<and> os_int pid = 0 \<and>
        env_os E w2 (OsExeclp argv) = (r, w') \<and> os_int r < 0)"

lemma yields_exec_fails:
  assumes "exec_fails E w argv w'"
  shows "yields E P w (run_child argv) (Some None) w' P"
proof -
  obtain p w1 pid w2 r where c: "env_os E w OsPipe = (p, w1)" "0 \<le> os_int p" "env_os E w1 OsFork = (pid, w2)"
      "os_int pid = 0" "env_os E w2 (OsExeclp argv) = (r, w')" "os_int r < 0"
    using assms by (auto simp: exec_fails_def)
  have n: "\<not> os_int p < 0" "\<not> os_int pid < 0" using c(2,4) by simp_all
  show ?thesis
    unfolding run_child_def
    by (rule yields_Os [OF c(1)], simp only: n if_False, rule yields_Os [OF c(3)], simp only: c(4) less_irrefl simp_thms if_False if_True,
        rule yields_Os [OF c(5)], simp add: c(6))
qed

text \<open>
  C37. The child process of a failing execlp does not exit. It returns from the upload with success
  and an empty id, deletes the temporary file, and, when the second command cannot be run either,
  inserts a row with an empty id and an empty URL and an entry for the user over the connections it
  shares with its parent, increments the counter and builds the answer code 0.
\<close>

theorem ApiUpload_exec_fails:
  assumes form: "upload_form_ok f" and post: "post_data = form_body (up_boundary f) (upload_fields f)"
    and suffix: "after_last_dot (up_file_name f) = Some sfx" "sfx \<noteq> []" "length sfx < SUFFIX_LEN"
    and rename: "env_os E w (OsRename (up_file_path f) (up_file_path f @ ''.'' @ sfx)) = (r0, w1)" "0 \<le> os_int r0"
    and upload: "exec_fails E w1 [''fdfs_upload_file'', c_str client, up_file_path f @ ''.'' @ sfx] w2"
    and unlink: "env_os E w2 (OsUnlink (up_file_path f @ ''.'' @ sfx)) = (r1, w3)"
    and info: "exec_fails E w3 [''fdfs_file_info'', c_str client, []] w4"
    and fit: "upload_texts_fit f sfx [] [] (os_str now)"
    and ins: "env_mysql E w4 (c_str (sql_insert_file_info (up_file_md5 f) [] [] (up_file_size f) sfx)) = (QueryOk u k, w5)"
    and time: "env_os E w5 OsLocalTime = (now, w6)"
    and ent: "env_mysql E w6 (c_str (sql_insert_upload (up_user f) (up_file_md5 f) (os_str now) (up_file_name f))) =
                (QueryOk u' k', w7)"
    and incr: "env_redis E w7 [''INCR'', c_str (up_user f)] = (Some r, w8)"
  shows "yields E (serving (client, ip, port) None None) w (ApiUpload target post_data)
           (0, toStyledString (json_object [(''code'', JInt 0)])) w8 (serving (client, ip, port) None None)"
proof -
  let ?S = "\<lambda>dl cl. serving (client, ip, port) dl cl"
  have free: "nul_free (up_file_name f)"
    using form by (simp add: upload_form_ok_def value_ok_def)
  have sfx: "(GetFileSuffix (Some (up_file_name f)) SUFFIX_LEN :: (int \<times> string option) prog) = Ret (0, Some sfx)"
    using suffix by (simp add: GetFileSuffix_def free strncpy_buf_def)
  have ok: "\<not> os_int r0 < 0" using rename(2) by simp
  have up: "yields E (?S dl cl) w1 (uploadFileToFastDfs (up_file_path f @ ''.'' @ sfx)) (0, []) w2 (?S dl cl)" for dl cl
    unfolding uploadFileToFastDfs_def
    by (rule yields_bindp, rule yields_readS [where v = client], erule serving_config,
        rule yields_bindp, rule yields_exec_fails [OF upload], simp)
  have url: "yields E (?S dl cl) w3 (getFullurlByFileid []) (0, []) w4 (?S dl cl)" for dl cl
    unfolding getFullurlByFileid_def
    by (rule yields_bindp, rule yields_readS [where v = client], erule serving_config,
        rule yields_bindp, rule yields_exec_fails [OF info], simp)
  have stored: "yields E (?S (Some c) (Some d)) w (store_upload (Some c) (Some d) f) True w8 (?S (Some c) (Some d))" for c d
    unfolding store_upload_def
    using fit
    by - (simp only: sfx bindp.simps prod.case init_read_def option.case, rule yields_bindp, rule yields_sprintf,
        simp add: upload_texts_fit_def, rule yields_Os [OF rename(1)], simp only: ok if_False,
        rule yields_bindp, rule up, simp only: prod.case less_irrefl if_False,
        rule yields_Os [OF unlink], rule yields_bindp, rule url, simp only: prod.case less_irrefl if_False,
        rule yields_bindp, rule yields_storeFileinfo [OF sfx fit ins time ent incr], simp)
  show ?thesis
    unfolding ApiUpload_def post
    by (intro yields_with_db_conn yields_with_cache_conn)
       (simp only: parse_upload_form_body [OF form] bindp.simps option.case, rule yields_bindp, rule stored, simp)
qed

definition child_env :: "nat env" where
  "child_env = upload_env\<lparr>env_os := (\<lambda>w c. (\<lparr>os_int = (case c of OsExeclp _ \<Rightarrow> - 1 | _ \<Rightarrow> 0), os_str = ''2024-01-01 00:00:00''\<rparr>, w))\<rparr>"

lemma child_demo_fits: "upload_texts_fit upload_demo_form ''png'' [] [] ''2024-01-01 00:00:00''"
  by code_simp

theorem ApiUpload_exec_fails_witness:
  "yields child_env (serving (''/etc/fdfs/client.conf'', ''127.0.0.1'', ''80'') None None) 0
     (ApiUpload [] (form_body (up_boundary upload_demo_form) (upload_fields upload_demo_form)))
     (0, toStyledString (json_object [(''code'', JInt 0)])) 0
     (serving (''/etc/fdfs/client.conf'', ''127.0.0.1'', ''80'') None None)"
  by (rule ApiUpload_exec_fails [OF upload_demo_facts(1) refl, where sfx = "''png''"
        and ?w1.0 = 0 and ?w2.0 = 0 and ?w3.0 = 0 and ?w4.0 = 0 and ?w5.0 = 0 and ?w6.0 = 0 and ?w7.0 = 0
        and ?r0.0 = "\<lparr>os_int = 0, os_str = ''2024-01-01 00:00:00''\<rparr>" and ?r1.0 = "\<lparr>os_int = 0, os_str = ''2024-01-01 00:00:00''\<rparr>"
        and now = "\<lparr>os_int = 0, os_str = ''2024-01-01 00:00:00''\<rparr>" and u = None and k = 1 and u' = None and k' = 1
        and r = "RInteger 1"])
     (simp_all add: upload_demo_facts(2) child_demo_fits child_demo_fits [unfolded upload_demo_form_def]
        upload_demo_form_def child_env_def upload_env_def exec_fails_def SUFFIX_LEN_def NUL_def)

end
