(* ===== verification/Http_Conn.thy ===== *)
theory Http_Conn
  imports Api_Login Api_Register Api_Md5 Api_Dealfile Api_Deal_Sharefile Api_Myfiles Api_Sharefiles
    Api_Sharepicture Api_Upload
begin

text \<open>
  http_conn.cc and the callbacks of main.cc: the life of a client connection in the event loop. An
  object is created and connected, reads one request, has it handled (by the loop itself, or as a
  task of the thread pool for registration and login), sends one response, perhaps in pieces, and
  deletes itself. Worker threads leave their responses in a queue the loop empties.

  A call of the socket layer (netlib) is a call of the environment here: OsRecv answers with at most
  READ_BUF_SIZE bytes, none when the call returned 0 or an error, OsSend with the number of bytes
  taken. Theory Server runs these calls on the model of netlib.
\<close>

section \<open>Objects and maps\<close>

definition the_http_conn :: "nat \<Rightarrow> (http_conn \<Rightarrow> 'a prog) \<Rightarrow> 'a prog" where
  "the_http_conn c k = GetS (\<lambda>s. case http_heap s c of None \<Rightarrow> Fault UseAfterFree | Some conn \<Rightarrow> k conn)"

definition put_http_conn :: "nat \<Rightarrow> http_conn option \<Rightarrow> srv \<Rightarrow> srv" where
  "put_http_conn c conn s = s\<lparr>http_heap := (http_heap s)(c := conn)\<rparr>"

definition set_http_conn :: "nat \<Rightarrow> (http_conn \<Rightarrow> http_conn) \<Rightarrow> unit prog" where
  "set_http_conn c f = the_http_conn c (\<lambda>conn. modS (put_http_conn c (Some (f conn))))"

text \<open>A buffer operation that leaves the allocated memory is an overflow.\<close>

definition in_memory :: "'a option \<Rightarrow> 'a prog" where
  "in_memory r = (case r of None \<Rightarrow> Fault BufferOverflow | Some b \<Rightarrow> Ret b)"

text \<open>insert of a hash map leaves an entry that is there alone.\<close>

definition map_insert :: "nat \<Rightarrow> nat \<Rightarrow> (nat \<times> nat) list \<Rightarrow> (nat \<times> nat) list" where
  "map_insert k v m = (if map_of m k = None then (k, v) # m else m)"

definition map_erase :: "nat \<Rightarrow> (nat \<times> nat) list \<Rightarrow> (nat \<times> nat) list" where
  "map_erase k m = filter (\<lambda>e. fst e \<noteq> k) m"

definition FindHttpConnByHandle :: "nat \<Rightarrow> nat option prog" where
  "FindHttpConnByHandle h = readS (\<lambda>s. map_of (g_http_conn_map s) h)"

definition GetHttpConnByUuid :: "nat \<Rightarrow> nat option prog" where
  "GetHttpConnByUuid u = readS (\<lambda>s. map_of (g_uuid_conn_map s) u)"

text \<open>The two generators are uint32_t and skip 0.\<close>

definition next_id :: "nat \<Rightarrow> nat" where
  "next_id g = (if u32 (Suc g) = 0 then u32 (Suc (u32 (Suc g))) else u32 (Suc g))"

definition HTTP_CONN_TIMEOUT :: int where "HTTP_CONN_TIMEOUT = 60000"
definition READ_BUF_SIZE :: nat where "READ_BUF_SIZE = 2048"

definition new_CHttpConn :: "nat prog" where
  "new_CHttpConn =
     Os OsTick (\<lambda>t. GetS (\<lambda>s.
       let c = next_http s; h = next_id (g_conn_handle_generator s); u = next_id (s_uuid_alloctor s);
           conn = \<lparr>ref_count = 1, m_sock_handle = - 1, conn_handle = h, busy = False, hc_state = ConnIdle, peer_ip = [],
                   in_buf = new_CSimpleBuffer, out_buf = new_CSimpleBuffer, last_send_tick = os_int t,
                   last_recv_tick = os_int t, http_parser = wrapper_reset, hc_uuid = u\<rparr>
       in PutS (s\<lparr>http_heap := (http_heap s)(c \<mapsto> conn), next_http := Suc c, g_conn_handle_generator := h,
                  s_uuid_alloctor := u, g_uuid_conn_map := map_insert u c (g_uuid_conn_map s)\<rparr>) (Ret c)))"

text \<open>CRefObject::ReleaseRef without a lock: the last reference deletes the object.\<close>

definition ReleaseRef :: "nat \<Rightarrow> unit prog" where
  "ReleaseRef c =
     the_http_conn c (\<lambda>conn.
       modS (put_http_conn c
         (if ref_count conn - 1 = 0 then None else Some (conn\<lparr>ref_count := ref_count conn - 1\<rparr>))))"

definition CHttpConn_Close :: "nat \<Rightarrow> unit prog" where
  "CHttpConn_Close c =
     bindp (set_http_conn c (hc_state_update (\<lambda>_. ConnClosed))) (\<lambda>_.
     the_http_conn c (\<lambda>conn.
       bindp (modS (\<lambda>s. s\<lparr>g_http_conn_map := map_erase (conn_handle conn) (g_http_conn_map s),
                          g_uuid_conn_map := map_erase (hc_uuid conn) (g_uuid_conn_map s)\<rparr>)) (\<lambda>_.
       Os (OsCloseSocket (m_sock_handle conn)) (\<lambda>_. ReleaseRef c))))"

definition CHttpConn_OnConnect :: "nat \<Rightarrow> int \<Rightarrow> unit prog" where
  "CHttpConn_OnConnect c handle =
     bindp (set_http_conn c (\<lambda>conn. conn\<lparr>m_sock_handle := handle, hc_state := ConnConnected\<rparr>)) (\<lambda>_.
     the_http_conn c (\<lambda>conn.
       bindp (modS (\<lambda>s. s\<lparr>g_http_conn_map := map_insert (conn_handle conn) c (g_http_conn_map s)\<rparr>)) (\<lambda>_.
       Os (OsSetCallback handle (conn_handle conn)) (\<lambda>ip.
       set_http_conn c (peer_ip_update (\<lambda>_. os_str ip))))))"

text \<open>http_callback of main.cc, for a new connection of the listening socket.\<close>

definition http_callback :: "int \<Rightarrow> unit prog" where
  "http_callback handle = bindp new_CHttpConn (\<lambda>c. CHttpConn_OnConnect c handle)"

section \<open>Sending\<close>

definition CHttpConn_Send :: "nat \<Rightarrow> string \<Rightarrow> nat prog" where
  "CHttpConn_Send c data =
     Os OsTick (\<lambda>t.
     bindp (set_http_conn c (last_send_tick_update (\<lambda>_. os_int t))) (\<lambda>_.
     the_http_conn c (\<lambda>conn.
       if busy conn then
         bindp (in_memory (CSimpleBuffer_Write data (out_buf conn))) (\<lambda>b.
         bindp (set_http_conn c (out_buf_update (\<lambda>_. b))) (\<lambda>_. Ret (length data)))
       else
         Os (OsSend (m_sock_handle conn) data) (\<lambda>r.
         let sent = (if os_int r < 0 then 0 else os_int r)
         in if sent < int (length data) then
              bindp (in_memory (CSimpleBuffer_Write (drop (nat sent) data) (out_buf conn))) (\<lambda>b.
              bindp (set_http_conn c (\<lambda>conn. conn\<lparr>out_buf := b, busy := True\<rparr>)) (\<lambda>_. Ret (length data)))
            else bindp (CHttpConn_Close c) (\<lambda>_. Ret (length data))))))"

text \<open>OnWriteComlete closes; busy_ is written after it.\<close>

definition CHttpConn_OnWrite :: "nat \<Rightarrow> unit prog" where
  "CHttpConn_OnWrite c =
     the_http_conn c (\<lambda>conn.
       if \<not> busy conn then Ret ()
       else
         Os (OsSend (m_sock_handle conn) (sb_data (out_buf conn))) (\<lambda>r.
         let sent = (if os_int r < 0 then 0 else os_int r)
         in bindp (set_http_conn c (out_buf_update (\<lambda>b. snd (CSimpleBuffer_Read (nat sent) b)))) (\<lambda>_.
            if sent < int (GetWriteOffset (out_buf conn)) then set_http_conn c (busy_update (\<lambda>_. True))
            else
              bindp (CHttpConn_Close c) (\<lambda>_. set_http_conn c (busy_update (\<lambda>_. False))))))"

text \<open>The loop ends when the queue is empty; nothing Send does adds to it.\<close>

fun send_responses :: "nat \<Rightarrow> unit prog" where
  "send_responses 0 = Ret ()"
| "send_responses (Suc n) =
     bindp (readS s_response_pdu_list) (\<lambda>pdus.
       case pdus of
         [] \<Rightarrow> Ret ()
       | pdu # rest \<Rightarrow>
           bindp (modS (s_response_pdu_list_update (\<lambda>_. rest))) (\<lambda>_.
           bindp (GetHttpConnByUuid (nat (conn_uuid pdu))) (\<lambda>pConn.
           bindp (case pConn of None \<Rightarrow> Ret 0 | Some c \<Rightarrow> CHttpConn_Send c (resp_data pdu)) (\<lambda>_.
           send_responses n))))"

definition SendResponseDataList :: "unit prog" where
  "SendResponseDataList = bindp (readS (\<lambda>s. length (s_response_pdu_list s))) send_responses"

section \<open>Reading and dispatch\<close>

datatype route =
    RouteReg | RouteLogin | RouteMyfiles | RouteSharefiles | RouteDealfile | RouteDealsharefile
  | RouteSharepic | RouteMd5 | RouteUpload

text \<open>strncmp(url, pat, n) == 0\<close>

definition strncmp_eq :: "string \<Rightarrow> string \<Rightarrow> nat \<Rightarrow> bool" where
  "strncmp_eq url pat n \<longleftrightarrow> take n (c_str url) = take n pat"

definition route_of :: "string \<Rightarrow> route option" where
  "route_of url =
     (if strncmp_eq url ''/api/reg'' 8 then Some RouteReg
      else if strncmp_eq url ''/api/login'' 10 then Some RouteLogin
      else if strncmp_eq url ''/api/myfiles'' 10 then Some RouteMyfiles
      else if strncmp_eq url ''/api/sharefiles'' 15 then Some RouteSharefiles
      else if strncmp_eq url ''/api/dealfile'' 13 then Some RouteDealfile
      else if strncmp_eq url ''/api/dealsharefile'' 18 then Some RouteDealsharefile
      else if strncmp_eq url ''/api/sharepic'' 13 then Some RouteSharepic
      else if strncmp_eq url ''/api/md5'' 8 then Some RouteMd5
      else if strncmp_eq url ''/api/upload'' 11 then Some RouteUpload
      else None)"

text \<open>What the handlers that answer themselves have in common: the answer of the API function, sent.\<close>

definition respond :: "nat \<Rightarrow> (int \<times> string) prog \<Rightarrow> unit prog" where
  "respond c api = bindp api (\<lambda>(ret, str_json). bindp (CHttpConn_Send c (http_response str_json)) (\<lambda>_. Ret ()))"

definition exec_task :: "task \<Rightarrow> unit prog" where
  "exec_task t = modS (pool_tasks_update (\<lambda>ts. ts @ [t]))"

definition handle_request :: "nat \<Rightarrow> route \<Rightarrow> string \<Rightarrow> string \<Rightarrow> unit prog" where
  "handle_request c r url content =
     (case r of
        RouteReg \<Rightarrow> the_http_conn c (\<lambda>conn. exec_task (RegisterTask (hc_uuid conn) url content))
      | RouteLogin \<Rightarrow> exec_task (LoginTask c url content)
      | RouteMyfiles \<Rightarrow> respond c (ApiMyfiles url content)
      | RouteSharefiles \<Rightarrow> respond c (ApiSharefiles url content)
      | RouteDealfile \<Rightarrow> respond c (ApiDealfile url content)
      | RouteDealsharefile \<Rightarrow> respond c (ApiDealsharefile url content)
      | RouteSharepic \<Rightarrow> respond c (ApiSharepicture url content)
      | RouteMd5 \<Rightarrow> respond c (ApiMd5 url content)
      | RouteUpload \<Rightarrow> respond c (ApiUpload url content))"

text \<open>
  The read loop, for at most fuel calls of netlib_recv; True when it ended. Before a read there is
  room for READ_BUF_SIZE bytes and one more.
\<close>

fun recv_loop :: "nat \<Rightarrow> nat \<Rightarrow> bool prog" where
  "recv_loop 0 c = Ret False"
| "recv_loop (Suc fuel) c =
     bindp (set_http_conn c (in_buf_update (\<lambda>b.
       if sb_alloc b - GetWriteOffset b < READ_BUF_SIZE + 1 then CSimpleBuffer_Extend (READ_BUF_SIZE + 1) b else b))) (\<lambda>_.
     the_http_conn c (\<lambda>conn.
       Os (OsRecv (m_sock_handle conn)) (\<lambda>r.
       let got = take READ_BUF_SIZE (os_str r)
       in if got = [] then Ret True
          else
            bindp (in_memory (IncWriteOffset got (in_buf conn))) (\<lambda>b.
            Os OsTick (\<lambda>t.
            bindp (set_http_conn c (\<lambda>conn. conn\<lparr>in_buf := b, last_recv_tick := os_int t\<rparr>)) (\<lambda>_.
            recv_loop fuel c))))))"

text \<open>Behind the read loop: in_buf[buf_len] = 0, the length limit, the parser, the dispatch.\<close>

definition on_request :: "nat \<Rightarrow> unit prog" where
  "on_request c =
     the_http_conn c (\<lambda>conn.
       let text = sb_data (in_buf conn)
       in if sb_alloc (in_buf conn) \<le> length text then Fault BufferOverflow
          else if 2048 < length text then CHttpConn_Close c
          else
            (case ParseHttpContent text of
               None \<Rightarrow> Fault AssertFailed
             | Some w \<Rightarrow>
                 bindp (set_http_conn c (http_parser_update (\<lambda>_. w))) (\<lambda>_.
                   if \<not> pw_read_all w then Ret ()
                   else
                     (case route_of (GetUrl w) of
                        None \<Rightarrow> CHttpConn_Close c
                      | Some r \<Rightarrow> handle_request c r (GetUrl w) (GetBodyContent w)))))"

definition CHttpConn_OnRead :: "nat \<Rightarrow> nat \<Rightarrow> unit option prog" where
  "CHttpConn_OnRead fuel c =
     bindp (recv_loop fuel c) (\<lambda>ended.
     if ended then bindp (on_request c) (\<lambda>_. Ret (Some ())) else Ret None)"

section \<open>Callbacks and workers\<close>

definition CHttpConn_OnTimer :: "int \<Rightarrow> nat \<Rightarrow> unit prog" where
  "CHttpConn_OnTimer curr_tick c =
     the_http_conn c (\<lambda>conn.
       if last_recv_tick conn + HTTP_CONN_TIMEOUT < curr_tick then CHttpConn_Close c else Ret ())"

fun timer_loop :: "int \<Rightarrow> nat list \<Rightarrow> unit prog" where
  "timer_loop curr_tick [] = Ret ()"
| "timer_loop curr_tick (c # cs) = bindp (CHttpConn_OnTimer curr_tick c) (\<lambda>_. timer_loop curr_tick cs)"

definition http_conn_timer_callback :: "unit prog" where
  "http_conn_timer_callback =
     Os OsTick (\<lambda>t. bindp (readS (\<lambda>s. map snd (g_http_conn_map s))) (timer_loop (os_int t)))"

datatype net_msg = MsgRead | MsgWrite | MsgClose | MsgOther

definition httpconn_callback :: "nat \<Rightarrow> nat \<Rightarrow> net_msg \<Rightarrow> unit option prog" where
  "httpconn_callback fuel h msg =
     bindp (FindHttpConnByHandle h) (\<lambda>pConn.
       case pConn of
         None \<Rightarrow> Ret (Some ())
       | Some c \<Rightarrow>
           (case msg of
              MsgRead \<Rightarrow> CHttpConn_OnRead fuel c
            | MsgWrite \<Rightarrow> bindp (CHttpConn_OnWrite c) (\<lambda>_. Ret (Some ()))
            | MsgClose \<Rightarrow> bindp (CHttpConn_Close c) (\<lambda>_. Ret (Some ()))
            | MsgOther \<Rightarrow> Ret (Some ())))"

text \<open>A worker thread takes the first task. The login task still holds the pointer to its connection.\<close>

definition HandleLoginRequest :: "nat \<Rightarrow> string \<Rightarrow> string \<Rightarrow> unit prog" where
  "HandleLoginRequest c url post_data =
     bindp (ApiUserLogin url post_data) (\<lambda>(ret, str_json).
     the_http_conn c (\<lambda>conn. AddResponseData (int (hc_uuid conn)) (http_response str_json)))"

definition run_task :: "unit prog" where
  "run_task =
     bindp (readS pool_tasks) (\<lambda>ts.
       case ts of
         [] \<Rightarrow> Ret ()
       | t # rest \<Rightarrow>
           bindp (modS (pool_tasks_update (\<lambda>_. rest))) (\<lambda>_.
           case t of
             RegisterTask u url content \<Rightarrow> bindp (ApiRegisterUser (int u) url content) (\<lambda>_. Ret ())
           | LoginTask c url content \<Rightarrow> HandleLoginRequest c url content))"

section \<open>No dangling pointer\<close>

text \<open>
  What holds between two callbacks: an entry of either map leads to an object that exists and has
  that handle or uuid; an object has one reference and its output buffer is within its memory.
\<close>

definition conn_ok_at :: "http_conn \<Rightarrow> bool" where
  "conn_ok_at conn \<longleftrightarrow> ref_count conn = 1 \<and> buffer_ok (out_buf conn)"

definition http_inv :: "srv \<Rightarrow> bool" where
  "http_inv s \<longleftrightarrow>
     (\<forall>h c. (h, c) \<in> set (g_http_conn_map s) \<longrightarrow> (\<exists>conn. http_heap s c = Some conn \<and> conn_handle conn = h)) \<and>
     (\<forall>u c. (u, c) \<in> set (g_uuid_conn_map s) \<longrightarrow> (\<exists>conn. http_heap s c = Some conn \<and> hc_uuid conn = u)) \<and>
     (\<forall>c conn. http_heap s c = Some conn \<longrightarrow> c < next_http s \<and> conn_ok_at conn)"

text \<open>The pools of the two managers are balanced as well.\<close>

definition sound :: "srv \<Rightarrow> srv \<Rightarrow> bool" where
  "sound s t \<longleftrightarrow>
     (http_inv s \<longrightarrow> http_inv t) \<and> view_bal (db_view s) (db_view t) \<and> view_bal (cache_view s) (cache_view t)"

lemma views_http_updates [simp]:
  "db_view (put_http_conn c x s) = db_view s" "cache_view (put_http_conn c x s) = cache_view s"
  "db_view (http_heap_update f1 s) = db_view s" "cache_view (http_heap_update f1 s) = cache_view s"
  "db_view (next_http_update f2 s) = db_view s" "cache_view (next_http_update f2 s) = cache_view s"
  "db_view (g_http_conn_map_update f3 s) = db_view s" "cache_view (g_http_conn_map_update f3 s) = cache_view s"
  "db_view (g_uuid_conn_map_update f4 s) = db_view s" "cache_view (g_uuid_conn_map_update f4 s) = cache_view s"
  "db_view (g_conn_handle_generator_update f5 s) = db_view s" "cache_view (g_conn_handle_generator_update f5 s) = cache_view s"
  "db_view (s_uuid_alloctor_update f5 s) = db_view s" "cache_view (s_uuid_alloctor_update f5 s) = cache_view s"
  "db_view (pool_tasks_update f6 s) = db_view s" "cache_view (pool_tasks_update f6 s) = cache_view s"
  by (simp_all add: db_view_def cache_view_def put_http_conn_def)

lemma sound_props [simp]: "reflp sound" "transp sound"
  by (auto simp: sound_def reflp_def intro: view_bal_trans intro!: transpI)

lemma http_inv_part: "http_part t = http_part s \<Longrightarrow> http_inv t = http_inv s"
  by (simp add: http_part_def http_inv_def)

lemma keeps_mono: "keeps R p \<Longrightarrow> (\<And>s t. R s t \<Longrightarrow> R' s t) \<Longrightarrow> keeps R' p"
  unfolding keeps_def by (blast intro: ensures_mono)

lemma keeps_sound_balanced: "keeps balanced p \<Longrightarrow> keeps sound p"
  by (erule keeps_mono) (auto simp: balanced_def sound_def dest: http_inv_part)

lemma keeps_the_http_conn [intro!]: "(\<And>conn. keeps R (k conn)) \<Longrightarrow> keeps R (the_http_conn c k)"
  by (auto simp: the_http_conn_def keeps_def split: option.splits)

lemma ensures_the_http_conn:
  "(\<And>conn. http_heap s c = Some conn \<Longrightarrow> ensures Q (k conn) s) \<Longrightarrow> ensures Q (the_http_conn c k) s"
  by (auto simp: the_http_conn_def split: option.splits)

lemma http_inv_put:
  assumes "http_inv s" and "http_heap s c = Some conn" and "conn_handle conn' = conn_handle conn"
    and "hc_uuid conn' = hc_uuid conn" and "conn_ok_at conn'"
  shows "http_inv (put_http_conn c (Some conn') s)"
  using assms unfolding http_inv_def put_http_conn_def by simp fastforce

lemma keeps_set_http_conn:
  assumes "\<And>conn. conn_ok_at conn \<Longrightarrow> conn_ok_at (f conn)" and "\<And>conn. conn_handle (f conn) = conn_handle conn"
    and "\<And>conn. hc_uuid (f conn) = hc_uuid conn"
  shows "keeps sound (set_http_conn c f)"
  unfolding keeps_def
proof
  fix s
  show "ensures (\<lambda>a. sound s) (set_http_conn c f) s"
    unfolding set_http_conn_def
  proof (rule ensures_the_http_conn)
    fix conn assume conn: "http_heap s c = Some conn"
    then have "http_inv (put_http_conn c (Some (f conn)) s)" if "http_inv s"
      using that assms by (intro http_inv_put [OF that conn]) (auto simp: http_inv_def)
    then show "ensures (\<lambda>a. sound s) (modS (put_http_conn c (Some (f conn)))) s"
      by (simp add: modS_def sound_def)
  qed
qed

lemma map_of_erase: "(k, v) \<in> set (map_erase x m) \<longleftrightarrow> (k, v) \<in> set m \<and> k \<noteq> x"
  by (auto simp: map_erase_def)

lemma keeps_Close [simp]: "keeps sound (CHttpConn_Close c)"
  unfolding keeps_def
proof
  fix s
  show "ensures (\<lambda>a. sound s) (CHttpConn_Close c) s"
  proof (cases "http_heap s c")
    case None
    then show ?thesis
      by (simp add: CHttpConn_Close_def set_http_conn_def the_http_conn_def)
  next
    case (Some conn)
    then show ?thesis
      by (auto simp: CHttpConn_Close_def set_http_conn_def the_http_conn_def modS_def put_http_conn_def ReleaseRef_def
          sound_def http_inv_def map_of_erase conn_ok_at_def) fastforce+
  qed
qed

lemma set_map_insert: "(k, v) \<in> set (map_insert x y m) \<Longrightarrow> (k, v) \<in> set m \<or> k = x \<and> v = y"
  by (auto simp: map_insert_def split: if_splits)

lemma keeps_new_CHttpConn [simp]: "keeps sound new_CHttpConn"
proof -
  have "http_inv s \<Longrightarrow> http_heap s (next_http s) = None" for s
    by (cases "http_heap s (next_http s)") (auto simp: http_inv_def)
  then show ?thesis
    unfolding new_CHttpConn_def keeps_def
    by (auto simp: Let_def sound_def http_inv_def conn_ok_at_def dest!: set_map_insert) fastforce+
qed

lemma keeps_OnConnect [simp]: "keeps sound (CHttpConn_OnConnect c handle)"
proof -
  have insert: "ensures (\<lambda>a. sound s)
      (modS (\<lambda>s :: srv. s\<lparr>g_http_conn_map := map_insert (conn_handle conn) c (g_http_conn_map s)\<rparr>)) s"
    if "http_heap s c = Some conn" for s :: srv and conn
    using that by (auto simp: modS_def sound_def http_inv_def dest!: set_map_insert)
  have "keeps sound (the_http_conn c (\<lambda>conn.
       bindp (modS (\<lambda>s :: srv. s\<lparr>g_http_conn_map := map_insert (conn_handle conn) c (g_http_conn_map s)\<rparr>)) (\<lambda>_.
       Os (OsSetCallback handle (conn_handle conn)) (\<lambda>ip.
       set_http_conn c (peer_ip_update (\<lambda>_. os_str ip))))))"
    unfolding keeps_def
  proof (intro allI ensures_the_http_conn)
    fix s :: srv and conn assume conn: "http_heap s c = Some conn"
    have set_ip: "keeps sound (Os (OsSetCallback handle (conn_handle conn)) (\<lambda>ip.
        set_http_conn c (peer_ip_update (\<lambda>_. os_str ip))))"
      by (auto intro!: keeps_set_http_conn simp: conn_ok_at_def)
    show "ensures (\<lambda>a. sound s)
        (bindp (modS (\<lambda>s :: srv. s\<lparr>g_http_conn_map := map_insert (conn_handle conn) c (g_http_conn_map s)\<rparr>)) (\<lambda>_.
         Os (OsSetCallback handle (conn_handle conn)) (\<lambda>ip. set_http_conn c (peer_ip_update (\<lambda>_. os_str ip))))) s"
      by (rule ensures_bindp [OF insert [OF conn]])
        (rule keeps_ensures [OF set_ip], use sound_props(2) in \<open>blast dest: transpD\<close>)
  qed
  then show ?thesis
    unfolding CHttpConn_OnConnect_def
    by (auto intro!: keeps_bindp keeps_set_http_conn simp: conn_ok_at_def)
qed

lemma keeps_http_callback [simp]: "keeps sound (http_callback handle)"
  by (auto simp: http_callback_def intro!: keeps_bindp)

lemma keeps_in_memory [simp]: "reflp R \<Longrightarrow> keeps R (in_memory r)"
  by (auto simp: in_memory_def split: option.splits)

lemma u32_bound: "u32 n < 4294967296"
  by (simp add: u32_def)

lemma Write_ok: "CSimpleBuffer_Write buf b = Some b' \<Longrightarrow> buffer_ok b \<Longrightarrow> buffer_ok b'"
  by (auto simp: CSimpleBuffer_Write_def Let_def buffer_ok_def GetWriteOffset_def CSimpleBuffer_Extend_def u32_bound split: if_splits)

text \<open>An update that depends on the object just looked at.\<close>

lemma keeps_in_memory_set:
  assumes "\<And>conn. conn_ok_at conn \<Longrightarrow> case g conn of None \<Rightarrow> True | Some b \<Rightarrow> conn_ok_at (f b conn)"
    and "\<And>conn b. conn_handle (f b conn) = conn_handle conn" and "\<And>conn b. hc_uuid (f b conn) = hc_uuid conn"
    and "keeps sound k"
    and that: "http_heap s c = Some conn"
  shows "ensures (\<lambda>a. sound s) (bindp (in_memory (g conn)) (\<lambda>b. bindp (set_http_conn c (f b)) (\<lambda>_. k))) s"
proof (cases "g conn")
  case None
  then show ?thesis by (simp add: in_memory_def)
next
  case (Some b)
  have "sound s (put_http_conn c (Some (f b conn)) s)"
  proof -
    have "http_inv (put_http_conn c (Some (f b conn)) s)" if inv: "http_inv s"
    proof -
      have "conn_ok_at conn" using inv \<open>http_heap s c = Some conn\<close> by (auto simp: http_inv_def)
      then have "conn_ok_at (f b conn)" using assms(1) [of conn] Some by simp
      then show ?thesis by (rule http_inv_put [OF inv \<open>http_heap s c = Some conn\<close> assms(2,3)])
    qed
    then show ?thesis by (simp add: sound_def)
  qed
  then have "ensures (\<lambda>a. sound s) k (put_http_conn c (Some (f b conn)) s)"
    by (intro keeps_ensures [OF assms(4)]) (rule transpD [OF sound_props(2)])
  then show ?thesis
    using Some that by (simp add: in_memory_def set_http_conn_def the_http_conn_def modS_def)
qed

lemma keeps_Send [simp]: "keeps sound (CHttpConn_Send c data)"
proof -
  have busy: "ensures (\<lambda>a. sound s)
      (bindp (in_memory (CSimpleBuffer_Write data (out_buf conn))) (\<lambda>b.
       bindp (set_http_conn c (out_buf_update (\<lambda>_. b))) (\<lambda>_. Ret (length data)))) s"
    if "http_heap s c = Some conn" for s :: srv and conn
    by (rule keeps_in_memory_set [where g = "\<lambda>conn. CSimpleBuffer_Write data (out_buf conn)" and f = "\<lambda>b. out_buf_update (\<lambda>_. b)"])
       (use that in \<open>auto simp: conn_ok_at_def Write_ok split: option.splits\<close>)
  have rest: "ensures (\<lambda>a. sound s)
      (bindp (in_memory (CSimpleBuffer_Write (drop n data) (out_buf conn))) (\<lambda>b.
       bindp (set_http_conn c (\<lambda>conn. conn\<lparr>out_buf := b, busy := True\<rparr>)) (\<lambda>_. Ret (length data)))) s"
    if "http_heap s c = Some conn" for s :: srv and conn n
    by (rule keeps_in_memory_set [where g = "\<lambda>conn. CSimpleBuffer_Write (drop n data) (out_buf conn)"
          and f = "\<lambda>b conn. conn\<lparr>out_buf := b, busy := True\<rparr>"])
       (use that in \<open>auto simp: conn_ok_at_def Write_ok split: option.splits\<close>)
  have close: "keeps sound (bindp (CHttpConn_Close c) (\<lambda>_. Ret (length data)))"
    by (auto intro!: keeps_bindp)
  have "keeps sound (the_http_conn c (\<lambda>conn.
       if busy conn then
         bindp (in_memory (CSimpleBuffer_Write data (out_buf conn))) (\<lambda>b.
         bindp (set_http_conn c (out_buf_update (\<lambda>_. b))) (\<lambda>_. Ret (length data)))
       else
         Os (OsSend (m_sock_handle conn) data) (\<lambda>r.
         let sent = (if os_int r < 0 then 0 else os_int r)
         in if sent < int (length data) then
              bindp (in_memory (CSimpleBuffer_Write (drop (nat sent) data) (out_buf conn))) (\<lambda>b.
              bindp (set_http_conn c (\<lambda>conn. conn\<lparr>out_buf := b, busy := True\<rparr>)) (\<lambda>_. Ret (length data)))
            else bindp (CHttpConn_Close c) (\<lambda>_. Ret (length data)))))"
    unfolding keeps_def
  proof (intro allI ensures_the_http_conn)
    fix s :: srv and conn assume conn: "http_heap s c = Some conn"
    show "ensures (\<lambda>a. sound s)
       (if busy conn then
         bindp (in_memory (CSimpleBuffer_Write data (out_buf conn))) (\<lambda>b.
         bindp (set_http_conn c (out_buf_update (\<lambda>_. b))) (\<lambda>_. Ret (length data)))
       else
         Os (OsSend (m_sock_handle conn) data) (\<lambda>r.
         let sent = (if os_int r < 0 then 0 else os_int r)
         in if sent < int (length data) then
              bindp (in_memory (CSimpleBuffer_Write (drop (nat sent) data) (out_buf conn))) (\<lambda>b.
              bindp (set_http_conn c (\<lambda>conn. conn\<lparr>out_buf := b, busy := True\<rparr>)) (\<lambda>_. Ret (length data)))
            else bindp (CHttpConn_Close c) (\<lambda>_. Ret (length data)))) s"
      using busy [OF conn] rest [OF conn] close by (auto simp: Let_def keeps_def)
  qed
  then show ?thesis
    unfolding CHttpConn_Send_def
    by (auto intro!: keeps_bindp keeps_set_http_conn simp: conn_ok_at_def)
qed

lemma keeps_OnWrite [simp]: "keeps sound (CHttpConn_OnWrite c)"
  unfolding CHttpConn_OnWrite_def Let_def
  by (auto intro!: keeps_bindp keeps_set_http_conn simp: conn_ok_at_def buffer_ok_Read)

lemma keeps_send_responses [simp]: "keeps sound (send_responses n)"
proof (induction n)
  case (Suc n)
  have "keeps sound (modS (s_response_pdu_list_update f))" for f
    by (simp add: keeps_modS sound_def http_inv_def)
  with Suc show ?case
    by (auto simp: GetHttpConnByUuid_def split: list.splits option.splits intro!: keeps_bindp)
qed simp

lemma keeps_SendResponseDataList [simp]: "keeps sound SendResponseDataList"
  by (auto simp: SendResponseDataList_def intro!: keeps_bindp)

lemma keeps_exec_task [simp]: "keeps sound (exec_task t)"
  by (simp add: exec_task_def keeps_modS sound_def http_inv_def)

lemma keeps_respond: "keeps balanced api \<Longrightarrow> keeps sound (respond c api)"
  unfolding respond_def
  by (rule keeps_bindp, simp, erule keeps_sound_balanced, auto intro!: keeps_bindp split: prod.splits)

lemma keeps_handle_request [simp]: "keeps sound (handle_request c r url content)"
  by (cases r) (auto simp: handle_request_def intro!: keeps_respond)

lemma keeps_recv_loop [simp]: "keeps sound (recv_loop n c)"
proof (induction n)
  case (Suc n)
  then show ?case
    by (auto simp: Let_def intro!: keeps_bindp keeps_set_http_conn simp: conn_ok_at_def)
qed simp

lemma keeps_on_request [simp]: "keeps sound (on_request c)"
  unfolding on_request_def Let_def
  by (auto intro!: keeps_bindp keeps_set_http_conn split: option.splits simp: conn_ok_at_def)

lemma keeps_OnRead [simp]: "keeps sound (CHttpConn_OnRead n c)"
  by (auto simp: CHttpConn_OnRead_def intro!: keeps_bindp)

lemma keeps_timer [simp]: "keeps sound http_conn_timer_callback"
proof -
  have "keeps sound (timer_loop t cs)" for t cs
    by (induction cs) (auto simp: CHttpConn_OnTimer_def intro!: keeps_bindp)
  then show ?thesis by (auto simp: http_conn_timer_callback_def intro!: keeps_bindp)
qed

lemma keeps_httpconn_callback [simp]: "keeps sound (httpconn_callback n h msg)"
  by (auto simp: httpconn_callback_def FindHttpConnByHandle_def split: option.splits net_msg.splits intro!: keeps_bindp)

lemma keeps_run_task [simp]: "keeps sound run_task"
proof -
  have "keeps sound (modS (pool_tasks_update f))" for f
    by (simp add: keeps_modS sound_def http_inv_def)
  moreover have "keeps sound (HandleLoginRequest c url content)" for c url content
    unfolding HandleLoginRequest_def
    by (rule keeps_bindp, simp, rule keeps_sound_balanced, simp, auto intro: keeps_sound_balanced split: prod.splits)
  moreover have "keeps sound (bindp (ApiRegisterUser u url content) (\<lambda>_. Ret ()))" for u url content
    by (rule keeps_bindp, simp, rule keeps_sound_balanced, simp_all)
  ultimately show ?thesis
    unfolding run_task_def
    by (intro keeps_bindp) (simp_all add: keeps_bindp split: list.split task.split)
qed

section \<open>The server as a state machine\<close>

text \<open>
  The steps of the process, one callback of the event loop or one task of a worker at a time: a new
  client, an event on a socket, the loop that sends queued responses, the timer, and a worker that
  runs the first task. Steps that do not come back (a crash, a blocked thread) are not in the
  relation.
\<close>

inductive server_step :: "'w env \<Rightarrow> srv \<times> 'w \<Rightarrow> srv \<times> 'w \<Rightarrow> bool"
  for E :: "'w env" where
  accept: "run E (http_callback handle) s w = (Done (), t, v) \<Longrightarrow> server_step E (s, w) (t, v)"
| event: "run E (httpconn_callback fuel h msg) s w = (Done (Some ()), t, v) \<Longrightarrow> server_step E (s, w) (t, v)"
| responses: "run E SendResponseDataList s w = (Done (), t, v) \<Longrightarrow> server_step E (s, w) (t, v)"
| timer: "run E http_conn_timer_callback s w = (Done (), t, v) \<Longrightarrow> server_step E (s, w) (t, v)"
| worker: "run E run_task s w = (Done (), t, v) \<Longrightarrow> server_step E (s, w) (t, v)"

lemma server_step_sound: "server_step E x y \<Longrightarrow> sound (fst x) (fst y)"
  by (induction rule: server_step.induct) (auto intro: keeps_run [rotated])

lemma server_steps_sound: "(server_step E)\<^sup>*\<^sup>* x y \<Longrightarrow> sound (fst x) (fst y)"
proof (induction rule: rtranclp_induct)
  case base
  show ?case by (rule reflpD) simp
next
  case (step y z)
  then show ?case using server_step_sound [of E y z] sound_props(2) by (blast dest: transpD)
qed

text \<open>
  However many clients come and go, and however the callbacks of the event loop and the tasks
  of the workers follow each other, whatever the services answer: the handle and uuid maps never hold
  a pointer to a connection that was deleted, or to another than the one with that number; every
  living connection has one reference; and every pool has lent out as many connections as at the
  start, with no connection twice in a free list.
\<close>

lemma server_reachable_inv:
  assumes "(server_step E)\<^sup>*\<^sup>* (s, w) (t, v)" and "http_inv s"
    and "view_inv (db_view s)" and "view_inv (cache_view s)"
  shows "http_inv t \<and> view_inv (db_view t) \<and> view_inv (cache_view t) \<and>
    (\<forall>n. lv_out (db_view t) n = lv_out (db_view s) n \<and> lv_out (cache_view t) n = lv_out (cache_view s) n)"
  using server_steps_sound [OF assms(1)] assms(2-4) by (simp add: sound_def view_bal_def)

definition conn_demo_env :: "unit env" where
  "conn_demo_env =
     \<lparr>env_mysql_connect = (\<lambda>w ps. (Connected, w)), env_mysql = (\<lambda>w q. (QueryFailed, w)),
      env_stmt = (\<lambda>w q ps. (Executed 1 1, w)), env_redis_connect = (\<lambda>w h p. (True, w)),
      env_redis = (\<lambda>w c. (None, w)), env_os = (\<lambda>w c. (\<lparr>os_int = 7, os_str = []\<rparr>, w)), env_libc = demo_libc\<rparr>"

lemma demo_inv: "http_inv demo_srv" "view_inv (db_view demo_srv)" "view_inv (cache_view demo_srv)"
  by (auto simp: http_inv_def view_inv_def db_view_def cache_view_def lv_free_def demo_srv_def demo_db_pool_def
      demo_cache_pool_def demo_cache_conn_def)

text \<open>A client comes and its event closes the connection.\<close>

lemma server_reachable_inv_witness:
  "\<exists>t u. (server_step conn_demo_env)\<^sup>*\<^sup>* (demo_srv, ()) (t, ()) \<and> g_http_conn_map t = [(1, 0)] \<and>
     (server_step conn_demo_env)\<^sup>*\<^sup>* (demo_srv, ()) (u, ()) \<and> next_http u = 1 \<and> g_http_conn_map u = [] \<and>
     http_inv t \<and> http_inv u"
proof -
  let ?step = "server_step conn_demo_env"
  obtain t where t: "run conn_demo_env (http_callback 5) demo_srv () = (Done (), t, ())" "g_http_conn_map t = [(1, 0)]"
      "next_http t = 1" "\<exists>conn. http_heap t 0 = Some conn \<and> conn_handle conn = 1 \<and> ref_count conn = 1"
    by (simp add: http_callback_def new_CHttpConn_def CHttpConn_OnConnect_def set_http_conn_def the_http_conn_def
        put_http_conn_def conn_demo_env_def demo_srv_def Let_def next_id_def map_insert_def)
  then obtain conn where conn: "http_heap t 0 = Some conn" "conn_handle conn = 1" "ref_count conn = 1" by blast
  obtain u where u: "run conn_demo_env (httpconn_callback 0 1 MsgClose) t () = (Done (Some ()), u, ())"
      "next_http u = 1" "g_http_conn_map u = []"
    using t conn
    by (simp add: httpconn_callback_def FindHttpConnByHandle_def CHttpConn_Close_def set_http_conn_def the_http_conn_def
        put_http_conn_def ReleaseRef_def conn_demo_env_def map_erase_def)
  have st: "?step\<^sup>*\<^sup>* (demo_srv, ()) (t, ())"
    using server_step.accept [OF t(1)] by (rule r_into_rtranclp)
  moreover have su: "?step\<^sup>*\<^sup>* (demo_srv, ()) (u, ())"
    using st server_step.event [OF u(1)] by (rule rtranclp.rtrancl_into_rtrancl)
  moreover have "http_inv t" "http_inv u"
    using server_reachable_inv [OF st demo_inv] server_reachable_inv [OF su demo_inv] by simp_all
  ultimately show ?thesis using t u by blast
qed

section \<open>Bytes are neither lost nor repeated\<close>

text \<open>What the connection still has to send.\<close>

definition pending :: "srv \<Rightarrow> nat \<Rightarrow> string" where
  "pending s c = (case http_heap s c of None \<Rightarrow> [] | Some conn \<Rightarrow> sb_data (out_buf conn))"

text \<open>
  wire reads off a world the bytes the socket has taken: a send adds as many bytes of its argument as
  it reports, other calls add nothing.
\<close>

definition wire_of :: "'w env \<Rightarrow> ('w \<Rightarrow> string) \<Rightarrow> bool" where
  "wire_of E wire \<longleftrightarrow>
     (\<forall>w call r w'. env_os E w call = (r, w') \<longrightarrow>
        wire w' = (case call of OsSend h d \<Rightarrow> wire w @ take (nat (os_int r)) d | _ \<Rightarrow> wire w))"

lemma wire_ofD:
  assumes "wire_of E wire"
  shows "env_os E w (OsSend h d) = (r, w') \<Longrightarrow> wire w' = wire w @ take (nat (os_int r)) d"
    "env_os E w OsTick = (r, w') \<Longrightarrow> wire w' = wire w" "env_os E w (OsCloseSocket i) = (r, w') \<Longrightarrow> wire w' = wire w"
  using assms by (fastforce simp: wire_of_def)+

lemma run_the_http_conn: "http_heap s c = Some conn \<Longrightarrow> run E (the_http_conn c k) s w = run E (k conn) s w"
  by (simp add: the_http_conn_def)

lemma run_set_http_conn:
  "http_heap s c = Some conn \<Longrightarrow> run E (set_http_conn c f) s w = (Done (), put_http_conn c (Some (f conn)) s, w)"
  by (simp add: set_http_conn_def the_http_conn_def)

lemma put_http_conn_simps [simp]:
  "http_heap (put_http_conn c x s) c = x" "put_http_conn c x (put_http_conn c y s) = put_http_conn c x s"
  by (simp_all add: put_http_conn_def)

lemma Write_data: "CSimpleBuffer_Write buf b = Some b' \<Longrightarrow> sb_data b' = sb_data b @ buf"
  by (auto simp: CSimpleBuffer_Write_def Let_def CSimpleBuffer_Extend_def split: if_splits)

lemma run_Close:
  assumes "http_heap s c = Some conn" and "env_os E w (OsCloseSocket (m_sock_handle conn)) = (r, w')"
  shows "\<exists>s'. run E (CHttpConn_Close c) s w = (Done (), s', w') \<and>
     http_heap s' c = (if ref_count conn = 1 then None else Some (conn\<lparr>hc_state := ConnClosed, ref_count := ref_count conn - 1\<rparr>)) \<and>
     g_http_conn_map s' = map_erase (conn_handle conn) (g_http_conn_map s) \<and>
     g_uuid_conn_map s' = map_erase (hc_uuid conn) (g_uuid_conn_map s)"
  using assms
  by (simp add: CHttpConn_Close_def run_set_http_conn the_http_conn_def ReleaseRef_def put_http_conn_def)

text \<open>
  C10. Sending keeps the stream: when a connection without a backlog of its own sends a response, or
  a busy one queues it, the bytes on the wire followed by the bytes still pending are those from
  before followed by the response, however little the socket took.
\<close>

theorem CHttpConn_Send_stream:
  assumes wire: "wire_of E wire" and conn: "http_heap s c = Some conn"
    and idle: "busy conn \<or> sb_data (out_buf conn) = []"
    and run: "run E (CHttpConn_Send c data) s w = (Done n, s', w')"
  shows "n = length data \<and> wire w' @ pending s' c = wire w @ pending s c @ data"
proof -
  obtain t w1 where tick: "env_os E w OsTick = (t, w1)" by fastforce
  let ?conn = "conn\<lparr>last_send_tick := os_int t\<rparr>"
  let ?s1 = "put_http_conn c (Some ?conn) s"
  have w1: "wire w1 = wire w" using wire_ofD(2) [OF wire tick] .
  have pend: "pending s c = sb_data (out_buf conn)" by (simp add: pending_def conn)
  show ?thesis
  proof (cases "busy conn")
    case True
    then show ?thesis
      using run conn w1 pend
      by (auto simp: CHttpConn_Send_def tick run_set_http_conn run_the_http_conn in_memory_def pending_def
          split: option.splits dest!: Write_data)
  next
    case False
    obtain r w2 where send: "env_os E w1 (OsSend (m_sock_handle conn) data) = (r, w2)" by fastforce
    have w2: "wire w2 = wire w @ take (nat (os_int r)) data"
      using wire_ofD(1) [OF wire send] w1 by simp
    obtain r3 w3 where close: "env_os E w2 (OsCloseSocket (m_sock_handle ?conn)) = (r3, w3)" by fastforce
    have w3: "wire w3 = wire w2" using wire_ofD(3) [OF wire close] .
    show ?thesis
    proof (cases "(if os_int r < 0 then 0 else os_int r) < int (length data)")
      case partial: True
      then show ?thesis
        using run conn pend w2 False idle
        by (auto simp: CHttpConn_Send_def tick send run_set_http_conn run_the_http_conn in_memory_def pending_def Let_def
            split: option.splits if_splits dest!: Write_data)
    next
      case whole: False
      then have "take (nat (os_int r)) data = data" by (simp split: if_splits)
      moreover obtain s'' where s'': "run E (CHttpConn_Close c) ?s1 w2 = (Done (), s'', w3)"
          "pending s'' c = []"
        using run_Close [of ?s1 c ?conn E w2 r3 w3] close False idle by (auto simp: pending_def split: if_splits)
      ultimately show ?thesis
        using run conn pend w2 w3 False idle whole
        by (auto simp: CHttpConn_Send_def tick send run_set_http_conn run_the_http_conn Let_def)
    qed
  qed
qed

text \<open>
  C28. A write event takes the stream further: as long as bytes remain the connection stays busy
  with what the socket left over. The event that takes the last bytes closes and deletes the object
  and then writes its member busy_, a use after free.
\<close>

theorem CHttpConn_OnWrite_continues:
  assumes conn: "http_heap s c = Some conn" "busy conn" "ref_count conn = 1"
    and send: "env_os E w (OsSend (m_sock_handle conn) (sb_data (out_buf conn))) = (r, w1)"
  shows "(nat (os_int r) < length (sb_data (out_buf conn)) \<longrightarrow>
            (\<exists>s'. run E (CHttpConn_OnWrite c) s w = (Done (), s', w1) \<and>
                  pending s' c = drop (nat (os_int r)) (pending s c) \<and>
                  map_option busy (http_heap s' c) = Some True)) \<and>
         (length (sb_data (out_buf conn)) \<le> nat (os_int r) \<longrightarrow> 0 < length (sb_data (out_buf conn)) \<longrightarrow>
            fst (run E (CHttpConn_OnWrite c) s w) = Crashed UseAfterFree)"
proof -
  let ?n = "if os_int r < 0 then 0 else os_int r"
  let ?conn = "out_buf_update (\<lambda>b. snd (CSimpleBuffer_Read (nat ?n) b)) conn"
  have n: "nat ?n = nat (os_int r)" by simp
  obtain r2 w2 where close: "env_os E w1 (OsCloseSocket (m_sock_handle ?conn)) = (r2, w2)" by fastforce
  obtain s2 where s2: "run E (CHttpConn_Close c) (put_http_conn c (Some ?conn) s) w1 = (Done (), s2, w2)" "http_heap s2 c = None"
    using run_Close [of "put_http_conn c (Some ?conn) s" c ?conn E w1 r2 w2] close conn by auto
  have less: "?n < int (GetWriteOffset (out_buf conn)) \<longleftrightarrow> nat (os_int r) < length (sb_data (out_buf conn))"
    if "0 < length (sb_data (out_buf conn))"
    using that by (auto simp: GetWriteOffset_def)
  have go: "run E (CHttpConn_OnWrite c) s w =
      run E (bindp (set_http_conn c (out_buf_update (\<lambda>b. snd (CSimpleBuffer_Read (nat ?n) b)))) (\<lambda>_.
            if ?n < int (GetWriteOffset (out_buf conn)) then set_http_conn c (busy_update (\<lambda>_. True))
            else bindp (CHttpConn_Close c) (\<lambda>_. set_http_conn c (busy_update (\<lambda>_. False))))) s w1"
    using conn send by (simp only: CHttpConn_OnWrite_def run_the_http_conn [OF conn(1)] simp_thms if_False run.simps prod.case Let_def)
  show ?thesis
  proof (intro conjI impI)
    assume less_data: "nat (os_int r) < length (sb_data (out_buf conn))"
    then have "?n < int (GetWriteOffset (out_buf conn))" by (intro less [THEN iffD2]) auto
    then show "\<exists>s'. run E (CHttpConn_OnWrite c) s w = (Done (), s', w1) \<and>
        pending s' c = drop (nat (os_int r)) (pending s c) \<and> map_option busy (http_heap s' c) = Some True"
      unfolding go using conn n
      by (simp only: if_True run_bindp run_set_http_conn [OF conn(1)] put_http_conn_simps outcome.case prod.case)
        (simp add: run_set_http_conn pending_def CSimpleBuffer_Read_splits)
  next
    assume all: "length (sb_data (out_buf conn)) \<le> nat (os_int r)" "0 < length (sb_data (out_buf conn))"
    then have "0 \<le> os_int r" by (cases "0 \<le> os_int r") auto
    with all show "fst (run E (CHttpConn_OnWrite c) s w) = Crashed UseAfterFree"
      unfolding go using less conn s2
      by (simp add: run_set_http_conn) (simp add: set_http_conn_def the_http_conn_def)
  qed
qed

text \<open>A socket that takes four bytes at a time; the world is what it has taken.\<close>

definition slow_env :: "string env" where
  "slow_env =
     \<lparr>env_mysql_connect = (\<lambda>w ps. (Connected, w)), env_mysql = (\<lambda>w q. (QueryFailed, w)),
      env_stmt = (\<lambda>w q ps. (Executed 1 1, w)), env_redis_connect = (\<lambda>w h p. (True, w)),
      env_redis = (\<lambda>w c. (None, w)),
      env_os = (\<lambda>w c. case c of OsSend h d \<Rightarrow> (\<lparr>os_int = int (min 4 (length d)), os_str = []\<rparr>, w @ take 4 d)
                              | _ \<Rightarrow> (\<lparr>os_int = 0, os_str = []\<rparr>, w)),
      env_libc = demo_libc\<rparr>"

lemma slow_env_simps [simp]:
  "env_os slow_env w (OsSend h d) = (\<lparr>os_int = int (min 4 (length d)), os_str = []\<rparr>, w @ take 4 d)"
  "env_os slow_env w OsTick = (\<lparr>os_int = 0, os_str = []\<rparr>, w)"
  "env_os slow_env w (OsCloseSocket i) = (\<lparr>os_int = 0, os_str = []\<rparr>, w)"
  by (simp_all add: slow_env_def)

lemma slow_wire: "wire_of slow_env (\<lambda>w. w)"
  by (auto simp: wire_of_def slow_env_def min_def split: os_call.splits)

definition idle_conn :: http_conn where
  "idle_conn =
     \<lparr>ref_count = 1, m_sock_handle = 5, conn_handle = 1, busy = False, hc_state = ConnConnected, peer_ip = [],
      in_buf = new_CSimpleBuffer, out_buf = new_CSimpleBuffer, last_send_tick = 0, last_recv_tick = 0,
      http_parser = wrapper_reset, hc_uuid = 9\<rparr>"

definition one_conn :: "http_conn \<Rightarrow> srv" where
  "one_conn conn =
     demo_srv\<lparr>http_heap := [0 \<mapsto> conn], next_http := 1, g_http_conn_map := [(1, 0)], g_uuid_conn_map := [(9, 0)]\<rparr>"

lemma one_conn_simps [simp]:
  "http_heap (one_conn conn) 0 = Some conn" "g_http_conn_map (one_conn conn) = [(1, 0)]"
  "g_uuid_conn_map (one_conn conn) = [(9, 0)]"
  by (simp_all add: one_conn_def)

text \<open>Eleven bytes over that socket: four are sent, seven wait; the next write event leaves three.\<close>

lemma slow_Send:
  "\<exists>s'. run slow_env (CHttpConn_Send 0 ''HTTP/1.1 OK'') (one_conn idle_conn) [] = (Done 11, s', ''HTTP'') \<and>
     pending s' 0 = ''/1.1 OK''"
  by (simp add: CHttpConn_Send_def run_set_http_conn run_the_http_conn Let_def in_memory_def idle_conn_def
      CSimpleBuffer_Write_def CSimpleBuffer_Extend_def new_CSimpleBuffer_def GetWriteOffset_def u32_def pending_def)

theorem CHttpConn_Send_stream_witness:
  "\<exists>s' w'. run slow_env (CHttpConn_Send 0 ''HTTP/1.1 OK'') (one_conn idle_conn) [] = (Done 11, s', w') \<and>
     w' = ''HTTP'' \<and> w' @ pending s' 0 = ''HTTP/1.1 OK''"
proof -
  obtain s' where s': "run slow_env (CHttpConn_Send 0 ''HTTP/1.1 OK'') (one_conn idle_conn) [] = (Done 11, s', ''HTTP'')"
    using slow_Send by blast
  have "''HTTP'' @ pending s' 0 = [] @ pending (one_conn idle_conn) 0 @ ''HTTP/1.1 OK''"
    using CHttpConn_Send_stream [OF slow_wire one_conn_simps(1) _ s'] by (simp add: idle_conn_def new_CSimpleBuffer_def)
  then show ?thesis using s' by (auto simp: pending_def idle_conn_def new_CSimpleBuffer_def)
qed

definition busy_conn :: "string \<Rightarrow> http_conn" where
  "busy_conn data = idle_conn\<lparr>busy := True, out_buf := \<lparr>sb_alloc = 16, sb_data = data\<rparr>\<rparr>"

theorem CHttpConn_OnWrite_continues_witness:
  "(\<exists>s'. run slow_env (CHttpConn_OnWrite 0) (one_conn (busy_conn ''/1.1 OK'')) [] = (Done (), s', ''/1.1'') \<and>
      pending s' 0 = '' OK'') \<and>
   fst (run slow_env (CHttpConn_OnWrite 0) (one_conn (busy_conn '' OK'')) []) = Crashed UseAfterFree"
proof
  show "\<exists>s'. run slow_env (CHttpConn_OnWrite 0) (one_conn (busy_conn ''/1.1 OK'')) [] = (Done (), s', ''/1.1'') \<and>
      pending s' 0 = '' OK''"
    using CHttpConn_OnWrite_continues [where E = slow_env and s = "one_conn (busy_conn ''/1.1 OK'')" and c = 0
        and conn = "busy_conn ''/1.1 OK''" and w = "[]" and ?w1.0 = "''/1.1''" and r = "\<lparr>os_int = 4, os_str = []\<rparr>"]
    by (simp add: busy_conn_def idle_conn_def pending_def) blast
  show "fst (run slow_env (CHttpConn_OnWrite 0) (one_conn (busy_conn '' OK'')) []) = Crashed UseAfterFree"
    using CHttpConn_OnWrite_continues [where E = slow_env and s = "one_conn (busy_conn '' OK'')" and c = 0
        and conn = "busy_conn '' OK''" and w = "[]" and ?w1.0 = "'' OK''" and r = "\<lparr>os_int = 3, os_str = []\<rparr>"]
    by (simp add: busy_conn_def idle_conn_def)
qed

section \<open>Responses find their connection\<close>

text \<open>
  What each socket has taken so far, read off the world: a send adds as many bytes of its argument to
  its socket as it reports.
\<close>

definition wires_of :: "'w env \<Rightarrow> ('w \<Rightarrow> int \<Rightarrow> string) \<Rightarrow> bool" where
  "wires_of E wire \<longleftrightarrow>
     (\<forall>w call r w'. env_os E w call = (r, w') \<longrightarrow>
        wire w' = (case call of OsSend h d \<Rightarrow> (wire w)(h := wire w h @ take (nat (os_int r)) d) | _ \<Rightarrow> wire w))"

lemma wires_ofD:
  assumes "wires_of E wire"
  shows "env_os E w (OsSend h d) = (r, w') \<Longrightarrow> wire w' = (wire w)(h := wire w h @ take (nat (os_int r)) d)"
    "env_os E w OsTick = (r, w') \<Longrightarrow> wire w' = wire w" "env_os E w (OsCloseSocket i) = (r, w') \<Longrightarrow> wire w' = wire w"
  using assms by (fastforce simp: wires_of_def)+

text \<open>
  Connections that can take n more bytes: one that is not busy has nothing pending, no buffer would
  outgrow its 32 bits, and no two have the same socket.
\<close>

definition socket_of :: "srv \<Rightarrow> nat \<Rightarrow> int option" where
  "socket_of s c = map_option m_sock_handle (http_heap s c)"

definition room_for :: "nat \<Rightarrow> http_conn \<Rightarrow> bool" where
  "room_for n conn \<longleftrightarrow> (busy conn \<or> sb_data (out_buf conn) = []) \<and> length (sb_data (out_buf conn)) + n < 2 ^ 30"

definition send_ready :: "nat \<Rightarrow> srv \<Rightarrow> bool" where
  "send_ready n s \<longleftrightarrow>
     (\<forall>c conn. http_heap s c = Some conn \<longrightarrow> room_for n conn) \<and>
     (\<forall>c d h. socket_of s c = Some h \<and> socket_of s d = Some h \<longrightarrow> c = d)"

lemma send_readyD:
  assumes "send_ready n s" and "http_heap s c = Some conn"
  shows "room_for n conn" "http_heap s d = Some conn' \<Longrightarrow> m_sock_handle conn = m_sock_handle conn' \<Longrightarrow> c = d"
proof -
  show "room_for n conn" using assms by (simp add: send_ready_def)
  have "socket_of s c = Some h \<Longrightarrow> socket_of s d = Some h \<Longrightarrow> c = d" for h d using assms(1) unfolding send_ready_def by blast
  then show "http_heap s d = Some conn' \<Longrightarrow> m_sock_handle conn = m_sock_handle conn' \<Longrightarrow> c = d"
    using assms(2) by (simp add: socket_of_def)
qed

lemma room_for_less: "room_for (m + n) conn \<Longrightarrow> room_for n conn"
  by (simp add: room_for_def)

lemma send_ready_less: "send_ready (m + n) s \<Longrightarrow> send_ready n s"
  by (auto simp: send_ready_def dest: room_for_less)

lemma send_ready_put:
  assumes ready: "send_ready (m + n) s" and s: "http_heap s c = Some conn" and conn': "m_sock_handle conn' = m_sock_handle conn" "room_for n conn'"
    and t: "http_heap t = (http_heap s)(c \<mapsto> conn')"
  shows "send_ready n t"
proof -
  have "socket_of t = socket_of s" using s conn'(1) t by (auto simp: socket_of_def fun_eq_iff)
  then show ?thesis using send_ready_less [OF ready] conn'(2) t by (auto simp: send_ready_def)
qed

lemma send_ready_gone:
  assumes "send_ready (m + n) s" and t: "http_heap t = (http_heap s)(c := None)"
  shows "send_ready n t"
proof -
  have "socket_of t = (socket_of s)(c := None)" using t by (auto simp: socket_of_def fun_eq_iff)
  then show ?thesis using send_ready_less [OF assms(1)] t by (auto simp: send_ready_def split: if_splits)
qed

text \<open>What one Send does: the bytes are on the socket or pending, and a connection that has sent all is gone.\<close>

definition handed_over :: "('w \<Rightarrow> int \<Rightarrow> string) \<Rightarrow> nat \<Rightarrow> http_conn \<Rightarrow> string \<Rightarrow> srv \<Rightarrow> 'w \<Rightarrow> srv \<Rightarrow> 'w \<Rightarrow> bool" where
  "handed_over wire c conn data s w s' w' \<longleftrightarrow>
     s_response_pdu_list s' = s_response_pdu_list s \<and>
     (\<forall>h. h \<noteq> m_sock_handle conn \<longrightarrow> wire w' h = wire w h) \<and>
     wire w' (m_sock_handle conn) @ pending s' c = wire w (m_sock_handle conn) @ pending s c @ data \<and>
     (g_uuid_conn_map s' = g_uuid_conn_map s \<and>
        (\<exists>conn'. http_heap s' = (http_heap s)(c \<mapsto> conn') \<and> m_sock_handle conn' = m_sock_handle conn) \<or>
      g_uuid_conn_map s' = map_erase (hc_uuid conn) (g_uuid_conn_map s) \<and> http_heap s' = (http_heap s)(c := None))"

lemma Send_hands_over:
  assumes wire: "wires_of E wire" and conn: "http_heap s c = Some conn" and ok: "conn_ok_at conn"
    and ready: "send_ready (length data + n) s"
  obtains s' w' where "run E (CHttpConn_Send c data) s w = (Done (length data), s', w')"
    "handed_over wire c conn data s w s' w'" "send_ready n s'"
proof -
  obtain t w1 where tick: "env_os E w OsTick = (t, w1)" by fastforce
  obtain r w2 where send: "env_os E w1 (OsSend (m_sock_handle conn) data) = (r, w2)" by fastforce
  obtain r3 w3 where close: "env_os E w2 (OsCloseSocket (m_sock_handle conn)) = (r3, w3)" by fastforce
  note wires = wires_ofD(2) [OF wire tick] wires_ofD(1) [OF wire send] wires_ofD(3) [OF wire close]
  let ?conn = "conn\<lparr>last_send_tick := os_int t\<rparr>"
  have room: "room_for (length data + n) conn" using send_readyD(1) [OF ready conn] .
  have fits: "length rest \<le> length data \<Longrightarrow> (GetWriteOffset (out_buf conn) + length rest) * 5 < 2 ^ 34" for rest
    using room by (simp add: room_for_def GetWriteOffset_def)
  have bufs: "buffer_ok (out_buf conn)" "ref_count conn = 1" using ok by (simp_all add: conn_ok_at_def)
  show ?thesis
  proof (cases "busy conn")
    case True
    obtain b where b: "CSimpleBuffer_Write data (out_buf conn) = Some b" "sb_data b = sb_data (out_buf conn) @ data"
      using CSimpleBuffer_Write_appends [OF bufs(1) fits [of data]] by blast
    let ?conn' = "?conn\<lparr>out_buf := b\<rparr>" and ?s' = "put_http_conn c (Some (?conn\<lparr>out_buf := b\<rparr>)) s"
    have "run E (CHttpConn_Send c data) s w = (Done (length data), ?s', w1)"
      using True conn b by (simp add: CHttpConn_Send_def tick run_set_http_conn run_the_http_conn in_memory_def)
    moreover have "handed_over wire c conn data s w ?s' w1"
      using wires(1) conn b by (auto simp: handed_over_def pending_def put_http_conn_def)
    moreover have "send_ready n ?s'"
      by (rule send_ready_put [OF ready conn, of ?conn']) (use room b True in \<open>simp_all add: room_for_def put_http_conn_def\<close>)
    ultimately show ?thesis by (rule that)
  next
    case False
    let ?sent = "if os_int r < 0 then 0 else os_int r"
    have empty: "sb_data (out_buf conn) = []" using room False by (simp add: room_for_def)
    show ?thesis
    proof (cases "?sent < int (length data)")
      case True
      let ?rest = "drop (nat ?sent) data"
      obtain b where b: "CSimpleBuffer_Write ?rest (out_buf conn) = Some b" "sb_data b = ?rest"
        using CSimpleBuffer_Write_appends [OF bufs(1) fits [of ?rest]] empty by auto
      let ?conn' = "?conn\<lparr>out_buf := b, busy := True\<rparr>" and ?s' = "put_http_conn c (Some (?conn\<lparr>out_buf := b, busy := True\<rparr>)) s"
      have "run E (CHttpConn_Send c data) s w = (Done (length data), ?s', w2)"
        using True False conn b by (simp add: CHttpConn_Send_def tick send run_set_http_conn run_the_http_conn in_memory_def Let_def)
      moreover have "take (nat (os_int r)) data @ ?rest = data" by (cases "os_int r < 0") simp_all
      then have "handed_over wire c conn data s w ?s' w2"
        using wires conn b empty by (auto simp: handed_over_def pending_def put_http_conn_def)
      moreover have "send_ready n ?s'"
        by (rule send_ready_put [OF ready conn, of ?conn']) (use room b empty in \<open>simp_all add: room_for_def put_http_conn_def\<close>)
      ultimately show ?thesis by (rule that)
    next
      case whole: False
      then have all: "take (nat (os_int r)) data = data" by (simp split: if_splits)
      let ?s1 = "put_http_conn c (Some ?conn) s"
      let ?s' = "put_http_conn c None (s\<lparr>g_http_conn_map := map_erase (conn_handle conn) (g_http_conn_map s),
         g_uuid_conn_map := map_erase (hc_uuid conn) (g_uuid_conn_map s)\<rparr>)"
      have "run E (CHttpConn_Send c data) s w = (Done (length data), ?s', w3)"
        using whole False conn bufs(2)
        by (simp add: CHttpConn_Send_def tick send close run_set_http_conn run_the_http_conn Let_def CHttpConn_Close_def ReleaseRef_def
            put_http_conn_def)
      moreover have "handed_over wire c conn data s w ?s' w3"
        using wires conn all empty by (auto simp: handed_over_def pending_def put_http_conn_def)
      moreover have "send_ready n ?s'" by (rule send_ready_gone [OF ready]) (simp add: put_http_conn_def)
      ultimately show ?thesis by (rule that)
    qed
  qed
qed

definition responses_for :: "nat \<Rightarrow> response_pdu list \<Rightarrow> string list" where
  "responses_for u pdus = map resp_data (filter (\<lambda>pdu. nat (conn_uuid pdu) = u) pdus)"

definition queue_bytes :: "response_pdu list \<Rightarrow> nat" where
  "queue_bytes pdus = sum_list (map (\<lambda>pdu. length (resp_data pdu)) pdus)"

text \<open>
  What becomes of a connection while a queue is emptied: it has been handed its responses in order,
  all of them if it is still there, and up to the one that completed the stream if it is gone.
\<close>

definition delivered :: "('w \<Rightarrow> int \<Rightarrow> string) \<Rightarrow> response_pdu list \<Rightarrow> srv \<Rightarrow> 'w \<Rightarrow> srv \<Rightarrow> 'w \<Rightarrow> nat \<Rightarrow> nat \<Rightarrow> http_conn \<Rightarrow> bool" where
  "delivered wire pdus s w s' w' u c conn \<longleftrightarrow>
     (\<exists>k \<le> length (responses_for u pdus).
        wire w' (m_sock_handle conn) @ pending s' c =
          wire w (m_sock_handle conn) @ pending s c @ concat (take k (responses_for u pdus)) \<and>
        (if map_of (g_uuid_conn_map s') u = Some c then k = length (responses_for u pdus) \<and> http_heap s' c \<noteq> None
         else 0 < k \<and> map_of (g_uuid_conn_map s') u = None \<and> http_heap s' c = None))"

text \<open>What does not change: objects that are gone, uuids that are free, sockets without an object.\<close>

definition untouched :: "('w \<Rightarrow> int \<Rightarrow> string) \<Rightarrow> srv \<Rightarrow> 'w \<Rightarrow> srv \<Rightarrow> 'w \<Rightarrow> bool" where
  "untouched wire s w s' w' \<longleftrightarrow>
     (\<forall>c. http_heap s c = None \<longrightarrow> http_heap s' c = None) \<and>
     (\<forall>u. map_of (g_uuid_conn_map s) u = None \<longrightarrow> map_of (g_uuid_conn_map s') u = None) \<and>
     (\<forall>h. (\<forall>c. socket_of s c \<noteq> Some h) \<longrightarrow> wire w' h = wire w h)"

lemma map_of_map_erase: "map_of (map_erase x m) u = (if u = x then None else map_of m u)"
  by (induction m) (auto simp: map_erase_def)

lemma untouched_trans: 
  assumes "untouched wire s w t v" and "untouched wire t v s' w'" and "\<And>c h. socket_of t c = Some h \<Longrightarrow> \<exists>d. socket_of s d = Some h"
  shows "untouched wire s w s' w'"
  using assms unfolding untouched_def by metis

lemma handed_over_untouched:
  assumes "handed_over wire c conn data s w t v" and "http_heap s c = Some conn"
  shows "untouched wire s w t v" and "\<And>d h. socket_of t d = Some h \<Longrightarrow> socket_of s d = Some h"
proof -
  have "socket_of s c = Some (m_sock_handle conn)" using assms(2) by (simp add: socket_of_def)
  then have "wire v h = wire w h" if "\<forall>d. socket_of s d \<noteq> Some h" for h
    using assms(1) that unfolding handed_over_def by metis
  moreover have "http_heap t d = None" if "http_heap s d = None" for d using assms that by (auto simp: handed_over_def)
  moreover have "map_of (g_uuid_conn_map t) u = None" if "map_of (g_uuid_conn_map s) u = None" for u
    using assms(1) that by (auto simp: handed_over_def map_of_map_erase)
  ultimately show "untouched wire s w t v" unfolding untouched_def by blast
  show "\<And>d h. socket_of t d = Some h \<Longrightarrow> socket_of s d = Some h"
    using assms by (auto simp: handed_over_def socket_of_def split: if_splits)
qed

lemma uuid_object:
  assumes "http_inv s" and "map_of (g_uuid_conn_map s) u = Some c"
  obtains conn where "http_heap s c = Some conn" "hc_uuid conn = u" "conn_ok_at conn"
  using assms unfolding http_inv_def by (metis map_of_SomeD)

lemma responses_for_simps [simp]:
  "responses_for u [] = []"
  "responses_for u (pdu # pdus) = (if nat (conn_uuid pdu) = u then [resp_data pdu] else []) @ responses_for u pdus"
  by (simp_all add: responses_for_def)

lemma take_responses: "take (Suc k) (x # xs) = x # take k xs"
  by simp

text \<open>One response in front of the rest of the queue.\<close>

lemma delivered_step:
  assumes inv: "http_inv s" and ready: "send_ready n s" and v: "map_of (g_uuid_conn_map s) (nat (conn_uuid pdu)) = Some d"
    and d: "http_heap s d = Some dconn" "hc_uuid dconn = nat (conn_uuid pdu)"
    and over: "handed_over wire d dconn (resp_data pdu) s w t x"
    and rest: "\<And>conn. map_of (g_uuid_conn_map t) u = Some c \<Longrightarrow> http_heap t c = Some conn \<Longrightarrow> delivered wire pdus t x s' w' u c conn"
    and frame: "untouched wire t x s' w'"
    and u: "map_of (g_uuid_conn_map s) u = Some c" "http_heap s c = Some conn"
  shows "delivered wire (pdu # pdus) s w s' w' u c conn"
proof (cases "u = nat (conn_uuid pdu)")
  case True
  then have same: "d = c" "dconn = conn" using u v d(1) by auto
  have wire: "wire x (m_sock_handle conn) @ pending t c = wire w (m_sock_handle conn) @ pending s c @ resp_data pdu"
    using over same by (simp add: handed_over_def)
  from over consider conn' where "g_uuid_conn_map t = g_uuid_conn_map s" "http_heap t c = Some conn'" "m_sock_handle conn' = m_sock_handle conn"
    | "g_uuid_conn_map t = map_erase u (g_uuid_conn_map s)" "http_heap t = (http_heap s)(c := None)"
    using same d(2) True by (auto simp: handed_over_def)
  then show ?thesis
  proof cases
    case 1
    then obtain k where "k \<le> length (responses_for u pdus)"
        "wire w' (m_sock_handle conn) @ pending s' c = wire x (m_sock_handle conn) @ pending t c @ concat (take k (responses_for u pdus))"
        "if map_of (g_uuid_conn_map s') u = Some c then k = length (responses_for u pdus) \<and> http_heap s' c \<noteq> None
         else 0 < k \<and> map_of (g_uuid_conn_map s') u = None \<and> http_heap s' c = None"
      using rest [of conn'] u(1) by (auto simp: delivered_def)
    then show ?thesis unfolding delivered_def using True wire
      by (intro exI [of _ "Suc k"]) (auto split: if_splits simp flip: append_assoc)
  next
    case 2
    have gone: "http_heap s' c = None" "map_of (g_uuid_conn_map s') u = None"
      using frame 2 by (auto simp: untouched_def map_of_map_erase)
    have "socket_of t e \<noteq> Some (m_sock_handle conn)" for e
    proof
      assume "socket_of t e = Some (m_sock_handle conn)"
      then obtain conn' where e: "e \<noteq> c" "http_heap s e = Some conn'" "m_sock_handle conn' = m_sock_handle conn"
        using 2(2) by (auto simp: socket_of_def split: if_splits)
      show False using send_readyD(2) [OF ready u(2) e(2)] e(1,3) by simp
    qed
    then have "wire w' (m_sock_handle conn) = wire x (m_sock_handle conn)" using frame by (simp add: untouched_def)
    then have "wire w' (m_sock_handle conn) @ pending s' c = wire w (m_sock_handle conn) @ pending s c @ resp_data pdu"
      using wire gone(1) 2(2) by (simp add: pending_def)
    then show ?thesis unfolding delivered_def using True gone by (intro exI [of _ 1]) simp
  qed
next
  case False
  obtain conn0 where "http_heap s c = Some conn0" "hc_uuid conn0 = u" using uuid_object [OF inv u(1)] by blast
  then have other: "c \<noteq> d" using d False u(2) by auto
  have t: "http_heap t c = Some conn" "map_of (g_uuid_conn_map t) u = Some c" "pending t c = pending s c"
    using over other u False d(2) by (auto simp: handed_over_def pending_def map_of_map_erase)
  have "m_sock_handle conn \<noteq> m_sock_handle dconn" using send_readyD(2) [OF ready u(2) d(1)] other by blast
  then have "wire x (m_sock_handle conn) = wire w (m_sock_handle conn)" using over by (simp add: handed_over_def)
  then show ?thesis using rest [OF t(2,1)] t(3) False by (auto simp: delivered_def)
qed

lemma send_responses_delivers:
  assumes wire: "wires_of E wire" and "http_inv s" and "send_ready (queue_bytes (s_response_pdu_list s)) s"
  shows "\<exists>s' w'. run E (send_responses (length (s_response_pdu_list s))) s w = (Done (), s', w') \<and> s_response_pdu_list s' = [] \<and>
     untouched wire s w s' w' \<and>
     (\<forall>u c conn. map_of (g_uuid_conn_map s) u = Some c \<longrightarrow> http_heap s c = Some conn \<longrightarrow>
        delivered wire (s_response_pdu_list s) s w s' w' u c conn)"
  using assms(2,3)
proof (induction "s_response_pdu_list s" arbitrary: s w)
  case Nil
  then show ?case by (fastforce simp: untouched_def delivered_def)
next
  case (Cons pdu pdus)
  let ?s = "s\<lparr>s_response_pdu_list := pdus\<rparr>" and ?v = "nat (conn_uuid pdu)"
  have q: "s_response_pdu_list s = pdu # pdus" using Cons.hyps(2) by simp
  have inv: "http_inv ?s" using Cons.prems(1) by (simp add: http_inv_def)
  have ready: "send_ready (length (resp_data pdu) + queue_bytes pdus) ?s"
    using Cons.prems(2) q by (simp add: queue_bytes_def send_ready_def socket_of_def)
  have go: "run E (send_responses (length (s_response_pdu_list s))) s w =
      (case map_of (g_uuid_conn_map s) ?v of
         None \<Rightarrow> run E (send_responses (length pdus)) ?s w
       | Some d \<Rightarrow> then_run (run E (CHttpConn_Send d (resp_data pdu)) ?s w) (\<lambda>_. run E (send_responses (length pdus))))"
    using q by (simp add: GetHttpConnByUuid_def split: option.split)
  show ?case
  proof (cases "map_of (g_uuid_conn_map s) ?v")
    case None
    have "send_ready (queue_bytes (s_response_pdu_list ?s)) ?s" using send_ready_less [OF ready] by simp
    from Cons.hyps(1) [OF _ inv this, of w] None go q show ?thesis
      by (fastforce simp: untouched_def delivered_def pending_def socket_of_def)
  next
    case (Some d)
    then obtain dconn where d: "http_heap ?s d = Some dconn" "hc_uuid dconn = ?v" "conn_ok_at dconn"
      using uuid_object [OF inv, of ?v d] by auto
    obtain t x where t: "run E (CHttpConn_Send d (resp_data pdu)) ?s w = (Done (length (resp_data pdu)), t, x)"
        "handed_over wire d dconn (resp_data pdu) ?s w t x" "send_ready (queue_bytes pdus) t"
      using Send_hands_over [OF wire d(1,3) ready] by blast
    have "sound ?s t" using keeps_run [OF keeps_Send t(1)] .
    then have inv_t: "http_inv t" using inv by (simp add: sound_def)
    have qt: "s_response_pdu_list t = pdus" using t(2) by (simp add: handed_over_def)
    obtain s' w' where rest: "run E (send_responses (length pdus)) t x = (Done (), s', w')" "s_response_pdu_list s' = []"
        "untouched wire t x s' w'"
        "\<And>u c conn. map_of (g_uuid_conn_map t) u = Some c \<Longrightarrow> http_heap t c = Some conn \<Longrightarrow> delivered wire pdus t x s' w' u c conn"
      using Cons.hyps(1) [OF _ inv_t, of x] qt t(3) by auto
    note over = handed_over_untouched [OF t(2) d(1)]
    have "untouched wire ?s w s' w'" by (rule untouched_trans [OF over(1) rest(3)]) (use over(2) in blast)
    then have frame: "untouched wire s w s' w'" by (simp add: untouched_def socket_of_def)
    have "delivered wire (pdu # pdus) ?s w s' w' u c conn"
      if "map_of (g_uuid_conn_map ?s) u = Some c" "http_heap ?s c = Some conn" for u c conn
      by (rule delivered_step [OF inv ready _ d(1,2) t(2) rest(4,3) that]) (use Some in simp)
    then have "delivered wire (pdu # pdus) s w s' w' u c conn"
      if "map_of (g_uuid_conn_map s) u = Some c" "http_heap s c = Some conn" for u c conn
      using that by (simp add: delivered_def pending_def)
    then show ?thesis using go Some t(1) rest(1,2) frame q by auto
  qed
qed

text \<open>
  C29. Emptying the queue of responses, however long it is: every response goes to the connection
  with its uuid. From a state with sound maps, idle connections without a backlog and sockets of
  their own, whatever the sockets take: the call returns and the queue is empty; for every connection
  the bytes its socket has taken followed by those still pending are the old ones followed by its
  responses in the order of the queue. These are all of its responses as long as it exists; it is
  gone, with its map entry, only behind a response that left nothing pending. A socket without a
  connection is sent nothing.
\<close>

theorem SendResponseDataList_delivers:
  assumes "wires_of E wire" and "http_inv s" and "send_ready (queue_bytes (s_response_pdu_list s)) s"
  shows "\<exists>s' w'. run E SendResponseDataList s w = (Done (), s', w') \<and> s_response_pdu_list s' = [] \<and>
    (\<forall>h. (\<forall>c. socket_of s c \<noteq> Some h) \<longrightarrow> wire w' h = wire w h) \<and>
    (\<forall>u c h. map_of (g_uuid_conn_map s) u = Some c \<and> socket_of s c = Some h \<longrightarrow>
       (\<exists>k \<le> length (responses_for u (s_response_pdu_list s)).
          wire w' h @ pending s' c = wire w h @ pending s c @ concat (take k (responses_for u (s_response_pdu_list s))) \<and>
          (if map_of (g_uuid_conn_map s') u = Some c
           then k = length (responses_for u (s_response_pdu_list s)) \<and> http_heap s' c \<noteq> None
           else 0 < k \<and> map_of (g_uuid_conn_map s') u = None \<and> http_heap s' c = None)))"
proof -
  let ?pdus = "s_response_pdu_list s"
  obtain s' w' where run: "run E (send_responses (length ?pdus)) s w = (Done (), s', w')" "s_response_pdu_list s' = []"
      "untouched wire s w s' w'"
    and each: "\<And>u c conn. map_of (g_uuid_conn_map s) u = Some c \<Longrightarrow> http_heap s c = Some conn \<Longrightarrow> delivered wire ?pdus s w s' w' u c conn"
    using send_responses_delivers [OF assms, of w] by blast
  have "\<exists>k \<le> length (responses_for u ?pdus).
      wire w' h @ pending s' c = wire w h @ pending s c @ concat (take k (responses_for u ?pdus)) \<and>
      (if map_of (g_uuid_conn_map s') u = Some c then k = length (responses_for u ?pdus) \<and> http_heap s' c \<noteq> None
       else 0 < k \<and> map_of (g_uuid_conn_map s') u = None \<and> http_heap s' c = None)"
    if u: "map_of (g_uuid_conn_map s) u = Some c \<and> socket_of s c = Some h" for u c h
  proof -
    obtain conn where "http_heap s c = Some conn" "m_sock_handle conn = h" using u by (auto simp: socket_of_def)
    then show ?thesis using each [of u c conn] u unfolding delivered_def by blast
  qed
  moreover have "run E SendResponseDataList s w = (Done (), s', w')" using run(1) by (simp add: SendResponseDataList_def)
  ultimately show ?thesis using run(2,3) unfolding untouched_def by blast
qed

text \<open>
  Two connections, on sockets that take at most four bytes at a time, and a third uuid nobody has: the
  first connection is handed two responses and is busy with them, the second is done and gone.
\<close>

definition sockets_env :: "(int \<Rightarrow> string) env" where
  "sockets_env =
     \<lparr>env_mysql_connect = (\<lambda>w ps. (Connected, w)), env_mysql = (\<lambda>w q. (QueryFailed, w)),
      env_stmt = (\<lambda>w q ps. (Executed 1 1, w)), env_redis_connect = (\<lambda>w h p. (True, w)),
      env_redis = (\<lambda>w c. (None, w)),
      env_os = (\<lambda>w c. case c of OsSend h d \<Rightarrow> (\<lparr>os_int = int (min 4 (length d)), os_str = []\<rparr>, w(h := w h @ take 4 d))
                              | _ \<Rightarrow> (\<lparr>os_int = 0, os_str = []\<rparr>, w)),
      env_libc = demo_libc\<rparr>"

lemma sockets_wires: "wires_of sockets_env (\<lambda>w. w)"
  by (auto simp: wires_of_def sockets_env_def min_def split: os_call.splits)

definition two_conns :: srv where
  "two_conns =
     demo_srv\<lparr>http_heap := [0 \<mapsto> idle_conn, 1 \<mapsto> idle_conn\<lparr>m_sock_handle := 6, conn_handle := 2, hc_uuid := 3\<rparr>], next_http := 2,
       g_http_conn_map := [(2, 1), (1, 0)], g_uuid_conn_map := [(3, 1), (9, 0)],
       s_response_pdu_list :=
         [\<lparr>conn_uuid = 9, resp_data = ''HTTP/1.1 OK''\<rparr>, \<lparr>conn_uuid = 8, resp_data = ''lost''\<rparr>,
          \<lparr>conn_uuid = 3, resp_data = ''bye''\<rparr>, \<lparr>conn_uuid = 9, resp_data = '' again''\<rparr>]\<rparr>"

theorem SendResponseDataList_delivers_witness:
  "\<exists>s' w'. run sockets_env SendResponseDataList two_conns (\<lambda>_. []) = (Done (), s', w') \<and> s_response_pdu_list s' = [] \<and>
     (\<exists>k. k \<le> 2 \<and> w' 5 @ pending s' 0 = concat (take k [''HTTP/1.1 OK'', '' again''])) \<and> (\<exists>k. k \<le> 1 \<and> w' 6 @ pending s' 1 = concat (take k [''bye'']))"
proof -
  have "http_inv two_conns" by (auto simp: http_inv_def two_conns_def demo_srv_def conn_ok_at_def idle_conn_def split: if_splits)
  moreover have "send_ready (queue_bytes (s_response_pdu_list two_conns)) two_conns"
    by (auto simp: send_ready_def room_for_def socket_of_def queue_bytes_def two_conns_def demo_srv_def idle_conn_def
        new_CSimpleBuffer_def split: if_splits)
  ultimately obtain s' w' where run: "run sockets_env SendResponseDataList two_conns (\<lambda>_. []) = (Done (), s', w')" "s_response_pdu_list s' = []"
    and each: "\<And>u c h. map_of (g_uuid_conn_map two_conns) u = Some c \<and> socket_of two_conns c = Some h \<Longrightarrow>
       \<exists>k \<le> length (responses_for u (s_response_pdu_list two_conns)).
          w' h @ pending s' c = [] @ pending two_conns c @ concat (take k (responses_for u (s_response_pdu_list two_conns)))"
    using SendResponseDataList_delivers [OF sockets_wires, of two_conns "\<lambda>_. []"] by meson
  have a: "map_of (g_uuid_conn_map two_conns) 9 = Some 0" "socket_of two_conns 0 = Some 5" "pending two_conns 0 = []"
      "responses_for 9 (s_response_pdu_list two_conns) = [''HTTP/1.1 OK'', '' again'']"
    by (simp_all add: two_conns_def socket_of_def pending_def idle_conn_def new_CSimpleBuffer_def)
  have b: "map_of (g_uuid_conn_map two_conns) 3 = Some 1" "socket_of two_conns 1 = Some 6" "pending two_conns 1 = []"
      "responses_for 3 (s_response_pdu_list two_conns) = [''bye'']"
    by (simp_all add: two_conns_def socket_of_def pending_def idle_conn_def new_CSimpleBuffer_def)
  have "\<exists>k. k \<le> 2 \<and> w' 5 @ pending s' 0 = concat (take k [''HTTP/1.1 OK'', '' again''])" using each [of 9 0 5] a by (auto simp: numeral_2_eq_2)
  moreover have "\<exists>k. k \<le> 1 \<and> w' 6 @ pending s' 1 = concat (take k [''bye''])" using each [of 3 1 6] b by auto
  ultimately show ?thesis using run by blast
qed

section \<open>The read loop\<close>

text \<open>
  What a socket hands over until the read loop ends: the non-empty results of netlib_recv, each cut
  at READ_BUF_SIZE bytes, and the world behind the call that returned nothing.
\<close>

inductive feeds :: "'w env \<Rightarrow> int \<Rightarrow> 'w \<Rightarrow> string list \<Rightarrow> 'w \<Rightarrow> bool" for E :: "'w env" and handle :: int where
  dry: "env_os E w (OsRecv handle) = (r, w') \<Longrightarrow> os_str r = [] \<Longrightarrow> feeds E handle w [] w'"
| more: "env_os E w (OsRecv handle) = (r, w1) \<Longrightarrow> os_str r \<noteq> [] \<Longrightarrow> env_os E w1 OsTick = (t, w2) \<Longrightarrow>
    feeds E handle w2 cs w' \<Longrightarrow> feeds E handle w (take READ_BUF_SIZE (os_str r) # cs) w'"

lemma READ_BUF_SIZE_pos: "take READ_BUF_SIZE xs = [] \<longleftrightarrow> xs = []" "READ_BUF_SIZE \<noteq> 0"
  by (simp_all add: READ_BUF_SIZE_def)

definition room :: "char simple_buffer \<Rightarrow> char simple_buffer" where
  "room b = (if sb_alloc b - GetWriteOffset b < READ_BUF_SIZE + 1 then CSimpleBuffer_Extend (READ_BUF_SIZE + 1) b else b)"

lemma room_ok:
  assumes "buffer_ok b" and "length (sb_data b) < 2 ^ 30"
  shows "sb_data (room b) = sb_data b" "buffer_ok (room b)" "length (sb_data b) + READ_BUF_SIZE < sb_alloc (room b)"
proof -
  have fit: "(GetWriteOffset b + (READ_BUF_SIZE + 1)) * 5 < 2 ^ 34"
    using assms(2) by (simp add: GetWriteOffset_def READ_BUF_SIZE_def)
  show data: "sb_data (room b) = sb_data b" using Extend_alloc(3) [OF fit] by (simp add: room_def)
  show "length (sb_data b) + READ_BUF_SIZE < sb_alloc (room b)"
    using Extend_alloc(2) [OF fit] by (auto simp: room_def GetWriteOffset_def)
  then show "buffer_ok (room b)"
    using assms(1) Extend_alloc(4) [OF fit] data by (auto simp: buffer_ok_def GetWriteOffset_def room_def)
qed

lemma recv_loop_collects:
  assumes "feeds E handle w cs w'" and "http_heap s c = Some conn" and "m_sock_handle conn = handle"
    and "buffer_ok (in_buf conn)" and "length (sb_data (in_buf conn)) + length (concat cs) < 2 ^ 30"
    and "length cs < fuel"
  shows "\<exists>s' conn'. run E (recv_loop fuel c) s w = (Done True, s', w') \<and> http_heap s' c = Some conn' \<and>
     sb_data (in_buf conn') = sb_data (in_buf conn) @ concat cs \<and> length (sb_data (in_buf conn')) < sb_alloc (in_buf conn') \<and>
     conn_handle conn' = conn_handle conn \<and> hc_uuid conn' = hc_uuid conn \<and> m_sock_handle conn' = handle \<and>
     ref_count conn' = ref_count conn \<and> g_http_conn_map s' = g_http_conn_map s \<and> g_uuid_conn_map s' = g_uuid_conn_map s"
  using assms
proof (induction arbitrary: s conn fuel rule: feeds.induct)
  case (dry w r w')
  obtain n where fuel: "fuel = Suc n" using dry.prems by (cases fuel) auto
  have "length (sb_data (in_buf conn)) < 2 ^ 30" using dry.prems by simp
  note ok = room_ok [OF dry.prems(3) this]
  show ?case
    unfolding fuel recv_loop.simps room_def [symmetric]
    using dry ok by (simp add: run_set_http_conn run_the_http_conn READ_BUF_SIZE_pos put_http_conn_def)
next
  case (more w r w1 t w2 cs w')
  obtain n where fuel: "fuel = Suc n" "length cs < n" using more.prems by (cases fuel) auto
  let ?got = "take READ_BUF_SIZE (os_str r)"
  have small: "length (sb_data (in_buf conn)) < 2 ^ 30" using more.prems by simp
  note ok = room_ok [OF more.prems(3) this]
  let ?b = "(room (in_buf conn))\<lparr>sb_data := sb_data (in_buf conn) @ ?got\<rparr>"
  let ?conn = "conn\<lparr>in_buf := ?b, last_recv_tick := os_int t\<rparr>"
  let ?s = "put_http_conn c (Some ?conn) s"
  have inc: "IncWriteOffset ?got (room (in_buf conn)) = Some ?b"
    using ok by (simp add: IncWriteOffset_def GetWriteOffset_def)
  have okb: "buffer_ok ?b"
    using ok by (simp add: buffer_ok_def GetWriteOffset_def)
  obtain s' conn' where IH: "run E (recv_loop n c) ?s w2 = (Done True, s', w')" "http_heap s' c = Some conn'"
      "sb_data (in_buf conn') = sb_data ?b @ concat cs" "length (sb_data (in_buf conn')) < sb_alloc (in_buf conn')"
      "conn_handle conn' = conn_handle conn" "hc_uuid conn' = hc_uuid conn" "m_sock_handle conn' = handle"
      "ref_count conn' = ref_count conn" "g_http_conn_map s' = g_http_conn_map s" "g_uuid_conn_map s' = g_uuid_conn_map s"
    using more.IH [of ?s ?conn n] more.prems okb fuel by (auto simp: put_http_conn_def)
  have "run E (recv_loop fuel c) s w = run E (recv_loop n c) ?s w2"
    unfolding fuel recv_loop.simps room_def [symmetric]
    using more inc
    by (simp add: run_set_http_conn run_the_http_conn READ_BUF_SIZE_pos Let_def in_memory_def)
  then show ?case using IH by auto
qed

text \<open>
  C21. The read event comes back, whatever the client sends: a socket that runs dry after a number of
  chunks is read in that many calls and one more, within the memory of the buffer and with a byte
  left for the terminating zero; the bytes arrive in order behind those from before. A request of
  more than 2048 bytes then ends the connection without being parsed: the object is deleted and both
  its map entries are gone.
\<close>

theorem CHttpConn_OnRead_long_request:
  assumes feeds: "feeds E (m_sock_handle conn) w cs w1" and conn: "http_heap s c = Some conn" "ref_count conn = 1"
    and small: "buffer_ok (in_buf conn)" "length (sb_data (in_buf conn)) + length (concat cs) < 2 ^ 30" "length cs < fuel"
    and long: "2048 < length (sb_data (in_buf conn)) + length (concat cs)"
    and close: "env_os E w1 (OsCloseSocket (m_sock_handle conn)) = (r, w2)"
  shows "\<exists>s'. run E (CHttpConn_OnRead fuel c) s w = (Done (Some ()), s', w2) \<and> http_heap s' c = None \<and>
     g_http_conn_map s' = map_erase (conn_handle conn) (g_http_conn_map s) \<and>
     g_uuid_conn_map s' = map_erase (hc_uuid conn) (g_uuid_conn_map s)"
proof -
  obtain s1 conn1 where read: "run E (recv_loop fuel c) s w = (Done True, s1, w1)" "http_heap s1 c = Some conn1"
      "sb_data (in_buf conn1) = sb_data (in_buf conn) @ concat cs" "length (sb_data (in_buf conn1)) < sb_alloc (in_buf conn1)"
      "conn_handle conn1 = conn_handle conn" "hc_uuid conn1 = hc_uuid conn" "m_sock_handle conn1 = m_sock_handle conn"
      "ref_count conn1 = ref_count conn" "g_http_conn_map s1 = g_http_conn_map s" "g_uuid_conn_map s1 = g_uuid_conn_map s"
    using recv_loop_collects [OF feeds conn(1) refl small] by blast
  obtain s2 where s2: "run E (CHttpConn_Close c) s1 w1 = (Done (), s2, w2)" "http_heap s2 c = None"
      "g_http_conn_map s2 = map_erase (conn_handle conn) (g_http_conn_map s)"
      "g_uuid_conn_map s2 = map_erase (hc_uuid conn) (g_uuid_conn_map s)"
    using run_Close [of s1 c conn1 E w1 r w2] close read conn by auto
  have "run E (on_request c) s1 w1 = (Done (), s2, w2)"
    using read(2,3,4) long s2(1) by (simp add: on_request_def run_the_http_conn)
  then show ?thesis using read(1) s2 by (simp add: CHttpConn_OnRead_def)
qed

section \<open>The dispatch\<close>

primrec route_path :: "route \<Rightarrow> string" where
  "route_path RouteReg = ''/api/reg''"
| "route_path RouteLogin = ''/api/login''"
| "route_path RouteMyfiles = ''/api/myfil''"
| "route_path RouteSharefiles = ''/api/sharefiles''"
| "route_path RouteDealfile = ''/api/dealfile''"
| "route_path RouteDealsharefile = ''/api/dealsharefile''"
| "route_path RouteSharepic = ''/api/sharepic''"
| "route_path RouteMd5 = ''/api/md5''"
| "route_path RouteUpload = ''/api/upload''"

lemma take_prefix: "take (length p) u = p \<longleftrightarrow> is_prefix p u"
  by (auto simp: is_prefix_iff) (metis append_take_drop_id)

lemma is_prefix_comparable: "is_prefix p u \<Longrightarrow> is_prefix q u \<Longrightarrow> is_prefix p q \<or> is_prefix q p"
  by (auto simp: is_prefix_iff) (metis append_eq_append_conv2)

lemma route_paths_apart: "is_prefix (route_path r) (route_path r') \<longleftrightarrow> r = r'"
  by (cases r; cases r'; simp)

lemma route_path_unique: "is_prefix (route_path r) u \<Longrightarrow> is_prefix (route_path r') u \<Longrightarrow> r = r'"
  using is_prefix_comparable route_paths_apart by metis

lemma strncmp_routes:
  "strncmp_eq url ''/api/reg'' 8 \<longleftrightarrow> is_prefix (route_path RouteReg) (c_str url)"
  "strncmp_eq url ''/api/login'' 10 \<longleftrightarrow> is_prefix (route_path RouteLogin) (c_str url)"
  "strncmp_eq url ''/api/myfiles'' 10 \<longleftrightarrow> is_prefix (route_path RouteMyfiles) (c_str url)"
  "strncmp_eq url ''/api/sharefiles'' 15 \<longleftrightarrow> is_prefix (route_path RouteSharefiles) (c_str url)"
  "strncmp_eq url ''/api/dealfile'' 13 \<longleftrightarrow> is_prefix (route_path RouteDealfile) (c_str url)"
  "strncmp_eq url ''/api/dealsharefile'' 18 \<longleftrightarrow> is_prefix (route_path RouteDealsharefile) (c_str url)"
  "strncmp_eq url ''/api/sharepic'' 13 \<longleftrightarrow> is_prefix (route_path RouteSharepic) (c_str url)"
  "strncmp_eq url ''/api/md5'' 8 \<longleftrightarrow> is_prefix (route_path RouteMd5) (c_str url)"
  "strncmp_eq url ''/api/upload'' 11 \<longleftrightarrow> is_prefix (route_path RouteUpload) (c_str url)"
  unfolding take_prefix [symmetric] by (simp_all add: strncmp_eq_def eval_nat_numeral)

lemma route_of_path:
  assumes "is_prefix (route_path r) (c_str url)"
  shows "route_of url = Some r"
proof -
  have other: "is_prefix (route_path r') (c_str url) \<longleftrightarrow> r' = r" for r'
    using assms route_path_unique by blast
  show ?thesis
    unfolding route_of_def strncmp_routes other by (cases r) simp_all
qed

text \<open>
  C26. The order of the nine comparisons does not matter: a request goes to a handler exactly when
  the URL starts with that handler's path, no path being a prefix of another. For myfiles only
  /api/myfil is compared.
\<close>

theorem route_of_prefix: "route_of url = Some r \<longleftrightarrow> is_prefix (route_path r) (c_str url)"
proof
  show "route_of url = Some r \<Longrightarrow> is_prefix (route_path r) (c_str url)"
    unfolding route_of_def strncmp_routes by (simp only: option.inject split: if_splits) auto
next
  show "is_prefix (route_path r) (c_str url) \<Longrightarrow> route_of url = Some r" by (rule route_of_path)
qed

text \<open>A client that sends 3000 bytes at once, of which a read takes the first 2048.\<close>

definition flood_env :: "nat env" where
  "flood_env =
     \<lparr>env_mysql_connect = (\<lambda>w ps. (Connected, w)), env_mysql = (\<lambda>w q. (QueryFailed, w)),
      env_stmt = (\<lambda>w q ps. (Executed 1 1, w)), env_redis_connect = (\<lambda>w h p. (True, w)),
      env_redis = (\<lambda>w c. (None, w)),
      env_os = (\<lambda>w c. case c of OsRecv h \<Rightarrow> (\<lparr>os_int = 0, os_str = replicate w (CHR ''x'')\<rparr>, w - 2048)
                              | _ \<Rightarrow> (\<lparr>os_int = 0, os_str = []\<rparr>, w)),
      env_libc = demo_libc\<rparr>"

lemma flood_env_simps [simp]:
  "env_os flood_env w (OsRecv h) = (\<lparr>os_int = 0, os_str = replicate w (CHR ''x'')\<rparr>, w - 2048)"
  "env_os flood_env w OsTick = (\<lparr>os_int = 0, os_str = []\<rparr>, w)"
  "env_os flood_env w (OsCloseSocket i) = (\<lparr>os_int = 0, os_str = []\<rparr>, w)"
  by (simp_all add: flood_env_def)

lemma flood_feeds:
  "feeds flood_env h 3000 [take READ_BUF_SIZE (replicate 3000 (CHR ''x'')), take READ_BUF_SIZE (replicate 952 (CHR ''x''))] 0"
proof -
  have "feeds flood_env h 0 [] 0" by (rule feeds.dry [where r = "\<lparr>os_int = 0, os_str = []\<rparr>"]) simp_all
  then have "feeds flood_env h 952 [take READ_BUF_SIZE (replicate 952 (CHR ''x''))] 0"
    using feeds.more [where E = flood_env and handle = h and w = 952 and r = "\<lparr>os_int = 0, os_str = replicate 952 (CHR ''x'')\<rparr>"]
    by simp
  then show ?thesis
    using feeds.more [where E = flood_env and handle = h and w = 3000 and r = "\<lparr>os_int = 0, os_str = replicate 3000 (CHR ''x'')\<rparr>"]
    by simp
qed

theorem CHttpConn_OnRead_long_request_witness:
  "\<exists>s'. run flood_env (CHttpConn_OnRead 3 0) (one_conn idle_conn) 3000 = (Done (Some ()), s', 0) \<and>
     http_heap s' 0 = None \<and> g_http_conn_map s' = []"
  using CHttpConn_OnRead_long_request [where s = "one_conn idle_conn" and c = 0 and fuel = 3
      and conn = idle_conn and r = "\<lparr>os_int = 0, os_str = []\<rparr>" and ?w2.0 = 0, OF flood_feeds]
  by (auto simp: idle_conn_def map_erase_def new_CSimpleBuffer_def READ_BUF_SIZE_def buffer_ok_def GetWriteOffset_def)

end
