(* ===== verification/Json_Grammar.thy ===== *)
theory Json_Grammar
  imports Json_Reader
begin

text \<open>
  What Json::Reader and the two writers have to do with each other: a grammar of JSON texts (spells),
  the proof that both writers stay inside it and that the reader reads every text of it back to the
  value it spells, and the round trips that follow.
\<close>

section \<open>Strings survive quoting\<close>

lemma hex_val_upper: "d < 16 \<Longrightarrow> hex_val (hex_upper d) = Some d"
  by (auto simp: hex_val_def hex_upper_def Let_def)

lemma hex_upper_plain: "d < 16 \<Longrightarrow> hex_upper d \<noteq> CHR 0x5C \<and> hex_upper d \<noteq> CHR 0x22"
proof -
  assume "d < 16"
  then have "(of_char (hex_upper d) :: nat) < 72 \<and> 47 < (of_char (hex_upper d) :: nat)"
    by (auto simp: hex_upper_def)
  then show ?thesis by auto
qed

text \<open>The characters that are escaped as \u00XX are below 32.\<close>

lemma escape_char_cases:
  obtains (plain) "escape_char c = [c]" "c \<noteq> CHR 0x5C" "c \<noteq> CHR 0x22"
  | (simple) e where "escape_char c = [CHR 0x5C, e]" "simple_escape e = Some c" "e \<noteq> CHR ''u''"
  | (unicode) n where "escape_char c = [CHR 0x5C, CHR ''u'', CHR ''0'', CHR ''0'', hex_upper (n div 16), hex_upper (n mod 16)]"
      "n < 32" "c = char_of n"
proof (cases "c \<in> {CHR 0x22, CHR 0x5C, CHR 0x08, CHR 0x0C, CHR 0x0A, CHR 0x0D, CHR 0x09}")
  case True
  then show thesis by (auto simp: escape_char_def simple_escape_def intro: simple)
next
  case False
  show thesis
  proof (cases "isControlCharacter c")
    case True
    with False show thesis
      by (intro unicode [of "of_char c"]) (simp_all add: escape_char_def isControlCharacter_def)
  next
    case control: False
    with False show thesis by (intro plain) (simp_all add: escape_char_def)
  qed
qed

lemma readString_escaped: "readString (concat (map escape_char s) @ CHR 0x22 # t) = (True, t)"
proof (induction s)
  case (Cons c s)
  show ?case
  proof (cases c rule: escape_char_cases)
    case (unicode n)
    have "n div 16 < 16" "n mod 16 < 16" using unicode by simp_all
    with Cons unicode show ?thesis using hex_upper_plain by simp
  qed (use Cons in simp_all)
qed simp

lemma decode_chars_escaped:
  "nul_free s \<Longrightarrow> length s \<le> n \<Longrightarrow> decode_chars n (concat (map escape_char s)) = Some s"
proof (induction s arbitrary: n)
  case (Cons c s)
  obtain m where n: "n = Suc m" "length s \<le> m" using Cons.prems by (cases n) auto
  then have IH: "decode_chars m (concat (map escape_char s)) = Some s" using Cons by simp
  show ?case
  proof (cases c rule: escape_char_cases)
    case plain
    with IH n show ?thesis by simp
  next
    case (simple e)
    with IH n show ?thesis by simp
  next
    case (unicode k)
    have hex: "hex_val (CHR ''0'') = Some 0" by (simp add: hex_val_def)
    have "k div 16 < 16" "k mod 16 < 16" using unicode by simp_all
    then have "decodeUnicodeCodePoint (CHR ''0'' # CHR ''0'' # hex_upper (k div 16) # hex_upper (k mod 16) # t) = Some (k, t)" for t
      using unicode(2)
      by (simp add: decodeUnicodeCodePoint_def decodeUnicodeEscapeSequence_def hex hex_val_upper)
    moreover have "codePointToUTF8 k = [char_of k]" using unicode(2) by (simp add: codePointToUTF8_def)
    ultimately show ?thesis using IH n unicode by simp
  qed
qed simp

lemma length_escaped: "length s \<le> length (concat (map escape_char s))"
proof (induction s)
  case (Cons c s)
  then show ?case by (cases c rule: escape_char_cases) simp_all
qed simp

lemma decodeString_quoted: "nul_free s \<Longrightarrow> decodeString (valueToQuotedString s) = Some s"
  using length_escaped [of s]
  by (simp add: decodeString_def valueToQuotedString_eq quoted_spec_def decode_chars_escaped)

section \<open>Numbers survive printing\<close>

lemma scan_digits_grows:
  "\<forall>c \<in> set s. is_digit c \<Longrightarrow> a \<le> scan_digits a s \<and> (s \<noteq> [] \<longrightarrow> 10 * a \<le> scan_digits a s)"
proof (induction s arbitrary: a)
  case (Cons c s)
  then have "a * 10 + digit_val c \<le> scan_digits (a * 10 + digit_val c) s" by simp
  with Cons.prems show ?case by simp
qed simp

lemma decode_digits_scan:
  "\<forall>c \<in> set s. is_digit c \<Longrightarrow> int (scan_digits a s) \<le> mx \<Longrightarrow> 10 \<le> mx \<Longrightarrow>
   decode_digits mx (int a) s = Some (int (scan_digits a s))"
proof (induction s arbitrary: a)
  case (Cons c s)
  let ?b = "a * 10 + digit_val c"
  have le: "int ?b \<le> mx" and more: "s \<noteq> [] \<Longrightarrow> 10 * int ?b \<le> mx"
    using scan_digits_grows [of s ?b] Cons.prems by auto
  have "\<not> (mx div 10 \<le> int a \<and> (mx div 10 < int a \<or> s \<noteq> [] \<or> mx mod 10 < int (digit_val c)))"
  proof
    assume *: "mx div 10 \<le> int a \<and> (mx div 10 < int a \<or> s \<noteq> [] \<or> mx mod 10 < int (digit_val c))"
    have "int a \<le> mx div 10" using le by simp
    with * have a: "int a = mx div 10" by simp
    then have "mx mod 10 \<ge> int (digit_val c)" using le minus_div_mult_eq_mod [of mx 10] by simp
    with * a have "s \<noteq> []" by auto
    moreover have "1 \<le> mx div 10" "mx < 10 * (mx div 10) + 10" using Cons.prems(3) by linarith+
    ultimately show False using more a by simp
  qed
  moreover have "decode_digits mx (int ?b) s = Some (int (scan_digits ?b s))"
    using Cons.IH [of ?b] Cons.prems by simp
  ultimately show ?case using Cons.prems(1) by (simp add: Let_def)
qed simp

lemma show_nat_first: "\<exists>c t. show_nat n = c # t \<and> is_digit c"
  using show_nat_digits [of n] by (cases "show_nat n") auto

lemma digits_no_double: "\<forall>c \<in> set s. is_digit c \<Longrightarrow> \<not> is_double_lexeme s \<and> \<not> is_double_lexeme (CHR ''-'' # s)"
  by (cases s) (auto simp: is_double_lexeme_def is_digit_def list_ex_iff)

lemma decodeNumber_int:
  assumes "- (2 ^ 63) \<le> i" and "i < 2 ^ 31"
  shows "decodeNumber L (show_int i) = Some (JInt i)"
proof (cases "i < 0")
  case True
  have "decode_digits (2 ^ 63) 0 (show_nat (nat (- i))) = Some (- i)"
    using decode_digits_scan [of "show_nat (nat (- i))" 0 "2 ^ 63"] assms True
    by (simp add: show_nat_digits scan_digits_show_nat)
  then show ?thesis
    using True digits_no_double [OF show_nat_digits]
    by (simp add: decodeNumber_def show_int_def peek_def getNextChar_def list_all_iff show_nat_digits)
next
  case False
  have "decode_digits (2 ^ 64 - 1) 0 (show_nat (nat i)) = Some i"
    using decode_digits_scan [of "show_nat (nat i)" 0 "2 ^ 64 - 1"] assms False
    by (simp add: show_nat_digits scan_digits_show_nat)
  moreover have "peek (show_nat (nat i)) \<noteq> CHR ''-''"
    using show_nat_first [of "nat i"] by (auto simp: peek_def getNextChar_def is_digit_not_special)
  ultimately show ?thesis
    using False assms digits_no_double [OF show_nat_digits]
    by (simp add: decodeNumber_def show_int_def list_all_iff show_nat_digits)
qed

lemma decodeNumber_uint:
  assumes "2 ^ 31 \<le> i" and "i < 2 ^ 64"
  shows "decodeNumber L (show_int i) = Some (JUInt i)"
proof -
  have "decode_digits (2 ^ 64 - 1) 0 (show_nat (nat i)) = Some i"
    using decode_digits_scan [of "show_nat (nat i)" 0 "2 ^ 64 - 1"] assms
    by (simp add: show_nat_digits scan_digits_show_nat)
  moreover have "peek (show_nat (nat i)) \<noteq> CHR ''-''"
    using show_nat_first [of "nat i"] by (auto simp: peek_def getNextChar_def is_digit_not_special)
  ultimately show ?thesis
    using assms digits_no_double [OF show_nat_digits]
    by (simp add: decodeNumber_def show_int_def list_all_iff show_nat_digits)
qed


section \<open>A grammar\<close>

text \<open>
  The texts a value may be written as, whatever the spacing: the abstract specification of the two
  writers and of the reader. Doubles and keys or strings with a NUL byte are left out: the former
  depend on the C library, the latter are cut at the NUL.
\<close>

definition spaces :: "string \<Rightarrow> bool" where
  "spaces s \<longleftrightarrow> list_all json_space s"

primrec clean_leaf :: "json \<Rightarrow> bool" where
  "clean_leaf JNull = True"
| "clean_leaf (JInt i) = (- (2 ^ 63) \<le> i \<and> i < 2 ^ 31)"
| "clean_leaf (JUInt i) = (2 ^ 31 \<le> i \<and> i < 2 ^ 64)"
| "clean_leaf (JReal t j) = False"
| "clean_leaf (JStr s) = nul_free s"
| "clean_leaf (JBool b) = True"
| "clean_leaf (JArr xs) = False"
| "clean_leaf (JObj m) = False"

inductive spells :: "json \<Rightarrow> string \<Rightarrow> bool"
  and spells_elems :: "json list \<Rightarrow> string \<Rightarrow> bool"
  and spells_members :: "(string \<times> json) list \<Rightarrow> string \<Rightarrow> bool"
where
  leaf: "clean_leaf v \<Longrightarrow> spells v (leaf_text v)"
| space: "spells v s \<Longrightarrow> json_space c \<Longrightarrow> spells v (c # s)"
| arr_empty: "spaces ws \<Longrightarrow> spells (JArr []) (''['' @ ws @ '']'')"
| arr: "spells_elems xs s \<Longrightarrow> spaces ws \<Longrightarrow> spells (JArr xs) (''['' @ s @ ws @ '']'')"
| obj_empty: "spaces ws \<Longrightarrow> spells (JObj []) (''{'' @ ws @ ''}'')"
| obj: "spells_members m s \<Longrightarrow> spaces ws \<Longrightarrow> obj_sorted m \<Longrightarrow> spells (JObj m) (''{'' @ s @ ws @ ''}'')"
| elem: "spells v s \<Longrightarrow> spells_elems [v] s"
| elems: "spells v s \<Longrightarrow> spaces ws \<Longrightarrow> spells_elems vs t \<Longrightarrow> spells_elems (v # vs) (s @ ws @ '','' @ t)"
| member: "nul_free k \<Longrightarrow> spaces ws \<Longrightarrow> spaces ws' \<Longrightarrow> spells v s \<Longrightarrow>
    spells_members [(k, v)] (ws @ valueToQuotedString k @ ws' @ '':'' @ s)"
| members: "nul_free k \<Longrightarrow> spaces ws \<Longrightarrow> spaces ws' \<Longrightarrow> spells v s \<Longrightarrow> spaces ws'' \<Longrightarrow> spells_members m t \<Longrightarrow>
    spells_members ((k, v) # m) (ws @ valueToQuotedString k @ ws' @ '':'' @ s @ ws'' @ '','' @ t)"

section \<open>Tokens\<close>

text \<open>What may follow a number: nothing a number could go on with.\<close>

definition ends_number :: "string \<Rightarrow> bool" where
  "ends_number t \<longleftrightarrow> (case t of [] \<Rightarrow> True | c # t \<Rightarrow> \<not> number_char c)"

lemma skipSpaces_spaces [simp]: "spaces ws \<Longrightarrow> skipSpaces (ws @ t) = skipSpaces t"
  by (simp add: spaces_def skipSpaces_def list_all_iff dropWhile_append)

lemma skipSpaces_Cons [simp]: "skipSpaces (c # t) = (if json_space c then skipSpaces t else c # t)"
  by (simp add: skipSpaces_def)

lemma readToken_spaces: "skipSpaces s = skipSpaces t \<Longrightarrow> readToken s = readToken t"
  by (simp add: readToken_def)

lemma readToken_skip [simp]: "spaces ws \<Longrightarrow> readToken (ws @ t) = readToken t" "json_space c \<Longrightarrow> readToken (c # t) = readToken t"
  by (rule readToken_spaces, simp)+

lemma readToken_punct [simp]:
  "readToken (CHR ''{'' # t) = ((TObjectBegin, ''{''), t)" "readToken (CHR ''}'' # t) = ((TObjectEnd, ''}''), t)"
  "readToken (CHR ''['' # t) = ((TArrayBegin, ''[''), t)" "readToken (CHR '']'' # t) = ((TArrayEnd, '']''), t)"
  "readToken (CHR '','' # t) = ((TArraySeparator, '',''), t)" "readToken (CHR '':'' # t) = ((TMemberSeparator, '':''), t)"
  by (simp_all add: readToken_def json_space_def getNextChar_def scan_token_def token_of_def is_digit_def)

lemma readToken_string: "readToken (valueToQuotedString s @ t) = ((TString, valueToQuotedString s), t)"
  by (simp add: valueToQuotedString_eq quoted_spec_def readToken_def json_space_def getNextChar_def scan_token_def
      readString_escaped token_of_def)

lemma dropWhile_number: "\<forall>c \<in> set ds. is_digit c \<Longrightarrow> ends_number t \<Longrightarrow> dropWhile number_char (ds @ t) = t"
  by (induction ds) (auto simp: number_char_def ends_number_def split: list.splits)

lemma digit_not_special:
  assumes "is_digit c"
  shows "c \<notin> {CHR ''{'', CHR ''}'', CHR ''['', CHR '']'', CHR 0x22, CHR ''/''}" "\<not> json_space c"
  using assms by (auto simp: is_digit_def json_space_def)

lemma readToken_int:
  assumes "ends_number t"
  shows "readToken (show_int i @ t) = ((TNumber, show_int i), t)"
proof (cases "i < 0")
  case True
  then show ?thesis
    using dropWhile_number [OF show_nat_digits assms]
    by (simp add: show_int_def readToken_def json_space_def getNextChar_def scan_token_def token_of_def)
next
  case False
  obtain c ds where ds: "show_nat (nat i) = c # ds" "is_digit c" using show_nat_first by blast
  then have "dropWhile number_char (ds @ t) = t"
    using dropWhile_number [OF _ assms] show_nat_digits [of "nat i"] by simp
  then show ?thesis
    using False ds digit_not_special [OF ds(2)]
    by (simp add: show_int_def readToken_def getNextChar_def scan_token_def token_of_def)
qed

lemma skipComment_tokens [simp]: "fst (fst (readToken s)) \<noteq> TComment \<Longrightarrow> skipCommentTokens s = readToken s"
  "fst (fst r) \<noteq> TComment \<Longrightarrow> skip_comments r = r"
  by (simp_all add: skipCommentTokens_def skip_comments.simps)

lemma readToken_words [simp]:
  "readToken (''null'' @ t) = ((TNull, ''null''), t)" "readToken (''true'' @ t) = ((TTrue, ''true''), t)"
  "readToken (''false'' @ t) = ((TFalse, ''false''), t)"
  by (simp_all add: readToken_def json_space_def getNextChar_def scan_token_def token_of_def is_digit_def match_text_def)

lemma readValue_leaf:
  assumes "clean_leaf v" and "ends_number t"
  shows "readValue L (Suc n) (leaf_text v @ t) = Good v t"
proof (cases v)
  case (JInt i)
  then show ?thesis using assms by (simp add: leaf_text_def valueToString_def readToken_int decodeNumber_int)
next
  case (JUInt i)
  then show ?thesis using assms by (simp add: leaf_text_def valueToString_def readToken_int decodeNumber_uint)
next
  case (JStr s)
  then show ?thesis using assms by (simp add: leaf_text_def readToken_string decodeString_quoted)
next
  case (JBool b)
  show ?thesis
    using readToken_words(2,3) [of t] JBool by (cases b) (simp_all add: leaf_text_def del: readToken_words)
next
  case JNull
  show ?thesis
    using readToken_words(1) [of t] JNull by (simp add: leaf_text_def del: readToken_words)
qed (use assms in simp_all)


lemma ends_number_punct [simp]: "ends_number []" "ends_number (CHR '','' # t)" "ends_number (CHR '']'' # t)"
  "ends_number (CHR ''}'' # t)" "ends_number (CHR 0x0A # t)"
  by (simp_all add: ends_number_def number_char_def is_digit_def)

lemma ends_number_spaces [simp]: "spaces ws \<Longrightarrow> ends_number t \<Longrightarrow> ends_number (ws @ t)"
  by (cases ws) (auto simp: spaces_def ends_number_def json_space_def number_char_def is_digit_def)

lemma skipCommentTokens_space [simp]: "json_space c \<Longrightarrow> skipCommentTokens (c # t) = skipCommentTokens t"
  "spaces ws \<Longrightarrow> skipCommentTokens (ws @ t) = skipCommentTokens t"
  by (simp_all add: skipCommentTokens_def)

lemma readValue_space [simp]: "json_space c \<Longrightarrow> readValue L n (c # t) = readValue L n t"
  by (cases n) simp_all

text \<open>The first character of a value is never the bracket that ends an array.\<close>

lemma int_not_bracket: "peek (skipSpaces (show_int i @ t)) \<noteq> CHR '']''"
proof (cases "i < 0")
  case False
  obtain c ds where ds: "show_nat (nat i) = c # ds" "is_digit c" using show_nat_first by blast
  then show ?thesis
    using False digit_not_special [OF ds(2)] by (simp add: show_int_def peek_def getNextChar_def)
qed (simp add: show_int_def peek_def getNextChar_def json_space_def)

lemma leaf_not_bracket: "clean_leaf v \<Longrightarrow> peek (skipSpaces (leaf_text v @ t)) \<noteq> CHR '']''"
proof (cases v)
  case (JBool b)
  then show ?thesis by (cases b) (simp_all add: leaf_text_def peek_def getNextChar_def json_space_def)
next
  case (JStr s)
  then show ?thesis
    by (simp add: leaf_text_def peek_def getNextChar_def json_space_def valueToQuotedString_eq quoted_spec_def)
qed (simp_all add: leaf_text_def valueToString_def int_not_bracket, simp_all add: peek_def getNextChar_def json_space_def)

lemma spells_not_bracket: "spells v s \<Longrightarrow> peek (skipSpaces (s @ t)) \<noteq> CHR '']''"
  and spells_elems_not_bracket: "spells_elems vs s \<Longrightarrow> peek (skipSpaces (s @ t)) \<noteq> CHR '']''"
  and "spells_members m s \<Longrightarrow> True"
proof (induction arbitrary: t and t rule: spells_spells_elems_spells_members.inducts)
  case (leaf v)
  then show ?case by (rule leaf_not_bracket)
qed (simp_all add: peek_def getNextChar_def json_space_def)


section \<open>The reader reads every spelling\<close>

definition reads :: "json read \<Rightarrow> json \<Rightarrow> string \<Rightarrow> bool" where
  "reads r v t \<longleftrightarrow> r = OutOfFuel \<or> r = Good v t"

lemma reader_reads_value: "spells v s \<Longrightarrow> ends_number t \<Longrightarrow> reads (readValue L n (s @ t)) v t"
  and reader_reads_elems: "spells_elems vs s \<Longrightarrow> spaces ws \<Longrightarrow> reads (readArray L n acc (s @ ws @ CHR '']'' # t)) (JArr (acc @ vs)) t"
  and reader_reads_members: "spells_members m s \<Longrightarrow> spaces ws \<Longrightarrow> obj_sorted (accm @ m) \<Longrightarrow>
    reads (readObject L n name accm (s @ ws @ CHR ''}'' # t)) (JObj (accm @ m)) t"
proof (induction arbitrary: n t and n t ws acc and n t ws accm name rule: spells_spells_elems_spells_members.inducts)
  case (leaf v)
  then show ?case by (cases n) (simp_all add: reads_def readValue_leaf del: readValue.simps(2))
next
  case (space v s c)
  then show ?case by simp
next
  case (arr_empty ws)
  then show ?case by (cases n) (simp_all add: reads_def peek_def getNextChar_def json_space_def)
next
  case (arr xs s ws)
  then show ?case
    using spells_elems_not_bracket [OF arr(1)] arr.IH [where acc = "[]"] by (cases n) (simp_all add: reads_def)
next
  case (obj_empty ws)
  then show ?case by (cases n; cases "n - 1") (simp_all add: reads_def)
next
  case (obj m s ws)
  then show ?case using obj.IH [where accm = "[]"] by (cases n) (simp_all add: reads_def)
next
  case (elem v s)
  show ?case
  proof (cases n)
    case (Suc k)
    have "reads (readValue L k (s @ ws @ CHR '']'' # t)) v (ws @ CHR '']'' # t)" using elem by simp
    then show ?thesis using Suc elem.prems by (auto simp: reads_def)
  qed (simp add: reads_def)
next
  case (elems v s ws' vs u)
  show ?case
  proof (cases n)
    case (Suc k)
    have "reads (readValue L k (s @ ws' @ CHR '','' # u @ ws @ CHR '']'' # t)) v (ws' @ CHR '','' # u @ ws @ CHR '']'' # t)"
      using elems by simp
    moreover have "reads (readArray L k (acc @ [v]) (u @ ws @ CHR '']'' # t)) (JArr (acc @ v # vs)) t"
      using elems.IH(2) [OF elems.prems, where acc = "acc @ [v]"] by simp
    ultimately show ?thesis using Suc elems.hyps elems.prems by (auto simp: reads_def)
  qed (simp add: reads_def)
next
  case (member k ws1 ws2 v s)
  show ?case
  proof (cases n)
    case (Suc i)
    have "reads (readValue L i (s @ ws @ CHR ''}'' # t)) v (ws @ CHR ''}'' # t)" using member by simp
    then show ?thesis
      using Suc member.hyps member.prems obj_update_last [of accm k v "[]"]
      by (auto simp: reads_def readToken_string decodeString_quoted)
  qed (simp add: reads_def)
next
  case (members k ws1 ws2 v s ws3 m u)
  show ?case
  proof (cases n)
    case (Suc i)
    have "reads (readValue L i (s @ ws3 @ CHR '','' # u @ ws @ CHR ''}'' # t)) v (ws3 @ CHR '','' # u @ ws @ CHR ''}'' # t)"
      using members by simp
    moreover have "reads (readObject L i k (accm @ [(k, v)]) (u @ ws @ CHR ''}'' # t)) (JObj (accm @ (k, v) # m)) t"
      using members.IH(2) [OF members.prems(1), where accm = "accm @ [(k, v)]"] members.prems by simp
    ultimately show ?thesis
      using Suc members.hyps members.prems obj_update_last [of accm k v m]
      by (auto simp: reads_def readToken_string decodeString_quoted)
  qed (simp add: reads_def)
qed


section \<open>The writers write spellings\<close>

text \<open>The values the grammar covers.\<close>

inductive json_clean :: "json \<Rightarrow> bool" where
  clean_leaf: "clean_leaf v \<Longrightarrow> json_clean v"
| clean_arr: "\<forall>x \<in> set xs. json_clean x \<Longrightarrow> json_clean (JArr xs)"
| clean_obj: "obj_sorted m \<Longrightarrow> \<forall>p \<in> set m. nul_free (fst p) \<and> json_clean (snd p) \<Longrightarrow> json_clean (JObj m)"

inductive_simps json_clean_simps [simp]:
  "json_clean JNull" "json_clean (JInt i)" "json_clean (JUInt i)" "json_clean (JReal t j)" "json_clean (JStr s)"
  "json_clean (JBool b)" "json_clean (JArr xs)" "json_clean (JObj m)"

lemma spaces_simps [simp]: "spaces []" "spaces (c # s) \<longleftrightarrow> json_space c \<and> spaces s" "spaces (s @ t) \<longleftrightarrow> spaces s \<and> spaces t"
  "json_space CHR '' ''" "json_space CHR 0x0A"
  by (simp_all add: spaces_def json_space_def)

lemmas spells_tight =
  arr_empty [where ws = "[]", simplified] arr [where ws = "[]", simplified] obj_empty [where ws = "[]", simplified]
  obj [where ws = "[]", simplified] elem elems [where ws = "[]", simplified]
  member [where ws = "[]" and ws' = "[]", simplified]
  members [where ws = "[]" and ws' = "[]" and ws'' = "[]", simplified]

lemma obj_sorted_Cons: "obj_sorted (p # m) \<Longrightarrow> obj_sorted m"
  by (simp add: obj_sorted_def)

lemma fast_spells:
  "json_clean v \<Longrightarrow> spells v (fast_value v)"
  "\<forall>x \<in> set xs. json_clean x \<Longrightarrow> xs \<noteq> [] \<Longrightarrow> spells_elems xs (fast_elems xs)"
  "\<forall>p \<in> set m. nul_free (fst p) \<and> json_clean (snd p) \<Longrightarrow> m \<noteq> [] \<Longrightarrow> spells_members m (fast_members m)"
proof (induction v and xs and m rule: fast_value_fast_elems_fast_members.induct)
  case (1 xs)
  then show ?case by (cases "xs = []") (auto intro: spells_tight)
next
  case (2 m)
  then show ?case by (cases "m = []") (auto intro: spells_tight)
qed (auto intro: spells_tight spells_spells_elems_spells_members.leaf)

text \<open>Indentation is a matter of spaces.\<close>

lemma writeIndent_spaces: "spaces ind \<Longrightarrow> \<exists>ws. writeIndent doc ind = doc @ ws \<and> spaces ws"
  by (auto simp: writeIndent_def)

lemma spells_spaces: "spells v s \<Longrightarrow> spaces ws \<Longrightarrow> spells v (ws @ s)"
  by (induction ws) (auto intro: space)

lemma spells_elems_space: "spells_elems vs s \<Longrightarrow> json_space c \<Longrightarrow> spells_elems vs (c # s)"
  by (erule spells_elems.cases) (auto intro: spells_spells_elems_spells_members.space elem elems [where s = "c # s" for s, simplified])

lemma leaf_spells: "clean_leaf v \<Longrightarrow> leaf_text v = s \<Longrightarrow> spells v s"
  using spells_spells_elems_spells_members.leaf by blast

lemma child_spells:
  assumes "json_clean v" and "\<not> is_nonempty_container v"
  shows "spells v (child_text v)"
proof (cases "clean_leaf v")
  case True
  then show ?thesis by (intro leaf_spells) (cases v; simp add: child_text_def)+
next
  case False
  then show ?thesis using assms by (cases v) (auto simp: child_text_def is_nonempty_container_def intro: spells_tight)
qed

lemma comma_join_spells:
  "\<forall>x \<in> set xs. json_clean x \<and> \<not> is_nonempty_container x \<Longrightarrow> xs \<noteq> [] \<Longrightarrow>
   spells_elems xs (comma_join (map child_text xs))"
proof (induction xs rule: induct_list012)
  case (3 x y xs)
  then have "spells_elems (y # xs) (CHR '' '' # comma_join (map child_text (y # xs)))"
    by (intro spells_elems_space) simp_all
  then have "spells_elems (x # y # xs) (child_text x @ [] @ '','' @ CHR '' '' # comma_join (map child_text (y # xs)))"
    using 3 by (intro elems child_spells) simp_all
  then show ?case by simp
qed (auto intro: elem child_spells)

lemma styled_spells:
  "json_clean v \<Longrightarrow> spaces ind \<Longrightarrow> \<exists>s. styled_value doc ind v = doc @ s \<and> spells v s"
  "\<forall>x \<in> set xs. json_clean x \<and> (has \<longrightarrow> \<not> is_nonempty_container x) \<Longrightarrow> xs \<noteq> [] \<Longrightarrow> spaces ind \<Longrightarrow>
   \<exists>s. styled_elems has doc ind xs = doc @ s \<and> spells_elems xs s"
  "\<forall>p \<in> set m. nul_free (fst p) \<and> json_clean (snd p) \<Longrightarrow> m \<noteq> [] \<Longrightarrow> spaces ind \<Longrightarrow>
   \<exists>s. styled_members doc ind m = doc @ s \<and> spells_members m s"
proof (induction doc ind v and has doc ind xs and doc ind m rule: styled_value_styled_elems_styled_members.induct)
  case (1 doc ind m)
  show ?case
  proof (cases "m = []")
    case True
    then show ?thesis by (auto intro: spells_tight)
  next
    case False
    obtain ws where ws: "writeIndent doc ind = doc @ ws" "spaces ws" using writeIndent_spaces 1(3) by blast
    obtain s where s: "styled_members (writeIndent doc ind @ ''{'') (ind @ ''   '') m = (writeIndent doc ind @ ''{'') @ s"
        "spells_members m s"
      using 1 False by auto
    obtain ws' where ws': "writeIndent (styled_members (writeIndent doc ind @ ''{'') (ind @ ''   '') m) ind =
        styled_members (writeIndent doc ind @ ''{'') (ind @ ''   '') m @ ws'" "spaces ws'"
      using writeIndent_spaces 1(3) by blast
    have "spells (JObj m) (ws @ ''{'' @ s @ ws' @ ''}'')"
      using obj [OF s(2) ws'(2)] spells_spaces ws(2) 1(2) by simp
    then show ?thesis using False ws s ws' by auto
  qed
next
  case (2 doc ind xs)
  show ?case
  proof (cases "xs = [] \<or> \<not> isMultineArray xs")
    case True
    show ?thesis
    proof (cases "xs = []")
      case False
      with True have single: "\<not> isMultineArray xs" by simp
      then have "\<forall>x \<in> set xs. json_clean x \<and> \<not> is_nonempty_container x"
        using 2(2) by (auto simp: isMultineArray_def array_has_child_values_def list_ex_iff)
      then have "spells (JArr xs) (''['' @ (CHR '' '' # comma_join (map child_text xs)) @ '' '' @ '']'')"
        using False by (intro arr spells_elems_space comma_join_spells) simp_all
      then show ?thesis using False single by simp
    qed (auto intro: spells_tight)
  next
    case False
    obtain ws where ws: "writeIndent doc ind = doc @ ws" "spaces ws" using writeIndent_spaces 2(3) by blast
    have "\<forall>x \<in> set xs. json_clean x \<and> (array_has_child_values xs \<longrightarrow> \<not> is_nonempty_container x)"
      using 2(2) by (auto simp: array_has_child_values_def list_ex_iff)
    then obtain s where s: "styled_elems (array_has_child_values xs) (writeIndent doc ind @ ''['') (ind @ ''   '') xs =
        (writeIndent doc ind @ ''['') @ s" "spells_elems xs s"
      using 2 False by auto
    obtain ws' where ws': "writeIndent (styled_elems (array_has_child_values xs) (writeIndent doc ind @ ''['') (ind @ ''   '') xs) ind =
        styled_elems (array_has_child_values xs) (writeIndent doc ind @ ''['') (ind @ ''   '') xs @ ws'" "spaces ws'"
      using writeIndent_spaces 2(3) by blast
    have "spells (JArr xs) (ws @ ''['' @ s @ ws' @ '']'')"
      using arr [OF s(2) ws'(2)] spells_spaces ws(2) by simp
    then show ?thesis using False ws s ws' by auto
  qed
next
  case (5 has doc ind x xs)
  obtain ws where ws: "writeIndent doc ind = doc @ ws" "spaces ws" using writeIndent_spaces 5(5) by blast
  let ?doc1 = "if has then writeIndent doc ind @ child_text x else styled_value (writeIndent doc ind) ind x"
  have "\<exists>s. ?doc1 = writeIndent doc ind @ s \<and> spells x s"
    using 5(1,3,5) child_spells by (cases has) auto
  then obtain s where s: "?doc1 = writeIndent doc ind @ s" "spells x (ws @ s)" using spells_spaces ws(2) by blast
  show ?case
  proof (cases "xs = []")
    case True
    then show ?thesis using s ws by (auto simp: Let_def intro: elem)
  next
    case False
    then obtain t where t: "styled_elems has (?doc1 @ '','') ind xs = (?doc1 @ '','') @ t" "spells_elems xs t"
      using 5(2) [OF refl False] 5(3,5) by auto
    have "styled_elems has doc ind (x # xs) = doc @ (ws @ s) @ '','' @ t"
      using False t(1) s(1) ws(1) by (simp add: Let_def)
    then show ?thesis using spells_tight(6) [OF s(2) t(2)] by auto
  qed
next
  case (7 doc ind k x m)
  obtain ws where ws: "writeIndent doc ind = doc @ ws" "spaces ws" using writeIndent_spaces 7(5) by blast
  let ?doc0 = "writeIndent doc ind @ valueToQuotedString k @ '' : ''"
  obtain s where s: "styled_value ?doc0 ind x = ?doc0 @ s" "spells x s" using 7(1,3,5) by auto
  have s': "spells x (CHR '' '' # s)" using s(2) by (auto intro: space)
  show ?case
  proof (cases "m = []")
    case True
    have "spells_members [(k, x)] (ws @ valueToQuotedString k @ '' '' @ '':'' @ CHR '' '' # s)"
      using 7(3) s' ws(2) by (intro member) simp_all
    then show ?thesis using True s ws by auto
  next
    case False
    then obtain t where t: "styled_members (styled_value ?doc0 ind x @ '','') ind m = (styled_value ?doc0 ind x @ '','') @ t"
        "spells_members m t"
      using 7(2) [OF refl False] 7(3,5) by auto
    have "spells_members ((k, x) # m) (ws @ valueToQuotedString k @ '' '' @ '':'' @ (CHR '' '' # s) @ [] @ '','' @ t)"
      using 7(3) s' ws(2) t(2) by (intro members) simp_all
    then show ?thesis using False s ws t by (auto simp: Let_def)
  qed
qed (auto intro: leaf_spells)


section \<open>Round trips\<close>

text \<open>
  C25. The parser terminates: on any document and with any conversion of floating point literals it
  comes back with a value or an error within the fuel of one more than twice the length of the
  document, and more fuel is never missing either; the state of the server is left alone.
\<close>

theorem Reader_parse_returns:
  "(\<exists>r. run E (Reader_parse doc) s w = (Done r, s, w)) \<and> readValue L (reader_fuel doc + k) doc \<noteq> OutOfFuel"
  using reader_fuel_enough [of doc "reader_fuel doc + k"] by (simp add: reader_fuel_def)

text \<open>The parser reads every spelling of a value, with spaces wherever JSON allows them.\<close>

lemma run_Reader_parse_spells:
  assumes "spells v doc" and "ends_number t"
  shows "run E (Reader_parse (doc @ t)) s w = (Done (Some v), s, w)"
  using reader_reads_value [OF assms, of "env_libc E" "reader_fuel (doc @ t)"] reader_total [of "env_libc E" "doc @ t"]
  by (simp add: reads_def)

text \<open>
  C11. The parser implements the grammar: any text that spells a value according to it, with spaces,
  tabs and line ends wherever JSON allows them and numbers, strings and escapes as the writers put
  them, is parsed to exactly this value.
\<close>

theorem Reader_parse_refines_grammar:
  assumes "spells v doc" and "spaces ws"
  shows "run E (Reader_parse (doc @ ws)) s w = (Done (Some v), s, w)"
  using run_Reader_parse_spells [OF assms(1), of ws] assms(2) ends_number_spaces [OF assms(2) ends_number_punct(1)] by simp

text \<open>
  C24. Round trip of the compact writer: a value without doubles, whose numbers are of the types the
  reader gives them and whose strings have no NUL byte, is read back from the text FastWriter writes.
\<close>

theorem Reader_parse_FastWriter:
  assumes "json_clean v"
  shows "run E (Reader_parse (FastWriter_write v)) s w = (Done (Some v), s, w)"
  unfolding FastWriter_write_def
  by (rule run_Reader_parse_spells) (use assms fast_spells(1) in auto)

text \<open>
  C23. The same round trip for the indented text of StyledWriter, whatever it decides about breaking
  its arrays into lines; so both writers give texts of the same value.
\<close>

theorem Reader_parse_toStyledString:
  assumes "json_clean v"
  shows "run E (Reader_parse (toStyledString v)) s w = (Done (Some v), s, w)"
proof -
  obtain t where "styled_value [] [] v = t" "spells v t"
    using styled_spells(1) [OF assms, of "[]" "[]"] by auto
  then show ?thesis
    unfolding toStyledString_def by (intro run_Reader_parse_spells) auto
qed

text \<open>
  Quoting loses nothing: the decoder of string tokens gives back the C string that was quoted,
  control characters, quotes and backslashes included.
\<close>

lemma decodeString_valueToQuotedString: "decodeString (valueToQuotedString s) = Some (c_str s)"
proof -
  have "valueToQuotedString s = valueToQuotedString (c_str s)" by (simp add: valueToQuotedString_def)
  then show ?thesis using decodeString_quoted [of "c_str s"] by simp
qed

text \<open>A listing of one file with a count, a flag and a nested list.\<close>

definition listing_value :: json where
  "listing_value =
     JObj [(''count'', JUInt 3000000000), (''files'', JArr [JObj [(''name'', JStr ''a b'')], JArr [], JNull]),
           (''shared'', JBool True)]"

lemma listing_clean: "json_clean listing_value"
  by (simp add: listing_value_def obj_sorted_def NUL_def)

theorem Reader_parse_refines_grammar_witness:
  "\<forall>(E :: unit env) (s :: nat) w. run E (Reader_parse ('' '' @ fast_value listing_value @ ''  '')) s w = (Done (Some listing_value), s, w)"
proof (intro allI)
  fix E :: "unit env" and s :: nat and w
  have "spells listing_value ('' '' @ fast_value listing_value)"
    using fast_spells(1) [OF listing_clean] by (simp add: space)
  from Reader_parse_refines_grammar [OF this, of "''  ''" E s w]
  show "run E (Reader_parse ('' '' @ fast_value listing_value @ ''  '')) s w = (Done (Some listing_value), s, w)"
    by (simp add: append_assoc)
qed

theorem Reader_parse_FastWriter_witness:
  "\<forall>(E :: unit env) (s :: nat) w. run E (Reader_parse (FastWriter_write listing_value)) s w = (Done (Some listing_value), s, w)"
  by (intro allI Reader_parse_FastWriter [OF listing_clean])

theorem Reader_parse_toStyledString_witness:
  "\<forall>(E :: unit env) (s :: nat) w. run E (Reader_parse (toStyledString listing_value)) s w = (Done (Some listing_value), s, w)"
  by (intro allI Reader_parse_toStyledString [OF listing_clean])

end
