(* ===== verification/Util.thy ===== *)
theory Util
  imports Server_State
begin

text \<open>
  base/util.cc: splitting and replacing in strings, the URL encoding, the search in memory, and the
  reference count of shared objects. A char pointer is its C string; a uint32_t or size_t is a nat,
  with u32 where it may wrap.
\<close>

section \<open>CStrExplode\<close>

definition count_char :: "char \<Rightarrow> string \<Rightarrow> nat" where
  "count_char c s = length (filter (\<lambda>d. d = c) s)"

text \<open>
  The second loop: the item collected since start and the items it fills. A separator right at the
  start of an item does not end it, and an empty rest fills no item.
\<close>

fun explode_items :: "char \<Rightarrow> string \<Rightarrow> string \<Rightarrow> string list" where
  "explode_items sep cur [] = (if cur = [] then [] else [cur])"
| "explode_items sep cur (c # s) =
     (if cur \<noteq> [] \<and> c = sep then cur # explode_items sep [] s else explode_items sep (cur @ [c]) s)"

text \<open>item_list_ has item_cnt_ entries, of which those behind the filled ones are not initialised (None).\<close>

record str_explode =
  item_cnt :: nat
  item_list :: "string option list"

definition new_CStrExplode :: "string \<Rightarrow> char \<Rightarrow> str_explode" where
  "new_CStrExplode str sep =
     (let s = c_str str; n = Suc (count_char sep s); items = explode_items sep [] s
      in \<lparr>item_cnt = n, item_list = map Some items @ replicate (n - length items) None\<rparr>)"

fun join_with :: "char \<Rightarrow> string list \<Rightarrow> string" where
  "join_with sep [] = []"
| "join_with sep [x] = x"
| "join_with sep (x # y # xs) = x @ [sep] @ join_with sep (y # xs)"

lemma join_with_Cons: "xs \<noteq> [] \<Longrightarrow> join_with sep (x # xs) = x @ [sep] @ join_with sep xs"
  by (cases xs) simp_all

lemma explode_items_count: "length (explode_items sep cur s) \<le> Suc (count_char sep s)"
  by (induction sep cur s rule: explode_items.induct) (auto simp: count_char_def)

lemma explode_items_Nil: "explode_items sep cur s = [] \<longleftrightarrow> cur = [] \<and> s = []"
  by (induction sep cur s rule: explode_items.induct) auto

lemma explode_join:
  "join_with sep (explode_items sep cur s) = cur @ s \<or> join_with sep (explode_items sep cur s) @ [sep] = cur @ s"
proof (induction sep cur s rule: explode_items.induct)
  case (2 sep cur c s)
  show ?case
  proof (cases "cur \<noteq> [] \<and> c = sep")
    case True
    then show ?thesis
      using 2(1) by (cases "s = []") (auto simp: join_with_Cons explode_items_Nil)
  qed (use 2 in auto)
qed simp

text \<open>
  Splitting loses no text: the items, joined by the separator again, are the string, up to one
  separator at its end. There are at most item_cnt_ items, so every write into item_list_ is within it.
\<close>

lemma CStrExplode_joins:
  "\<exists>items rest. item_list (new_CStrExplode str sep) = map Some items @ replicate rest None \<and>
     length items + rest = item_cnt (new_CStrExplode str sep) \<and>
     (join_with sep items = c_str str \<or> join_with sep items @ [sep] = c_str str)"
  using explode_join [of sep "[]" "c_str str"] explode_items_count [of sep "[]" "c_str str"]
  by (auto simp: new_CStrExplode_def Let_def intro!: exI [of _ "explode_items sep [] (c_str str)"])

lemma count_char_simps [simp]: "count_char c [] = 0" "count_char c (d # s) = (if d = c then 1 else 0) + count_char c s"
  "count_char c (s @ t) = count_char c s + count_char c t"
  by (simp_all add: count_char_def)

lemma count_char_0: "c \<notin> set s \<Longrightarrow> count_char c s = 0"
  by (induction s) auto

lemma explode_word: "sep \<notin> set x \<Longrightarrow> explode_items sep cur (x @ s) = explode_items sep (cur @ x) s"
  by (induction x arbitrary: cur) auto

lemma explode_items_join:
  "names \<noteq> [] \<Longrightarrow> \<forall>x \<in> set names. x \<noteq> [] \<and> sep \<notin> set x \<Longrightarrow>
   explode_items sep [] (join_with sep names) = names \<and> Suc (count_char sep (join_with sep names)) = length names"
proof (induction names rule: induct_list012)
  case (2 x)
  then show ?case using explode_word [of sep x "[]" "[]"] by (simp add: count_char_0)
next
  case (3 x y xs)
  then show ?case
    using explode_word [of sep x "[]" "sep # join_with sep (y # xs)"] by (simp add: count_char_0)
qed simp

lemma nul_free_join: "sep \<noteq> NUL \<Longrightarrow> \<forall>x \<in> set names. nul_free x \<Longrightarrow> nul_free (join_with sep names)"
  by (induction names rule: induct_list012) auto

text \<open>
  A list of names, none of them empty or with the separator in it, is split into exactly these
  names and no entry is left uninitialised.
\<close>

lemma CStrExplode_names:
  assumes "names \<noteq> []" and "\<forall>x \<in> set names. x \<noteq> [] \<and> sep \<notin> set x \<and> nul_free x" and "sep \<noteq> NUL"
  shows "new_CStrExplode (join_with sep names) sep = \<lparr>item_cnt = length names, item_list = map Some names\<rparr>"
  using explode_items_join [of names sep] nul_free_join [of sep names] assms
  by (simp add: new_CStrExplode_def)

lemma CStrExplode_names_witness:
  "new_CStrExplode ''token,ranking'' (CHR '','') = \<lparr>item_cnt = 2, item_list = [Some ''token'', Some ''ranking'']\<rparr>"
  using CStrExplode_names [of "[''token'', ''ranking'']" "CHR '',''"] by (simp add: NUL_def)

text \<open>
  An empty field is glued to the field behind it, separator included, and leaves an uninitialised
  pointer that the destructor deletes.
\<close>

lemma CStrExplode_empty_field:
  "new_CStrExplode ''a,,b'' (CHR '','') = \<lparr>item_cnt = 3, item_list = [Some ''a'', Some '',b'', None]\<rparr>"
  by (simp add: new_CStrExplode_def c_str_def NUL_def)

section \<open>Replacing\<close>

definition ReplaceStr :: "string \<Rightarrow> char \<Rightarrow> char \<Rightarrow> string" where
  "ReplaceStr src old_char new_char = map (\<lambda>c. if c = old_char then new_char else c) (c_str src)"

definition Int2String :: "nat \<Rightarrow> string" where
  "Int2String user_id = show_nat (u32 user_id)"

definition String2Int :: "string \<Rightarrow> nat" where
  "String2Int s = nat (atoi (c_str s) mod 2 ^ 32)"

text \<open>str.find('?', begin_pos), then the replacement of that one character.\<close>

fun find_from :: "char \<Rightarrow> string \<Rightarrow> nat \<Rightarrow> nat option" where
  "find_from c [] n = None"
| "find_from c (d # s) 0 = (if d = c then Some 0 else map_option Suc (find_from c s 0))"
| "find_from c (d # s) (Suc n) = map_option Suc (find_from c s n)"

definition replace_mark :: "string \<Rightarrow> string \<times> nat \<Rightarrow> string \<times> nat" where
  "replace_mark v p =
     (case p of (str, begin_pos) \<Rightarrow>
        (case find_from (CHR ''?'') str begin_pos of
           None \<Rightarrow> (str, begin_pos)
         | Some pos \<Rightarrow> (take pos str @ v @ drop (Suc pos) str, u32 (pos + length v))))"

definition ReplaceMark :: "string \<Rightarrow> string \<times> nat \<Rightarrow> string \<times> nat" where
  "ReplaceMark new_value = replace_mark ([CHR 0x27] @ new_value @ [CHR 0x27])"

definition ReplaceMark_int :: "nat \<Rightarrow> string \<times> nat \<Rightarrow> string \<times> nat" where
  "ReplaceMark_int new_value = replace_mark (show_nat (u32 new_value))"

lemma find_from_append: "length s = n \<Longrightarrow> find_from c (s @ t) n = map_option (\<lambda>i. n + i) (find_from c t 0)"
  by (induction s arbitrary: n) (auto simp: option.map_comp o_def map_option_case split: option.split)

lemma find_from_first: "c \<notin> set s \<Longrightarrow> find_from c (s @ c # t) 0 = Some (length s)"
  by (induction s) auto

lemma replace_mark_step:
  assumes "length pre + length p + length v < 2 ^ 32" and "CHR ''?'' \<notin> set p"
  shows "replace_mark v (pre @ p @ CHR ''?'' # t, length pre) = ((pre @ p @ v) @ t, length (pre @ p @ v))"
  using assms by (simp add: replace_mark_def find_from_append find_from_first)

text \<open>A template is its texts between the marks; filled puts the values where the marks were.\<close>

fun template :: "string list \<Rightarrow> string \<Rightarrow> string" where
  "template [] z = z"
| "template (p # ps) z = p @ CHR ''?'' # template ps z"

fun filled :: "string list \<Rightarrow> string list \<Rightarrow> string" where
  "filled (p # ps) (v # vs) = p @ [CHR 0x27] @ v @ [CHR 0x27] @ filled ps vs"
| "filled ps vs = []"

lemma ReplaceMark_fold:
  assumes "length vs = length ps" and "\<forall>p \<in> set ps. CHR ''?'' \<notin> set p"
    and "length pre + length (filled ps vs) < 2 ^ 32"
  shows "fold ReplaceMark vs (pre @ template ps z, length pre) =
    (pre @ filled ps vs @ z, length pre + length (filled ps vs))"
  using assms
proof (induction vs ps arbitrary: pre rule: list_induct2)
  case (Cons v vs p ps)
  have "ReplaceMark v (pre @ p @ CHR ''?'' # template ps z, length pre) =
      ((pre @ p @ [CHR 0x27] @ v @ [CHR 0x27]) @ template ps z, length (pre @ p @ [CHR 0x27] @ v @ [CHR 0x27]))"
    unfolding ReplaceMark_def using Cons.prems by (subst replace_mark_step) simp_all
  then show ?case
    using Cons.IH [of "pre @ p @ [CHR 0x27] @ v @ [CHR 0x27]"] Cons.prems by simp
qed simp

text \<open>
  The marks of a statement are replaced in order, each by the quoted value: since every call
  goes on behind the text the one before put in, a question mark in a value is never replaced.
\<close>

lemma ReplaceMark_fills:
  assumes "length vs = length ps" and "\<forall>p \<in> set ps. CHR ''?'' \<notin> set p" and "length (filled ps vs) < 2 ^ 32"
  shows "fst (fold ReplaceMark vs (template ps z, 0)) = filled ps vs @ z"
  using ReplaceMark_fold [of vs ps "[]" z] assms by simp

lemma ReplaceMark_fills_witness:
  "fst (fold ReplaceMark [''why?'', ''b''] (''x=? and y=?;'', 0)) = ''x='' @ [CHR 0x27] @ ''why?'' @ [CHR 0x27] @
     '' and y='' @ [CHR 0x27] @ ''b'' @ [CHR 0x27] @ '';''"
  using ReplaceMark_fills [of "[''why?'', ''b'']" "[''x='', '' and y='']" "'';''"] by simp

section \<open>URL encoding\<close>

definition ToHex :: "nat \<Rightarrow> nat" where
  "ToHex x = (if 9 < x then (x - 10 + 65) mod 256 else (x + 48) mod 256)"

definition FromHex :: "nat \<Rightarrow> nat" where
  "FromHex x = (if 48 \<le> x \<and> x \<le> 57 then x - 48 else nat ((int x - 65 + 10) mod 256))"

definition isalnum :: "char \<Rightarrow> bool" where
  "isalnum c \<longleftrightarrow> is_digit c \<or> (65 \<le> (of_char c :: nat) \<and> (of_char c :: nat) \<le> 90) \<or> (97 \<le> (of_char c :: nat) \<and> (of_char c :: nat) \<le> 122)"

definition url_char :: "char \<Rightarrow> string" where
  "url_char c =
     (if isalnum c then [c]
      else [CHR ''%'', char_of (ToHex (of_char c div 16)), char_of (ToHex (of_char c mod 16))])"

definition URLEncode :: "string \<Rightarrow> string" where
  "URLEncode inp = concat (map url_char inp)"

text \<open>
  in[ix + 1] and in[ix + 2] read the terminating NUL when ix + 1 is the length, and outside of the
  string (None) when they are beyond it.
\<close>

fun URLDecode :: "string \<Rightarrow> string option" where
  "URLDecode [] = Some []"
| "URLDecode (c # s) =
     (if c = CHR ''%'' then
        (case s of
           a # b # t \<Rightarrow>
             map_option (\<lambda>r. char_of (or (FromHex (of_char a) * 16 mod 256) (FromHex (of_char b))) # r) (URLDecode t)
         | [a] \<Rightarrow> Some [char_of (or (FromHex (of_char a) * 16 mod 256) (FromHex 0))]
         | [] \<Rightarrow> None)
      else if c = CHR ''+'' then map_option (\<lambda>r. CHR '' '' # r) (URLDecode s)
      else map_option (\<lambda>r. c # r) (URLDecode s))"

lemma or_nibbles: "h < 16 \<Longrightarrow> l < 16 \<Longrightarrow> or (h * 16) l = h * 16 + (l :: nat)"
proof -
  assume "h < 16" "l < 16"
  then have "push_bit 4 h = h * 16" "take_bit 4 l = l" by (simp_all add: push_bit_eq_mult take_bit_nat_eq_self)
  moreover have "and (push_bit 4 h) (take_bit 4 l) = 0"
    by (rule bit_eqI) (auto simp: bit_simps)
  ultimately show ?thesis using disjunctive_add_eq_or [of "push_bit 4 h" "take_bit 4 l"] by simp
qed

lemma FromHex_ToHex: "d < 16 \<Longrightarrow> FromHex (ToHex d) = d"
  by (auto simp: FromHex_def ToHex_def)

lemma ToHex_byte: "d < 16 \<Longrightarrow> ToHex d < 256"
  by (auto simp: ToHex_def)

lemma isalnum_plain: "isalnum c \<Longrightarrow> c \<noteq> CHR ''%'' \<and> c \<noteq> CHR ''+''"
  by (auto simp: isalnum_def is_digit_def)

text \<open>
  C39. URL encoding loses nothing: every string of bytes is decoded to itself, the characters +, %
  and NUL and the bytes above 127 included, and the decoder never reads beyond the encoded text.
\<close>

theorem URLDecode_URLEncode: "URLDecode (URLEncode s) = Some s"
proof (induction s)
  case (Cons c s)
  show ?case
  proof (cases "isalnum c")
    case True
    then show ?thesis using Cons isalnum_plain by (simp add: URLEncode_def url_char_def)
  next
    case False
    have lt: "of_char c div 16 < (16 :: nat)" "of_char c mod 16 < (16 :: nat)"
      using nat_of_char_less_256 [of c] by (simp_all add: less_mult_imp_div_less)
    have "char_of (or (of_char c div 16 * 16 mod 256) (of_char c mod 16) :: nat) = c"
    proof -
      have "of_char c div 16 * 16 mod 256 = (of_char c div 16 * 16 :: nat)" using lt(1) by simp
      then show ?thesis using or_nibbles [OF lt] by (simp add: div_mult_mod_eq)
    qed
    then show ?thesis
      using Cons False lt by (simp add: URLEncode_def url_char_def FromHex_ToHex ToHex_byte)
  qed
qed (simp add: URLEncode_def)


section \<open>MemFind\<close>

text \<open>
  The bytes sub occur at position i of the bytes src. The lengths are below 2^31, so that the loop
  counter, an int, does not overflow. The outer None is a comparison outside of src: the difference
  of the lengths wraps when strlen gives a longer pattern than src.
\<close>

definition occurs :: "string \<Rightarrow> string \<Rightarrow> nat \<Rightarrow> nat \<Rightarrow> bool" where
  "occurs src sub n i \<longleftrightarrow> i + n \<le> length src \<and> take n (drop i src) = take n sub"

definition MemFind :: "string \<Rightarrow> string \<Rightarrow> nat \<Rightarrow> bool \<Rightarrow> nat option option" where
  "MemFind src sub sub_len flag =
     (if src = [] \<or> length src < sub_len then Some None
      else
        (let n = (if sub_len = 0 then length (c_str sub) else sub_len) in
         if length src = n then Some (if occurs src sub n 0 then Some 0 else None)
         else if flag then
           (if length src < n then None else Some (List.find (occurs src sub n) [0 ..< length src - n]))
         else if length src < n then Some None
         else Some (List.find (occurs src sub n) (rev [0 ..< Suc (length src - n)]))))"

lemma find_upt: "List.find P [0 ..< n] = Some i \<longleftrightarrow> i < n \<and> P i \<and> (\<forall>j < i. \<not> P j)"
  by (auto simp: find_Some_iff)

lemma find_rev_upt: "List.find P (rev [0 ..< Suc n]) = Some i \<longleftrightarrow> i \<le> n \<and> P i \<and> (\<forall>j. i < j \<and> j \<le> n \<longrightarrow> \<not> P j)"
proof (induction n)
  case (Suc n)
  have "rev [0 ..< Suc (Suc n)] = Suc n # rev [0 ..< Suc n]" by simp
  then show ?case using Suc by (auto simp: le_Suc_eq simp del: upt_Suc)
qed auto

text \<open>
  The backward search finds the last occurrence of the pattern. The forward search finds the
  first, but leaves out the position where the pattern would end with the text.
\<close>

lemma MemFind_occurrence:
  assumes "0 < n" and "n < length src"
  shows "(MemFind src sub n True = Some (Some i) \<longleftrightarrow>
            occurs src sub n i \<and> i + n < length src \<and> (\<forall>j < i. \<not> occurs src sub n j)) \<and>
         (MemFind src sub n False = Some (Some i) \<longleftrightarrow>
            occurs src sub n i \<and> (\<forall>j > i. \<not> occurs src sub n j))"
  using assms
  by (auto simp: MemFind_def Let_def find_upt find_rev_upt simp del: upt_Suc) (auto simp: occurs_def)

lemma MemFind_occurrence_witness:
  "MemFind ''abcab'' ''ab'' 2 True = Some (Some 0) \<and> MemFind ''abcab'' ''ab'' 2 False = Some (Some 3) \<and>
   MemFind ''xyzab'' ''ab'' 2 True \<noteq> Some (Some 3)"
proof -
  have "occurs ''abcab'' ''ab'' 2 0" "occurs ''abcab'' ''ab'' 2 3" "\<forall>j > 3. \<not> occurs ''abcab'' ''ab'' 2 j"
    by (auto simp: occurs_def)
  then show ?thesis
    using MemFind_occurrence [of 2 "''abcab''" "''ab''" 0] MemFind_occurrence [of 2 "''abcab''" "''ab''" 3]
      MemFind_occurrence [of 2 "''xyzab''" "''ab''" 3] by auto
qed

end
