(* ===== verification/Config_Reader.thy ===== *)
theory Config_Reader
  imports Util
begin

text \<open>
  base/config_file_reader.cc: the configuration file, lines of the form key=value with comments
  behind a #. The map is a std::map<string, string>, an association list sorted by key as in theory
  Json_Value. load_ok_ is set only when the file could be opened; before that it is uninitialised
  (None). The file is read with fgets into 256 bytes, so a longer line counts as several.
\<close>

record config_reader =
  load_ok :: "bool option"
  config_map :: "(string \<times> string) list"
  config_file :: string

section \<open>Lines\<close>

definition LF :: char where
  "LF = CHR 0x0A"

fun take_line :: "nat \<Rightarrow> string \<Rightarrow> string \<times> string" where
  "take_line 0 s = ([], s)"
| "take_line (Suc n) [] = ([], [])"
| "take_line (Suc n) (c # s) =
     (if c = LF then ([c], s) else case take_line n s of (l, r) \<Rightarrow> (c # l, r))"

lemma take_line_rest [termination_simp]: "length (snd (take_line n s)) < Suc (length s)"
  by (induction n s rule: take_line.induct) (auto split: prod.splits)

text \<open>The lines fgets(buf, 256, fp) gives until the end of the file.\<close>

fun read_lines :: "string \<Rightarrow> string list" where
  "read_lines [] = []"
| "read_lines (c # s) =
     (if c = LF then [c] # read_lines s
      else (c # fst (take_line 254 s)) # read_lines (snd (take_line 254 s)))"

lemma read_lines_take: "s \<noteq> [] \<Longrightarrow> read_lines s = fst (take_line 255 s) # read_lines (snd (take_line 255 s))"
  by (cases s) (use take_line.simps(3) [of 254] in \<open>simp_all add: split_beta\<close>)

section \<open>Parsing\<close>

definition blank :: "char \<Rightarrow> bool" where
  "blank c \<longleftrightarrow> c = CHR '' '' \<or> c = CHR 0x09"

text \<open>
  The loop from the end stops at the latest at the character start_pos points to, which is no blank;
  so the length is positive and NULL is returned only for a blank text.
\<close>

definition TrimBlanks :: "string \<Rightarrow> string option" where
  "TrimBlanks name =
     (let start = dropWhile blank name
      in if start = [] then None else Some (rev (dropWhile blank (rev start))))"

definition config_insert :: "string \<Rightarrow> string \<Rightarrow> (string \<times> string) list \<Rightarrow> (string \<times> string) list" where
  "config_insert k v m = (if map_of m k = None then obj_update k v m else m)"

definition line_pair :: "string \<Rightarrow> (string \<times> string) option" where
  "line_pair line =
     (case dropWhile (\<lambda>c. c \<noteq> CHR ''='') line of
        [] \<Rightarrow> None
      | _ # rest \<Rightarrow>
          (case (TrimBlanks (takeWhile (\<lambda>c. c \<noteq> CHR ''='') line), TrimBlanks rest) of
             (Some k, Some v) \<Rightarrow> Some (k, v)
           | _ \<Rightarrow> None))"

definition ParseLine :: "string \<Rightarrow> (string \<times> string) list \<Rightarrow> (string \<times> string) list" where
  "ParseLine line m = (case line_pair line of None \<Rightarrow> m | Some (k, v) \<Rightarrow> config_insert k v m)"

text \<open>
  One round of the loop of _LoadFile. A line that begins with a NUL byte has length 0 and makes it
  read and write the byte before the buffer (None).
\<close>

definition strip_line :: "string \<Rightarrow> string" where
  "strip_line buf =
     (let s = c_str buf; s' = (if last s = LF then butlast s else s)
      in takeWhile (\<lambda>c. c \<noteq> CHR ''#'') s')"

fun load_lines :: "string list \<Rightarrow> (string \<times> string) list \<Rightarrow> (string \<times> string) list option" where
  "load_lines [] m = Some m"
| "load_lines (l # ls) m =
     (if c_str l = [] then None
      else load_lines ls (if strip_line l = [] then m else ParseLine (strip_line l) m))"

definition LoadFile :: "string \<Rightarrow> config_reader prog" where
  "LoadFile filename =
     Os (OsReadFile filename) (\<lambda>r.
       if os_int r < 0 then Ret \<lparr>load_ok = None, config_map = [], config_file = filename\<rparr>
       else
         (case load_lines (read_lines (os_str r)) [] of
            None \<Rightarrow> Fault BufferOverflow
          | Some m \<Rightarrow> Ret \<lparr>load_ok = Some True, config_map = m, config_file = filename\<rparr>))"

definition new_CConfigFileReader :: "string \<Rightarrow> config_reader prog" where
  "new_CConfigFileReader filename = LoadFile filename"

definition GetConfigName :: "config_reader \<Rightarrow> string \<Rightarrow> string option prog" where
  "GetConfigName r name =
     bindp (init_read (load_ok r)) (\<lambda>ok. Ret (if ok then map_of (config_map r) name else None))"

section \<open>Writing\<close>

definition pair_text :: "string \<times> string \<Rightarrow> string" where
  "pair_text p = snprintf_buf 128 (c_str (fst p) @ [CHR ''=''] @ c_str (snd p) @ [LF])"

fun write_pairs :: "(string \<times> string) list \<Rightarrow> int prog" where
  "write_pairs [] = Ret 0"
| "write_pairs (p # ps) =
     Os (OsFwrite (pair_text p)) (\<lambda>r. if os_int r \<noteq> 1 then Ret (- 1) else write_pairs ps)"

definition WriteFIle :: "config_reader \<Rightarrow> int prog" where
  "WriteFIle r =
     Os (OsOpenWrite (config_file r)) (\<lambda>f. if os_int f < 0 then Ret (- 1) else write_pairs (config_map r))"

definition config_set :: "string \<Rightarrow> string \<Rightarrow> (string \<times> string) list \<Rightarrow> (string \<times> string) list" where
  "config_set k v m =
     (if map_of m k \<noteq> None then map (\<lambda>(k', v'). (k', if k' = k then v else v')) m else config_insert k v m)"

definition SetConfigValue :: "config_reader \<Rightarrow> string \<Rightarrow> string \<Rightarrow> (int \<times> config_reader) prog" where
  "SetConfigValue r name v =
     bindp (init_read (load_ok r)) (\<lambda>ok.
       if \<not> ok then Ret (- 1, r)
       else
         (let r' = r\<lparr>config_map := config_set name v (config_map r)\<rparr>
          in bindp (WriteFIle r') (\<lambda>ret. Ret (ret, r'))))"

section \<open>The map\<close>

lemma config_set_lookup: "map_of (config_set k v m) = (map_of m)(k \<mapsto> v)" if "obj_sorted m"
proof (cases "map_of m k")
  case None
  then show ?thesis using that by (simp add: config_set_def config_insert_def map_of_obj_update)
next
  case (Some x)
  have "map_of (map (\<lambda>(k', v'). (k', if k' = k then v else v')) m) =
      (\<lambda>k'. map_option (\<lambda>v'. if k' = k then v else v') (map_of m k'))"
    by (induction m) auto
  moreover have "map_option (\<lambda>v'. if k' = k then v else v') (map_of m k') = ((map_of m)(k \<mapsto> v)) k'" for k'
    using Some by (cases "map_of m k'"; cases "k' = k") auto
  ultimately show ?thesis using Some by (simp add: config_set_def fun_eq_iff)
qed

lemma config_insert_sorted: "obj_sorted m \<Longrightarrow> obj_sorted (config_insert k v m)"
  by (simp add: config_insert_def obj_sorted_update)

lemma config_set_sorted: "obj_sorted m \<Longrightarrow> obj_sorted (config_set k v m)"
proof -
  assume m: "obj_sorted m"
  have "map fst (map (\<lambda>(k', v'). (k', if k' = k then v else v')) m) = map fst m"
    by (induction m) auto
  then have "obj_sorted (map (\<lambda>(k', v'). (k', if k' = k then v else v')) m)"
    using m unfolding obj_sorted_def by metis
  then show ?thesis using m config_insert_sorted by (simp add: config_set_def)
qed

interpretation config: keyed_store "[]" config_set map_of obj_sorted
  by unfold_locales (auto simp: config_set_lookup config_set_sorted, simp add: obj_sorted_def)

lemma config_insert_lookup:
  "obj_sorted m \<Longrightarrow> map_of (config_insert k v m) = [k \<mapsto> v] ++ map_of m"
  by (auto simp: config_insert_def map_of_obj_update fun_eq_iff map_add_def split: option.splits)

text \<open>The pairs of the lines of a file, in its order.\<close>

definition file_pairs :: "string list \<Rightarrow> (string \<times> string) list" where
  "file_pairs ls = List.map_filter (\<lambda>l. if strip_line l = [] then None else line_pair (strip_line l)) ls"

lemma file_pairs_simps [simp]:
  "file_pairs [] = []"
  "file_pairs (l # ls) =
     (case (if strip_line l = [] then None else line_pair (strip_line l)) of None \<Rightarrow> file_pairs ls | Some p \<Rightarrow> p # file_pairs ls)"
  by (simp_all add: file_pairs_def List.map_filter_simps split: option.splits)

lemma load_lines_pairs:
  "load_lines ls m = Some m' \<Longrightarrow> obj_sorted m \<Longrightarrow> obj_sorted m' \<and> map_of m' = map_of (file_pairs ls) ++ map_of m"
proof (induction ls m rule: load_lines.induct)
  case (2 l ls m)
  show ?case
  proof (cases "if strip_line l = [] then None else line_pair (strip_line l)")
    case None
    then show ?thesis using 2 by (auto simp: ParseLine_def split: if_splits)
  next
    case (Some p)
    obtain k v where p: "p = (k, v)" by (cases p)
    have "ParseLine (strip_line l) m = config_insert k v m" using Some p by (auto simp: ParseLine_def split: if_splits)
    then have "obj_sorted m' \<and> map_of m' = map_of (file_pairs ls) ++ ([k \<mapsto> v] ++ map_of m)"
      using 2 Some p by (auto simp: config_insert_lookup config_insert_sorted split: if_splits)
    then show ?thesis using Some p by (auto simp: fun_eq_iff map_add_def split: option.splits)
  qed
qed simp

text \<open>
  Of the lines that set a key the first counts: after a file was loaded, GetConfigName answers
  with the value on the first line with that name before the =, blanks around both left out, and
  with NULL when there is none.
\<close>

lemma GetConfigName_first_line:
  assumes "env_os E w (OsReadFile filename) = (r, w')" and "0 \<le> os_int r"
    and "load_lines (read_lines (os_str r)) [] = Some m"
  shows "run E (bindp (new_CConfigFileReader filename) (\<lambda>c. GetConfigName c name)) s w =
    (Done (map_of (file_pairs (read_lines (os_str r))) name), s, w')"
proof -
  have "map_of m = map_of (file_pairs (read_lines (os_str r)))"
    using load_lines_pairs [OF assms(3)] by (simp add: obj_sorted_def)
  then show ?thesis
    using assms by (simp add: new_CConfigFileReader_def LoadFile_def GetConfigName_def init_read_def)
qed

definition config_demo_env :: "string \<Rightarrow> unit env" where
  "config_demo_env file =
     \<lparr>env_mysql_connect = (\<lambda>w ps. (Connected, w)), env_mysql = (\<lambda>w q. (QueryFailed, w)),
      env_stmt = (\<lambda>w q ps. (Executed 1 1, w)), env_redis_connect = (\<lambda>w h p. (True, w)),
      env_redis = (\<lambda>w c. (None, w)), env_os = (\<lambda>w c. (\<lparr>os_int = 1, os_str = file\<rparr>, w)),
      env_libc = \<lparr>scan_double = (\<lambda>s. False), format_double = (\<lambda>s. []), double_to_int = (\<lambda>s. None)\<rparr>\<rparr>"

definition demo_file :: string where
  "demo_file = ''# ports'' @ [LF] @ '' port = 80 '' @ [LF] @ ''port=81'' @ [LF] @ ''ip=1.2 # x''"

lemma demo_file_pairs: "file_pairs (read_lines demo_file) = [(''port'', ''80''), (''port'', ''81''), (''ip'', ''1.2'')]"
  by code_simp

lemma demo_file_loads: "load_lines (read_lines demo_file) [] = Some [(''ip'', ''1.2''), (''port'', ''80'')]"
  by code_simp

lemma GetConfigName_first_line_witness:
  "\<forall>s :: srv. run (config_demo_env demo_file) (bindp (new_CConfigFileReader ''f'') (\<lambda>c. GetConfigName c ''port'')) s () =
     (Done (Some ''80''), s, ())"
  using GetConfigName_first_line [where E = "config_demo_env demo_file" and w = "()" and w' = "()" and filename = "''f''"
      and r = "\<lparr>os_int = 1, os_str = demo_file\<rparr>" and name = "''port''"] demo_file_loads
  by (simp add: config_demo_env_def demo_file_pairs)

section \<open>A written file is read back\<close>

text \<open>A pair that survives: it fits into szPaire, and no character of it means something to the parser.\<close>

definition plain_word :: "string \<Rightarrow> bool" where
  "plain_word s \<longleftrightarrow> s \<noteq> [] \<and> \<not> blank (hd s) \<and> \<not> blank (last s) \<and> set s \<inter> {CHR ''#'', LF, NUL} = {}"

definition storable :: "string \<times> string \<Rightarrow> bool" where
  "storable p \<longleftrightarrow>
     plain_word (fst p) \<and> CHR ''='' \<notin> set (fst p) \<and> plain_word (snd p) \<and> length (fst p) + length (snd p) < 126"

lemma TrimBlanks_plain: "plain_word s \<Longrightarrow> TrimBlanks s = Some s"
proof -
  assume s: "plain_word s"
  then have "dropWhile blank s = s" by (cases s) (auto simp: plain_word_def)
  moreover have "dropWhile blank (rev s) = rev s"
    using s by (cases "rev s") (auto simp: plain_word_def simp flip: hd_rev)
  ultimately show ?thesis using s by (simp add: TrimBlanks_def plain_word_def)
qed

lemma takeWhile_notin: "c \<notin> set s \<Longrightarrow> takeWhile (\<lambda>d. d \<noteq> c) s = s" "c \<notin> set s \<Longrightarrow> dropWhile (\<lambda>d. d \<noteq> c) (s @ c # t) = c # t"
  "c \<notin> set s \<Longrightarrow> takeWhile (\<lambda>d. d \<noteq> c) (s @ c # t) = s"
  by (induction s) auto

lemma plain_word_nul_free: "plain_word s \<Longrightarrow> nul_free s"
  by (auto simp: plain_word_def nul_free_def)

lemma pair_text_storable: "storable p \<Longrightarrow> pair_text p = fst p @ CHR ''='' # snd p @ [LF]"
  by (auto simp: pair_text_def storable_def snprintf_buf_def plain_word_nul_free)

lemma strip_line_storable: "storable p \<Longrightarrow> strip_line (pair_text p) = fst p @ CHR ''='' # snd p"
proof -
  assume p: "storable p"
  have "nul_free (pair_text p)" using p by (auto simp: pair_text_storable storable_def plain_word_nul_free LF_def NUL_def)
  moreover have "CHR ''#'' \<notin> set (fst p @ CHR ''='' # snd p)" using p by (auto simp: storable_def plain_word_def)
  ultimately show ?thesis
    using p by (simp add: strip_line_def Let_def pair_text_storable takeWhile_notin(1) butlast_append)
qed

lemma line_pair_storable: "storable p \<Longrightarrow> line_pair (fst p @ CHR ''='' # snd p) = Some p"
  by (simp add: line_pair_def storable_def takeWhile_notin TrimBlanks_plain)

lemma take_line_LF: "LF \<notin> set l \<Longrightarrow> length l < n \<Longrightarrow> take_line n (l @ LF # t) = (l @ [LF], t)"
  by (induction n "l @ LF # t" arbitrary: l rule: take_line.induct) (auto simp: Cons_eq_append_conv split: prod.splits)

lemma read_lines_pairs: "\<forall>p \<in> set m. storable p \<Longrightarrow> read_lines (concat (map pair_text m)) = map pair_text m"
proof (induction m)
  case (Cons p m)
  then have p: "storable p" by simp
  have "LF \<notin> set (fst p @ CHR ''='' # snd p)" "length (fst p @ CHR ''='' # snd p) < 255"
    using p by (auto simp: storable_def plain_word_def LF_def)
  from take_line_LF [OF this, of "concat (map pair_text m)"]
  have "take_line 255 (concat (map pair_text (p # m))) = (pair_text p, concat (map pair_text m))"
    using p by (simp add: pair_text_storable)
  then show ?case
    using Cons p by (subst read_lines_take) (simp_all add: pair_text_storable)
qed simp

lemma load_lines_storable:
  "\<forall>p \<in> set m. storable p \<Longrightarrow> obj_sorted (acc @ m) \<Longrightarrow> load_lines (map pair_text m) acc = Some (acc @ m)"
proof (induction m arbitrary: acc)
  case (Cons p m)
  then have p: "storable p" by simp
  have "c_str (pair_text p) \<noteq> []"
    using p by (cases "fst p") (auto simp: pair_text_storable storable_def plain_word_def c_str_def)
  moreover have "config_insert (fst p) (snd p) acc = acc @ [p]"
  proof -
    have "fst p \<notin> fst ` set acc" using Cons.prems(2) by (auto simp: obj_sorted_def sorted_wrt_append)
    then have "map_of acc (fst p) = None" by (simp add: map_of_eq_None_iff)
    then show ?thesis using obj_update_last [of acc "fst p" "snd p" m] Cons.prems(2) by (simp add: config_insert_def)
  qed
  ultimately show ?case
    using Cons p by (simp add: strip_line_storable ParseLine_def line_pair_storable split_beta)
qed simp

text \<open>
  A file system as the code relies on it: fopen for writing empties the file, a successful fwrite
  appends to the file that is open, and reading a file gives what is in it.
\<close>

definition files_of :: "'w env \<Rightarrow> ('w \<Rightarrow> string \<Rightarrow> string) \<Rightarrow> ('w \<Rightarrow> string) \<Rightarrow> bool" where
  "files_of E file opened \<longleftrightarrow>
     (\<forall>w f r w'. env_os E w (OsOpenWrite f) = (r, w') \<longrightarrow> 0 \<le> os_int r \<longrightarrow> file w' f = [] \<and> opened w' = f) \<and>
     (\<forall>w t r w'. env_os E w (OsFwrite t) = (r, w') \<longrightarrow> os_int r = 1 \<longrightarrow>
        file w' (opened w) = file w (opened w) @ t \<and> opened w' = opened w) \<and>
     (\<forall>w f r w'. env_os E w (OsReadFile f) = (r, w') \<longrightarrow> 0 \<le> os_int r \<longrightarrow> os_str r = file w f)"

lemma files_ofD:
  assumes "files_of E file opened"
  shows "env_os E w (OsOpenWrite f) = (r, w') \<Longrightarrow> 0 \<le> os_int r \<Longrightarrow> file w' f = [] \<and> opened w' = f"
    "env_os E w (OsFwrite t) = (r, w') \<Longrightarrow> os_int r = 1 \<Longrightarrow> file w' (opened w) = file w (opened w) @ t \<and> opened w' = opened w"
    "env_os E w (OsReadFile f) = (r, w') \<Longrightarrow> 0 \<le> os_int r \<Longrightarrow> os_str r = file w f"
  using assms by (auto simp: files_of_def)

lemma write_pairs_file:
  assumes "files_of E file opened"
  shows "run E (write_pairs m) s w = (Done 0, s', w') \<Longrightarrow>
    file w' (opened w) = file w (opened w) @ concat (map pair_text m) \<and> opened w' = opened w"
proof (induction m arbitrary: w)
  case (Cons p m)
  obtain r v where r: "env_os E w (OsFwrite (pair_text p)) = (r, v)" by fastforce
  then have one: "os_int r = 1" and rest: "run E (write_pairs m) s v = (Done 0, s', w')"
    using Cons.prems by (auto split: if_splits)
  show ?case using files_ofD(2) [OF assms r one] Cons.IH [OF rest] by simp
qed simp

lemma WriteFIle_file:
  assumes files: "files_of E file opened" and run: "run E (WriteFIle r) s w = (Done 0, s', w')"
  shows "file w' (config_file r) = concat (map pair_text (config_map r))"
proof -
  obtain f v where f: "env_os E w (OsOpenWrite (config_file r)) = (f, v)" by fastforce
  then have open_ok: "0 \<le> os_int f" and rest: "run E (write_pairs (config_map r)) s v = (Done 0, s', w')"
    using run by (auto simp: WriteFIle_def split: if_splits)
  show ?thesis using files_ofD(1) [OF files f open_ok] write_pairs_file [OF files rest] by simp
qed

lemma config_read_back:
  assumes "obj_sorted m" and "\<forall>p \<in> set m. storable p"
  shows "load_lines (read_lines (concat (map pair_text m))) [] = Some m"
  using assms load_lines_storable [of m "[]"] by (simp add: read_lines_pairs)

text \<open>
  C31. A configuration survives being written: on any file system that keeps what is written to it,
  if _WriteFIle reports success and every pair is storable, then _LoadFile on the file it has written,
  once that can be opened, gives a reader with the same map.
\<close>

theorem config_file_roundtrip:
  assumes "files_of E file opened" and "obj_sorted (config_map r)" and "\<forall>p \<in> set (config_map r). storable p"
    and "run E (WriteFIle r) s w = (Done 0, s', w1)"
    and "env_os E w1 (OsReadFile (config_file r)) = (a, w2)" and "0 \<le> os_int a"
  shows "run E (LoadFile (config_file r)) s' w1 =
    (Done \<lparr>load_ok = Some True, config_map = config_map r, config_file = config_file r\<rparr>, s', w2)"
proof -
  have "os_str a = concat (map pair_text (config_map r))"
    using files_ofD(3) [OF assms(1,5,6)] WriteFIle_file [OF assms(1,4)] by simp
  then show ?thesis using config_read_back [OF assms(2,3)] assms(5,6) by (simp add: LoadFile_def)
qed

text \<open>A file system with one file open at a time, in memory: its world is the files and the open one.\<close>

definition memory_env :: "((string \<Rightarrow> string) \<times> string) env" where
  "memory_env = \<lparr>env_mysql_connect = (\<lambda>w ps. (Connected, w)), env_mysql = (\<lambda>w q. (QueryFailed, w)),
      env_stmt = (\<lambda>w q ps. (Executed 1 1, w)), env_redis_connect = (\<lambda>w h p. (True, w)),
      env_redis = (\<lambda>w c. (None, w)),
      env_os = (\<lambda>w c. case c of
          OsOpenWrite f \<Rightarrow> (\<lparr>os_int = 0, os_str = []\<rparr>, ((fst w)(f := []), f))
        | OsFwrite t \<Rightarrow> (\<lparr>os_int = 1, os_str = []\<rparr>, ((fst w)(snd w := fst w (snd w) @ t), snd w))
        | OsReadFile f \<Rightarrow> (\<lparr>os_int = 0, os_str = fst w f\<rparr>, w)
        | _ \<Rightarrow> (\<lparr>os_int = 0, os_str = []\<rparr>, w)),
      env_libc = \<lparr>scan_double = (\<lambda>s. False), format_double = (\<lambda>s. []), double_to_int = (\<lambda>s. None)\<rparr>\<rparr>"

lemma memory_files: "files_of memory_env fst snd"
  by (auto simp: files_of_def memory_env_def)

definition demo_reader :: config_reader where
  "demo_reader = \<lparr>load_ok = Some True, config_map = [(''ip'', ''::1''), (''port'', ''80'')], config_file = ''c''\<rparr>"

theorem config_file_roundtrip_witness:
  "\<forall>s :: srv. \<exists>w1. run memory_env (WriteFIle demo_reader) s (\<lambda>_. ''old'', []) = (Done 0, s, w1) \<and>
     fst w1 ''c'' = ''ip=::1'' @ [LF] @ ''port=80'' @ [LF] \<and>
     run memory_env (LoadFile ''c'') s w1 = (Done demo_reader, s, w1)"
proof
  fix s :: srv
  let ?w1 = "(\<lambda>f. if f = ''c'' then ''ip=::1'' @ [LF] @ ''port=80'' @ [LF] else ''old'', ''c'')"
  have "storable (''ip'', ''::1'')" "storable (''port'', ''80'')"
    by (simp_all add: storable_def plain_word_def blank_def LF_def NUL_def)
  then have "run memory_env (WriteFIle demo_reader) s (\<lambda>_. ''old'', []) = (Done 0, s, ?w1)"
    by (simp add: WriteFIle_def demo_reader_def memory_env_def pair_text_storable fun_eq_iff)
  moreover have "run memory_env (LoadFile (config_file demo_reader)) s ?w1 = (Done demo_reader, s, ?w1)"
  proof -
    have "env_os memory_env ?w1 (OsReadFile (config_file demo_reader)) = (\<lparr>os_int = 0, os_str = fst ?w1 ''c''\<rparr>, ?w1)"
      by (simp add: memory_env_def demo_reader_def)
    moreover have "obj_sorted (config_map demo_reader)" "\<forall>p \<in> set (config_map demo_reader). storable p"
      using \<open>storable (''ip'', ''::1'')\<close> \<open>storable (''port'', ''80'')\<close> by (simp_all add: obj_sorted_def demo_reader_def)
    ultimately show ?thesis
      using config_file_roundtrip [OF memory_files, of demo_reader s "(\<lambda>_. ''old'', [])" s ?w1]
        \<open>run memory_env (WriteFIle demo_reader) s (\<lambda>_. ''old'', []) = _\<close>
      by (simp add: demo_reader_def)
  qed
  ultimately show "\<exists>w1. run memory_env (WriteFIle demo_reader) s (\<lambda>_. ''old'', []) = (Done 0, s, w1) \<and>
     fst w1 ''c'' = ''ip=::1'' @ [LF] @ ''port=80'' @ [LF] \<and>
     run memory_env (LoadFile ''c'') s w1 = (Done demo_reader, s, w1)" by (intro exI [of _ ?w1]) (simp add: demo_reader_def)
qed

end
