(* ===== verification/Startup.thy ===== *)
theory Startup
  imports Http_Conn Config_Reader
begin

text \<open>
  The start of the server: the Init functions of the two managers (mysql/db_pool.cc,
  redis/cache_pool.cpp), which build the pools the configuration names, and main (main.cc) up to
  the call of the event loop. The configuration file is whatever the operating system reads.
\<close>

definition CONF :: string where
  "CONF = ''picbed_http_server.conf''"

text \<open>GetConfigName of a name snprintf puts together in a buffer of 64 bytes.\<close>

definition pool_item :: "config_reader \<Rightarrow> string \<Rightarrow> string \<Rightarrow> string option prog" where
  "pool_item cfg pool_name suffix = GetConfigName cfg (snprintf_buf 64 (c_str pool_name @ suffix))"

section \<open>CDBManager::Init\<close>

definition put_db_pool :: "string \<Rightarrow> db_pool option \<Rightarrow> srv \<Rightarrow> srv" where
  "put_db_pool name p s = s\<lparr>dbpool_map := (dbpool_map s)(name := p)\<rparr>"

text \<open>
  new CDBPool, its Init, and the insertion into dbpool_map_. A connection knows its pool by name here,
  so the pool is in the map while Init runs. One that fails, and one whose name is in the map already,
  which insert leaves alone, is not in it afterwards.
\<close>

definition add_db_pool :: "string \<Rightarrow> db_pool \<Rightarrow> int prog" where
  "add_db_pool name p =
     bindp (readS (\<lambda>s. dbpool_map s name)) (\<lambda>old.
     bindp (modS (put_db_pool name (Some p))) (\<lambda>_.
     bindp (CDBPool_Init name) (\<lambda>ret.
     if ret \<noteq> 0 then bindp (modS (put_db_pool name old)) (\<lambda>_. Ret 3)
     else if old \<noteq> None then bindp (modS (put_db_pool name old)) (\<lambda>_. Ret 0)
     else Ret 0)))"

fun CDBManager_Init_loop :: "config_reader \<Rightarrow> string option list \<Rightarrow> int prog" where
  "CDBManager_Init_loop cfg [] = Ret 0"
| "CDBManager_Init_loop cfg (item # items) =
     bindp (init_read item) (\<lambda>pool_name.
     bindp (pool_item cfg pool_name ''_host'') (\<lambda>db_host.
     bindp (pool_item cfg pool_name ''_port'') (\<lambda>str_db_port.
     bindp (pool_item cfg pool_name ''_dbname'') (\<lambda>db_dbname.
     bindp (pool_item cfg pool_name ''_username'') (\<lambda>db_username.
     bindp (pool_item cfg pool_name ''_password'') (\<lambda>db_password.
     bindp (pool_item cfg pool_name ''_maxconncnt'') (\<lambda>str_maxconncnt.
       case (db_host, str_db_port, db_dbname, db_username, db_password, str_maxconncnt) of
         (Some host, Some port, Some dbname, Some username, Some password, Some maxconncnt) \<Rightarrow>
           bindp (add_db_pool pool_name (new_CDBPool host (atoi port) username password dbname (atoi maxconncnt))) (\<lambda>ret.
           if ret \<noteq> 0 then Ret ret else CDBManager_Init_loop cfg items)
       | _ \<Rightarrow> Ret 2)))))))"

definition CDBManager_Init :: "int prog" where
  "CDBManager_Init =
     bindp (new_CConfigFileReader CONF) (\<lambda>cfg.
     bindp (GetConfigName cfg ''DBInstances'') (\<lambda>db_instances.
       case db_instances of
         None \<Rightarrow> Ret 1
       | Some names \<Rightarrow> CDBManager_Init_loop cfg (item_list (new_CStrExplode names (CHR '','')))))"

text \<open>True when there is an instance afterwards; one whose Init failed is deleted.\<close>

definition CDBManager_getInstance :: "bool prog" where
  "CDBManager_getInstance =
     bindp CDBManager_Init (\<lambda>ret.
     if ret \<noteq> 0 then bindp (modS (dbpool_map_update (\<lambda>_. Map.empty))) (\<lambda>_. Ret False) else Ret True)"

section \<open>CacheManager::Init\<close>

definition put_cache_pool :: "string \<Rightarrow> cache_pool option \<Rightarrow> srv \<Rightarrow> srv" where
  "put_cache_pool name p s = s\<lparr>cache_pool_map := (cache_pool_map s)(name := p)\<rparr>"

definition add_cache_pool :: "string \<Rightarrow> cache_pool \<Rightarrow> int prog" where
  "add_cache_pool name p =
     bindp (readS (\<lambda>s. cache_pool_map s name)) (\<lambda>old.
     bindp (modS (put_cache_pool name (Some p))) (\<lambda>_.
     bindp (CachePool_Init name) (\<lambda>ret.
     if ret \<noteq> 0 then bindp (modS (put_cache_pool name old)) (\<lambda>_. Ret 3)
     else if old \<noteq> None then bindp (modS (put_cache_pool name old)) (\<lambda>_. Ret 0)
     else Ret 0)))"

text \<open>The index of the database is read, but CacheConn::Init always selects 0 (theory Cache_Conn).\<close>

fun CacheManager_Init_loop :: "config_reader \<Rightarrow> string option list \<Rightarrow> int prog" where
  "CacheManager_Init_loop cfg [] = Ret 0"
| "CacheManager_Init_loop cfg (item # items) =
     bindp (init_read item) (\<lambda>pool_name.
     bindp (pool_item cfg pool_name ''_host'') (\<lambda>cache_host.
     bindp (pool_item cfg pool_name ''_port'') (\<lambda>str_cache_port.
     bindp (pool_item cfg pool_name ''_db'') (\<lambda>str_cache_db.
     bindp (pool_item cfg pool_name ''_maxconncnt'') (\<lambda>str_max_conn_cnt.
       case (cache_host, str_cache_port, str_cache_db, str_max_conn_cnt) of
         (Some host, Some port, Some db, Some max_cnt) \<Rightarrow>
           bindp (add_cache_pool pool_name (new_CachePool host (atoi port) [] (atoi max_cnt))) (\<lambda>ret.
           if ret \<noteq> 0 then Ret ret else CacheManager_Init_loop cfg items)
       | _ \<Rightarrow> Ret 2)))))"

definition CacheManager_Init :: "int prog" where
  "CacheManager_Init =
     bindp (new_CConfigFileReader CONF) (\<lambda>cfg.
     bindp (GetConfigName cfg ''CacheInstances'') (\<lambda>cache_instances.
       case cache_instances of
         None \<Rightarrow> Ret 1
       | Some names \<Rightarrow> CacheManager_Init_loop cfg (item_list (new_CStrExplode names (CHR '','')))))"

definition CacheManager_getInstance :: "bool prog" where
  "CacheManager_getInstance =
     bindp CacheManager_Init (\<lambda>ret.
     if ret \<noteq> 0 then bindp (modS (cache_pool_map_update (\<lambda>_. Map.empty))) (\<lambda>_. Ret False) else Ret True)"

section \<open>main\<close>

fun listen_loop :: "string option list \<Rightarrow> int \<Rightarrow> int prog" where
  "listen_loop [] port = Ret 0"
| "listen_loop (item # items) port =
     bindp (init_read item) (\<lambda>ip.
     Os (OsListen ip port) (\<lambda>r. if os_int r = - 1 then Ret (- 1) else listen_loop items port))"

text \<open>
  main until it writes its pid and calls netlib_eventloop; 0 means that it gets there. A missing entry
  of the configuration is a NULL pointer that atoi or the assignment to a string follows.
\<close>

definition server_main :: "int prog" where
  "server_main =
     bindp CacheManager_getInstance (\<lambda>cache_manager.
     if \<not> cache_manager then Ret (- 1)
     else
       bindp CDBManager_getInstance (\<lambda>db_manager.
       if \<not> db_manager then Ret (- 1)
       else
         bindp (new_CConfigFileReader CONF) (\<lambda>cfg.
         bindp (GetConfigName cfg ''HttpListenIP'') (\<lambda>http_listen_ip.
         bindp (GetConfigName cfg ''HttpPort'') (\<lambda>str_http_port.
         bindp (GetConfigName cfg ''dfs_path_client'') (\<lambda>dfs_path_client.
         bindp (GetConfigName cfg ''web_server_ip'') (\<lambda>web_server_ip.
         bindp (GetConfigName cfg ''web_server_port'') (\<lambda>web_server_port.
         bindp (GetConfigName cfg ''storage_web_server_ip'') (\<lambda>storage_web_server_ip.
         bindp (GetConfigName cfg ''storage_web_server_port'') (\<lambda>storage_web_server_port.
         bindp (GetConfigName cfg ''ThreadNum'') (\<lambda>str_thread_num.
         bindp (deref str_thread_num) (\<lambda>_.
         bindp (deref dfs_path_client) (\<lambda>dfs_path_client.
         bindp (deref web_server_ip) (\<lambda>web_server_ip.
         bindp (deref web_server_port) (\<lambda>web_server_port.
         bindp (deref storage_web_server_ip) (\<lambda>storage_web_server_ip.
         bindp (deref storage_web_server_port) (\<lambda>storage_web_server_port.
         bindp (ApiUploadInit dfs_path_client web_server_ip web_server_port storage_web_server_ip storage_web_server_port) (\<lambda>_.
         bindp (ApiDealfileInit dfs_path_client) (\<lambda>_.
         bindp ApiInit (\<lambda>ret.
         if ret < 0 then Ret (- 1)
         else
           (case (http_listen_ip, str_http_port) of
              (Some ips, Some port) \<Rightarrow>
                Os OsNetInit (\<lambda>r.
                if os_int r = - 1 then Ret (- 1)
                else listen_loop (item_list (new_CStrExplode ips (CHR '';''))) (atoi port mod 65536))
            | _ \<Rightarrow> Ret (- 1))))))))))))))))))))))"

section \<open>Building a pool\<close>

text \<open>
  grown name v v': connections were created, for this pool only, and every other pool and every
  older connection is as before.
\<close>

definition grown :: "string \<Rightarrow> lend_view \<Rightarrow> lend_view \<Rightarrow> bool" where
  "grown name v v' \<longleftrightarrow>
     lv_next v \<le> lv_next v' \<and> (\<forall>c < lv_next v. lv_owner v' c = lv_owner v c) \<and>
     (\<forall>m. m \<noteq> name \<longrightarrow> lv_pools v' m = lv_pools v m) \<and>
     (lv_pools v' name = None \<longleftrightarrow> lv_pools v name = None) \<and> view_inv v'"

definition lv_open :: "string \<Rightarrow> (nat list \<times> int) option \<Rightarrow> lend_view \<Rightarrow> lend_view" where
  "lv_open name p v = v\<lparr>lv_pools := (lv_pools v)(name := p)\<rparr>"

lemma grown_trans: "grown name u v \<Longrightarrow> grown name v w \<Longrightarrow> grown name u w"
  by (auto simp: grown_def)

lemma grown_next: "view_inv v \<Longrightarrow> lv_next v \<le> n \<Longrightarrow> grown name v (v\<lparr>lv_next := n\<rparr>)"
  by (auto simp: grown_def view_inv_def lv_free_def)

lemma grown_fill:
  assumes v: "view_inv v" and name: "lv_pools v name \<noteq> None"
  shows "grown name v (lv_give name (lv_next v) (lv_create name v))"
    and "lv_out (lv_give name (lv_next v) (lv_create name v)) m = lv_out v m - (if m = name then 1 else 0)"
proof -
  have fresh: "lv_next v \<notin> set (lv_free (lv_create name v) n)" for n
    using view_invD(4) [OF v] by auto
  show "lv_out (lv_give name (lv_next v) (lv_create name v)) m = lv_out v m - (if m = name then 1 else 0)"
    using name fresh by simp
  have "view_inv (lv_give name (lv_next v) (lv_create name v))"
    unfolding view_inv_def using name fresh view_invD [OF v] by (auto simp: less_Suc_eq)
  then show "grown name v (lv_give name (lv_next v) (lv_create name v))"
    using name fresh by (auto simp: grown_def lv_give_def)
qed

lemma lv_open_inv: "view_inv v \<Longrightarrow> view_inv (lv_open name (Some ([], n)) v)"
  by (auto simp: view_inv_def lv_open_def lv_free_def)

text \<open>Opening a pool, filling it, and putting the old one back.\<close>

lemma grown_restore:
  assumes "view_inv v" and "grown name (lv_open name p v) v'"
  shows "view_inv (lv_open name (lv_pools v name) v')"
proof -
  have pools: "lv_pools (lv_open name (lv_pools v name) v') m = lv_pools v m" for m
    using assms(2) by (cases "m = name") (simp_all add: grown_def lv_open_def)
  then have free: "lv_free (lv_open name (lv_pools v name) v') m = lv_free v m" for m
    by (simp add: lv_free_def)
  have owner: "lv_owner (lv_open name (lv_pools v name) v') c = lv_owner v c" if "c < lv_next v" for c
    using assms(2) that by (simp add: grown_def lv_open_def)
  show ?thesis
    using assms view_invD [OF assms(1)] unfolding view_inv_def
    by (auto simp: free owner grown_def) (auto simp: lv_open_def view_inv_def)
qed


text \<open>A view in which every pool has all its connections at home.\<close>

definition view_ready :: "lend_view \<Rightarrow> bool" where
  "view_ready v \<longleftrightarrow> view_inv v \<and> (\<forall>n. lv_out v n = 0)"

lemma grown_ready:
  assumes "view_ready v" and "grown name (lv_open name (Some ([], n)) v) v'" and "lv_out v' name = 0"
  shows "view_ready v'"
proof -
  have "lv_out v' m = lv_out v m" if "m \<noteq> name" for m
    using assms(2) that by (simp add: grown_def lv_open_def lv_out_def)
  then have "lv_out v' m = 0" for m using assms by (cases "m = name") (simp_all add: view_ready_def)
  then show ?thesis using assms(2) by (simp add: view_ready_def grown_def)
qed

lemma restore_ready:
  assumes "view_ready v" and "grown name (lv_open name p v) v'"
  shows "view_ready (lv_open name (lv_pools v name) v')"
proof -
  have "lv_pools (lv_open name (lv_pools v name) v') m = lv_pools v m" for m
    using assms(2) by (cases "m = name") (simp_all add: grown_def lv_open_def)
  then have "lv_out (lv_open name (lv_pools v name) v') m = lv_out v m" for m by (simp add: lv_out_def)
  then show ?thesis using assms grown_restore by (simp add: view_ready_def)
qed

lemma ready_next: "view_ready u \<Longrightarrow> lv_next u \<le> n \<Longrightarrow> view_ready (u\<lparr>lv_next := n\<rparr>)"
  by (auto simp: view_ready_def view_inv_def lv_free_def lv_out_def)

text \<open>What the loop of CDBPool::Init does to the views; the other manager only sees newer numbers.\<close>

definition db_filling :: "string \<Rightarrow> srv \<Rightarrow> srv \<Rightarrow> bool" where
  "db_filling name s t \<longleftrightarrow>
     grown name (db_view s) (db_view t) \<and> cache_view t = cache_view s\<lparr>lv_next := next_conn t\<rparr> \<and> http_part t = http_part s"

lemma db_filling_trans: "db_filling name s t \<Longrightarrow> db_filling name t u \<Longrightarrow> db_filling name s u"
  by (auto simp: db_filling_def dest: grown_trans)

lemma db_filled:
  assumes inv: "view_inv (db_view s)" and p: "dbpool_map s name = Some p"
  defines "t \<equiv> set_db_pool name (db_push (next_conn s)) (db_created name s)"
  shows "db_filling name s t" "dbpool_map t name \<noteq> None" "view_inv (db_view t)"
    "lv_out (db_view t) name = lv_out (db_view s) name - 1"
proof -
  have fresh: "next_conn s \<notin> set (db_free_list p)" using view_invD(4) [OF inv, of _ name] p by auto
  have view: "db_view t = lv_give name (lv_next (db_view s)) (lv_create name (db_view s))"
    using p fresh
    by (auto simp: t_def db_view_def set_db_pool_def db_push_def db_created_def lv_give_def lv_create_def fun_eq_iff)
  have "lv_pools (db_view s) name \<noteq> None" using p by simp
  note fill = grown_fill [OF inv this]
  show "db_filling name s t"
    using fill(1) view by (simp add: db_filling_def t_def cache_view_def db_created_def set_db_pool_def http_part_def)
  then show "view_inv (db_view t)" by (simp add: db_filling_def grown_def)
  show "lv_out (db_view t) name = lv_out (db_view s) name - 1" using fill(2) view by simp
  show "dbpool_map t name \<noteq> None" using p by (simp add: t_def set_db_pool_def db_created_def)
qed

lemma db_given_up:
  assumes inv: "view_inv (db_view s)"
  shows "db_filling name s ((db_created name s)\<lparr>db_heap := (db_heap (db_created name s))(next_conn s := None)\<rparr>)"
  using grown_next [OF inv, of "Suc (next_conn s)" name]
  by (simp only: db_filling_def db_deleted_views [OF inv])
    (simp add: cache_view_def db_created_def http_part_def)

lemma CDBPool_Init_loop_fills:
  "view_inv (db_view s) \<Longrightarrow> dbpool_map s name \<noteq> None \<Longrightarrow>
   ensures (\<lambda>r t. db_filling name s t \<and> (r = 0 \<longrightarrow> lv_out (db_view t) name = lv_out (db_view s) name - int n))
     (CDBPool_Init_loop name n) s"
proof (induction n arbitrary: s)
  case 0
  then show ?case by (simp add: db_filling_def grown_def cache_view_def)
next
  case (Suc n)
  then obtain p where p: "dbpool_map s name = Some p" by blast
  note filled = db_filled [OF Suc.prems(1) p]
  have go_on: "ensures (\<lambda>r t. db_filling name s t \<and> (r = 0 \<longrightarrow> lv_out (db_view t) name = lv_out (db_view s) name - int (Suc n)))
      (CDBPool_Init_loop name n) (set_db_pool name (db_push (next_conn s)) (db_created name s))"
    using Suc.IH [OF filled(3,2)] by (rule ensures_mono) (use filled(1,4) db_filling_trans in auto)
  show ?case
    using p db_given_up [OF Suc.prems(1)] go_on
    by (simp add: the_db_pool_def new_CDBConn_def CDBConn_Init_def delete_CDBConn_def modS_def db_created_def
        split: conn_reply.splits)
qed

text \<open>Between the steps of the start every pool is complete, and the event loop has not begun.\<close>

definition starting :: "srv \<Rightarrow> srv \<Rightarrow> bool" where
  "starting s t \<longleftrightarrow>
     (view_ready (db_view s) \<longrightarrow> view_ready (cache_view s) \<longrightarrow>
        view_ready (db_view t) \<and> view_ready (cache_view t) \<and> http_part t = http_part s)"

lemma starting_props [simp]: "reflp starting" "transp starting"
  by (auto simp: starting_def reflp_def intro!: transpI)

lemma ensures_True: "ensures (\<lambda>a t. True) p s"
  by (induction p arbitrary: s) auto

lemma keeps_add_db_pool:
  assumes "db_free_list p = []" and "db_cur_conn_cnt p = 1"
  shows "keeps starting (add_db_pool name p)"
  unfolding keeps_def
proof
  fix s
  show "ensures (\<lambda>a. starting s) (add_db_pool name p) s"
  proof (cases "view_ready (db_view s) \<and> view_ready (cache_view s)")
    case True
    let ?o = "put_db_pool name (Some p) s"
    have opn: "db_view ?o = lv_open name (Some ([], 1)) (db_view s)" "cache_view ?o = cache_view s" "http_part ?o = http_part s"
        "next_conn ?o = next_conn s"
      using assms by (auto simp: put_db_pool_def db_view_def cache_view_def lv_open_def http_part_def fun_eq_iff)
    have out: "lv_out (db_view ?o) name = 1" by (simp add: opn lv_open_def lv_out_def)
    have "view_inv (db_view ?o)" using True opn(1) lv_open_inv by (simp add: view_ready_def)
    moreover have "dbpool_map ?o name \<noteq> None" by (simp add: put_db_pool_def)
    ultimately have loop: "ensures (\<lambda>r t. db_filling name ?o t \<and> (r = 0 \<longrightarrow> lv_out (db_view t) name = 0))
        (CDBPool_Init_loop name 1) ?o"
      using CDBPool_Init_loop_fills [of ?o name 1] out by simp
    have same: "starting s t" if "db_filling name ?o t" "lv_out (db_view t) name = 0" for t
      using True that opn grown_ready [of "db_view s" name 1 "db_view t"] ready_next [of "cache_view s" "next_conn t"]
      by (auto simp: starting_def db_filling_def grown_def lv_open_def)
    have restored: "starting s (put_db_pool name (dbpool_map s name) t)" if t: "db_filling name ?o t" for t
    proof -
      have "db_view (put_db_pool name (dbpool_map s name) t) = lv_open name (lv_pools (db_view s) name) (db_view t)"
        by (auto simp: put_db_pool_def db_view_def lv_open_def fun_eq_iff)
      moreover have "cache_view (put_db_pool name (dbpool_map s name) t) = cache_view s\<lparr>lv_next := next_conn t\<rparr>"
          "http_part (put_db_pool name (dbpool_map s name) t) = http_part s" "next_conn s \<le> next_conn t"
        using t opn by (simp_all add: db_filling_def grown_def lv_open_def cache_view_def put_db_pool_def http_part_def)
      ultimately show ?thesis
        using True t opn restore_ready [of "db_view s" name "Some ([], 1)" "db_view t"] ready_next [of "cache_view s" "next_conn t"]
        by (simp add: starting_def db_filling_def)
    qed
    have "CDBPool_Init name = the_db_pool name (\<lambda>p. CDBPool_Init_loop name (nat (db_cur_conn_cnt p)))"
      by (simp add: CDBPool_Init_def)
    then have "ensures (\<lambda>r t. db_filling name ?o t \<and> (r = 0 \<longrightarrow> lv_out (db_view t) name = 0)) (CDBPool_Init name) ?o"
      using loop assms(2) by (simp add: the_db_pool_def put_db_pool_def)
    then have "ensures (\<lambda>a. starting s)
        (bindp (CDBPool_Init name) (\<lambda>ret.
          if ret \<noteq> 0 then bindp (modS (put_db_pool name (dbpool_map s name))) (\<lambda>_. Ret 3)
          else if dbpool_map s name \<noteq> None then bindp (modS (put_db_pool name (dbpool_map s name))) (\<lambda>_. Ret 0)
          else Ret 0)) ?o"
      by (rule ensures_bindp) (use same restored in \<open>auto simp: modS_def\<close>)
    then show ?thesis by (simp add: add_db_pool_def readS_def modS_def)
  next
    case False
    then show ?thesis by (intro ensures_mono [OF ensures_True]) (auto simp: starting_def)
  qed
qed


text \<open>The same for CachePool::Init.\<close>

definition cache_filling :: "string \<Rightarrow> srv \<Rightarrow> srv \<Rightarrow> bool" where
  "cache_filling name s t \<longleftrightarrow>
     grown name (cache_view s) (cache_view t) \<and> db_view t = db_view s\<lparr>lv_next := next_conn t\<rparr> \<and> http_part t = http_part s"

lemma cache_filling_trans: "cache_filling name s t \<Longrightarrow> cache_filling name t u \<Longrightarrow> cache_filling name s u"
  by (auto simp: cache_filling_def dest: grown_trans)

lemma cache_connected:
  assumes inv: "view_inv (cache_view s)" and p: "cache_pool_map s name = Some p"
    and init: "same_views (cache_created name p s) t"
  shows "cache_filling name s (t\<lparr>cache_heap := (cache_heap t)(next_conn s := None)\<rparr>)"
    and "cache_filling name s (set_cache_pool name (cache_push (next_conn s)) t)"
    and "cache_pool_map (set_cache_pool name (cache_push (next_conn s)) t) name \<noteq> None"
    and "view_inv (cache_view (set_cache_pool name (cache_push (next_conn s)) t))"
    and "lv_out (cache_view (set_cache_pool name (cache_push (next_conn s)) t)) name = lv_out (cache_view s) name - 1"
proof -
  have view: "cache_view t = lv_create name (cache_view s)" "db_view t = db_view s\<lparr>lv_next := Suc (next_conn s)\<rparr>"
      "cache_pool_map t name = Some p" and http: "http_part t = http_part s"
    using p init by (simp_all add: same_views_def cache_created_views) (simp add: cache_created_def)
  have "lv_next (db_view t) = Suc (next_conn s)" using view(2) by simp
  then have nxt: "next_conn t = Suc (next_conn s)" by simp
  have "db_view (t\<lparr>cache_heap := (cache_heap t)(next_conn s := None)\<rparr>) = db_view t" by (simp add: db_view_def)
  then show "cache_filling name s (t\<lparr>cache_heap := (cache_heap t)(next_conn s := None)\<rparr>)"
    using grown_next [OF inv, of "Suc (next_conn s)" name] http view(2) nxt
    by (simp add: cache_filling_def cache_deleted_view [OF view(1) inv])
  have fresh: "next_conn s \<notin> set (free_list p)" using view_invD(4) [OF inv, of _ name] p by auto
  have give: "cache_view (set_cache_pool name (cache_push (next_conn s)) t) = lv_give name (lv_next (cache_view s)) (lv_create name (cache_view s))"
    unfolding view(1) [symmetric] using view(3) fresh
    by (auto simp: cache_view_def set_cache_pool_def cache_push_def lv_give_def fun_eq_iff)
  have "lv_pools (cache_view s) name \<noteq> None" using p by simp
  note fill = grown_fill [OF inv this]
  show "cache_filling name s (set_cache_pool name (cache_push (next_conn s)) t)"
    using fill(1) give view(2) http nxt by (simp add: cache_filling_def) (simp add: set_cache_pool_def)
  then show "view_inv (cache_view (set_cache_pool name (cache_push (next_conn s)) t))"
    by (simp add: cache_filling_def grown_def)
  show "lv_out (cache_view (set_cache_pool name (cache_push (next_conn s)) t)) name = lv_out (cache_view s) name - 1"
    using fill(2) give by simp
  show "cache_pool_map (set_cache_pool name (cache_push (next_conn s)) t) name \<noteq> None"
    using view(3) by (simp add: set_cache_pool_def)
qed

lemma CachePool_Init_loop_fills:
  "view_inv (cache_view s) \<Longrightarrow> cache_pool_map s name \<noteq> None \<Longrightarrow>
   ensures (\<lambda>r t. cache_filling name s t \<and> (r = 0 \<longrightarrow> lv_out (cache_view t) name = lv_out (cache_view s) name - int n))
     (CachePool_Init_loop name n) s"
proof (induction n arbitrary: s)
  case 0
  then show ?case by (simp add: cache_filling_def grown_def db_view_def)
next
  case (Suc n)
  then obtain p where p: "cache_pool_map s name = Some p" by blast
  let ?Q = "\<lambda>r t. cache_filling name s t \<and> (r = 0 \<longrightarrow> lv_out (cache_view t) name = lv_out (cache_view s) name - int (Suc n))"
  have "ensures ?Q
      (bindp (CacheConn_Init (Some (next_conn s))) (\<lambda>ret.
        if ret \<noteq> 0 then bindp (delete_CacheConn (next_conn s)) (\<lambda>_. Ret 1)
        else bindp (modS (set_cache_pool name (cache_push (next_conn s)))) (\<lambda>_. CachePool_Init_loop name n)))
      (cache_created name p s)"
  proof (rule ensures_bindp)
    show "ensures (\<lambda>a. same_views (cache_created name p s)) (CacheConn_Init (Some (next_conn s))) (cache_created name p s)"
      using keeps_Init_same_views by (simp add: keeps_def)
    fix ret t assume "same_views (cache_created name p s) t"
    note conn = cache_connected [OF Suc.prems(1) p this]
    have "ensures ?Q (CachePool_Init_loop name n) (set_cache_pool name (cache_push (next_conn s)) t)"
      using Suc.IH [OF conn(4,3)] by (rule ensures_mono) (use conn(2,5) cache_filling_trans in auto)
    then show "ensures ?Q (if ret \<noteq> 0 then bindp (delete_CacheConn (next_conn s)) (\<lambda>_. Ret 1)
        else bindp (modS (set_cache_pool name (cache_push (next_conn s)))) (\<lambda>_. CachePool_Init_loop name n)) t"
      using conn(1) by (simp add: delete_CacheConn_def modS_def)
  qed
  then show ?case
    using p by (simp add: the_cache_pool_def new_CacheConn_def cache_created_def)
qed

lemma keeps_add_cache_pool:
  assumes "free_list p = []" and "cur_conn_cnt p = 2"
  shows "keeps starting (add_cache_pool name p)"
  unfolding keeps_def
proof
  fix s
  show "ensures (\<lambda>a. starting s) (add_cache_pool name p) s"
  proof (cases "view_ready (db_view s) \<and> view_ready (cache_view s)")
    case True
    let ?o = "put_cache_pool name (Some p) s"
    have opn: "cache_view ?o = lv_open name (Some ([], 2)) (cache_view s)" "db_view ?o = db_view s" "http_part ?o = http_part s"
        "next_conn ?o = next_conn s"
      using assms by (auto simp: put_cache_pool_def db_view_def cache_view_def lv_open_def http_part_def fun_eq_iff)
    have out: "lv_out (cache_view ?o) name = 2" by (simp add: opn lv_open_def lv_out_def)
    have "view_inv (cache_view ?o)" using True opn(1) lv_open_inv by (simp add: view_ready_def)
    moreover have "cache_pool_map ?o name \<noteq> None" by (simp add: put_cache_pool_def)
    ultimately have loop: "ensures (\<lambda>r t. cache_filling name ?o t \<and> (r = 0 \<longrightarrow> lv_out (cache_view t) name = 0))
        (CachePool_Init_loop name 2) ?o"
      using CachePool_Init_loop_fills [of ?o name 2] out by simp
    have same: "starting s t" if "cache_filling name ?o t" "lv_out (cache_view t) name = 0" for t
      using True that opn grown_ready [of "cache_view s" name 2 "cache_view t"] ready_next [of "db_view s" "next_conn t"]
      by (auto simp: starting_def cache_filling_def grown_def lv_open_def)
    have restored: "starting s (put_cache_pool name (cache_pool_map s name) t)" if t: "cache_filling name ?o t" for t
    proof -
      have "cache_view (put_cache_pool name (cache_pool_map s name) t) = lv_open name (lv_pools (cache_view s) name) (cache_view t)"
        by (auto simp: put_cache_pool_def cache_view_def lv_open_def fun_eq_iff)
      moreover have "db_view (put_cache_pool name (cache_pool_map s name) t) = db_view s\<lparr>lv_next := next_conn t\<rparr>"
          "http_part (put_cache_pool name (cache_pool_map s name) t) = http_part s" "next_conn s \<le> next_conn t"
        using t opn by (simp_all add: cache_filling_def grown_def lv_open_def db_view_def put_cache_pool_def http_part_def)
      ultimately show ?thesis
        using True t opn restore_ready [of "cache_view s" name "Some ([], 2)" "cache_view t"] ready_next [of "db_view s" "next_conn t"]
        by (simp add: starting_def cache_filling_def)
    qed
    have "ensures (\<lambda>r t. cache_filling name ?o t \<and> (r = 0 \<longrightarrow> lv_out (cache_view t) name = 0)) (CachePool_Init name) ?o"
      using loop assms(2) by (simp add: CachePool_Init_def the_cache_pool_def put_cache_pool_def)
    then have "ensures (\<lambda>a. starting s)
        (bindp (CachePool_Init name) (\<lambda>ret.
          if ret \<noteq> 0 then bindp (modS (put_cache_pool name (cache_pool_map s name))) (\<lambda>_. Ret 3)
          else if cache_pool_map s name \<noteq> None then bindp (modS (put_cache_pool name (cache_pool_map s name))) (\<lambda>_. Ret 0)
          else Ret 0)) ?o"
      by (rule ensures_bindp) (use same restored in \<open>auto simp: modS_def\<close>)
    then show ?thesis by (simp add: add_cache_pool_def readS_def modS_def)
  next
    case False
    then show ?thesis by (intro ensures_mono [OF ensures_True]) (auto simp: starting_def)
  qed
qed

section \<open>The start keeps every pool complete\<close>

lemma ready_bal: "view_ready v \<Longrightarrow> view_bal v v' \<Longrightarrow> view_ready v'"
  by (auto simp: view_ready_def view_bal_def)

lemma keeps_starting_balanced: "keeps balanced p \<Longrightarrow> keeps starting p"
  by (erule keeps_mono) (auto simp: balanced_def starting_def dest: ready_bal)

lemma keeps_pool_item [simp]: "reflp R \<Longrightarrow> transp R \<Longrightarrow> keeps R (GetConfigName cfg n)"
  "reflp R \<Longrightarrow> transp R \<Longrightarrow> keeps R (pool_item cfg name suffix)"
  by (auto simp: pool_item_def GetConfigName_def intro!: keeps_bindp)

lemma keeps_new_reader [simp]: "reflp R \<Longrightarrow> keeps R (new_CConfigFileReader f)"
  by (auto simp: new_CConfigFileReader_def LoadFile_def split: option.split)

lemma keeps_CDBManager_Init_loop [simp]: "keeps starting (CDBManager_Init_loop cfg items)"
proof (induction items)
  case (Cons item items)
  have add: "keeps starting (add_db_pool name (new_CDBPool host port usr pwd dbname m))" for name host port usr pwd dbname m
    by (rule keeps_add_db_pool) (simp_all add: new_CDBPool_def MIN_DB_CONN_CNT_def)
  show ?case
    using Cons add by (auto intro!: keeps_bindp split: option.split)
qed simp

lemma keeps_CacheManager_Init_loop [simp]: "keeps starting (CacheManager_Init_loop cfg items)"
proof (induction items)
  case (Cons item items)
  have add: "keeps starting (add_cache_pool name (new_CachePool host port pwd m))" for name host port pwd m
    by (rule keeps_add_cache_pool) (simp_all add: new_CachePool_def MIN_CACHE_CONN_CNT_def)
  show ?case
    using Cons add by (auto intro!: keeps_bindp split: option.split)
qed simp


lemma keeps_getInstance [simp]: "keeps starting CDBManager_getInstance" "keeps starting CacheManager_getInstance"
proof -
  have clear: "keeps starting (modS (dbpool_map_update (\<lambda>_. Map.empty)))" "keeps starting (modS (cache_pool_map_update (\<lambda>_. Map.empty)))"
    by (auto simp: keeps_modS starting_def view_ready_def view_inv_def db_view_def cache_view_def lv_free_def lv_out_def http_part_def)
  have "keeps starting CDBManager_Init" "keeps starting CacheManager_Init"
    by (auto simp: CDBManager_Init_def CacheManager_Init_def split: option.split intro!: keeps_bindp)
  with clear show "keeps starting CDBManager_getInstance" "keeps starting CacheManager_getInstance"
    by (auto simp: CDBManager_getInstance_def CacheManager_getInstance_def intro!: keeps_bindp)
qed

lemma keeps_listen_loop [simp]: "keeps starting (listen_loop items port)"
  by (induction items) (auto intro!: keeps_bindp)

lemma keeps_config_strings [simp]:
  "keeps starting (ApiUploadInit a b c d e)" "keeps starting (ApiDealfileInit a)"
  by (auto simp: ApiUploadInit_def ApiDealfileInit_def keeps_modS starting_def db_view_def cache_view_def http_part_def
      intro!: keeps_bindp)

lemma keeps_ApiInit [simp]: "keeps starting ApiInit"
  by (rule keeps_starting_balanced)
    (auto simp: ApiInit_def DBGetShareFilesCount_def intro!: keeps_bindp)

lemma keeps_server_main: "keeps starting server_main"
  unfolding server_main_def
  by (intro keeps_bindp keeps_if starting_props; simp add: keeps_bindp split: option.split;
    intro allI impI keeps_request; simp)

text \<open>The memory of the process before main.\<close>

definition blank_srv :: srv where
  "blank_srv =
     \<lparr>db_heap = Map.empty, cache_heap = Map.empty, next_conn = 0, dbpool_map = Map.empty, cache_pool_map = Map.empty,
      s_response_pdu_list = [], s_dfs_path_client = [], s_web_server_ip = [], s_web_server_port = [],
      s_storage_web_server_ip = [], s_storage_web_server_port = [], http_heap = Map.empty, next_http = 0,
      g_http_conn_map = [], g_uuid_conn_map = [], g_conn_handle_generator = 0, s_uuid_alloctor = 0, pool_tasks = []\<rparr>"

lemma blank_ready: "view_ready (db_view blank_srv)" "view_ready (cache_view blank_srv)" "http_inv blank_srv"
  by (auto simp: view_ready_def view_inv_def db_view_def cache_view_def lv_free_def lv_out_def blank_srv_def http_inv_def)

definition pools_complete :: "srv \<Rightarrow> bool" where
  "pools_complete s \<longleftrightarrow>
     (\<forall>name p. dbpool_map s name = Some p \<longrightarrow> distinct (db_free_list p) \<and> int (length (db_free_list p)) = db_cur_conn_cnt p) \<and>
     (\<forall>name p. cache_pool_map s name = Some p \<longrightarrow> distinct (free_list p) \<and> int (length (free_list p)) = cur_conn_cnt p)"

lemma ready_complete:
  assumes "view_inv (db_view s)" "view_inv (cache_view s)" "\<forall>n. lv_out (db_view s) n = 0 \<and> lv_out (cache_view s) n = 0"
  shows "pools_complete s"
proof -
  have "distinct (db_free_list p) \<and> int (length (db_free_list p)) = db_cur_conn_cnt p" if "dbpool_map s name = Some p" for name p
    using assms(1) [THEN view_invD(1), of name] assms(3) [rule_format, of name] that by (simp add: lv_out_def)
  moreover have "distinct (free_list p) \<and> int (length (free_list p)) = cur_conn_cnt p" if "cache_pool_map s name = Some p" for name p
    using assms(2) [THEN view_invD(1), of name] assms(3) [rule_format, of name] that by (simp add: lv_out_def)
  ultimately show ?thesis by (simp add: pools_complete_def)
qed

text \<open>
  The callbacks that do not run an API function and do not complete a write: from a state with sound
  maps they can run into any fault but the use of a connection that was deleted.
\<close>

lemma secures_ensures: "secures B Q p s \<Longrightarrow> ensures R p s \<Longrightarrow> secures B (\<lambda>a t. Q a t \<and> R a t) p s"
  by (induction p arbitrary: s) auto

lemma secures_no_crash: "secures (- {e}) Q p s \<Longrightarrow> fst (run E p s w) \<noteq> Crashed e"
  using secures_crash [of "- {e}" Q p s E w e] by (cases "run E p s w") auto

lemma secures_http_conn:
  assumes "http_heap s c = Some conn"
  shows "secures B Q (the_http_conn c k) s = secures B Q (k conn) s"
    and "secures B Q' (set_http_conn c f) s = Q' () (put_http_conn c (Some (f conn)) s)"
  using assms by (simp_all add: the_http_conn_def set_http_conn_def modS_def)

lemma secures_modS [simp]: "secures B Q (modS f) s = Q () (f s)" "secures B Q' (readS g) s = Q' (g s) s"
  by (simp_all add: modS_def readS_def)

lemma secures_bind_http_conn:
  assumes "http_heap s c = Some conn" and "secures B Q (k ()) (put_http_conn c (Some (f conn)) s)"
  shows "secures B Q (bindp (set_http_conn c f) k) s"
  using assms by (simp add: set_http_conn_def the_http_conn_def modS_def)

lemma Close_secure:
  assumes "http_heap s c = Some conn"
  shows "secures (- {UseAfterFree}) (\<lambda>_ _. True) (CHttpConn_Close c) s"
proof -
  let ?conn = "conn\<lparr>hc_state := ConnClosed\<rparr>"
  show ?thesis unfolding CHttpConn_Close_def
    by (rule secures_bind_http_conn [OF assms])
      (simp add: the_http_conn_def put_http_conn_def modS_def ReleaseRef_def)
qed

lemma in_memory_secure: "(\<And>b. m = Some b \<Longrightarrow> secures (- {UseAfterFree}) Q (k b) s) \<Longrightarrow>
    secures (- {UseAfterFree}) Q (bindp (in_memory m) k) s"
  by (cases m) (simp_all add: in_memory_def)

lemma Send_secure:
  assumes "http_heap s c = Some conn"
  shows "secures (- {UseAfterFree}) (\<lambda>_ _. True) (CHttpConn_Send c data) s"
proof -
  have "secures (- {UseAfterFree}) (\<lambda>_ _. True)
     (bindp (set_http_conn c (last_send_tick_update (\<lambda>_. os_int t))) (\<lambda>_.
      the_http_conn c (\<lambda>conn.
        if busy conn then
          bindp (in_memory (CSimpleBuffer_Write data (out_buf conn))) (\<lambda>b.
          bindp (set_http_conn c (out_buf_update (\<lambda>_. b))) (\<lambda>_. Ret (length data)))
        else
          Os (OsSend (m_sock_handle conn) data) (\<lambda>r.
          let sent = (if os_int r < 0 then 0 else os_int r)
          in if sent < int (length data) then
               bindp (in_memory (CSimpleBuffer_Write (drop (nat sent) data) (out_buf conn))) (\<lambda>b.
               bindp (set_http_conn c (\<lambda>conn. conn\<lparr>out_buf := b, busy := True\<rparr>)) (\<lambda>_. Ret (length data)))
             else bindp (CHttpConn_Close c) (\<lambda>_. Ret (length data)))))) s" for t
  proof (rule secures_bind_http_conn [OF assms])
    let ?conn = "last_send_tick_update (\<lambda>_. os_int t) conn" and ?s = "put_http_conn c (Some (last_send_tick_update (\<lambda>_. os_int t) conn)) s"
    have here: "http_heap ?s c = Some ?conn" by simp
    have close: "secures (- {UseAfterFree}) (\<lambda>_ _. True) (bindp (CHttpConn_Close c) (\<lambda>_. Ret (length data))) ?s"
      by (rule secures_bindp [OF Close_secure [OF here]]) simp
    have pend: "secures (- {UseAfterFree}) (\<lambda>_ _. True) (bindp (in_memory m) (\<lambda>b. bindp (set_http_conn c (f b)) (\<lambda>_. Ret (length data)))) ?s"
      for m :: "char simple_buffer option" and f :: "char simple_buffer \<Rightarrow> http_conn \<Rightarrow> http_conn"
      by (intro in_memory_secure secures_bind_http_conn [OF here]) simp
    show "secures (- {UseAfterFree}) (\<lambda>_ _. True)
       (the_http_conn c (\<lambda>conn.
        if busy conn then
          bindp (in_memory (CSimpleBuffer_Write data (out_buf conn))) (\<lambda>b.
          bindp (set_http_conn c (out_buf_update (\<lambda>_. b))) (\<lambda>_. Ret (length data)))
        else
          Os (OsSend (m_sock_handle conn) data) (\<lambda>r.
          let sent = (if os_int r < 0 then 0 else os_int r)
          in if sent < int (length data) then
               bindp (in_memory (CSimpleBuffer_Write (drop (nat sent) data) (out_buf conn))) (\<lambda>b.
               bindp (set_http_conn c (\<lambda>conn. conn\<lparr>out_buf := b, busy := True\<rparr>)) (\<lambda>_. Ret (length data)))
             else bindp (CHttpConn_Close c) (\<lambda>_. Ret (length data))))) ?s"
      unfolding secures_http_conn(1) [OF here] using close pend by (simp add: Let_def)
  qed
  then show ?thesis unfolding CHttpConn_Send_def secures.simps by blast
qed

lemma send_responses_secure: "http_inv s \<Longrightarrow> secures (- {UseAfterFree}) (\<lambda>_ _. True) (send_responses n) s"
proof (induction n arbitrary: s)
  case (Suc n)
  have go: "secures (- {UseAfterFree}) (\<lambda>_ _. True)
      (bindp (case map_of (g_uuid_conn_map t) u of None \<Rightarrow> Ret 0 | Some c \<Rightarrow> CHttpConn_Send c data) (\<lambda>_. send_responses n)) t"
    if inv: "http_inv t" for t u data
  proof (cases "map_of (g_uuid_conn_map t) u")
    case None
    then show ?thesis using Suc.IH [OF inv] by simp
  next
    case (Some c)
    then obtain conn where c: "http_heap t c = Some conn" using uuid_object [OF inv] by blast
    have "ensures (\<lambda>_. sound t) (CHttpConn_Send c data) t" using keeps_Send by (simp add: keeps_def)
    then have "secures (- {UseAfterFree}) (\<lambda>_ u. True \<and> sound t u) (CHttpConn_Send c data) t"
      using secures_ensures [OF Send_secure [OF c]] by blast
    then have "secures (- {UseAfterFree}) (\<lambda>_ _. True) (bindp (CHttpConn_Send c data) (\<lambda>_. send_responses n)) t"
      by (rule secures_bindp) (use Suc.IH inv in \<open>simp add: sound_def\<close>)
    then show ?thesis using Some by simp
  qed
  have "http_inv (s\<lparr>s_response_pdu_list := rest\<rparr>)" for rest using Suc.prems by (simp add: http_inv_def)
  then have "secures (- {UseAfterFree}) (\<lambda>_ _. True)
      (bindp (case map_of (g_uuid_conn_map s) u of None \<Rightarrow> Ret 0 | Some c \<Rightarrow> CHttpConn_Send c data) (\<lambda>_. send_responses n))
      (s\<lparr>s_response_pdu_list := rest\<rparr>)" for rest u data
    using go [where t = "s\<lparr>s_response_pdu_list := rest\<rparr>" and u = u and data = data] by simp
  then show ?case by (auto simp: readS_def modS_def GetHttpConnByUuid_def split: list.split)
qed simp

lemma callbacks_secure:
  assumes "http_inv s"
  shows "secures (- {UseAfterFree}) (\<lambda>_ _. True) (http_callback h) s"
    and "secures (- {UseAfterFree}) (\<lambda>_ _. True) SendResponseDataList s"
    and "secures (- {UseAfterFree}) (\<lambda>_ _. True) (httpconn_callback n k MsgClose) s"
proof -
  show "secures (- {UseAfterFree}) (\<lambda>_ _. True) (http_callback h) s"
    by (simp add: http_callback_def new_CHttpConn_def CHttpConn_OnConnect_def set_http_conn_def the_http_conn_def modS_def
        put_http_conn_def Let_def)
  show "secures (- {UseAfterFree}) (\<lambda>_ _. True) SendResponseDataList s"
    using send_responses_secure [OF assms] by (simp add: SendResponseDataList_def readS_def)
  have "secures (- {UseAfterFree}) (\<lambda>_ _. True) (bindp (CHttpConn_Close c) (\<lambda>_. Ret (Some ()))) s"
    if "map_of (g_http_conn_map s) k = Some c" for c
  proof -
    obtain conn where "http_heap s c = Some conn" using assms map_of_SomeD [OF \<open>map_of (g_http_conn_map s) k = Some c\<close>] unfolding http_inv_def by blast
    then show ?thesis by (intro secures_bindp [OF Close_secure]) simp_all
  qed
  then show "secures (- {UseAfterFree}) (\<lambda>_ _. True) (httpconn_callback n k MsgClose) s"
    by (auto simp: httpconn_callback_def FindHttpConnByHandle_def readS_def split: option.split)
qed

text \<open>
  C1. From main on, whatever the configuration, the databases, the clients and the scheduler do: take
  any sequence of callbacks of the event loop and tasks of the workers, each run to its end as one
  step (runs that crash or block end the sequence). In every state between two of them every entry
  of the two maps of the event loop leads to a living connection with that number, every living
  connection has one reference, no connection pool has lost a connection, and each free list holds as
  many different connections as the pool has opened. From such a state accepting a client, sending
  the queued responses and closing a connection never use a connection that was deleted.
\<close>

theorem started_server_sound:
  assumes "run E server_main blank_srv w = (Done 0, s, w1)" and "(server_step E)\<^sup>*\<^sup>* (s, w1) (t, v)"
  shows "http_inv t \<and> pools_complete t \<and>
    fst (run E (http_callback h) t v) \<noteq> Crashed UseAfterFree \<and>
    fst (run E SendResponseDataList t v) \<noteq> Crashed UseAfterFree \<and>
    fst (run E (httpconn_callback n k MsgClose) t v) \<noteq> Crashed UseAfterFree"
proof -
  have "starting blank_srv s" using keeps_server_main assms(1) by (rule keeps_run)
  then have s: "view_ready (db_view s)" "view_ready (cache_view s)" and http: "http_part s = http_part blank_srv"
    using blank_ready by (simp_all add: starting_def)
  have "http_inv s" using http_inv_part [OF http] blank_ready(3) by simp
  then have "sound s t" using server_steps_sound [OF assms(2)] by simp
  with s \<open>http_inv s\<close> have t: "view_ready (db_view t)" "view_ready (cache_view t)" "http_inv t"
    by (auto simp: sound_def dest: ready_bal)
  then have "http_inv t \<and> pools_complete t" using ready_complete by (simp add: view_ready_def)
  then show ?thesis by (intro conjI secures_no_crash) (blast | rule callbacks_secure [OF t(3)])+
qed

text \<open>A configuration, and services that answer it.\<close>

fun conf_text :: "string list \<Rightarrow> string" where
  "conf_text [] = []"
| "conf_text (l # ls) = l @ [LF] @ conf_text ls"

definition start_file :: string where
  "start_file = conf_text
     [''HttpListenIP=0.0.0.0'', ''HttpPort=8081'', ''ThreadNum=4'', ''dfs_path_client=/c'', ''web_server_ip=a'',
      ''web_server_port=80'', ''storage_web_server_ip=a'', ''storage_web_server_port=80'',
      ''DBInstances=tuchuang_slave'', ''tuchuang_slave_host=h'', ''tuchuang_slave_port=3306'', ''tuchuang_slave_dbname=d'',
      ''tuchuang_slave_username=u'', ''tuchuang_slave_password=p'', ''tuchuang_slave_maxconncnt=4'',
      ''CacheInstances=token'', ''token_host=h'', ''token_port=6379'', ''token_db=0'', ''token_maxconncnt=4'']"

definition start_env :: "unit env" where
  "start_env =
     \<lparr>env_mysql_connect = (\<lambda>w ps. (Connected, w)),
      env_mysql = (\<lambda>w q. (one_cell ''count(*)'' (show_int 3), w)),
      env_stmt = (\<lambda>w q ps. (Executed 1 1, w)), env_redis_connect = (\<lambda>w h p. (True, w)),
      env_redis = (\<lambda>w c. (Some (RStatus ''OK''), w)),
      env_os = (\<lambda>w c.
        (case c of OsListen ip port \<Rightarrow> \<lparr>os_int = 0, os_str = []\<rparr> | OsNetInit \<Rightarrow> \<lparr>os_int = 0, os_str = []\<rparr>
         | _ \<Rightarrow> \<lparr>os_int = 1, os_str = start_file\<rparr>, w)),
      env_libc = demo_libc\<rparr>"


definition start_map :: "(string \<times> string) list" where
  "start_map =
     [(''CacheInstances'', ''token''), (''DBInstances'', ''tuchuang_slave''), (''HttpListenIP'', ''0.0.0.0''), (''HttpPort'', ''8081''),
      (''ThreadNum'', ''4''), (''dfs_path_client'', ''/c''), (''storage_web_server_ip'', ''a''), (''storage_web_server_port'', ''80''),
      (''token_db'', ''0''), (''token_host'', ''h''), (''token_maxconncnt'', ''4''), (''token_port'', ''6379''),
      (''tuchuang_slave_dbname'', ''d''), (''tuchuang_slave_host'', ''h''), (''tuchuang_slave_maxconncnt'', ''4''),
      (''tuchuang_slave_password'', ''p''), (''tuchuang_slave_port'', ''3306''), (''tuchuang_slave_username'', ''u''),
      (''web_server_ip'', ''a''), (''web_server_port'', ''80'')]"

lemma start_loads: "load_lines (read_lines start_file) [] = Some start_map"
  by code_simp

definition start_cfg :: config_reader where
  "start_cfg = \<lparr>load_ok = Some True, config_map = start_map, config_file = CONF\<rparr>"

lemma start_env_simps [simp]:
  "env_mysql_connect start_env w ps = (Connected, w)"
  "env_mysql start_env w q = (one_cell ''count(*)'' (show_int 3), w)"
  "env_redis_connect start_env w h p = (True, w)" "env_redis start_env w c = (Some (RStatus ''OK''), w)"
  "env_os start_env w (OsReadFile f) = (\<lparr>os_int = 1, os_str = start_file\<rparr>, w)"
  "env_os start_env w OsTime = (\<lparr>os_int = 1, os_str = start_file\<rparr>, w)"
  "env_os start_env w (OsListen ip port) = (\<lparr>os_int = 0, os_str = []\<rparr>, w)"
  "env_os start_env w OsNetInit = (\<lparr>os_int = 0, os_str = []\<rparr>, w)"
  by (simp_all add: start_env_def)

lemma run_start_reader [simp]:
  "run start_env (new_CConfigFileReader CONF) s w = (Done start_cfg, s, w)"
  "run start_env (GetConfigName start_cfg n) s w = (Done (map_of start_map n), s, w)"
  by (simp_all add: new_CConfigFileReader_def LoadFile_def start_loads start_cfg_def GetConfigName_def init_read_def)

lemma start_names [simp]:
  "item_list (new_CStrExplode ''token'' (CHR '','')) = [Some ''token'']"
  "item_list (new_CStrExplode ''tuchuang_slave'' (CHR '','')) = [Some ''tuchuang_slave'']"
  "item_list (new_CStrExplode ''0.0.0.0'' (CHR '';'')) = [Some ''0.0.0.0'']"
  "atoi ''4'' = 4" "atoi ''3'' = 3"
  by code_simp+

lemma start_items [simp]:
  "run start_env (pool_item start_cfg ''token'' ''_host'') s w = (Done (Some ''h''), s, w)"
  "run start_env (pool_item start_cfg ''token'' ''_port'') s w = (Done (Some ''6379''), s, w)"
  "run start_env (pool_item start_cfg ''token'' ''_db'') s w = (Done (Some ''0''), s, w)"
  "run start_env (pool_item start_cfg ''token'' ''_maxconncnt'') s w = (Done (Some ''4''), s, w)"
  "run start_env (pool_item start_cfg ''tuchuang_slave'' ''_host'') s w = (Done (Some ''h''), s, w)"
  "run start_env (pool_item start_cfg ''tuchuang_slave'' ''_port'') s w = (Done (Some ''3306''), s, w)"
  "run start_env (pool_item start_cfg ''tuchuang_slave'' ''_dbname'') s w = (Done (Some ''d''), s, w)"
  "run start_env (pool_item start_cfg ''tuchuang_slave'' ''_username'') s w = (Done (Some ''u''), s, w)"
  "run start_env (pool_item start_cfg ''tuchuang_slave'' ''_password'') s w = (Done (Some ''p''), s, w)"
  "run start_env (pool_item start_cfg ''tuchuang_slave'' ''_maxconncnt'') s w = (Done (Some ''4''), s, w)"
  by (simp_all add: pool_item_def snprintf_buf_def c_str_def NUL_def start_map_def)

lemma start_caches:
  "\<exists>s p. run start_env CacheManager_getInstance blank_srv () = (Done True, s, ()) \<and>
     cache_pool_map s ''token'' = Some p \<and> free_list p = [0, 1] \<and> \<not> abort_request p \<and>
     (\<forall>c \<in> {0, 1}. \<exists>cc. cache_heap s c = Some cc \<and> cc_context cc \<and> cc_pool cc = ''token'') \<and> dbpool_map s = Map.empty \<and> next_conn s = 2"
  by (simp add: CacheManager_getInstance_def CacheManager_Init_def start_map_def init_read_def add_cache_pool_def
      put_cache_pool_def CachePool_Init_def the_cache_pool_def blank_srv_def new_CachePool_def MIN_CACHE_CONN_CNT_def
      new_CacheConn_def CacheConn_Init_def the_cache_conn_def select_db_def set_context_def cache_update_at_def
      set_cache_pool_def cache_push_def c_str_def NUL_def is_RStatus_def reply_text_def reply_str_def numeral_2_eq_2 Let_def)

lemma start_pools:
  assumes "dbpool_map s = Map.empty" and "next_conn s = 2" and "cache_pool_map s ''token'' = Some q"
  shows "\<exists>t p. run start_env CDBManager_getInstance s () = (Done True, t, ()) \<and>
     dbpool_map t ''tuchuang_slave'' = Some p \<and> db_free_list p = [2] \<and> \<not> db_abort p \<and>
     db_heap t 2 = Some \<lparr>dbc_pool = ''tuchuang_slave'', row_num = 0\<rparr> \<and> cache_pool_map t = cache_pool_map s \<and> cache_heap t = cache_heap s"
  using assms
  by (simp add: CDBManager_getInstance_def CDBManager_Init_def start_map_def init_read_def add_db_pool_def
      put_db_pool_def CDBPool_Init_def the_db_pool_def new_CDBPool_def MIN_DB_CONN_CNT_def
      new_CDBConn_def CDBConn_Init_def set_db_pool_def db_push_def c_str_def NUL_def)


lemma start_ApiInit: "yields start_env (serving cf None None) () ApiInit 0 () (serving cf None None)"
  unfolding ApiInit_def DBGetShareFilesCount_def
  by (rule yields_with_db_conn, rule yields_with_cache_conn, rule yields_bindp, rule yields_DBGetCount [where n = 3],
      simp, simp add: is_int32_def, simp only: prod.case less_irrefl if_False, rule yields_bindp,
      rule yields_CacheSetCount [where r = "RStatus ''OK''"])
    (simp_all add: reply_text_def reply_str_def)

lemma server_starts: "\<exists>s. run start_env server_main blank_srv () = (Done 0, s, ())"
proof -
  obtain s p where s: "run start_env CacheManager_getInstance blank_srv () = (Done True, s, ())"
      "cache_pool_map s ''token'' = Some p" "free_list p = [0, 1]" "\<not> abort_request p"
      "\<forall>c \<in> {0, 1}. \<exists>cc. cache_heap s c = Some cc \<and> cc_context cc \<and> cc_pool cc = ''token''"
      "dbpool_map s = Map.empty" "next_conn s = 2"
    using start_caches by blast
  obtain t q where t: "run start_env CDBManager_getInstance s () = (Done True, t, ())"
      "dbpool_map t ''tuchuang_slave'' = Some q" "db_free_list q = [2]" "\<not> db_abort q"
      "db_heap t 2 = Some \<lparr>dbc_pool = ''tuchuang_slave'', row_num = 0\<rparr>" "cache_pool_map t = cache_pool_map s" "cache_heap t = cache_heap s"
    using start_pools [OF s(6,7,2)] by blast
  let ?t = "t\<lparr>s_web_server_ip := ''a'', s_web_server_port := ''80'', s_storage_web_server_ip := ''a'',
      s_storage_web_server_port := ''80'', s_dfs_path_client := ''/c''\<rparr>"
  have "serving (srv_config ?t) None None ?t"
    using s t by (auto simp: serving_def db_serving_def cache_serving_def opt_list_def slave_def token_pool_def)
  then obtain u where u: "run start_env ApiInit ?t () = (Done 0, u, ())"
    using start_ApiInit [of "srv_config ?t"] by (auto simp: yields_def)
  then show ?thesis
    using s(1) t(1) u
    by (simp add: server_main_def ApiUploadInit_def ApiDealfileInit_def start_map_def deref_def init_read_def)
qed

theorem started_server_sound_witness:
  "\<exists>s. run start_env server_main blank_srv () = (Done 0, s, ()) \<and> http_inv s \<and> pools_complete s \<and>
     fst (run start_env (http_callback 7) s ()) \<noteq> Crashed UseAfterFree"
proof -
  obtain s where s: "run start_env server_main blank_srv () = (Done 0, s, ())" using server_starts by blast
  show ?thesis using s started_server_sound [OF s rtranclp.rtrancl_refl, of 7 0 0] by blast
qed


section \<open>The pool the handlers ask for\<close>

definition same_pool :: "string \<Rightarrow> srv \<Rightarrow> srv \<Rightarrow> bool" where
  "same_pool n s t \<longleftrightarrow> dbpool_map t n = dbpool_map s n"

lemma same_pool_props [simp]: "reflp (same_pool n)" "transp (same_pool n)"
  by (auto simp: same_pool_def reflp_def intro!: transpI)

lemma keeps_same_pool_step [simp]:
  "name \<noteq> n \<Longrightarrow> keeps (same_pool n) (modS (set_db_pool name f))"
  "name \<noteq> n \<Longrightarrow> keeps (same_pool n) (modS (put_db_pool name p))"
  "keeps (same_pool n) (new_CDBConn name)" "keeps (same_pool n) (delete_CDBConn c)" "keeps (same_pool n) (CDBConn_Init q)"
  by (auto simp: keeps_modS same_pool_def set_db_pool_def put_db_pool_def new_CDBConn_def delete_CDBConn_def CDBConn_Init_def
      keeps_def modS_def)

lemma keeps_same_pool_loop: "name \<noteq> n \<Longrightarrow> keeps (same_pool n) (CDBPool_Init_loop name k)"
proof (induction k)
  case (Suc k)
  have pool: "keeps (same_pool n) (the_db_pool name f)" if "\<And>p. keeps (same_pool n) (f p)" for f :: "db_pool \<Rightarrow> int prog"
    using that by (auto simp: the_db_pool_def keeps_def split: option.splits)
  show ?case using Suc by (auto intro!: pool keeps_bindp)
qed simp

lemma keeps_same_pool_add: "name \<noteq> n \<Longrightarrow> keeps (same_pool n) (add_db_pool name p)"
proof -
  assume name: "name \<noteq> n"
  have "keeps (same_pool n) (CDBPool_Init name)"
    using keeps_same_pool_loop [OF name] by (auto simp: CDBPool_Init_def the_db_pool_def keeps_def split: option.splits)
  then show ?thesis using name by (auto simp: add_db_pool_def intro!: keeps_bindp)
qed

lemma keeps_same_pool_Init_loop: "Some n \<notin> set items \<Longrightarrow> keeps (same_pool n) (CDBManager_Init_loop cfg items)"
proof (induction items)
  case (Cons item items)
  then have rest: "keeps (same_pool n) (CDBManager_Init_loop cfg items)" by simp
  show ?case
  proof (cases item)
    case (Some name)
    then have "keeps (same_pool n) (add_db_pool name p)" for p using Cons.prems keeps_same_pool_add by auto
    with rest Some show ?thesis by (auto simp: init_read_def intro!: keeps_bindp split: option.split)
  qed (simp add: init_read_def)
qed simp

text \<open>The Redis pools are another map.\<close>

lemma keeps_same_pool_cache [simp]:
  "keeps (same_pool n) (modS (set_cache_pool name f))" "keeps (same_pool n) (modS (put_cache_pool name q))"
  "keeps (same_pool n) (new_CacheConn name p)" "keeps (same_pool n) (delete_CacheConn c)"
  by (auto simp: keeps_modS same_pool_def set_cache_pool_def put_cache_pool_def new_CacheConn_def delete_CacheConn_def
      keeps_def modS_def)

lemma keeps_same_pool_CacheConn_Init [simp]: "keeps (same_pool n) (CacheConn_Init p)"
  by (rule keeps_CacheConn_Init) (simp_all add: same_pool_def cache_update_at_def)

lemma keeps_same_pool_cache_loop [simp]: "keeps (same_pool n) (CachePool_Init_loop name k)"
proof (induction k)
  case (Suc k)
  have pool: "keeps (same_pool n) (the_cache_pool name f)" if "\<And>p. keeps (same_pool n) (f p)" for f :: "cache_pool \<Rightarrow> int prog"
    using that by (auto simp: the_cache_pool_def keeps_def split: option.splits)
  show ?case using Suc by (auto intro!: pool keeps_bindp)
qed simp

lemma keeps_same_pool_add_cache [simp]: "keeps (same_pool n) (add_cache_pool name p)"
proof -
  have "keeps (same_pool n) (CachePool_Init name)"
    by (auto simp: CachePool_Init_def the_cache_pool_def keeps_def split: option.splits)
      (metis keeps_def keeps_same_pool_cache_loop)
  then show ?thesis by (auto simp: add_cache_pool_def intro!: keeps_bindp)
qed

lemma keeps_same_pool_reader [simp]:
  "keeps (same_pool n) (new_CConfigFileReader f)" "keeps (same_pool n) (GetConfigName cfg k)" "keeps (same_pool n) (pool_item cfg k x)"
  "keeps (same_pool n) (init_read y)"
  by (auto simp: new_CConfigFileReader_def LoadFile_def pool_item_def GetConfigName_def init_read_def keeps_def same_pool_def
      split: option.split)

lemma keeps_same_pool_caches [simp]: "keeps (same_pool n) CacheManager_getInstance"
proof -
  have "keeps (same_pool n) (CacheManager_Init_loop cfg items)" for cfg items
    by (induction items) (auto intro!: keeps_bindp split: option.split)
  then have "keeps (same_pool n) CacheManager_Init"
    by (auto simp: CacheManager_Init_def intro!: keeps_bindp split: option.split)
  then show ?thesis
    by (auto simp: CacheManager_getInstance_def keeps_modS same_pool_def intro!: keeps_bindp)
qed

text \<open>The file as it is shipped, and what is read from it.\<close>

definition shipped_file :: string where
  "shipped_file = conf_text
     [''# config format spec'',
      ''# this is a commet'',
      ''HttpListenIP=0.0.0.0'',
      ''HttpPort=8081'',
      '''',
      ''ThreadNum=4'',
      '''',
      ''dfs_path_client=/etc/fdfs/client.conf'',
      ''web_server_ip=114.215.169.66'',
      ''web_server_port=80'',
      ''storage_web_server_ip=114.215.169.66'',
      ''storage_web_server_port=80'',
      '''',
      ''#configure for mysql'',
      ''DBInstances=picbed_db_master,picbed_db_slave'',
      '''',
      ''picbed_db_master_host=127.0.0.1'',
      ''picbed_db_master_port=3306'',
      ''picbed_db_master_dbname=picbed'',
      ''picbed_db_master_username=root'',
      ''picbed_db_master_password=123456'',
      ''picbed_db_master_maxconncnt=4'',
      '''',
      '''',
      ''picbed_db_slave_host=127.0.0.1'',
      ''picbed_db_slave_port=3306'',
      ''picbed_db_slave_dbname=picbed_db_slave'',
      ''picbed_db_slave_username=root'',
      ''picbed_db_slave_password=123456'',
      ''picbed_db_slave_maxconncnt=4'',
      '''',
      '''',
      ''#configure for token'',
      ''CacheInstances=token,token'',
      ''#'' @ [CHR 0xE6, CHR 0x9C, CHR 0xAA, CHR 0xE8, CHR 0xAF, CHR 0xBB, CHR 0xE6, CHR 0xB6, CHR 0x88, CHR 0xE6, CHR 0x81, CHR 0xAF, CHR 0xE8, CHR 0xAE, CHR 0xA1, CHR 0xE6, CHR 0x95, CHR 0xB0, CHR 0xE5, CHR 0x99, CHR 0xA8, CHR 0xE7, CHR 0x9A, CHR 0x84] @ ''redis'',
      ''token_host=127.0.0.1'',
      ''token_port=6379'',
      ''token_db=0'',
      ''token_maxconncnt=4'',
      '''',
      ''#'' @ [CHR 0xE7, CHR 0xBE, CHR 0xA4, CHR 0xE7, CHR 0xBB, CHR 0x84, CHR 0xE8, CHR 0xAE, CHR 0xBE, CHR 0xE7, CHR 0xBD, CHR 0xAE] @ ''redis'',
      ''ranking_list_host=127.0.0.1'',
      ''ranking_list_port=6379'',
      ''ranking_list_db=0'']
     @ ''ranking_list_maxconncnt=4''"

definition shipped_map :: "(string \<times> string) list" where
  "shipped_map =
     [(''CacheInstances'', ''token,token''),
      (''DBInstances'', ''picbed_db_master,picbed_db_slave''),
      (''HttpListenIP'', ''0.0.0.0''),
      (''HttpPort'', ''8081''),
      (''ThreadNum'', ''4''),
      (''dfs_path_client'', ''/etc/fdfs/client.conf''),
      (''picbed_db_master_dbname'', ''picbed''),
      (''picbed_db_master_host'', ''127.0.0.1''),
      (''picbed_db_master_maxconncnt'', ''4''),
      (''picbed_db_master_password'', ''123456''),
      (''picbed_db_master_port'', ''3306''),
      (''picbed_db_master_username'', ''root''),
      (''picbed_db_slave_dbname'', ''picbed_db_slave''),
      (''picbed_db_slave_host'', ''127.0.0.1''),
      (''picbed_db_slave_maxconncnt'', ''4''),
      (''picbed_db_slave_password'', ''123456''),
      (''picbed_db_slave_port'', ''3306''),
      (''picbed_db_slave_username'', ''root''),
      (''ranking_list_db'', ''0''),
      (''ranking_list_host'', ''127.0.0.1''),
      (''ranking_list_maxconncnt'', ''4''),
      (''ranking_list_port'', ''6379''),
      (''storage_web_server_ip'', ''114.215.169.66''),
      (''storage_web_server_port'', ''80''),
      (''token_db'', ''0''),
      (''token_host'', ''127.0.0.1''),
      (''token_maxconncnt'', ''4''),
      (''token_port'', ''6379''),
      (''web_server_ip'', ''114.215.169.66''),
      (''web_server_port'', ''80'')]"

lemma shipped_loads: "load_lines (read_lines shipped_file) [] = Some shipped_map"
  by code_simp

definition shipped_cfg :: config_reader where
  "shipped_cfg = \<lparr>load_ok = Some True, config_map = shipped_map, config_file = CONF\<rparr>"

lemma run_shipped_reader:
  assumes "\<forall>w r w'. env_os E w (OsReadFile CONF) = (r, w') \<longrightarrow> 0 \<le> os_int r \<and> os_str r = shipped_file"
  shows "\<exists>w'. run E (new_CConfigFileReader CONF) s w = (Done shipped_cfg, s, w')"
proof -
  obtain r w' where "env_os E w (OsReadFile CONF) = (r, w')" by fastforce
  moreover from this have "0 \<le> os_int r" "os_str r = shipped_file" using assms by blast+
  ultimately show ?thesis by (simp add: new_CConfigFileReader_def LoadFile_def shipped_cfg_def shipped_loads)
qed

lemma shipped_instances:
  "map_of shipped_map ''DBInstances'' = Some ''picbed_db_master,picbed_db_slave''"
  "item_list (new_CStrExplode ''picbed_db_master,picbed_db_slave'' (CHR '','')) = [Some ''picbed_db_master'', Some ''picbed_db_slave'']"
  by (simp add: shipped_map_def) code_simp

lemma ApiInit_without_slave:
  assumes "dbpool_map s ''tuchuang_slave'' = None"
  shows "ensures (\<lambda>_ _. False) ApiInit s"
proof -
  have count: "ensures (\<lambda>_ _. False) (bindp (bindp (DBGetShareFilesCount None) k) h) t"
    for t and k :: "int \<times> int \<Rightarrow> int prog" and h :: "int \<Rightarrow> int prog"
    by (simp add: DBGetShareFilesCount_def DBGetCount_def CDBConn_ExecuteQuery_def the_db_conn_def bindp_assoc)
  have body: "ensures (\<lambda>_ _. False) (with_cache_conn ''token'' (\<lambda>cache_conn. bindp (DBGetShareFilesCount None) (k cache_conn))) t"
    for t and k :: "conn_ptr \<Rightarrow> int \<times> int \<Rightarrow> int prog"
    unfolding with_cache_conn_def by (rule ensures_bindp [OF ensures_True]) (rule count)
  have "CDBManager_GetDBConn ''tuchuang_slave'' = GetS (\<lambda>s. case dbpool_map s ''tuchuang_slave'' of
      None \<Rightarrow> Ret None | Some p \<Rightarrow> CDBPool_GetDBConn ''tuchuang_slave'' 0)" by (simp add: CDBManager_GetDBConn_def)
  then show ?thesis
    unfolding ApiInit_def with_db_conn_def using assms by (simp add: ensures_bindp [OF body])
qed

lemma keeps_none:
  assumes "keeps (same_pool n) p" and "dbpool_map s n = None" and "\<And>a t. dbpool_map t n = None \<Longrightarrow> ensures Q (f a) t"
  shows "ensures Q (bindp p f) s"
proof (rule ensures_bindp)
  show "ensures (\<lambda>_. same_pool n s) p s" using assms(1) by (simp add: keeps_def)
  show "same_pool n s t \<Longrightarrow> ensures Q (f a) t" for a t using assms(2,3) by (simp add: same_pool_def)
qed

lemma keeps_same_pool_inits [simp]:
  "keeps (same_pool n) (deref x)" "keeps (same_pool n) (ApiUploadInit a b c d e)" "keeps (same_pool n) (ApiDealfileInit a)"
  by (auto simp: deref_def ApiUploadInit_def ApiDealfileInit_def keeps_def modS_def same_pool_def split: option.split)

lemma shipped_no_slave:
  assumes conf: "\<forall>w r w'. env_os E w (OsReadFile CONF) = (r, w') \<longrightarrow> 0 \<le> os_int r \<and> os_str r = shipped_file"
    and none: "dbpool_map s ''tuchuang_slave'' = None" and run: "run E CDBManager_getInstance s w = (Done b, t, v)"
  shows "dbpool_map t ''tuchuang_slave'' = None"
proof -
  obtain w1 where read: "run E (new_CConfigFileReader CONF) s w = (Done shipped_cfg, s, w1)"
    using run_shipped_reader [OF conf] by blast
  have "run E CDBManager_Init s w = run E (CDBManager_Init_loop shipped_cfg [Some ''picbed_db_master'', Some ''picbed_db_slave'']) s w1"
    unfolding CDBManager_Init_def
    by (simp add: read GetConfigName_def init_read_def shipped_cfg_def shipped_instances del: CDBManager_Init_loop.simps)
  moreover have "keeps (same_pool ''tuchuang_slave'')
      (CDBManager_Init_loop shipped_cfg [Some ''picbed_db_master'', Some ''picbed_db_slave''])"
    by (rule keeps_same_pool_Init_loop) simp
  moreover obtain r t' v' where init: "run E CDBManager_Init s w = (Done r, t', v')" "r = 0 \<Longrightarrow> t = t'" "r \<noteq> 0 \<Longrightarrow> t = t'\<lparr>dbpool_map := Map.empty\<rparr>"
    using run unfolding CDBManager_getInstance_def by (fastforce simp: then_run_Done_iff split: if_splits)
  ultimately have "same_pool ''tuchuang_slave'' s t'" using keeps_run by metis
  then show ?thesis using init(2,3) none by (cases "r = 0") (simp_all add: same_pool_def)
qed

lemma main_without_slave:
  "\<exists>k. server_main = bindp CacheManager_getInstance (\<lambda>c. if \<not> c then Ret (- 1) else
      bindp CDBManager_getInstance (\<lambda>d. if \<not> d then Ret (- 1) else k)) \<and>
    (\<forall>s. dbpool_map s ''tuchuang_slave'' = None \<longrightarrow> ensures (\<lambda>_ _. False) k s)"
  unfolding server_main_def
  by (rule exI, rule conjI, rule refl, intro allI impI)
    ((rule keeps_none, simp, assumption)+, rule ensures_bindp [OF ApiInit_without_slave], assumption, simp)

text \<open>
  C32. With the configuration file of the repository the server never starts: whatever MySQL, Redis and
  the operating system answer, main does not get to its event loop. The pools are called
  picbed_db_master and picbed_db_slave there, ApiInit asks for tuchuang_slave and uses the NULL
  connection it is given.
\<close>

theorem shipped_config_stops:
  assumes "\<forall>w r w'. env_os E w (OsReadFile CONF) = (r, w') \<longrightarrow> 0 \<le> os_int r \<and> os_str r = shipped_file"
  shows "run E server_main blank_srv w \<noteq> (Done 0, t, v)"
proof
  assume run: "run E server_main blank_srv w = (Done 0, t, v)"
  obtain k where k: "server_main = bindp CacheManager_getInstance (\<lambda>c. if \<not> c then Ret (- 1) else
      bindp CDBManager_getInstance (\<lambda>d. if \<not> d then Ret (- 1) else k))"
    and never: "\<And>s. dbpool_map s ''tuchuang_slave'' = None \<Longrightarrow> ensures (\<lambda>_ _. False) k s"
    using main_without_slave by blast
  obtain c s1 w1 where c: "run E CacheManager_getInstance blank_srv w = (Done c, s1, w1)"
      "run E (if \<not> c then Ret (- 1) else bindp CDBManager_getInstance (\<lambda>d. if \<not> d then Ret (- 1) else k)) s1 w1 = (Done 0, t, v)"
    using run unfolding k run_bindp then_run_Done_iff by blast
  then have "run E (bindp CDBManager_getInstance (\<lambda>d. if \<not> d then Ret (- 1) else k)) s1 w1 = (Done 0, t, v)"
    by (cases c) simp_all
  then obtain d s2 w2 where d: "run E CDBManager_getInstance s1 w1 = (Done d, s2, w2)"
      "run E (if \<not> d then Ret (- 1) else k) s2 w2 = (Done 0, t, v)"
    unfolding run_bindp then_run_Done_iff by blast
  have "same_pool ''tuchuang_slave'' blank_srv s1" by (rule keeps_run [OF keeps_same_pool_caches c(1)])
  then have "dbpool_map s1 ''tuchuang_slave'' = None" by (simp add: same_pool_def blank_srv_def)
  then have "dbpool_map s2 ''tuchuang_slave'' = None" by (rule shipped_no_slave [OF assms _ d(1)])
  moreover have "run E k s2 w2 = (Done 0, t, v)" using d(2) by (cases d) simp_all
  ultimately show False using ensures_run [OF never, of s2 E w2 0 t v] by blast
qed

text \<open>The services of start_env with this file.\<close>

definition shipped_env :: "unit env" where
  "shipped_env = start_env\<lparr>env_os := \<lambda>w c. case c of
      OsReadFile f \<Rightarrow> (\<lparr>os_int = 0, os_str = shipped_file\<rparr>, w) | _ \<Rightarrow> env_os start_env w c\<rparr>"

theorem shipped_config_stops_witness:
  "env_os shipped_env () (OsReadFile CONF) = (\<lparr>os_int = 0, os_str = shipped_file\<rparr>, ()) \<and>
   (\<forall>t. run shipped_env server_main blank_srv () \<noteq> (Done 0, t, ()))"
  using shipped_config_stops [of shipped_env] by (simp add: shipped_env_def)

end
