(* ===== verification/Thread_Pool.thy ===== *)
theory Thread_Pool
  imports Http_Conn "HOL-Library.Multiset"
begin

text \<open>
  base/thread_pool.h and thread_pool.cc: the worker threads. A worker is at one of the places of
  ThreadPool::Run where another thread can come in between: before the test of terminate_, in Get,
  asleep on condition_, behind Get, while the task runs, and around the two updates of atomic_. What
  the code does under mutex_ is one step. A thread that waits on condition_ makes no step until
  notify_one or notify_all wakes it; it then tests its condition again. The steps of one worker are
  worker_step, those of a caller of WaitForAllDone waiter_step, those of Stop stop_step;
  pool_step interleaves all of them with calls of Init, Start, Exec, Stop and WaitForAllDone by other
  threads and with spurious wake-ups. A log remembers which tasks were given to the pool, taken, run
  and dropped. How long a task runs, if it ends at all, is the parameter dur.

  The queue is an instance of the contract fifo, as are the queues of tasks and of responses the
  event loop uses.
\<close>

section \<open>Queues\<close>

datatype 'a queue_op = Push 'a | Take

locale fifo =
  fixes queued :: "'s \<Rightarrow> 'a list"
    and push :: "'a \<Rightarrow> 's \<Rightarrow> 's"
    and take_front :: "'s \<Rightarrow> ('a \<times> 's) option"
  assumes queued_push: "queued (push x s) = queued s @ [x]"
    and take_none: "take_front s = None \<longleftrightarrow> queued s = []"
    and take_some: "take_front s = Some (x, s') \<Longrightarrow> queued s = x # queued s'"
begin

text \<open>What a sequence of operations takes out, and the queue behind it.\<close>

fun operate :: "'a queue_op list \<Rightarrow> 's \<Rightarrow> 'a list \<times> 's" where
  "operate [] s = ([], s)"
| "operate (Push x # ops) s = operate ops (push x s)"
| "operate (Take # ops) s =
     (case take_front s of
        None \<Rightarrow> operate ops s
      | Some (x, s') \<Rightarrow> (case operate ops s' of (xs, t) \<Rightarrow> (x # xs, t)))"

fun pushed :: "'a queue_op list \<Rightarrow> 'a list" where
  "pushed [] = []"
| "pushed (Push x # ops) = x # pushed ops"
| "pushed (Take # ops) = pushed ops"

lemma operate_order: "operate ops s = (xs, t) \<Longrightarrow> queued s @ pushed ops = xs @ queued t"
proof (induction ops s arbitrary: xs rule: operate.induct)
  case (3 ops s)
  then show ?case by (auto dest: take_some split: option.splits prod.splits)
qed (auto simp: queued_push)

end

section \<open>The pool\<close>

record pool_task =
  task_id :: nat
  expireTime :: int

text \<open>WRun t k: the task runs and takes k more steps; with None it never comes back.\<close>

datatype worker =
    WLoop | WGet | WSleep | WGot pool_task | WExec pool_task | WRun pool_task "nat option" | WDone | WNotify | WExit

text \<open>A call of WaitForAllDone, with (True) or without a timeout, and what it returned.\<close>

datatype waiter = WaitEntry bool | WaitSleep bool | WaitReturned bool

text \<open>The last field is the index of the joining loop while a call of Stop is under way.\<close>

record thread_pool =
  tasks :: "pool_task list"
  threads :: "worker list"
  thread_num :: nat
  terminate :: bool
  atomic_count :: int
  waiters :: "waiter list"
  stop_at :: "nat option"

definition new_ThreadPool :: thread_pool where
  "new_ThreadPool =
     \<lparr>tasks = [], threads = [], thread_num = 1, terminate = False, atomic_count = 0, waiters = [], stop_at = None\<rparr>"

definition ThreadPool_Init :: "nat \<Rightarrow> thread_pool \<Rightarrow> bool \<times> thread_pool" where
  "ThreadPool_Init num p = (if threads p \<noteq> [] then (False, p) else (True, p\<lparr>thread_num := num\<rparr>))"

definition ThreadPool_Start :: "thread_pool \<Rightarrow> bool \<times> thread_pool" where
  "ThreadPool_Start p =
     (if threads p \<noteq> [] then (False, p) else (True, p\<lparr>threads := replicate (thread_num p) WLoop\<rparr>))"

subsection \<open>The condition variable\<close>

text \<open>All threads that wait on condition_, workers first, and what waking one of them does.\<close>

datatype sleeper = Worker nat | Waiter nat

fun waits :: "waiter \<Rightarrow> bool" where
  "waits (WaitSleep timed) = True" | "waits _ = False"

fun woken :: "worker \<Rightarrow> worker" where
  "woken WSleep = WGet" | "woken w = w"

fun woken_waiter :: "waiter \<Rightarrow> waiter" where
  "woken_waiter (WaitSleep timed) = WaitEntry timed" | "woken_waiter w = w"

definition sleepers :: "thread_pool \<Rightarrow> sleeper list" where
  "sleepers p = map Worker (filter (\<lambda>i. threads p ! i = WSleep) [0..<length (threads p)]) @
     map Waiter (filter (\<lambda>i. waits (waiters p ! i)) [0..<length (waiters p)])"

fun wake :: "sleeper \<Rightarrow> thread_pool \<Rightarrow> thread_pool" where
  "wake (Worker i) p = p\<lparr>threads := (threads p)[i := woken (threads p ! i)]\<rparr>"
| "wake (Waiter i) p = p\<lparr>waiters := (waiters p)[i := woken_waiter (waiters p ! i)]\<rparr>"

text \<open>The scheduler's choice c says which of the sleeping threads notify_one wakes.\<close>

definition notify_one :: "nat \<Rightarrow> thread_pool \<Rightarrow> thread_pool" where
  "notify_one c p = (case sleepers p of [] \<Rightarrow> p | s # ss \<Rightarrow> wake ((s # ss) ! (c mod length (s # ss))) p)"

definition notify_all :: "thread_pool \<Rightarrow> thread_pool" where
  "notify_all p = p\<lparr>threads := map woken (threads p), waiters := map woken_waiter (waiters p)\<rparr>"

subsection \<open>Operations\<close>

text \<open>Exec at time now with a timeout in milliseconds, 0 being none.\<close>

definition new_task :: "int \<Rightarrow> int \<Rightarrow> nat \<Rightarrow> pool_task" where
  "new_task now timeoutMs n = \<lparr>task_id = n, expireTime = (if timeoutMs = 0 then 0 else now + timeoutMs)\<rparr>"

definition ThreadPool_Exec :: "nat \<Rightarrow> pool_task \<Rightarrow> thread_pool \<Rightarrow> thread_pool" where
  "ThreadPool_Exec c t p = notify_one c (p\<lparr>tasks := tasks p @ [t]\<rparr>)"

definition take_task :: "thread_pool \<Rightarrow> (pool_task \<times> thread_pool) option" where
  "take_task p = (case tasks p of [] \<Rightarrow> None | t # ts \<Rightarrow> Some (t, p\<lparr>tasks := ts\<rparr>))"

lemma notify_one_simps [simp]:
  "tasks (notify_one c p) = tasks p" "thread_num (notify_one c p) = thread_num p"
  "terminate (notify_one c p) = terminate p" "atomic_count (notify_one c p) = atomic_count p"
  "stop_at (notify_one c p) = stop_at p"
proof -
  have "tasks (wake s p) = tasks p \<and> thread_num (wake s p) = thread_num p \<and> terminate (wake s p) = terminate p \<and>
    atomic_count (wake s p) = atomic_count p \<and> stop_at (wake s p) = stop_at p" for s
    by (cases s) simp_all
  then show "tasks (notify_one c p) = tasks p" "thread_num (notify_one c p) = thread_num p"
    "terminate (notify_one c p) = terminate p" "atomic_count (notify_one c p) = atomic_count p"
    "stop_at (notify_one c p) = stop_at p"
    by (simp_all add: notify_one_def split: list.split)
qed

interpretation pool_queue: fifo tasks "ThreadPool_Exec c" take_task for c
  by unfold_locales (auto simp: ThreadPool_Exec_def take_task_def split: list.splits)

text \<open>
  The outer None: the caller sleeps on condition_, and comes back here when it is woken. Otherwise
  the task it took, if any.
\<close>

definition ThreadPool_Get :: "thread_pool \<Rightarrow> (pool_task option \<times> thread_pool) option" where
  "ThreadPool_Get p =
     (if tasks p = [] \<and> \<not> terminate p then None
      else if terminate p then Some (None, p)
      else
        (case take_task p of
           Some (t, p') \<Rightarrow> Some (Some t, p')
         | None \<Rightarrow> Some (None, p)))"

text \<open>The first block of Stop. Its loop begins at the first thread.\<close>

definition ThreadPool_Stop :: "thread_pool \<Rightarrow> thread_pool" where
  "ThreadPool_Stop p = (notify_all (p\<lparr>terminate := True\<rparr>))\<lparr>stop_at := Some 0\<rparr>"

text \<open>The rest of Stop. None: join waits for the thread, or there is no call of Stop.\<close>

definition stop_step :: "thread_pool \<Rightarrow> thread_pool option" where
  "stop_step p =
     (case stop_at p of
        None \<Rightarrow> None
      | Some i \<Rightarrow>
          if i < length (threads p)
          then (if threads p ! i = WExit then Some (p\<lparr>stop_at := Some (Suc i)\<rparr>) else None)
          else Some (p\<lparr>threads := [], stop_at := None\<rparr>))"

text \<open>
  WaitForAllDone: the test of the queue at the start and after each wake-up, and the end of a timed
  wait, which returns what the test says then.
\<close>

fun waiter_step :: "waiter \<Rightarrow> thread_pool \<Rightarrow> waiter option" where
  "waiter_step (WaitEntry timed) p = Some (if tasks p = [] then WaitReturned True else WaitSleep timed)"
| "waiter_step (WaitSleep timed) p = (if timed then Some (WaitReturned (tasks p = [])) else None)"
| "waiter_step (WaitReturned r) p = None"

section \<open>Steps\<close>

datatype tp_event = Quiet | Submitted pool_task | Taken pool_task | Ran pool_task | Dropped pool_task

definition expired :: "int \<Rightarrow> pool_task \<Rightarrow> bool" where
  "expired now t \<longleftrightarrow> expireTime t \<noteq> 0 \<and> expireTime t < now"

fun worker_step :: "(pool_task \<Rightarrow> nat option) \<Rightarrow> int \<Rightarrow> worker \<Rightarrow> thread_pool \<Rightarrow> (worker \<times> thread_pool \<times> tp_event) option" where
  "worker_step dur now WLoop p = Some (if terminate p then WExit else WGet, p, Quiet)"
| "worker_step dur now WGet p =
     (case ThreadPool_Get p of
        None \<Rightarrow> Some (WSleep, p, Quiet)
      | Some (None, p') \<Rightarrow> Some (WLoop, p', Quiet)
      | Some (Some t, p') \<Rightarrow> Some (WGot t, p', Taken t))"
| "worker_step dur now WSleep p = None"
| "worker_step dur now (WGot t) p = Some (WExec t, p\<lparr>atomic_count := atomic_count p + 1\<rparr>, Quiet)"
| "worker_step dur now (WExec t) p =
     (if expired now t then Some (WDone, p, Dropped t) else Some (WRun t (dur t), p, Quiet))"
| "worker_step dur now (WRun t None) p = None"
| "worker_step dur now (WRun t (Some 0)) p = Some (WDone, p, Ran t)"
| "worker_step dur now (WRun t (Some (Suc k))) p = Some (WRun t (Some k), p, Quiet)"
| "worker_step dur now WDone p = Some (WNotify, p\<lparr>atomic_count := atomic_count p - 1\<rparr>, Quiet)"
| "worker_step dur now WNotify p =
     Some (WLoop, if atomic_count p = 0 \<and> tasks p = [] then notify_all p else p, Quiet)"
| "worker_step dur now WExit p = None"

text \<open>What the threads of the pool and the callers inside of it do by themselves.\<close>

inductive progress :: "(pool_task \<Rightarrow> nat option) \<Rightarrow> thread_pool \<times> tp_event list \<Rightarrow> thread_pool \<times> tp_event list \<Rightarrow> bool"
  for dur where
  work: "i < length (threads p) \<Longrightarrow> worker_step dur now (threads p ! i) p = Some (w, p', ev) \<Longrightarrow>
     progress dur (p, log) (p'\<lparr>threads := (threads p')[i := w]\<rparr>, log @ [ev])"
| waiting: "i < length (waiters p) \<Longrightarrow> waiter_step (waiters p ! i) p = Some w \<Longrightarrow>
     progress dur (p, log) (p\<lparr>waiters := (waiters p)[i := w]\<rparr>, log)"
| joining: "stop_step p = Some p' \<Longrightarrow> progress dur (p, log) (p', log)"

text \<open>One call of Stop at a time: two would join and delete the same threads.\<close>

inductive pool_step :: "(pool_task \<Rightarrow> nat option) \<Rightarrow> thread_pool \<times> tp_event list \<Rightarrow> thread_pool \<times> tp_event list \<Rightarrow> bool"
  for dur where
  init: "pool_step dur (p, log) (snd (ThreadPool_Init num p), log)"
| start: "pool_step dur (p, log) (snd (ThreadPool_Start p), log)"
| exec: "pool_step dur (p, log) (ThreadPool_Exec c t p, log @ [Submitted t])"
| stop: "stop_at p = None \<Longrightarrow> pool_step dur (p, log) (ThreadPool_Stop p, log)"
| wait: "pool_step dur (p, log) (p\<lparr>waiters := waiters p @ [WaitEntry timed]\<rparr>, log)"
| spurious: "s \<in> set (sleepers p) \<Longrightarrow> pool_step dur (p, log) (wake s p, log)"
| progress: "progress dur x y \<Longrightarrow> pool_step dur x y"

section \<open>Every task once, in order\<close>

fun submitted :: "tp_event list \<Rightarrow> pool_task list" where
  "submitted [] = []" | "submitted (Submitted t # l) = t # submitted l" | "submitted (_ # l) = submitted l"

fun taken :: "tp_event list \<Rightarrow> pool_task list" where
  "taken [] = []" | "taken (Taken t # l) = t # taken l" | "taken (_ # l) = taken l"

fun finished :: "tp_event list \<Rightarrow> pool_task list" where
  "finished [] = []" | "finished (Ran t # l) = t # finished l" | "finished (Dropped t # l) = t # finished l"
| "finished (_ # l) = finished l"

lemma log_append [simp]:
  "submitted (l @ l') = submitted l @ submitted l'" "taken (l @ l') = taken l @ taken l'"
  "finished (l @ l') = finished l @ finished l'"
  by (induction l rule: submitted.induct; simp)+

fun in_flight :: "worker \<Rightarrow> pool_task list" where
  "in_flight (WGot t) = [t]" | "in_flight (WExec t) = [t]" | "in_flight (WRun t k) = [t]" | "in_flight _ = []"

fun counted :: "worker \<Rightarrow> int" where
  "counted (WExec t) = 1" | "counted (WRun t k) = 1" | "counted WDone = 1" | "counted _ = 0"

text \<open>Waking changes neither what a worker holds nor whether it is counted.\<close>

lemma woken_same [simp]: "in_flight (woken w) = in_flight w" "counted (woken w) = counted w"
  by (cases w; simp)+

lemma map_woken [simp]:
  "map in_flight (map woken ws) = map in_flight ws" "map counted (map woken ws) = map counted ws"
  by simp_all

lemma map_update_same: "f v = f (ws ! i) \<Longrightarrow> map f (ws[i := v]) = map f ws"
  by (simp add: map_update) (metis list_update_beyond list_update_id length_map linorder_not_le nth_map)

lemma wake_same:
  "map in_flight (threads (wake s p)) = map in_flight (threads p)" "map counted (threads (wake s p)) = map counted (threads p)"
  "tasks (wake s p) = tasks p" "atomic_count (wake s p) = atomic_count p"
  "terminate (wake s p) = terminate p" "stop_at (wake s p) = stop_at p"
  "length (threads (wake s p)) = length (threads p)" "length (waiters (wake s p)) = length (waiters p)"
  by (cases s; simp add: map_update_same)+

lemma notify_one_same:
  "map in_flight (threads (notify_one c p)) = map in_flight (threads p)"
  "map counted (threads (notify_one c p)) = map counted (threads p)"
  by (simp_all add: notify_one_def wake_same split: list.split)

lemma notify_all_simps [simp]:
  "tasks (notify_all p) = tasks p" "terminate (notify_all p) = terminate p" "atomic_count (notify_all p) = atomic_count p"
  "stop_at (notify_all p) = stop_at p" "threads (notify_all p) = map woken (threads p)"
  "waiters (notify_all p) = map woken_waiter (waiters p)"
  by (simp_all add: notify_all_def)

definition tp_inv :: "thread_pool \<times> tp_event list \<Rightarrow> bool" where
  "tp_inv x \<longleftrightarrow>
     submitted (snd x) = taken (snd x) @ tasks (fst x) \<and>
     mset (taken (snd x)) = mset (finished (snd x)) + mset (concat (map in_flight (threads (fst x)))) \<and>
     atomic_count (fst x) = sum_list (map counted (threads (fst x)))"

lemma in_flight_update:
  "i < length ws \<Longrightarrow> mset (concat (map in_flight (ws[i := w]))) + mset (in_flight (ws ! i)) =
     mset (concat (map in_flight ws)) + mset (in_flight w)"
proof (induction ws arbitrary: i)
  case (Cons v ws)
  show ?case
  proof (cases i)
    case (Suc j)
    then show ?thesis using Cons.IH [of j] Cons.prems by (simp add: add.assoc)
  qed (simp add: ac_simps)
qed simp

lemma sum_update: "i < length ws \<Longrightarrow> sum_list (map f (ws[i := w])) = sum_list (map f ws) - f (ws ! i) + (f w :: int)"
proof (induction ws arbitrary: i)
  case (Cons v ws)
  then show ?case by (cases i) simp_all
qed simp

lemmas worker_step_splits = if_splits list.splits option.splits

lemma worker_step_frame:
  "worker_step dur now w p = Some (w', p', ev) \<Longrightarrow>
   threads p' = threads p \<and> waiters p' = waiters p \<and> stop_at p' = stop_at p \<and> terminate p' = terminate p \<or>
   w = WNotify \<and> w' = WLoop \<and> ev = Quiet \<and> atomic_count p = 0 \<and> tasks p = [] \<and> p' = notify_all p"
  by (cases "(dur, now, w, p)" rule: worker_step.cases)
    (simp_all add: ThreadPool_Get_def take_task_def split: worker_step_splits, auto)

lemma worker_step_cases:
  assumes "worker_step dur now w p = Some (w', p', ev)"
  obtains "threads p' = threads p" "waiters p' = waiters p" "stop_at p' = stop_at p" "terminate p' = terminate p"
  | "w = WNotify" "w' = WLoop" "ev = Quiet" "atomic_count p = 0" "tasks p = []" "p' = notify_all p"
  using worker_step_frame [OF assms] by blast

lemma worker_step_threads:
  "worker_step dur now w p = Some (w', p', ev) \<Longrightarrow>
   map in_flight (threads p') = map in_flight (threads p) \<and> map counted (threads p') = map counted (threads p) \<and>
   length (threads p') = length (threads p) \<and> length (waiters p') = length (waiters p) \<and>
   terminate p' = terminate p \<and> stop_at p' = stop_at p"
  by (erule worker_step_cases) simp_all

lemma worker_step_effect:
  assumes "worker_step dur now w p = Some (w', p', ev)"
  shows "submitted [ev] = [] \<and> tasks p = taken [ev] @ tasks p' \<and>
     mset (taken [ev]) + mset (in_flight w) = mset (finished [ev]) + mset (in_flight w') \<and>
     atomic_count p' = atomic_count p - counted w + counted w'"
  using assms
  by (cases "(dur, now, w, p)" rule: worker_step.cases)
    (auto simp: ThreadPool_Get_def take_task_def split: worker_step_splits)

lemma map_update_cong: "map f xs = map f ys \<Longrightarrow> map f (xs[i := w]) = map f (ys[i := w])"
  by (simp add: map_update)

lemma work_inv:
  assumes i: "i < length (threads p)" and step: "worker_step dur now (threads p ! i) p = Some (w, p', ev)"
    and inv: "tp_inv (p, log)"
  shows "tp_inv (p'\<lparr>threads := (threads p')[i := w]\<rparr>, log @ [ev])"
proof -
  note eff = worker_step_effect [OF step] and th = worker_step_threads [OF step]
  let ?A = "\<lambda>ws. mset (concat (map in_flight ws))" and ?F = "\<lambda>w. mset (in_flight w)"
  have inv: "submitted log = taken log @ tasks p" "mset (taken log) = mset (finished log) + ?A (threads p)"
      "atomic_count p = sum_list (map counted (threads p))"
    using inv by (simp_all add: tp_inv_def)
  have same: "map in_flight ((threads p')[i := w]) = map in_flight ((threads p)[i := w])"
      "map counted ((threads p')[i := w]) = map counted ((threads p)[i := w])"
    using th by (blast intro: map_update_cong)+
  have "mset (taken (log @ [ev])) + ?F (threads p ! i) = mset (finished log) + ?A (threads p) + (mset (taken [ev]) + ?F (threads p ! i))"
    using inv(2) by (simp add: ac_simps)
  also have "\<dots> = mset (finished log) + mset (finished [ev]) + (?A (threads p) + ?F w)"
    using eff by (simp add: ac_simps)
  also have "\<dots> = (mset (finished (log @ [ev])) + ?A ((threads p)[i := w])) + ?F (threads p ! i)"
    using in_flight_update [OF i, of w] by (simp add: ac_simps)
  finally have "mset (taken (log @ [ev])) = mset (finished (log @ [ev])) + ?A ((threads p)[i := w])"
    by (rule add_right_imp_eq)
  moreover have "atomic_count p' = sum_list (map counted ((threads p)[i := w]))"
    using eff inv(3) sum_update [OF i, of counted w] by simp
  moreover have "submitted (log @ [ev]) = taken (log @ [ev]) @ tasks p'"
    using eff inv(1) by simp
  ultimately show ?thesis
    unfolding tp_inv_def using same by simp
qed

text \<open>While Stop is under way terminate_ is set and the threads in front of the loop index are gone.\<close>

definition stop_inv :: "thread_pool \<Rightarrow> bool" where
  "stop_inv p \<longleftrightarrow> (case stop_at p of None \<Rightarrow> True
     | Some i \<Rightarrow> terminate p \<and> i \<le> length (threads p) \<and> (\<forall>j < i. threads p ! j = WExit))"

lemma all_exit: "\<forall>w \<in> set ws. w = WExit \<Longrightarrow> concat (map in_flight ws) = [] \<and> sum_list (map counted ws) = 0"
  by (induction ws) auto

lemma stop_step_cases:
  assumes "stop_step p = Some p'" and "stop_inv p"
  obtains i where "stop_at p = Some i" "i < length (threads p)" "threads p ! i = WExit" "p' = p\<lparr>stop_at := Some (Suc i)\<rparr>"
  | "stop_at p = Some (length (threads p))" "\<forall>w \<in> set (threads p). w = WExit" "p' = p\<lparr>threads := [], stop_at := None\<rparr>"
  using assms
  by (auto simp: stop_step_def stop_inv_def all_set_conv_all_nth split: option.splits if_splits)

lemma progress_tp_inv: "progress dur x y \<Longrightarrow> stop_inv (fst x) \<Longrightarrow> tp_inv x \<Longrightarrow> tp_inv y"
proof (induction rule: progress.induct)
  case (work i p now w p' ev log)
  then show ?case by (intro work_inv)
next
  case (joining p p' log)
  then show ?case using all_exit
    by (auto simp: tp_inv_def elim!: stop_step_cases)
qed (simp add: tp_inv_def)

lemma pool_step_tp_inv: "pool_step dur x y \<Longrightarrow> stop_inv (fst x) \<Longrightarrow> tp_inv x \<Longrightarrow> tp_inv y"
proof (induction rule: pool_step.induct)
  case (progress x y)
  then show ?case by (rule progress_tp_inv)
qed (auto simp: tp_inv_def ThreadPool_Init_def ThreadPool_Start_def ThreadPool_Exec_def ThreadPool_Stop_def
    wake_same notify_one_same sum_list_replicate simp del: map_map)

section \<open>No wake-up is lost\<close>

fun at_work :: "worker \<Rightarrow> bool" where
  "at_work (WGot t) = True" | "at_work (WExec t) = True" | "at_work (WRun t k) = True" | "at_work WDone = True"
| "at_work WNotify = True" | "at_work _ = False"

definition awake :: "worker \<Rightarrow> bool" where
  "awake w \<longleftrightarrow> w \<noteq> WSleep \<and> w \<noteq> WExit"

definition someone_waits :: "thread_pool \<Rightarrow> bool" where
  "someone_waits p \<longleftrightarrow> (\<exists>w \<in> set (waiters p). waits w)"

text \<open>
  A sleeping caller of WaitForAllDone has something to wait for: a task in the queue or a worker that
  will look whether it was the last. As long as there is a task or such a caller, some worker does
  not sleep. After Stop no worker sleeps.
\<close>

definition live_inv :: "(pool_task \<Rightarrow> nat option) \<Rightarrow> thread_pool \<Rightarrow> bool" where
  "live_inv dur p \<longleftrightarrow>
     (terminate p \<longrightarrow> WSleep \<notin> set (threads p)) \<and>
     (\<not> terminate p \<longrightarrow> WExit \<notin> set (threads p)) \<and>
     (someone_waits p \<and> tasks p = [] \<longrightarrow> (\<exists>w \<in> set (threads p). at_work w)) \<and>
     (\<not> terminate p \<and> threads p \<noteq> [] \<and> (tasks p \<noteq> [] \<or> someone_waits p) \<longrightarrow> (\<exists>w \<in> set (threads p). awake w)) \<and>
     (\<forall>t. WRun t None \<in> set (threads p) \<longrightarrow> dur t = None)"

lemma live_invD:
  assumes "live_inv dur p"
  shows "terminate p \<Longrightarrow> WSleep \<notin> set (threads p)" "\<not> terminate p \<Longrightarrow> WExit \<notin> set (threads p)"
    "someone_waits p \<Longrightarrow> tasks p = [] \<Longrightarrow> \<exists>w \<in> set (threads p). at_work w"
    "\<not> terminate p \<Longrightarrow> threads p \<noteq> [] \<Longrightarrow> tasks p \<noteq> [] \<or> someone_waits p \<Longrightarrow> \<exists>w \<in> set (threads p). awake w"
    "WRun t None \<in> set (threads p) \<Longrightarrow> dur t = None"
  using assms by (auto simp: live_inv_def)

lemma at_work_awake: "at_work w \<Longrightarrow> awake w"
  by (cases w) (simp_all add: awake_def)

lemma counted_at_work: "counted w \<noteq> 0 \<Longrightarrow> at_work w"
  by (cases w) simp_all

lemma woken_places [simp]:
  "woken w \<noteq> WSleep" "woken w = WExit \<longleftrightarrow> w = WExit" "at_work (woken w) = at_work w" "woken w = WRun t k \<longleftrightarrow> w = WRun t k"
  "WSleep \<noteq> woken w" "WExit = woken w \<longleftrightarrow> w = WExit" "WRun t k = woken w \<longleftrightarrow> w = WRun t k"
  by (cases w; auto)+

lemma awake_woken: "awake w \<Longrightarrow> awake (woken w)"
  by (simp add: awake_def)

lemma waits_woken [simp]: "\<not> waits (woken_waiter v)"
  by (cases v) simp_all

text \<open>Waking some of the threads, and what it does to the places of the workers.\<close>

definition stirred :: "worker list \<Rightarrow> worker list \<Rightarrow> bool" where
  "stirred ws vs \<longleftrightarrow> list_all2 (\<lambda>w v. v = w \<or> v = woken w) ws vs"

lemma stirred_places:
  assumes "stirred ws vs"
  shows "length vs = length ws" "WSleep \<in> set vs \<Longrightarrow> WSleep \<in> set ws" "WExit \<in> set vs \<Longrightarrow> WExit \<in> set ws"
    "\<exists>w \<in> set ws. at_work w \<Longrightarrow> \<exists>v \<in> set vs. at_work v" "\<exists>w \<in> set ws. awake w \<Longrightarrow> \<exists>v \<in> set vs. awake v"
    "WRun t k \<in> set vs \<Longrightarrow> WRun t k \<in> set ws"
proof -
  have "length vs = length ws \<and> (WSleep \<in> set vs \<longrightarrow> WSleep \<in> set ws) \<and> (WExit \<in> set vs \<longrightarrow> WExit \<in> set ws) \<and>
    ((\<exists>w \<in> set ws. at_work w) \<longrightarrow> (\<exists>v \<in> set vs. at_work v)) \<and> ((\<exists>w \<in> set ws. awake w) \<longrightarrow> (\<exists>v \<in> set vs. awake v)) \<and>
    (WRun t k \<in> set vs \<longrightarrow> WRun t k \<in> set ws)"
    using assms unfolding stirred_def
  proof (induction rule: list_all2_induct)
    case (Cons w ws v vs)
    then show ?case using awake_woken [of w] woken_places(1-4) [of w]
      by (simp only: list.set length_Cons bex_simps insert_iff) metis
  qed simp
  then show "length vs = length ws" "WSleep \<in> set vs \<Longrightarrow> WSleep \<in> set ws" "WExit \<in> set vs \<Longrightarrow> WExit \<in> set ws"
    "\<exists>w \<in> set ws. at_work w \<Longrightarrow> \<exists>v \<in> set vs. at_work v" "\<exists>w \<in> set ws. awake w \<Longrightarrow> \<exists>v \<in> set vs. awake v"
    "WRun t k \<in> set vs \<Longrightarrow> WRun t k \<in> set ws"
    by blast+
qed

lemma wake_stirred: "stirred (threads p) (threads (wake s p))"
proof (cases s)
  case (Worker k)
  have "(threads p)[k := woken (threads p ! k)] ! i = (if i = k then woken (threads p ! i) else threads p ! i)"
    if "i < length (threads p)" for i using that by (cases "i = k") simp_all
  then show ?thesis using Worker by (simp add: stirred_def list_all2_conv_all_nth)
qed (simp add: stirred_def list.rel_refl)

lemma wake_someone_waits: "someone_waits (wake s p) \<Longrightarrow> someone_waits p"
  by (cases s) (auto simp: someone_waits_def dest: set_update_subset_insert [THEN subsetD])

lemma live_inv_stirred:
  assumes inv: "live_inv dur p" and st: "stirred (threads p) (threads q)"
    and same: "terminate q = terminate p" "someone_waits q \<Longrightarrow> someone_waits p" "tasks q = tasks p"
  shows "live_inv dur q"
proof -
  note pl = stirred_places [OF st]
  have ne: "threads q \<noteq> [] \<Longrightarrow> threads p \<noteq> []" using pl(1) by auto
  show ?thesis unfolding live_inv_def
  proof (intro conjI impI allI)
    show "terminate q \<Longrightarrow> WSleep \<notin> set (threads q)" using pl(2) live_invD(1) [OF inv] same(1) by blast
    show "\<not> terminate q \<Longrightarrow> WExit \<notin> set (threads q)" using pl(3) live_invD(2) [OF inv] same(1) by blast
    show "someone_waits q \<and> tasks q = [] \<Longrightarrow> \<exists>w \<in> set (threads q). at_work w"
      using pl(4) live_invD(3) [OF inv] same by metis
    show "\<not> terminate q \<and> threads q \<noteq> [] \<and> (tasks q \<noteq> [] \<or> someone_waits q) \<Longrightarrow> \<exists>w \<in> set (threads q). awake w"
      using pl(5) live_invD(4) [OF inv] same ne by metis
    show "\<And>t. WRun t None \<in> set (threads q) \<Longrightarrow> dur t = None" using pl(6) live_invD(5) [OF inv] by blast
  qed
qed

lemma wake_live_inv: "live_inv dur p \<Longrightarrow> live_inv dur (wake s p)"
  by (erule live_inv_stirred [OF _ wake_stirred]) (simp_all add: wake_same wake_someone_waits)

lemma sleepers_workers:
  assumes "Worker j \<in> set (sleepers p)"
  shows "j < length (threads p)" and "threads p ! j = WSleep"
  using assms by (auto simp: sleepers_def)

lemma sleepers_waiters: "Waiter j \<in> set (sleepers p) \<Longrightarrow> someone_waits p"
  by (auto simp: sleepers_def someone_waits_def)

lemma notify_one_cases:
  obtains "sleepers p = []" "notify_one c p = p" | s where "s \<in> set (sleepers p)" "notify_one c p = wake s p"
proof (cases "sleepers p")
  case (Cons s ss)
  have "(s # ss) ! (c mod length (s # ss)) \<in> set (s # ss)" by (rule nth_mem) simp
  then show ?thesis using that(2) Cons by (simp add: notify_one_def)
qed (use that(1) in \<open>simp add: notify_one_def\<close>)

lemma notify_one_stirred:
  "stirred (threads p) (threads (notify_one c p))" "someone_waits (notify_one c p) \<Longrightarrow> someone_waits p"
  by (rule notify_one_cases [of p c]; simp add: wake_stirred; simp add: stirred_def list.rel_refl)
    (rule notify_one_cases [of p c]; use wake_someone_waits in auto)

text \<open>Exec leaves a worker awake, whoever its notification goes to.\<close>

lemma notify_one_awake:
  assumes inv: "live_inv dur p" and open_pool: "\<not> terminate p" "threads p \<noteq> []"
  shows "\<exists>w \<in> set (threads (notify_one c p)). awake w"
proof (rule notify_one_cases [of p c])
  assume none: "sleepers p = []" "notify_one c p = p"
  have "threads p ! 0 \<in> set (threads p)" using open_pool(2) by simp
  moreover have "threads p ! 0 \<noteq> WSleep" using none(1) open_pool(2) by (auto simp: sleepers_def filter_empty_conv)
  ultimately show ?thesis using none(2) live_invD(2) [OF inv open_pool(1)] unfolding awake_def by metis
next
  fix s assume s: "s \<in> set (sleepers p)" "notify_one c p = wake s p"
  show ?thesis
  proof (cases s)
    case (Worker j)
    then have j: "j < length (threads p)" "threads p ! j = WSleep" using s(1) sleepers_workers by blast+
    then have "WGet \<in> set (threads (wake s p))" using Worker by (simp add: set_update_memI)
    then show ?thesis using s(2) by (metis awake_def worker.distinct)
  next
    case (Waiter j)
    then have "someone_waits p" using s(1) sleepers_waiters by blast
    then show ?thesis using live_invD(4) [OF inv open_pool] stirred_places(5) [OF wake_stirred] s(2) by simp
  qed
qed

lemma Exec_live_inv:
  assumes inv: "live_inv dur p"
  shows "live_inv dur (ThreadPool_Exec c t p)"
proof -
  let ?q = "ThreadPool_Exec c t p" and ?n = "notify_one c p"
  have sl: "sleepers (p\<lparr>tasks := tasks p @ [t]\<rparr>) = sleepers p" by (simp add: sleepers_def)
  have wk: "wake s (p\<lparr>tasks := tasks p @ [t]\<rparr>) = (wake s p)\<lparr>tasks := tasks p @ [t]\<rparr>" for s by (cases s) simp_all
  have q: "threads ?q = threads ?n" "tasks ?q \<noteq> []" "terminate ?q = terminate p"
    by (auto simp: ThreadPool_Exec_def notify_one_def sl wk wake_same split: list.split)
  note pl = stirred_places [OF notify_one_stirred(1) [of p c]]
  have ne: "threads ?n \<noteq> [] \<Longrightarrow> threads p \<noteq> []" using pl(1) by auto
  show ?thesis unfolding live_inv_def q(1,3)
  proof (intro conjI impI allI)
    show "terminate p \<Longrightarrow> WSleep \<notin> set (threads ?n)" using pl(2) live_invD(1) [OF inv] by blast
    show "\<not> terminate p \<Longrightarrow> WExit \<notin> set (threads ?n)" using pl(3) live_invD(2) [OF inv] by blast
    show "someone_waits ?q \<and> tasks ?q = [] \<Longrightarrow> \<exists>w \<in> set (threads ?n). at_work w" using q(2) by simp
    show "\<not> terminate p \<and> threads ?n \<noteq> [] \<and> (tasks ?q \<noteq> [] \<or> someone_waits ?q) \<Longrightarrow> \<exists>w \<in> set (threads ?n). awake w"
      using notify_one_awake [OF inv] ne by blast
    show "\<And>t. WRun t None \<in> set (threads ?n) \<Longrightarrow> dur t = None" using pl(6) live_invD(5) [OF inv] by blast
  qed
qed

text \<open>One step of a worker, as far as places are concerned.\<close>

lemma worker_step_places:
  assumes "worker_step dur now w p = Some (w', p', ev)"
  shows "w \<noteq> WExit" "w \<noteq> WSleep" "w' = WSleep \<Longrightarrow> w = WGet \<and> tasks p = [] \<and> \<not> terminate p" "w' = WExit \<Longrightarrow> terminate p"
    "w' = WRun t None \<Longrightarrow> dur t = None" "tasks p' = [] \<Longrightarrow> tasks p \<noteq> [] \<Longrightarrow> at_work w'"
    "at_work w \<Longrightarrow> \<not> at_work w' \<Longrightarrow> w = WNotify" "tasks p = [] \<Longrightarrow> tasks p' = []"
    "w = WNotify \<Longrightarrow> w' = WLoop \<and> p' = (if atomic_count p = 0 \<and> tasks p = [] then notify_all p else p)"
  using assms
  by (cases "(dur, now, w, p)" rule: worker_step.cases;
      auto simp: ThreadPool_Get_def take_task_def split: worker_step_splits)+

lemma counted_sum: "sum_list (map counted ws) = int (length (filter (\<lambda>w. counted w = 1) ws))"
proof (induction ws)
  case (Cons w ws)
  then show ?case by (cases w) simp_all
qed simp

lemma keep_other:
  assumes "i < length ws" "w \<in> set ws" "w \<noteq> ws ! i"
  shows "w \<in> set (ws[i := v])"
  using assms by (metis in_set_conv_nth length_list_update nth_list_update_neq)

lemma work_live_inv:
  assumes i: "i < length (threads p)" and step: "worker_step dur now (threads p ! i) p = Some (w, p', ev)"
    and inv: "live_inv dur p" and cnt: "atomic_count p = sum_list (map counted (threads p))"
  shows "live_inv dur (p'\<lparr>threads := (threads p')[i := w]\<rparr>)"
proof -
  let ?ws = "threads p" and ?old = "threads p ! i"
  note pl = worker_step_places [OF step]
  have others: "v \<in> set ((threads p')[i := w]) \<Longrightarrow> v = w \<or> v \<in> set (threads p')" for v
    by (auto dest: set_update_subset_insert [THEN subsetD])
  have mine: "w \<in> set ((threads p')[i := w])" if "length (threads p') = length ?ws" using i that by (simp add: set_update_memI)
  show ?thesis
  proof (rule worker_step_cases [OF step])
    assume same: "threads p' = ?ws" "waiters p' = waiters p" "stop_at p' = stop_at p" "terminate p' = terminate p"
    have sw: "someone_waits (p'\<lparr>threads := (threads p')[i := w]\<rparr>) = someone_waits p" using same(2) by (simp add: someone_waits_def)
    have work: "\<exists>v \<in> set (?ws[i := w]). at_work v" if some: "someone_waits p" and none: "tasks p' = []"
    proof (cases "at_work w \<or> tasks p \<noteq> []")
      case True
      then show ?thesis using pl(6) none mine same(1) by metis
    next
      case False
      then obtain v where v: "v \<in> set ?ws" "at_work v" using live_invD(3) [OF inv some] by blast
      show ?thesis
      proof (cases "v = ?old")
        case True
        then have old: "?old = WNotify" using pl(7) v(2) False by blast
        then have "p' = p \<or> p' = notify_all p" "atomic_count p \<noteq> 0 \<or> p' = notify_all p" using pl(9) False by auto
        moreover have "p' \<noteq> notify_all p"
        proof
          assume "p' = notify_all p"
          then have "\<not> someone_waits p'" by (auto simp: someone_waits_def)
          then show False using some same(2) by (simp add: someone_waits_def)
        qed
        ultimately have "filter (\<lambda>w. counted w = 1) ?ws \<noteq> []" using cnt counted_sum [of ?ws] by auto
        then obtain u where "u \<in> set ?ws" "counted u = 1" by (auto simp: filter_empty_conv)
        then show ?thesis using keep_other [OF i, of u w] counted_at_work [of u] old by fastforce
      qed (use keep_other [OF i v(1)] v(2) in blast)
    qed
    have up: "\<exists>v \<in> set (?ws[i := w]). awake v" if open_pool: "\<not> terminate p" and due: "tasks p' \<noteq> [] \<or> someone_waits p"
    proof (cases "awake w")
      case False
      then have "w = WSleep" using pl(4) open_pool by (auto simp: awake_def)
      then have old: "?old = WGet" "tasks p = []" using pl(3) by auto
      then have "someone_waits p" using due pl(8) by blast
      then obtain v where "v \<in> set ?ws" "at_work v" using live_invD(3) [OF inv] old(2) by blast
      then show ?thesis using keep_other [OF i, of v w] at_work_awake [of v] old(1) by fastforce
    qed (use mine same(1) in auto)
    have "WSleep \<notin> set (?ws[i := w])" if "terminate p"
      using others [of WSleep] same(1) pl(3) that live_invD(1) [OF inv that] by auto
    moreover have "WExit \<notin> set (?ws[i := w])" if "\<not> terminate p"
      using others [of WExit] same(1) pl(4) that live_invD(2) [OF inv that] by auto
    moreover have "dur t = None" if "WRun t None \<in> set (?ws[i := w])" for t
      using others [of "WRun t None"] same(1) pl(5) that live_invD(5) [OF inv, of t] by auto
    ultimately show ?thesis unfolding live_inv_def sw using work up same(1,4) by simp
  next
    assume n: "?old = WNotify" "w = WLoop" "ev = Quiet" "atomic_count p = 0" "tasks p = []" "p' = notify_all p"
    have "\<not> someone_waits (p'\<lparr>threads := (threads p')[i := w]\<rparr>)" using n(6) by (auto simp: someone_waits_def)
    moreover have "WSleep \<notin> set ((threads p')[i := w])" using others [of WSleep] n(2,6) by auto
    moreover have "WExit \<notin> set ((threads p')[i := w])" if "\<not> terminate p"
      using others [of WExit] n(2,6) live_invD(2) [OF inv that] by auto
    moreover have "dur t = None" if "WRun t None \<in> set ((threads p')[i := w])" for t
      using others [of "WRun t None"] n(2,6) that live_invD(5) [OF inv, of t] by auto
    ultimately show ?thesis using n(5,6) by (simp add: live_inv_def)
  qed
qed

lemma waiter_live_inv:
  assumes "i < length (waiters p)" and step: "waiter_step (waiters p ! i) p = Some w" and inv: "live_inv dur p"
  shows "live_inv dur (p\<lparr>waiters := (waiters p)[i := w]\<rparr>)"
proof -
  have w: "waits w \<Longrightarrow> tasks p \<noteq> []" using step by (cases "waiters p ! i") (auto split: if_splits)
  have "someone_waits (p\<lparr>waiters := (waiters p)[i := w]\<rparr>) \<Longrightarrow> someone_waits p \<or> waits w"
    by (auto simp: someone_waits_def dest: set_update_subset_insert [THEN subsetD])
  then show ?thesis using inv w unfolding live_inv_def by auto
qed

lemma stop_step_live_inv: "stop_step p = Some p' \<Longrightarrow> stop_inv p \<Longrightarrow> live_inv dur p \<Longrightarrow> live_inv dur p'"
  by (erule stop_step_cases) (auto simp: live_inv_def someone_waits_def)

definition pool_inv :: "(pool_task \<Rightarrow> nat option) \<Rightarrow> thread_pool \<times> tp_event list \<Rightarrow> bool" where
  "pool_inv dur x \<longleftrightarrow> tp_inv x \<and> stop_inv (fst x) \<and> live_inv dur (fst x)"

lemma stop_inv_stirred:
  "stop_inv p \<Longrightarrow> stirred (threads p) (threads q) \<Longrightarrow> stop_at q = stop_at p \<Longrightarrow> terminate q = terminate p \<Longrightarrow> stop_inv q"
  by (auto simp: stop_inv_def stirred_def list_all2_conv_all_nth split: option.splits) (metis order_less_le_trans woken.simps)

lemma work_stop_inv:
  assumes i: "i < length (threads p)" and step: "worker_step dur now (threads p ! i) p = Some (w, p', ev)" and inv: "stop_inv p"
  shows "stop_inv (p'\<lparr>threads := (threads p')[i := w]\<rparr>)"
proof (cases "stop_at p")
  case (Some k)
  have here: "threads p ! i \<noteq> WExit" by (rule worker_step_places [OF step])
  have st: "terminate p" "k \<le> length (threads p)" "\<forall>j < k. threads p ! j = WExit"
    using inv Some by (simp_all add: stop_inv_def)
  have "\<forall>j < k. threads p' ! j = WExit" using worker_step_cases [OF step] st by (metis notify_all_simps(5) nth_map order_less_le_trans woken.simps(9))
  moreover have "i \<noteq> j" if "j < k" for j using here st(3) that by blast
  ultimately have "\<forall>j < k. (threads p')[i := w] ! j = WExit" by (metis nth_list_update_neq)
  then show ?thesis using worker_step_threads [OF step] st Some by (simp add: stop_inv_def)
qed (use worker_step_threads [OF step] in \<open>simp add: stop_inv_def\<close>)

lemma progress_pool_inv: "progress dur x y \<Longrightarrow> pool_inv dur x \<Longrightarrow> pool_inv dur y"
proof (induction rule: progress.induct)
  case (work i p now w p' ev log)
  then show ?case
    using work_inv [OF work(1,2), of log] work_live_inv [OF work(1,2)] work_stop_inv [OF work(1,2)]
    by (auto simp: pool_inv_def tp_inv_def)
next
  case (waiting i p w log)
  then show ?case using waiter_live_inv [OF waiting(1,2)] by (auto simp: pool_inv_def tp_inv_def stop_inv_def split: option.splits)
next
  case (joining p p' log)
  then have "tp_inv (p', log)" using progress_tp_inv [OF progress.joining [OF joining(1)], of log] by (simp add: pool_inv_def)
  moreover have "stop_inv p'" using joining unfolding pool_inv_def fst_conv
    by (auto simp: stop_inv_def less_Suc_eq elim!: stop_step_cases)
  ultimately show ?case using joining stop_step_live_inv by (auto simp: pool_inv_def)
qed

lemma Stop_pool_inv: "live_inv dur p \<Longrightarrow> stop_inv (ThreadPool_Stop p) \<and> live_inv dur (ThreadPool_Stop p)"
  by (auto simp: stop_inv_def live_inv_def ThreadPool_Stop_def someone_waits_def)

lemma Start_pool_inv: "stop_inv p \<Longrightarrow> live_inv dur p \<Longrightarrow> stop_inv (snd (ThreadPool_Start p)) \<and> live_inv dur (snd (ThreadPool_Start p))"
  by (auto simp: ThreadPool_Start_def stop_inv_def live_inv_def someone_waits_def awake_def split: option.splits)

lemma pool_step_inv: "pool_step dur x y \<Longrightarrow> pool_inv dur x \<Longrightarrow> pool_inv dur y"
proof (induction rule: pool_step.induct)
  case (init p log num)
  then show ?case 
    by (auto simp: pool_inv_def tp_inv_def stop_inv_def live_inv_def someone_waits_def ThreadPool_Init_def split: option.splits)
next
  case (start p log)
  then show ?case using pool_step_tp_inv [OF pool_step.start [of dur p log]] Start_pool_inv [of p dur] by (simp add: pool_inv_def)
next
  case (exec p log c t)
  let ?q = "p\<lparr>tasks := tasks p @ [t]\<rparr>"
  have "stop_inv ?q" using exec by (simp add: pool_inv_def stop_inv_def split: option.splits)
  then have "stop_inv (ThreadPool_Exec c t p)"
    unfolding ThreadPool_Exec_def by (rule stop_inv_stirred [OF _ notify_one_stirred(1)]) simp_all
  then show ?case using pool_step_tp_inv [OF pool_step.exec [of dur p log c t]] Exec_live_inv [of dur p c t] exec
    by (simp add: pool_inv_def)
next
  case (stop p log)
  then show ?case using pool_step_tp_inv [OF pool_step.stop [OF stop(1), of dur log]] Stop_pool_inv [of dur p] by (simp add: pool_inv_def)
next
  case (wait p log timed)
  then show ?case by (auto simp: pool_inv_def tp_inv_def stop_inv_def live_inv_def someone_waits_def split: option.splits)
next
  case (spurious s p log)
  then show ?case using pool_step_tp_inv [OF pool_step.spurious [OF spurious(1), of dur log]] wake_live_inv [of dur p s]
      stop_inv_stirred [OF _ wake_stirred, of p s] by (simp add: pool_inv_def wake_same)
next
  case (progress x y)
  then show ?case by (rule progress_pool_inv)
qed

lemma pool_steps_inv: "(pool_step dur)\<^sup>*\<^sup>* x y \<Longrightarrow> pool_inv dur x \<Longrightarrow> pool_inv dur y"
  by (induction rule: rtranclp_induct) (auto intro: pool_step_inv)

lemma new_pool_inv: "pool_inv dur (new_ThreadPool, [])"
  by (simp add: pool_inv_def tp_inv_def stop_inv_def live_inv_def someone_waits_def new_ThreadPool_def)

text \<open>
  C12. However the workers and the callers of Exec, Start, Stop and WaitForAllDone interleave: the
  tasks are taken in the order they were submitted, each at most once; a task taken has been run or
  dropped as expired exactly once or is in the hands of exactly one worker; and atomic_ is the number
  of workers between its two updates, so never negative.
\<close>

theorem ThreadPool_tasks_once:
  assumes "(pool_step dur)\<^sup>*\<^sup>* (new_ThreadPool, []) (p, log)"
  shows "submitted log = taken log @ tasks p \<and>
    mset (taken log) = mset (finished log) + mset (concat (map in_flight (threads p))) \<and>
    atomic_count p = int (length (filter (\<lambda>w. counted w = 1) (threads p)))"
  using pool_steps_inv [OF assms new_pool_inv] by (simp add: pool_inv_def tp_inv_def counted_sum)

section \<open>Nothing runs for ever\<close>

text \<open>
  A bound on the steps the threads can make by themselves. N is at least what one notify_all can
  cause: two more steps of every thread that sleeps.
\<close>

definition steps_of :: "(pool_task \<Rightarrow> nat option) \<Rightarrow> pool_task \<Rightarrow> nat" where
  "steps_of dur t = (case dur t of None \<Rightarrow> 0 | Some k \<Rightarrow> k)"

fun worker_rank :: "(pool_task \<Rightarrow> nat option) \<Rightarrow> nat \<Rightarrow> bool \<Rightarrow> worker \<Rightarrow> nat" where
  "worker_rank dur N stopping WExit = 0"
| "worker_rank dur N stopping WSleep = 0"
| "worker_rank dur N stopping WGet = (if stopping then 2 else 1)"
| "worker_rank dur N stopping WLoop = (if stopping then 1 else 2)"
| "worker_rank dur N stopping WNotify = N + 3"
| "worker_rank dur N stopping WDone = N + 4"
| "worker_rank dur N stopping (WRun t k) = N + 5 + (case k of None \<Rightarrow> 0 | Some k \<Rightarrow> k)"
| "worker_rank dur N stopping (WExec t) = N + 6 + steps_of dur t"
| "worker_rank dur N stopping (WGot t) = N + 7 + steps_of dur t"

fun waiter_rank :: "waiter \<Rightarrow> nat" where
  "waiter_rank (WaitEntry timed) = 2" | "waiter_rank (WaitSleep timed) = 1" | "waiter_rank (WaitReturned r) = 0"

fun joins_left :: "nat \<Rightarrow> nat option \<Rightarrow> nat" where
  "joins_left n None = 0" | "joins_left n (Some i) = Suc (n - i)"

definition pool_size :: "thread_pool \<Rightarrow> nat" where
  "pool_size p = 2 * (length (threads p) + length (waiters p))"

definition pool_work :: "(pool_task \<Rightarrow> nat option) \<Rightarrow> nat \<Rightarrow> thread_pool \<Rightarrow> nat" where
  "pool_work dur N p =
     sum_list (map (worker_rank dur N (terminate p)) (threads p)) + sum_list (map waiter_rank (waiters p)) +
     sum_list (map (\<lambda>t. N + 7 + steps_of dur t) (tasks p)) +
     joins_left (length (threads p)) (stop_at p)"

lemma sum_list_update_nat:
  "i < length ws \<Longrightarrow> sum_list (map f (ws[i := w])) + f (ws ! i) = sum_list (map f ws) + (f w :: nat)"
proof (induction ws arbitrary: i)
  case (Cons v ws)
  show ?case
  proof (cases i)
    case (Suc j)
    then show ?thesis using Cons.IH [of j] Cons.prems by simp
  qed simp
qed simp

lemma woken_rank:
  "sum_list (map (worker_rank dur N b) (map woken ws)) \<le> sum_list (map (worker_rank dur N b) ws) + 2 * length ws"
proof (induction ws)
  case (Cons w ws)
  have "worker_rank dur N b (woken w) \<le> worker_rank dur N b w + 2" by (cases w) simp_all
  then show ?case using Cons by simp
qed simp

lemma woken_waiter_rank: "sum_list (map waiter_rank (map woken_waiter ws)) \<le> sum_list (map waiter_rank ws) + 2 * length ws"
proof (induction ws)
  case (Cons w ws)
  have "waiter_rank (woken_waiter w) \<le> waiter_rank w + 2" by (cases w) simp_all
  then show ?case using Cons by simp
qed simp

lemma worker_step_rank:
  assumes "worker_step dur now w p = Some (w', p', ev)"
  shows "worker_rank dur N (terminate p) w' + sum_list (map (\<lambda>t. N + 7 + steps_of dur t) (tasks p')) <
     worker_rank dur N (terminate p) w + sum_list (map (\<lambda>t. N + 7 + steps_of dur t) (tasks p))"
  using assms
  by (cases "(dur, now, w, p)" rule: worker_step.cases)
    (auto simp: ThreadPool_Get_def take_task_def steps_of_def split: worker_step_splits)

lemma work_rank:
  assumes i: "i < length (threads p)" and step: "worker_step dur now (threads p ! i) p = Some (w, p', ev)" and N: "pool_size p \<le> N"
  shows "pool_work dur N (p'\<lparr>threads := (threads p')[i := w]\<rparr>) < pool_work dur N p"
proof (rule worker_step_cases [OF step])
  assume same: "threads p' = threads p" "waiters p' = waiters p" "stop_at p' = stop_at p" "terminate p' = terminate p"
  show ?thesis using worker_step_rank [OF step, of N] sum_list_update_nat [OF i, of "worker_rank dur N (terminate p)" w] same
    by (simp add: pool_work_def)
next
  assume n: "threads p ! i = WNotify" "w = WLoop" "ev = Quiet" "atomic_count p = 0" "tasks p = []" "p' = notify_all p"
  let ?f = "worker_rank dur N (terminate p)" and ?vs = "map woken (threads p)"
  have "sum_list (map ?f (?vs[i := WLoop])) + ?f (?vs ! i) = sum_list (map ?f ?vs) + ?f WLoop"
    using i by (intro sum_list_update_nat) simp
  then have "sum_list (map ?f (?vs[i := WLoop])) + (N + 3) \<le> sum_list (map ?f (threads p)) + 2 * length (threads p) + 2"
    using woken_rank [of dur N "terminate p" "threads p"] i n(1) by (auto split: if_splits simp del: map_map)
  then show ?thesis using woken_waiter_rank [of "waiters p"] N n(2,5,6)
    by (simp add: pool_work_def pool_size_def del: map_map)
qed

lemma waiter_step_rank: "waiter_step w p = Some w' \<Longrightarrow> waiter_rank w' < waiter_rank w"
  by (cases w) (auto split: if_splits)

lemma progress_rank:
  "progress dur x y \<Longrightarrow> stop_inv (fst x) \<Longrightarrow> pool_size (fst x) \<le> N \<Longrightarrow>
   pool_work dur N (fst y) < pool_work dur N (fst x) \<and> pool_size (fst y) \<le> N"
proof (induction rule: progress.induct)
  case (work i p now w p' ev log)
  then show ?case using work_rank [OF work(1,2)] worker_step_threads [OF work(2)] by (simp add: pool_size_def)
next
  case (waiting i p w log)
  then show ?case using sum_list_update_nat [OF waiting(1), of waiter_rank w] waiter_step_rank [OF waiting(2)]
    by (simp add: pool_work_def pool_size_def)
next
  case (joining p p' log)
  then have inv: "stop_inv p" and size: "pool_size p \<le> N" by simp_all
  show ?case by (rule stop_step_cases [OF joining(1) inv]) (use size in \<open>simp_all add: pool_work_def pool_size_def\<close>)
qed

lemma progress_steps:
  "(progress dur ^^ n) x y \<Longrightarrow> pool_inv dur x \<Longrightarrow> pool_size (fst x) \<le> N \<Longrightarrow>
   n + pool_work dur N (fst y) \<le> pool_work dur N (fst x) \<and> pool_inv dur y \<and> pool_size (fst y) \<le> N"
proof (induction n arbitrary: y)
  case (Suc n)
  then obtain z where z: "(progress dur ^^ n) x z" "progress dur z y" by auto
  then have "n + pool_work dur N (fst z) \<le> pool_work dur N (fst x)" "pool_inv dur z" "pool_size (fst z) \<le> N"
    using Suc.IH [of z] Suc.prems by auto
  then show ?case using progress_rank [OF z(2)] progress_pool_inv [OF z(2)] by (fastforce simp: pool_inv_def)
qed simp

text \<open>Where the threads are when none of them can go on.\<close>

lemma worker_step_exists:
  "w \<noteq> WSleep \<Longrightarrow> w \<noteq> WExit \<Longrightarrow> \<forall>t. w \<noteq> WRun t None \<Longrightarrow> \<exists>r. worker_step dur now w p = Some r"
  by (cases "(dur, now, w, p)" rule: worker_step.cases) (auto split: option.split)

lemma blocked:
  assumes "\<nexists>y. progress dur (p, log) y"
  shows "w \<in> set (threads p) \<Longrightarrow> w = WSleep \<or> w = WExit \<or> (\<exists>t. w = WRun t None)"
    and "v \<in> set (waiters p) \<Longrightarrow> v = WaitSleep False \<or> (\<exists>r. v = WaitReturned r)"
    and "stop_step p = None"
proof -
  show "w = WSleep \<or> w = WExit \<or> (\<exists>t. w = WRun t None)" if "w \<in> set (threads p)"
  proof (rule ccontr)
    assume "\<not> ?thesis"
    then obtain r where r: "worker_step dur 0 w p = Some r" using worker_step_exists by blast
    obtain i where "i < length (threads p)" "threads p ! i = w" using \<open>w \<in> set (threads p)\<close> by (auto simp: in_set_conv_nth)
    then show False using progress.work [of i p dur 0] r assms by (cases r) blast
  qed
  show "v = WaitSleep False \<or> (\<exists>r. v = WaitReturned r)" if "v \<in> set (waiters p)"
  proof (rule ccontr)
    assume "\<not> ?thesis"
    then obtain w where w: "waiter_step v p = Some w" by (cases v) auto
    obtain i where "i < length (waiters p)" "waiters p ! i = v" using \<open>v \<in> set (waiters p)\<close> by (auto simp: in_set_conv_nth)
    then show False using progress.waiting [of i p w dur] w assms by blast
  qed
  show "stop_step p = None" using progress.joining [of p] assms by (cases "stop_step p") blast+
qed

section \<open>Stopping\<close>

text \<open>Once terminate_ is set no worker takes a task, and Stop goes on until the threads are gone.\<close>

definition stopping :: "thread_pool \<times> tp_event list \<Rightarrow> bool" where
  "stopping x \<longleftrightarrow> terminate (fst x) \<and> (stop_at (fst x) = None \<longrightarrow> threads (fst x) = [])"

lemma stopping_work:
  "terminate p \<Longrightarrow> worker_step dur now w p = Some (w', p', ev) \<Longrightarrow> taken [ev] = [] \<and> set (in_flight w') \<subseteq> set (in_flight w)"
  by (cases "(dur, now, w, p)" rule: worker_step.cases) (auto simp: ThreadPool_Get_def split: if_splits)

lemma progress_stopping:
  "progress dur x y \<Longrightarrow> stop_inv (fst x) \<Longrightarrow> stopping x \<Longrightarrow>
   stopping y \<and> taken (snd y) = taken (snd x) \<and>
   set (concat (map in_flight (threads (fst y)))) \<subseteq> set (concat (map in_flight (threads (fst x))))"
proof (induction rule: progress.induct)
  case (work i p now w p' ev log)
  have p: "terminate p" using work(4) by (simp add: stopping_def)
  note th = worker_step_threads [OF work(2)] and st = stopping_work [OF p work(2)]
  have "map in_flight ((threads p')[i := w]) = map in_flight ((threads p)[i := w])" using th by (blast intro: map_update_cong)
  then have "set (concat (map in_flight ((threads p')[i := w]))) \<subseteq> set (concat (map in_flight (threads p)))"
    using st nth_mem [OF work(1)] by (fastforce dest: set_update_subset_insert [THEN subsetD])
  then show ?case using st th work(1,4) by (auto simp: stopping_def)
next
  case (joining p p' log)
  then have "stop_inv p" by simp
  with joining(1) show ?case by (rule stop_step_cases) (use joining(3) in \<open>auto simp: stopping_def\<close>)
qed (simp add: stopping_def)

lemma progress_steps_stopping:
  "(progress dur ^^ n) x y \<Longrightarrow> pool_inv dur x \<Longrightarrow> stopping x \<Longrightarrow>
   stopping y \<and> taken (snd y) = taken (snd x) \<and>
   set (concat (map in_flight (threads (fst y)))) \<subseteq> set (concat (map in_flight (threads (fst x))))"
proof (induction n arbitrary: y)
  case (Suc n)
  then obtain z where z: "(progress dur ^^ n) x z" "progress dur z y" by auto
  then have "pool_inv dur z" using progress_steps [OF z(1) Suc.prems(2) order_refl] by simp
  then have yz: "stopping z \<Longrightarrow> stopping y \<and> taken (snd y) = taken (snd z) \<and>
      set (concat (map in_flight (threads (fst y)))) \<subseteq> set (concat (map in_flight (threads (fst z))))"
    using progress_stopping [OF z(2)] by (simp add: pool_inv_def)
  have "stopping z \<and> taken (snd z) = taken (snd x) \<and>
      set (concat (map in_flight (threads (fst z)))) \<subseteq> set (concat (map in_flight (threads (fst x))))"
    by (rule Suc.IH [OF z(1) Suc.prems(2,3)])
  with yz show ?case by (metis subset_trans)
qed simp

text \<open>
  C30. Stop comes back. In every state the pool can reach with a call of Stop under way, in which the
  tasks that are being run end some time: the threads can make no more than pool_work steps, take no
  further task, and the only states in which none of them can go on are those in which Stop has
  returned and the threads are gone. No worker sleeps through the notification.
\<close>

theorem ThreadPool_Stop_joins:
  assumes "(pool_step dur)\<^sup>*\<^sup>* (new_ThreadPool, []) (p, log)" and "stop_at p \<noteq> None"
    and "\<forall>t \<in> set (concat (map in_flight (threads p))). dur t \<noteq> None"
    and "(progress dur ^^ n) (p, log) (q, log')"
  shows "n \<le> pool_work dur (pool_size p) p \<and> taken log' = taken log \<and>
    ((\<exists>y. progress dur (q, log') y) \<or> stop_at q = None \<and> threads q = [])"
proof -
  have inv: "pool_inv dur (p, log)" using pool_steps_inv [OF assms(1) new_pool_inv] .
  then have "stopping (p, log)" using assms(2) by (auto simp: pool_inv_def stop_inv_def stopping_def)
  note later = progress_steps_stopping [OF assms(4) inv this]
  note bound = progress_steps [OF assms(4) inv, of "pool_size p"]
  have "stop_at q = None \<and> threads q = []" if stuck: "\<nexists>y. progress dur (q, log') y"
  proof (rule ccontr)
    assume "\<not> ?thesis"
    then obtain i where i: "stop_at q = Some i" using later by (auto simp: stopping_def)
    have "i < length (threads q)" "threads q ! i \<noteq> WExit"
      using blocked(3) [OF stuck] i by (auto simp: stop_step_def split: if_splits)
    then obtain w where w: "w \<in> set (threads q)" "w \<noteq> WExit" using nth_mem by blast
    have live: "live_inv dur q" using bound by (simp add: pool_inv_def)
    then have "w \<noteq> WSleep" using later w(1) live_invD(1) by (auto simp: stopping_def)
    then obtain t where t: "w = WRun t None" using blocked(1) [OF stuck w(1)] w(2) by blast
    then have "dur t = None" using w(1) live_invD(5) [OF live] by blast
    moreover have "t \<in> set (concat (map in_flight (threads q)))" using w(1) t by (auto intro: bexI [of _ w])
    ultimately show False using later assms(3) unfolding fst_conv by blast
  qed
  then show ?thesis using later bound by auto
qed

section \<open>Draining the queue\<close>

lemma progress_open:
  "progress dur x y \<Longrightarrow> stop_inv (fst x) \<Longrightarrow> \<not> terminate (fst x) \<and> threads (fst x) \<noteq> [] \<Longrightarrow>
   (\<not> terminate (fst y) \<and> threads (fst y) \<noteq> []) \<and> submitted (snd y) = submitted (snd x)"
proof (induction rule: progress.induct)
  case (work i p now w p' ev log)
  then show ?case using worker_step_threads [OF work(2)] worker_step_effect [OF work(2)] by auto
next
  case (joining p p' log)
  then have "stop_inv p" by simp
  with joining(1) show ?case by (rule stop_step_cases) (use joining(2,3) in \<open>auto simp: stop_inv_def\<close>)
qed simp

lemma progress_steps_open:
  "(progress dur ^^ n) x y \<Longrightarrow> pool_inv dur x \<Longrightarrow> \<not> terminate (fst x) \<and> threads (fst x) \<noteq> [] \<Longrightarrow>
   (\<not> terminate (fst y) \<and> threads (fst y) \<noteq> []) \<and> submitted (snd y) = submitted (snd x)"
proof (induction n arbitrary: y)
  case (Suc n)
  then obtain z where z: "(progress dur ^^ n) x z" "progress dur z y" by auto
  then have "pool_inv dur z" using progress_steps [OF z(1) Suc.prems(2) order_refl] by simp
  then show ?case using Suc.IH [of z] Suc.prems z progress_open [OF z(2)] by (auto simp: pool_inv_def)
qed simp

text \<open>
  C38. Every task is done. In every state the pool can reach with threads and without a call of
  Stop, if the tasks submitted so far end some time: the threads can make no more than pool_work
  steps, and the only states in which none of them can go on are those in which the queue is empty,
  the tasks that have been run or dropped are those submitted, and every call of WaitForAllDone has
  returned. No task and no waiting caller is left behind a sleeping worker.
\<close>

theorem ThreadPool_drains:
  assumes "(pool_step dur)\<^sup>*\<^sup>* (new_ThreadPool, []) (p, log)" and "\<not> terminate p" and "threads p \<noteq> []"
    and "\<forall>t \<in> set (submitted log). dur t \<noteq> None"
    and "(progress dur ^^ n) (p, log) (q, log')"
  shows "n \<le> pool_work dur (pool_size p) p \<and>
    ((\<exists>y. progress dur (q, log') y) \<or>
     tasks q = [] \<and> mset (finished log') = mset (submitted log) \<and> (\<forall>v \<in> set (waiters q). \<exists>r. v = WaitReturned r))"
proof -
  have inv: "pool_inv dur (p, log)" using pool_steps_inv [OF assms(1) new_pool_inv] .
  note bound = progress_steps [OF assms(5) inv, of "pool_size p"]
  have later: "\<not> terminate q" "threads q \<noteq> []" "submitted log' = submitted log"
    using progress_steps_open [OF assms(5) inv] assms(2,3) by simp_all
  have tp: "submitted log' = taken log' @ tasks q" "mset (taken log') = mset (finished log') + mset (concat (map in_flight (threads q)))"
    and live: "live_inv dur q" using bound by (simp_all add: pool_inv_def tp_inv_def)
  have "tasks q = [] \<and> mset (finished log') = mset (submitted log) \<and> (\<forall>v \<in> set (waiters q). \<exists>r. v = WaitReturned r)"
    if stuck: "\<nexists>y. progress dur (q, log') y"
  proof -
    have "t \<in> set (taken log')" if "WRun t k \<in> set (threads q)" for t k
    proof -
      have "t \<in># mset (concat (map in_flight (threads q)))" using that by (auto intro: bexI [of _ "WRun t k"])
      then show ?thesis using tp(2) by (metis set_mset_mset union_iff)
    qed
    then have "WRun t None \<in> set (threads q) \<Longrightarrow> t \<in> set (submitted log)" for t
      using tp(1) later(3) by (metis Un_iff set_append)
    then have "WRun t None \<notin> set (threads q)" for t
      using live_invD(5) [OF live, of t] assms(4) by blast
    then have sleep: "w = WSleep" if "w \<in> set (threads q)" for w
      using blocked(1) [OF stuck that] live_invD(2) [OF live later(1)] that by blast
    then have "\<not> (\<exists>w \<in> set (threads q). awake w)" by (auto simp: awake_def)
    then have none: "tasks q = []" "\<not> someone_waits q" using live_invD(4) [OF live later(1,2)] by blast+
    have "concat (map in_flight (threads q)) = []" using sleep by fastforce
    then have "mset (finished log') = mset (submitted log)" using tp none(1) later(3) by simp
    moreover have "\<exists>r. v = WaitReturned r" if "v \<in> set (waiters q)" for v
      using blocked(2) [OF stuck that] none(2) that by (auto simp: someone_waits_def)
    ultimately show ?thesis using none(1) by blast
  qed
  then show ?thesis using bound by auto
qed

section \<open>A pool of one worker\<close>

definition one_task :: pool_task where
  "one_task = new_task 0 0 7"

definition one_worker :: "pool_task list \<Rightarrow> worker \<Rightarrow> int \<Rightarrow> thread_pool" where
  "one_worker ts w c =
     \<lparr>tasks = ts, threads = [w], thread_num = 1, terminate = False, atomic_count = c, waiters = [], stop_at = None\<rparr>"

definition one_stopping :: "worker \<Rightarrow> nat option \<Rightarrow> thread_pool" where
  "one_stopping w s =
     \<lparr>tasks = [], threads = [w], thread_num = 1, terminate = True, atomic_count = 0, waiters = [], stop_at = s\<rparr>"

lemma one_step:
  "worker_step dur 0 w (one_worker ts w c) = Some (w', one_worker ts' w c', ev) \<Longrightarrow>
   progress dur (one_worker ts w c, log) (one_worker ts' w' c', log @ [ev])"
  using progress.work [of 0 "one_worker ts w c" dur 0 w' "one_worker ts' w c'" ev log] by (simp add: one_worker_def)

lemma runs_none: "(progress dur ^^ 0) x x"
  by simp

lemma runs_more: "(progress dur ^^ n) x y \<Longrightarrow> progress dur y z \<Longrightarrow> (progress dur ^^ Suc n) x z"
  by (rule relpowp_Suc_I)

lemmas one_step_simps = one_worker_def ThreadPool_Get_def take_task_def notify_all_def

text \<open>Started, and asleep as there is no task.\<close>

lemma reach_idle: "(pool_step dur)\<^sup>*\<^sup>* (new_ThreadPool, []) (one_worker [] WSleep 0, [Quiet, Quiet])"
proof -
  have start: "pool_step dur (new_ThreadPool, []) (one_worker [] WLoop 0, [])"
    using pool_step.start [of dur new_ThreadPool "[]"] by (simp add: new_ThreadPool_def ThreadPool_Start_def one_worker_def)
  have loop: "pool_step dur (one_worker [] WLoop 0, []) (one_worker [] WGet 0, [] @ [Quiet])"
    by (intro pool_step.progress one_step) (simp add: one_worker_def)
  have get: "pool_step dur (one_worker [] WGet 0, [] @ [Quiet]) (one_worker [] WSleep 0, ([] @ [Quiet]) @ [Quiet])"
    by (intro pool_step.progress one_step) (simp add: one_step_simps)
  show ?thesis using start loop get by (auto intro: converse_rtranclp_into_rtranclp)
qed

text \<open>Exec wakes it.\<close>

lemma reach_woken:
  "(pool_step dur)\<^sup>*\<^sup>* (new_ThreadPool, []) (one_worker [one_task] WGet 0, [Quiet, Quiet, Submitted one_task])"
proof -
  have "ThreadPool_Exec 0 one_task (one_worker [] WSleep 0) = one_worker [one_task] WGet 0"
    by (simp add: ThreadPool_Exec_def notify_one_def sleepers_def one_worker_def)
  then have "pool_step dur (one_worker [] WSleep 0, [Quiet, Quiet]) (one_worker [one_task] WGet 0, [Quiet, Quiet, Submitted one_task])"
    using pool_step.exec [of dur "one_worker [] WSleep 0" "[Quiet, Quiet]" 0 one_task] by simp
  then show ?thesis by (rule rtranclp.rtrancl_into_rtrancl [OF reach_idle])
qed

theorem ThreadPool_tasks_once_witness:
  "\<exists>p log. (pool_step (\<lambda>t. Some 0))\<^sup>*\<^sup>* (new_ThreadPool, []) (p, log) \<and> taken log = [one_task] \<and> submitted log = taken log @ tasks p \<and>
     mset (taken log) = mset (finished log) + mset (concat (map in_flight (threads p))) \<and> threads p = [WGot one_task]"
proof -
  let ?q = "one_worker [] (WGot one_task) 0" and ?log = "[Quiet, Quiet, Submitted one_task] @ [Taken one_task]"
  have "pool_step (\<lambda>t. Some 0) (one_worker [one_task] WGet 0, [Quiet, Quiet, Submitted one_task]) (?q, ?log)"
    by (intro pool_step.progress one_step) (simp add: one_step_simps)
  then have run: "(pool_step (\<lambda>t. Some 0))\<^sup>*\<^sup>* (new_ThreadPool, []) (?q, ?log)" by (rule rtranclp.rtrancl_into_rtrancl [OF reach_woken])
  have "taken ?log = [one_task]" "threads ?q = [WGot one_task]" by (simp_all add: one_worker_def)
  then show ?thesis using run ThreadPool_tasks_once [OF run] by blast
qed

text \<open>Stop wakes the sleeping worker, which leaves and is joined.\<close>

lemma one_stopping_step:
  "worker_step dur 0 w (one_stopping w s) = Some (w', one_stopping w s, ev) \<Longrightarrow>
   progress dur (one_stopping w s, log) (one_stopping w' s, log @ [ev])"
  using progress.work [of 0 "one_stopping w s" dur 0 w' "one_stopping w s" ev log] by (simp add: one_stopping_def)

theorem ThreadPool_Stop_joins_witness:
  "\<exists>q log'. (progress (\<lambda>t. None) ^^ 4) (one_stopping WGet (Some 0), [Quiet, Quiet]) (q, log') \<and>
     stop_at q = None \<and> threads q = [] \<and> taken log' = [] \<and> 4 \<le> pool_work (\<lambda>t. None) 2 (one_stopping WGet (Some 0))"
proof -
  let ?d = "\<lambda>t :: pool_task. None :: nat option" and ?l = "[Quiet, Quiet]"
  let ?l2 = "?l @ [Quiet]" let ?l3 = "?l2 @ [Quiet]" let ?p = "one_stopping WGet (Some 0)"
  let ?q = "(one_stopping WExit (Some 1))\<lparr>threads := [], stop_at := None\<rparr>"
  have stop: "ThreadPool_Stop (one_worker [] WSleep 0) = ?p"
    by (simp add: ThreadPool_Stop_def notify_all_def one_worker_def one_stopping_def)
  have reach: "(pool_step ?d)\<^sup>*\<^sup>* (new_ThreadPool, []) (?p, ?l)"
    using rtranclp.rtrancl_into_rtrancl [OF reach_idle pool_step.stop [of "one_worker [] WSleep 0" ?d ?l]] stop
    by (simp add: one_worker_def)
  have s1: "progress ?d (?p, ?l) (one_stopping WLoop (Some 0), ?l2)"
    by (rule one_stopping_step) (simp add: one_stopping_def ThreadPool_Get_def)
  have s2: "progress ?d (one_stopping WLoop (Some 0), ?l2) (one_stopping WExit (Some 0), ?l3)"
    by (rule one_stopping_step) (simp add: one_stopping_def)
  have s3: "progress ?d (one_stopping WExit (Some 0), ?l3) (one_stopping WExit (Some 1), ?l3)"
    by (rule progress.joining) (simp add: stop_step_def one_stopping_def)
  have s4: "progress ?d (one_stopping WExit (Some 1), ?l3) (?q, ?l3)"
    by (rule progress.joining) (simp add: stop_step_def one_stopping_def)
  have run: "(progress ?d ^^ Suc (Suc (Suc (Suc 0)))) (?p, ?l) (?q, ?l3)"
    by (rule runs_more [OF runs_more [OF runs_more [OF runs_more [OF runs_none s1] s2] s3] s4])
  have "taken ?l3 = [] \<and> 4 \<le> pool_work ?d (pool_size ?p) ?p"
    using ThreadPool_Stop_joins [OF reach _ _ run] by (simp add: one_stopping_def)
  moreover have "pool_size ?p = 2" by (simp add: pool_size_def one_stopping_def)
  moreover have "stop_at ?q = None" "threads ?q = []" by simp_all
  ultimately show ?thesis using run by (metis eval_nat_numeral(2) eval_nat_numeral(3) numeral_2_eq_2 semiring_norm(26,27))
qed

text \<open>The task wakes the worker, which does it and sleeps again.\<close>

theorem ThreadPool_drains_witness:
  "\<exists>log' n. (progress (\<lambda>t. Some 0) ^^ n) (one_worker [one_task] WGet 0, [Quiet, Quiet, Submitted one_task])
       (one_worker [] WSleep 0, log') \<and>
     finished log' = [one_task] \<and> n = 8 \<and> n \<le> pool_work (\<lambda>t. Some 0) 2 (one_worker [one_task] WGet 0) \<and>
     mset (finished log') = mset (submitted [Quiet, Quiet, Submitted one_task])"
proof -
  let ?d = "\<lambda>t :: pool_task. Some 0 :: nat option" and ?l = "[Quiet, Quiet, Submitted one_task]"
  let ?l1 = "?l @ [Taken one_task]" let ?l2 = "?l1 @ [Quiet]" let ?l3 = "?l2 @ [Quiet]"
  let ?l4 = "?l3 @ [Ran one_task]" let ?l5 = "?l4 @ [Quiet]" let ?l6 = "?l5 @ [Quiet]" let ?l7 = "?l6 @ [Quiet]" let ?l8 = "?l7 @ [Quiet]"
  let ?p = "one_worker [one_task] WGet 0" and ?q = "one_worker [] WSleep 0"
  have s1: "progress ?d (?p, ?l) (one_worker [] (WGot one_task) 0, ?l1)" by (rule one_step) (simp add: one_step_simps)
  have s2: "progress ?d (one_worker [] (WGot one_task) 0, ?l1) (one_worker [] (WExec one_task) 1, ?l2)"
    by (rule one_step) (simp add: one_step_simps)
  have s3: "progress ?d (one_worker [] (WExec one_task) 1, ?l2) (one_worker [] (WRun one_task (Some 0)) 1, ?l3)"
    by (rule one_step) (simp add: one_step_simps expired_def one_task_def new_task_def)
  have s4: "progress ?d (one_worker [] (WRun one_task (Some 0)) 1, ?l3) (one_worker [] WDone 1, ?l4)"
    by (rule one_step) (simp add: one_step_simps)
  have s5: "progress ?d (one_worker [] WDone 1, ?l4) (one_worker [] WNotify 0, ?l5)" by (rule one_step) (simp add: one_step_simps)
  have s6: "progress ?d (one_worker [] WNotify 0, ?l5) (one_worker [] WLoop 0, ?l6)" by (rule one_step) (simp add: one_step_simps)
  have s7: "progress ?d (one_worker [] WLoop 0, ?l6) (one_worker [] WGet 0, ?l7)" by (rule one_step) (simp add: one_step_simps)
  have s8: "progress ?d (one_worker [] WGet 0, ?l7) (?q, ?l8)" by (rule one_step) (simp add: one_step_simps)
  note four = runs_more [OF runs_more [OF runs_more [OF runs_more [OF runs_none s1] s2] s3] s4]
  have run: "(progress ?d ^^ Suc (Suc (Suc (Suc (Suc (Suc (Suc (Suc 0)))))))) (?p, ?l) (?q, ?l8)"
    by (rule runs_more [OF runs_more [OF runs_more [OF runs_more [OF four s5] s6] s7] s8])
  have "\<not> progress ?d (?q, ?l8) y" for y
    by (auto simp: one_worker_def stop_step_def elim!: progress.cases)
  then have "8 \<le> pool_work ?d (pool_size ?p) ?p \<and> mset (finished ?l8) = mset (submitted ?l)"
    using ThreadPool_drains [OF reach_woken _ _ _ run] by (simp add: one_worker_def)
  moreover have "pool_size ?p = 2" by (simp add: pool_size_def one_worker_def)
  moreover have "(progress ?d ^^ 8) (?p, ?l) (?q, ?l8)"
  proof -
    have "Suc (Suc (Suc (Suc (Suc (Suc (Suc (Suc 0))))))) = (8 :: nat)" by simp
    then show ?thesis using run by metis
  qed
  ultimately show ?thesis by (intro exI [of _ ?l8] exI [of _ 8]) simp
qed

text \<open>
  WaitForAllDone looks at the queue alone: with a task still running it returns, whatever its comment
  promises.
\<close>

lemma WaitForAllDone_ignores_running:
  "waiter_step (WaitEntry timed) (one_worker [] (WRun one_task k) 1) = Some (WaitReturned True)"
  by (simp add: one_worker_def)

section \<open>The queues of the event loop\<close>

text \<open>The tasks and the responses of theory Http_Conn wait in queues of the same kind.\<close>

interpretation task_queue: fifo pool_tasks "\<lambda>t. pool_tasks_update (\<lambda>ts. ts @ [t])"
  "\<lambda>s :: srv. case pool_tasks s of [] \<Rightarrow> None | t # ts \<Rightarrow> Some (t, s\<lparr>pool_tasks := ts\<rparr>)"
  by unfold_locales (auto split: list.splits)

interpretation response_queue: fifo s_response_pdu_list "\<lambda>r. s_response_pdu_list_update (\<lambda>rs. rs @ [r])"
  "\<lambda>s :: srv. case s_response_pdu_list s of [] \<Rightarrow> None | r # rs \<Rightarrow> Some (r, s\<lparr>s_response_pdu_list := rs\<rparr>)"
  by unfold_locales (auto split: list.splits)

end
