(* ===== verification/Netlib.thy ===== *)
theory Netlib
  imports Util_Pdu Proc
begin

text \<open>
  base/base_socket.cc, event_dispatch.cc and netlib.cc on Linux: sockets as objects with a reference
  count, found through the map g_socket_map by their descriptor, and the event dispatcher that calls
  back when epoll reports something. A callback is a function pointer with its data, here a value of
  a type 'f; what calling it does is the argument invoke of the dispatcher. The state of the code
  that is called back is the component client.

  A pointer is an index into a heap; an object that was deleted is None there, and using it is the
  fault UseAfterFree.
\<close>

section \<open>State\<close>

datatype netlib_msg =
    NetConnect | NetConfirm | NetRead | NetWrite | NetClose | NetTimer | NetLoop

datatype socket_state = SockIdle | SockListening | SockConnecting | SockConnected | SockClosing

record 'f base_socket =
  bs_ref :: int
  remote_ip :: string
  remote_port :: int
  local_ip :: string
  local_port :: int
  bs_callback :: "'f option"
  bs_data :: nat
  bs_state :: socket_state
  bs_fd :: int

record 'f timer_item =
  ti_callback :: 'f
  ti_data :: nat
  ti_interval :: int
  ti_next :: int

text \<open>The timers are a std::list: its nodes have an identity, which an iterator points to.\<close>

record ('f, 'c) net =
  socket_heap :: "nat \<Rightarrow> 'f base_socket option"
  next_socket :: nat
  g_socket_map :: "(int \<times> nat) list"
  timer_list :: "(nat \<times> 'f timer_item) list"
  next_timer :: nat
  loop_list :: "('f \<times> nat) list"
  running :: bool
  client :: 'c

type_synonym ('f, 'c, 'a) netp = "(('f, 'c) net, 'a) proc"

definition getN :: "(('f, 'c) net \<Rightarrow> 'a) \<Rightarrow> ('f, 'c, 'a) netp" where
  "getN f = GetS (\<lambda>s. Ret (f s))"

definition modN :: "(('f, 'c) net \<Rightarrow> ('f, 'c) net) \<Rightarrow> ('f, 'c, unit) netp" where
  "modN f = GetS (\<lambda>s. PutS (f s) (Ret ()))"

definition the_socket :: "nat \<Rightarrow> ('f base_socket \<Rightarrow> ('f, 'c, 'a) netp) \<Rightarrow> ('f, 'c, 'a) netp" where
  "the_socket c k = GetS (\<lambda>s. case socket_heap s c of None \<Rightarrow> Fault UseAfterFree | Some b \<Rightarrow> k b)"

definition put_socket :: "nat \<Rightarrow> 'f base_socket option \<Rightarrow> ('f, 'c) net \<Rightarrow> ('f, 'c) net" where
  "put_socket c b s = s\<lparr>socket_heap := (socket_heap s)(c := b)\<rparr>"

definition set_socket :: "nat \<Rightarrow> ('f base_socket \<Rightarrow> 'f base_socket) \<Rightarrow> ('f, 'c, unit) netp" where
  "set_socket c f = the_socket c (\<lambda>b. modN (put_socket c (Some (f b))))"

section \<open>Sockets\<close>

definition INVALID_SOCKET :: int where "INVALID_SOCKET = - 1"
definition SOCKET_ERROR :: int where "SOCKET_ERROR = - 1"
definition NETLIB_OK :: int where "NETLIB_OK = 0"
definition NETLIB_ERROR :: int where "NETLIB_ERROR = - 1"

definition new_CBaseSocket :: "('f, 'c, nat) netp" where
  "new_CBaseSocket =
     GetS (\<lambda>s. PutS (s\<lparr>socket_heap := (socket_heap s)(next_socket s \<mapsto>
         \<lparr>bs_ref = 1, remote_ip = [], remote_port = 0, local_ip = [], local_port = 0, bs_callback = None,
          bs_data = 0, bs_state = SockIdle, bs_fd = INVALID_SOCKET\<rparr>),
       next_socket := Suc (next_socket s)\<rparr>) (Ret (next_socket s)))"

definition delete_CBaseSocket :: "nat \<Rightarrow> ('f, 'c, unit) netp" where
  "delete_CBaseSocket c = modN (put_socket c None)"

definition AddRef_socket :: "nat \<Rightarrow> ('f, 'c, unit) netp" where
  "AddRef_socket c = set_socket c (\<lambda>b. b\<lparr>bs_ref := bs_ref b + 1\<rparr>)"

definition ReleaseRef_socket :: "nat \<Rightarrow> ('f, 'c, unit) netp" where
  "ReleaseRef_socket c =
     the_socket c (\<lambda>b.
       modN (put_socket c (if bs_ref b - 1 = 0 then None else Some (b\<lparr>bs_ref := bs_ref b - 1\<rparr>))))"

text \<open>insert does not replace an entry that is there.\<close>

definition AddBaseSocket :: "nat \<Rightarrow> ('f, 'c, unit) netp" where
  "AddBaseSocket c =
     the_socket c (\<lambda>b. modN (\<lambda>s.
       if map_of (g_socket_map s) (bs_fd b) = None then s\<lparr>g_socket_map := (bs_fd b, c) # g_socket_map s\<rparr> else s))"

definition RemoveBaseSocket :: "nat \<Rightarrow> ('f, 'c, unit) netp" where
  "RemoveBaseSocket c =
     the_socket c (\<lambda>b. modN (g_socket_map_update (filter (\<lambda>e. fst e \<noteq> bs_fd b))))"

definition FindBaseSocket :: "int \<Rightarrow> ('f, 'c, nat option) netp" where
  "FindBaseSocket fd =
     bindp (getN (\<lambda>s. map_of (g_socket_map s) fd)) (\<lambda>p.
       case p of None \<Rightarrow> Ret None | Some c \<Rightarrow> bindp (AddRef_socket c) (\<lambda>_. Ret (Some c)))"

text \<open>EINPROGRESS and EWOULDBLOCK of Linux.\<close>

definition IsBlock :: "int \<Rightarrow> bool" where
  "IsBlock error_code \<longleftrightarrow> error_code = 115 \<or> error_code = 11"

text \<open>A failing epoll_ctl or socket option is only printed.\<close>

definition AddEvent :: "int \<Rightarrow> ('f, 'c, unit) netp" where
  "AddEvent fd = Os (SysEpollAdd fd) (\<lambda>_. Ret ())"

definition RemoveEvent :: "int \<Rightarrow> ('f, 'c, unit) netp" where
  "RemoveEvent fd = Os (SysEpollDel fd) (\<lambda>_. Ret ())"

definition SetOption :: "int \<Rightarrow> ('f, 'c, unit) netp" where
  "SetOption fd = Os (SysSockopt fd) (\<lambda>_. Ret ())"

definition CBaseSocket_Listen :: "nat \<Rightarrow> string \<Rightarrow> int \<Rightarrow> 'f \<Rightarrow> nat \<Rightarrow> ('f, 'c, int) netp" where
  "CBaseSocket_Listen c ip port callback cdata =
     bindp (set_socket c (\<lambda>b. b\<lparr>local_ip := ip, local_port := port, bs_callback := Some callback, bs_data := cdata\<rparr>)) (\<lambda>_.
     Os SysSocket (\<lambda>r.
     let fd = os_int r
     in bindp (set_socket c (bs_fd_update (\<lambda>_. fd))) (\<lambda>_.
        if fd = INVALID_SOCKET then Ret NETLIB_ERROR
        else
          bindp (SetOption fd) (\<lambda>_.
          bindp (SetOption fd) (\<lambda>_.
          Os (SysBind fd ip port) (\<lambda>r.
          if os_int r = SOCKET_ERROR then Os (SysClose fd) (\<lambda>_. Ret NETLIB_ERROR)
          else
            Os (SysListen fd) (\<lambda>r.
            if os_int r = SOCKET_ERROR then Os (SysClose fd) (\<lambda>_. Ret NETLIB_ERROR)
            else
              bindp (set_socket c (bs_state_update (\<lambda>_. SockListening))) (\<lambda>_.
              bindp (AddBaseSocket c) (\<lambda>_.
              bindp (AddEvent fd) (\<lambda>_. Ret NETLIB_OK))))))))))"

definition CBaseSocket_Connect :: "nat \<Rightarrow> string \<Rightarrow> int \<Rightarrow> 'f \<Rightarrow> nat \<Rightarrow> ('f, 'c, int) netp" where
  "CBaseSocket_Connect c ip port callback cdata =
     bindp (set_socket c (\<lambda>b. b\<lparr>remote_ip := ip, remote_port := port, bs_callback := Some callback, bs_data := cdata\<rparr>)) (\<lambda>_.
     Os SysSocket (\<lambda>r.
     let fd = os_int r
     in bindp (set_socket c (bs_fd_update (\<lambda>_. fd))) (\<lambda>_.
        if fd = INVALID_SOCKET then Ret NETLIB_ERROR
        else
          bindp (SetOption fd) (\<lambda>_.
          bindp (SetOption fd) (\<lambda>_.
          Os (SysConnect fd ip port) (\<lambda>r.
          Os SysErrno (\<lambda>err.
          if os_int r = SOCKET_ERROR \<and> \<not> IsBlock (os_int err) then Os (SysClose fd) (\<lambda>_. Ret NETLIB_ERROR)
          else
            bindp (set_socket c (bs_state_update (\<lambda>_. SockConnecting))) (\<lambda>_.
            bindp (AddBaseSocket c) (\<lambda>_.
            bindp (AddEvent fd) (\<lambda>_. Ret fd))))))))))"

definition CBaseSocket_Send :: "nat \<Rightarrow> string \<Rightarrow> ('f, 'c, int) netp" where
  "CBaseSocket_Send c buf =
     the_socket c (\<lambda>b.
       if bs_state b \<noteq> SockConnected then Ret NETLIB_ERROR
       else
         Os (SysSend (bs_fd b) buf) (\<lambda>r.
         if os_int r = SOCKET_ERROR then
           Os SysErrno (\<lambda>err. if IsBlock (os_int err) then Ret 0 else Ret (os_int r))
         else Ret (os_int r)))"

definition CBaseSocket_Recv :: "nat \<Rightarrow> nat \<Rightarrow> ('f, 'c, os_reply) netp" where
  "CBaseSocket_Recv c len = the_socket c (\<lambda>b. Os (SysRecv (bs_fd b) len) Ret)"

definition CBaseSocket_Close :: "nat \<Rightarrow> ('f, 'c, int) netp" where
  "CBaseSocket_Close c =
     the_socket c (\<lambda>b.
     bindp (RemoveEvent (bs_fd b)) (\<lambda>_.
     bindp (RemoveBaseSocket c) (\<lambda>_.
     Os (SysClose (bs_fd b)) (\<lambda>_.
     bindp (ReleaseRef_socket c) (\<lambda>_. Ret 0)))))"

section \<open>The functions of netlib\<close>

definition netlib_listen :: "string \<Rightarrow> int \<Rightarrow> 'f \<Rightarrow> nat \<Rightarrow> ('f, 'c, int) netp" where
  "netlib_listen ip port callback cdata =
     bindp new_CBaseSocket (\<lambda>c.
     bindp (CBaseSocket_Listen c ip port callback cdata) (\<lambda>ret.
     if ret = NETLIB_ERROR then bindp (delete_CBaseSocket c) (\<lambda>_. Ret ret) else Ret ret))"

definition netlib_connect :: "string \<Rightarrow> int \<Rightarrow> 'f \<Rightarrow> nat \<Rightarrow> ('f, 'c, int) netp" where
  "netlib_connect ip port callback cdata =
     bindp new_CBaseSocket (\<lambda>c.
     bindp (CBaseSocket_Connect c ip port callback cdata) (\<lambda>handle.
     if handle = - 1 then bindp (delete_CBaseSocket c) (\<lambda>_. Ret handle) else Ret handle))"

text \<open>Find a socket, which takes a reference, use it, and give the reference back.\<close>

definition with_socket :: "int \<Rightarrow> 'a \<Rightarrow> (nat \<Rightarrow> ('f, 'c, 'a) netp) \<Rightarrow> ('f, 'c, 'a) netp" where
  "with_socket handle none body =
     bindp (FindBaseSocket handle) (\<lambda>pSocket.
       case pSocket of
         None \<Rightarrow> Ret none
       | Some c \<Rightarrow> bindp (body c) (\<lambda>ret. bindp (ReleaseRef_socket c) (\<lambda>_. Ret ret)))"

definition netlib_send :: "int \<Rightarrow> string \<Rightarrow> ('f, 'c, int) netp" where
  "netlib_send handle buf = with_socket handle NETLIB_ERROR (\<lambda>c. CBaseSocket_Send c buf)"

definition netlib_recv :: "int \<Rightarrow> nat \<Rightarrow> ('f, 'c, os_reply) netp" where
  "netlib_recv handle len = with_socket handle \<lparr>os_int = NETLIB_ERROR, os_str = []\<rparr> (\<lambda>c. CBaseSocket_Recv c len)"

definition netlib_close :: "int \<Rightarrow> ('f, 'c, int) netp" where
  "netlib_close handle = with_socket handle NETLIB_ERROR CBaseSocket_Close"

text \<open>
  netlib_option: the setters and getters by option. The answer is None when there is no such socket,
  and otherwise what was stored through optval. The size of a kernel buffer is a socket option that
  is set and printed.
\<close>

datatype 'f net_opt =
    OptSetCallback 'f | OptSetCallbackData nat | OptGetRemoteIp | OptGetRemotePort | OptGetLocalIp
  | OptGetLocalPort | OptSetSendBufSize int | OptSetRecvBufSize int | OptOther

datatype opt_value = NoValue | TextValue string | NumValue int

definition CBaseSocket_option :: "nat \<Rightarrow> 'f net_opt \<Rightarrow> ('f, 'c, opt_value) netp" where
  "CBaseSocket_option c opt =
     the_socket c (\<lambda>b.
       case opt of
         OptSetCallback callback \<Rightarrow> bindp (set_socket c (bs_callback_update (\<lambda>_. Some callback))) (\<lambda>_. Ret NoValue)
       | OptSetCallbackData cdata \<Rightarrow> bindp (set_socket c (bs_data_update (\<lambda>_. cdata))) (\<lambda>_. Ret NoValue)
       | OptGetRemoteIp \<Rightarrow> Ret (TextValue (remote_ip b))
       | OptGetRemotePort \<Rightarrow> Ret (NumValue (remote_port b))
       | OptGetLocalIp \<Rightarrow> Ret (TextValue (local_ip b))
       | OptGetLocalPort \<Rightarrow> Ret (NumValue (local_port b))
       | OptSetSendBufSize n \<Rightarrow> bindp (SetOption (bs_fd b)) (\<lambda>_. Ret NoValue)
       | OptSetRecvBufSize n \<Rightarrow> bindp (SetOption (bs_fd b)) (\<lambda>_. Ret NoValue)
       | OptOther \<Rightarrow> Ret NoValue)"

definition netlib_option :: "int \<Rightarrow> 'f net_opt \<Rightarrow> ('f, 'c, opt_value option) netp" where
  "netlib_option handle opt =
     with_socket handle None (\<lambda>c. bindp (CBaseSocket_option c opt) (\<lambda>v. Ret (Some v)))"

section \<open>Timers and loops\<close>

text \<open>Ticks are uint64_t.\<close>

definition u64 :: "int \<Rightarrow> int" where
  "u64 n = n mod 2 ^ 64"

definition same_timer :: "'f \<Rightarrow> nat \<Rightarrow> nat \<times> 'f timer_item \<Rightarrow> bool" where
  "same_timer callback user_data e \<longleftrightarrow> ti_callback (snd e) = callback \<and> ti_data (snd e) = user_data"

fun update_first :: "('a \<Rightarrow> bool) \<Rightarrow> ('a \<Rightarrow> 'a) \<Rightarrow> 'a list \<Rightarrow> 'a list" where
  "update_first P f [] = []"
| "update_first P f (x # xs) = (if P x then f x # xs else x # update_first P f xs)"

fun remove_first :: "('a \<Rightarrow> bool) \<Rightarrow> 'a list \<Rightarrow> 'a list" where
  "remove_first P [] = []"
| "remove_first P (x # xs) = (if P x then xs else x # remove_first P xs)"

definition AddTimer :: "'f \<Rightarrow> nat \<Rightarrow> int \<Rightarrow> ('f, 'c, unit) netp" where
  "AddTimer callback user_data interval =
     Os OsTick (\<lambda>t.
       let due = u64 (os_int t + interval)
       in modN (\<lambda>s.
         if \<exists>e \<in> set (timer_list s). same_timer callback user_data e then
           timer_list_update (update_first (same_timer callback user_data)
             (\<lambda>(n, i). (n, i\<lparr>ti_interval := interval, ti_next := due\<rparr>))) s
         else
           s\<lparr>timer_list := timer_list s @ [(next_timer s,
               \<lparr>ti_callback = callback, ti_data = user_data, ti_interval = interval, ti_next = due\<rparr>)],
             next_timer := Suc (next_timer s)\<rparr>))"

definition RemoveTimer :: "'f \<Rightarrow> nat \<Rightarrow> ('f, 'c, unit) netp" where
  "RemoveTimer callback user_data = modN (timer_list_update (remove_first (same_timer callback user_data)))"

definition AddLoop :: "'f \<Rightarrow> nat \<Rightarrow> ('f, 'c, unit) netp" where
  "AddLoop callback user_data = modN (loop_list_update (\<lambda>l. l @ [(callback, user_data)]))"

text \<open>The node behind a node, None being end().\<close>

fun node_after :: "nat \<Rightarrow> (nat \<times> 'v) list \<Rightarrow> nat option" where
  "node_after n [] = None"
| "node_after n ((k, _) # l) = (if k = n then (case l of [] \<Rightarrow> None | (m, _) # _ \<Rightarrow> Some m) else node_after n l)"

type_synonym ('f, 'c) invoke = "'f \<Rightarrow> nat \<Rightarrow> netlib_msg \<Rightarrow> int \<Rightarrow> ('f, 'c, bool) netp"

text \<open>
  The loop of _CheckTimer with the iterator at a node. The iterator is moved before the callback; if
  the callback removes the node it is moved to, the next step of the loop is at a node that is gone.
  False, here and below: the fuel of a loop was used up before it ended.
\<close>

fun timers_from :: "nat \<Rightarrow> ('f, 'c) invoke \<Rightarrow> int \<Rightarrow> nat option \<Rightarrow> ('f, 'c, bool) netp" where
  "timers_from fuel invoke curr_tick None = Ret True"
| "timers_from 0 invoke curr_tick (Some n) = Ret False"
| "timers_from (Suc fuel) invoke curr_tick (Some n) =
     bindp (getN timer_list) (\<lambda>l.
       case map_of l n of
         None \<Rightarrow> Fault UseAfterFree
       | Some item \<Rightarrow>
           bindp
             (if ti_next item \<le> curr_tick then
                bindp (modN (timer_list_update (update_first (\<lambda>e. fst e = n)
                  (\<lambda>(n, i). (n, i\<lparr>ti_next := u64 (ti_next i + ti_interval i)\<rparr>))))) (\<lambda>_.
                invoke (ti_callback item) (ti_data item) NetTimer 0)
              else Ret True) (\<lambda>ok.
           if \<not> ok then Ret False else timers_from fuel invoke curr_tick (node_after n l)))"

definition CheckTimer :: "nat \<Rightarrow> ('f, 'c) invoke \<Rightarrow> ('f, 'c, bool) netp" where
  "CheckTimer fuel invoke =
     Os OsTick (\<lambda>t.
     bindp (getN timer_list) (\<lambda>l.
     timers_from fuel invoke (os_int t) (case l of [] \<Rightarrow> None | (n, _) # _ \<Rightarrow> Some n)))"

text \<open>The loop list only grows.\<close>

fun loops_from :: "nat \<Rightarrow> ('f, 'c) invoke \<Rightarrow> nat \<Rightarrow> ('f, 'c, bool) netp" where
  "loops_from 0 invoke i = Ret False"
| "loops_from (Suc fuel) invoke i =
     bindp (getN loop_list) (\<lambda>l.
       if length l \<le> i then Ret True
       else bindp (invoke (fst (l ! i)) (snd (l ! i)) NetLoop 0) (\<lambda>ok.
         if \<not> ok then Ret False else loops_from fuel invoke (Suc i)))"

definition CheckLoop :: "nat \<Rightarrow> ('f, 'c) invoke \<Rightarrow> ('f, 'c, bool) netp" where
  "CheckLoop fuel invoke = loops_from fuel invoke 0"

section \<open>Events of a socket\<close>

definition callback_of :: "nat \<Rightarrow> ('f, 'c) invoke \<Rightarrow> netlib_msg \<Rightarrow> ('f, 'c, bool) netp" where
  "callback_of c invoke msg =
     the_socket c (\<lambda>b. bindp (init_read (bs_callback b)) (\<lambda>f. invoke f (bs_data b) msg (bs_fd b)))"

definition ip_text :: "int \<Rightarrow> string" where
  "ip_text ip =
     c_printf ''%d.%d.%d.%d''
       [PInt (ip div 2 ^ 24 mod 256), PInt (ip div 2 ^ 16 mod 256), PInt (ip div 2 ^ 8 mod 256), PInt (ip mod 256)]"

text \<open>
  accept answers with the descriptor and fills peer_addr, which the next two calls read. The accept
  loop, for at most fuel connections.
\<close>

fun AcceptNewSocket :: "nat \<Rightarrow> ('f, 'c) invoke \<Rightarrow> nat \<Rightarrow> ('f, 'c, bool) netp" where
  "AcceptNewSocket 0 invoke c = Ret False"
| "AcceptNewSocket (Suc fuel) invoke c =
     the_socket c (\<lambda>b.
     Os (SysAccept (bs_fd b)) (\<lambda>r.
     if os_int r = INVALID_SOCKET then Ret True
     else
       Os SysPeerIp (\<lambda>ip.
       Os SysPeerPort (\<lambda>port.
       bindp new_CBaseSocket (\<lambda>n.
       bindp (set_socket n (\<lambda>x. x\<lparr>bs_fd := os_int r, bs_callback := bs_callback b, bs_data := bs_data b,
         bs_state := SockConnected, remote_ip := ip_text (os_int ip), remote_port := os_int port\<rparr>)) (\<lambda>_.
       bindp (SetOption (os_int r)) (\<lambda>_.
       bindp (SetOption (os_int r)) (\<lambda>_.
       bindp (AddBaseSocket n) (\<lambda>_.
       bindp (AddEvent (os_int r)) (\<lambda>_.
       bindp (init_read (bs_callback b)) (\<lambda>f.
       bindp (invoke f (bs_data b) NetConnect (os_int r)) (\<lambda>ok.
       if \<not> ok then Ret False else AcceptNewSocket fuel invoke c))))))))))))"

definition CBaseSocket_OnRead :: "nat \<Rightarrow> ('f, 'c) invoke \<Rightarrow> nat \<Rightarrow> ('f, 'c, bool) netp" where
  "CBaseSocket_OnRead fuel invoke c =
     the_socket c (\<lambda>b.
       if bs_state b = SockListening then AcceptNewSocket fuel invoke c
       else
         Os (SysAvail (bs_fd b)) (\<lambda>r.
         callback_of c invoke (if os_int r \<le> 0 then NetClose else NetRead)))"

definition CBaseSocket_OnWrite :: "('f, 'c) invoke \<Rightarrow> nat \<Rightarrow> ('f, 'c, bool) netp" where
  "CBaseSocket_OnWrite invoke c =
     the_socket c (\<lambda>b.
       if bs_state b = SockConnecting then
         Os (SysError (bs_fd b)) (\<lambda>r.
         if os_int r \<noteq> 0 then callback_of c invoke NetClose
         else bindp (set_socket c (bs_state_update (\<lambda>_. SockConnected))) (\<lambda>_. callback_of c invoke NetConfirm))
       else callback_of c invoke NetWrite)"

definition CBaseSocket_OnClose :: "('f, 'c) invoke \<Rightarrow> nat \<Rightarrow> ('f, 'c, bool) netp" where
  "CBaseSocket_OnClose invoke c =
     bindp (set_socket c (bs_state_update (\<lambda>_. SockClosing))) (\<lambda>_. callback_of c invoke NetClose)"

section \<open>The event loop\<close>

text \<open>EPOLLIN 1, EPOLLPRI 2, EPOLLOUT 4, EPOLLERR 8, EPOLLHUP 16, EPOLLRDHUP 8192\<close>

definition has_event :: "int \<Rightarrow> int \<Rightarrow> bool" where
  "has_event events flags \<longleftrightarrow> and events flags \<noteq> 0"

text \<open>A step of a sequence; the sequence ends when a step ran out of fuel.\<close>

definition and_then :: "('f, 'c, bool) netp \<Rightarrow> ('f, 'c, bool) netp \<Rightarrow> ('f, 'c, bool) netp" where
  "and_then p q = bindp p (\<lambda>ok. if ok then q else Ret False)"

definition on_event :: "bool \<Rightarrow> ('f, 'c, bool) netp \<Rightarrow> ('f, 'c, bool) netp" where
  "on_event b p = (if b then p else Ret True)"

definition dispatch_event :: "nat \<Rightarrow> ('f, 'c) invoke \<Rightarrow> int \<Rightarrow> int \<Rightarrow> ('f, 'c, bool) netp" where
  "dispatch_event fuel invoke ev_fd events =
     with_socket ev_fd True (\<lambda>c.
       and_then (on_event (has_event events 8192) (CBaseSocket_OnClose invoke c))
      (and_then (on_event (has_event events 1) (CBaseSocket_OnRead fuel invoke c))
      (and_then (on_event (has_event events 4) (CBaseSocket_OnWrite invoke c))
                (on_event (has_event events (2 + 8 + 16)) (CBaseSocket_OnClose invoke c)))))"

text \<open>The entries of the array epoll_wait has filled, from entry i on.\<close>

fun dispatch_events :: "nat \<Rightarrow> ('f, 'c) invoke \<Rightarrow> nat \<Rightarrow> nat \<Rightarrow> ('f, 'c, bool) netp" where
  "dispatch_events fuel invoke i 0 = Ret True"
| "dispatch_events fuel invoke i (Suc n) =
     Os (SysEpollFd i) (\<lambda>fd.
     Os (SysEpollEvents i) (\<lambda>ev.
     and_then (dispatch_event fuel invoke (os_int fd) (os_int ev)) (dispatch_events fuel invoke (Suc i) n)))"

text \<open>One turn of the loop of StartDispatch; at most 1024 entries come back.\<close>

definition dispatch_turn :: "nat \<Rightarrow> ('f, 'c) invoke \<Rightarrow> ('f, 'c, bool) netp" where
  "dispatch_turn fuel invoke =
     Os (SysEpollWait 100) (\<lambda>nfds.
     and_then (dispatch_events fuel invoke 0 (min 1024 (nat (os_int nfds))))
    (and_then (CheckTimer fuel invoke) (CheckLoop fuel invoke)))"

text \<open>StartDispatch for at most fuel turns: whether it has returned.\<close>

fun dispatch_loop :: "nat \<Rightarrow> ('f, 'c) invoke \<Rightarrow> ('f, 'c, bool) netp" where
  "dispatch_loop 0 invoke = Ret False"
| "dispatch_loop (Suc fuel) invoke =
     bindp (getN running) (\<lambda>on.
       if \<not> on then Ret True
       else and_then (dispatch_turn fuel invoke) (dispatch_loop fuel invoke))"

definition StartDispatch :: "nat \<Rightarrow> ('f, 'c) invoke \<Rightarrow> ('f, 'c, bool) netp" where
  "StartDispatch fuel invoke =
     bindp (getN running) (\<lambda>on.
       if on then Ret True
       else bindp (modN (running_update (\<lambda>_. True))) (\<lambda>_. dispatch_loop fuel invoke))"

definition StopDispatch :: "('f, 'c, unit) netp" where
  "StopDispatch = modN (running_update (\<lambda>_. False))"

end
