(* ===== verification/Net_Safety.thy ===== *)
theory Net_Safety
  imports Netlib
begin

text \<open>
  Sockets are not used after they were deleted: the reference counts of base_socket.cc cover the map
  of sockets and the calls in progress (net_inv), and the dispatcher keeps that as long as the
  functions it calls back do (locale callbacks).
\<close>

section \<open>Reference counts\<close>

text \<open>
  pins c is the number of calls in progress that hold a reference to socket c, which FindBaseSocket
  gave them. A socket that is registered or held exists and has been given its callback; its count
  covers its place in the map and the calls that hold it.
\<close>

definition registered :: "('f, 'c) net \<Rightarrow> nat \<Rightarrow> bool" where
  "registered s c \<longleftrightarrow> c \<in> snd ` set (g_socket_map s)"

definition socket_ok :: "bool \<Rightarrow> int \<Rightarrow> 'f base_socket option \<Rightarrow> bool" where
  "socket_ok reg n x \<longleftrightarrow>
     (case x of
        None \<Rightarrow> \<not> reg \<and> n = 0
      | Some b \<Rightarrow> 0 \<le> n \<and> 1 \<le> bs_ref b \<and> (if reg then 1 else 0) + n \<le> bs_ref b \<and> (reg \<or> 0 < n \<longrightarrow> bs_callback b \<noteq> None))"

definition net_inv :: "(nat \<Rightarrow> int) \<Rightarrow> ('f, 'c) net \<Rightarrow> bool" where
  "net_inv pins s \<longleftrightarrow>
     distinct (map fst (g_socket_map s)) \<and> (\<forall>c \<ge> next_socket s. socket_heap s c = None) \<and>
     (\<forall>(fd, c) \<in> set (g_socket_map s). map_option bs_fd (socket_heap s c) = Some fd) \<and>
     (\<forall>c. socket_ok (registered s c) (pins c) (socket_heap s c))"

definition pin :: "nat \<Rightarrow> (nat \<Rightarrow> int) \<Rightarrow> nat \<Rightarrow> int" where
  "pin c pins = pins(c := pins c + 1)"

text \<open>What the functions of netlib never touch.\<close>

definition same_rest :: "('f, 'c) net \<Rightarrow> ('f, 'c) net \<Rightarrow> bool" where
  "same_rest s t \<longleftrightarrow> client t = client s \<and> timer_list t = timer_list s \<and> loop_list t = loop_list s \<and> running t = running s"

definition net_ok :: "('f, 'c, 'a) netp \<Rightarrow> bool" where
  "net_ok p \<longleftrightarrow> (\<forall>pins s. net_inv pins s \<longrightarrow> secures {} (\<lambda>_ t. net_inv pins t \<and> same_rest s t) p s)"

lemma same_rest_refl [simp]: "same_rest s s"
  by (simp add: same_rest_def)

lemma same_rest_trans: "same_rest s t \<Longrightarrow> same_rest t u \<Longrightarrow> same_rest s u"
  by (simp add: same_rest_def)

lemma same_rest_put [simp]: "same_rest s (put_socket c b s)"
  by (simp add: same_rest_def put_socket_def)

lemma net_okD: "net_ok p \<Longrightarrow> net_inv pins s \<Longrightarrow> secures {} (\<lambda>_ t. net_inv pins t \<and> same_rest s t) p s"
  by (simp add: net_ok_def)

lemma secures_faults: "secures B Q p s \<Longrightarrow> B \<subseteq> B' \<Longrightarrow> secures B' Q p s"
  by (induction p arbitrary: s) auto

lemma secures_state [simp]:
  "secures B Q (getN f) s \<longleftrightarrow> Q (f s) s" "secures B Q (modN g) s \<longleftrightarrow> Q () (g s)"
  by (simp_all add: getN_def modN_def)

text \<open>A change of a socket that keeps its callback set, its descriptor and its count.\<close>

definition gentle :: "('f base_socket \<Rightarrow> 'f base_socket) \<Rightarrow> bool" where
  "gentle f \<longleftrightarrow> (\<forall>b. bs_ref (f b) = bs_ref b \<and> bs_fd (f b) = bs_fd b \<and> (bs_callback b \<noteq> None \<longrightarrow> bs_callback (f b) \<noteq> None))"

lemma registered_put [simp]: "registered (put_socket c b s) = registered s"
  by (simp add: registered_def put_socket_def fun_eq_iff)

lemma socket_heap_put [simp]: "socket_heap (put_socket c b s) = (socket_heap s)(c := b)"
  by (simp add: put_socket_def)

lemma net_inv_put:
  assumes inv: "net_inv pins s" and b: "socket_heap s c = Some b" "bs_fd b' = bs_fd b"
    and pins: "\<forall>x. x \<noteq> c \<longrightarrow> pins' x = pins x" and ok: "socket_ok (registered s c) (pins' c) (Some b')"
  shows "net_inv pins' (put_socket c (Some b') s)"
proof -
  have "socket_ok (registered s x) (pins' x) (((socket_heap s)(c := Some b')) x)" for x
    using inv pins ok by (cases "x = c") (simp_all add: net_inv_def)
  moreover have "map_option bs_fd (((socket_heap s)(c := Some b')) x) = map_option bs_fd (socket_heap s x)" for x
    using b by simp
  ultimately show ?thesis
    using inv b(1) unfolding net_inv_def socket_heap_put registered_put
    by (auto simp: put_socket_def simp del: fun_upd_apply; metis not_le option.distinct(1) fun_upd_other)
qed

lemma net_inv_get:
  assumes "net_inv pins s" and "registered s c \<or> 0 < pins c"
  obtains b where "socket_heap s c = Some b" "bs_callback b \<noteq> None" "1 \<le> bs_ref b" "0 \<le> pins c"
    "(if registered s c then 1 else 0) + pins c \<le> bs_ref b"
proof -
  have ok: "socket_ok (registered s c) (pins c) (socket_heap s c)" using assms(1) by (simp add: net_inv_def)
  then obtain b where b: "socket_heap s c = Some b" using assms(2) by (auto simp: socket_ok_def split: option.splits)
  show ?thesis
    by (rule that [OF b]) (use ok assms(2) in \<open>auto simp: b socket_ok_def\<close>)
qed

lemma set_socket_gentle:
  assumes "gentle f" and "net_inv pins s" and "registered s c \<or> 0 < pins c"
  shows "secures {} (\<lambda>_ t. net_inv pins t \<and> same_rest s t) (set_socket c f) s"
proof -
  obtain b where b: "socket_heap s c = Some b" "bs_callback b \<noteq> None" "1 \<le> bs_ref b" "0 \<le> pins c"
      "(if registered s c then 1 else 0) + pins c \<le> bs_ref b"
    using assms(2,3) by (rule net_inv_get)
  have "net_inv pins (put_socket c (Some (f b)) s)"
    using assms(2) b(1)
    by (rule net_inv_put) (use assms(1) b in \<open>auto simp: gentle_def socket_ok_def\<close>)
  then show ?thesis by (simp add: set_socket_def the_socket_def b)
qed

lemma map_of_registered: "map_of (g_socket_map s) fd = Some c \<Longrightarrow> registered s c"
  by (force simp: registered_def dest: map_of_SomeD)

lemma AddRef_pins:
  assumes "net_inv pins s" and "registered s c"
  shows "secures {} (\<lambda>_ t. net_inv (pin c pins) t \<and> registered t c \<and> same_rest s t) (AddRef_socket c) s"
proof -
  obtain b where b: "socket_heap s c = Some b" "bs_callback b \<noteq> None" "1 \<le> bs_ref b" "0 \<le> pins c"
      "(if registered s c then 1 else 0) + pins c \<le> bs_ref b"
    using assms by (blast elim: net_inv_get)
  have "net_inv (pin c pins) (put_socket c (Some (b\<lparr>bs_ref := bs_ref b + 1\<rparr>)) s)"
    using assms(1) b(1)
    by (rule net_inv_put) (use assms(2) b in \<open>auto simp: pin_def socket_ok_def\<close>)
  with assms(2) show ?thesis by (simp add: AddRef_socket_def set_socket_def the_socket_def b)
qed

text \<open>A reference that is given back by the call that held it never is the last use of a socket.\<close>

lemma net_inv_gone:
  assumes inv: "net_inv pins s" and gone: "\<not> registered s c" and pins: "pins' c = 0" "\<forall>x. x \<noteq> c \<longrightarrow> pins' x = pins x"
  shows "net_inv pins' (put_socket c None s)"
proof -
  have "socket_ok (registered s x) (pins' x) (((socket_heap s)(c := None)) x)" for x
    using inv pins gone by (cases "x = c") (simp_all add: net_inv_def socket_ok_def)
  moreover have "d \<noteq> c" if "(fd, d) \<in> set (g_socket_map s)" for fd d
    using gone that by (force simp: registered_def)
  ultimately show ?thesis
    using inv unfolding net_inv_def socket_heap_put registered_put by (auto simp: put_socket_def)
qed

lemma ReleaseRef_pins:
  assumes inv: "net_inv (pin c pins) s" and nonneg: "0 \<le> pins c"
  shows "secures {} (\<lambda>_ t. net_inv pins t \<and> same_rest s t) (ReleaseRef_socket c) s"
proof -
  have "0 < pin c pins c" using nonneg by (simp add: pin_def)
  then obtain b where b: "socket_heap s c = Some b" "bs_callback b \<noteq> None" "1 \<le> bs_ref b"
      "(if registered s c then 1 else 0) + pin c pins c \<le> bs_ref b"
    using net_inv_get [OF inv] by blast
  show ?thesis
  proof (cases "bs_ref b - 1 = 0")
    case True
    then have "\<not> registered s c" "pins c = 0" using b(4) nonneg by (auto simp: pin_def split: if_splits)
    with inv have "net_inv pins (put_socket c None s)" by (rule net_inv_gone) (simp add: pin_def)
    with True b show ?thesis by (simp add: ReleaseRef_socket_def the_socket_def)
  next
    case False
    have "net_inv pins (put_socket c (Some (b\<lparr>bs_ref := bs_ref b - 1\<rparr>)) s)"
      using inv b(1) by (rule net_inv_put) (use b nonneg False in \<open>auto simp: pin_def socket_ok_def\<close>)
    with False b show ?thesis by (simp add: ReleaseRef_socket_def the_socket_def)
  qed
qed

lemma secures_with_socket:
  assumes inv: "net_inv pins s" and I: "I s" "\<And>u v. I u \<Longrightarrow> same_rest u v \<Longrightarrow> I v"
    and body: "\<And>c t. net_inv (pin c pins) t \<Longrightarrow> registered t c \<Longrightarrow> I t \<Longrightarrow>
      secures B (\<lambda>_ u. net_inv (pin c pins) u \<and> I u) (body c) t"
  shows "secures B (\<lambda>_ u. net_inv pins u \<and> I u) (with_socket handle none body) s"
proof -
  have nonneg: "0 \<le> pins c" for c
    using inv by (auto simp: net_inv_def socket_ok_def split: option.splits dest!: spec [of _ c])
  have release: "secures B (\<lambda>_ u. net_inv pins u \<and> I u) (bindp (ReleaseRef_socket c) (\<lambda>_. Ret r)) u"
    if "net_inv (pin c pins) u" "I u" for c r u
    by (rule secures_bindp [OF secures_faults [OF ReleaseRef_pins [OF that(1) nonneg]]]) (use that I in auto)
  have found: "secures B (\<lambda>_ u. net_inv pins u \<and> I u)
      (bindp (AddRef_socket c) (\<lambda>_. bindp (body c) (\<lambda>r. bindp (ReleaseRef_socket c) (\<lambda>_. Ret r)))) s"
    if "registered s c" for c
    by (rule secures_bindp [OF secures_faults [OF AddRef_pins [OF inv that]]], simp, rule secures_bindp [OF body])
      (use I release in auto)
  show ?thesis
    using inv I found
    by (auto simp: with_socket_def FindBaseSocket_def bindp_assoc getN_def map_of_registered split: option.splits)
qed

lemma net_ok_with_socket:
  assumes "\<And>c pins s. net_inv pins s \<Longrightarrow> registered s c \<Longrightarrow> secures {} (\<lambda>_ t. net_inv pins t \<and> same_rest s t) (body c) s"
  shows "net_ok (with_socket handle none body)"
  unfolding net_ok_def
proof (intro allI impI)
  fix pins :: "nat \<Rightarrow> int" and s :: "('a, 'b) net"
  assume "net_inv pins s"
  then show "secures {} (\<lambda>_ t. net_inv pins t \<and> same_rest s t) (with_socket handle none body) s"
    by (rule secures_with_socket) (auto intro: same_rest_trans secures_mono [OF assms])
qed

lemma secures_the_socket:
  assumes "net_inv pins s" and "registered s c"
    and "\<And>b. socket_heap s c = Some b \<Longrightarrow> secures B Q (k b) s"
  shows "secures B Q (the_socket c k) s"
proof -
  obtain b where "socket_heap s c = Some b" using assms(1,2) by (auto elim: net_inv_get)
  then show ?thesis by (simp add: the_socket_def assms(3))
qed

lemma secures_events [simp]:
  "secures B Q (AddEvent fd) s = Q () s" "secures B Q (RemoveEvent fd) s = Q () s" "secures B Q (SetOption fd) s = Q () s"
  by (simp_all add: AddEvent_def RemoveEvent_def SetOption_def)

lemma net_ok_send [simp]: "net_ok (netlib_send handle buf)"
  unfolding netlib_send_def
  by (rule net_ok_with_socket) (auto simp: CBaseSocket_Send_def intro!: secures_the_socket)

lemma net_ok_recv [simp]: "net_ok (netlib_recv handle n)"
  unfolding netlib_recv_def
  by (rule net_ok_with_socket) (auto simp: CBaseSocket_Recv_def intro!: secures_the_socket)

lemma secures_then: "secures B (\<lambda>_ t. P t) p s \<Longrightarrow> secures B (\<lambda>_ t. P t) (bindp p (\<lambda>a. Ret (g a))) s"
  by (rule secures_bindp) simp_all

lemma gentle_updates [simp]: "gentle (bs_callback_update (\<lambda>_. Some f))" "gentle (bs_data_update g)" "gentle (bs_state_update h)"
  by (simp_all add: gentle_def)

lemma net_ok_option [simp]: "net_ok (netlib_option handle opt)"
  unfolding netlib_option_def
  by (rule net_ok_with_socket, rule secures_then, unfold CBaseSocket_option_def, rule secures_the_socket)
    (auto split: net_opt.split intro!: secures_then set_socket_gentle simp: SetOption_def)

lemma registered_iff: "registered s c \<longleftrightarrow> (\<exists>fd. (fd, c) \<in> set (g_socket_map s))"
  by (force simp: registered_def)

lemma RemoveBaseSocket_pins:
  assumes inv: "net_inv pins s" and reg: "registered s c"
  shows "secures {} (\<lambda>_ t. net_inv (pin c pins) t \<and> same_rest s t) (RemoveBaseSocket c) s"
proof -
  obtain b where b: "socket_heap s c = Some b" "bs_callback b \<noteq> None" "0 \<le> pins c" "1 + pins c \<le> bs_ref b"
    using inv reg by (auto elim: net_inv_get)
  let ?m = "filter (\<lambda>e. fst e \<noteq> bs_fd b) (g_socket_map s)" and ?t = "g_socket_map_update (filter (\<lambda>e. fst e \<noteq> bs_fd b)) s"
  have key: "fd = bs_fd b" if "(fd, c) \<in> set (g_socket_map s)" for fd
    using inv that b(1) by (auto simp: net_inv_def dest!: bspec)
  have the_one: "(bs_fd b, c) \<in> set (g_socket_map s)" using reg key by (force simp: registered_def)
  have only: "d = c" if "(bs_fd b, d) \<in> set (g_socket_map s)" for d
    using inv that the_one unfolding net_inv_def by (metis eq_key_imp_eq_value)
  have reg_t: "registered ?t d \<longleftrightarrow> registered s d \<and> d \<noteq> c" for d
  proof -
    have "(\<exists>fd. (fd, d) \<in> set (g_socket_map s) \<and> fd \<noteq> bs_fd b) \<longleftrightarrow> (\<exists>fd. (fd, d) \<in> set (g_socket_map s)) \<and> d \<noteq> c"
      using key only by blast
    then show ?thesis by (simp add: registered_iff)
  qed
  have "socket_ok (registered ?t x) (pin c pins x) (socket_heap ?t x)" for x
    using inv b unfolding reg_t by (auto simp: net_inv_def pin_def socket_ok_def dest!: spec [of _ x] split: option.splits if_splits)
  with inv have "net_inv (pin c pins) ?t"
    by (auto simp: net_inv_def distinct_map_filter)
  then show ?thesis by (simp add: RemoveBaseSocket_def the_socket_def b same_rest_def)
qed

lemma net_ok_close [simp]: "net_ok (netlib_close handle)"
  unfolding netlib_close_def
proof (rule net_ok_with_socket)
  fix c pins and s :: "('a, 'b) net"
  assume inv: "net_inv pins s" and reg: "registered s c"
  then have "0 \<le> pins c" by (blast elim: net_inv_get)
  then have "secures {} (\<lambda>_ t. net_inv pins t \<and> same_rest s t) (bindp (ReleaseRef_socket c) (\<lambda>_. Ret (0 :: int))) t"
    if "net_inv (pin c pins) t \<and> same_rest s t" for t
    using that by (intro secures_bindp [OF ReleaseRef_pins]) (auto intro: same_rest_trans)
  then show "secures {} (\<lambda>_ t. net_inv pins t \<and> same_rest s t) (CBaseSocket_Close c) s"
    unfolding CBaseSocket_Close_def using inv reg
    by (intro secures_the_socket) (auto intro!: secures_bindp [OF RemoveBaseSocket_pins] simp: RemoveEvent_def)
qed

text \<open>A socket that was just made belongs to nobody.\<close>

definition fresh_socket :: "(nat \<Rightarrow> int) \<Rightarrow> ('f, 'c) net \<Rightarrow> bool \<Rightarrow> nat \<Rightarrow> bool" where
  "fresh_socket pins s cb c \<longleftrightarrow>
     net_inv pins s \<and> \<not> registered s c \<and> pins c = 0 \<and>
     (\<exists>b. socket_heap s c = Some b \<and> (cb \<longrightarrow> bs_callback b \<noteq> None))"

lemma net_inv_not_there: "net_inv pins s \<Longrightarrow> socket_heap s c = None \<Longrightarrow> \<not> registered s c \<and> pins c = 0"
  by (auto simp: net_inv_def socket_ok_def dest!: spec [of _ c])

lemma new_socket_fresh:
  assumes inv: "net_inv pins s"
  shows "secures {} (\<lambda>c t. fresh_socket pins t False c \<and> same_rest s t) new_CBaseSocket s"
proof -
  let ?b = "\<lparr>bs_ref = 1, remote_ip = [], remote_port = 0, local_ip = [], local_port = 0, bs_callback = None,
          bs_data = 0, bs_state = SockIdle, bs_fd = INVALID_SOCKET\<rparr> :: 'a base_socket"
  let ?t = "s\<lparr>socket_heap := (socket_heap s)(next_socket s \<mapsto> ?b), next_socket := Suc (next_socket s)\<rparr>"
  have none: "socket_heap s (next_socket s) = None" using inv by (simp add: net_inv_def)
  then have off: "\<not> registered s (next_socket s)" "pins (next_socket s) = 0"
    using net_inv_not_there [OF inv] by simp_all
  have reg: "registered ?t = registered s" by (simp add: registered_def fun_eq_iff)
  have "socket_ok (registered s x) (pins x) (((socket_heap s)(next_socket s \<mapsto> ?b)) x)" for x
    using inv off by (cases "x = next_socket s") (simp_all add: net_inv_def socket_ok_def)
  moreover have "d \<noteq> next_socket s" if "(fd, d) \<in> set (g_socket_map s)" for fd d
    using off(1) that by (auto simp: registered_iff)
  ultimately have "net_inv pins ?t"
    using inv unfolding net_inv_def reg by auto
  with off show ?thesis by (simp add: new_CBaseSocket_def fresh_socket_def same_rest_def reg)
qed

lemma set_socket_fresh:
  assumes fresh: "fresh_socket pins s cb c" and f: "\<And>b. bs_ref (f b) = bs_ref b"
    and set: "\<And>b. cb' \<Longrightarrow> (cb \<longrightarrow> bs_callback b \<noteq> None) \<Longrightarrow> bs_callback (f b) \<noteq> None"
  shows "secures {} (\<lambda>_ t. fresh_socket pins t cb' c \<and> same_rest s t) (set_socket c f) s"
proof -
  obtain b where b: "socket_heap s c = Some b" "cb \<longrightarrow> bs_callback b \<noteq> None" and inv: "net_inv pins s"
      and off: "\<not> registered s c" "pins c = 0"
    using fresh by (auto simp: fresh_socket_def)
  let ?t = "put_socket c (Some (f b)) s"
  have "socket_ok (registered s x) (pins x) (((socket_heap s)(c := Some (f b))) x)" for x
    using inv off b f by (cases "x = c") (auto simp: net_inv_def socket_ok_def dest!: spec [of _ c])
  moreover have "d \<noteq> c" if "(fd, d) \<in> set (g_socket_map s)" for fd d
    using off(1) that by (auto simp: registered_iff)
  moreover have "c < next_socket s" using inv b(1) by (metis net_inv_def not_le option.distinct(1))
  ultimately have "net_inv pins ?t"
    using inv unfolding net_inv_def registered_put by (auto simp: put_socket_def)
  with b set off show ?thesis by (auto simp: set_socket_def the_socket_def fresh_socket_def)
qed

lemma AddBaseSocket_fresh:
  assumes fresh: "fresh_socket pins s True c"
  shows "secures {} (\<lambda>_ t. net_inv pins t \<and> same_rest s t) (AddBaseSocket c) s"
proof -
  obtain b where b: "socket_heap s c = Some b" "bs_callback b \<noteq> None" and inv: "net_inv pins s"
      and off: "\<not> registered s c" "pins c = 0"
    using fresh by (auto simp: fresh_socket_def)
  let ?t = "s\<lparr>g_socket_map := (bs_fd b, c) # g_socket_map s\<rparr>"
  have reg: "registered ?t x \<longleftrightarrow> x = c \<or> registered s x" for x by (auto simp: registered_def)
  have "socket_ok (registered ?t x) (pins x) (socket_heap s x)" for x
    using inv off b unfolding reg by (cases "x = c") (auto simp: net_inv_def socket_ok_def dest!: spec [of _ c])
  then have "net_inv pins ?t" if "map_of (g_socket_map s) (bs_fd b) = None"
    using inv b that by (auto simp: net_inv_def map_of_eq_None_iff)
  with inv b show ?thesis by (auto simp: AddBaseSocket_def the_socket_def same_rest_def)
qed

lemma delete_fresh:
  assumes "fresh_socket pins s cb c"
  shows "secures {} (\<lambda>_ t. net_inv pins t \<and> same_rest s t) (delete_CBaseSocket c) s"
  using assms net_inv_gone [of pins s c pins] by (simp add: delete_CBaseSocket_def fresh_socket_def)

text \<open>
  Both openings of a socket: after a failure nothing is registered, and the caller deletes the object.
\<close>

definition opened :: "(nat \<Rightarrow> int) \<Rightarrow> ('f, 'c) net \<Rightarrow> nat \<Rightarrow> int \<Rightarrow> ('f, 'c) net \<Rightarrow> bool" where
  "opened pins s c r t \<longleftrightarrow> (if r = - 1 then fresh_socket pins t True c else net_inv pins t) \<and> same_rest s t"

lemma opened_ok:
  assumes body: "\<And>c t. fresh_socket pins t False c \<and> same_rest s t \<Longrightarrow> secures {} (opened pins s c) (body c) t"
    and inv: "net_inv pins s"
  shows "secures {} (\<lambda>_ t. net_inv pins t \<and> same_rest s t)
    (bindp new_CBaseSocket (\<lambda>c. bindp (body c) (\<lambda>r.
       if r = - 1 then bindp (delete_CBaseSocket c) (\<lambda>_. Ret r) else Ret r))) s"
proof (rule secures_bindp [OF new_socket_fresh [OF inv]], rule secures_bindp [OF body])
  fix c t r u
  assume "opened pins s c r u"
  then show "secures {} (\<lambda>_ t. net_inv pins t \<and> same_rest s t)
      (if r = - 1 then bindp (delete_CBaseSocket c) (\<lambda>_. Ret r) else Ret r) u"
    by (auto simp: opened_def intro!: secures_bindp [OF delete_fresh] intro: same_rest_trans)
qed

lemma set_socket_step:
  assumes "fresh_socket pins s cb c \<and> same_rest s0 s" and "\<And>b. bs_ref (f b) = bs_ref b"
    and "\<And>b. cb' \<Longrightarrow> (cb \<longrightarrow> bs_callback b \<noteq> None) \<Longrightarrow> bs_callback (f b) \<noteq> None"
    and "\<And>t. fresh_socket pins t cb' c \<and> same_rest s0 t \<Longrightarrow> secures {} Q (k ()) t"
  shows "secures {} Q (bindp (set_socket c f) k) s"
proof (rule secures_bindp)
  show "secures {} (\<lambda>_ t. fresh_socket pins t cb' c \<and> same_rest s t) (set_socket c f) s"
    using assms(1-3) by (intro set_socket_fresh) auto
  show "secures {} Q (k x) t" if "fresh_socket pins t cb' c \<and> same_rest s t" for x t
    using assms(1,4) that by (auto intro: same_rest_trans)
qed

lemma AddBaseSocket_step:
  assumes "fresh_socket pins s True c \<and> same_rest s0 s"
    and "\<And>t. net_inv pins t \<and> same_rest s0 t \<Longrightarrow> secures {} Q (k ()) t"
  shows "secures {} Q (bindp (AddBaseSocket c) k) s"
proof (rule secures_bindp)
  show "secures {} (\<lambda>_ t. net_inv pins t \<and> same_rest s t) (AddBaseSocket c) s"
    using assms(1) by (intro AddBaseSocket_fresh) simp
  show "secures {} Q (k x) t" if "net_inv pins t \<and> same_rest s t" for x t
    using assms that by (auto intro: same_rest_trans)
qed

lemma Listen_opened:
  assumes "fresh_socket pins t False c \<and> same_rest s t"
  shows "secures {} (opened pins s c) (CBaseSocket_Listen c ip port callback cdata) t"
  unfolding CBaseSocket_Listen_def
  apply (rule set_socket_step [OF assms, where cb' = True], simp, simp)
  apply (unfold Let_def secures.simps, rule allI)
  apply (rule set_socket_step [where cb = True and cb' = True], assumption, simp, simp)
  apply (simp add: SetOption_def opened_def NETLIB_ERROR_def NETLIB_OK_def AddEvent_def, intro impI conjI)
  apply (rule set_socket_step [where cb = True and cb' = True], simp, simp, simp)
  apply (rule AddBaseSocket_step, assumption, simp add: opened_def)
  done

lemma Connect_opened:
  assumes "fresh_socket pins t False c \<and> same_rest s t"
  shows "secures {} (opened pins s c) (CBaseSocket_Connect c ip port callback cdata) t"
  unfolding CBaseSocket_Connect_def
  apply (rule set_socket_step [OF assms, where cb' = True], simp, simp)
  apply (unfold Let_def secures.simps, rule allI)
  apply (rule set_socket_step [where cb = True and cb' = True], assumption, simp, simp)
  apply (simp add: SetOption_def opened_def NETLIB_ERROR_def INVALID_SOCKET_def AddEvent_def, intro impI conjI allI)
  apply (rule set_socket_step [where cb = True and cb' = True], simp, simp, simp)
  apply (rule AddBaseSocket_step, assumption, simp add: opened_def)
  done

lemma net_ok_listen [simp]: "net_ok (netlib_listen ip port callback cdata)"
  unfolding net_ok_def netlib_listen_def NETLIB_ERROR_def by (intro allI impI opened_ok Listen_opened)

lemma net_ok_connect [simp]: "net_ok (netlib_connect ip port callback cdata)"
  unfolding net_ok_def netlib_connect_def by (intro allI impI opened_ok Connect_opened)

section \<open>What the dispatcher asks of callbacks\<close>

text \<open>
  A callback may do anything with the functions of netlib and with its own state, of which I holds.
  It leaves the references of the dispatcher alone, and does not remove timers. The faults it may run
  into are those of B.
\<close>

definition timers_in :: "('f, 'c) net \<Rightarrow> ('f, 'c) net \<Rightarrow> bool" where
  "timers_in s t \<longleftrightarrow> fst ` set (timer_list s) \<subseteq> fst ` set (timer_list t)"

lemma timers_in_trans: "timers_in s t \<Longrightarrow> timers_in t u \<Longrightarrow> timers_in s u"
  by (auto simp: timers_in_def)

lemma same_rest_timers: "same_rest s t \<Longrightarrow> timers_in s t \<and> client t = client s"
  by (simp add: same_rest_def timers_in_def)

lemma timers_in_refl [simp]: "timers_in s s"
  by (simp add: timers_in_def)

lemma net_inv_nonneg: "net_inv pins s \<Longrightarrow> 0 \<le> pins c"
  by (auto simp: net_inv_def socket_ok_def split: option.splits dest!: spec [of _ c])

locale callbacks =
  fixes invoke :: "('f, 'c) invoke" and I :: "'c \<Rightarrow> bool" and B :: "fault set"
  assumes invoke_safe: "net_inv pins s \<Longrightarrow> I (client s) \<Longrightarrow>
    secures B (\<lambda>_ t. net_inv pins t \<and> I (client t) \<and> timers_in s t) (invoke f d msg h) s"
begin

text \<open>Programs that keep all this, and those that do while a call holds socket c.\<close>

definition held :: "nat option \<Rightarrow> ('f, 'c, 'a) netp \<Rightarrow> bool" where
  "held c p \<longleftrightarrow> (\<forall>pins s. net_inv pins s \<longrightarrow> I (client s) \<longrightarrow> (\<forall>x. c = Some x \<longrightarrow> 0 < pins x) \<longrightarrow>
     secures B (\<lambda>_ t. net_inv pins t \<and> I (client t) \<and> timers_in s t) p s)"

lemma held_bindp:
  assumes "held c p" and "\<And>a. held c (f a)"
  shows "held c (bindp p f)"
  unfolding held_def
proof (intro allI impI)
  fix pins and s :: "('f, 'c) net"
  assume *: "net_inv pins s" "I (client s)" "\<forall>x. c = Some x \<longrightarrow> 0 < pins x"
  show "secures B (\<lambda>_ t. net_inv pins t \<and> I (client t) \<and> timers_in s t) (bindp p f) s"
  proof (rule secures_bindp)
    show "secures B (\<lambda>_ t. net_inv pins t \<and> I (client t) \<and> timers_in s t) p s"
      using assms(1) * by (simp add: held_def)
    fix a t
    assume "net_inv pins t \<and> I (client t) \<and> timers_in s t"
    then have t: "net_inv pins t" "I (client t)" "timers_in s t" by simp_all
    then have "secures B (\<lambda>_ u. net_inv pins u \<and> I (client u) \<and> timers_in t u) (f a) t"
      using assms(2) [of a] *(3) by (simp add: held_def)
    then show "secures B (\<lambda>_ t. net_inv pins t \<and> I (client t) \<and> timers_in s t) (f a) t"
      by (rule secures_mono) (use t(3) timers_in_trans in auto)
  qed
qed

lemma held_Ret [simp]: "held c (Ret a)"
  by (simp add: held_def timers_in_def)

lemma held_Os [intro!]: "(\<And>r. held c (k r)) \<Longrightarrow> held c (Os call k)"
  by (simp add: held_def)

lemma held_invoke [simp]: "held c (invoke f d msg h)"
  using invoke_safe by (simp add: held_def)

lemma held_getN: "held c (getN f)"
  by (simp add: held_def getN_def timers_in_def)

lemma held_and_then: "held c p \<Longrightarrow> held c q \<Longrightarrow> held c (and_then p q)"
  unfolding and_then_def by (rule held_bindp) simp_all

lemma held_on_event: "held c p \<Longrightarrow> held c (on_event b p)"
  by (simp add: on_event_def)

lemma held_the_socket:
  assumes "\<And>b. bs_callback b \<noteq> None \<Longrightarrow> held (Some c) (k b)"
  shows "held (Some c) (the_socket c k)"
  unfolding held_def
proof (intro allI impI)
  fix pins and s :: "('f, 'c) net"
  assume *: "net_inv pins s" "I (client s)" "\<forall>x. Some c = Some x \<longrightarrow> 0 < pins x"
  then obtain b where "socket_heap s c = Some b" "bs_callback b \<noteq> None" by (auto elim: net_inv_get)
  with assms * show "secures B (\<lambda>_ t. net_inv pins t \<and> I (client t) \<and> timers_in s t) (the_socket c k) s"
    by (simp add: the_socket_def held_def)
qed

lemma held_set_socket: "gentle f \<Longrightarrow> held (Some c) (set_socket c f)"
  unfolding held_def
  by (auto intro!: secures_mono [OF secures_faults [OF set_socket_gentle]] dest: same_rest_timers)

lemma held_callback_of [simp]: "held (Some c) (callback_of c invoke msg)"
  unfolding callback_of_def
  by (rule held_the_socket) (auto simp: init_read_def split: option.splits)

lemma held_OnClose [simp]: "held (Some c) (CBaseSocket_OnClose invoke c)"
  unfolding CBaseSocket_OnClose_def by (intro held_bindp held_set_socket) simp_all

lemma held_OnWrite [simp]: "held (Some c) (CBaseSocket_OnWrite invoke c)"
  unfolding CBaseSocket_OnWrite_def
  by (rule held_the_socket) (auto intro!: held_bindp held_set_socket)

text \<open>The sockets the accept loop makes come with the callback of the listening one.\<close>

lemma held_new_socket:
  assumes set: "\<And>b. bs_ref (f b) = bs_ref b" "\<And>b. bs_callback (f b) \<noteq> None" and k: "held c k"
  shows "held c (bindp new_CBaseSocket (\<lambda>n. bindp (set_socket n f) (\<lambda>_. bindp (SetOption fd) (\<lambda>_.
    bindp (SetOption fd) (\<lambda>_. bindp (AddBaseSocket n) (\<lambda>_. k))))))"
  unfolding held_def
proof (intro allI impI)
  fix pins and s :: "('f, 'c) net"
  assume *: "net_inv pins s" "I (client s)" "\<forall>x. c = Some x \<longrightarrow> 0 < pins x"
  have rest: "secures B (\<lambda>_ t. net_inv pins t \<and> I (client t) \<and> timers_in s t) k t"
    if "net_inv pins t" "same_rest s t" for t
  proof -
    have t: "client t = client s" "timers_in s t" using same_rest_timers [OF that(2)] by simp_all
    then have "secures B (\<lambda>_ u. net_inv pins u \<and> I (client u) \<and> timers_in t u) k t"
      using k that(1) * by (simp add: held_def)
    then show ?thesis by (rule secures_mono) (use t timers_in_trans in auto)
  qed
  let ?rest = "\<lambda>n _. bindp (SetOption fd) (\<lambda>_. bindp (SetOption fd) (\<lambda>_. bindp (AddBaseSocket n) (\<lambda>_. k)))"
  have step: "secures B (\<lambda>_ t. net_inv pins t \<and> I (client t) \<and> timers_in s t) (bindp (set_socket n f) (?rest n)) t"
    if n: "fresh_socket pins t False n" "same_rest s t" for n t
    by (rule secures_bindp [OF secures_faults [OF set_socket_fresh [OF n(1), where cb' = True]]])
      (use set n(2) in \<open>auto simp: SetOption_def intro!: secures_bindp [OF secures_faults [OF AddBaseSocket_fresh]] rest
         intro: same_rest_trans\<close>)
  show "secures B (\<lambda>_ t. net_inv pins t \<and> I (client t) \<and> timers_in s t)
      (bindp new_CBaseSocket (\<lambda>n. bindp (set_socket n f) (?rest n))) s"
    by (rule secures_bindp [OF secures_faults [OF new_socket_fresh [OF *(1)]]]) (use step in auto)
qed

lemma held_Accept [simp]: "held (Some c) (AcceptNewSocket fuel invoke c)"
proof (induction fuel)
  case (Suc fuel)
  have "held (Some c) (bindp (init_read (bs_callback b)) (\<lambda>f. bindp (invoke f d NetConnect fd) (\<lambda>ok.
      if \<not> ok then Ret False else AcceptNewSocket fuel invoke c)))" if "bs_callback b \<noteq> None" for b :: "'f base_socket" and d fd
    using that Suc.IH by (auto simp: init_read_def intro!: held_bindp)
  then show ?case
    unfolding AcceptNewSocket.simps
    by (intro held_the_socket held_Os) (auto intro!: held_Os held_new_socket simp: AddEvent_def)
qed simp

lemma held_OnRead [simp]: "held (Some c) (CBaseSocket_OnRead fuel invoke c)"
  unfolding CBaseSocket_OnRead_def by (rule held_the_socket) auto

lemma held_dispatch_event [simp]: "held None (dispatch_event fuel invoke fd ev)"
proof -
  define p where "p = (\<lambda>c.
      and_then (on_event (has_event ev 8192) (CBaseSocket_OnClose invoke c))
      (and_then (on_event (has_event ev 1) (CBaseSocket_OnRead fuel invoke c))
      (and_then (on_event (has_event ev 4) (CBaseSocket_OnWrite invoke c))
                (on_event (has_event ev (2 + 8 + 16)) (CBaseSocket_OnClose invoke c)))))"
  have p: "held (Some c) (p c)" for c
    unfolding p_def by (intro held_and_then held_on_event) simp_all
  show ?thesis
    unfolding held_def dispatch_event_def p_def [symmetric]
  proof (intro allI impI)
    fix pins and s :: "('f, 'c) net"
    assume *: "net_inv pins s" "I (client s)"
    show "secures B (\<lambda>_ t. net_inv pins t \<and> I (client t) \<and> timers_in s t) (with_socket fd True p) s"
    proof (rule secures_with_socket [OF *(1)])
      show "I (client s) \<and> timers_in s s" using * by (simp add: timers_in_def)
      fix u v :: "('f, 'c) net"
      assume "I (client u) \<and> timers_in s u" "same_rest u v"
      then show "I (client v) \<and> timers_in s v" using same_rest_timers timers_in_trans by metis
    next
      fix c and t :: "('f, 'c) net"
      assume t: "net_inv (pin c pins) t" "registered t c" "I (client t) \<and> timers_in s t"
      have "0 < pin c pins c" using *(1) by (simp add: pin_def net_inv_nonneg less_le_trans add_pos_nonneg)
      with p [of c] t have "secures B (\<lambda>_ u. net_inv (pin c pins) u \<and> I (client u) \<and> timers_in t u) (p c) t"
        by (simp add: held_def)
      then show "secures B (\<lambda>_ u. net_inv (pin c pins) u \<and> I (client u) \<and> timers_in s u) (p c) t"
        by (rule secures_mono) (use t timers_in_trans in auto)
    qed
  qed
qed

lemma held_dispatch_events [simp]: "held None (dispatch_events fuel invoke i n)"
  by (induction n arbitrary: i) (auto intro!: held_and_then)

text \<open>An iterator of _CheckTimer points to a node that is in the list.\<close>

lemma node_after_in: "node_after n l = Some m \<Longrightarrow> m \<in> fst ` set l"
  by (induction n l rule: node_after.induct) (auto split: if_splits list.splits)

lemma map_update_first: "(\<And>x. g (f x) = g x) \<Longrightarrow> map g (update_first P f l) = map g l"
  by (induction l) simp_all

lemma timers_in_keys: "map fst (timer_list t) = map fst (timer_list s) \<Longrightarrow> timers_in s t"
  by (metis image_set order_refl timers_in_def)

lemma net_inv_timers [simp]: "net_inv pins (timer_list_update f s) = net_inv pins s"
  by (simp add: net_inv_def registered_def)

lemma held_due:
  "held None (bindp (modN (timer_list_update (update_first (\<lambda>e. fst e = n)
      (\<lambda>(n, i). (n, i\<lparr>ti_next := u64 (ti_next i + ti_interval i)\<rparr>))))) (\<lambda>_. invoke f d NetTimer 0))"
  by (intro held_bindp held_invoke)
    (auto simp: held_def intro!: timers_in_keys map_update_first split: prod.splits)

lemma timers_from_safe:
  "net_inv pins s \<Longrightarrow> I (client s) \<Longrightarrow> (\<forall>n. it = Some n \<longrightarrow> n \<in> fst ` set (timer_list s)) \<Longrightarrow>
   secures B (\<lambda>_ t. net_inv pins t \<and> I (client t) \<and> timers_in s t) (timers_from fuel invoke now it) s"
proof (induction fuel arbitrary: s it)
  case (Suc fuel)
  show ?case
  proof (cases it)
    case (Some n)
    with Suc.prems(3) obtain item where item: "map_of (timer_list s) n = Some item"
      by (metis map_of_eq_None_iff not_None_eq)
    let ?due = "bindp (modN (timer_list_update (update_first (\<lambda>e. fst e = n)
        (\<lambda>(n, i). (n, i\<lparr>ti_next := u64 (ti_next i + ti_interval i)\<rparr>)))))
        (\<lambda>_. invoke (ti_callback item) (ti_data item) NetTimer 0)"
    have body: "held None (if ti_next item \<le> now then ?due else Ret True)" by (simp only: held_due held_Ret if_split) simp
    have rest: "secures B (\<lambda>_ u. net_inv pins u \<and> I (client u) \<and> timers_in s u)
        (timers_from fuel invoke now (node_after n (timer_list s))) t"
      if t: "net_inv pins t" "I (client t)" "timers_in s t" for t
    proof -
      have "\<forall>m. node_after n (timer_list s) = Some m \<longrightarrow> m \<in> fst ` set (timer_list t)"
        using t(3) by (auto simp: timers_in_def dest!: node_after_in)
      with Suc.IH t have "secures B (\<lambda>_ u. net_inv pins u \<and> I (client u) \<and> timers_in t u)
          (timers_from fuel invoke now (node_after n (timer_list s))) t" by blast
      then show ?thesis by (rule secures_mono) (use t(3) timers_in_trans in auto)
    qed
    have first: "secures B (\<lambda>_ t. net_inv pins t \<and> I (client t) \<and> timers_in s t)
        (if ti_next item \<le> now then ?due else Ret True) s"
      using body Suc.prems(1,2) unfolding held_def by blast
    show ?thesis
      unfolding Some timers_from.simps getN_def bindp.simps secures.simps item option.case
      by (rule secures_bindp [OF first]) (auto simp: rest)
  qed (simp add: Suc.prems timers_in_def)
next
  case 0
  then show ?case by (cases it) (simp_all add: timers_in_def)
qed

lemma held_CheckTimer [simp]: "held None (CheckTimer fuel invoke)"
proof -
  have "secures B (\<lambda>_ t. net_inv pins t \<and> I (client t) \<and> timers_in s t)
      (timers_from fuel invoke now (case timer_list s of [] \<Rightarrow> None | (n, _) # _ \<Rightarrow> Some n)) s"
    if "net_inv pins s" "I (client s)" for pins now and s :: "('f, 'c) net"
    using that by (rule timers_from_safe) (auto split: list.splits)
  then show ?thesis by (simp add: held_def CheckTimer_def getN_def)
qed

lemma held_loops_from [simp]: "held None (loops_from fuel invoke i)"
  by (induction fuel arbitrary: i) (auto intro!: held_bindp held_getN)

lemma held_dispatch_turn [simp]: "held None (dispatch_turn fuel invoke)"
  unfolding dispatch_turn_def CheckLoop_def by (auto intro!: held_and_then)

lemma dispatch_turn_safe:
  assumes "net_inv pins s" and "I (client s)"
  shows "secures B (\<lambda>_ t. net_inv pins t \<and> I (client t) \<and> timers_in s t) (dispatch_turn fuel invoke) s"
  using held_dispatch_turn assms unfolding held_def by blast

end

end
