(* ===== verification/Server.thy ===== *)
theory Server
  imports Net_Safety Startup
begin

text \<open>
  The server on its socket layer. The programs of the other theories ask netlib through calls of the
  environment; on_netlib runs such a program over the model of netlib, with the state of the program
  as the client of it. The callbacks main and the connections register are server_invoke, and
  start_server is main up to the event loop, whose turns are the steps of server_turn.
\<close>

section \<open>Programs over netlib\<close>

datatype server_callback = HttpCallback | HttpConnCallback | HttpLoopCallback | HttpTimerCallback

type_synonym 'a serverp = "(server_callback, srv, 'a) netp"

text \<open>recv answers with the number of bytes, and puts them where the caller said.\<close>

definition net_call :: "os_call \<Rightarrow> os_reply serverp" where
  "net_call c =
     (case c of
        OsSend handle buf \<Rightarrow> bindp (netlib_send handle buf) (\<lambda>n. Ret \<lparr>os_int = n, os_str = []\<rparr>)
      | OsRecv handle \<Rightarrow>
          bindp (netlib_recv handle READ_BUF_SIZE) (\<lambda>r.
            Ret \<lparr>os_int = os_int r, os_str = take (nat (os_int r)) (os_str r)\<rparr>)
      | OsCloseSocket handle \<Rightarrow> bindp (netlib_close handle) (\<lambda>n. Ret \<lparr>os_int = n, os_str = []\<rparr>)
      | OsSetCallback handle cdata \<Rightarrow>
          bindp (netlib_option handle (OptSetCallback HttpConnCallback)) (\<lambda>_.
          bindp (netlib_option handle (OptSetCallbackData cdata)) (\<lambda>_.
          bindp (netlib_option handle OptGetRemoteIp) (\<lambda>v.
            Ret \<lparr>os_int = 0, os_str = (case v of Some (TextValue ip) \<Rightarrow> ip | _ \<Rightarrow> [])\<rparr>)))
      | OsListen ip port \<Rightarrow> bindp (netlib_listen ip port HttpCallback 0) (\<lambda>n. Ret \<lparr>os_int = n, os_str = []\<rparr>)
      | OsNetInit \<Rightarrow> Ret \<lparr>os_int = NETLIB_OK, os_str = []\<rparr>
      | _ \<Rightarrow> Os c Ret)"

primrec on_netlib :: "'a prog \<Rightarrow> 'a serverp" where
  "on_netlib (Ret a) = Ret a"
| "on_netlib (Fault e) = Fault (InCallback e)"
| "on_netlib Replaced = Replaced"
| "on_netlib (MysqlConnect ps k) = MysqlConnect ps (\<lambda>r. on_netlib (k r))"
| "on_netlib (Mysql q k) = Mysql q (\<lambda>r. on_netlib (k r))"
| "on_netlib (MysqlStmt q ps k) = MysqlStmt q ps (\<lambda>r. on_netlib (k r))"
| "on_netlib (RedisConnect h p k) = RedisConnect h p (\<lambda>r. on_netlib (k r))"
| "on_netlib (Redis c k) = Redis c (\<lambda>r. on_netlib (k r))"
| "on_netlib (Os c k) = bindp (net_call c) (\<lambda>r. on_netlib (k r))"
| "on_netlib (Libc k) = Libc (\<lambda>r. on_netlib (k r))"
| "on_netlib (GetS k) = GetS (\<lambda>s. on_netlib (k (client s)))"
| "on_netlib (PutS t k) = GetS (\<lambda>s. PutS (s\<lparr>client := t\<rparr>) (on_netlib k))"
| "on_netlib (Await b k) = Await (\<lambda>s. b (client s)) (on_netlib k)"

definition conn_msg :: "netlib_msg \<Rightarrow> net_msg" where
  "conn_msg msg = (case msg of NetRead \<Rightarrow> MsgRead | NetWrite \<Rightarrow> MsgWrite | NetClose \<Rightarrow> MsgClose | _ \<Rightarrow> MsgOther)"

text \<open>The functions behind the function pointers: http_callback ignores all messages but one.\<close>

definition server_invoke :: "nat \<Rightarrow> (server_callback, srv) invoke" where
  "server_invoke fuel f cdata msg handle =
     (case f of
        HttpCallback \<Rightarrow>
          if msg = NetConnect then bindp (on_netlib (http_callback handle)) (\<lambda>_. Ret True) else Ret True
      | HttpConnCallback \<Rightarrow>
          bindp (on_netlib (httpconn_callback fuel cdata (conn_msg msg))) (\<lambda>r. Ret (r \<noteq> None))
      | HttpLoopCallback \<Rightarrow> bindp (on_netlib SendResponseDataList) (\<lambda>_. Ret True)
      | HttpTimerCallback \<Rightarrow> bindp (on_netlib http_conn_timer_callback) (\<lambda>_. Ret True))"

text \<open>main, with initHttpConn behind the listening sockets, up to netlib_eventloop.\<close>

definition start_server :: "int serverp" where
  "start_server =
     bindp (on_netlib server_main) (\<lambda>ret.
     if ret \<noteq> 0 then Ret ret
     else
       bindp (AddLoop HttpLoopCallback 0) (\<lambda>_.
       bindp (modN (running_update (\<lambda>_. True))) (\<lambda>_. Ret 0)))"

definition blank_net :: "(server_callback, srv) net" where
  "blank_net =
     \<lparr>socket_heap = Map.empty, next_socket = 0, g_socket_map = [], timer_list = [], next_timer = 0, loop_list = [],
      running = False, client = blank_srv\<rparr>"

text \<open>A turn of the event loop, or a task a worker thread finishes between two turns.\<close>

inductive server_turn :: "'w env \<Rightarrow>
    (server_callback, srv) net \<times> 'w \<Rightarrow> (server_callback, srv) net \<times> 'w \<Rightarrow> bool"
  for E :: "'w env" where
  turn: "run E (dispatch_turn fuel (server_invoke fuel)) s w = (Done True, t, v) \<Longrightarrow>
     server_turn E (s, w) (t, v)"
| worker: "run E (on_netlib run_task) s w = (Done (), t, v) \<Longrightarrow> server_turn E (s, w) (t, v)"

section \<open>What carries over\<close>

lemma net_ok_bind:
  assumes "net_ok p" and "\<And>a. net_ok (f a)"
  shows "net_ok (bindp p f)"
  unfolding net_ok_def
proof (intro allI impI)
  fix pins and s :: "('a, 'b) net"
  assume "net_inv pins s"
  with assms(1) have "secures {} (\<lambda>_ t. net_inv pins t \<and> same_rest s t) p s" by (rule net_okD)
  then show "secures {} (\<lambda>_ t. net_inv pins t \<and> same_rest s t) (bindp p f) s"
    by (rule secures_bindp) (use net_okD [OF assms(2)] in \<open>blast intro: secures_mono same_rest_trans\<close>)
qed

lemma net_ok_basic [simp]: "net_ok (Ret a)" "net_ok (Os c Ret)"
  by (simp_all add: net_ok_def)

lemma net_ok_net_call [simp]: "net_ok (net_call c)"
  by (auto simp: net_call_def split: os_call.split intro!: net_ok_bind)

text \<open>
  A property of the state that a program keeps whatever the environment answers, it keeps over
  netlib, whose answers are some of those; and it leaves the sockets in order.
\<close>

lemma on_netlib_secures:
  "ensures Q p (client s) \<Longrightarrow> net_inv pins s \<Longrightarrow>
   secures (range InCallback) (\<lambda>a t. Q a (client t) \<and> net_inv pins t \<and> timers_in s t) (on_netlib p) s"
proof (induction p arbitrary: s)
  case (Os c k)
  have call: "secures {} (\<lambda>_ t. net_inv pins t \<and> same_rest s t) (net_call c) s"
    using Os.prems(2) by (intro net_okD) simp_all
  show ?case
    unfolding on_netlib.simps
  proof (rule secures_bindp [OF secures_faults [OF call]])
    show "{} \<subseteq> range InCallback" by simp
    fix r t
    assume t: "net_inv pins t \<and> same_rest s t"
    then have rest: "client t = client s" "timers_in s t" using same_rest_timers by blast+
    have "secures (range InCallback) (\<lambda>a u. Q a (client u) \<and> net_inv pins u \<and> timers_in t u) (on_netlib (k r)) t"
      using Os.prems(1) t by (intro Os.IH) (simp_all add: rest)
    then show "secures (range InCallback) (\<lambda>a u. Q a (client u) \<and> net_inv pins u \<and> timers_in s u) (on_netlib (k r)) t"
      by (rule secures_mono) (use rest timers_in_trans in auto)
  qed
next
  case (PutS u k)
  have "net_inv pins (s\<lparr>client := u\<rparr>)" using PutS.prems(2) by (simp add: net_inv_def registered_def)
  then have "secures (range InCallback) (\<lambda>a t. Q a (client t) \<and> net_inv pins t \<and> timers_in (s\<lparr>client := u\<rparr>) t)
      (on_netlib k) (s\<lparr>client := u\<rparr>)"
    using PutS.prems(1) by (intro PutS.IH) simp_all
  then show ?case by (simp add: timers_in_def)
qed (auto simp: timers_in_def)

definition server_ok :: "srv \<Rightarrow> bool" where
  "server_ok s \<longleftrightarrow> http_inv s \<and> view_ready (db_view s) \<and> view_ready (cache_view s)"

lemma server_ok_sound: "server_ok s \<Longrightarrow> sound s t \<Longrightarrow> server_ok t"
  by (auto simp: server_ok_def sound_def dest: ready_bal)

lemma on_netlib_ok:
  assumes "keeps sound p" and "net_inv pins s" and "server_ok (client s)"
  shows "secures (range InCallback) (\<lambda>_ t. net_inv pins t \<and> server_ok (client t) \<and> timers_in s t) (on_netlib p) s"
proof (rule secures_mono)
  show "secures (range InCallback) (\<lambda>_ t. sound (client s) (client t) \<and> net_inv pins t \<and> timers_in s t) (on_netlib p) s"
    using assms(1,2) by (intro on_netlib_secures) (simp_all add: keeps_def)
qed (use assms(3) server_ok_sound in auto)

lemma on_netlib_then:
  assumes "net_inv pins s" and "server_ok (client s)" and "keeps sound p"
  shows "secures (range InCallback) (\<lambda>_ t. net_inv pins t \<and> server_ok (client t) \<and> timers_in s t)
    (bindp (on_netlib p) (\<lambda>a. Ret (g a))) s"
  using on_netlib_ok [OF assms(3,1,2)] by (rule secures_then)

interpretation server: callbacks "server_invoke fuel" server_ok "range InCallback"
proof
  fix pins and s :: "(server_callback, srv) net" and f d msg h
  assume s: "net_inv pins s" "server_ok (client s)"
  show "secures (range InCallback) (\<lambda>_ t. net_inv pins t \<and> server_ok (client t) \<and> timers_in s t)
      (server_invoke fuel f d msg h) s"
    using s by (cases f) (simp_all add: server_invoke_def on_netlib_then)
qed

definition loop_inv :: "(server_callback, srv) net \<Rightarrow> bool" where
  "loop_inv s \<longleftrightarrow> net_inv (\<lambda>_. 0) s \<and> server_ok (client s)"

lemma server_turn_inv: "server_turn E x y \<Longrightarrow> loop_inv (fst x) \<Longrightarrow> loop_inv (fst y)"
proof (induction rule: server_turn.induct)
  case (turn fuel s w t v)
  then have "net_inv (\<lambda>_. 0) s" "server_ok (client s)" by (simp_all add: loop_inv_def)
  from secures_run [OF server.dispatch_turn_safe [OF this] turn.hyps] show ?case by (simp add: loop_inv_def)
next
  case (worker s w t v)
  then have "net_inv (\<lambda>_. 0) s" "server_ok (client s)" by (simp_all add: loop_inv_def)
  from secures_run [OF on_netlib_ok [OF keeps_run_task this] worker.hyps] show ?case by (simp add: loop_inv_def)
qed

lemma server_turns_inv: "(server_turn E)\<^sup>*\<^sup>* x y \<Longrightarrow> loop_inv (fst x) \<Longrightarrow> loop_inv (fst y)"
  by (induction rule: rtranclp_induct) (blast dest: server_turn_inv)+

lemma start_server_inv:
  assumes "run E start_server blank_net w = (Done 0, s, w1)"
  shows "loop_inv s"
proof -
  have start: "secures (range InCallback) (\<lambda>a t. starting blank_srv (client t) \<and> net_inv (\<lambda>_. 0) t \<and> timers_in blank_net t)
      (on_netlib server_main) blank_net"
    using keeps_server_main
    by (intro on_netlib_secures) (simp_all add: keeps_def blank_net_def net_inv_def registered_def socket_ok_def)
  obtain s0 w0 where s0: "run E (on_netlib server_main) blank_net w = (Done 0, s0, w0)"
      "s = running_update (\<lambda>_. True) (loop_list_update (\<lambda>l. l @ [(HttpLoopCallback, 0)]) s0)"
    using assms by (auto simp: start_server_def then_run_Done_iff AddLoop_def modN_def split: if_splits)
  have "starting blank_srv (client s0) \<and> net_inv (\<lambda>_. 0) s0" using secures_run [OF start s0(1)] by simp
  then show ?thesis
    using blank_ready http_inv_part [of "client s0" blank_srv]
    by (simp add: s0(2) loop_inv_def server_ok_def starting_def net_inv_def registered_def)
qed

text \<open>
  C2. The whole server, sockets included: after main has got to the event loop, whatever the
  kernel, the clients, the databases and the workers do, between two turns of the loop every entry of
  the map of sockets leads to a socket that exists, with its descriptor and a positive count; the maps
  of connections lead to living connections only; and no pool has lost a connection. A turn of the
  loop from there never uses a socket or a timer that was deleted: if it crashes at all, the crash is
  in the code a callback runs.
\<close>

theorem event_loop_sound:
  assumes "run E start_server blank_net w = (Done 0, s, w1)" and "(server_turn E)\<^sup>*\<^sup>* (s, w1) (t, v)"
  shows "(\<forall>(fd, c) \<in> set (g_socket_map t). \<exists>b. socket_heap t c = Some b \<and> bs_fd b = fd \<and> 1 \<le> bs_ref b) \<and>
    http_inv (client t) \<and> pools_complete (client t) \<and>
    (run E (dispatch_turn fuel (server_invoke fuel)) t v = (Crashed e, t', v') \<longrightarrow> e \<in> range InCallback)"
proof -
  have t: "net_inv (\<lambda>_. 0) t" "server_ok (client t)"
    using server_turns_inv [OF assms(2)] start_server_inv [OF assms(1)] by (simp_all add: loop_inv_def)
  have "\<exists>b. socket_heap t c = Some b \<and> bs_fd b = fd \<and> 1 \<le> bs_ref b" if "(fd, c) \<in> set (g_socket_map t)" for fd c
  proof -
    have "registered t c" using that by (auto simp: registered_iff)
    then obtain b where "socket_heap t c = Some b" "1 \<le> bs_ref b" using t(1) by (auto elim: net_inv_get)
    then show ?thesis using t(1) that by (auto simp: net_inv_def)
  qed
  moreover have "http_inv (client t) \<and> pools_complete (client t)"
    using t ready_complete by (simp add: server_ok_def view_ready_def)
  moreover have "e \<in> range InCallback"
    if "run E (dispatch_turn fuel (server_invoke fuel)) t v = (Crashed e, t', v')"
    using secures_crash [OF server.dispatch_turn_safe [OF t] that] .
  ultimately show ?thesis by blast
qed

text \<open>
  Without a call of netlib a program runs over netlib as it does alone; listening only adds a socket.
\<close>

fun listens :: "event \<Rightarrow> bool" where
  "listens (EvOs c) \<longleftrightarrow> (\<exists>ip port. c = OsListen ip port) \<or> c = OsNetInit \<or> net_call c = Os c Ret"
| "listens _ \<longleftrightarrow> True"

lemma run_on_netlib:
  assumes listen: "\<And>ip port w (s :: (server_callback, srv) net). \<exists>s'. run E (netlib_listen ip port HttpCallback 0) s w = (Done 0, s', w) \<and> client s' = client s"
    and init: "\<And>ip port w. env_os E w (OsListen ip port) = (\<lparr>os_int = 0, os_str = []\<rparr>, w)"
      "\<And>w. env_os E w OsNetInit = (\<lparr>os_int = 0, os_str = []\<rparr>, w)"
  shows "run E p (client s) w = (Done a, c, w') \<Longrightarrow> calls listens p \<Longrightarrow>
    \<exists>s'. run E (on_netlib p) s w = (Done a, s', w') \<and> client s' = c"
proof (induction p arbitrary: s w)
  case (Os call k)
  consider ip port where "call = OsListen ip port" | "call = OsNetInit" | "net_call call = Os call Ret"
    using Os.prems(2) by auto
  then show ?case
  proof cases
    case 1
    obtain u where u: "run E (netlib_listen ip port HttpCallback 0) s w = (Done 0, u, w)" "client u = client s"
      using listen by blast
    have "\<exists>s'. run E (on_netlib (k \<lparr>os_int = 0, os_str = []\<rparr>)) u w = (Done a, s', w') \<and> client s' = c"
      by (rule Os.IH) (use Os.prems in \<open>simp_all add: 1 u init\<close>)
    then show ?thesis by (simp add: 1 net_call_def u)
  next
    case 2
    with Os show ?thesis by (simp add: net_call_def init NETLIB_OK_def)
  next
    case 3
    with Os show ?thesis by (auto split: prod.splits)
  qed
qed (force split: prod.splits if_splits)+

lemma start_env_sys [simp]:
  "env_os start_env w SysSocket = (\<lparr>os_int = 1, os_str = start_file\<rparr>, w)"
  "env_os start_env w (SysSockopt fd) = (\<lparr>os_int = 1, os_str = start_file\<rparr>, w)"
  "env_os start_env w (SysBind fd ip port) = (\<lparr>os_int = 1, os_str = start_file\<rparr>, w)"
  "env_os start_env w (SysListen fd) = (\<lparr>os_int = 1, os_str = start_file\<rparr>, w)"
  "env_os start_env w (SysEpollAdd fd) = (\<lparr>os_int = 1, os_str = start_file\<rparr>, w)"
  by (simp_all add: start_env_def)

lemma start_listens:
  "\<exists>s'. run start_env (netlib_listen ip port HttpCallback 0) s w = (Done 0, s', w) \<and> client s' = client (s :: (server_callback, srv) net)"
  by (simp add: netlib_listen_def new_CBaseSocket_def CBaseSocket_Listen_def set_socket_def the_socket_def modN_def
      put_socket_def SetOption_def AddBaseSocket_def AddEvent_def Let_def INVALID_SOCKET_def SOCKET_ERROR_def
      NETLIB_OK_def NETLIB_ERROR_def)

lemma listens_basic [simp]: "conn_ok listens" "net_call (OsReadFile f) = Os (OsReadFile f) Ret"
  by (auto simp: conn_ok_def conn_event_def net_call_def split: event.splits)

lemma listens_config [simp]: "calls listens (new_CConfigFileReader f)" "calls listens (GetConfigName cfg n)"
  "calls listens (pool_item cfg n x)"
  by (auto simp: new_CConfigFileReader_def LoadFile_def GetConfigName_def pool_item_def split: option.splits intro!: calls_bindpI)

lemma listens_CDBPool_Init_loop: "calls listens (CDBPool_Init_loop name n)"
  by (induction n) (auto simp: the_db_pool_def new_CDBConn_def delete_CDBConn_def split: option.splits intro!: calls_bindpI)

lemma listens_CachePool_Init_loop: "calls listens (CachePool_Init_loop name n)"
  by (induction n) (auto simp: the_cache_pool_def new_CacheConn_def delete_CacheConn_def split: option.splits intro!: calls_bindpI)

lemma listens_CDBManager_loop: "calls listens (CDBManager_Init_loop cfg items)"
  by (induction items)
    (auto simp: add_db_pool_def CDBPool_Init_def the_db_pool_def listens_CDBPool_Init_loop split: option.splits intro!: calls_bindpI)

lemma listens_CacheManager_loop: "calls listens (CacheManager_Init_loop cfg items)"
  by (induction items)
    (auto simp: add_cache_pool_def CachePool_Init_def the_cache_pool_def listens_CachePool_Init_loop split: option.splits
      intro!: calls_bindpI)

lemma listens_managers [simp]: "calls listens CDBManager_getInstance" "calls listens CacheManager_getInstance"
  by (auto simp: CDBManager_getInstance_def CDBManager_Init_def listens_CDBManager_loop
      CacheManager_getInstance_def CacheManager_Init_def listens_CacheManager_loop split: option.splits intro!: calls_bindpI)

lemma listens_listen_loop [simp]: "calls listens (listen_loop items port)"
  by (induction items) (auto intro!: calls_bindpI)

lemma listens_ApiInit [simp]: "calls listens ApiInit" "calls listens (ApiUploadInit a b c d e)" "calls listens (ApiDealfileInit a)"
  by (auto simp: ApiInit_def DBGetShareFilesCount_def ApiUploadInit_def ApiDealfileInit_def intro!: calls_bindpI)

lemma calls_if: "(b \<Longrightarrow> calls P p) \<Longrightarrow> (\<not> b \<Longrightarrow> calls P q) \<Longrightarrow> calls P (if b then p else q)"
  by simp

lemma listens_server_main: "calls listens server_main"
  unfolding server_main_def by (intro calls_bindpI calls_if; simp split: option.split)

theorem event_loop_sound_witness:
  "\<exists>s. run start_env start_server blank_net () = (Done 0, s, ()) \<and> http_inv (client s) \<and> pools_complete (client s) \<and>
     (HttpLoopCallback, 0) \<in> set (loop_list s)"
proof -
  obtain c where "run start_env server_main (client blank_net) () = (Done 0, c, ())"
    using server_starts by (auto simp: blank_net_def)
  then obtain s where s: "run start_env (on_netlib server_main) blank_net () = (Done 0, s, ())"
    using run_on_netlib [OF start_listens start_env_simps(7,8) _ listens_server_main] by blast
  then obtain t where t: "run start_env start_server blank_net () = (Done 0, t, ())"
      "loop_list t = loop_list s @ [(HttpLoopCallback, 0)]"
    by (simp add: start_server_def AddLoop_def modN_def)
  show ?thesis
    using t(2) event_loop_sound [where fuel = 0, OF t(1) rtranclp.rtrancl_refl]
    by (intro exI [of _ t] conjI t(1)) (auto simp: t)
qed

end
