(* ===== verification/Http_Request.thy ===== *)
theory Http_Request
  imports Http_Parser_Wrapper
begin

text \<open>
  What the parser makes of a request that is written as it should be. The bytes are followed one
  section at a time: the method, the URL, the version, the headers, the length and the body. PX and
  HP write the variables of http_parser_execute and the parser as literal records, so that a byte is
  a rewriting step. The matching of a header name is followed by name_state, which says what of the
  name the state stands for. The last part is the whole request through CHttpParserWrapper.
\<close>

section \<open>One byte\<close>

abbreviation PX :: "http_parser \<Rightarrow> 'o \<Rightarrow> string \<Rightarrow> (data_kind \<Rightarrow> string option) \<Rightarrow> 'o px" where
  "PX a ob p m \<equiv> \<lparr>px_parser = a, px_obj = ob, px_p = p, px_mark = m\<rparr>"

lemma PX_ops [simp]:
  "with_parser f (PX a ob p m) = PX (f a) ob p m" "in_state s (PX a ob p m) = PX (a\<lparr>hp_state := s\<rparr>) ob p m"
  "in_header h (PX a ob p m) = PX (a\<lparr>hp_header_state := h\<rparr>) ob p m"
  "clear_message (PX a ob p m) = PX (a\<lparr>hp_flags := {}, hp_content_length := ULLONG_MAX\<rparr>) ob p m"
  "new_message (PX a ob p m) = PX (a\<lparr>hp_state := NEW_MESSAGE a\<rparr>) ob p m"
  "MARK kind (PX a ob p m) = PX a ob p (if m kind = None then m(kind := Some p) else m)"
  by (simp_all add: with_parser_def in_state_def in_header_def clear_message_def new_message_def MARK_def)

lemma byte_loop_PX:
  "byte_loop S ch (PX a ob (c # r) m) =
     (case execute_byte (hp_state a) S ch (PX a ob (c # r) m) of Reexecute y \<Rightarrow> byte_loop S ch y | q \<Rightarrow> q)"
  by (subst byte_loop.simps) simp

text \<open>A byte of the header, as long as the header is not too long.\<close>

lemma header_byte:
  assumes "PARSING_HEADER (hp_state a)" and "0 \<le> hp_nread a" and "hp_nread a < HTTP_MAX_HEADER_SIZE"
  shows "execute_from S (PX a ob (ch # r) m) =
    (case byte_loop S ch (PX (a\<lparr>hp_nread := hp_nread a + 1\<rparr>) ob (ch # r) m) of
       Continue y \<Rightarrow> execute_from S (y\<lparr>px_p := tl (px_p y)\<rparr>)
     | q \<Rightarrow> q)"
proof -
  have "(hp_nread a + 1) mod 2 ^ 32 = hp_nread a + 1"
    using assms(2,3) by (simp add: HTTP_MAX_HEADER_SIZE_def)
  then have "count_byte (PX a ob (ch # r) m) = PX (a\<lparr>hp_nread := hp_nread a + 1\<rparr>) ob (ch # r) m"
    using assms(1) by (simp add: count_byte_def)
  then show ?thesis
    using assms by (subst execute_from.simps) (simp add: header_overflow_def split: byte_result.split)
qed

lemma event_cbs [simp]:
  "cb_message_begin (event_settings step) = None" "cb_status_complete (event_settings step) = None"
  "cb_headers_complete (event_settings step) =
     Some (\<lambda>a w. (0, step (OnHeadersComplete (nat (hp_nread a)) (hp_content_length a)) w))"
  "cb_message_complete (event_settings step) = Some (\<lambda>a w. (0, step OnMessageComplete w))"
  by (simp_all add: event_settings_def)

primrec data_event :: "data_kind \<Rightarrow> string \<Rightarrow> nat \<Rightarrow> parser_event" where
  "data_event DataUrl at len = OnUrl (take len at)"
| "data_event DataHeaderField at len = OnHeaderField at"
| "data_event DataHeaderValue at len = OnHeaderValue (take len at)"
| "data_event DataBody at len = OnBody (take len at)"

lemma event_data [simp]:
  "data_cb kind (event_settings step) = Some (\<lambda>a at len w. (0, step (data_event kind at len) w))"
  by (cases kind) (simp_all add: event_settings_def fun_eq_iff)

lemma PX_callbacks [simp]:
  "hp_errno a = HPE_OK \<Longrightarrow> CALLBACK_NOTIFY None e (PX a ob p m) k = k (PX a ob p m)"
  "hp_errno a = HPE_OK \<Longrightarrow> CALLBACK_NOTIFY (Some (\<lambda>a w. (0, f a w))) e (PX a ob p m) k = k (PX a (f a ob) p m)"
  "hp_errno a = HPE_OK \<Longrightarrow> m kind = Some mark \<Longrightarrow>
     CALLBACK_DATA_AT (event_settings step) kind extra er (PX a ob p m) k =
       k (PX a (step (data_event kind mark (length mark - length p + extra)) ob) p (m(kind := None)))"
  by (simp_all add: callback_at CALLBACK_NOTIFY_AT_def CALLBACK_DATA_AT_def assert_then_def Let_def)

text \<open>A parser of requests without an error.\<close>

abbreviation HP :: "http_method \<Rightarrow> http_flag set \<Rightarrow> parse_state \<Rightarrow> header_state \<Rightarrow> nat \<Rightarrow> int \<Rightarrow> int \<Rightarrow> nat \<Rightarrow> nat \<Rightarrow> http_parser" where
  "HP me fl s h i nr len ma mi \<equiv>
     \<lparr>hp_type = HTTP_REQUEST, hp_flags = fl, hp_state = s, hp_header_state = h, hp_index = i, hp_nread = nr,
      hp_content_length = len, hp_major = ma, hp_minor = mi, hp_status_code = 0, hp_method = me, hp_errno = HPE_OK,
      hp_upgrade = False\<rparr>"

lemmas eval_bytes = header_byte PARSING_HEADER_def byte_loop_PX line_byte_defs first_method_def IS_ALPHA_def LOWER_def
  char_at_def HTTP_MAX_HEADER_SIZE_def NUL_def Let_def is_digit_def digit_val_def STRICT_CHECK_def

abbreviation "no_marks_set \<equiv> (\<lambda>_. None) :: data_kind \<Rightarrow> string option"

lemma no_mark [simp]: "(\<lambda>_. None)(k := None) = (\<lambda>_. None)" by auto

lemma method_bytes:
  assumes "me \<noteq> HTTP_CONNECT" and "me \<noteq> HTTP_MSEARCH"
  shows "execute_from (event_settings step) (PX (http_parser_init HTTP_REQUEST) ob (method_strings me @ CHR '' '' # r) m) =
    execute_from (event_settings step)
      (PX (HP me {} s_req_spaces_before_url h_general (length (method_strings me) + 1) (int (length (method_strings me)) + 1)
        ULLONG_MAX 0 0) ob r m)"
  using assms by (cases me; simp add: eval_bytes other_method_def http_parser_init_def; simp add: eval_nat_numeral)

section \<open>The first line\<close>

text \<open>A URL of a path and perhaps a query.\<close>

definition url_ok :: "string \<Rightarrow> bool" where
  "url_ok url \<longleftrightarrow> (\<exists>u. url = CHR ''/'' # u \<and> (\<forall>c \<in> set u. IS_URL_CHAR c \<or> c = CHR ''?''))"

lemma url_char_plain: "IS_URL_CHAR c \<Longrightarrow> c \<noteq> CHR '' '' \<and> c \<noteq> CHR_CR \<and> c \<noteq> CHR_LF \<and> c \<noteq> CHR_HT \<and> c \<noteq> CHR 0x0C"
  by (auto simp: IS_URL_CHAR_def)

lemma url_byte:
  assumes "IS_URL_CHAR c \<or> c = CHR ''?''" and "s \<in> {s_req_path, s_req_query_string_start, s_req_query_string}"
    and "0 \<le> nr" and "nr < HTTP_MAX_HEADER_SIZE"
  shows "parse_url_char s c \<in> {s_req_path, s_req_query_string_start, s_req_query_string}"
    and "execute_from S (PX (HP me fl s h i nr len ma mi) ob (c # r) m) =
      execute_from S (PX (HP me fl (parse_url_char s c) h i (nr + 1) len ma mi) ob r m)"
proof -
  have c: "c \<noteq> CHR '' ''" "c \<noteq> CHR_CR" "c \<noteq> CHR_LF" "c \<noteq> CHR_HT" "c \<noteq> CHR 0x0C"
    using assms(1) url_char_plain by auto
  show s: "parse_url_char s c \<in> {s_req_path, s_req_query_string_start, s_req_query_string}"
    using assms(2) by (elim insertE) (use c assms(1) in \<open>auto simp: parse_url_char_def IS_URL_CHAR_def\<close>)
  then have n: "parse_url_char s c \<noteq> s_dead" by auto
  have e: "execute_byte s = byte_req_url" "PARSING_HEADER s"
    using assms(2) by (auto simp: PARSING_HEADER_def)
  show "execute_from S (PX (HP me fl s h i nr len ma mi) ob (c # r) m) =
      execute_from S (PX (HP me fl (parse_url_char s c) h i (nr + 1) len ma mi) ob r m)"
    using assms(3,4) c n by (simp add: header_byte e byte_loop_PX byte_req_url_def)
qed

lemma url_bytes:
  assumes "\<forall>c \<in> set u. IS_URL_CHAR c \<or> c = CHR ''?''" and "s \<in> {s_req_path, s_req_query_string_start, s_req_query_string}"
    and "0 \<le> nr" and "nr + int (length u) \<le> HTTP_MAX_HEADER_SIZE"
  shows "\<exists>s'. s' \<in> {s_req_path, s_req_query_string_start, s_req_query_string} \<and>
    execute_from S (PX (HP me fl s h i nr len ma mi) ob (u @ r) m) =
      execute_from S (PX (HP me fl s' h i (nr + int (length u)) len ma mi) ob r m)"
  using assms
proof (induction u arbitrary: s nr)
  case (Cons c u)
  have "IS_URL_CHAR c \<or> c = CHR ''?''" "nr < HTTP_MAX_HEADER_SIZE" using Cons.prems by auto
  note b = url_byte [OF this(1) Cons.prems(2,3) this(2)]
  have "nr + int (length (c # u)) = (nr + 1) + int (length u)" by simp
  with Cons.IH [OF _ b(1), of "nr + 1"] Cons.prems show ?case by (simp add: b(2) add.assoc)
qed auto

lemma request_url:
  assumes "url_ok url" and "me \<noteq> HTTP_CONNECT" and "0 \<le> nr" and "nr + int (length url) < HTTP_MAX_HEADER_SIZE"
  shows "execute_from (event_settings step) (PX (HP me fl s_req_spaces_before_url h i nr len ma mi) ob (url @ CHR '' '' # r) no_marks_set) =
    execute_from (event_settings step) (PX (HP me fl s_req_http_start h i (nr + int (length url) + 1) len ma mi)
      (step (OnUrl url) ob) r no_marks_set)"
proof -
  obtain u where u: "url = CHR ''/'' # u" "\<forall>c \<in> set u. IS_URL_CHAR c \<or> c = CHR ''?''"
    using assms(1) by (auto simp: url_ok_def)
  let ?m = "no_marks_set(DataUrl := Some (url @ CHR '' '' # r))"
  have b: "nr < HTTP_MAX_HEADER_SIZE" "0 \<le> nr + 1" "nr + 1 + int (length u) \<le> HTTP_MAX_HEADER_SIZE"
      "nr + 1 + int (length u) < HTTP_MAX_HEADER_SIZE"
    using assms(3,4) u(1) by auto
  have 1: "execute_from (event_settings step) (PX (HP me fl s_req_spaces_before_url h i nr len ma mi) ob (url @ CHR '' '' # r) no_marks_set) =
      execute_from (event_settings step) (PX (HP me fl s_req_path h i (nr + 1) len ma mi) ob (u @ CHR '' '' # r) ?m)"
    using assms(2,3) u(1) b(1)
    by (simp add: header_byte PARSING_HEADER_def byte_loop_PX byte_req_spaces_before_url_def parse_url_char_def IS_ALPHA_def LOWER_def)
  have "\<exists>s. s \<in> {s_req_path, s_req_query_string_start, s_req_query_string} \<and>
      execute_from (event_settings step) (PX (HP me fl s_req_path h i (nr + 1) len ma mi) ob (u @ CHR '' '' # r) ?m) =
       execute_from (event_settings step) (PX (HP me fl s h i (nr + 1 + int (length u)) len ma mi) ob (CHR '' '' # r) ?m)"
    by (rule url_bytes [OF u(2) _ b(2,3)]) simp
  then obtain s where s: "s \<in> {s_req_path, s_req_query_string_start, s_req_query_string}"
      "execute_from (event_settings step) (PX (HP me fl s_req_path h i (nr + 1) len ma mi) ob (u @ CHR '' '' # r) ?m) =
       execute_from (event_settings step) (PX (HP me fl s h i (nr + 1 + int (length u)) len ma mi) ob (CHR '' '' # r) ?m)"
    by (elim exE conjE)
  have e: "execute_byte s = byte_req_url" "PARSING_HEADER s"
    using s(1) by (auto simp: PARSING_HEADER_def)
  have "byte_loop (event_settings step) (CHR '' '') (PX (HP me fl s h i (nr + int (length url) + 1) len ma mi) ob (CHR '' '' # r) ?m) =
      Continue (PX (HP me fl s_req_http_start h i (nr + int (length url) + 1) len ma mi) (step (OnUrl url) ob) (CHR '' '' # r) no_marks_set)"
    by (simp add: e byte_loop_PX byte_req_url_def callback_at)
  then have "execute_from (event_settings step) (PX (HP me fl s h i (nr + 1 + int (length u)) len ma mi) ob (CHR '' '' # r) ?m) =
      execute_from (event_settings step) (PX (HP me fl s_req_http_start h i (nr + int (length url) + 1) len ma mi)
      (step (OnUrl url) ob) r no_marks_set)"
    using b(4) assms(3) u(1) e(2) by (simp add: header_byte add.commute)
  with 1 s(2) show ?thesis by simp
qed

lemma request_version:
  assumes "0 \<le> nr" and "nr + 10 \<le> HTTP_MAX_HEADER_SIZE"
  shows "execute_from (event_settings step) (PX (HP me fl s_req_http_start h i nr len 0 0) ob (''HTTP/1.1'' @ CHR_CR # CHR_LF # r) m) =
    execute_from (event_settings step) (PX (HP me fl s_header_field_start h i (10 + nr) len 1 1) ob r m)"
  using assms by (simp add: eval_bytes)


section \<open>Names and values\<close>

text \<open>The headers that tell the parser something. A state of the matching stands for what was read.\<close>

definition framing_names :: "string set" where
  "framing_names = {''connection'', ''proxy-connection'', ''content-length'', ''transfer-encoding'', ''upgrade''}"

primrec partial_word :: "header_state \<Rightarrow> string option" where
  "partial_word h_general = None"
| "partial_word h_C = Some ''con''"
| "partial_word h_CO = Some ''con''"
| "partial_word h_CON = Some ''con''"
| "partial_word h_matching_connection = Some ''connection''"
| "partial_word h_matching_proxy_connection = Some ''proxy-connection''"
| "partial_word h_matching_content_length = Some ''content-length''"
| "partial_word h_matching_transfer_encoding = Some ''transfer-encoding''"
| "partial_word h_matching_upgrade = Some ''upgrade''"
| "partial_word h_connection = None"
| "partial_word h_content_length = None"
| "partial_word h_transfer_encoding = None"
| "partial_word h_upgrade = None"
| "partial_word h_matching_transfer_encoding_chunked = None"
| "partial_word h_matching_connection_keep_alive = None"
| "partial_word h_matching_connection_close = None"
| "partial_word h_transfer_encoding_chunked = None"
| "partial_word h_connection_keep_alive = None"
| "partial_word h_connection_close = None"

definition name_state :: "string \<Rightarrow> header_state \<Rightarrow> nat \<Rightarrow> bool" where
  "name_state pre h i \<longleftrightarrow>
     (case partial_word h of
        Some word \<Rightarrow> i + 1 < length word + (if h = h_CON then 1 else 0) \<and> pre = take (i + 1) word \<and>
          (h = h_C \<longrightarrow> i = 0) \<and> (h = h_CO \<longrightarrow> i = 1) \<and> (h = h_CON \<longrightarrow> i = 2) \<and>
          (h = h_matching_connection \<or> h = h_matching_content_length \<longrightarrow> 3 \<le> i)
      | None \<Rightarrow> h = h_general \<or> h \<in> {h_connection, h_content_length, h_transfer_encoding, h_upgrade} \<and> pre \<in> framing_names)"

lemma name_state_general [simp]: "name_state pre h_general i"
  by (simp add: name_state_def)

lemma match_word_state:
  assumes "name_state pre h i" and "partial_word h = Some word" and "h \<notin> {h_C, h_CO, h_CON}"
    and "found \<in> {h_connection, h_content_length, h_transfer_encoding, h_upgrade}" and "word \<in> framing_names"
  shows "\<exists>h' i'. match_word word found c (PX (HP me fl s h i nr len ma mi) ob p m) =
      Continue (PX (HP me fl s h' i' nr len ma mi) ob p m) \<and> name_state (pre @ [c]) h' i'"
proof -
  have i: "i + 1 < length word" "pre = take (i + 1) word" "length word < 256"
    using assms by (auto simp: name_state_def framing_names_def)
  then have "(i + 1) mod 256 = i + 1" by simp
  moreover have "name_state (pre @ [c]) h (i + 1)" if "c = word ! (i + 1)" "i + 1 \<noteq> length word - 1"
    using assms(1-3) i that by (auto simp: name_state_def take_Suc_conv_app_nth)
  moreover have "name_state (pre @ [c]) found (i + 1)" if "c = word ! (i + 1)" "i + 1 = length word - 1"
  proof -
    have "pre @ [c] = take (Suc (i + 1)) word"
      using i(1,2) that(1) by (simp only: take_Suc_conv_app_nth)
    also have "\<dots> = word" using i(1) that(2) by simp
    finally show ?thesis using assms(4,5) by (auto simp: name_state_def)
  qed
  ultimately show ?thesis
    using i by (auto simp: match_word_def char_at_def Let_def)
qed


lemma TOKEN_plain:
  assumes "TOKEN ch \<noteq> NUL"
  shows "ch \<noteq> CHR '' ''" "ch \<noteq> CHR_CR" "ch \<noteq> CHR_LF" "ch \<noteq> CHR_HT" "ch \<noteq> CHR '':''"
  using assms by (auto simp: TOKEN_def is_digit_def NUL_def)

lemma next_header_state:
  "next_header g (PX (HP me fl s h i nr len ma mi) ob p m) =
    Continue (PX (HP me fl s g ((i + 1) mod 256) nr len ma mi) ob p m)"
  by (simp add: next_header_def)

lemma header_field_token_start:
  assumes "name_state pre h i" and "h \<in> {h_C, h_CO, h_CON}"
  shows "\<exists>g. header_field_token ch c (PX (HP me fl s h i nr len ma mi) ob p m) =
      next_header g (PX (HP me fl s h i nr len ma mi) ob p m) \<and> name_state (pre @ [c]) g ((i + 1) mod 256)"
proof -
  consider (C) "h = h_C" "i = 0" "pre = ''c''" | (CO) "h = h_CO" "i = 1" "pre = ''co''" | (CON) "h = h_CON" "i = 2" "pre = ''con''"
    using assms by (cases h; simp add: name_state_def)
  then show ?thesis
  proof cases
    case C
    then show ?thesis
      by (intro exI [of _ "if c = CHR ''o'' then h_CO else h_general"])
         (simp add: header_field_token_def name_state_def)
  next
    case CO
    then show ?thesis
      by (intro exI [of _ "if c = CHR ''n'' then h_CON else h_general"])
         (simp add: header_field_token_def name_state_def)
  next
    case CON
    then show ?thesis
      by (intro exI [of _ "if c = CHR ''n'' then h_matching_connection
            else if c = CHR ''t'' then h_matching_content_length else h_general"])
         (simp add: header_field_token_def name_state_def)
  qed
qed

lemma header_field_token_state:
  assumes "name_state pre h i" and "TOKEN ch \<noteq> NUL"
  shows "\<exists>h' i'. header_field_token ch (TOKEN ch) (PX (HP me fl s h i nr len ma mi) ob p m) =
      Continue (PX (HP me fl s h' i' nr len ma mi) ob p m) \<and> name_state (pre @ [TOKEN ch]) h' i'"
proof -
  note word = match_word_state [OF assms(1), where c = "TOKEN ch" and me = me and fl = fl and s = s and nr = nr and
      len = len and ma = ma and mi = mi and ob = ob and p = p and m = m]
  show ?thesis
  proof (cases "partial_word h")
    case None
    then show ?thesis
      using assms(1) TOKEN_plain [OF assms(2)]
      by (cases h; simp add: header_field_token_def name_state_def)
  next
    case (Some w)
    show ?thesis
    proof (cases "h \<in> {h_C, h_CO, h_CON}")
      case True
      then show ?thesis
        using header_field_token_start [OF assms(1) True, where ch = ch and c = "TOKEN ch" and me = me and fl = fl and s = s
            and nr = nr and len = len and ma = ma and mi = mi and ob = ob and p = p and m = m]
        by (elim exE conjE) (simp add: next_header_state)
    next
      case False
      with Some have "\<exists>found. found \<in> {h_connection, h_content_length, h_transfer_encoding, h_upgrade} \<and> w \<in> framing_names \<and>
          header_field_token ch (TOKEN ch) (PX (HP me fl s h i nr len ma mi) ob p m) =
            match_word w found (TOKEN ch) (PX (HP me fl s h i nr len ma mi) ob p m)"
        by (cases h; simp add: header_field_token_def framing_names_def; blast)
      then show ?thesis using word [OF Some False] by (elim exE conjE) simp
    qed
  qed
qed


lemma name_byte:
  assumes "name_state pre h i" and "TOKEN ch \<noteq> NUL" and "0 \<le> nr" and "nr < HTTP_MAX_HEADER_SIZE"
  shows "\<exists>h' i'. execute_from S (PX (HP me fl s_header_field h i nr len ma mi) ob (ch # r) m) =
      execute_from S (PX (HP me fl s_header_field h' i' (nr + 1) len ma mi) ob r m) \<and> name_state (pre @ [TOKEN ch]) h' i'"
proof -
  obtain h' i' where "header_field_token ch (TOKEN ch) (PX (HP me fl s_header_field h i (nr + 1) len ma mi) ob (ch # r) m) =
      Continue (PX (HP me fl s_header_field h' i' (nr + 1) len ma mi) ob (ch # r) m)" "name_state (pre @ [TOKEN ch]) h' i'"
    using header_field_token_state [OF assms(1,2), where s = s_header_field and p = "ch # r" and me = me and fl = fl
        and nr = "nr + 1" and len = len and ma = ma and mi = mi and ob = ob and m = m] by (elim exE conjE)
  then show ?thesis
    using assms(2-4)
    by (intro exI [of _ h'] exI [of _ i']) (simp add: header_byte PARSING_HEADER_def byte_loop_PX byte_header_field_def)
qed

lemma name_bytes:
  assumes "name_state pre h i" and "\<forall>ch \<in> set n. TOKEN ch \<noteq> NUL" and "0 \<le> nr" and "nr + int (length n) \<le> HTTP_MAX_HEADER_SIZE"
  shows "\<exists>h' i'. execute_from S (PX (HP me fl s_header_field h i nr len ma mi) ob (n @ r) m) =
      execute_from S (PX (HP me fl s_header_field h' i' (nr + int (length n)) len ma mi) ob r m) \<and>
      name_state (pre @ map TOKEN n) h' i'"
  using assms
proof (induction n arbitrary: pre h i nr)
  case Nil
  then show ?case by (intro exI [of _ h] exI [of _ i]) simp
next
  case (Cons ch n)
  have "\<exists>h' i'. execute_from S (PX (HP me fl s_header_field h i nr len ma mi) ob (ch # n @ r) m) =
      execute_from S (PX (HP me fl s_header_field h' i' (nr + 1) len ma mi) ob (n @ r) m) \<and> name_state (pre @ [TOKEN ch]) h' i'"
    by (rule name_byte) (use Cons.prems in auto)
  then obtain h' i' where 1: "execute_from S (PX (HP me fl s_header_field h i nr len ma mi) ob (ch # n @ r) m) =
      execute_from S (PX (HP me fl s_header_field h' i' (nr + 1) len ma mi) ob (n @ r) m)" "name_state (pre @ [TOKEN ch]) h' i'"
    by (elim exE conjE)
  have "\<forall>ch \<in> set n. TOKEN ch \<noteq> NUL" "0 \<le> nr + 1" "nr + 1 + int (length n) \<le> HTTP_MAX_HEADER_SIZE"
    using Cons.prems by auto
  from Cons.IH [OF 1(2) this] show ?case using 1(1) by (simp add: add.assoc)
qed

abbreviation "line_start \<equiv> {s_header_field_start, s_header_value_lws}"

lemma name_first:
  assumes "TOKEN ch \<noteq> NUL" and "s \<in> line_start" and "0 \<le> nr" and "nr < HTTP_MAX_HEADER_SIZE"
  shows "execute_from S (PX (HP me fl s h i nr len ma mi) ob (ch # r) no_marks_set) =
      execute_from S (PX (HP me fl s_header_field (first_header_state (TOKEN ch)) 0 (nr + 1) len ma mi) ob r
        (no_marks_set(DataHeaderField := Some (ch # r))))"
  using assms(2)
  by (elim insertE; simp add: assms TOKEN_plain [OF assms(1)] header_byte PARSING_HEADER_def byte_loop_PX
      byte_header_field_start_def byte_header_value_lws_def)

lemma name_state_first: "name_state [c] (first_header_state c) 0"
  by (simp add: name_state_def first_header_state_def)

lemma name_end:
  assumes "0 \<le> nr" and "nr < HTTP_MAX_HEADER_SIZE"
  shows "execute_from (event_settings step) (PX (HP me fl s_header_field h i nr len ma mi) ob (CHR '':'' # r)
        (no_marks_set(DataHeaderField := Some at))) =
      execute_from (event_settings step) (PX (HP me fl s_header_value_start h i (nr + 1) len ma mi) (step (OnHeaderField at) ob) r no_marks_set)"
  using assms
  by (simp add: header_byte PARSING_HEADER_def byte_loop_PX byte_header_field_def callback_at TOKEN_def is_digit_def NUL_def)


text \<open>A value that starts with a visible byte and has no line end in it, of a header that tells the parser nothing.\<close>

definition plain_value :: "string \<Rightarrow> bool" where
  "plain_value v \<longleftrightarrow> v \<noteq> [] \<and> hd v \<noteq> CHR '' '' \<and> hd v \<noteq> CHR_HT \<and> CHR_CR \<notin> set v \<and> CHR_LF \<notin> set v"

lemma value_space:
  assumes "0 \<le> nr" and "nr < HTTP_MAX_HEADER_SIZE"
  shows "execute_from S (PX (HP me fl s_header_value_start h i nr len ma mi) ob (CHR '' '' # r) m) =
      execute_from S (PX (HP me fl s_header_value_start h i (nr + 1) len ma mi) ob r m)"
  using assms by (simp add: header_byte PARSING_HEADER_def byte_loop_PX byte_header_value_start_def)

lemma value_bytes:
  assumes "CHR_CR \<notin> set v" and "CHR_LF \<notin> set v" and "0 \<le> nr" and "nr + int (length v) \<le> HTTP_MAX_HEADER_SIZE"
  shows "execute_from S (PX (HP me fl s_header_value h_general i nr len ma mi) ob (v @ r) m) =
      execute_from S (PX (HP me fl s_header_value h_general i (nr + int (length v)) len ma mi) ob r m)"
  using assms
proof (induction v arbitrary: nr)
  case (Cons ch v)
  have c: "ch \<noteq> CHR_CR" "ch \<noteq> CHR_LF" "nr < HTTP_MAX_HEADER_SIZE" using Cons.prems by auto
  have "execute_from S (PX (HP me fl s_header_value h_general i nr len ma mi) ob (ch # v @ r) m) =
      execute_from S (PX (HP me fl s_header_value h_general i (nr + 1) len ma mi) ob (v @ r) m)"
    using Cons.prems(3) c
    by (simp add: header_byte PARSING_HEADER_def byte_loop_PX byte_header_value_def header_value_byte_def)
  with Cons.IH [of "nr + 1"] Cons.prems show ?case by (simp add: add.assoc)
qed simp

lemma value_end:
  assumes "h \<notin> {h_connection_keep_alive, h_connection_close, h_transfer_encoding_chunked}"
    and "0 \<le> nr" and "nr + 2 \<le> HTTP_MAX_HEADER_SIZE" and "at = v @ CHR_CR # CHR_LF # r"
  shows "execute_from (event_settings step) (PX (HP me fl s_header_value h i nr len ma mi) ob (CHR_CR # CHR_LF # r)
        (no_marks_set(DataHeaderValue := Some at))) =
      execute_from (event_settings step) (PX (HP me fl s_header_value_lws h i (nr + 2) len ma mi) (step (OnHeaderValue v) ob) r no_marks_set)"
proof -
  have "execute_from (event_settings step) (PX (HP me fl s_header_value h i nr len ma mi) ob (CHR_CR # CHR_LF # r)
        (no_marks_set(DataHeaderValue := Some at))) =
      execute_from (event_settings step) (PX (HP me fl s_header_almost_done h i (nr + 1) len ma mi) (step (OnHeaderValue v) ob) (CHR_LF # r) no_marks_set)"
    using assms(2-4) by (simp add: header_byte PARSING_HEADER_def byte_loop_PX byte_header_value_def callback_at)
  moreover have e: "byte_header_almost_done CHR_LF (PX (HP me fl s_header_almost_done h i (2 + nr) len ma mi) (step (OnHeaderValue v) ob) p no_marks_set) =
      Continue (PX (HP me fl s_header_value_lws h i (2 + nr) len ma mi) (step (OnHeaderValue v) ob) p no_marks_set)" for p
    using assms(1) by (cases h; simp add: byte_header_almost_done_def STRICT_CHECK_def Let_def)
  moreover have "execute_from (event_settings step) (PX (HP me fl s_header_almost_done h i (nr + 1) len ma mi) (step (OnHeaderValue v) ob) (CHR_LF # r) no_marks_set) =
      execute_from (event_settings step) (PX (HP me fl s_header_value_lws h i (nr + 2) len ma mi) (step (OnHeaderValue v) ob) r no_marks_set)"
    using assms(2,3) by (simp add: header_byte PARSING_HEADER_def byte_loop_PX e add.commute [of nr])
  ultimately show ?thesis by simp
qed

lemma value_first:
  assumes "name_state pre h i" and "pre \<notin> framing_names"
    and "ch \<noteq> CHR '' ''" and "ch \<noteq> CHR_HT" and "ch \<noteq> CHR_CR" and "ch \<noteq> CHR_LF"
    and "0 \<le> nr" and "nr < HTTP_MAX_HEADER_SIZE"
  shows "execute_from S (PX (HP me fl s_header_value_start h i nr len ma mi) ob (ch # r) no_marks_set) =
      execute_from S (PX (HP me fl s_header_value h_general 0 (nr + 1) len ma mi) ob r (no_marks_set(DataHeaderValue := Some (ch # r))))"
proof -
  have "header_value_first ch (PX (HP me fl s_header_value h 0 (nr + 1) len ma mi) ob (ch # r) m) =
      Continue (PX (HP me fl s_header_value h_general 0 (nr + 1) len ma mi) ob (ch # r) m)" for m
    using assms(1,2) by (cases h; simp add: header_value_first_def name_state_def)
  with assms(3-) show ?thesis
    by (simp add: header_byte PARSING_HEADER_def byte_loop_PX byte_header_value_start_def)
qed

section \<open>Header lines\<close>

definition header_line :: "string \<times> string \<Rightarrow> string" where
  "header_line nv = fst nv @ '': '' @ snd nv @ [CHR_CR, CHR_LF]"

text \<open>A header whose name, in lower case, is none of those that say how the message is framed.\<close>

definition header_ok :: "string \<times> string \<Rightarrow> bool" where
  "header_ok nv \<longleftrightarrow> fst nv \<noteq> [] \<and> (\<forall>ch \<in> set (fst nv). TOKEN ch \<noteq> NUL) \<and> map TOKEN (fst nv) \<notin> framing_names \<and> plain_value (snd nv)"

fun is_header_event :: "parser_event \<Rightarrow> bool" where
  "is_header_event (OnHeaderField at) = True"
| "is_header_event (OnHeaderValue at) = True"
| "is_header_event _ = False"

lemma header_line_read:
  assumes "header_ok nv" and "s \<in> line_start" and "0 \<le> nr" and "nr + int (length (header_line nv)) \<le> HTTP_MAX_HEADER_SIZE"
  shows "execute_from (event_settings step) (PX (HP me fl s h i nr len ma mi) ob (header_line nv @ r) no_marks_set) =
    execute_from (event_settings step) (PX (HP me fl s_header_value_lws h_general 0 (nr + int (length (header_line nv))) len ma mi)
      (step (OnHeaderValue (snd nv)) (step (OnHeaderField (header_line nv @ r)) ob)) r no_marks_set)"
proof -
  let ?run = "\<lambda>s h i nr ob p m. execute_from (event_settings step) (PX (HP me fl s h i nr len ma mi) ob p m)"
  obtain c n where n: "fst nv = c # n" using assms(1) by (cases "fst nv") (auto simp: header_ok_def)
  obtain d v where v: "snd nv = d # v" using assms(1) by (cases "snd nv") (auto simp: header_ok_def plain_value_def)
  have c: "TOKEN c \<noteq> NUL" "\<forall>ch \<in> set n. TOKEN ch \<noteq> NUL" "TOKEN c # map TOKEN n \<notin> framing_names"
    and d: "d \<noteq> CHR '' ''" "d \<noteq> CHR_HT" "d \<noteq> CHR_CR" "d \<noteq> CHR_LF" "CHR_CR \<notin> set v" "CHR_LF \<notin> set v"
    using assms(1) n v by (auto simp: header_ok_def plain_value_def)
  have line: "header_line nv @ r = c # n @ CHR '':'' # CHR '' '' # d # v @ CHR_CR # CHR_LF # r" (is "_ = ?at")
    and k: "int (length (header_line nv)) = int (length n) + int (length v) + 6"
    using n v by (simp_all add: header_line_def)
  let ?field = "no_marks_set(DataHeaderField := Some ?at)" and ?k = "nr + 1 + int (length n)"
  have "?run s h i nr ob ?at no_marks_set =
      ?run s_header_field (first_header_state (TOKEN c)) 0 (nr + 1) ob (n @ CHR '':'' # CHR '' '' # d # v @ CHR_CR # CHR_LF # r) ?field"
    by (rule name_first) (use c assms(2-4) k in auto)
  moreover have "\<exists>h' i'. ?run s_header_field (first_header_state (TOKEN c)) 0 (nr + 1) ob
        (n @ CHR '':'' # CHR '' '' # d # v @ CHR_CR # CHR_LF # r) ?field =
      ?run s_header_field h' i' ?k ob (CHR '':'' # CHR '' '' # d # v @ CHR_CR # CHR_LF # r) ?field \<and>
      name_state ([TOKEN c] @ map TOKEN n) h' i'"
    by (rule name_bytes [OF name_state_first c(2)]) (use assms(3,4) k in auto)
  then obtain h' i' where 2: "?run s_header_field (first_header_state (TOKEN c)) 0 (nr + 1) ob
        (n @ CHR '':'' # CHR '' '' # d # v @ CHR_CR # CHR_LF # r) ?field =
      ?run s_header_field h' i' ?k ob (CHR '':'' # CHR '' '' # d # v @ CHR_CR # CHR_LF # r) ?field"
      "name_state (TOKEN c # map TOKEN n) h' i'"
    by (elim exE conjE) simp
  moreover have "?run s_header_field h' i' ?k ob (CHR '':'' # CHR '' '' # d # v @ CHR_CR # CHR_LF # r) ?field =
      ?run s_header_value_start h' i' (?k + 1) (step (OnHeaderField ?at) ob) (CHR '' '' # d # v @ CHR_CR # CHR_LF # r) no_marks_set"
    by (rule name_end) (use assms(3,4) k in auto)
  moreover have "?run s_header_value_start h' i' (?k + 1) (step (OnHeaderField ?at) ob) (CHR '' '' # d # v @ CHR_CR # CHR_LF # r) no_marks_set =
      ?run s_header_value_start h' i' (?k + 1 + 1) (step (OnHeaderField ?at) ob) (d # v @ CHR_CR # CHR_LF # r) no_marks_set"
    by (rule value_space) (use assms(3,4) k in auto)
  moreover let ?m = "no_marks_set(DataHeaderValue := Some (d # v @ CHR_CR # CHR_LF # r))"
  have "?run s_header_value_start h' i' (?k + 1 + 1) (step (OnHeaderField ?at) ob) (d # v @ CHR_CR # CHR_LF # r) no_marks_set =
      ?run s_header_value h_general 0 (?k + 1 + 1 + 1) (step (OnHeaderField ?at) ob) (v @ CHR_CR # CHR_LF # r) ?m"
    by (rule value_first [OF 2(2) c(3) d(1-4)]) (use assms(3,4) k in auto)
  moreover have "?run s_header_value h_general 0 (?k + 1 + 1 + 1) (step (OnHeaderField ?at) ob) (v @ CHR_CR # CHR_LF # r) ?m =
      ?run s_header_value h_general 0 (?k + 1 + 1 + 1 + int (length v)) (step (OnHeaderField ?at) ob) (CHR_CR # CHR_LF # r) ?m"
    by (rule value_bytes [OF d(5,6)]) (use assms(3,4) k in auto)
  moreover have "?run s_header_value h_general 0 (?k + 1 + 1 + 1 + int (length v)) (step (OnHeaderField ?at) ob) (CHR_CR # CHR_LF # r) ?m =
      ?run s_header_value_lws h_general 0 (?k + 1 + 1 + 1 + int (length v) + 2) (step (OnHeaderValue (snd nv)) (step (OnHeaderField ?at) ob)) r no_marks_set"
    by (rule value_end) (use assms(3,4) k v in auto)
  ultimately show ?thesis by (simp add: line k add_ac)
qed


lemma header_lines_read:
  assumes "\<forall>nv \<in> set nvs. header_ok nv" and "s \<in> line_start" and "0 \<le> nr"
    and "nr + int (length (concat (map header_line nvs))) \<le> HTTP_MAX_HEADER_SIZE"
  shows "\<exists>s' h' i' es. s' \<in> line_start \<and> (\<forall>e \<in> set es. is_header_event e) \<and>
    execute_from (event_settings step) (PX (HP me fl s h i nr len ma mi) ob (concat (map header_line nvs) @ r) no_marks_set) =
    execute_from (event_settings step) (PX (HP me fl s' h' i' (nr + int (length (concat (map header_line nvs)))) len ma mi)
      (fold step es ob) r no_marks_set)"
  using assms
proof (induction nvs arbitrary: s h i nr ob)
  case Nil
  then show ?case by (intro exI [of _ s] exI [of _ h] exI [of _ i] exI [of _ "[]"]) simp
next
  case (Cons nv nvs)
  let ?es = "[OnHeaderField (header_line nv @ concat (map header_line nvs) @ r), OnHeaderValue (snd nv)]"
  let ?k = "nr + int (length (header_line nv))"
  have 1: "execute_from (event_settings step) (PX (HP me fl s h i nr len ma mi) ob (header_line nv @ concat (map header_line nvs) @ r) no_marks_set) =
      execute_from (event_settings step) (PX (HP me fl s_header_value_lws h_general 0 ?k len ma mi) (fold step ?es ob)
        (concat (map header_line nvs) @ r) no_marks_set)"
    by (simp only: fold_simps comp_apply id_apply, rule header_line_read) (use Cons.prems in auto)
  have "\<exists>s' h' i' es. s' \<in> line_start \<and> (\<forall>e \<in> set es. is_header_event e) \<and>
      execute_from (event_settings step) (PX (HP me fl s_header_value_lws h_general 0 ?k len ma mi) (fold step ?es ob)
        (concat (map header_line nvs) @ r) no_marks_set) =
      execute_from (event_settings step) (PX (HP me fl s' h' i' (?k + int (length (concat (map header_line nvs)))) len ma mi)
        (fold step es (fold step ?es ob)) r no_marks_set)"
    by (rule Cons.IH) (use Cons.prems in auto)
  then obtain s' h' i' es where 2: "s' \<in> line_start" "\<forall>e \<in> set es. is_header_event e"
      "execute_from (event_settings step) (PX (HP me fl s_header_value_lws h_general 0 ?k len ma mi) (fold step ?es ob)
        (concat (map header_line nvs) @ r) no_marks_set) =
      execute_from (event_settings step) (PX (HP me fl s' h' i' (?k + int (length (concat (map header_line nvs)))) len ma mi)
        (fold step es (fold step ?es ob)) r no_marks_set)"
    by (elim exE conjE)
  have "execute_from (event_settings step) (PX (HP me fl s h i nr len ma mi) ob (concat (map header_line (nv # nvs)) @ r) no_marks_set) =
      execute_from (event_settings step) (PX (HP me fl s' h' i' (nr + int (length (concat (map header_line (nv # nvs))))) len ma mi)
        (fold step (?es @ es) ob) r no_marks_set)"
    using 1 2(3) by (simp add: add.assoc)
  then show ?case
    using 2(1,2) by (intro exI [of _ s'] exI [of _ h'] exI [of _ i'] exI [of _ "?es @ es"]) simp
qed

section \<open>Content-Length\<close>

lemma content_length_tokens:
  "TOKEN (CHR ''C'') = CHR ''c''" "TOKEN (CHR ''o'') = CHR ''o''" "TOKEN (CHR ''n'') = CHR ''n''" "TOKEN (CHR ''t'') = CHR ''t''"
  "TOKEN (CHR ''e'') = CHR ''e''" "TOKEN (CHR ''-'') = CHR ''-''" "TOKEN (CHR ''L'') = CHR ''l''" "TOKEN (CHR ''g'') = CHR ''g''"
  "TOKEN (CHR ''h'') = CHR ''h''" "TOKEN (CHR '':'') = NUL"
  by code_simp+

lemmas eval_name = header_byte PARSING_HEADER_def byte_loop_PX header_byte_defs header_field_token_def match_word_def
  next_header_def first_header_state_def char_at_def content_length_tokens NUL_def callback_at Let_def HTTP_MAX_HEADER_SIZE_def

lemma content_length_name:
  assumes "s \<in> line_start" and "0 \<le> nr" and "nr + 16 \<le> HTTP_MAX_HEADER_SIZE"
  shows "execute_from (event_settings step) (PX (HP me fl s h i nr len ma mi) ob (''Content-Length: '' @ r) no_marks_set) =
    execute_from (event_settings step) (PX (HP me fl s_header_value_start h_content_length 13 (nr + 16) len ma mi)
      (step (OnHeaderField (''Content-Length: '' @ r)) ob) r no_marks_set)"
  using assms by (elim insertE; simp add: eval_name add.commute [of nr])

lemma content_length_digit_read:
  assumes "d < 10" and "10 * v + int d < ULLONG_MAX" and "0 \<le> v" and "0 \<le> nr" and "nr < HTTP_MAX_HEADER_SIZE"
  shows "execute_from S (PX (HP me fl s_header_value h_content_length i nr v ma mi) ob (digit_char d # r) m) =
    execute_from S (PX (HP me fl s_header_value h_content_length i (nr + 1) (10 * v + int d) ma mi) ob r m)"
proof -
  have "is_digit (digit_char d)" "digit_val (digit_char d) = d" using assms(1) by simp_all
  moreover have "digit_char d \<noteq> CHR '' ''" "digit_char d \<noteq> CHR_CR" "digit_char d \<noteq> CHR_LF"
    using calculation(1) by (auto simp: is_digit_def)
  moreover have "more_digits 10 v (int d) = Some (10 * v + int d)"
    using assms(2,3) by (simp add: more_digits_def ULLONG_MAX_def Let_def mult.commute)
  ultimately show ?thesis
    using assms(4,5)
    by (simp add: header_byte PARSING_HEADER_def byte_loop_PX byte_header_value_def header_value_byte_def content_length_digit_def)
qed

lemma content_length_first_digit:
  assumes "d < 10" and "0 \<le> nr" and "nr < HTTP_MAX_HEADER_SIZE"
  shows "execute_from S (PX (HP me fl s_header_value_start h_content_length i nr v ma mi) ob (digit_char d # r) no_marks_set) =
    execute_from S (PX (HP me fl s_header_value h_content_length 0 (nr + 1) (int d) ma mi) ob r
      (no_marks_set(DataHeaderValue := Some (digit_char d # r))))"
proof -
  have "is_digit (digit_char d)" "digit_val (digit_char d) = d" using assms(1) by simp_all
  moreover have "digit_char d \<noteq> CHR '' ''" "digit_char d \<noteq> CHR_HT" "digit_char d \<noteq> CHR_CR" "digit_char d \<noteq> CHR_LF"
    using calculation(1) by (auto simp: is_digit_def)
  ultimately show ?thesis
    using assms(2,3)
    by (simp add: header_byte PARSING_HEADER_def byte_loop_PX byte_header_value_start_def header_value_first_def)
qed

lemma content_length_digits:
  assumes "int n < ULLONG_MAX" and "0 \<le> nr" and "nr + int (length (show_nat n)) \<le> HTTP_MAX_HEADER_SIZE"
  shows "execute_from S (PX (HP me fl s_header_value_start h_content_length i nr v ma mi) ob (show_nat n @ r) no_marks_set) =
    execute_from S (PX (HP me fl s_header_value h_content_length 0 (nr + int (length (show_nat n))) (int n) ma mi) ob r
      (no_marks_set(DataHeaderValue := Some (show_nat n @ r))))"
  using assms
proof (induction n arbitrary: r rule: show_nat.induct)
  case (1 n)
  show ?case
  proof (cases "n < 10")
    case True
    then have s: "show_nat n = [digit_char n]" by (subst show_nat.simps) simp
    with 1(4) have "nr < HTTP_MAX_HEADER_SIZE" by simp
    from content_length_first_digit [OF True 1(3) this] show ?thesis by (simp add: s del: fun_upd_apply)
  next
    case False
    then have s: "show_nat n = show_nat (n div 10) @ [digit_char (n mod 10)]" by (subst show_nat.simps) simp
    have n: "10 * int (n div 10) + int (n mod 10) = int n" by (simp add: zdiv_int zmod_int)
    have l: "int (length (show_nat n)) = int (length (show_nat (n div 10))) + 1" by (simp add: s)
    let ?at = "show_nat (n div 10) @ digit_char (n mod 10) # r" and ?k = "nr + int (length (show_nat (n div 10)))"
    have "execute_from S (PX (HP me fl s_header_value_start h_content_length i nr v ma mi) ob ?at no_marks_set) =
        execute_from S (PX (HP me fl s_header_value h_content_length 0 ?k (int (n div 10)) ma mi) ob (digit_char (n mod 10) # r)
          (no_marks_set(DataHeaderValue := Some ?at)))"
      by (rule 1(1)) (use False 1(2-4) l n in auto)
    also have "\<dots> = execute_from S (PX (HP me fl s_header_value h_content_length 0 (?k + 1) (10 * int (n div 10) + int (n mod 10)) ma mi) ob r
          (no_marks_set(DataHeaderValue := Some ?at)))"
      by (rule content_length_digit_read) (use 1(2-4) l n in auto)
    finally show ?thesis unfolding n l by (simp add: s add.assoc del: fun_upd_apply)
  qed
qed


lemma content_length_line:
  assumes "s \<in> line_start" and "0 \<le> nr" and "int n < ULLONG_MAX"
    and "at = ''Content-Length: '' @ show_nat n @ CHR_CR # CHR_LF # r" and "nr + int (length (show_nat n)) + 18 \<le> HTTP_MAX_HEADER_SIZE"
  shows "execute_from (event_settings step) (PX (HP me fl s h i nr len ma mi) ob at no_marks_set) =
    execute_from (event_settings step) (PX (HP me fl s_header_value_lws h_content_length 0 (nr + int (length (show_nat n)) + 18) (int n) ma mi)
      (fold step [OnHeaderField at, OnHeaderValue (show_nat n)] ob) r no_marks_set)"
proof -
  let ?run = "\<lambda>s h i nr len ob p m. execute_from (event_settings step) (PX (HP me fl s h i nr len ma mi) ob p m)"
  let ?v = "show_nat n @ CHR_CR # CHR_LF # r" and ?m = "no_marks_set(DataHeaderValue := Some (show_nat n @ CHR_CR # CHR_LF # r))"
  have "?run s h i nr len ob at no_marks_set = ?run s_header_value_start h_content_length 13 (nr + 16) len (step (OnHeaderField at) ob) ?v no_marks_set"
    unfolding assms(4) by (rule content_length_name) (use assms in auto)
  also have "\<dots> = ?run s_header_value h_content_length 0 (nr + 16 + int (length (show_nat n))) (int n) (step (OnHeaderField at) ob) (CHR_CR # CHR_LF # r) ?m"
    by (rule content_length_digits) (use assms in auto)
  also have "\<dots> = ?run s_header_value_lws h_content_length 0 (nr + 16 + int (length (show_nat n)) + 2) (int n)
      (step (OnHeaderValue (show_nat n)) (step (OnHeaderField at) ob)) r no_marks_set"
    by (rule value_end) (use assms in auto)
  finally show ?thesis by (simp add: add_ac)
qed

section \<open>The end of the header and the body\<close>

lemma blank_line:
  assumes "s \<in> line_start" and "me \<noteq> HTTP_CONNECT" and "0 \<le> nr" and "nr + 2 \<le> HTTP_MAX_HEADER_SIZE"
  shows "execute_from (event_settings step) (PX (HP me {} s h i nr len 1 1) ob (CHR_CR # CHR_LF # r) no_marks_set) =
    execute_from (event_settings step)
      (if len = 0 \<or> len = ULLONG_MAX
       then PX (HP me {} s_start_req h i 0 len 1 1) (fold step [OnHeadersComplete (nat nr + 2) len, OnMessageComplete] ob) r no_marks_set
       else PX (HP me {} s_body_identity h i 0 len 1 1) (step (OnHeadersComplete (nat nr + 2) len) ob) r no_marks_set)"
proof -
  have "nat (nr + 2) = nat nr + 2" using assms(3) by simp
  with assms show ?thesis
    by (elim insertE; simp add: header_byte PARSING_HEADER_def byte_loop_PX byte_header_field_start_def byte_header_value_lws_def
        byte_headers_almost_done_def byte_headers_done_def STRICT_CHECK_def Let_def NEW_MESSAGE_def start_state_def
        http_should_keep_alive_def http_message_needs_eof_def add.commute [of nr])
qed

lemma body_byte:
  "\<not> PARSING_HEADER (hp_state a) \<Longrightarrow> execute_from S (PX a ob (ch # r) m) =
    (case byte_loop S ch (PX a ob (ch # r) m) of Continue y \<Rightarrow> execute_from S (y\<lparr>px_p := tl (px_p y)\<rparr>) | q \<Rightarrow> q)"
  by (subst execute_from.simps) (simp add: count_byte_def header_overflow_def split: byte_result.split)

lemma body_read:
  assumes "body \<noteq> []" and "int (length body) < ULLONG_MAX"
  shows "execute_from (event_settings step) (PX (HP me {} s_body_identity h i 0 (int (length body)) 1 1) ob (body @ r) no_marks_set) =
    execute_from (event_settings step) (PX (HP me {} s_start_req h i 0 0 1 1) (fold step [OnBody body, OnMessageComplete] ob) r no_marks_set)"
proof -
  obtain c b where b: "body = c # b" using assms(1) by (cases body) auto
  obtain b' l where "body = b' @ [l]" using assms(1) by (cases body rule: rev_cases) auto
  then have *: "c # b @ r = b' @ l # r" "length b = length b'"
    by (simp_all add: b) (metis b length_Cons length_append_singleton nat.inject)
  have d: "drop (length b) (c # b @ r) = l # r" unfolding * by simp
  show ?thesis
    using assms(2) d
    by (simp add: b body_byte PARSING_HEADER_def byte_loop_PX byte_body_identity_def byte_message_done_def assert_then_def
        NEW_MESSAGE_def start_state_def http_should_keep_alive_def http_message_needs_eof_def Let_def min_def nat_add_distrib)
qed


section \<open>A whole request\<close>

definition request_text :: "http_method \<Rightarrow> string \<Rightarrow> (string \<times> string) list \<Rightarrow> string \<Rightarrow> string" where
  "request_text me url headers body =
     method_strings me @ '' '' @ url @ '' HTTP/1.1'' @ [CHR_CR, CHR_LF] @ concat (map header_line headers) @
     ''Content-Length: '' @ show_nat (length body) @ [CHR_CR, CHR_LF] @ [CHR_CR, CHR_LF] @ body"

definition request_ok :: "http_method \<Rightarrow> string \<Rightarrow> (string \<times> string) list \<Rightarrow> string \<Rightarrow> bool" where
  "request_ok me url headers body \<longleftrightarrow>
     me \<noteq> HTTP_CONNECT \<and> me \<noteq> HTTP_MSEARCH \<and> url_ok url \<and> (\<forall>nv \<in> set headers. header_ok nv) \<and>
     int (length (request_text me url headers body)) \<le> HTTP_MAX_HEADER_SIZE + int (length body) \<and>
     int (length body) < ULLONG_MAX"

lemma execute_from_end [simp]: "execute_from S (PX a ob [] m) = Continue (PX a ob [] m)"
  by (subst execute_from.simps) simp

lemma body_events:
  assumes "int (length body) < ULLONG_MAX" and "s \<in> line_start" and "me \<noteq> HTTP_CONNECT" and "0 \<le> nr" and "nr + 2 \<le> HTTP_MAX_HEADER_SIZE"
  shows "\<exists>es y. execute_from (event_settings step)
        (PX (HP me {} s h i nr (int (length body)) 1 1) ob (CHR_CR # CHR_LF # body) no_marks_set) = Continue y \<and>
      y = PX (HP me {} s_start_req h i 0 0 1 1) (fold step es (step (OnHeadersComplete (nat nr + 2) (int (length body))) ob)) [] no_marks_set \<and>
      set es \<subseteq> {OnBody body, OnMessageComplete} \<and> OnMessageComplete \<in> set es \<and> concat (map body_part es) = body"
proof (cases "body = []")
  case True
  then show ?thesis
    using blank_line [OF assms(2-5), where r = "[]" and len = 0 and step = step and h = h and i = i and ob = ob]
    by (intro exI [of _ "[OnMessageComplete]"]) simp
next
  case False
  then have n: "int (length body) \<noteq> 0" "int (length body) \<noteq> ULLONG_MAX" using assms(1) by auto
  show ?thesis
    using blank_line [OF assms(2-5), where r = body and len = "int (length body)" and step = step and h = h and i = i and ob = ob]
      body_read [OF False assms(1), where r = "[]" and step = step and h = h and i = i and me = me] n
    by (intro exI [of _ "[OnBody body, OnMessageComplete]"]) simp
qed

lemma first_line:
  assumes "request_ok me url headers body"
  shows "execute_from (event_settings step) (PX (http_parser_init HTTP_REQUEST) ob (request_text me url headers body) no_marks_set) =
    execute_from (event_settings step)
      (PX (HP me {} s_header_field_start h_general (length (method_strings me) + 1)
            (int (length (method_strings me)) + int (length url) + 12) ULLONG_MAX 1 1)
        (step (OnUrl url) ob)
        (concat (map header_line headers) @ ''Content-Length: '' @ show_nat (length body) @ [CHR_CR, CHR_LF] @ [CHR_CR, CHR_LF] @ body)
        no_marks_set)" (is "?run = ?goal")
proof -
  let ?r = "concat (map header_line headers) @ ''Content-Length: '' @ show_nat (length body) @ [CHR_CR, CHR_LF] @ [CHR_CR, CHR_LF] @ body"
  let ?k = "int (length (method_strings me)) + 1"
  have l: "?k + int (length url) + 11 \<le> HTTP_MAX_HEADER_SIZE" and ok: "url_ok url" "me \<noteq> HTTP_CONNECT" "me \<noteq> HTTP_MSEARCH"
    using assms by (auto simp: request_ok_def request_text_def)
  have "request_text me url headers body = method_strings me @ CHR '' '' # url @ CHR '' '' # ''HTTP/1.1'' @ CHR_CR # CHR_LF # ?r"
    by (simp add: request_text_def)
  then have "?run = execute_from (event_settings step)
      (PX (HP me {} s_req_spaces_before_url h_general (length (method_strings me) + 1) ?k ULLONG_MAX 0 0) ob
        (url @ CHR '' '' # ''HTTP/1.1'' @ CHR_CR # CHR_LF # ?r) no_marks_set)"
    by (simp only: method_bytes [OF ok(2,3)])
  also have "\<dots> = execute_from (event_settings step)
      (PX (HP me {} s_req_http_start h_general (length (method_strings me) + 1) (?k + int (length url) + 1) ULLONG_MAX 0 0)
        (step (OnUrl url) ob) (''HTTP/1.1'' @ CHR_CR # CHR_LF # ?r) no_marks_set)"
    by (rule request_url [OF ok(1,2)]) (use l in auto)
  also have "\<dots> = execute_from (event_settings step)
      (PX (HP me {} s_header_field_start h_general (length (method_strings me) + 1) (10 + (?k + int (length url) + 1)) ULLONG_MAX 1 1)
        (step (OnUrl url) ob) ?r no_marks_set)"
    by (rule request_version) (use l in auto)
  finally show ?thesis by (simp add: add_ac)
qed


lemma fold_noting [simp]: "fold (\<lambda>e es. es @ [e]) L es = es @ L"
  by (induction L arbitrary: es) auto

lemma parser_events_from:
  assumes "execute_from (event_settings (\<lambda>e es. es @ [e])) (PX (http_parser_init HTTP_REQUEST) [] buf no_marks_set) =
      Continue (PX a es [] no_marks_set)" and "hp_errno a = HPE_OK" and "buf \<noteq> []"
  shows "parser_events buf = Some es"
proof -
  have "first_marks (hp_state (http_parser_init HTTP_REQUEST)) buf = no_marks_set"
    by (simp add: first_marks_def http_parser_init_def fun_eq_iff)
  moreover have "hp_errno (http_parser_init HTTP_REQUEST) = HPE_OK" by (simp add: http_parser_init_def)
  ultimately show ?thesis
    using assms
    by (simp add: parser_events_def http_parser_execute_def leftover_def marks_set_def assert_then_def callback_at
        CALLBACK_DATA_AT_def Let_def)
qed

lemma request_events:
  assumes "request_ok me url headers body"
  shows "\<exists>hes bes. parser_events (request_text me url headers body) =
        Some (OnUrl url # hes @ OnHeadersComplete (length (request_text me url headers body) - length body) (int (length body)) # bes) \<and>
      (\<forall>e \<in> set hes. is_header_event e) \<and> set bes \<subseteq> {OnBody body, OnMessageComplete} \<and> OnMessageComplete \<in> set bes \<and>
      concat (map body_part bes) = body"
proof -
  let ?text = "request_text me url headers body" and ?S = "event_settings (\<lambda>e es. es @ [e])"
  let ?h = "concat (map header_line headers)" and ?n = "show_nat (length body)"
  let ?k = "int (length (method_strings me)) + int (length url) + 12" and ?r = "[CHR_CR, CHR_LF] @ body"
  let ?cl = "''Content-Length: '' @ ?n @ CHR_CR # CHR_LF # CHR_CR # CHR_LF # body"
  have ok: "\<forall>nv \<in> set headers. header_ok nv" "me \<noteq> HTTP_CONNECT" "int (length body) < ULLONG_MAX"
    and l: "?k + int (length ?h) + int (length ?n) + 20 \<le> HTTP_MAX_HEADER_SIZE"
    using assms by (auto simp: request_ok_def request_text_def)
  obtain i where 1: "execute_from ?S (PX (http_parser_init HTTP_REQUEST) [] ?text no_marks_set) =
      execute_from ?S (PX (HP me {} s_header_field_start h_general i ?k ULLONG_MAX 1 1) [OnUrl url] (?h @ ?cl) no_marks_set)"
    using first_line [OF assms, of "\<lambda>e es. es @ [e]" "[]"] by simp
  have "\<exists>s' h' i' es. s' \<in> line_start \<and> (\<forall>e \<in> set es. is_header_event e) \<and>
      execute_from ?S (PX (HP me {} s_header_field_start h_general i ?k ULLONG_MAX 1 1) [OnUrl url] (?h @ ?cl) no_marks_set) =
      execute_from ?S (PX (HP me {} s' h' i' (?k + int (length ?h)) ULLONG_MAX 1 1) (fold (\<lambda>e es. es @ [e]) es [OnUrl url]) ?cl no_marks_set)"
    by (rule header_lines_read [OF ok(1)]) (use l in auto)
  then obtain s' h' i' hes where 2: "s' \<in> line_start" "\<forall>e \<in> set hes. is_header_event e"
      "execute_from ?S (PX (HP me {} s_header_field_start h_general i ?k ULLONG_MAX 1 1) [OnUrl url] (?h @ ?cl) no_marks_set) =
      execute_from ?S (PX (HP me {} s' h' i' (?k + int (length ?h)) ULLONG_MAX 1 1) (fold (\<lambda>e es. es @ [e]) hes [OnUrl url]) ?cl no_marks_set)"
    by (elim exE conjE)
  let ?c = "[OnHeaderField ?cl, OnHeaderValue ?n]" and ?e = "?k + int (length ?h) + int (length ?n) + 18"
  have 3: "execute_from ?S (PX (HP me {} s' h' i' (?k + int (length ?h)) ULLONG_MAX 1 1) (fold (\<lambda>e es. es @ [e]) hes [OnUrl url]) ?cl no_marks_set) =
      execute_from ?S (PX (HP me {} s_header_value_lws h_content_length 0 ?e (int (length body)) 1 1)
        (fold (\<lambda>e es. es @ [e]) ?c (fold (\<lambda>e es. es @ [e]) hes [OnUrl url])) (CHR_CR # CHR_LF # body) no_marks_set)"
    by (rule content_length_line) (use 2(1) l ok in auto)
  obtain bes y where 4: "execute_from ?S (PX (HP me {} s_header_value_lws h_content_length 0 ?e (int (length body)) 1 1)
        (fold (\<lambda>e es. es @ [e]) ?c (fold (\<lambda>e es. es @ [e]) hes [OnUrl url])) (CHR_CR # CHR_LF # body) no_marks_set) = Continue y"
      "y = PX (HP me {} s_start_req h_content_length 0 0 0 1 1)
        (OnUrl url # hes @ ?c @ OnHeadersComplete (nat ?e + 2) (int (length body)) # bes) [] no_marks_set"
      "set bes \<subseteq> {OnBody body, OnMessageComplete}" "OnMessageComplete \<in> set bes" "concat (map body_part bes) = body"
    using body_events [OF ok(3), of s_header_value_lws me ?e "\<lambda>e es. es @ [e]" h_content_length 0 "OnUrl url # hes @ ?c"] ok(2) l
    by auto
  have "nat ?e + 2 = length ?text - length body" by (simp add: request_text_def)
  moreover have "parser_events ?text = Some (OnUrl url # hes @ ?c @ OnHeadersComplete (nat ?e + 2) (int (length body)) # bes)"
    by (rule parser_events_from [where a = "HP me {} s_start_req h_content_length 0 0 0 1 1"])
       (simp_all only: 1 2(3) 3 4(1,2) http_parser.simps, simp add: request_text_def)
  ultimately show ?thesis
    using 2(2) 4 by (intro exI [of _ "hes @ ?c"] exI [of _ bes]) simp
qed


lemma header_events_quiet:
  assumes "\<forall>e \<in> set es. is_header_event e"
  shows "concat (map url_part es) = []" "concat (map body_part es) = []" "OnMessageComplete \<notin> set es"
    and "total_length (fold wrapper_step es w) = total_length w"
proof -
  have e: "url_part e = [] \<and> body_part e = [] \<and> e \<noteq> OnMessageComplete \<and> total_length (wrapper_step e w) = total_length w"
    if "is_header_event e" for e w
    using that by (cases e) (simp_all add: on_header_field_def on_header_value_def)
  show "concat (map url_part es) = []" "concat (map body_part es) = []" "OnMessageComplete \<notin> set es"
    using assms e by auto
  show "total_length (fold wrapper_step es w) = total_length w"
    using assms e by (induction es arbitrary: w) auto
qed

lemma body_events_quiet:
  assumes "set es \<subseteq> {OnBody body, OnMessageComplete}"
  shows "concat (map url_part es) = []" "total_length (fold wrapper_step es w) = total_length w"
  using assms by (induction es arbitrary: w) auto

lemma u32_add_low: "u32 (n + nat (int l mod 2 ^ 32)) = u32 (n + l)"
proof -
  have "nat (int l mod 2 ^ 32) = l mod 2 ^ 32" by (simp add: nat_mod_distrib)
  then show ?thesis by (simp only: u32_def mod_add_right_eq)
qed

lemma request_parsed:
  assumes "request_ok me url headers body"
  shows "\<exists>w. ParseHttpContent (request_text me url headers body) = Some w \<and> pw_url w = url \<and> nul_free url \<and> body_content w = body \<and>
    pw_read_all w \<and> total_length w = u32 (length (request_text me url headers body))"
proof -
  let ?text = "request_text me url headers body" and ?n = "length (request_text me url headers body) - length body"
  obtain hes bes where es: "parser_events ?text = Some (OnUrl url # hes @ OnHeadersComplete ?n (int (length body)) # bes)"
      "\<forall>e \<in> set hes. is_header_event e" "set bes \<subseteq> {OnBody body, OnMessageComplete}" "OnMessageComplete \<in> set bes"
      "concat (map body_part bes) = body"
    using request_events [OF assms] by blast
  let ?w = "fold wrapper_step (OnUrl url # hes @ OnHeadersComplete ?n (int (length body)) # bes) wrapper_reset"
  have "url_ok url" using assms by (simp add: request_ok_def)
  moreover have "\<not> IS_URL_CHAR NUL" "NUL \<noteq> CHR ''/''" "NUL \<noteq> CHR ''?''" by (simp_all add: IS_URL_CHAR_def NUL_def)
  ultimately have nul: "nul_free url" by (auto simp: nul_free_def url_ok_def)
  have "pw_url ?w = url" "body_content ?w = body" "pw_read_all ?w"
    using header_events_quiet(1-3) [OF es(2)] body_events_quiet(1) [OF es(3)] es(4,5)
    by (simp_all add: fold_wrapper_fields wrapper_reset_def del: concat_eq_Nil_conv)
  moreover have "total_length ?w = u32 (?n + nat (int (length body) mod 2 ^ 32))"
    using body_events_quiet(2) [OF es(3)] header_events_quiet(4) [OF es(2)] by simp
  moreover have "?n + length body = length ?text" by (simp add: request_text_def)
  ultimately have "pw_url ?w = url \<and> body_content ?w = body \<and> pw_read_all ?w \<and> total_length ?w = u32 (length ?text)"
    by (simp only: u32_add_low)
  then show ?thesis
    by (intro exI [of _ ?w]) (simp only: ParseHttpContent_events es(1) option.map nul simp_thms)
qed

text \<open>
  C5. The server reads a request as it is meant: for every method but CONNECT and M-SEARCH, every
  URL of a path and a query, every list of headers that do not frame the message and every body, the
  text of the request is parsed to its end, the wrapper holds exactly the URL and the body, it says
  that the request is complete, and its total length is the length of the text.
\<close>

theorem ParseHttpContent_request:
  assumes "request_ok me url headers body"
  shows "\<exists>w. ParseHttpContent (request_text me url headers body) = Some w \<and> GetUrl w = url \<and> body_content w = body \<and>
    pw_read_all w \<and> total_length w = u32 (length (request_text me url headers body))"
  using request_parsed [OF assms] by (auto simp: GetUrl_def)

theorem ParseHttpContent_request_witness:
  "\<exists>w. ParseHttpContent (request_text HTTP_POST ''/api/login?n=1'' [(''Host'', ''a.b:80''), (''User-Agent'', ''c'')] ''{}'') = Some w \<and>
     GetUrl w = ''/api/login?n=1'' \<and> body_content w = ''{}'' \<and> pw_read_all w \<and>
     total_length w = u32 (length (request_text HTTP_POST ''/api/login?n=1'' [(''Host'', ''a.b:80''), (''User-Agent'', ''c'')] ''{}''))"
proof (rule ParseHttpContent_request)
  have "url_ok ''/api/login?n=1''"
    by (simp add: url_ok_def IS_URL_CHAR_def)
  moreover have "header_ok (''Host'', ''a.b:80'')" "header_ok (''User-Agent'', ''c'')" by code_simp+
  ultimately show "request_ok HTTP_POST ''/api/login?n=1'' [(''Host'', ''a.b:80''), (''User-Agent'', ''c'')] ''{}''"
    by (simp add: request_ok_def request_text_def header_line_def HTTP_MAX_HEADER_SIZE_def ULLONG_MAX_def show_nat.simps)
qed

section \<open>What is not read as it is meant\<close>

text \<open>M-SEARCH is refused, as the name of the method is M - SEARCH for the parser.\<close>

lemma M_SEARCH_refused:
  "\<exists>p. execute_from (event_settings step) (PX (http_parser_init HTTP_REQUEST) ob (''M-SEARCH '' @ r) m) = ReturnAt p \<and>
     hp_errno (px_parser p) = HPE_INVALID_METHOD"
  by (simp add: eval_bytes other_method_def http_parser_init_def goto_error_def)

lemma M_SEARCH_spelling:
  "execute_from (event_settings step) (PX (http_parser_init HTTP_REQUEST) ob (''M-- SEARCH '' @ r) m) =
    execute_from (event_settings step) (PX (HP HTTP_MSEARCH {} s_req_spaces_before_url h_general 11 11 ULLONG_MAX 0 0) ob r m)"
  by (simp add: eval_bytes other_method_def http_parser_init_def)

text \<open>A Content-Length of 3 * 10^19, which has no place in 64 bits, is taken for another number.\<close>

lemma more_digits_wraps: "more_digits 10 3000000000000000000 0 = Some 11553255926290448384"
  by (simp add: more_digits_def ULLONG_MAX_def)

end
