(* ===== verification/Request_Dispatch.thy ===== *)
theory Request_Dispatch
  imports Http_Conn Http_Request
begin

text \<open>
  From the bytes of a client to the handler: the read loop and the dispatch of the theory Http_Conn
  over what the theory Http_Request says of the parser.
\<close>

lemma short_request_ok:
  assumes "me \<noteq> HTTP_CONNECT" and "me \<noteq> HTTP_MSEARCH" and "url_ok url" and "\<forall>nv \<in> set headers. header_ok nv"
    and "length (request_text me url headers body) \<le> 2048"
  shows "request_ok me url headers body"
proof -
  have "length body \<le> length (request_text me url headers body)" by (simp add: request_text_def)
  with assms show ?thesis by (simp add: request_ok_def HTTP_MAX_HEADER_SIZE_def ULLONG_MAX_def)
qed

text \<open>
  C4. A request reaches its handler: whatever the pieces in which the client sends the text of a
  request of at most 2048 bytes, when the socket has run dry the read event has become exactly the
  run of the handler of the route, on the URL and the body the client wrote (up to a NUL byte in the
  body, where the C string ends); before it runs nothing but the connection object has changed in the
  tables of the connections.
\<close>

theorem CHttpConn_OnRead_dispatches:
  assumes feeds: "feeds E (m_sock_handle conn) w cs w1" and conn: "http_heap s c = Some conn" "buffer_ok (in_buf conn)"
    and bytes: "sb_data (in_buf conn) @ concat cs = request_text me url headers body"
      "length (request_text me url headers body) \<le> 2048" and fuel: "length cs < fuel"
    and ok: "me \<noteq> HTTP_CONNECT" "me \<noteq> HTTP_MSEARCH" "url_ok url" "\<forall>nv \<in> set headers. header_ok nv"
    and route: "is_prefix (route_path r) url"
  shows "\<exists>s1 conn1. run E (CHttpConn_OnRead fuel c) s w =
      run E (bindp (handle_request c r url (c_str body)) (\<lambda>_. Ret (Some ()))) s1 w1 \<and> http_heap s1 c = Some conn1 \<and>
    conn_handle conn1 = conn_handle conn \<and> hc_uuid conn1 = hc_uuid conn \<and> m_sock_handle conn1 = m_sock_handle conn \<and>
    ref_count conn1 = ref_count conn \<and> g_http_conn_map s1 = g_http_conn_map s \<and> g_uuid_conn_map s1 = g_uuid_conn_map s"
proof -
  let ?text = "request_text me url headers body"
  have l: "length (sb_data (in_buf conn)) + length (concat cs) = length ?text"
    unfolding bytes(1) [symmetric] by simp
  then have small: "length (sb_data (in_buf conn)) + length (concat cs) < 2 ^ 30" using bytes(2) by simp
  obtain s1 conn1 where read: "run E (recv_loop fuel c) s w = (Done True, s1, w1)" "http_heap s1 c = Some conn1"
      "sb_data (in_buf conn1) = sb_data (in_buf conn) @ concat cs" "length (sb_data (in_buf conn1)) < sb_alloc (in_buf conn1)"
      "conn_handle conn1 = conn_handle conn" "hc_uuid conn1 = hc_uuid conn" "m_sock_handle conn1 = m_sock_handle conn"
      "ref_count conn1 = ref_count conn" "g_http_conn_map s1 = g_http_conn_map s" "g_uuid_conn_map s1 = g_uuid_conn_map s"
    using recv_loop_collects [OF feeds conn(1) refl conn(2) small fuel] by blast
  have "request_ok me url headers body" by (rule short_request_ok [OF ok bytes(2)])
  then obtain p where p: "ParseHttpContent ?text = Some p" "pw_url p = url" "nul_free url" "body_content p = body" "pw_read_all p"
    using request_parsed by blast
  let ?conn = "conn1\<lparr>http_parser := p\<rparr>"
  have r: "route_of url = Some r" by (rule route_of_path) (simp add: route p(3))
  have "run E (on_request c) s1 w1 = run E (handle_request c r url (c_str body)) (put_http_conn c (Some ?conn) s1) w1"
    using read(2-4) p bytes(2) r unfolding bytes(1)
    by (simp add: on_request_def run_the_http_conn run_set_http_conn GetUrl_def GetBodyContent_def)
  then have "run E (CHttpConn_OnRead fuel c) s w =
      run E (bindp (handle_request c r url (c_str body)) (\<lambda>_. Ret (Some ()))) (put_http_conn c (Some ?conn) s1) w1"
    using read(1) by (simp add: CHttpConn_OnRead_def)
  then show ?thesis
    using read by (intro exI [of _ "put_http_conn c (Some ?conn) s1"] exI [of _ ?conn]) (simp add: put_http_conn_def)
qed

text \<open>A client that sends its request in the pieces the world still holds.\<close>

definition client_env :: "string list env" where
  "client_env =
     \<lparr>env_mysql_connect = (\<lambda>w ps. (Connected, w)), env_mysql = (\<lambda>w q. (QueryFailed, w)),
      env_stmt = (\<lambda>w q ps. (Executed 1 1, w)), env_redis_connect = (\<lambda>w h p. (True, w)),
      env_redis = (\<lambda>w c. (None, w)),
      env_os = (\<lambda>w c. case c of OsRecv h \<Rightarrow> (case w of [] \<Rightarrow> (\<lparr>os_int = 0, os_str = []\<rparr>, [])
                                              | x # xs \<Rightarrow> (\<lparr>os_int = int (length x), os_str = x\<rparr>, xs))
                              | _ \<Rightarrow> (\<lparr>os_int = 0, os_str = []\<rparr>, w)),
      env_libc = demo_libc\<rparr>"

lemma client_feeds:
  assumes "\<forall>x \<in> set xs. x \<noteq> [] \<and> length x \<le> READ_BUF_SIZE"
  shows "feeds client_env h xs xs []"
  using assms
proof (induction xs)
  case Nil
  show ?case by (rule feeds.dry [where r = "\<lparr>os_int = 0, os_str = []\<rparr>"]) (simp_all add: client_env_def)
next
  case (Cons x xs)
  have "feeds client_env h (x # xs) (take READ_BUF_SIZE x # xs) []"
    using feeds.more [where E = client_env and handle = h and w = "x # xs" and ?w1.0 = xs and ?w2.0 = xs and cs = xs
        and r = "\<lparr>os_int = int (length x), os_str = x\<rparr>" and t = "\<lparr>os_int = 0, os_str = []\<rparr>"] Cons
    by (simp add: client_env_def)
  with Cons.prems show ?case by simp
qed

theorem CHttpConn_OnRead_dispatches_witness:
  "\<exists>s1 conn1. run client_env (CHttpConn_OnRead 3 0) (one_conn idle_conn) [''POST /api/lo'', drop 12 (request_text HTTP_POST ''/api/login'' [(''Host'', ''a'')] ''{}'')] =
      run client_env (bindp (handle_request 0 RouteLogin ''/api/login'' (c_str ''{}'')) (\<lambda>_. Ret (Some ()))) s1 [] \<and>
    http_heap s1 0 = Some conn1 \<and> conn_handle conn1 = 1 \<and> hc_uuid conn1 = 9 \<and> m_sock_handle conn1 = 5 \<and> ref_count conn1 = 1 \<and>
    g_http_conn_map s1 = [(1, 0)] \<and> g_uuid_conn_map s1 = [(9, 0)]"
proof -
  let ?cs = "[''POST /api/lo'', drop 12 (request_text HTTP_POST ''/api/login'' [(''Host'', ''a'')] ''{}'')]"
  have cs: "\<forall>x \<in> set ?cs. x \<noteq> [] \<and> length x \<le> READ_BUF_SIZE"
    by (simp add: request_text_def header_line_def READ_BUF_SIZE_def show_nat.simps)
  have "header_ok (''Host'', ''a'')" by code_simp
  then have ok: "url_ok ''/api/login''" "\<forall>nv \<in> set [(''Host'', ''a'')]. header_ok nv"
    by (simp_all add: url_ok_def IS_URL_CHAR_def)
  have bytes: "sb_data (in_buf idle_conn) @ concat ?cs = request_text HTTP_POST ''/api/login'' [(''Host'', ''a'')] ''{}''"
      "length (request_text HTTP_POST ''/api/login'' [(''Host'', ''a'')] ''{}'') \<le> 2048"
    by (simp_all add: request_text_def header_line_def show_nat.simps idle_conn_def new_CSimpleBuffer_def)
  have "buffer_ok (in_buf idle_conn)" by (simp add: idle_conn_def)
  moreover have "is_prefix (route_path RouteLogin) ''/api/login''" by simp
  ultimately show ?thesis
    using CHttpConn_OnRead_dispatches [OF client_feeds [OF cs] _ _ bytes, of "one_conn idle_conn" 0 3 RouteLogin] ok
    by (simp add: idle_conn_def)
qed

end
