(* ===== verification/Http_Parser_Url.thy ===== *)
theory Http_Parser_Url
  imports Http_Parser
begin

text \<open>
  The rest of base/http_parser.cc: http_parser_parse_url, which takes a URL apart on the automaton
  parse_url_char and hands the part between schema and path to http_parse_host, and the functions
  that name methods and errors. The struct http_parser_url is the caller's and not initialised: a
  field of it nobody has written is None, and a result None says that such a field was read, that the
  buffer was left, or that an assert failed. Offsets and lengths are uint16_t. The buffer is followed by a NUL byte, at which
  strtoul stops.
\<close>

section \<open>Data\<close>

datatype url_field = UF_SCHEMA | UF_HOST | UF_PORT | UF_PATH | UF_QUERY | UF_FRAGMENT | UF_USERINFO

record http_parser_url =
  u_field_set :: "url_field set"
  u_port :: nat
  u_field_data :: "url_field \<Rightarrow> (nat \<times> nat) option"

datatype http_host_state =
    s_http_host_dead | s_http_userinfo_start | s_http_userinfo | s_http_host_start | s_http_host_v6_start
  | s_http_host | s_http_host_v6 | s_http_host_v6_end | s_http_host_port_start | s_http_host_port

definition u16 :: "nat \<Rightarrow> nat" where
  "u16 n = n mod 2 ^ 16"

text \<open>A field that starts at off, with len bytes; the next byte of it.\<close>

definition set_field :: "url_field \<Rightarrow> nat \<Rightarrow> nat \<Rightarrow> http_parser_url \<Rightarrow> http_parser_url" where
  "set_field f off len u = u\<lparr>u_field_data := (u_field_data u)(f := Some (u16 off, len))\<rparr>"

definition add_field :: "url_field \<Rightarrow> http_parser_url \<Rightarrow> http_parser_url" where
  "add_field f u = u\<lparr>u_field_set := insert f (u_field_set u)\<rparr>"

definition move_field :: "url_field \<Rightarrow> nat \<Rightarrow> http_parser_url \<Rightarrow> http_parser_url" where
  "move_field f off u = u\<lparr>u_field_data := (u_field_data u)(f := map_option (\<lambda>(_, len). (u16 off, len)) (u_field_data u f))\<rparr>"

definition longer_field :: "url_field \<Rightarrow> http_parser_url \<Rightarrow> http_parser_url option" where
  "longer_field f u =
     (case u_field_data u f of
        None \<Rightarrow> None
      | Some (off, len) \<Rightarrow> Some (u\<lparr>u_field_data := (u_field_data u)(f := Some (off, u16 (len + 1)))\<rparr>))"

section \<open>The host\<close>

definition http_parse_host_char :: "http_host_state \<Rightarrow> char \<Rightarrow> http_host_state" where
  "http_parse_host_char s ch =
     (case s of
        s_http_userinfo \<Rightarrow> (if ch = CHR ''@'' then s_http_host_start else if IS_USERINFO_CHAR ch then s_http_userinfo else s_http_host_dead)
      | s_http_userinfo_start \<Rightarrow>
          (if ch = CHR ''@'' then s_http_host_start else if IS_USERINFO_CHAR ch then s_http_userinfo else s_http_host_dead)
      | s_http_host_start \<Rightarrow>
          (if ch = CHR ''['' then s_http_host_v6_start else if IS_HOST_CHAR ch then s_http_host else s_http_host_dead)
      | s_http_host \<Rightarrow>
          (if IS_HOST_CHAR ch then s_http_host else if ch = CHR '':'' then s_http_host_port_start else s_http_host_dead)
      | s_http_host_v6_end \<Rightarrow> (if ch = CHR '':'' then s_http_host_port_start else s_http_host_dead)
      | s_http_host_v6 \<Rightarrow>
          (if ch = CHR '']'' then s_http_host_v6_end
           else if IS_HEX ch \<or> ch = CHR '':'' \<or> ch = CHR ''.'' then s_http_host_v6 else s_http_host_dead)
      | s_http_host_v6_start \<Rightarrow>
          (if IS_HEX ch \<or> ch = CHR '':'' \<or> ch = CHR ''.'' then s_http_host_v6 else s_http_host_dead)
      | s_http_host_port \<Rightarrow> (if is_digit ch then s_http_host_port else s_http_host_dead)
      | s_http_host_port_start \<Rightarrow> (if is_digit ch then s_http_host_port else s_http_host_dead)
      | s_http_host_dead \<Rightarrow> s_http_host_dead)"

text \<open>What the byte at position pos, which leads from s to new_s, does to the fields.\<close>

definition host_byte :: "nat \<Rightarrow> http_host_state \<Rightarrow> http_host_state \<Rightarrow> http_parser_url \<Rightarrow> http_parser_url option" where
  "host_byte pos s new_s u =
     (case new_s of
        s_http_host \<Rightarrow>
          longer_field UF_HOST
            (if s \<noteq> s_http_host then move_field UF_HOST pos u else u)
      | s_http_host_v6 \<Rightarrow>
          longer_field UF_HOST
            (if s \<noteq> s_http_host_v6 then move_field UF_HOST pos u else u)
      | s_http_host_port \<Rightarrow>
          longer_field UF_PORT (if s \<noteq> s_http_host_port then add_field UF_PORT (set_field UF_PORT pos 0 u) else u)
      | s_http_userinfo \<Rightarrow>
          longer_field UF_USERINFO (if s \<noteq> s_http_userinfo then add_field UF_USERINFO (set_field UF_USERINFO pos 0 u) else u)
      | _ \<Rightarrow> Some u)"

fun host_loop :: "nat \<Rightarrow> string \<Rightarrow> http_host_state \<Rightarrow> http_parser_url \<Rightarrow> (http_host_state \<times> http_parser_url) option" where
  "host_loop pos [] s u = Some (s, u)"
| "host_loop pos (ch # r) s u =
     (let new_s = http_parse_host_char s ch
      in if new_s = s_http_host_dead then Some (s_http_host_dead, u)
         else
           (case host_byte pos s new_s u of
              None \<Rightarrow> None
            | Some u' \<Rightarrow> host_loop (pos + 1) r new_s u'))"

definition http_parse_host :: "string \<Rightarrow> http_parser_url \<Rightarrow> bool \<Rightarrow> (int \<times> http_parser_url) option" where
  "http_parse_host buf u found_at =
     (case u_field_data u UF_HOST of
        None \<Rightarrow> None
      | Some (off, len) \<Rightarrow>
          if length buf < off + len then None
          else
          (case host_loop off (take len (drop off buf)) (if found_at then s_http_userinfo_start else s_http_host_start)
                  (u\<lparr>u_field_data := (u_field_data u)(UF_HOST := Some (off, 0))\<rparr>) of
             None \<Rightarrow> None
           | Some (s, u') \<Rightarrow>
               Some (if s \<in> {s_http_host_dead, s_http_host_start, s_http_host_v6_start, s_http_host_v6, s_http_host_port_start,
                         s_http_userinfo, s_http_userinfo_start} then 1 else 0, u')))"

section \<open>The fields of a URL\<close>

text \<open>What a state of the automaton says of the byte that led to it.\<close>

datatype url_byte = UrlDead | UrlSkip | UrlField url_field | UrlUnexpected

definition url_byte_of :: "parse_state \<Rightarrow> url_byte" where
  "url_byte_of s =
     (if s = s_dead then UrlDead
      else if s \<in> {s_req_schema_slash, s_req_schema_slash_slash, s_req_server_start, s_req_query_string_start, s_req_fragment_start} then UrlSkip
      else if s = s_req_schema then UrlField UF_SCHEMA
      else if s = s_req_server_with_at \<or> s = s_req_server then UrlField UF_HOST
      else if s = s_req_path then UrlField UF_PATH
      else if s = s_req_query_string then UrlField UF_QUERY
      else if s = s_req_fragment then UrlField UF_FRAGMENT
      else UrlUnexpected)"

datatype url_scan = ScanFault | ScanError http_parser_url | Scanned bool http_parser_url

fun url_loop :: "nat \<Rightarrow> string \<Rightarrow> parse_state \<Rightarrow> url_field option \<Rightarrow> bool \<Rightarrow> http_parser_url \<Rightarrow> url_scan" where
  "url_loop pos [] s old_uf found_at u = Scanned found_at u"
| "url_loop pos (ch # r) s old_uf found_at u =
     (let s' = parse_url_char s ch; at' = (found_at \<or> s' = s_req_server_with_at)
      in case url_byte_of s' of
           UrlDead \<Rightarrow> ScanError u
         | UrlSkip \<Rightarrow> url_loop (pos + 1) r s' old_uf found_at u
         | UrlField uf \<Rightarrow>
             (if old_uf = Some uf then
                (case longer_field uf u of None \<Rightarrow> ScanFault | Some u' \<Rightarrow> url_loop (pos + 1) r s' old_uf at' u')
              else url_loop (pos + 1) r s' (Some uf) at' (add_field uf (set_field uf pos 1 u)))
         | UrlUnexpected \<Rightarrow> ScanFault)"

text \<open>The port in decimal; more than 2 ^ 16 - 1 is an error, so that it does not matter where strtoul saturates.\<close>

definition url_port :: "string \<Rightarrow> http_parser_url \<Rightarrow> (int \<times> http_parser_url) option" where
  "url_port buf u =
     (if UF_PORT \<in> u_field_set u then
        (case u_field_data u UF_PORT of
           None \<Rightarrow> None
         | Some (off, len) \<Rightarrow>
             (let v = scan_digits 0 (drop off buf)
              in if 0xffff < v then Some (1, u) else Some (0, u\<lparr>u_port := v\<rparr>)))
      else Some (0, u))"

definition http_parser_parse_url :: "string \<Rightarrow> bool \<Rightarrow> (url_field \<Rightarrow> (nat \<times> nat) option) \<Rightarrow> (int \<times> http_parser_url) option" where
  "http_parser_parse_url buf is_connect memory =
     (let u = \<lparr>u_field_set = {}, u_port = 0, u_field_data = memory\<rparr>
      in case url_loop 0 buf (if is_connect then s_req_server_start else s_req_spaces_before_url) None False u of
           ScanFault \<Rightarrow> None
         | ScanError u \<Rightarrow> Some (1, u)
         | Scanned found_at u \<Rightarrow>
             (case (if u_field_set u \<inter> {UF_SCHEMA, UF_HOST} \<noteq> {} then http_parse_host buf u found_at else Some (0, u)) of
                None \<Rightarrow> None
              | Some (r, u) \<Rightarrow>
                  (if r \<noteq> 0 then Some (1, u)
                   else if is_connect \<and> u_field_set u \<noteq> {UF_HOST, UF_PORT} then Some (1, u)
                   else url_port buf u)))"


section \<open>The fields lie inside of the buffer\<close>

text \<open>Every field that is set, and UF_HOST, has been written and ends at or before the position; the port fits.\<close>

definition fields_ok :: "nat \<Rightarrow> http_parser_url \<Rightarrow> bool" where
  "fields_ok pos u \<longleftrightarrow> u_port u < 2 ^ 16 \<and> (\<forall>f \<in> insert UF_HOST (u_field_set u). \<exists>off len. u_field_data u f = Some (off, len) \<and> off + len \<le> pos)"

lemma u16_id [simp]: "n < 2 ^ 16 \<Longrightarrow> u16 n = n"
  by (simp add: u16_def)

lemma fields_ok_add [simp]: "pos < 2 ^ 16 \<Longrightarrow> fields_ok pos u \<Longrightarrow> fields_ok (pos + len) (add_field f (set_field f pos len u))"
  by (force simp: fields_ok_def add_field_def set_field_def)

lemma fields_ok_mono: "fields_ok pos u \<Longrightarrow> pos \<le> pos' \<Longrightarrow> fields_ok pos' u"
  by (meson fields_ok_def order_trans)

lemma longer_field_ok:
  assumes "fields_ok pos u" and "f \<in> u_field_set u" and "pos + 1 < 2 ^ 16"
  shows "\<exists>u'. longer_field f u = Some u' \<and> fields_ok (pos + 1) u' \<and> u_field_set u' = u_field_set u"
proof -
  obtain off len where f: "u_field_data u f = Some (off, len)" "off + len \<le> pos"
    using assms(1,2) by (auto simp: fields_ok_def)
  with assms(3) have "u16 (len + 1) = len + 1" by simp
  with f assms(1) show ?thesis by (force simp: longer_field_def fields_ok_def)
qed

abbreviation "url_start_states \<equiv>
  {s_req_spaces_before_url, s_req_schema, s_req_schema_slash, s_req_schema_slash_slash, s_req_server_start, s_req_server,
   s_req_server_with_at, s_req_path, s_req_query_string_start, s_req_query_string, s_req_fragment_start, s_req_fragment, s_dead}"

lemma parse_url_char_states: "parse_url_char s ch \<in> url_start_states - {s_req_spaces_before_url}"
  by (cases s; simp add: parse_url_char_def)

lemma url_byte_of_char: "url_byte_of (parse_url_char s ch) \<noteq> UrlUnexpected"
  using parse_url_char_states [of s ch] by (auto simp: url_byte_of_def)

lemma url_loop_ok:
  assumes "fields_ok pos u" and "pos + length r = n" and "n < 2 ^ 16" and "\<forall>uf. old_uf = Some uf \<longrightarrow> uf \<in> u_field_set u"
  shows "case url_loop pos r s old_uf found_at u of
      ScanFault \<Rightarrow> False
    | ScanError u' \<Rightarrow> True
    | Scanned at u' \<Rightarrow> fields_ok n u'"
  using assms
proof (induction pos r s old_uf found_at u rule: url_loop.induct)
  case (2 pos ch r s old_uf found_at u)
  let ?s = "parse_url_char s ch"
  show ?case
  proof (cases "url_byte_of ?s")
    case UrlSkip
    with "2.IH"(1) [OF refl refl UrlSkip] "2.prems" show ?thesis
      by (simp add: fields_ok_mono [of pos u "Suc pos"] Let_def)
  next
    case (UrlField uf)
    show ?thesis
    proof (cases "old_uf = Some uf")
      case True
      then obtain u' where u': "longer_field uf u = Some u'" "fields_ok (pos + 1) u'" "u_field_set u' = u_field_set u"
        using longer_field_ok [of pos u uf] "2.prems" by auto
      with "2.IH"(2) [OF refl refl UrlField True u'(1)] "2.prems" True UrlField show ?thesis
        by (simp add: Let_def)
    next
      case False
      have "fields_ok (pos + 1) (add_field uf (set_field uf pos 1 u))"
        by (rule fields_ok_add) (use "2.prems" in auto)
      moreover have "uf \<in> u_field_set (add_field uf (set_field uf pos 1 u))" by (simp add: add_field_def)
      ultimately show ?thesis
        using "2.IH"(3) [OF refl refl UrlField False] "2.prems" UrlField False by (simp add: Let_def)
    qed
  qed (simp_all add: url_byte_of_char Let_def)
qed simp

text \<open>
  In the host: the fields set so far end at or before n, UF_HOST has been written, and the field that
  goes on with the next byte ends at or before the position.
\<close>

primrec host_field :: "http_host_state \<Rightarrow> url_field option" where
  "host_field s_http_host_dead = None"
| "host_field s_http_userinfo_start = None"
| "host_field s_http_userinfo = Some UF_USERINFO"
| "host_field s_http_host_start = None"
| "host_field s_http_host_v6_start = None"
| "host_field s_http_host = Some UF_HOST"
| "host_field s_http_host_v6 = Some UF_HOST"
| "host_field s_http_host_v6_end = None"
| "host_field s_http_host_port_start = None"
| "host_field s_http_host_port = Some UF_PORT"


definition host_inv :: "nat \<Rightarrow> nat \<Rightarrow> http_host_state \<Rightarrow> http_parser_url \<Rightarrow> bool" where
  "host_inv n pos s u \<longleftrightarrow> fields_ok n u \<and>
     (\<exists>off len. u_field_data u UF_HOST = Some (off, len) \<and> off + len \<le> pos \<and>
        (s \<in> {s_http_userinfo_start, s_http_userinfo, s_http_host_start, s_http_host_v6_start} \<longrightarrow> len = 0)) \<and>
     (\<forall>f. host_field s = Some f \<longrightarrow> (\<exists>off len. u_field_data u f = Some (off, len) \<and> off + len \<le> pos))"

lemma host_transitions:
  assumes "http_parse_host_char s ch \<noteq> s_http_host_dead"
  shows "(s, http_parse_host_char s ch) \<in>
    {(s_http_userinfo, s_http_host_start), (s_http_userinfo, s_http_userinfo), (s_http_userinfo_start, s_http_host_start),
     (s_http_userinfo_start, s_http_userinfo), (s_http_host_start, s_http_host_v6_start), (s_http_host_start, s_http_host),
     (s_http_host, s_http_host), (s_http_host, s_http_host_port_start), (s_http_host_v6_end, s_http_host_port_start),
     (s_http_host_v6, s_http_host_v6_end), (s_http_host_v6, s_http_host_v6), (s_http_host_v6_start, s_http_host_v6),
     (s_http_host_port, s_http_host_port), (s_http_host_port_start, s_http_host_port)}"
  using assms by (cases s; simp add: http_parse_host_char_def split: if_splits)

lemma host_byte_ok:
  assumes "host_inv n pos s u" and "pos < n" and "n < 2 ^ 16" and "new_s = http_parse_host_char s ch" and "new_s \<noteq> s_http_host_dead"
  shows "\<exists>u'. host_byte pos s new_s u = Some u' \<and> host_inv n (pos + 1) new_s u'"
proof -
  obtain off len where h: "u_field_data u UF_HOST = Some (off, len)" "off + len \<le> pos"
      "s \<in> {s_http_userinfo_start, s_http_userinfo, s_http_host_start, s_http_host_v6_start} \<longrightarrow> len = 0"
    using assms(1) by (auto simp: host_inv_def)
  have p: "u16 pos = pos" "u16 (len + 1) = len + 1" "u16 1 = 1" "\<And>l. l \<le> pos \<Longrightarrow> u16 (Suc l) = Suc l" using assms(2,3) h(2) by simp_all
  have f: "fields_ok n u" and g: "\<And>f. host_field s = Some f \<Longrightarrow> \<exists>off len. u_field_data u f = Some (off, len) \<and> off + len \<le> pos"
    using assms(1) by (auto simp: host_inv_def)
  have "(s, new_s) \<in>
    {(s_http_userinfo, s_http_host_start), (s_http_userinfo, s_http_userinfo), (s_http_userinfo_start, s_http_host_start),
     (s_http_userinfo_start, s_http_userinfo), (s_http_host_start, s_http_host_v6_start), (s_http_host_start, s_http_host),
     (s_http_host, s_http_host), (s_http_host, s_http_host_port_start), (s_http_host_v6_end, s_http_host_port_start),
     (s_http_host_v6, s_http_host_v6_end), (s_http_host_v6, s_http_host_v6), (s_http_host_v6_start, s_http_host_v6),
     (s_http_host_port, s_http_host_port), (s_http_host_port_start, s_http_host_port)}"
    using host_transitions assms(4,5) by simp
  then show ?thesis
    using h f g assms(2,3) p
    by (elim insertE; simp add: host_byte_def host_inv_def longer_field_def move_field_def add_field_def set_field_def fields_ok_def;
        fastforce)
qed

lemma host_loop_ok:
  assumes "host_inv n pos s u" and "pos + length r \<le> n" and "n < 2 ^ 16"
  shows "\<exists>s' u'. host_loop pos r s u = Some (s', u') \<and> (s' = s_http_host_dead \<or> fields_ok n u')"
  using assms
proof (induction pos r s u rule: host_loop.induct)
  case (1 pos s u)
  then show ?case by (simp add: host_inv_def)
next
  case (2 pos ch r s u)
  show ?case
  proof (cases "http_parse_host_char s ch = s_http_host_dead")
    case False
    then obtain u' where "host_byte pos s (http_parse_host_char s ch) u = Some u'" "host_inv n (pos + 1) (http_parse_host_char s ch) u'"
      using host_byte_ok [OF "2.prems"(1) _ "2.prems"(3) refl] "2.prems"(2) by auto
    then show ?thesis using "2.IH" [OF refl False] "2.prems" False by simp
  qed simp
qed


lemma http_parse_host_ok:
  assumes "fields_ok n u" and "n = length buf" and "n < 2 ^ 16"
  shows "\<exists>r u'. http_parse_host buf u found_at = Some (r, u') \<and> r \<in> {0, 1} \<and> (r = 0 \<longrightarrow> fields_ok n u')"
proof -
  obtain off len where h: "u_field_data u UF_HOST = Some (off, len)" "off + len \<le> n"
    using assms(1) by (auto simp: fields_ok_def)
  let ?u = "u\<lparr>u_field_data := (u_field_data u)(UF_HOST := Some (off, 0))\<rparr>"
    and ?s = "if found_at then s_http_userinfo_start else s_http_host_start"
  have "host_inv n off ?s ?u"
    using assms(1) h by (auto simp: host_inv_def fields_ok_def)
  moreover have "off + length (take len (drop off buf)) \<le> n" using h(2) assms(2) by simp
  ultimately obtain s' u' where "host_loop off (take len (drop off buf)) ?s ?u = Some (s', u')" "s' = s_http_host_dead \<or> fields_ok n u'"
    using host_loop_ok assms(3) by blast
  then show ?thesis using h assms(2) by (auto simp: http_parse_host_def)
qed

text \<open>
  A URL shorter than 2 ^ 16 bytes whose struct has been cleared is parsed without an undefined read,
  whatever it is; in a URL that is accepted every field that is set is a piece of the buffer, and the
  port is a number below 2 ^ 16.
\<close>

lemma http_parser_parse_url_ok:
  assumes "length buf < 2 ^ 16" and "memory UF_HOST = Some (0, 0)"
  shows "\<exists>r u. http_parser_parse_url buf is_connect memory = Some (r, u) \<and> r \<in> {0, 1} \<and>
    (r = 0 \<longrightarrow> fields_ok (length buf) u)"
proof -
  let ?u = "\<lparr>u_field_set = {}, u_port = 0, u_field_data = memory\<rparr>" and ?s = "if is_connect then s_req_server_start else s_req_spaces_before_url"
  have "fields_ok 0 ?u" using assms(2) by (simp add: fields_ok_def)
  then have scan: "case url_loop 0 buf ?s None False ?u of ScanFault \<Rightarrow> False | ScanError u' \<Rightarrow> True | Scanned at u' \<Rightarrow> fields_ok (length buf) u'"
    by (rule url_loop_ok) (use assms(1) in simp_all)
  show ?thesis
  proof (cases "url_loop 0 buf ?s None False ?u")
    case (Scanned found_at u)
    with scan have u: "fields_ok (length buf) u" by simp
    obtain r u' where host: "(if u_field_set u \<inter> {UF_SCHEMA, UF_HOST} \<noteq> {} then http_parse_host buf u found_at else Some (0, u)) = Some (r, u')"
        "r \<in> {0, 1}" "r = 0 \<longrightarrow> fields_ok (length buf) u'"
      using http_parse_host_ok [OF u refl assms(1), of found_at] u by (cases "u_field_set u \<inter> {UF_SCHEMA, UF_HOST} \<noteq> {}") auto
    have "\<exists>r u''. url_port buf u' = Some (r, u'') \<and> r \<in> {0, 1} \<and> (r = 0 \<longrightarrow> fields_ok (length buf) u'')"
      if ok: "fields_ok (length buf) u'"
    proof (cases "UF_PORT \<in> u_field_set u'")
      case True
      then obtain off len where "u_field_data u' UF_PORT = Some (off, len)" using ok by (auto simp: fields_ok_def)
      with True ok show ?thesis by (simp add: url_port_def fields_ok_def Let_def)
    qed (use ok in \<open>simp add: url_port_def\<close>)
    moreover have "http_parser_parse_url buf is_connect memory =
        (if r \<noteq> 0 then Some (1, u') else if is_connect \<and> u_field_set u' \<noteq> {UF_HOST, UF_PORT} then Some (1, u') else url_port buf u')"
      by (simp only: http_parser_parse_url_def Let_def Scanned url_scan.case host option.case prod.case)
    ultimately show ?thesis using host(3) by auto
  qed (use scan in \<open>auto simp: http_parser_parse_url_def Let_def\<close>)
qed

lemmas eval_url = http_parser_parse_url_def parse_url_char_def IS_ALPHA_def LOWER_def IS_URL_CHAR_def IS_USERINFO_CHAR_def
  IS_ALPHANUM_def IS_MARK_def IS_HOST_CHAR_def is_digit_def digit_val_def url_byte_of_def set_field_def add_field_def longer_field_def
  move_field_def u16_def http_parse_host_def http_parse_host_char_def host_byte_def url_port_def Let_def

text \<open>
  A schema without a host, which is to be refused, makes http_parse_host read offset and length of the
  host from memory nothing has been written to.
\<close>

lemma http_parser_parse_url_no_host:
  "http_parser_parse_url ''http'' False (\<lambda>_. None) = None" "http_parser_parse_url ''http:///toto'' False (\<lambda>_. None) = None"
  by (simp_all add: eval_url)

lemma http_parser_parse_url_example:
  "\<exists>u. http_parser_parse_url ''http://me@a.b:8080/p?q=1#f'' False (\<lambda>_. None) = Some (0, u) \<and> u_port u = 8080 \<and>
     u_field_data u UF_HOST = Some (10, 3) \<and> u_field_data u UF_USERINFO = Some (7, 2) \<and> u_field_data u UF_PATH = Some (18, 2) \<and>
     u_field_data u UF_QUERY = Some (21, 3)"
  by (simp add: eval_url)


section \<open>Names\<close>

primrec http_errno_name :: "http_errno \<Rightarrow> string" where
  "http_errno_name HPE_OK = ''HPE_OK''"
| "http_errno_name HPE_CB_message_begin = ''HPE_CB_message_begin''"
| "http_errno_name HPE_CB_status_complete = ''HPE_CB_status_complete''"
| "http_errno_name HPE_CB_url = ''HPE_CB_url''"
| "http_errno_name HPE_CB_header_field = ''HPE_CB_header_field''"
| "http_errno_name HPE_CB_header_value = ''HPE_CB_header_value''"
| "http_errno_name HPE_CB_headers_complete = ''HPE_CB_headers_complete''"
| "http_errno_name HPE_CB_body = ''HPE_CB_body''"
| "http_errno_name HPE_CB_message_complete = ''HPE_CB_message_complete''"
| "http_errno_name HPE_INVALID_EOF_STATE = ''HPE_INVALID_EOF_STATE''"
| "http_errno_name HPE_HEADER_OVERFLOW = ''HPE_HEADER_OVERFLOW''"
| "http_errno_name HPE_CLOSED_CONNECTION = ''HPE_CLOSED_CONNECTION''"
| "http_errno_name HPE_INVALID_VERSION = ''HPE_INVALID_VERSION''"
| "http_errno_name HPE_INVALID_STATUS = ''HPE_INVALID_STATUS''"
| "http_errno_name HPE_INVALID_METHOD = ''HPE_INVALID_METHOD''"
| "http_errno_name HPE_INVALID_URL = ''HPE_INVALID_URL''"
| "http_errno_name HPE_INVALID_HOST = ''HPE_INVALID_HOST''"
| "http_errno_name HPE_INVALID_PORT = ''HPE_INVALID_PORT''"
| "http_errno_name HPE_INVALID_PATH = ''HPE_INVALID_PATH''"
| "http_errno_name HPE_INVALID_QUERY_STRING = ''HPE_INVALID_QUERY_STRING''"
| "http_errno_name HPE_INVALID_FRAGMENT = ''HPE_INVALID_FRAGMENT''"
| "http_errno_name HPE_LF_EXPECTED = ''HPE_LF_EXPECTED''"
| "http_errno_name HPE_INVALID_HEADER_TOKEN = ''HPE_INVALID_HEADER_TOKEN''"
| "http_errno_name HPE_INVALID_CONTENT_LENGTH = ''HPE_INVALID_CONTENT_LENGTH''"
| "http_errno_name HPE_INVALID_CHUNK_SIZE = ''HPE_INVALID_CHUNK_SIZE''"
| "http_errno_name HPE_INVALID_CONSTANT = ''HPE_INVALID_CONSTANT''"
| "http_errno_name HPE_INVALID_INTERNAL_STATE = ''HPE_INVALID_INTERNAL_STATE''"
| "http_errno_name HPE_STRICT = ''HPE_STRICT''"
| "http_errno_name HPE_PAUSED = ''HPE_PAUSED''"
| "http_errno_name HPE_UNKNOWN = ''HPE_UNKNOWN''"

primrec http_errno_description :: "http_errno \<Rightarrow> string" where
  "http_errno_description HPE_OK = ''success''"
| "http_errno_description HPE_CB_message_begin = ''the on_message_begin callback failed''"
| "http_errno_description HPE_CB_status_complete = ''the on_status_complete callback failed''"
| "http_errno_description HPE_CB_url = ''the on_url callback failed''"
| "http_errno_description HPE_CB_header_field = ''the on_header_field callback failed''"
| "http_errno_description HPE_CB_header_value = ''the on_header_value callback failed''"
| "http_errno_description HPE_CB_headers_complete = ''the on_headers_complete callback failed''"
| "http_errno_description HPE_CB_body = ''the on_body callback failed''"
| "http_errno_description HPE_CB_message_complete = ''the on_message_complete callback failed''"
| "http_errno_description HPE_INVALID_EOF_STATE = ''stream ended at an unexpected time''"
| "http_errno_description HPE_HEADER_OVERFLOW = ''too many header bytes seen; overflow detected''"
| "http_errno_description HPE_CLOSED_CONNECTION = ''data received after completed connection: close message''"
| "http_errno_description HPE_INVALID_VERSION = ''invalid HTTP version''"
| "http_errno_description HPE_INVALID_STATUS = ''invalid HTTP status code''"
| "http_errno_description HPE_INVALID_METHOD = ''invalid HTTP method''"
| "http_errno_description HPE_INVALID_URL = ''invalid URL''"
| "http_errno_description HPE_INVALID_HOST = ''invalid host''"
| "http_errno_description HPE_INVALID_PORT = ''invalid port''"
| "http_errno_description HPE_INVALID_PATH = ''invalid path''"
| "http_errno_description HPE_INVALID_QUERY_STRING = ''invalid query string''"
| "http_errno_description HPE_INVALID_FRAGMENT = ''invalid fragment''"
| "http_errno_description HPE_LF_EXPECTED = ''LF character expected''"
| "http_errno_description HPE_INVALID_HEADER_TOKEN = ''invalid character in header''"
| "http_errno_description HPE_INVALID_CONTENT_LENGTH = ''invalid character in content-length header''"
| "http_errno_description HPE_INVALID_CHUNK_SIZE = ''invalid character in chunk size header''"
| "http_errno_description HPE_INVALID_CONSTANT = ''invalid constant string''"
| "http_errno_description HPE_INVALID_INTERNAL_STATE = ''encountered unexpected internal state''"
| "http_errno_description HPE_STRICT = ''strict mode assertion failed''"
| "http_errno_description HPE_PAUSED = ''parser is paused''"
| "http_errno_description HPE_UNKNOWN = ''an unknown error occurred''"

text \<open>The methods in the order of their numbers; a number behind the last one has no name.\<close>

definition http_methods :: "http_method list" where
  "http_methods =
     [HTTP_DELETE, HTTP_GET, HTTP_HEAD, HTTP_POST, HTTP_PUT, HTTP_CONNECT, HTTP_OPTIONS, HTTP_TRACE, HTTP_COPY, HTTP_LOCK,
      HTTP_MKCOL, HTTP_MOVE, HTTP_PROPFIND, HTTP_PROPPATCH, HTTP_SEARCH, HTTP_UNLOCK, HTTP_REPORT, HTTP_MKACTIVITY,
      HTTP_CHECKOUT, HTTP_MERGE, HTTP_MSEARCH, HTTP_NOTIFY, HTTP_SUBSCRIBE, HTTP_UNSUBSCRIBE, HTTP_PATCH, HTTP_PURGE]"

definition http_method_str :: "nat \<Rightarrow> string" where
  "http_method_str m = (if m < length http_methods then method_strings (http_methods ! m) else ''<unknown>'')"

definition http_parser_version :: nat where
  "http_parser_version = or (or (2 * 0x10000) (1 * 0x00100)) (0 * 0x00001)"

lemma http_parser_version_parts:
  "http_parser_version div 2 ^ 16 mod 256 = 2" "http_parser_version div 2 ^ 8 mod 256 = 1" "http_parser_version mod 256 = 0"
  by (simp_all add: http_parser_version_def)

lemma method_strings_inj: "method_strings m = method_strings m' \<longleftrightarrow> m = m'"
  by (cases m; cases m'; simp)

lemma http_errno_name_inj: "http_errno_name e = http_errno_name e' \<longleftrightarrow> e = e'"
  by (cases e; cases e'; simp)

end
