(* ===== verification/Redis_Reader.thy ===== *)
theory Redis_Reader
  imports Proc
begin

text \<open>
  redis/read.c with the reply objects of redis/hiredis.c: the reader that is fed with the bytes a
  Redis server sends and builds replies from them, over a stack of at most nine tasks. rstack[ridx]
  is the head of the list, ridx is its length less one. The elements of an array that is being built
  are kept in the task of the array, and the array is put into its parent when it is complete: the
  code puts it there at once and fills it through the pointer. What a task keeps of an array that is
  complete is dropped. The buffer is freed on an error,
  which is the empty string here. Memory is never exhausted. A result Fault is an assert that fails
  or a signed overflow.
\<close>

section \<open>Lines and numbers\<close>

abbreviation (input) "REDIS_OK \<equiv> (0 :: int)"
abbreviation (input) "REDIS_ERR \<equiv> (- 1 :: int)"
abbreviation "CRLF \<equiv> [CHR 0x0D, CHR 0x0A]"

text \<open>The position of the first line end that begins before position k.\<close>

fun seek_from :: "nat \<Rightarrow> string \<Rightarrow> nat option" where
  "seek_from (Suc k) (c # d # r) = (if c = CHR 0x0D \<and> d = CHR 0x0A then Some 0 else map_option Suc (seek_from k (d # r)))"
| "seek_from _ _ = None"

text \<open>The length less one is an int.\<close>

definition seekNewline :: "string \<Rightarrow> nat option" where
  "seekNewline s = seek_from (nat (to_int32 (int (length s) - 1))) s"

fun ll_digits :: "nat \<Rightarrow> string \<Rightarrow> nat option" where
  "ll_digits v [] = Some v"
| "ll_digits v (c # r) =
     (if \<not> is_digit c then None
      else if (2 ^ 64 - 1) div 10 < v then None
      else if 2 ^ 64 - 1 - digit_val c < v * 10 then None
      else ll_digits (v * 10 + digit_val c) r)"

definition string2ll :: "string \<Rightarrow> int option" where
  "string2ll s =
     (if s = [] then None
      else if s = ''0'' then Some 0
      else
        (let negative = (hd s = CHR ''-'')
         in case (if negative then tl s else s) of
              [] \<Rightarrow> None
            | c # r \<Rightarrow>
                if is_digit c \<and> c \<noteq> CHR ''0'' then
                  (case ll_digits (digit_val c) r of
                     None \<Rightarrow> None
                   | Some v \<Rightarrow>
                       if negative then (if 2 ^ 63 < v then None else Some (- int v))
                       else (if 2 ^ 63 - 1 < v then None else Some (int v)))
                else None))"

section \<open>The reader\<close>

datatype reply_type = REDIS_REPLY_STRING | REDIS_REPLY_ARRAY | REDIS_REPLY_INTEGER | REDIS_REPLY_STATUS | REDIS_REPLY_ERROR

record read_task =
  rt_type :: "reply_type option"
  rt_elements :: int
  rt_idx :: int
  rt_obj :: "redis_reply option list"

record redis_reader =
  rr_err :: int
  rr_errstr :: string
  rr_buf :: string
  rr_pos :: nat
  rr_stack :: "read_task list"
  rr_reply :: "redis_reply option"

datatype item_result = ItemOk redis_reader | ItemErr redis_reader | ItemFault

abbreviation (input) "REDIS_ERR_IO \<equiv> (1 :: int)"
abbreviation (input) "REDIS_ERR_OTHER \<equiv> (2 :: int)"
abbreviation (input) "REDIS_ERR_EOF \<equiv> (3 :: int)"
abbreviation (input) "REDIS_ERR_PROTOCOL \<equiv> (4 :: int)"

definition redisReaderCreate :: redis_reader where
  "redisReaderCreate = \<lparr>rr_err = 0, rr_errstr = [], rr_buf = [], rr_pos = 0, rr_stack = [], rr_reply = None\<rparr>"

definition redisReaderSetError :: "redis_reader \<Rightarrow> int \<Rightarrow> string \<Rightarrow> redis_reader" where
  "redisReaderSetError r t str =
     r\<lparr>rr_reply := None, rr_buf := [], rr_pos := 0, rr_stack := [], rr_err := t, rr_errstr := take 127 str\<rparr>"

definition hex_digit :: "nat \<Rightarrow> char" where
  "hex_digit d = char_of (if d < 10 then 48 + d else 87 + d)"

definition chrtos :: "char \<Rightarrow> string" where
  "chrtos byte =
     (let b = of_char byte :: nat; quoted = (\<lambda>s. CHR 0x22 # s @ [CHR 0x22])
      in if byte = CHR 0x5C \<or> byte = CHR 0x22 then quoted [CHR 0x5C, byte]
         else if b = 10 then quoted [CHR 0x5C, CHR ''n'']
         else if b = 13 then quoted [CHR 0x5C, CHR ''r'']
         else if b = 9 then quoted [CHR 0x5C, CHR ''t'']
         else if b = 7 then quoted [CHR 0x5C, CHR ''a'']
         else if b = 8 then quoted [CHR 0x5C, CHR ''b'']
         else if 32 \<le> b \<and> b \<le> 126 then quoted [byte]
         else quoted [CHR 0x5C, CHR ''x'', hex_digit (b div 16), hex_digit (b mod 16)])"

definition redisReaderSetErrorProtocolByte :: "redis_reader \<Rightarrow> char \<Rightarrow> redis_reader" where
  "redisReaderSetErrorProtocolByte r byte =
     redisReaderSetError r REDIS_ERR_PROTOCOL (''Protocol error, got '' @ chrtos byte @ '' as reply type byte'')"

definition rest_of :: "redis_reader \<Rightarrow> string" where
  "rest_of r = drop (rr_pos r) (rr_buf r)"

definition readBytes :: "redis_reader \<Rightarrow> nat \<Rightarrow> (string \<times> redis_reader) option" where
  "readBytes r bytes =
     (if bytes \<le> length (rr_buf r) - rr_pos r then Some (take bytes (rest_of r), r\<lparr>rr_pos := rr_pos r + bytes\<rparr>) else None)"

definition readLine :: "redis_reader \<Rightarrow> (string \<times> redis_reader) option" where
  "readLine r =
     (case seekNewline (rest_of r) of
        None \<Rightarrow> None
      | Some len \<Rightarrow> Some (take len (rest_of r), r\<lparr>rr_pos := rr_pos r + len + 2\<rparr>))"

text \<open>A new object is put into its place in the parent, the head of the list, or is the reply.\<close>

fun put_object :: "redis_reply \<Rightarrow> read_task \<Rightarrow> read_task list \<Rightarrow> redis_reply option \<Rightarrow> read_task list \<times> redis_reply option" where
  "put_object obj cur [] reply = ([], Some obj)"
| "put_object obj cur (prv # st) reply = (prv\<lparr>rt_obj := (rt_obj prv)[nat (rt_idx cur) := Some obj]\<rparr> # st, reply)"

lemma length_put_object [simp]: "length (fst (put_object obj cur st reply)) = length st"
  by (cases st) simp_all

function moveToNextTask :: "read_task list \<Rightarrow> redis_reply option \<Rightarrow> (read_task list \<times> redis_reply option) option" where
  "moveToNextTask [] reply = Some ([], reply)"
| "moveToNextTask [cur] reply = Some ([], reply)"
| "moveToNextTask (cur # prv # st) reply =
     (if rt_type prv \<noteq> Some REDIS_REPLY_ARRAY then None
      else if rt_idx cur = rt_elements prv - 1 then
        moveToNextTask (prv # fst (put_object (RArray (map the (rt_obj prv))) prv st reply))
          (snd (put_object (RArray (map the (rt_obj prv))) prv st reply))
      else if rt_elements prv \<le> rt_idx cur then None
      else Some (\<lparr>rt_type = None, rt_elements = - 1, rt_idx = rt_idx cur + 1, rt_obj = []\<rparr> # prv # st, reply))"
  by pat_completeness auto
termination by (relation "measure (\<lambda>(st, reply). length st)") simp_all

text \<open>An object was created for the task at the head: it is put in place and the next task is taken up.\<close>

definition created :: "redis_reply \<Rightarrow> redis_reader \<Rightarrow> item_result" where
  "created obj r =
     (case rr_stack r of
        [] \<Rightarrow> ItemFault
      | cur # st \<Rightarrow>
          (let (st', reply) = put_object obj cur st (rr_reply r)
           in case moveToNextTask (cur # st') reply of
                None \<Rightarrow> ItemFault
              | Some (st'', reply') \<Rightarrow> ItemOk (r\<lparr>rr_stack := st'', rr_reply := reply'\<rparr>)))"

definition processLineItem :: "reply_type \<Rightarrow> redis_reader \<Rightarrow> item_result" where
  "processLineItem t r =
     (case readLine r of
        None \<Rightarrow> ItemErr r
      | Some (p, r) \<Rightarrow>
          if t = REDIS_REPLY_INTEGER then
            (case string2ll p of
               None \<Rightarrow> ItemErr (redisReaderSetError r REDIS_ERR_PROTOCOL ''Bad integer value'')
             | Some v \<Rightarrow> created (RInteger v) r)
          else created (if t = REDIS_REPLY_ERROR then RError p else RStatus p) r)"

text \<open>len + 2 overflows for the two largest lengths.\<close>

definition processBulkItem :: "redis_reader \<Rightarrow> item_result" where
  "processBulkItem r =
     (case seekNewline (rest_of r) of
        None \<Rightarrow> ItemErr r
      | Some n \<Rightarrow>
          (case string2ll (take n (rest_of r)) of
             None \<Rightarrow> ItemErr (redisReaderSetError r REDIS_ERR_PROTOCOL ''Bad bulk string length'')
           | Some len \<Rightarrow>
               if len < - 1 then ItemErr (redisReaderSetError r REDIS_ERR_PROTOCOL ''Bulk string length out of range'')
               else if len = - 1 then created RNil (r\<lparr>rr_pos := rr_pos r + n + 2\<rparr>)
               else if \<not> is_int64 (len + 2) then ItemFault
               else
                 (let bytelen = n + 2 + nat len + 2
                  in if rr_pos r + bytelen \<le> length (rr_buf r) then
                       created (RString (take (nat len) (drop (n + 2) (rest_of r)))) (r\<lparr>rr_pos := rr_pos r + bytelen\<rparr>)
                     else ItemErr r)))"

definition processMultiBulkItem :: "redis_reader \<Rightarrow> item_result" where
  "processMultiBulkItem r =
     (if length (rr_stack r) = 9 then
        ItemErr (redisReaderSetError r REDIS_ERR_PROTOCOL ''No support for nested multi bulk replies with depth > 7'')
      else
        (case readLine r of
           None \<Rightarrow> ItemErr r
         | Some (p, r) \<Rightarrow>
             (case string2ll p of
                None \<Rightarrow> ItemErr (redisReaderSetError r REDIS_ERR_PROTOCOL ''Bad multi-bulk length'')
              | Some elements \<Rightarrow>
                  if elements < - 1 \<or> 2 ^ 31 - 1 < elements then
                    ItemErr (redisReaderSetError r REDIS_ERR_PROTOCOL ''Multi-bulk length out of range'')
                  else if elements = - 1 then created RNil r
                  else if elements = 0 then created (RArray []) r
                  else
                    (case rr_stack r of
                       [] \<Rightarrow> ItemFault
                     | cur # st \<Rightarrow>
                         ItemOk (r\<lparr>rr_stack :=
                           \<lparr>rt_type = None, rt_elements = - 1, rt_idx = 0, rt_obj = []\<rparr> #
                           cur\<lparr>rt_elements := elements, rt_obj := replicate (nat elements) None\<rparr> # st\<rparr>)))))"

text \<open>The type byte of the task at the head, if it is not known yet.\<close>

definition type_of_byte :: "char \<Rightarrow> reply_type option" where
  "type_of_byte c =
     (if c = CHR ''-'' then Some REDIS_REPLY_ERROR
      else if c = CHR ''+'' then Some REDIS_REPLY_STATUS
      else if c = CHR '':'' then Some REDIS_REPLY_INTEGER
      else if c = CHR ''$'' then Some REDIS_REPLY_STRING
      else if c = CHR ''*'' then Some REDIS_REPLY_ARRAY
      else None)"

definition process_typed :: "reply_type \<Rightarrow> redis_reader \<Rightarrow> item_result" where
  "process_typed t r =
     (case t of
        REDIS_REPLY_STRING \<Rightarrow> processBulkItem r
      | REDIS_REPLY_ARRAY \<Rightarrow> processMultiBulkItem r
      | _ \<Rightarrow> processLineItem t r)"

definition processItem :: "redis_reader \<Rightarrow> item_result" where
  "processItem r =
     (case rr_stack r of
        [] \<Rightarrow> ItemFault
      | cur # st \<Rightarrow>
          (case rt_type cur of
             Some t \<Rightarrow> process_typed t r
           | None \<Rightarrow>
               (case readBytes r 1 of
                  Some (c # _, r) \<Rightarrow>
                    (case type_of_byte c of
                       None \<Rightarrow> ItemErr (redisReaderSetErrorProtocolByte r c)
                     | Some t \<Rightarrow> process_typed t (r\<lparr>rr_stack := cur\<lparr>rt_type := Some t\<rparr> # st\<rparr>))
                | _ \<Rightarrow> ItemErr r)))"

definition unread :: "redis_reader \<Rightarrow> nat" where
  "unread r = length (rr_buf r) - rr_pos r"

lemma seek_from_bound: "seek_from k s = Some n \<Longrightarrow> n + 2 \<le> length s"
  by (induction k s arbitrary: n rule: seek_from.induct) (auto split: if_splits)

lemma seekNewline_bound: "seekNewline s = Some n \<Longrightarrow> n + 2 \<le> length s"
  unfolding seekNewline_def by (rule seek_from_bound)

lemma created_unread: "created obj r = ItemOk r' \<Longrightarrow> unread r' = unread r"
  by (auto simp: created_def unread_def Let_def split: list.splits prod.splits option.splits)

lemma process_typed_unread:
  assumes "process_typed t r = ItemOk r'"
  shows "unread r' < unread r"
proof -
  have rest: "length (rest_of r) = unread r" by (simp add: rest_of_def unread_def)
  have line: "unread r2 < unread r" if "readLine r = Some (p, r2)" for p r2
    using that seekNewline_bound [of "rest_of r"] rest by (auto simp: readLine_def unread_def split: option.splits)
  show ?thesis
    using assms rest seekNewline_bound [of "rest_of r"]
    by (cases t)
       (auto simp: process_typed_def processLineItem_def processBulkItem_def processMultiBulkItem_def unread_def Let_def
          dest!: created_unread line split: option.splits if_splits list.splits)
qed


lemma processItem_unread:
  assumes "processItem r = ItemOk r'"
  shows "unread r' < unread r"
  using assms
  by (auto simp: processItem_def readBytes_def unread_def dest!: process_typed_unread split: list.splits option.splits if_splits)

text \<open>The loop of redisReaderGetReply, until the stack is empty or an item cannot be processed.\<close>

function read_items :: "redis_reader \<Rightarrow> item_result" where
  "read_items r =
     (if rr_stack r = [] then ItemOk r
      else (case processItem r of ItemOk r' \<Rightarrow> read_items r' | x \<Rightarrow> x))"
  by pat_completeness auto
termination
  by (relation "measure unread") (auto dest: processItem_unread)

declare read_items.simps [simp del]

definition redisReaderFeed :: "redis_reader \<Rightarrow> string \<Rightarrow> int \<times> redis_reader" where
  "redisReaderFeed r buf =
     (if rr_err r \<noteq> 0 then (REDIS_ERR, r) else (REDIS_OK, r\<lparr>rr_buf := rr_buf r @ buf\<rparr>))"

definition first_task :: "redis_reader \<Rightarrow> redis_reader" where
  "first_task r =
     (if rr_stack r = [] then r\<lparr>rr_stack := [\<lparr>rt_type = None, rt_elements = - 1, rt_idx = - 1, rt_obj = []\<rparr>]\<rparr> else r)"

definition discard :: "redis_reader \<Rightarrow> redis_reader" where
  "discard r = (if 1024 \<le> rr_pos r then r\<lparr>rr_buf := drop (rr_pos r) (rr_buf r), rr_pos := 0\<rparr> else r)"

text \<open>The result, the reply (None: NULL) and the reader; None, an assert failed or an int overflowed.\<close>

definition redisReaderGetReply :: "redis_reader \<Rightarrow> (int \<times> redis_reply option \<times> redis_reader) option" where
  "redisReaderGetReply r =
     (if rr_err r \<noteq> 0 then Some (REDIS_ERR, None, r)
      else if rr_buf r = [] then Some (REDIS_OK, None, r)
      else
        (case (case read_items (first_task r) of ItemOk r \<Rightarrow> Some r | ItemErr r \<Rightarrow> Some r | ItemFault \<Rightarrow> None) of
           None \<Rightarrow> None
         | Some r1 \<Rightarrow>
             if rr_err r1 \<noteq> 0 then Some (REDIS_ERR, None, r1)
             else
               (let r2 = discard r1
                in if rr_stack r2 = [] then Some (REDIS_OK, rr_reply r2, r2\<lparr>rr_reply := None\<rparr>)
                   else Some (REDIS_OK, None, r2))))"

section \<open>Numbers are read exactly\<close>

lemma digit_char_0: "digit_char 0 = CHR ''0''"
  by code_simp

lemma scan_digits_ge: "v \<le> scan_digits v s"
proof (induction s arbitrary: v)
  case (Cons c s)
  have "v \<le> v * 10 + digit_val c" by simp
  also have "\<dots> \<le> scan_digits (v * 10 + digit_val c) s" by (rule Cons.IH)
  finally show ?case by simp
qed simp

lemma ll_digits_Some:
  "ll_digits v s = Some n \<Longrightarrow> (\<forall>c \<in> set s. is_digit c) \<and> n = scan_digits v s"
  by (induction v s rule: ll_digits.induct) (auto split: if_splits)

lemma ll_digits_read:
  "\<forall>c \<in> set s. is_digit c \<Longrightarrow> scan_digits v s < 2 ^ 64 \<Longrightarrow> ll_digits v s = Some (scan_digits v s)"
proof (induction s arbitrary: v)
  case (Cons c s)
  have d: "digit_val c \<le> 9" "is_digit c" using Cons.prems(1) by (auto simp: is_digit_def digit_val_def)
  have "v * 10 + digit_val c < 2 ^ 64"
    using scan_digits_ge [of "v * 10 + digit_val c" s] Cons.prems by simp
  with d Cons show ?case by simp
qed simp

lemma show_nat_scan_digits:
  assumes "s \<noteq> []" and "\<forall>c \<in> set s. is_digit c" and "hd s \<noteq> CHR ''0''"
  shows "show_nat (scan_digits 0 s) = s \<and> 0 < scan_digits 0 s"
  using assms
proof (induction s rule: rev_induct)
  case (snoc c s)
  have c: "is_digit c" using snoc.prems by simp
  then have d: "digit_char (digit_val c) = c" "digit_val c < 10"
    by (auto simp: is_digit_def digit_val_def digit_char_def)
  show ?case
  proof (cases "s = []")
    case True
    have "digit_val c \<noteq> 0"
    proof
      assume "digit_val c = 0"
      with d(1) have "c = CHR ''0''" by (simp add: digit_char_0)
      with snoc.prems(3) True show False by simp
    qed
    with True c d show ?thesis by (subst show_nat.simps) simp
  next
    case False
    then have IH: "show_nat (scan_digits 0 s) = s" "0 < scan_digits 0 s" using snoc by auto
    have "scan_digits 0 (s @ [c]) = scan_digits 0 s * 10 + digit_val c"
      using snoc.prems(2) by (simp add: scan_digits_append)
    with IH d show ?thesis by (subst show_nat.simps) simp
  qed
qed simp

lemma show_nat_no_zero: "0 < n \<Longrightarrow> hd (show_nat n) \<noteq> CHR ''0''"
proof (induction n rule: show_nat.induct)
  case (1 n)
  show ?case
  proof (cases "n < 10")
    case True
    then have "digit_val (digit_char n) = n" "show_nat n = [digit_char n]" by (simp_all add: show_nat.simps [of n])
    with 1 show ?thesis by (auto simp: digit_val_def)
  next
    case False
    with 1 show ?thesis by (subst show_nat.simps) (simp add: hd_append)
  qed
qed

text \<open>
  Numbers are read exactly: string2ll accepts a text if and only if it is the decimal text of a value
  a long long can hold, and yields that value.
\<close>

lemma string2ll_exact: "string2ll s = Some v \<longleftrightarrow> is_int64 v \<and> s = show_int v"
proof
  assume *: "string2ll s = Some v"
  show "is_int64 v \<and> s = show_int v"
  proof (cases "s = ''0''")
    case True
    with * show ?thesis by (simp add: string2ll_def is_int64_def show_int_def show_nat.simps [of 0] digit_char_0)
  next
    case False
    let ?neg = "s \<noteq> [] \<and> hd s = CHR ''-''" and ?p = "if hd s = CHR ''-'' then tl s else s"
    from * False obtain c r n where p: "s \<noteq> []" "?p = c # r" "is_digit c" "c \<noteq> CHR ''0''" "ll_digits (digit_val c) r = Some n"
      and v: "if ?neg then n \<le> 2 ^ 63 \<and> v = - int n else n \<le> 2 ^ 63 - 1 \<and> v = int n"
      by (auto simp: string2ll_def Let_def split: if_splits list.splits option.splits)
    have "(\<forall>d \<in> set (c # r). is_digit d) \<and> n = scan_digits 0 (c # r)"
      using ll_digits_Some [OF p(5)] p(3) by simp
    with p(4) have n: "show_nat n = c # r" "0 < n" using show_nat_scan_digits [of "c # r"] by auto
    show ?thesis
    proof (cases ?neg)
      case True
      then have "s = CHR ''-'' # c # r" using p(2) by (cases s) auto
      with v n True show ?thesis by (simp add: show_int_def is_int64_def)
    next
      case False
      then have "s = c # r" using p(1,2) by (simp split: if_splits)
      with v n False show ?thesis by (auto simp: show_int_def is_int64_def)
    qed
  qed
next
  assume *: "is_int64 v \<and> s = show_int v"
  show "string2ll s = Some v"
  proof (cases "v = 0")
    case True
    with * show ?thesis by (simp add: string2ll_def show_int_def show_nat.simps [of 0] digit_char_0)
  next
    case False
    let ?n = "nat \<bar>v\<bar>"
    obtain c r where cr: "show_nat ?n = c # r" by (cases "show_nat ?n") auto
    have d: "is_digit c" "\<forall>d \<in> set r. is_digit d" "c \<noteq> CHR ''0''" "c \<noteq> CHR ''-''"
      using show_nat_digits [of ?n] show_nat_no_zero [of ?n] False cr by (auto simp: is_digit_def)
    have "scan_digits (digit_val c) r = ?n"
      using scan_digits_show_nat [of ?n] d(1) by (simp add: cr)
    moreover have "?n < 2 ^ 64" using * by (auto simp: is_int64_def)
    ultimately have ll: "ll_digits (digit_val c) r = Some ?n" using ll_digits_read [OF d(2)] by simp
    show ?thesis
    proof (cases "v < 0")
      case True
      then have "s = CHR ''-'' # c # r" using * cr by (simp add: show_int_def)
      moreover have "nat (- v) \<le> 2 ^ 63" using * by (auto simp: is_int64_def)
      ultimately show ?thesis using True d ll by (simp add: string2ll_def)
    next
      case False
      then have "s = c # r" using * cr by (simp add: show_int_def)
      moreover have "nat v \<le> 2 ^ 63 - 1" using * by (auto simp: is_int64_def)
      ultimately show ?thesis using False d ll by (auto simp: string2ll_def)
    qed
  qed
qed


section \<open>Reading in pieces\<close>

text \<open>More bytes behind the buffer, and fewer before it: neither changes what the reader does with the bytes it has.\<close>

definition fed :: "string \<Rightarrow> redis_reader \<Rightarrow> redis_reader" where
  "fed x r = r\<lparr>rr_buf := rr_buf r @ x\<rparr>"

definition shift :: "nat \<Rightarrow> redis_reader \<Rightarrow> redis_reader" where
  "shift k r = r\<lparr>rr_buf := drop k (rr_buf r), rr_pos := rr_pos r - k\<rparr>"

definition pos_ok :: "redis_reader \<Rightarrow> bool" where
  "pos_ok r \<longleftrightarrow> rr_pos r \<le> length (rr_buf r) \<and> length (rr_buf r) < 2 ^ 31"

primrec map_item :: "(redis_reader \<Rightarrow> redis_reader) \<Rightarrow> item_result \<Rightarrow> item_result" where
  "map_item f (ItemOk r) = ItemOk (f r)"
| "map_item f (ItemErr r) = ItemErr (f r)"
| "map_item f ItemFault = ItemFault"

lemma fed_simps [simp]:
  "rr_err (fed x r) = rr_err r" "rr_stack (fed x r) = rr_stack r" "rr_reply (fed x r) = rr_reply r" "rr_pos (fed x r) = rr_pos r"
  "rr_buf (fed x r) = rr_buf r @ x" "fed x (r\<lparr>rr_pos := p\<rparr>) = (fed x r)\<lparr>rr_pos := p\<rparr>" "fed [] r = r" "fed y (fed x r) = fed (x @ y) r"
  "fed x (r\<lparr>rr_stack := st\<rparr>) = (fed x r)\<lparr>rr_stack := st\<rparr>" "redisReaderSetError (fed x r) t str = redisReaderSetError r t str"
  by (simp_all add: fed_def redisReaderSetError_def)

lemma rest_of_fed: "pos_ok r \<Longrightarrow> rest_of (fed x r) = rest_of r @ x"
  by (simp add: rest_of_def pos_ok_def)

lemma seek_from_append: "seek_from k s = Some n \<Longrightarrow> k \<le> k' \<Longrightarrow> seek_from k' (s @ x) = Some n"
proof (induction k s arbitrary: k' n rule: seek_from.induct)
  case (1 k c d r)
  then obtain k'' where "k' = Suc k''" "k \<le> k''" by (cases k') auto
  with 1 show ?case by (auto split: if_splits)
qed simp_all

lemma seekNewline_small: "length s < 2 ^ 31 \<Longrightarrow> seekNewline s = seek_from (length s - 1) s"
  by (cases s) (simp_all add: seekNewline_def to_int32_id is_int32_def)

lemma seekNewline_append:
  "seekNewline s = Some n \<Longrightarrow> length (s @ x) < 2 ^ 31 \<Longrightarrow> seekNewline (s @ x) = Some n"
  using seek_from_append [of "length s - 1" s n "length (s @ x) - 1" x] by (simp add: seekNewline_small)

lemma created_fed: "created obj (fed x r) = map_item (fed x) (created obj r)"
  by (auto simp: created_def fed_def Let_def split: list.split prod.split option.split)

lemma created_cases: "(\<exists>r'. created obj r = ItemOk r' \<and> rr_buf r' = rr_buf r \<and> rr_pos r' = rr_pos r \<and> rr_err r' = rr_err r) \<or> created obj r = ItemFault"
  by (auto simp: created_def Let_def split: list.split prod.split option.split)

lemma rest_length [simp]: "length (rest_of r) = length (rr_buf r) - rr_pos r"
  by (simp add: rest_of_def)

lemma pos_ok_rest: "pos_ok r \<Longrightarrow> length (rest_of r) < 2 ^ 31"
  using rest_length [of r] unfolding pos_ok_def by linarith

lemma rest_after:
  assumes "rest_of r = s @ y" and "pos_ok r"
  shows "rest_of (r\<lparr>rr_pos := rr_pos r + length s\<rparr>) = y" and "pos_ok (r\<lparr>rr_pos := rr_pos r + length s\<rparr>)"
proof -
  have "drop (length s) (rest_of r) = y" using assms(1) by simp
  then show "rest_of (r\<lparr>rr_pos := rr_pos r + length s\<rparr>) = y" by (simp add: rest_of_def add.commute)
  have "length s \<le> length (rr_buf r) - rr_pos r" using rest_length [of r] assms(1) by simp
  then show "pos_ok (r\<lparr>rr_pos := rr_pos r + length s\<rparr>)" using assms(2) by (simp add: pos_ok_def; arith)
qed

lemma rest_small: "pos_ok (fed x r) \<Longrightarrow> length (rest_of r @ x) < 2 ^ 31"
  by (simp add: pos_ok_def; arith)

text \<open>With more bytes an item that could be processed, or was wrong, is processed as before.\<close>

definition continues :: "item_result \<Rightarrow> item_result \<Rightarrow> string \<Rightarrow> redis_reader \<Rightarrow> bool" where
  "continues a b x r \<longleftrightarrow>
     (case a of
        ItemOk r' \<Rightarrow> b = ItemOk (fed x r') \<and> pos_ok (fed x r') \<and> pos_ok r' \<and> rr_err r' = rr_err r
      | ItemErr r' \<Rightarrow> r' = r \<or> rr_err r' \<noteq> 0 \<and> b = ItemErr r'
      | ItemFault \<Rightarrow> b = ItemFault)"

lemma continues_created:
  "pos_ok (fed x r) \<Longrightarrow> pos_ok r \<Longrightarrow> rr_err r = rr_err r0 \<Longrightarrow> continues (created obj r) (created obj (fed x r)) x r0"
  using created_cases [of obj r] by (auto simp: continues_def created_fed pos_ok_def)

lemma continues_simps [simp]:
  "continues (ItemErr r) b x r" "continues ItemFault ItemFault x r"
  "t \<noteq> 0 \<Longrightarrow> continues (ItemErr (redisReaderSetError r' t str)) (ItemErr (redisReaderSetError r' t str)) x r"
  by (simp_all add: continues_def redisReaderSetError_def)

lemma readLine_fed:
  assumes "pos_ok (fed x r)" and "pos_ok r" and "readLine r = Some (p, r')"
  shows "readLine (fed x r) = Some (p, fed x r')" "pos_ok (fed x r')" "pos_ok r'" "rr_err r' = rr_err r" "rr_stack r' = rr_stack r"
proof -
  from assms(3) obtain n where n: "seekNewline (rest_of r) = Some n" "p = take n (rest_of r)" "r' = r\<lparr>rr_pos := rr_pos r + n + 2\<rparr>"
    by (auto simp: readLine_def split: option.splits)
  have "n + 2 \<le> length (rest_of r)" by (rule seekNewline_bound [OF n(1)])
  moreover have "seekNewline (rest_of r @ x) = Some n"
    by (rule seekNewline_append [OF n(1)]) (rule rest_small [OF assms(1)])
  ultimately show "readLine (fed x r) = Some (p, fed x r')" "pos_ok (fed x r')" "pos_ok r'" "rr_err r' = rr_err r" "rr_stack r' = rr_stack r"
    using assms(1,2) n by (simp_all add: readLine_def rest_of_fed pos_ok_def)
qed

lemma process_typed_fed:
  assumes "pos_ok (fed x r)" and "pos_ok r"
  shows "continues (process_typed t r) (process_typed t (fed x r)) x r"
proof -
  have line: "continues (processLineItem t r) (processLineItem t (fed x r)) x r" for t
  proof (cases "readLine r")
    case (Some pr)
    obtain p r' where pr: "pr = (p, r')" by (cases pr)
    note l = readLine_fed [OF assms Some [unfolded pr]]
    then show ?thesis
      using Some pr by (auto simp: processLineItem_def intro: continues_created split: option.split)
  qed (simp add: processLineItem_def)
  have bulk: "continues (processBulkItem r) (processBulkItem (fed x r)) x r"
  proof (cases "seekNewline (rest_of r)")
    case (Some n)
    have b: "n + 2 \<le> length (rest_of r)" by (rule seekNewline_bound [OF Some])
    have s: "seekNewline (rest_of r @ x) = Some n"
      by (rule seekNewline_append [OF Some]) (rule rest_small [OF assms(1)])
    show ?thesis
    proof (cases "string2ll (take n (rest_of r))")
      case None
      with Some b s assms show ?thesis by (simp add: processBulkItem_def rest_of_fed)
    next
      case len: (Some len)
      let ?bytes = "rr_pos r + (n + 2 + nat len + 2)"
      show ?thesis
      proof (cases "0 \<le> len \<and> is_int64 (len + 2) \<and> ?bytes \<le> length (rr_buf r)")
        case True
        have "continues (created obj (r\<lparr>rr_pos := ?bytes\<rparr>)) (created obj (fed x (r\<lparr>rr_pos := ?bytes\<rparr>))) x r" for obj
          by (rule continues_created) (use assms True in \<open>simp_all add: pos_ok_def\<close>)
        with Some b s assms len True show ?thesis by (simp add: processBulkItem_def rest_of_fed Let_def)
      next
        case False
        have "continues (created RNil (r\<lparr>rr_pos := rr_pos r + n + 2\<rparr>)) (created RNil (fed x (r\<lparr>rr_pos := rr_pos r + n + 2\<rparr>))) x r"
          by (rule continues_created) (use assms b in \<open>simp_all add: pos_ok_def\<close>)
        with Some b s assms len False show ?thesis by (auto simp: processBulkItem_def rest_of_fed Let_def)
      qed
    qed
  qed (simp add: processBulkItem_def)
  have multi: "continues (processMultiBulkItem r) (processMultiBulkItem (fed x r)) x r"
  proof (cases "readLine r")
    case (Some pr)
    obtain p r' where pr: "pr = (p, r')" by (cases pr)
    note l = readLine_fed [OF assms Some [unfolded pr]]
    have push: "continues (ItemOk (r'\<lparr>rr_stack := st\<rparr>)) (ItemOk ((fed x r')\<lparr>rr_stack := st\<rparr>)) x r" for st
      using l by (simp add: continues_def pos_ok_def)
    show ?thesis
      using Some pr l push
      by (auto simp: processMultiBulkItem_def intro: continues_created split: option.split list.split)
  qed (simp add: processMultiBulkItem_def)
  show ?thesis using line bulk multi by (cases t) (simp_all add: process_typed_def)
qed


text \<open>An item, and the loop: with too few bytes they leave a reader that goes on where it stopped.\<close>

definition goes_on :: "(redis_reader \<Rightarrow> item_result) \<Rightarrow> string \<Rightarrow> redis_reader \<Rightarrow> bool" where
  "goes_on f x r \<longleftrightarrow>
     (case f r of
        ItemOk r' \<Rightarrow> f (fed x r) = ItemOk (fed x r') \<and> pos_ok (fed x r') \<and> pos_ok r' \<and> rr_err r' = rr_err r
      | ItemErr r' \<Rightarrow>
          rr_err r' \<noteq> 0 \<and> f (fed x r) = ItemErr r' \<or>
          f (fed x r) = f (fed x r') \<and> rr_stack r' \<noteq> [] \<and> pos_ok (fed x r') \<and> pos_ok r' \<and> rr_err r' = rr_err r
      | ItemFault \<Rightarrow> f (fed x r) = ItemFault)"

lemma processItem_fed:
  assumes "pos_ok (fed x r)" and "pos_ok r"
  shows "goes_on processItem x r"
proof (cases "rr_stack r")
  case (Cons cur st)
  show ?thesis
  proof (cases "rt_type cur")
    case (Some t)
    then show ?thesis
      using process_typed_fed [OF assms, of t] Cons assms
      by (auto simp: goes_on_def processItem_def continues_def split: item_result.splits)
  next
    case None
    show ?thesis
    proof (cases "rest_of r")
      case Nil
      then have "rr_pos r = length (rr_buf r)" using assms(2) by (auto simp: rest_of_def pos_ok_def)
      then have "processItem r = ItemErr r" using Cons None by (simp add: processItem_def readBytes_def)
      then show ?thesis using Cons assms by (simp add: goes_on_def)
    next
      case (Cons c cs)
      note rest = this
      let ?r = "r\<lparr>rr_pos := rr_pos r + 1\<rparr>"
      have lt: "rr_pos r < length (rr_buf r)" using rest by (cases "rr_pos r < length (rr_buf r)") (simp_all add: rest_of_def)
      have rb: "readBytes r 1 = Some ([c], ?r)" "readBytes (fed x r) 1 = Some ([c], fed x ?r)"
        using rest lt assms by (simp_all add: readBytes_def rest_of_fed)
      show ?thesis
      proof (cases "type_of_byte c")
        case None
        then show ?thesis
          using \<open>rr_stack r = cur # st\<close> \<open>rt_type cur = None\<close> rb
          by (simp add: goes_on_def processItem_def redisReaderSetErrorProtocolByte_def del: One_nat_def)
             (simp add: redisReaderSetError_def)
      next
        case (Some t)
        let ?r' = "?r\<lparr>rr_stack := cur\<lparr>rt_type := Some t\<rparr> # st\<rparr>"
        have ok: "pos_ok (fed x ?r')" "pos_ok ?r'" using assms lt by (simp_all add: pos_ok_def)
        have "processItem r = process_typed t ?r'" "processItem (fed x r) = process_typed t (fed x ?r')"
            "processItem (fed x ?r') = process_typed t (fed x ?r')"
          using \<open>rr_stack r = cur # st\<close> \<open>rt_type cur = None\<close> rb Some by (simp_all add: processItem_def del: One_nat_def)
        then show ?thesis
          using process_typed_fed [OF ok, of t] ok by (auto simp: goes_on_def continues_def split: item_result.splits)
      qed
    qed
  qed
qed (simp add: goes_on_def processItem_def)

lemma read_items_fed:
  assumes "pos_ok (fed x r)" and "pos_ok r"
  shows "goes_on read_items x r"
  using assms
proof (induction r rule: read_items.induct)
  case (1 r)
  show ?case
  proof (cases "rr_stack r = []")
    case True
    then show ?thesis using 1 by (simp add: goes_on_def read_items.simps [of r] read_items.simps [of "fed x r"])
  next
    case False
    note item = processItem_fed [OF "1.prems"]
    have unfold: "read_items r = (case processItem r of ItemOk r' \<Rightarrow> read_items r' | y \<Rightarrow> y)"
        "read_items (fed x r) = (case processItem (fed x r) of ItemOk r' \<Rightarrow> read_items r' | y \<Rightarrow> y)"
      using False by (simp_all add: read_items.simps [of r] read_items.simps [of "fed x r"])
    show ?thesis
    proof (cases "processItem r")
      case (ItemOk r')
      with item have r': "processItem (fed x r) = ItemOk (fed x r')" "pos_ok (fed x r')" "pos_ok r'" "rr_err r' = rr_err r"
        by (auto simp: goes_on_def)
      from "1.IH" [OF False ItemOk r'(2,3)] show ?thesis
        using ItemOk r' unfold by (cases "read_items r'") (auto simp: goes_on_def)
    next
      case (ItemErr r')
      with item unfold show ?thesis
        by (auto simp: goes_on_def read_items.simps [of "fed x r'"])
    next
      case ItemFault
      with item unfold show ?thesis by (simp add: goes_on_def)
    qed
  qed
qed

text \<open>Dropping bytes that were read.\<close>

lemma shift_simps [simp]:
  "rr_err (shift k r) = rr_err r" "rr_stack (shift k r) = rr_stack r" "rr_reply (shift k r) = rr_reply r"
  "shift k (redisReaderSetError r t str) = redisReaderSetError r t str" "redisReaderSetError (shift k r) t str = redisReaderSetError r t str"
  by (simp_all add: shift_def redisReaderSetError_def)

lemma rest_of_shift [simp]: "k \<le> rr_pos r \<Longrightarrow> rest_of (shift k r) = rest_of r"
  by (simp add: rest_of_def shift_def)

lemma created_shift: "created obj (shift k r) = map_item (shift k) (created obj r)"
  by (auto simp: created_def shift_def Let_def split: list.split prod.split option.split)


lemma created_pos: "created obj r = ItemOk r' \<Longrightarrow> rr_pos r' = rr_pos r"
  using created_cases [of obj r] by auto

lemma shift_pos: "k \<le> rr_pos r \<Longrightarrow> (shift k r)\<lparr>rr_pos := rr_pos (shift k r) + n\<rparr> = shift k (r\<lparr>rr_pos := rr_pos r + n\<rparr>)"
  by (simp add: shift_def)

lemmas shift_pos_Suc = shift_pos [where n = "Suc (Suc n)" for n, simplified]
  shift_pos [where n = "Suc (Suc (Suc (Suc n)))" for n, simplified]

lemma shift_room: "k \<le> rr_pos r \<Longrightarrow> rr_pos r \<le> length (rr_buf r) \<Longrightarrow>
    rr_pos (shift k r) + n \<le> length (rr_buf (shift k r)) \<longleftrightarrow> rr_pos r + n \<le> length (rr_buf r)"
  by (auto simp: shift_def)

lemmas shift_room_Suc = shift_room [where n = "Suc (Suc (Suc (Suc n)))" for n, simplified]

lemma readLine_shift:
  "k \<le> rr_pos r \<Longrightarrow> readLine (shift k r) = map_option (\<lambda>(p, r'). (p, shift k r')) (readLine r)"
  by (auto simp: readLine_def shift_pos_Suc split: option.split)

lemma readLine_pos: "readLine r = Some (p, r') \<Longrightarrow> rr_pos r \<le> rr_pos r'"
  by (auto simp: readLine_def split: option.splits)

lemma shift_stack: "(shift k r)\<lparr>rr_stack := st\<rparr> = shift k (r\<lparr>rr_stack := st\<rparr>)"
  by (simp add: shift_def)

lemma process_typed_shift:
  assumes "k \<le> rr_pos r" and "pos_ok r"
  shows "process_typed t (shift k r) = map_item (shift k) (process_typed t r)"
proof -
  have "processLineItem t (shift k r) = map_item (shift k) (processLineItem t r)" for t
    using assms by (auto simp: processLineItem_def readLine_shift created_shift split: option.split)
  moreover have "processBulkItem (shift k r) = map_item (shift k) (processBulkItem r)"
    using assms
    by (simp add: processBulkItem_def shift_pos_Suc shift_room_Suc add.assoc pos_ok_def created_shift Let_def split: option.split)
  moreover have "processMultiBulkItem (shift k r) = map_item (shift k) (processMultiBulkItem r)"
    using assms
    by (auto simp: processMultiBulkItem_def readLine_shift created_shift shift_stack split: option.split list.split)
  ultimately show ?thesis by (cases t) (simp_all add: process_typed_def)
qed


text \<open>The position and the buffer stay in step through an item.\<close>

abbreviation "ahead_of r r' \<equiv> rr_buf r' = rr_buf r \<and> rr_pos r \<le> rr_pos r' \<and> pos_ok r'"

lemma created_ahead:
  assumes "created obj r = ItemOk r'" and "ahead_of r0 r"
  shows "ahead_of r0 r'"
proof -
  have "rr_buf r' = rr_buf r" "rr_pos r' = rr_pos r" using created_cases [of obj r] assms(1) by auto
  with assms(2) show ?thesis by (auto simp: pos_ok_def)
qed

lemma readLine_ahead: "readLine r = Some (p, r') \<Longrightarrow> pos_ok r \<Longrightarrow> ahead_of r r'"
  using seekNewline_bound [of "rest_of r"] by (auto simp: readLine_def pos_ok_def split: option.splits)

lemma process_typed_ahead:
  assumes "process_typed t r = ItemOk r'" and "pos_ok r"
  shows "ahead_of r r'"
proof -
  have line: "ahead_of r r'" if "processLineItem t r = ItemOk r'" for t
    using that readLine_ahead [OF _ assms(2)]
    by (auto simp: processLineItem_def dest!: created_ahead [where ?r0.0 = r] split: option.splits if_splits)
  have bulk: "ahead_of r r'" if "processBulkItem r = ItemOk r'"
    using that assms(2) seekNewline_bound [of "rest_of r"]
    by (auto simp: processBulkItem_def pos_ok_def Let_def dest!: created_ahead [where ?r0.0 = r] split: option.splits if_splits)
  have multi: "ahead_of r r'" if "processMultiBulkItem r = ItemOk r'"
  proof -
    from that obtain p r2 where r2: "readLine r = Some (p, r2)" by (auto simp: processMultiBulkItem_def split: if_splits option.splits)
    have "ahead_of r r2" by (rule readLine_ahead [OF r2 assms(2)])
    with that r2 show ?thesis
      by (auto simp: processMultiBulkItem_def pos_ok_def dest!: created_ahead [where ?r0.0 = r] split: if_splits option.splits list.splits)
  qed
  show ?thesis using assms(1) line bulk multi by (cases t) (auto simp: process_typed_def)
qed

lemma processItem_ahead:
  assumes "processItem r = ItemOk r'" and "pos_ok r"
  shows "ahead_of r r'"
proof (cases "\<exists>t. process_typed t r = ItemOk r'")
  case False
  then obtain cur st t c cs r1 where "readBytes r 1 = Some (c # cs, r1)" "process_typed t (r1\<lparr>rr_stack := cur # st\<rparr>) = ItemOk r'"
    using assms(1) by (auto simp: processItem_def split: list.splits option.splits)
  moreover from this(1) have "ahead_of r r1" using assms(2) by (auto simp: readBytes_def pos_ok_def split: if_splits)
  ultimately show ?thesis
    using process_typed_ahead [of t "r1\<lparr>rr_stack := cur # st\<rparr>" r'] by (auto simp: pos_ok_def)
qed (use process_typed_ahead assms(2) in blast)

lemma processItem_shift:
  assumes "k \<le> rr_pos r" and "pos_ok r"
  shows "processItem (shift k r) = map_item (shift k) (processItem r)"
proof (cases "rr_stack r")
  case (Cons cur st)
  show ?thesis
  proof (cases "rt_type cur")
    case (Some t)
    then show ?thesis using Cons process_typed_shift [OF assms, of t] by (simp add: processItem_def)
  next
    case None
    have rb: "readBytes (shift k r) 1 = map_option (\<lambda>(c, r'). (c, shift k r')) (readBytes r 1)"
      using assms by (auto simp: readBytes_def pos_ok_def shift_def rest_of_def)
    show ?thesis
    proof (cases "readBytes r 1")
      case (Some cr)
      obtain cs r1 where cr: "cr = (cs, r1)" by (cases cr)
      then have r1: "k \<le> rr_pos r1" "pos_ok r1" "rr_stack r1 = rr_stack r"
        using Some assms by (auto simp: readBytes_def pos_ok_def split: if_splits)
      have "process_typed t (shift k (r1\<lparr>rr_stack := st'\<rparr>)) = map_item (shift k) (process_typed t (r1\<lparr>rr_stack := st'\<rparr>))" for t st'
        by (rule process_typed_shift) (use r1 in \<open>simp_all add: pos_ok_def\<close>)
      then show ?thesis
        using Cons None rb Some cr
        by (auto simp: processItem_def shift_stack redisReaderSetErrorProtocolByte_def split: list.split option.split)
    qed (use Cons None rb in \<open>simp add: processItem_def\<close>)
  qed
qed (simp add: processItem_def)

lemma read_items_shift:
  assumes "k \<le> rr_pos r" and "pos_ok r"
  shows "read_items (shift k r) = map_item (shift k) (read_items r)"
  using assms
proof (induction r rule: read_items.induct)
  case (1 r)
  show ?case
  proof (cases "rr_stack r = []")
    case False
    note item = processItem_shift [OF "1.prems"]
    show ?thesis
    proof (cases "processItem r")
      case (ItemOk r')
      then have "k \<le> rr_pos r'" "pos_ok r'" using processItem_ahead [OF ItemOk "1.prems"(2)] "1.prems"(1) by simp_all
      from "1.IH" [OF False ItemOk this] show ?thesis
        using False item ItemOk by (simp add: read_items.simps [of r] read_items.simps [of "shift k r"])
    qed (use False item in \<open>simp_all add: read_items.simps [of r] read_items.simps [of "shift k r"]\<close>)
  qed (simp add: read_items.simps [of r] read_items.simps [of "shift k r"])
qed

section \<open>Replies and their texts\<close>

fun encode_reply :: "redis_reply \<Rightarrow> string" where
  "encode_reply (RStatus s) = CHR ''+'' # s @ CRLF"
| "encode_reply (RError s) = CHR ''-'' # s @ CRLF"
| "encode_reply (RInteger i) = CHR '':'' # show_int i @ CRLF"
| "encode_reply RNil = CHR ''$'' # show_int (- 1) @ CRLF"
| "encode_reply (RString s) = CHR ''$'' # show_int (int (length s)) @ CRLF @ s @ CRLF"
| "encode_reply (RArray vs) = CHR ''*'' # show_int (int (length vs)) @ CRLF @ concat (map encode_reply vs)"

fun depth_of :: "redis_reply \<Rightarrow> nat" where
  "depth_of (RArray vs) = Suc (foldr (\<lambda>v n. max (depth_of v) n) vs 0)"
| "depth_of _ = 0"

text \<open>A line has no carriage return in it, and an integer fits.\<close>

fun encodable :: "redis_reply \<Rightarrow> bool" where
  "encodable (RStatus s) \<longleftrightarrow> CHR 0x0D \<notin> set s"
| "encodable (RError s) \<longleftrightarrow> CHR 0x0D \<notin> set s"
| "encodable (RInteger i) \<longleftrightarrow> is_int64 i"
| "encodable (RArray vs) \<longleftrightarrow> (\<forall>v \<in> set vs. encodable v)"
| "encodable _ \<longleftrightarrow> True"

lemma depth_of_elem: "v \<in> set vs \<Longrightarrow> depth_of v < depth_of (RArray vs)"
  by (induction vs) auto

lemma seek_line:
  assumes "CHR 0x0D \<notin> set s" and "length s < k"
  shows "seek_from k (s @ CHR 0x0D # CHR 0x0A # y) = Some (length s)"
  using assms
proof (induction s arbitrary: k)
  case Nil
  then show ?case by (cases k) simp_all
next
  case (Cons c s)
  then obtain k' where k: "k = Suc k'" "length s < k'" by (cases k) auto
  obtain d r where d: "s @ CHR 0x0D # CHR 0x0A # y = d # r" by (cases "s @ CHR 0x0D # CHR 0x0A # y") auto
  with Cons.IH [of k'] Cons.prems k show ?case by (auto simp: d)
qed

lemma seekNewline_line:
  assumes "CHR 0x0D \<notin> set s" and "length (s @ CRLF @ y) < 2 ^ 31"
  shows "seekNewline (s @ CRLF @ y) = Some (length s)"
  using assms seek_line [OF assms(1), of "length (s @ CRLF @ y) - 1" y] by (subst seekNewline_small) simp_all

lemma show_int_plain: "CHR 0x0D \<notin> set (show_int i)"
  using show_nat_digits [of "nat i"] show_nat_digits [of "nat (- i)"] by (auto simp: show_int_def is_digit_def)


text \<open>Reading the text of a reply amounts to creating the reply.\<close>

definition then_items :: "item_result \<Rightarrow> item_result" where
  "then_items x = (case x of ItemOk r \<Rightarrow> read_items r | y \<Rightarrow> y)"

definition reads_as :: "redis_reply \<Rightarrow> bool" where
  "reads_as v \<longleftrightarrow>
     (\<forall>r cur st y. rr_stack r = cur # st \<longrightarrow> rt_type cur = None \<longrightarrow> length st + depth_of v < 9 \<longrightarrow> pos_ok r \<longrightarrow>
        rest_of r = encode_reply v @ y \<longrightarrow>
        read_items r = then_items (created v (r\<lparr>rr_pos := rr_pos r + length (encode_reply v)\<rparr>)))"

lemma created_type: "rr_stack r = cur # st \<Longrightarrow> rt_idx cur' = rt_idx cur \<Longrightarrow> created v (r\<lparr>rr_stack := cur' # st\<rparr>) = created v r"
  by (cases st) (auto simp: created_def Let_def split: option.split)

lemma rest_cons:
  assumes "rest_of r = c # cs"
  shows "rest_of (r\<lparr>rr_pos := rr_pos r + 1\<rparr>) = cs" and "rr_pos r < length (rr_buf r)"
  proof -
  show lt: "rr_pos r < length (rr_buf r)" using assms by (cases "rr_pos r < length (rr_buf r)") (simp_all add: rest_of_def)
  show "rest_of (r\<lparr>rr_pos := rr_pos r + 1\<rparr>) = cs"
    using assms Cons_nth_drop_Suc [OF lt] by (simp add: rest_of_def)
qed

lemma processItem_type:
  assumes "rr_stack r = cur # st" and "rt_type cur = None" and "rest_of r = c # cs" and "type_of_byte c = Some t"
  shows "processItem r = process_typed t (r\<lparr>rr_pos := rr_pos r + 1, rr_stack := cur\<lparr>rt_type := Some t\<rparr> # st\<rparr>)"
proof -
  have "1 \<le> length (rr_buf r) - rr_pos r" using rest_cons(2) [OF assms(3)] by simp
  moreover have "take 1 (c # cs) = [c]" by simp
  ultimately show ?thesis using assms by (simp add: processItem_def readBytes_def del: One_nat_def)
qed

lemma readLine_line:
  assumes "rest_of r = s @ CRLF @ y" and "CHR 0x0D \<notin> set s" and "pos_ok r"
  shows "readLine r = Some (s, r\<lparr>rr_pos := rr_pos r + length s + 2\<rparr>)"
proof -
  have "length (rest_of r) < 2 ^ 31" unfolding rest_length using assms(3) by (simp add: pos_ok_def; arith)
  with assms(1) seekNewline_line [OF assms(2), of y] show ?thesis by (simp add: readLine_def)
qed

lemma read_items_step: "rr_stack r \<noteq> [] \<Longrightarrow> read_items r = then_items (processItem r)"
  by (simp add: read_items.simps [of r] then_items_def)

text \<open>The reader after n more bytes with the type of its task known.\<close>

definition at_type :: "reply_type \<Rightarrow> redis_reader \<Rightarrow> redis_reader" where
  "at_type t r = r\<lparr>rr_pos := rr_pos r + 1, rr_stack := (hd (rr_stack r))\<lparr>rt_type := Some t\<rparr> # tl (rr_stack r)\<rparr>"

lemma created_at_type:
  "rr_stack r = cur # st \<Longrightarrow> created v ((at_type t r)\<lparr>rr_pos := p\<rparr>) = created v (r\<lparr>rr_pos := p\<rparr>)"
proof -
  assume st: "rr_stack r = cur # st"
  have "(at_type t r)\<lparr>rr_pos := p\<rparr> = (r\<lparr>rr_pos := p\<rparr>)\<lparr>rr_stack := cur\<lparr>rt_type := Some t\<rparr> # st\<rparr>"
    using st by (simp add: at_type_def)
  then show ?thesis using st created_type [of "r\<lparr>rr_pos := p\<rparr>" cur st "cur\<lparr>rt_type := Some t\<rparr>" v] by simp
qed

lemma at_type_ok:
  assumes "rest_of r = c # cs" and "pos_ok r"
  shows "rest_of (at_type t r) = cs" and "pos_ok (at_type t r)"
  using rest_cons [OF assms(1)] assms(2) by (simp_all add: at_type_def rest_of_def pos_ok_def)

lemma read_items_typed:
  assumes "rr_stack r = cur # st" and "rt_type cur = None" and "rest_of r = c # cs" and "type_of_byte c = Some t"
  shows "read_items r = then_items (process_typed t (at_type t r))"
  using assms processItem_type [OF assms] by (simp add: read_items_step at_type_def)

lemma reads_as_typed:
  assumes "encode_reply v = c # w" and "type_of_byte c = Some t"
    and "\<And>r y. rr_stack r \<noteq> [] \<Longrightarrow> pos_ok r \<Longrightarrow> rest_of r = w @ y \<Longrightarrow>
        process_typed t r = created v (r\<lparr>rr_pos := rr_pos r + length w\<rparr>)"
  shows "reads_as v"
  unfolding reads_as_def
proof (intro allI impI)
  fix r cur st y
  assume *: "rr_stack r = cur # st" "rt_type cur = None" "pos_ok r" "rest_of r = encode_reply v @ y"
  then have rest: "rest_of r = c # w @ y" using assms(1) by simp
  let ?r = "at_type t r"
  have "process_typed t ?r = created v (?r\<lparr>rr_pos := rr_pos ?r + length w\<rparr>)"
    by (rule assms(3)) (use at_type_ok [OF rest *(3)] in \<open>auto simp: at_type_def\<close>)
  also have "\<dots> = created v (r\<lparr>rr_pos := rr_pos r + length (encode_reply v)\<rparr>)"
    by (simp only: created_at_type [OF *(1)]) (simp add: at_type_def assms(1))
  finally show "read_items r = then_items (created v (r\<lparr>rr_pos := rr_pos r + length (encode_reply v)\<rparr>))"
    using read_items_typed [OF *(1,2) rest assms(2)] by simp
qed

lemma readLine_line_end:
  "rest_of r = (s @ CRLF) @ y \<Longrightarrow> CHR 0x0D \<notin> set s \<Longrightarrow> pos_ok r \<Longrightarrow> readLine r = Some (s, r\<lparr>rr_pos := rr_pos r + length (s @ CRLF)\<rparr>)"
  using readLine_line [of r s y] by simp

lemma reads_as_line:
  assumes "encode_reply v = c # s @ CRLF" and "CHR 0x0D \<notin> set s" and "type_of_byte c = Some t"
    and "\<And>r r'. readLine r = Some (s, r') \<Longrightarrow> process_typed t r = created v r'"
  shows "reads_as v"
proof (rule reads_as_typed [OF assms(1,3)])
  fix r y
  assume "pos_ok r" and "rest_of r = (s @ CRLF) @ y"
  then show "process_typed t r = created v (r\<lparr>rr_pos := rr_pos r + length (s @ CRLF)\<rparr>)"
    by (intro assms(4) readLine_line_end assms(2))
qed

lemma reads_as_line_items:
  "CHR 0x0D \<notin> set s \<Longrightarrow> reads_as (RStatus s)" "CHR 0x0D \<notin> set s \<Longrightarrow> reads_as (RError s)"
  by (rule reads_as_line, simp, assumption, simp add: type_of_byte_def, simp add: process_typed_def processLineItem_def)+

lemma reads_as_integer: "is_int64 i \<Longrightarrow> reads_as (RInteger i)"
  using string2ll_exact [of "show_int i" i]
  by (intro reads_as_line [where c = "CHR '':''" and s = "show_int i" and t = REDIS_REPLY_INTEGER])
     (simp_all add: type_of_byte_def process_typed_def processLineItem_def show_int_plain)

lemma seekNewline_rest:
  assumes "rest_of r = show_int i @ CRLF @ y" and "pos_ok r"
  shows "seekNewline (rest_of r) = Some (length (show_int i))"
proof -
  have "length (rest_of r) < 2 ^ 31" unfolding rest_length using assms(2) by (simp add: pos_ok_def; arith)
  with assms(1) seekNewline_line [OF show_int_plain, of i y] show ?thesis by simp
qed

lemma reads_as_nil: "reads_as RNil"
proof (rule reads_as_typed [where c = "CHR ''$''" and t = REDIS_REPLY_STRING])
  fix r y
  assume *: "pos_ok r" "rest_of r = (show_int (- 1) @ CRLF) @ y"
  have "seekNewline (rest_of r) = Some (length (show_int (- 1)))"
    by (rule seekNewline_rest [of _ _ y]) (use * in simp_all)
  moreover have "string2ll (show_int (- 1)) = Some (- 1)" by (simp add: string2ll_exact is_int64_def)
  ultimately show "process_typed REDIS_REPLY_STRING r = created RNil (r\<lparr>rr_pos := rr_pos r + length (show_int (- 1) @ CRLF)\<rparr>)"
    using *(2) by (simp add: process_typed_def processBulkItem_def add.assoc)
qed (simp_all add: type_of_byte_def)

lemma reads_as_string: "reads_as (RString s)"
proof (rule reads_as_typed [where c = "CHR ''$''" and t = REDIS_REPLY_STRING])
  let ?n = "show_int (int (length s))"
  fix r y
  assume *: "rr_stack r \<noteq> []" "pos_ok r" "rest_of r = (?n @ CRLF @ s @ CRLF) @ y"
  have seek: "seekNewline (rest_of r) = Some (length ?n)"
    by (rule seekNewline_rest [of _ _ "s @ CRLF @ y"]) (use * in simp_all)
  have len: "length (rest_of r) = length ?n + 2 + length s + 2 + length y" using *(3) by simp
  have small: "length (rest_of r) < 2 ^ 31" "rr_pos r \<le> length (rr_buf r)" "length (rest_of r) = length (rr_buf r) - rr_pos r"
    using pos_ok_rest [OF *(2)] *(2) by (auto simp: pos_ok_def)
  have fits: "is_int64 (int (length s))" "is_int64 (int (length s) + 2)" "rr_pos r + (length ?n + 2 + length s + 2) \<le> length (rr_buf r)"
    using len small unfolding is_int64_def by simp_all
  then have "string2ll ?n = Some (int (length s))" using string2ll_exact by blast
  with seek *(3) fits show "process_typed REDIS_REPLY_STRING r = created (RString s) (r\<lparr>rr_pos := rr_pos r + length (?n @ CRLF @ s @ CRLF)\<rparr>)"
    by (simp add: process_typed_def processBulkItem_def Let_def add.assoc)
qed (simp_all add: type_of_byte_def)

text \<open>The elements of an array that are left, with those that were read in its task.\<close>

definition element_task :: "nat \<Rightarrow> read_task" where
  "element_task i = \<lparr>rt_type = None, rt_elements = - 1, rt_idx = int i, rt_obj = []\<rparr>"

lemma created_element:
  assumes "rr_stack r = element_task (length ds) # cur # st" and "rt_type cur = Some REDIS_REPLY_ARRAY"
    and "rt_elements cur = int (length ds + Suc k)" and "rt_obj cur = map Some ds @ replicate (Suc k) None"
  shows "created v r =
    (let cur' = cur\<lparr>rt_obj := map Some (ds @ [v]) @ replicate k None\<rparr>
     in if k = 0 then created (RArray (ds @ [v])) (r\<lparr>rr_stack := cur' # st\<rparr>)
        else ItemOk (r\<lparr>rr_stack := element_task (length (ds @ [v])) # cur' # st\<rparr>))"
proof -
  have upd: "(map Some ds @ replicate (Suc k) None)[length ds := Some v] = map Some (ds @ [v]) @ replicate k None"
    using list_update_append1 [of "length ds" "map Some ds @ [None]" "replicate k None" "Some v"] by (simp add: list_update_append)
  then have obj: "(rt_obj cur)[length ds := Some v] = map Some ds @ Some v # replicate k None" using assms(4) by simp
  show ?thesis
    unfolding created_def assms(1)
    using assms(2,3) by (simp add: obj element_task_def Let_def comp_def case_prod_beta split: option.split)
qed

lemma read_elements:
  assumes "\<forall>v \<in> set vs. reads_as v \<and> Suc (length st) + depth_of v < 9" and "vs \<noteq> []"
    and "rr_stack r = element_task (length ds) # cur # st" and "rt_type cur = Some REDIS_REPLY_ARRAY"
    and "rt_elements cur = int (length ds + length vs)" and "rt_obj cur = map Some ds @ replicate (length vs) None"
    and "rest_of r = concat (map encode_reply vs) @ y" and "pos_ok r"
  shows "read_items r = then_items (created (RArray (ds @ vs))
    (r\<lparr>rr_pos := rr_pos r + length (concat (map encode_reply vs)), rr_stack := cur # st\<rparr>))"
  using assms
proof (induction vs arbitrary: r ds cur)
  case (Cons v vs)
  let ?r = "r\<lparr>rr_pos := rr_pos r + length (encode_reply v)\<rparr>"
  let ?cur = "cur\<lparr>rt_obj := map Some (ds @ [v]) @ replicate (length vs) None\<rparr>"
  have ok: "rest_of ?r = concat (map encode_reply vs) @ y" "pos_ok ?r"
    by (rule rest_after [OF _ Cons.prems(8)], use Cons.prems(7) in simp)+
  have "read_items r = then_items (created v ?r)"
  proof -
    have "reads_as v" using Cons.prems(1) by simp
    from this [unfolded reads_as_def, rule_format, of r "element_task (length ds)" "cur # st"]
    show ?thesis using Cons.prems by (simp add: element_task_def)
  qed
  also have "created v ?r =
    (if length vs = 0 then created (RArray (ds @ [v])) (?r\<lparr>rr_stack := ?cur # st\<rparr>)
     else ItemOk (?r\<lparr>rr_stack := element_task (length (ds @ [v])) # ?cur # st\<rparr>))"
    using created_element [of ?r ds cur st "length vs" v] Cons.prems by (simp add: Let_def)
  finally have step: "read_items r = then_items \<dots>" .
  show ?case
  proof (cases "vs = []")
    case True
    have "created (RArray (ds @ [v])) ((?r\<lparr>rr_stack := cur # st\<rparr>)\<lparr>rr_stack := ?cur # st\<rparr>) = created (RArray (ds @ [v])) (?r\<lparr>rr_stack := cur # st\<rparr>)"
      by (rule created_type) simp_all
    with step True show ?thesis by simp
  next
    case False
    let ?r1 = "?r\<lparr>rr_stack := element_task (length (ds @ [v])) # ?cur # st\<rparr>"
    have "read_items ?r1 = then_items (created (RArray ((ds @ [v]) @ vs))
        (?r1\<lparr>rr_pos := rr_pos ?r1 + length (concat (map encode_reply vs)), rr_stack := ?cur # st\<rparr>))"
      by (rule Cons.IH) (use Cons.prems False ok in \<open>simp_all add: pos_ok_def rest_of_def\<close>)
    moreover have "created x ((r\<lparr>rr_pos := p, rr_stack := cur # st\<rparr>)\<lparr>rr_stack := ?cur # st\<rparr>) = created x (r\<lparr>rr_pos := p, rr_stack := cur # st\<rparr>)" for x p
      by (rule created_type) simp_all
    ultimately show ?thesis using step False by (simp add: then_items_def add.assoc)
  qed
qed simp

lemma encode_reply_nonempty [simp]: "encode_reply v \<noteq> []"
  by (cases v) simp_all

lemma length_encode_replies: "length vs \<le> length (concat (map encode_reply vs))"
proof (induction vs)
  case (Cons v vs)
  have "0 < length (encode_reply v)" by simp
  with Cons.IH show ?case by (simp del: length_greater_0_conv)
qed simp

lemma reads_as_array:
  assumes "\<forall>v \<in> set vs. reads_as v"
  shows "reads_as (RArray vs)"
proof -
  have "read_items r = then_items (created (RArray vs) (r\<lparr>rr_pos := rr_pos r + length (encode_reply (RArray vs))\<rparr>))"
    if r: "rr_stack r = cur # st" "rt_type cur = None" "length st + depth_of (RArray vs) < 9" "pos_ok r"
      "rest_of r = encode_reply (RArray vs) @ y" for r cur st y
  proof -
    let ?n = "int (length vs)" and ?c = "concat (map encode_reply vs)"
    let ?h = "show_int ?n"
    let ?r = "at_type REDIS_REPLY_ARRAY r"
    have rest: "rest_of r = CHR ''*'' # ?h @ CRLF @ ?c @ y" using r(5) by simp
    have ty: "rest_of ?r = ?h @ CRLF @ ?c @ y" "pos_ok ?r" by (rule at_type_ok [OF rest r(4)])+
    let ?r1 = "?r\<lparr>rr_pos := rr_pos ?r + length (?h @ CRLF)\<rparr>"
    have line: "readLine ?r = Some (?h, ?r1)"
      by (rule readLine_line_end [of _ _ "?c @ y"]) (use ty show_int_plain in simp_all)
    have r1: "rest_of ?r1 = ?c @ y" "pos_ok ?r1"
      by (rule rest_after [OF _ ty(2)], use ty in simp)+
    have small: "length vs < 2 ^ 31"
      using pos_ok_rest [OF r1(2)] length_encode_replies [of vs] unfolding r1(1) by simp
    then have num: "string2ll ?h = Some ?n" by (simp add: string2ll_exact is_int64_def)
    have st: "rr_stack ?r = cur\<lparr>rt_type := Some REDIS_REPLY_ARRAY\<rparr> # st" using r(1) by (simp add: at_type_def)
    have read: "read_items r = then_items (processMultiBulkItem ?r)"
      using read_items_typed [OF r(1,2) rest] by (simp add: type_of_byte_def process_typed_def)
    show ?thesis
    proof (cases "vs = []")
      case True
      then have "processMultiBulkItem ?r = created (RArray []) ?r1"
        using st line num r(3) by (simp add: processMultiBulkItem_def)
      also have "\<dots> = created (RArray vs) (r\<lparr>rr_pos := rr_pos r + length (encode_reply (RArray vs))\<rparr>)"
        by (simp only: created_at_type [OF r(1)]) (simp add: at_type_def True)
      finally show ?thesis using read by simp
    next
      case False
      let ?cur = "cur\<lparr>rt_type := Some REDIS_REPLY_ARRAY, rt_elements := ?n, rt_obj := replicate (length vs) None\<rparr>"
      let ?r2 = "?r1\<lparr>rr_stack := element_task 0 # ?cur # st\<rparr>"
      have "processMultiBulkItem ?r = ItemOk ?r2"
        using st line num r(3) False small by (simp add: processMultiBulkItem_def element_task_def)
      then have "read_items r = read_items ?r2" using read by (simp add: then_items_def)
      also have "\<dots> = then_items (created (RArray ([] @ vs)) (?r2\<lparr>rr_pos := rr_pos ?r2 + length ?c, rr_stack := ?cur # st\<rparr>))"
        by (rule read_elements [where y = y])
           (use assms r1 r(3) depth_of_elem [of _ vs] False in \<open>fastforce simp: pos_ok_def rest_of_def\<close>)+
      also have "created (RArray ([] @ vs)) (?r2\<lparr>rr_pos := rr_pos ?r2 + length ?c, rr_stack := ?cur # st\<rparr>) =
          created (RArray vs) ((r\<lparr>rr_pos := rr_pos r + length (encode_reply (RArray vs))\<rparr>)\<lparr>rr_stack := ?cur # st\<rparr>)"
        by (simp add: at_type_def add.assoc)
      also have "\<dots> = created (RArray vs) (r\<lparr>rr_pos := rr_pos r + length (encode_reply (RArray vs))\<rparr>)"
        by (rule created_type) (use r(1) in simp_all)
      finally show ?thesis .
    qed
  qed
  then show ?thesis unfolding reads_as_def by blast
qed

lemma reads_as_encodable: "encodable v \<Longrightarrow> reads_as v"
  by (induction v rule: encodable.induct)
     (auto simp: reads_as_line_items reads_as_integer reads_as_nil reads_as_string intro: reads_as_array)

section \<open>A reply in pieces\<close>

text \<open>The bytes come in pieces, and after each a reply is asked for. What comes out of each piece.\<close>

fun read_pieces :: "redis_reader \<Rightarrow> string list \<Rightarrow> (redis_reply option list \<times> redis_reader) option" where
  "read_pieces r [] = Some ([], r)"
| "read_pieces r (c # cs) =
     (case redisReaderGetReply (snd (redisReaderFeed r c)) of
        Some (_, v, r') \<Rightarrow> map_option (\<lambda>(vs, r''). (v # vs, r'')) (read_pieces r' cs)
      | None \<Rightarrow> None)"

definition will_read :: "redis_reply \<Rightarrow> string \<Rightarrow> redis_reader \<Rightarrow> bool" where
  "will_read v x r \<longleftrightarrow>
     rr_err r = 0 \<and> pos_ok r \<and> pos_ok (fed x r) \<and>
     (\<exists>R. read_items (first_task (fed x r)) = ItemOk R \<and> rr_stack R = [] \<and> rr_reply R = Some v \<and> unread R = 0)"

lemma first_task_fed: "first_task (fed x r) = fed x (first_task r)"
  by (simp add: first_task_def)

lemma first_task_simps [simp]:
  "rr_err (first_task r) = rr_err r" "pos_ok (first_task r) = pos_ok r"
  "rr_buf (first_task r) = rr_buf r" "rr_pos (first_task r) = rr_pos r" "rr_stack (first_task r) \<noteq> []"
  by (simp_all add: first_task_def pos_ok_def)

lemma first_task_id: "rr_stack r \<noteq> [] \<Longrightarrow> first_task r = r"
  by (simp add: first_task_def)

lemma discard_cases: "discard r = r \<or> discard r = shift (rr_pos r) r"
  by (simp add: discard_def shift_def)

lemma will_read_discard:
  assumes "will_read v x r" and "rr_stack r \<noteq> []"
  shows "will_read v x (discard r)"
proof (cases "discard r = r")
  case False
  let ?k = "rr_pos r"
  from assms obtain R where R: "read_items (fed x r) = ItemOk R" "rr_stack R = []" "rr_reply R = Some v" "unread R = 0"
    and r: "rr_err r = 0" "pos_ok r" "pos_ok (fed x r)"
    by (auto simp: will_read_def first_task_id)
  have comm: "fed x (shift ?k r) = shift ?k (fed x r)" using r(2) by (simp add: fed_def shift_def pos_ok_def)
  have "read_items (shift ?k (fed x r)) = ItemOk (shift ?k R)"
    using read_items_shift [of ?k "fed x r"] r R(1) by simp
  moreover have "pos_ok (shift ?k r)" "pos_ok (shift ?k (fed x r))" using r by (auto simp: shift_def pos_ok_def)
  moreover have "discard r = shift ?k r" using False discard_cases [of r] by simp
  moreover have "unread (shift ?k R) = 0" using R(4) by (auto simp: unread_def shift_def)
  ultimately show ?thesis using R r assms(2) comm by (simp add: will_read_def first_task_id)
qed (use assms in simp)

lemma will_read_piece:
  assumes "will_read v (c @ y) r" and "c \<noteq> []" and "y \<noteq> []"
  shows "\<exists>r'. redisReaderGetReply (snd (redisReaderFeed r c)) = Some (REDIS_OK, None, r') \<and> will_read v y r'"
proof -
  let ?r = "first_task (fed c r)"
  from assms(1) obtain R where R: "read_items (fed y ?r) = ItemOk R" "rr_stack R = []" "rr_reply R = Some v" "unread R = 0"
    and r: "rr_err r = 0" "pos_ok r" "pos_ok (fed y ?r)" "pos_ok ?r"
    by (auto simp: will_read_def pos_ok_def first_task_fed)
  have go: "goes_on read_items y ?r" by (rule read_items_fed [OF r(3,4)])
  have "read_items ?r \<noteq> ItemOk r'" for r'
  proof
    assume "read_items ?r = ItemOk r'"
    with go R have "R = fed y r'" "pos_ok r'" by (auto simp: goes_on_def)
    moreover have "0 < length y" using assms(3) by simp
    ultimately show False using R(4) by (simp add: unread_def pos_ok_def del: length_greater_0_conv)
  qed
  with go obtain r1 where r1: "read_items ?r = ItemErr r1" "read_items (fed y r1) = ItemOk R" "rr_stack r1 \<noteq> []" "pos_ok (fed y r1)"
      "pos_ok r1" "rr_err r1 = 0"
    using R(1) r(1) by (auto simp: goes_on_def split: item_result.splits)
  then have "will_read v y r1" using R by (simp add: will_read_def first_task_id)
  then have "will_read v y (discard r1)" using will_read_discard r1(3) by blast
  moreover have "redisReaderGetReply (snd (redisReaderFeed r c)) = Some (REDIS_OK, None, discard r1)"
    using r1 r(1) assms(2)
    by (simp add: redisReaderFeed_def redisReaderGetReply_def fed_def [symmetric] discard_def Let_def)
  ultimately show ?thesis by blast
qed

text \<open>A reader between two replies: all bytes are read, and the first task may be there already.\<close>

definition idle_reader :: "redis_reader \<Rightarrow> bool" where
  "idle_reader r \<longleftrightarrow>
     rr_err r = 0 \<and> unread r = 0 \<and> rr_pos r \<le> length (rr_buf r) \<and> length (rr_buf r) < 1024 \<and>
     rr_stack (first_task r) = [\<lparr>rt_type = None, rt_elements = - 1, rt_idx = - 1, rt_obj = []\<rparr>]"

lemma idle_reader_created: "idle_reader redisReaderCreate"
  by (simp add: idle_reader_def redisReaderCreate_def first_task_def unread_def)

lemma will_read_last:
  assumes "will_read v c r" and "c \<noteq> []"
  shows "\<exists>r'. redisReaderGetReply (snd (redisReaderFeed r c)) = Some (REDIS_OK, Some v, r') \<and> idle_reader r'"
proof -
  let ?r = "first_task (fed c r)"
  from assms(1) obtain R where R: "read_items ?r = ItemOk R" "rr_stack R = []" "rr_reply R = Some v" "unread R = 0"
    and r: "rr_err r = 0" "pos_ok ?r"
    by (auto simp: will_read_def)
  have ok: "rr_err R = 0 \<and> pos_ok R" using read_items_fed [of "[]" ?r] R(1) r by (simp add: goes_on_def)
  let ?R = "discard R\<lparr>rr_reply := None\<rparr>"
  have "idle_reader ?R"
    using R(2,4) ok by (auto simp: idle_reader_def discard_def unread_def pos_ok_def first_task_def)
  moreover have "redisReaderGetReply (snd (redisReaderFeed r c)) = Some (REDIS_OK, Some v, ?R)"
    using R ok r(1) assms(2)
    by (simp add: redisReaderFeed_def redisReaderGetReply_def fed_def [symmetric] discard_def Let_def)
  ultimately show ?thesis by blast
qed

lemma will_read_pieces:
  "will_read v (concat cs) r \<Longrightarrow> [] \<notin> set cs \<Longrightarrow> cs \<noteq> [] \<Longrightarrow>
    \<exists>r'. read_pieces r cs = Some (replicate (length cs - 1) None @ [Some v], r') \<and> idle_reader r'"
proof (induction cs arbitrary: r)
  case (Cons c cs)
  show ?case
  proof (cases "cs = []")
    case True
    with Cons.prems will_read_last [of v c r] show ?thesis by auto
  next
    case False
    then have "concat cs \<noteq> []" using Cons.prems(2) by (cases cs) auto
    with Cons.prems obtain r1 where r1: "redisReaderGetReply (snd (redisReaderFeed r c)) = Some (REDIS_OK, None, r1)"
      "will_read v (concat cs) r1"
      using will_read_piece [of v c "concat cs" r] by auto
    obtain n where "length cs = Suc n" using False by (cases cs) auto
    moreover have "[] \<notin> set cs" using Cons.prems(2) by simp
    ultimately show ?thesis using Cons.IH [OF r1(2) _ False] r1(1) by auto
  qed
qed simp

lemma will_read_encoded:
  assumes "encodable v" and "depth_of v \<le> 8" and "length (encode_reply v) + 1024 \<le> 2 ^ 31" and "idle_reader r0"
  shows "will_read v (encode_reply v) r0"
proof -
  let ?t = "\<lparr>rt_type = None, rt_elements = - 1, rt_idx = - 1, rt_obj = []\<rparr>"
  let ?r = "first_task (fed (encode_reply v) r0)"
  have pos: "rr_pos r0 = length (rr_buf r0)" using assms(4) by (simp add: idle_reader_def unread_def)
  have r: "rr_stack ?r = [?t]" "rr_pos ?r = length (rr_buf r0)" "rr_buf ?r = rr_buf r0 @ encode_reply v" "rr_err ?r = 0"
    using assms(4) pos by (simp_all add: first_task_fed idle_reader_def)
  have ok: "pos_ok ?r" "pos_ok r0" using assms(3,4) by (simp_all add: pos_ok_def idle_reader_def)
  have "read_items ?r = then_items (created v (?r\<lparr>rr_pos := rr_pos ?r + length (encode_reply v)\<rparr>))"
    using reads_as_encodable [OF assms(1), unfolded reads_as_def, rule_format, of ?r ?t "[]" "[]"] r ok assms(2)
    by (simp add: rest_of_def)
  also have "\<dots> = ItemOk (?r\<lparr>rr_pos := rr_pos ?r + length (encode_reply v), rr_stack := [], rr_reply := Some v\<rparr>)"
    using r by (simp add: created_def then_items_def Let_def read_items.simps)
  finally show ?thesis
    using ok r pos by (simp add: will_read_def unread_def)
qed

lemma read_pieces_idle:
  assumes "encodable v" and "depth_of v \<le> 8" and "concat cs = encode_reply v" and "[] \<notin> set cs"
    and "length (encode_reply v) + 1024 \<le> 2 ^ 31" and "idle_reader r0"
  shows "\<exists>r. read_pieces r0 cs = Some (replicate (length cs - 1) None @ [Some v], r) \<and> idle_reader r"
proof -
  have "cs \<noteq> []" using assms(3) encode_reply_nonempty [of v] by (metis concat.simps(1))
  then show ?thesis
    using will_read_pieces [of v cs r0] will_read_encoded [OF assms(1,2,5,6)] assms(3,4) by auto
qed

end
