(* ===== verification/Redis_Command.thy ===== *)
theory Redis_Command
  imports Redis_Reader Cache_Conn
begin

text \<open>
  redis/hiredis.c: commands are formatted, put into the output buffer of a context, written to the
  socket and answered through the reader. One answer of the socket is consumed by each read and each
  write; when there is no answer left the call has not returned yet, and the result is None. What the
  socket has taken is kept in the context. Memory is never exhausted. The arguments of a format are
  strings and integers; a conversion that finds no argument of its kind is a fault.
\<close>

section \<open>Formatting\<close>

function countDigits :: "nat \<Rightarrow> nat" where
  "countDigits v =
     (if v < 10 then 1 else if v < 100 then 2 else if v < 1000 then 3 else if v < 10000 then 4
      else countDigits (v div 10000) + 4)"
  by pat_completeness auto
termination by (relation "measure id") auto

declare countDigits.simps [simp del]

definition bulklen :: "nat \<Rightarrow> nat" where
  "bulklen len = 1 + countDigits len + 2 + len + 2"

definition command_length :: "string list \<Rightarrow> nat" where
  "command_length argv = 1 + countDigits (length argv) + 2 + sum_list (map (\<lambda>a. bulklen (length a)) argv)"

definition command_text :: "string list \<Rightarrow> string" where
  "command_text argv =
     CHR ''*'' # show_int (int (length argv)) @ CRLF @
     concat (map (\<lambda>a. CHR ''$'' # show_int (int (length a)) @ CRLF @ a @ CRLF) argv)"

text \<open>
  The end of a printf conversion after the percent sign: the part that begins with the conversion
  character. strchr finds the NUL in every string, so that a format that ends in the flags, the width
  or the precision counts as an integer conversion that ends at the NUL.
\<close>

datatype conversion = Conv_at string | Conv_at_nul | Conv_double | Conv_invalid

definition is_int_char :: "char \<Rightarrow> bool" where
  "is_int_char c \<longleftrightarrow> c \<in> set ''diouxX''"

definition is_double_char :: "char \<Rightarrow> bool" where
  "is_double_char c \<longleftrightarrow> c \<in> set ''eEfFgGaA''"

definition is_length_char :: "char \<Rightarrow> bool" where
  "is_length_char c \<longleftrightarrow> c = CHR ''h'' \<or> c = CHR ''l''"

definition int_conversion :: "string \<Rightarrow> conversion" where
  "int_conversion p = (case p of c # _ \<Rightarrow> if is_int_char c then Conv_at p else Conv_invalid | [] \<Rightarrow> Conv_invalid)"

definition after_width :: "string \<Rightarrow> string" where
  "after_width s = dropWhile is_digit (dropWhile (\<lambda>c. c \<in> set ''#0-+ '') s)"

definition after_precision :: "string \<Rightarrow> string" where
  "after_precision p = (case p of c # q \<Rightarrow> if c = CHR ''.'' then dropWhile is_digit q else p | [] \<Rightarrow> p)"

definition conversion_of :: "string \<Rightarrow> conversion" where
  "conversion_of p =
     (case p of
        [] \<Rightarrow> Conv_at_nul
      | c # q \<Rightarrow>
          if is_int_char c then Conv_at p
          else if is_double_char c then Conv_double
          else if is_length_char c then
            (if q \<noteq> [] \<and> hd q = c then int_conversion (tl q) else int_conversion q)
          else Conv_invalid)"

definition find_conversion :: "string \<Rightarrow> conversion" where
  "find_conversion s = conversion_of (after_precision (after_width s))"

datatype fmt_result = FmtArgs "string list" | FmtInvalid | FmtFault

definition also_arg :: "string \<Rightarrow> fmt_result \<Rightarrow> fmt_result" where
  "also_arg a r = (case r of FmtArgs as \<Rightarrow> FmtArgs (a # as) | x \<Rightarrow> x)"

lemma int_conversion_le: "int_conversion p = Conv_at q \<Longrightarrow> q = p \<and> q \<noteq> []"
  by (auto simp: int_conversion_def split: list.splits if_splits)

lemma conversion_of_le: "conversion_of p = Conv_at q \<Longrightarrow> q \<noteq> [] \<and> length q \<le> length p"
proof (cases p)
  case (Cons c r)
  assume *: "conversion_of p = Conv_at q"
  have "conversion_of p \<in> {Conv_at p, Conv_double, Conv_invalid, int_conversion (tl r), int_conversion r}"
    using Cons by (simp add: conversion_of_def)
  with * show ?thesis using Cons by (auto dest: int_conversion_le [OF sym])
qed (simp add: conversion_of_def)

lemma length_after_width: "length (after_width s) \<le> length s"
  unfolding after_width_def by (meson length_dropWhile_le order_trans)

lemma length_after_precision: "length (after_precision s) \<le> length s"
  using length_dropWhile_le [of is_digit "tl s"] by (auto simp: after_precision_def split: list.split)

lemma find_conversion_le: "find_conversion s = Conv_at p \<Longrightarrow> p \<noteq> [] \<and> length p \<le> length s"
  using conversion_of_le [of "after_precision (after_width s)" p] length_after_precision [of "after_width s"]
    length_after_width [of s]
  by (simp add: find_conversion_def)

text \<open>
  The loop over the format: cur is the argument that is being built, touched whether anything was put
  into it. pr prints one integer by one conversion, as vsnprintf does. A conversion of 14 characters or
  more is not printed, and the characters behind its percent sign and first flag are then taken as they
  are. A short format that ends inside a conversion is read on behind its end, a fault.
\<close>

function fmt_loop :: "(string \<Rightarrow> int \<Rightarrow> string) \<Rightarrow> string \<Rightarrow> parg list \<Rightarrow> string \<Rightarrow> bool \<Rightarrow> fmt_result" where
  "fmt_loop pr [] args cur touched = FmtArgs (if touched then [cur] else [])"
| "fmt_loop pr (c # r) args cur touched =
     (if c \<noteq> CHR ''%'' \<or> r = [] then
        (if c = CHR '' '' then
           (if touched then also_arg cur (fmt_loop pr r args [] False) else fmt_loop pr r args cur touched)
         else fmt_loop pr r args (cur @ [c]) True)
      else if hd r = CHR ''s'' then
        (case args of PStr a # as \<Rightarrow> fmt_loop pr (tl r) as (cur @ c_str a) True | _ \<Rightarrow> FmtFault)
      else if hd r = CHR ''b'' then
        (case args of
           PStr a # PInt n # as \<Rightarrow>
             if 0 \<le> n \<and> nat n \<le> length a then fmt_loop pr (tl r) as (cur @ take (nat n) a) True else FmtFault
         | _ \<Rightarrow> FmtFault)
      else if hd r = CHR ''%'' then fmt_loop pr (tl r) args (cur @ ''%'') True
      else
        (case find_conversion r of
           Conv_invalid \<Rightarrow> FmtInvalid
         | Conv_double \<Rightarrow> FmtFault
         | Conv_at_nul \<Rightarrow>
             (case args of
                PInt i # as \<Rightarrow> if length r + 2 < 14 then FmtFault else fmt_loop pr (tl r) as cur True
              | _ \<Rightarrow> FmtFault)
         | Conv_at p \<Rightarrow>
             (case args of
                PInt i # as \<Rightarrow>
                  (let l = length r - length p + 2
                   in if l < 14 then fmt_loop pr (tl p) as (cur @ pr (take l (c # r)) i) True
                      else fmt_loop pr (tl r) as cur True)
              | _ \<Rightarrow> FmtFault)))"
  by pat_completeness auto
termination
proof (relation "measure (\<lambda>(pr, fmt, args, cur, touched). length fmt)", goal_cases)
  case 8
  then show ?case by (auto dest!: find_conversion_le simp: less_Suc_eq_le intro: le_trans [OF diff_le_self])
qed auto

declare fmt_loop.simps(2) [simp del]

text \<open>strchr finds the NUL in every string: a format that ends in a flag is taken as a conversion, and read on behind its end.\<close>

lemma format_ends_in_flag: "fmt_loop pr ''%0'' [PInt i] [] False = FmtFault"
  by (simp add: fmt_loop.simps(2) find_conversion_def after_width_def after_precision_def conversion_of_def)

text \<open>
  The command for an argument vector: its length is computed first, in an int, and the assert compares
  it with what was written. None, it does not fit the int or the assert fails.
\<close>

definition build_command :: "string list \<Rightarrow> (int \<times> string) option" where
  "build_command argv =
     (if 2 ^ 31 \<le> command_length argv then None
      else if length (command_text argv) = command_length argv then Some (int (command_length argv), command_text argv)
      else None)"

definition redisvFormatCommand :: "(string \<Rightarrow> int \<Rightarrow> string) \<Rightarrow> string \<Rightarrow> parg list \<Rightarrow> (int \<times> string) option" where
  "redisvFormatCommand pr format ap =
     (case fmt_loop pr (c_str format) ap [] False of
        FmtArgs argv \<Rightarrow> build_command argv
      | FmtInvalid \<Rightarrow> Some (- 2, [])
      | FmtFault \<Rightarrow> None)"

definition redisFormatCommand :: "(string \<Rightarrow> int \<Rightarrow> string) \<Rightarrow> string \<Rightarrow> parg list \<Rightarrow> (int \<times> string) option" where
  "redisFormatCommand pr format ap =
     map_option (\<lambda>(len, cmd). (if len < 0 then - 1 else len, cmd)) (redisvFormatCommand pr format ap)"

text \<open>The arguments of a vector, by their lengths or, without lengths, up to their NUL.\<close>

definition argv_bytes :: "string list \<Rightarrow> nat list option \<Rightarrow> string list option" where
  "argv_bytes argv argvlen =
     (case argvlen of
        None \<Rightarrow> Some (map c_str argv)
      | Some ls \<Rightarrow> if list_all2 (\<lambda>n a. n \<le> length a) ls argv then Some (map2 take ls argv) else None)"

definition redisFormatCommandArgv :: "string list \<Rightarrow> nat list option \<Rightarrow> (int \<times> string) option" where
  "redisFormatCommandArgv argv argvlen = Option.bind (argv_bytes argv argvlen) build_command"

text \<open>sdscatfmt prints the lengths as 32 bit numbers.\<close>

definition sds_command_text :: "string list \<Rightarrow> string" where
  "sds_command_text argv =
     CHR ''*'' # show_int (to_int32 (int (length argv))) @ CRLF @
     concat (map (\<lambda>a. CHR ''$'' # show_int (int (length a mod 2 ^ 32)) @ CRLF @ a @ CRLF) argv)"

definition redisFormatSdsCommandArgv :: "string list \<Rightarrow> nat list option \<Rightarrow> (int \<times> string) option" where
  "redisFormatSdsCommandArgv argv argvlen =
     Option.bind (argv_bytes argv argvlen) (\<lambda>as.
       if 2 ^ 31 \<le> command_length as then None
       else if length (sds_command_text as) = command_length as then Some (int (command_length as), sds_command_text as)
       else None)"

section \<open>Contexts\<close>

text \<open>What the socket answers: a write took so many bytes, a read got some, a call failed with an errno and its text.\<close>

datatype answer = Took nat | Got string | Failed int string

abbreviation (input) "EINTR \<equiv> (4 :: int)"
abbreviation (input) "EAGAIN \<equiv> (11 :: int)"

record redis_context =
  rc_err :: int
  rc_errstr :: string
  rc_block :: bool
  rc_obuf :: string
  rc_reader :: redis_reader
  rc_taken :: string

definition redisSetError :: "redis_context \<Rightarrow> int \<Rightarrow> string \<Rightarrow> redis_context" where
  "redisSetError c t str = c\<lparr>rc_err := t, rc_errstr := take 127 str\<rparr>"

text \<open>A failed call is tried again later, or is the error of the context.\<close>

definition call_failed :: "redis_context \<Rightarrow> int \<Rightarrow> string \<Rightarrow> int \<times> redis_context" where
  "call_failed c errno str =
     (if errno = EAGAIN \<and> \<not> rc_block c \<or> errno = EINTR then (REDIS_OK, c) else (REDIS_ERR, redisSetError c REDIS_ERR_IO str))"

definition redisBufferRead :: "redis_context \<Rightarrow> answer list \<Rightarrow> (int \<times> redis_context \<times> answer list) option" where
  "redisBufferRead c as =
     (if rc_err c \<noteq> 0 then Some (REDIS_ERR, c, as)
      else
        (case as of
           Failed errno str # as \<Rightarrow> (case call_failed c errno str of (rc, c) \<Rightarrow> Some (rc, c, as))
         | Got buf # as \<Rightarrow>
             if buf = [] then Some (REDIS_ERR, redisSetError c REDIS_ERR_EOF ''Server closed the connection'', as)
             else
               (case redisReaderFeed (rc_reader c) buf of (rc, r) \<Rightarrow>
                  if rc \<noteq> REDIS_OK then Some (REDIS_ERR, redisSetError (c\<lparr>rc_reader := r\<rparr>) (rr_err r) (rr_errstr r), as)
                  else Some (REDIS_OK, c\<lparr>rc_reader := r\<rparr>, as))
         | _ \<Rightarrow> None))"

text \<open>The second part of the result is *done.\<close>

definition redisBufferWrite :: "redis_context \<Rightarrow> answer list \<Rightarrow> (int \<times> bool \<times> redis_context \<times> answer list) option" where
  "redisBufferWrite c as =
     (if rc_err c \<noteq> 0 then Some (REDIS_ERR, False, c, as)
      else if rc_obuf c = [] then Some (REDIS_OK, True, c, as)
      else
        (case as of
           Failed errno str # as \<Rightarrow> (case call_failed c errno str of (rc, c) \<Rightarrow> Some (rc, False, c, as))
         | Took n # as \<Rightarrow>
             if length (rc_obuf c) < n then None
             else
               (let c = c\<lparr>rc_taken := rc_taken c @ take n (rc_obuf c), rc_obuf := drop n (rc_obuf c)\<rparr>
                in Some (REDIS_OK, rc_obuf c = [], c, as))
         | _ \<Rightarrow> None))"

definition redisGetReplyFromReader :: "redis_context \<Rightarrow> (int \<times> redis_reply option \<times> redis_context) option" where
  "redisGetReplyFromReader c =
     (case redisReaderGetReply (rc_reader c) of
        None \<Rightarrow> None
      | Some (rc, v, r) \<Rightarrow>
          if rc = REDIS_ERR then Some (REDIS_ERR, None, redisSetError (c\<lparr>rc_reader := r\<rparr>) (rr_err r) (rr_errstr r))
          else Some (REDIS_OK, v, c\<lparr>rc_reader := r\<rparr>))"

lemma redisBufferWrite_consumes: "redisBufferWrite c as = Some (rc, False, c', as') \<Longrightarrow> rc = REDIS_OK \<Longrightarrow> length as' < length as"
  by (auto simp: redisBufferWrite_def Let_def split: if_splits list.splits answer.splits prod.splits)

lemma redisBufferRead_consumes: "redisBufferRead c as = Some (rc, c', as') \<Longrightarrow> rc = REDIS_OK \<Longrightarrow> length as' < length as"
  by (auto simp: redisBufferRead_def Let_def split: if_splits list.splits answer.splits prod.splits)

text \<open>The two loops of redisGetReply: write until done, read until there is a reply.\<close>

function write_all :: "redis_context \<Rightarrow> answer list \<Rightarrow> (int \<times> redis_context \<times> answer list) option" where
  "write_all c as =
     (case redisBufferWrite c as of
        None \<Rightarrow> None
      | Some (rc, done, c', as') \<Rightarrow>
          if rc \<noteq> REDIS_OK then Some (REDIS_ERR, c', as')
          else if done then Some (REDIS_OK, c', as')
          else write_all c' as')"
  by pat_completeness auto
termination by (relation "measure (\<lambda>(c, as). length as)") (auto dest: redisBufferWrite_consumes)

function read_reply :: "redis_context \<Rightarrow> answer list \<Rightarrow> (int \<times> redis_reply option \<times> redis_context \<times> answer list) option" where
  "read_reply c as =
     (case redisBufferRead c as of
        None \<Rightarrow> None
      | Some (rc, c', as') \<Rightarrow>
          if rc \<noteq> REDIS_OK then Some (REDIS_ERR, None, c', as')
          else
            (case redisGetReplyFromReader c' of
               None \<Rightarrow> None
             | Some (rc', v, c'') \<Rightarrow>
                 if rc' \<noteq> REDIS_OK then Some (REDIS_ERR, None, c'', as')
                 else if v = None then read_reply c'' as'
                 else Some (REDIS_OK, v, c'', as')))"
  by pat_completeness auto
termination by (relation "measure (\<lambda>(c, as). length as)") (auto dest: redisBufferRead_consumes)

declare write_all.simps [simp del] read_reply.simps [simp del]

definition redisGetReply :: "redis_context \<Rightarrow> answer list \<Rightarrow> (int \<times> redis_reply option \<times> redis_context \<times> answer list) option" where
  "redisGetReply c as =
     (case redisGetReplyFromReader c of
        None \<Rightarrow> None
      | Some (rc, aux, c) \<Rightarrow>
          if rc = REDIS_ERR then Some (REDIS_ERR, None, c, as)
          else if aux = None \<and> rc_block c then
            (case write_all c as of
               None \<Rightarrow> None
             | Some (rc, c, as) \<Rightarrow> if rc = REDIS_ERR then Some (REDIS_ERR, None, c, as) else read_reply c as)
          else Some (REDIS_OK, aux, c, as))"

definition redisAppendCommandText :: "redis_context \<Rightarrow> string \<Rightarrow> redis_context" where
  "redisAppendCommandText c cmd = c\<lparr>rc_obuf := rc_obuf c @ cmd\<rparr>"

definition redisvAppendCommand :: "(string \<Rightarrow> int \<Rightarrow> string) \<Rightarrow> redis_context \<Rightarrow> string \<Rightarrow> parg list \<Rightarrow> (int \<times> redis_context) option" where
  "redisvAppendCommand pr c format ap =
     (case redisvFormatCommand pr format ap of
        None \<Rightarrow> None
      | Some (len, cmd) \<Rightarrow>
          if len = - 1 then Some (REDIS_ERR, redisSetError c 5 ''Out of memory'')
          else if len = - 2 then Some (REDIS_ERR, redisSetError c REDIS_ERR_OTHER ''Invalid format string'')
          else Some (REDIS_OK, redisAppendCommandText c cmd))"

definition redisAppendCommandArgv :: "redis_context \<Rightarrow> string list \<Rightarrow> nat list option \<Rightarrow> (int \<times> redis_context) option" where
  "redisAppendCommandArgv c argv argvlen =
     (case redisFormatSdsCommandArgv argv argvlen of
        None \<Rightarrow> None
      | Some (len, cmd) \<Rightarrow>
          if len = - 1 then Some (REDIS_ERR, redisSetError c 5 ''Out of memory'')
          else Some (REDIS_OK, redisAppendCommandText c cmd))"

definition redisBlockForReply :: "redis_context \<Rightarrow> answer list \<Rightarrow> (redis_reply option \<times> redis_context \<times> answer list) option" where
  "redisBlockForReply c as =
     (if rc_block c then
        (case redisGetReply c as of
           None \<Rightarrow> None
         | Some (rc, v, c, as) \<Rightarrow> Some (if rc \<noteq> REDIS_OK then None else v, c, as))
      else Some (None, c, as))"

definition redisCommand :: "(string \<Rightarrow> int \<Rightarrow> string) \<Rightarrow> redis_context \<Rightarrow> string \<Rightarrow> parg list \<Rightarrow> answer list \<Rightarrow>
    (redis_reply option \<times> redis_context \<times> answer list) option" where
  "redisCommand pr c format ap as =
     (case redisvAppendCommand pr c format ap of
        None \<Rightarrow> None
      | Some (rc, c) \<Rightarrow> if rc \<noteq> REDIS_OK then Some (None, c, as) else redisBlockForReply c as)"

definition redisCommandArgv :: "redis_context \<Rightarrow> string list \<Rightarrow> nat list option \<Rightarrow> answer list \<Rightarrow>
    (redis_reply option \<times> redis_context \<times> answer list) option" where
  "redisCommandArgv c argv argvlen as =
     (case redisAppendCommandArgv c argv argvlen of
        None \<Rightarrow> None
      | Some (rc, c) \<Rightarrow> if rc \<noteq> REDIS_OK then Some (None, c, as) else redisBlockForReply c as)"

section \<open>The text of a command\<close>

lemma show_nat_length: "length (show_nat n) = (if n < 10 then 1 else Suc (length (show_nat (n div 10))))"
  by (subst show_nat.simps) simp

lemma countDigits_length: "countDigits n = length (show_nat n)"
proof (induction n rule: countDigits.induct)
  case (1 v)
  have d: "v div 10 div 10 = v div 100" "v div 100 div 10 = v div 1000" "v div 1000 div 10 = v div 10000"
    "v div 10 < 10 \<longleftrightarrow> v < 100" "v div 100 < 10 \<longleftrightarrow> v < 1000" "v div 1000 < 10 \<longleftrightarrow> v < 10000"
    by (simp_all add: div_mult2_eq [symmetric] div_less_iff_less_mult)
  show ?case
  proof (cases "v < 10000")
    case True
    then show ?thesis
      by (subst countDigits.simps)
         (simp add: show_nat_length [of v] show_nat_length [of "v div 10"] show_nat_length [of "v div 100"]
            show_nat_length [of "v div 1000"] d)
  next
    case False
    then have "countDigits v = countDigits (v div 10000) + 4" by (subst countDigits.simps) simp
    with False 1 show ?thesis
      by (simp add: show_nat_length [of v] show_nat_length [of "v div 10"] show_nat_length [of "v div 100"]
            show_nat_length [of "v div 1000"] d)
  qed
qed

text \<open>A command is the text of an array of strings, so the other side can read it as a reply.\<close>

lemma command_text_encode: "command_text argv = encode_reply (RArray (map RString argv))"
  by (simp add: command_text_def comp_def)

lemma show_int_nat: "show_int (int n) = show_nat n"
  by (simp add: show_int_def)

lemma command_text_length: "length (command_text argv) = command_length argv"
proof -
  have "length (concat (map (\<lambda>a. CHR ''$'' # show_nat (length a) @ CRLF @ a @ CRLF) as)) = sum_list (map (\<lambda>a. bulklen (length a)) as)" for as
    by (induction as) (simp_all add: bulklen_def countDigits_length)
  then show ?thesis by (simp add: command_text_def command_length_def countDigits_length show_int_nat)
qed

lemma build_command_text: "build_command argv = (if 2 ^ 31 \<le> length (command_text argv) then None else Some (int (length (command_text argv)), command_text argv))"
  by (simp add: build_command_def command_text_length)

lemma command_length_elem: "a \<in> set as \<Longrightarrow> length a < command_length as" "length as < command_length as"
proof -
  show "length a < command_length as" if "a \<in> set as"
  proof -
    have "bulklen (length a) \<le> sum_list (map (\<lambda>a. bulklen (length a)) as)"
      by (rule member_le_sum_list) (use that in simp_all)
    then show ?thesis by (simp add: command_length_def bulklen_def)
  qed
  have "length as \<le> sum_list (map (\<lambda>a. bulklen (length a)) as)"
    by (induction as) (simp_all add: bulklen_def)
  then show "length as < command_length as" by (simp add: command_length_def)
qed

text \<open>Both formatters of an argument vector build the same command.\<close>

lemma redisFormatSdsCommandArgv_eq: "redisFormatSdsCommandArgv argv argvlen = redisFormatCommandArgv argv argvlen"
proof -
  have "sds_command_text as = command_text as" if "command_length as < 2 ^ 31" for as
  proof -
    have "to_int32 (int (length as)) = int (length as)"
      using command_length_elem(2) [of as] that by (simp add: to_int32_id is_int32_def)
    moreover have "length a mod 2 ^ 32 = length a" if "a \<in> set as" for a
      using command_length_elem(1) [OF that] \<open>command_length as < 2 ^ 31\<close> by simp
    ultimately show ?thesis unfolding sds_command_text_def command_text_def by (simp cong: map_cong)
  qed
  then show ?thesis
    unfolding redisFormatSdsCommandArgv_def redisFormatCommandArgv_def build_command_def
    by (intro arg_cong2 [where f = Option.bind] refl ext) (simp add: not_le command_text_length)
qed

section \<open>A command and its reply\<close>

text \<open>A context between two commands.\<close>

definition idle_context :: "redis_context \<Rightarrow> bool" where
  "idle_context c \<longleftrightarrow> rc_err c = 0 \<and> rc_block c \<and> rc_obuf c = [] \<and> idle_reader (rc_reader c)"

lemma idle_reader_no_reply:
  assumes "idle_reader r"
  shows "\<exists>r'. redisReaderGetReply r = Some (REDIS_OK, None, r') \<and> idle_reader r'"
proof (cases "rr_buf r = []")
  case True
  with assms show ?thesis by (simp add: redisReaderGetReply_def idle_reader_def)
next
  case False
  let ?r = "first_task r"
  have st: "rr_stack ?r = [\<lparr>rt_type = None, rt_elements = - 1, rt_idx = - 1, rt_obj = []\<rparr>]" using assms by (simp add: idle_reader_def)
  then have "processItem ?r = ItemErr ?r" using assms by (simp add: processItem_def readBytes_def idle_reader_def unread_def)
  with st have "read_items ?r = ItemErr ?r" by (simp add: read_items.simps [of ?r])
  moreover have "discard ?r = ?r" using assms by (simp add: discard_def idle_reader_def)
  moreover have "idle_reader ?r" using assms st by (simp add: idle_reader_def unread_def first_task_id)
  ultimately show ?thesis using False assms st by (simp add: redisReaderGetReply_def idle_reader_def Let_def)
qed

lemma write_all_takes:
  "list_all (\<lambda>n. 0 < n) ns \<Longrightarrow> sum_list ns = length (rc_obuf c) \<Longrightarrow> rc_err c = 0 \<Longrightarrow>
    write_all c (map Took ns @ as) = Some (REDIS_OK, c\<lparr>rc_obuf := [], rc_taken := rc_taken c @ rc_obuf c\<rparr>, as)"
proof (induction ns arbitrary: c)
  case Nil
  then show ?case by (simp add: write_all.simps [of c] redisBufferWrite_def)
next
  case (Cons n ns)
  let ?c = "c\<lparr>rc_taken := rc_taken c @ take n (rc_obuf c), rc_obuf := drop n (rc_obuf c)\<rparr>"
  have n: "0 < n" "n \<le> length (rc_obuf c)" "rc_obuf c \<noteq> []" using Cons.prems(1,2) by auto
  have w: "redisBufferWrite c (map Took (n # ns) @ as) = Some (REDIS_OK, drop n (rc_obuf c) = [], ?c, map Took ns @ as)"
    using n Cons.prems(3) by (simp add: redisBufferWrite_def Let_def)
  have IH: "write_all ?c (map Took ns @ as) = Some (REDIS_OK, ?c\<lparr>rc_obuf := [], rc_taken := rc_taken ?c @ rc_obuf ?c\<rparr>, as)"
    by (rule Cons.IH) (use Cons.prems n in auto)
  show ?case
  proof (cases "drop n (rc_obuf c) = []")
    case True
    then have "ns = []" using Cons.prems(1,2) n by (cases ns) auto
    with True n w show ?thesis by (simp add: write_all.simps [of c])
  next
    case False
    with w IH show ?thesis by (simp add: write_all.simps [of c])
  qed
qed

lemma read_reply_pieces:
  "will_read v (concat cs) (rc_reader c) \<Longrightarrow> [] \<notin> set cs \<Longrightarrow> cs \<noteq> [] \<Longrightarrow> rc_err c = 0 \<Longrightarrow>
    \<exists>r. read_reply c (map Got cs @ as) = Some (REDIS_OK, Some v, c\<lparr>rc_reader := r\<rparr>, as) \<and> idle_reader r"
proof (induction cs arbitrary: c)
  case (Cons b cs)
  have feed: "redisReaderFeed (rc_reader c) b = (REDIS_OK, snd (redisReaderFeed (rc_reader c) b))"
    using Cons.prems(1) by (simp add: redisReaderFeed_def will_read_def)
  have b: "b \<noteq> []" using Cons.prems(2) by auto
  show ?case
  proof (cases "cs = []")
    case True
    then obtain r where r: "redisReaderGetReply (snd (redisReaderFeed (rc_reader c) b)) = Some (REDIS_OK, Some v, r)" "idle_reader r"
      using will_read_last [of v b "rc_reader c"] Cons.prems(1) b by auto
    with True b feed Cons.prems(4) show ?thesis
      by (subst read_reply.simps) (auto simp: redisBufferRead_def redisGetReplyFromReader_def split: prod.splits)
  next
    case False
    then have "concat cs \<noteq> []" using Cons.prems(2) by (cases cs) auto
    then obtain r where r: "redisReaderGetReply (snd (redisReaderFeed (rc_reader c) b)) = Some (REDIS_OK, None, r)" "will_read v (concat cs) r"
      using will_read_piece [of v b "concat cs" "rc_reader c"] Cons.prems(1) b by auto
    have step: "read_reply c (map Got (b # cs) @ as) = read_reply (c\<lparr>rc_reader := r\<rparr>) (map Got cs @ as)"
      using r(1) b feed Cons.prems(4)
      by (subst read_reply.simps) (auto simp: redisBufferRead_def redisGetReplyFromReader_def split: prod.splits)
    have "\<exists>r'. read_reply (c\<lparr>rc_reader := r\<rparr>) (map Got cs @ as) = Some (REDIS_OK, Some v, (c\<lparr>rc_reader := r\<rparr>)\<lparr>rc_reader := r'\<rparr>, as) \<and> idle_reader r'"
      by (rule Cons.IH) (use r False Cons.prems in auto)
    with step show ?thesis by simp
  qed
qed simp

lemma block_for_reply:
  assumes "idle_context (c\<lparr>rc_obuf := []\<rparr>)" and "list_all (\<lambda>n. 0 < n) ns" and "sum_list ns = length (rc_obuf c)"
    and "encodable v" and "depth_of v \<le> 8" and "concat cs = encode_reply v" and "[] \<notin> set cs"
    and "length (encode_reply v) + 1024 \<le> 2 ^ 31"
  shows "\<exists>c'. redisBlockForReply c (map Took ns @ map Got cs @ as) = Some (Some v, c', as) \<and> idle_context c' \<and>
    rc_taken c' = rc_taken c @ rc_obuf c"
proof -
  have idle: "rc_err c = 0" "rc_block c" "idle_reader (rc_reader c)" using assms(1) by (simp_all add: idle_context_def)
  obtain r1 where r1: "redisReaderGetReply (rc_reader c) = Some (REDIS_OK, None, r1)" "idle_reader r1"
    using idle_reader_no_reply [OF idle(3)] by blast
  let ?c1 = "c\<lparr>rc_reader := r1\<rparr>"
  let ?c2 = "?c1\<lparr>rc_obuf := [], rc_taken := rc_taken c @ rc_obuf c\<rparr>"
  have w: "write_all ?c1 (map Took ns @ map Got cs @ as) = Some (REDIS_OK, ?c2, map Got cs @ as)"
    using write_all_takes [of ns ?c1 "map Got cs @ as"] assms(2,3) idle(1) by simp
  have "cs \<noteq> []" using assms(6) encode_reply_nonempty [of v] by (metis concat.simps(1))
  moreover have "will_read v (concat cs) (rc_reader ?c2)"
    using will_read_encoded [OF assms(4,5,8) r1(2)] assms(6) by simp
  ultimately obtain r2 where r2: "read_reply ?c2 (map Got cs @ as) = Some (REDIS_OK, Some v, ?c2\<lparr>rc_reader := r2\<rparr>, as)" "idle_reader r2"
    using read_reply_pieces [of v cs ?c2 as] assms(7) idle(1) by auto
  have "redisGetReply c (map Took ns @ map Got cs @ as) = Some (REDIS_OK, Some v, ?c2\<lparr>rc_reader := r2\<rparr>, as)"
    using r1(1) w r2(1) idle(2) by (simp add: redisGetReply_def redisGetReplyFromReader_def)
  then show ?thesis using idle r2(2) by (simp add: redisBlockForReply_def idle_context_def)
qed

lemma redisCommand_reply:
  assumes "idle_context c" and "redisvFormatCommand pr format ap = Some (len, cmd)" and "0 \<le> len"
    and "list_all (\<lambda>n. 0 < n) ns" and "sum_list ns = length cmd"
    and "encodable v" and "depth_of v \<le> 8" and "concat cs = encode_reply v" and "[] \<notin> set cs"
    and "length (encode_reply v) + 1024 \<le> 2 ^ 31"
  shows "\<exists>c'. redisCommand pr c format ap (map Took ns @ map Got cs @ as) = Some (Some v, c', as) \<and>
    idle_context c' \<and> rc_taken c' = rc_taken c @ cmd"
proof -
  let ?c = "redisAppendCommandText c cmd"
  have c: "rc_obuf c = []" using assms(1) by (simp add: idle_context_def)
  have "idle_context (?c\<lparr>rc_obuf := []\<rparr>)" using assms(1) by (simp add: idle_context_def redisAppendCommandText_def)
  from block_for_reply [OF this assms(4) _ assms(6-10), of as]
  have "\<exists>c'. redisBlockForReply ?c (map Took ns @ map Got cs @ as) = Some (Some v, c', as) \<and> idle_context c' \<and> rc_taken c' = rc_taken c @ cmd"
    using c assms(5) by (simp add: redisAppendCommandText_def)
  then show ?thesis using assms(2,3) by (simp add: redisCommand_def redisvAppendCommand_def)
qed

end
