(* ===== verification/Cache_Command.thy ===== *)
theory Cache_Command
  imports Redis_Command Util
begin

text \<open>
  The commands of CacheConn (redis/cache_pool.cpp) are given to hiredis as formats with arguments. Here
  they are put together: the argument vectors Cache_Conn hands to Redis are those the formatter of
  hiredis makes of the formats in the code. MGet, which hands its keys over as a format, is modelled
  here. The exchange of a command with a Redis server, over the socket, is stated at the end.
\<close>

section \<open>Formats\<close>

text \<open>
  The printing of the two conversions the formats use: d prints the low 32 bits of what it is given.
\<close>

definition prints_ints :: "(string \<Rightarrow> int \<Rightarrow> string) \<Rightarrow> bool" where
  "prints_ints pr \<longleftrightarrow> (\<forall>i. pr ''%d'' i = show_int (to_int32 i) \<and> pr ''%ld'' i = show_int i)"

text \<open>command and zcommand of Cache_Conn with the format in the place of the vector.\<close>

definition redis_fmt :: "(string \<Rightarrow> int \<Rightarrow> string) \<Rightarrow> string \<Rightarrow> parg list \<Rightarrow> redis_reply option prog" where
  "redis_fmt pr format ap =
     (case fmt_loop pr (c_str format) ap [] False of
        FmtArgs argv \<Rightarrow> Redis argv Ret
      | FmtInvalid \<Rightarrow> Ret None
      | FmtFault \<Rightarrow> Fault OutOfBounds)"

definition command_fmt :: "(string \<Rightarrow> int \<Rightarrow> string) \<Rightarrow> conn_ptr \<Rightarrow> 'a \<Rightarrow> string \<Rightarrow> parg list \<Rightarrow> (redis_reply \<Rightarrow> 'a prog) \<Rightarrow> 'a prog" where
  "command_fmt pr p fail format ap k =
     bindp (CacheConn_Init p) (\<lambda>rc.
       if rc \<noteq> 0 then Ret fail
       else
         bindp (redis_fmt pr format ap) (\<lambda>reply.
           case reply of
             None \<Rightarrow> the_cache_conn p (\<lambda>c cc. bindp (set_context c False) (\<lambda>_. Ret fail))
           | Some r \<Rightarrow> k r))"

definition zcommand_fmt :: "(string \<Rightarrow> int \<Rightarrow> string) \<Rightarrow> conn_ptr \<Rightarrow> 'a \<Rightarrow> string \<Rightarrow> parg list \<Rightarrow> (redis_reply \<Rightarrow> 'a prog) \<Rightarrow> 'a prog" where
  "zcommand_fmt pr p fail format ap k =
     bindp (CacheConn_Init p) (\<lambda>rc.
       if rc \<noteq> 0 then Ret fail else bindp (redis_fmt pr format ap) (\<lambda>reply. bindp (deref reply) k))"

lemma redis_fmt_args:
  "fmt_loop pr (c_str format) ap [] False = FmtArgs argv \<Longrightarrow> redis_fmt pr format ap = Redis argv Ret"
  by (simp add: redis_fmt_def)

lemma command_fmt_eq:
  assumes "fmt_loop pr (c_str format) ap [] False = FmtArgs argv"
  shows "command p fail argv k = command_fmt pr p fail format ap k"
    and "zcommand p fail argv k' = zcommand_fmt pr p fail format ap k'"
proof -
  show "command p fail argv k = command_fmt pr p fail format ap k"
    unfolding command_def command_fmt_def redis_fmt_args [OF assms] bindp.simps ..
  show "zcommand p fail argv k' = zcommand_fmt pr p fail format ap k'"
    unfolding zcommand_def zcommand_fmt_def redis_fmt_args [OF assms] bindp.simps ..
qed

text \<open>A format is read by words: the letters of a word, a string conversion, a space.\<close>

lemma fmt_letter: "c \<noteq> CHR ''%'' \<Longrightarrow> c \<noteq> CHR '' '' \<Longrightarrow> fmt_loop pr (c # r) args cur t = fmt_loop pr r args (cur @ [c]) True"
  by (simp add: fmt_loop.simps(2))

lemma fmt_space: "fmt_loop pr (CHR '' '' # r) args cur True = also_arg cur (fmt_loop pr r args [] False)"
  by (simp add: fmt_loop.simps(2))

lemma fmt_string: "fmt_loop pr (CHR ''%'' # CHR ''s'' # r) (PStr a # args) cur t = fmt_loop pr r args (cur @ c_str a) True"
  by (simp add: fmt_loop.simps(2))

lemma fmt_int:
  assumes "prints_ints pr"
  shows "fmt_loop pr (CHR ''%'' # CHR ''d'' # r) (PInt i # args) cur t = fmt_loop pr r args (cur @ show_int (to_int32 i)) True"
    and "fmt_loop pr (CHR ''%'' # CHR ''l'' # CHR ''d'' # r) (PInt i # args) cur t = fmt_loop pr r args (cur @ show_int i) True"
  using assms
  by (simp_all add: fmt_loop.simps(2) find_conversion_def after_width_def after_precision_def conversion_of_def
      int_conversion_def is_int_char_def is_double_char_def is_length_char_def is_digit_def Let_def prints_ints_def
      Suc_diff_le)

lemmas fmt_steps = fmt_letter fmt_space fmt_string fmt_loop.simps(1) also_arg_def

text \<open>The formats of cache_pool.cpp, with what the formatter makes of them.\<close>

lemma formats:
  "fmt_loop pr ''GET %s'' [PStr k] [] False = FmtArgs [''GET'', c_str k]"
  "fmt_loop pr ''SET %s %s'' [PStr k, PStr v] [] False = FmtArgs [''SET'', c_str k, c_str v]"
  "fmt_loop pr ''EXISTS %s'' [PStr k] [] False = FmtArgs [''EXISTS'', c_str k]"
  "fmt_loop pr ''DEL %s'' [PStr k] [] False = FmtArgs [''DEL'', c_str k]"
  "fmt_loop pr ''INCR %s'' [PStr k] [] False = FmtArgs [''INCR'', c_str k]"
  "fmt_loop pr ''DECR %s'' [PStr k] [] False = FmtArgs [''DECR'', c_str k]"
  "fmt_loop pr ''HDEL %s %s'' [PStr k, PStr f] [] False = FmtArgs [''HDEL'', c_str k, c_str f]"
  "fmt_loop pr ''HGET %s %s'' [PStr k, PStr f] [] False = FmtArgs [''HGET'', c_str k, c_str f]"
  "fmt_loop pr ''HGETALL %s'' [PStr k] [] False = FmtArgs [''HGETALL'', c_str k]"
  "fmt_loop pr ''HSET %s %s %s'' [PStr k, PStr f, PStr v] [] False = FmtArgs [''HSET'', c_str k, c_str f, c_str v]"
  "fmt_loop pr ''LPUSH %s %s'' [PStr k, PStr v] [] False = FmtArgs [''LPUSH'', c_str k, c_str v]"
  "fmt_loop pr ''RPUSH %s %s'' [PStr k, PStr v] [] False = FmtArgs [''RPUSH'', c_str k, c_str v]"
  "fmt_loop pr ''LLEN %s'' [PStr k] [] False = FmtArgs [''LLEN'', c_str k]"
  "fmt_loop pr ''zlexcount %s [%s [%s'' [PStr k, PStr m, PStr m] [] False =
     FmtArgs [''zlexcount'', c_str k, CHR ''['' # c_str m, CHR ''['' # c_str m]"
  "fmt_loop pr ''ZREM %s %s'' [PStr k, PStr m] [] False = FmtArgs [''ZREM'', c_str k, c_str m]"
  "fmt_loop pr ''ZINCRBY %s 1 %s'' [PStr k, PStr m] [] False = FmtArgs [''ZINCRBY'', c_str k, ''1'', c_str m]"
  "fmt_loop pr ''ZCARD %s'' [PStr k] [] False = FmtArgs [''ZCARD'', c_str k]"
  "fmt_loop pr ''ZSCORE %s %s'' [PStr k, PStr m] [] False = FmtArgs [''ZSCORE'', c_str k, c_str m]"
  "fmt_loop pr ''FLUSHDB'' [] [] False = FmtArgs [''FLUSHDB'']"
  by (simp_all add: fmt_steps)

lemma formats_int:
  assumes "prints_ints pr"
  shows "fmt_loop pr ''SETEX %s %d %s'' [PStr k, PInt i, PStr v] [] False = FmtArgs [''SETEX'', c_str k, show_int (to_int32 i), c_str v]"
    and "fmt_loop pr ''HINCRBY %s %s %ld'' [PStr k, PStr f, PInt i] [] False = FmtArgs [''HINCRBY'', c_str k, c_str f, show_int i]"
    and "fmt_loop pr ''INCRBY %s %ld'' [PStr k, PInt i] [] False = FmtArgs [''INCRBY'', c_str k, show_int i]"
    and "fmt_loop pr ''LRANGE %s %d %d'' [PStr k, PInt i, PInt j] [] False =
      FmtArgs [''LRANGE'', c_str k, show_int (to_int32 i), show_int (to_int32 j)]"
    and "fmt_loop pr ''ZADD %s %ld %s'' [PStr k, PInt i, PStr m] [] False = FmtArgs [''ZADD'', c_str k, show_int i, c_str m]"
    and "fmt_loop pr ''ZREVRANGE %s %d %d'' [PStr k, PInt i, PInt j] [] False =
      FmtArgs [''ZREVRANGE'', c_str k, show_int (to_int32 i), show_int (to_int32 j)]"
  by (simp_all add: fmt_steps fmt_int [OF assms])

text \<open>Init with its two formats in the place of the vectors.\<close>

definition select_db_fmt :: "(string \<Rightarrow> int \<Rightarrow> string) \<Rightarrow> int prog" where
  "select_db_fmt pr =
     bindp (redis_fmt pr ''SELECT %d'' [PInt 0]) (\<lambda>reply.
       case reply of
         None \<Rightarrow> Ret 2
       | Some r \<Rightarrow> Ret (if is_RStatus r \<and> is_prefix ''OK'' (c_str (reply_text r)) then 0 else 2))"

definition CacheConn_Init_fmt :: "(string \<Rightarrow> int \<Rightarrow> string) \<Rightarrow> conn_ptr \<Rightarrow> int prog" where
  "CacheConn_Init_fmt pr p =
     the_cache_conn p (\<lambda>c cc.
       if cc_context cc then Ret 0
       else
         Os OsTime (\<lambda>now.
           let cur_time = os_int now mod 2 ^ 64 in
           if cur_time < (cc_last_connect cc + 1) mod 2 ^ 64 then Ret 1
           else
             bindp (modS (cache_update_at c (\<lambda>cc. cc\<lparr>cc_last_connect := cur_time\<rparr>))) (\<lambda>_.
             RedisConnect (c_str (cc_server_ip cc)) (cc_server_port cc) (\<lambda>connected.
               if \<not> connected then Ret 1
               else
                 bindp (set_context c True) (\<lambda>_.
                 if cc_password cc \<noteq> [] then
                   bindp (redis_fmt pr ''AUTH %s'' [PStr (cc_password cc)]) (\<lambda>reply.
                     case reply of
                       None \<Rightarrow> Ret (- 1)
                     | Some r \<Rightarrow> if is_RError r then Ret (- 1) else select_db_fmt pr)
                 else select_db_fmt pr)))))"

lemma CacheConn_Init_formats:
  assumes "prints_ints pr"
  shows "CacheConn_Init p = CacheConn_Init_fmt pr p"
proof -
  have "fmt_loop pr (c_str ''SELECT %d'') [PInt 0] [] False = FmtArgs [''SELECT'', show_int 0]"
    by (simp add: NUL_def fmt_steps fmt_int [OF assms] to_int32_id is_int32_def)
  then have sel: "select_db_fmt pr = select_db"
    unfolding select_db_fmt_def select_db_def by (simp only: redis_fmt_args bindp.simps)
  have auth: "redis_fmt pr ''AUTH %s'' [PStr a] = Redis [''AUTH'', c_str a] Ret" for a
    by (rule redis_fmt_args) (simp add: NUL_def fmt_steps)
  show ?thesis
    unfolding CacheConn_Init_def CacheConn_Init_fmt_def sel auth bindp.simps ..
qed

text \<open>The two operations that give hiredis a vector. The lengths are those of the C strings.\<close>

definition command_argv :: "conn_ptr \<Rightarrow> 'a \<Rightarrow> string list \<Rightarrow> nat list option \<Rightarrow> (redis_reply \<Rightarrow> 'a prog) \<Rightarrow> 'a prog" where
  "command_argv p fail argv argvlen k =
     bindp (CacheConn_Init p) (\<lambda>rc.
       if rc \<noteq> 0 then Ret fail
       else
         (case argv_bytes argv argvlen of
            None \<Rightarrow> Fault OutOfBounds
          | Some as \<Rightarrow>
              Redis as (\<lambda>reply.
                case reply of
                  None \<Rightarrow> the_cache_conn p (\<lambda>c cc. bindp (set_context c False) (\<lambda>_. Ret fail))
                | Some r \<Rightarrow> k r)))"

lemma command_argv_eq:
  assumes "argv_bytes argv argvlen = Some as"
  shows "command p fail as k = command_argv p fail argv argvlen k"
  unfolding command_def command_argv_def assms option.case ..

section \<open>MGet\<close>

text \<open>
  The keys with spaces between them, behind MGET, are the format. Element i of the reply goes under
  key i: there can be more elements than keys, when a key has a space in it.
\<close>

fun store_values :: "string list \<Rightarrow> redis_reply list \<Rightarrow> (string \<Rightarrow> string option) \<Rightarrow> (string \<Rightarrow> string option) prog" where
  "store_values ks [] m = Ret m"
| "store_values ks (r # rs) m =
     (if is_RString r then
        (case ks of [] \<Rightarrow> Fault OutOfBounds | k # ks' \<Rightarrow> store_values ks' rs (m(k \<mapsto> c_str (reply_text r))))
      else store_values (tl ks) rs m)"

definition CacheConn_MGet :: "(string \<Rightarrow> int \<Rightarrow> string) \<Rightarrow> conn_ptr \<Rightarrow> string list \<Rightarrow> (string \<Rightarrow> string option) \<Rightarrow>
    (bool \<times> (string \<Rightarrow> string option)) prog" where
  "CacheConn_MGet pr p keys ret_value =
     bindp (CacheConn_Init p) (\<lambda>rc.
       if rc \<noteq> 0 \<or> keys = [] \<or> join_with CHR '' '' keys = [] then Ret (False, ret_value)
       else
         bindp (redis_fmt pr (''MGET '' @ join_with CHR '' '' keys) []) (\<lambda>reply.
           case reply of
             None \<Rightarrow> the_cache_conn p (\<lambda>c cc. bindp (set_context c False) (\<lambda>_. Ret (False, ret_value)))
           | Some r \<Rightarrow>
               if is_RArray r then bindp (store_values keys (reply_elements r) ret_value) (\<lambda>m. Ret (True, m))
               else Ret (True, ret_value)))"

definition plain_key :: "string \<Rightarrow> bool" where
  "plain_key k \<longleftrightarrow> k \<noteq> [] \<and> nul_free k \<and> CHR '' '' \<notin> set k \<and> CHR ''%'' \<notin> set k"

lemma fmt_plain:
  "CHR '' '' \<notin> set k \<Longrightarrow> CHR ''%'' \<notin> set k \<Longrightarrow> k \<noteq> [] \<Longrightarrow> fmt_loop pr (k @ r) args cur t = fmt_loop pr r args (cur @ k) True"
proof (induction k arbitrary: cur t)
  case (Cons c k)
  then show ?case by (cases "k = []") (auto simp: fmt_letter)
qed simp

lemma fmt_plain_keys:
  "\<forall>k \<in> set ks. plain_key k \<Longrightarrow> ks \<noteq> [] \<Longrightarrow> fmt_loop pr (join_with CHR '' '' ks) [] [] t = FmtArgs ks"
proof (induction ks arbitrary: t)
  case (Cons k ks)
  have k: "fmt_loop pr (k @ r) [] [] t = fmt_loop pr r [] k True" for r
    using fmt_plain [of k pr r "[]" "[]" t] Cons.prems(1) by (simp add: plain_key_def)
  show ?case
  proof (cases "ks = []")
    case True
    then show ?thesis using k [of "[]"] by simp
  next
    case False
    then have "fmt_loop pr (join_with CHR '' '' ks) [] [] False = FmtArgs ks" using Cons by simp
    with False k show ?thesis by (simp add: join_with_Cons fmt_space also_arg_def)
  qed
qed simp

lemma store_values_strings:
  "length ks = length vs \<Longrightarrow> store_values ks (map RString vs) m = Ret (m(ks [\<mapsto>] map c_str vs))"
  by (induction ks vs arbitrary: m rule: list_induct2) (simp_all add: is_RString_def reply_text_def reply_str_def)

text \<open>
  With keys that hold no space, no percent sign and no NUL, the command is MGET with the keys as they are,
  and the strings Redis answers are stored under the keys, the last one where a key comes twice.
\<close>

lemma CacheConn_MGet_plain:
  assumes "\<forall>k \<in> set keys. plain_key k" and "keys \<noteq> []"
  shows "CacheConn_MGet pr p keys m = command p (False, m) (''MGET'' # keys)
    (\<lambda>r. if is_RArray r then bindp (store_values keys (reply_elements r) m) (\<lambda>m. Ret (True, m)) else Ret (True, m))"
proof -
  let ?f = "''MGET '' @ join_with CHR '' '' keys"
  have "c_str ?f = ?f" using nul_free_join [of "CHR '' ''" keys] assms(1) by (simp add: plain_key_def NUL_def)
  moreover have "fmt_loop pr ?f [] [] False = FmtArgs (''MGET'' # keys)"
    using fmt_plain_keys [OF assms, of pr False] by (simp add: fmt_steps)
  ultimately have f: "redis_fmt pr ?f [] = Redis (''MGET'' # keys) Ret" by (intro redis_fmt_args) simp
  obtain k ks where "keys = k # ks" "k \<noteq> []" using assms by (cases keys) (auto simp: plain_key_def)
  then have "join_with CHR '' '' keys \<noteq> []" by (cases ks) simp_all
  then show ?thesis using assms(2) unfolding CacheConn_MGet_def f command_def bindp.simps by simp
qed

text \<open>A key with a percent sign in it is a conversion without an argument; one with a space is two keys.\<close>

lemma CacheConn_MGet_percent:
  "fmt_loop pr ''MGET user%s'' [] [] False = FmtFault"
  "fmt_loop pr ''MGET a b'' [] [] False = FmtArgs [''MGET'', ''a'', ''b'']"
  by (simp_all add: fmt_steps) (simp add: fmt_loop.simps(2))

section \<open>The commands of the operations\<close>

text \<open>
  C27. Every operation of CacheConn, connecting included, sends what hiredis makes of the format or the
  argument vector in the code and the arguments of the operation: the vectors of Cache_Conn are not an
  assumption about hiredis but what its formatter computes. For MGet, whose format is made of the keys,
  this is MGET with the keys, if none of them is empty or holds a space, a percent sign or a NUL.
\<close>

theorem cache_commands:
  assumes "prints_ints pr" and "is_int32 secs" and "is_int32 from_pos" and "is_int32 end_pos"
  shows "CacheConn_Init p = CacheConn_Init_fmt pr p \<and>
    CacheConn_Get p key = command_fmt pr p [] ''GET %s'' [PStr key] (\<lambda>r. Ret (if is_RString r then reply_text r else [])) \<and>
    CacheConn_Set p key val = command_fmt pr p [] ''SET %s %s'' [PStr key, PStr val] (\<lambda>r. Ret (reply_text r)) \<and>
    CacheConn_SetEx p key secs val =
      command_fmt pr p [] ''SETEX %s %d %s'' [PStr key, PInt secs, PStr val] (\<lambda>r. Ret (reply_text r)) \<and>
    CacheConn_IsExists p key = command_fmt pr p False ''EXISTS %s'' [PStr key] (\<lambda>r. Ret (reply_integer r \<noteq> 0)) \<and>
    CacheConn_Del p key = command_fmt pr p 0 ''DEL %s'' [PStr key] (\<lambda>r. Ret (reply_integer r)) \<and>
    CacheConn_Incr p key = command_fmt pr p (- 1, 0) ''INCR %s'' [PStr key] (\<lambda>r. Ret (0, reply_integer r)) \<and>
    CacheConn_Decr p key n = command_fmt pr p (- 1, n) ''DECR %s'' [PStr key] (\<lambda>r. Ret (0, reply_integer r)) \<and>
    CacheConn_IncrBy p key n = command_fmt pr p (- 1) ''INCRBY %s %ld'' [PStr key, PInt n] (\<lambda>r. Ret (reply_integer r)) \<and>
    CacheConn_Hdel p key fld = command_fmt pr p (- 1) ''HDEL %s %s'' [PStr key, PStr fld] (\<lambda>r. Ret (reply_integer r)) \<and>
    CacheConn_Hget p key fld =
      command_fmt pr p [] ''HGET %s %s'' [PStr key, PStr fld] (\<lambda>r. Ret (if is_RString r then reply_text r else [])) \<and>
    CacheConn_Hget_buf p key fld cap =
      bindp (CacheConn_Init p) (\<lambda>rc.
        if rc \<noteq> 0 then Ret None
        else
          bindp (redis_fmt pr ''hget %s %s'' [PStr key, PStr fld]) (\<lambda>reply.
            case reply of
              Some (RString str) \<Rightarrow>
                (let len = min (length str) VALUES_ID_SIZE in
                 if len < cap then Ret (Some (c_str (take len str))) else Fault BufferOverflow)
            | _ \<Rightarrow> Ret None)) \<and>
    CacheConn_HgetAll p key hash =
      command_fmt pr p (False, hash) ''HGETALL %s'' [PStr key] (\<lambda>r.
        Ret (True,
          if is_RArray r \<and> even (length (reply_elements r))
          then foldl insert_new hash (hgetall_pairs (reply_elements r)) else hash)) \<and>
    CacheConn_Hmset p key entries =
      command_argv p [] (''HMSET'' # key # concat (map (\<lambda>(f, v). [f, v]) entries)) None (\<lambda>r. Ret (reply_text r)) \<and>
    CacheConn_Hmget p key flds ret =
      command_argv p (False, ret) (''HMGET'' # key # flds) None (\<lambda>r. Ret (True, ret @ map reply_text (reply_elements r))) \<and>
    ((\<forall>k \<in> set keys. plain_key k) \<and> keys \<noteq> [] \<longrightarrow>
      CacheConn_MGet pr p keys hash = command p (False, hash) (''MGET'' # keys)
        (\<lambda>r. if is_RArray r then bindp (store_values keys (reply_elements r) hash) (\<lambda>m. Ret (True, m)) else Ret (True, hash))) \<and>
    CacheConn_ZsetZrevrange p key from_pos end_pos =
      bindp (CacheConn_Init p) (\<lambda>rc.
        if rc \<noteq> 0 then Ret (- 1, None)
        else
          bindp (add_int32 end_pos (- from_pos)) (\<lambda>span.
          bindp (add_int32 span 1) (\<lambda>count.
          bindp (redis_fmt pr ''ZREVRANGE %s %d %d'' [PStr key, PInt from_pos, PInt end_pos]) (\<lambda>reply.
            bindp (deref reply) (\<lambda>r.
              if \<not> is_RArray r then Ret (- 1, None)
              else
                (let els = reply_elements r;
                     max_count = (if 0 \<le> count \<and> count < int (length els) then nat count else length els)
                 in bindp (copy_values (take max_count els)) (\<lambda>vs. Ret (0, Some vs)))))))) \<and>
    CacheConn_Hset p key fld val =
      command_fmt pr p (- 1) ''HSET %s %s %s'' [PStr key, PStr fld, PStr val] (\<lambda>r. Ret (reply_integer r)) \<and>
    CacheConn_HincrBy p key fld n =
      command_fmt pr p (- 1) ''HINCRBY %s %s %ld'' [PStr key, PStr fld, PInt n] (\<lambda>r. Ret (reply_integer r)) \<and>
    CacheConn_Lpush p key val = command_fmt pr p (- 1) ''LPUSH %s %s'' [PStr key, PStr val] (\<lambda>r. Ret (reply_integer r)) \<and>
    CacheConn_Rpush p key val = command_fmt pr p (- 1) ''RPUSH %s %s'' [PStr key, PStr val] (\<lambda>r. Ret (reply_integer r)) \<and>
    CacheConn_Llen p key = command_fmt pr p (- 1) ''LLEN %s'' [PStr key] (\<lambda>r. Ret (reply_integer r)) \<and>
    CacheConn_Lrange p key start stop ret =
      command_fmt pr p (False, ret) ''LRANGE %s %d %d'' [PStr key, PInt start, PInt stop]
        (\<lambda>r. Ret (True, ret @ map reply_text (reply_elements r))) \<and>
    CacheConn_ZsetExit p key m =
      zcommand_fmt pr p (- 1) ''zlexcount %s [%s [%s'' [PStr key, PStr m, PStr m]
        (\<lambda>r. Ret (if is_RInteger r then to_int32 (reply_integer r) else - 1)) \<and>
    CacheConn_ZsetAdd p key n m =
      zcommand_fmt pr p (- 1) ''ZADD %s %ld %s'' [PStr key, PInt n, PStr m] (\<lambda>r. Ret (if is_RInteger r then 0 else - 1)) \<and>
    CacheConn_ZsetZrem p key m =
      zcommand_fmt pr p (- 1) ''ZREM %s %s'' [PStr key, PStr m] (\<lambda>r. Ret (if is_RInteger r then 0 else - 1)) \<and>
    CacheConn_ZsetIncr p key m =
      zcommand_fmt pr p 0 ''ZINCRBY %s 1 %s'' [PStr key, PStr m]
        (\<lambda>r. bindp (deref (reply_str r)) (\<lambda>text. Ret (if c_str text = ''OK'' then 0 else - 1))) \<and>
    CacheConn_ZsetZcard p key =
      zcommand_fmt pr p (- 1) ''ZCARD %s'' [PStr key] (\<lambda>r. Ret (if is_RInteger r then to_int32 (reply_integer r) else - 1)) \<and>
    CacheConn_ZsetGetScore p key m =
      zcommand_fmt pr p (- 1) ''ZSCORE %s %s'' [PStr key, PStr m]
        (\<lambda>r. Ret (if is_RString r then atoi (c_str (reply_text r)) else - 1)) \<and>
    CacheConn_FlushDb p =
      command_fmt pr p False ''FLUSHDB'' [] (\<lambda>r. Ret (is_RString r \<and> is_prefix ''OK'' (c_str (reply_text r))))"
proof -
  note fmts = NUL_def formats formats_int [OF assms(1)] to_int32_id [OF assms(2)] to_int32_id [OF assms(3)] to_int32_id [OF assms(4)]
  show ?thesis
  proof (intro conjI impI)
    show "CacheConn_Init p = CacheConn_Init_fmt pr p" by (rule CacheConn_Init_formats [OF assms(1)])
    have hget: "redis_fmt pr ''hget %s %s'' [PStr key, PStr fld] = Redis [''hget'', c_str key, c_str fld] Ret"
      by (rule redis_fmt_args) (simp add: NUL_def fmt_steps)
    show "CacheConn_Hget_buf p key fld cap =
      bindp (CacheConn_Init p) (\<lambda>rc.
        if rc \<noteq> 0 then Ret None
        else
          bindp (redis_fmt pr ''hget %s %s'' [PStr key, PStr fld]) (\<lambda>reply.
            case reply of
              Some (RString str) \<Rightarrow>
                (let len = min (length str) VALUES_ID_SIZE in
                 if len < cap then Ret (Some (c_str (take len str))) else Fault BufferOverflow)
            | _ \<Rightarrow> Ret None))"
      unfolding CacheConn_Hget_buf_def hget bindp.simps ..
    have range: "redis_fmt pr ''ZREVRANGE %s %d %d'' [PStr key, PInt from_pos, PInt end_pos] =
        Redis [''ZREVRANGE'', c_str key, show_int from_pos, show_int end_pos] Ret"
      by (rule redis_fmt_args) (simp add: fmts)
    show "CacheConn_ZsetZrevrange p key from_pos end_pos =
      bindp (CacheConn_Init p) (\<lambda>rc.
        if rc \<noteq> 0 then Ret (- 1, None)
        else
          bindp (add_int32 end_pos (- from_pos)) (\<lambda>span.
          bindp (add_int32 span 1) (\<lambda>count.
          bindp (redis_fmt pr ''ZREVRANGE %s %d %d'' [PStr key, PInt from_pos, PInt end_pos]) (\<lambda>reply.
            bindp (deref reply) (\<lambda>r.
              if \<not> is_RArray r then Ret (- 1, None)
              else
                (let els = reply_elements r;
                     max_count = (if 0 \<le> count \<and> count < int (length els) then nat count else length els)
                 in bindp (copy_values (take max_count els)) (\<lambda>vs. Ret (0, Some vs))))))))"
      unfolding CacheConn_ZsetZrevrange_def range bindp.simps ..
    show "CacheConn_Hmset p key entries =
        command_argv p [] (''HMSET'' # key # concat (map (\<lambda>(f, v). [f, v]) entries)) None (\<lambda>r. Ret (reply_text r))"
      unfolding CacheConn_Hmset_def by (rule command_argv_eq) (simp add: argv_bytes_def NUL_def map_concat comp_def case_prod_unfold)
    show "CacheConn_Hmget p key flds ret =
        command_argv p (False, ret) (''HMGET'' # key # flds) None (\<lambda>r. Ret (True, ret @ map reply_text (reply_elements r)))"
      unfolding CacheConn_Hmget_def by (rule command_argv_eq) (simp add: argv_bytes_def NUL_def)
    show "(\<forall>k \<in> set keys. plain_key k) \<and> keys \<noteq> [] \<Longrightarrow> CacheConn_MGet pr p keys hash = command p (False, hash) (''MGET'' # keys)
        (\<lambda>r. if is_RArray r then bindp (store_values keys (reply_elements r) hash) (\<lambda>m. Ret (True, m)) else Ret (True, hash))"
      by (intro CacheConn_MGet_plain) simp_all
  qed (unfold CacheConn_Get_def CacheConn_Set_def CacheConn_SetEx_def CacheConn_IsExists_def CacheConn_Del_def CacheConn_Incr_def
    CacheConn_Decr_def CacheConn_IncrBy_def CacheConn_Hdel_def CacheConn_Hget_def CacheConn_Hset_def CacheConn_HincrBy_def
    CacheConn_Lpush_def CacheConn_Rpush_def CacheConn_Llen_def CacheConn_Lrange_def CacheConn_ZsetExit_def CacheConn_ZsetAdd_def
    CacheConn_ZsetZrem_def CacheConn_ZsetIncr_def CacheConn_ZsetZcard_def CacheConn_ZsetGetScore_def CacheConn_FlushDb_def
    CacheConn_HgetAll_def,
    (rule command_fmt_eq, simp add: fmts)+)
qed

definition demo_print :: "string \<Rightarrow> int \<Rightarrow> string" where
  "demo_print f i = (if f = ''%d'' then show_int (to_int32 i) else c_printf f [PInt i])"

lemma demo_print_ints: "prints_ints demo_print"
  by (simp add: prints_ints_def demo_print_def)

theorem cache_commands_witness:
  "prints_ints demo_print \<and>
   CacheConn_SetEx (Some 0) ''k'' 60 ''v'' = command_fmt demo_print (Some 0) [] ''SETEX %s %d %s'' [PStr ''k'', PInt 60, PStr ''v''] (\<lambda>r. Ret (reply_text r))"
  using cache_commands [OF demo_print_ints, of 60 0 0 "Some 0" "''k''" "''v''"] demo_print_ints by (simp add: is_int32_def)

section \<open>A command over the socket\<close>

text \<open>
  C9. One command and its reply: the context is idle, the formatter makes an argument vector of the format,
  the socket takes the command in any parts and gives the text of a reply in any pieces. Then the call
  returns that reply and the context is idle again. What the socket has taken is a text from which the
  other side, reading it with the same reader in any pieces, reads exactly the argument vector.
\<close>

theorem redisCommand_exchange:
  assumes "idle_context c" and "fmt_loop pr (c_str format) ap [] False = FmtArgs argv"
    and "length (command_text argv) + 1024 \<le> 2 ^ 31"
    and "list_all (\<lambda>n. 0 < n) ns" and "sum_list ns = length (command_text argv)"
    and "encodable v" and "depth_of v \<le> 8" and "concat cs = encode_reply v" and "[] \<notin> set cs"
    and "length (encode_reply v) + 1024 \<le> 2 ^ 31"
    and "idle_reader peer" and "concat ds = command_text argv" and "[] \<notin> set ds"
  shows "\<exists>c' peer'. redisCommand pr c format ap (map Took ns @ map Got cs @ as) = Some (Some v, c', as) \<and>
    idle_context c' \<and> rc_taken c' = rc_taken c @ command_text argv \<and>
    read_pieces peer ds = Some (replicate (length ds - 1) None @ [Some (RArray (map RString argv))], peer') \<and> idle_reader peer'"
proof -
  let ?t = "command_text argv"
  have cmd: "redisvFormatCommand pr format ap = Some (int (length ?t), ?t)"
    using assms(2,3) by (simp add: redisvFormatCommand_def build_command_text)
  have "\<exists>c'. redisCommand pr c format ap (map Took ns @ map Got cs @ as) = Some (Some v, c', as) \<and>
      idle_context c' \<and> rc_taken c' = rc_taken c @ ?t"
    by (rule redisCommand_reply [OF assms(1) cmd _ assms(4,5,6,7,8,9,10)]) simp
  moreover have "\<exists>r. read_pieces peer ds = Some (replicate (length ds - 1) None @ [Some (RArray (map RString argv))], r) \<and> idle_reader r"
  proof (rule read_pieces_idle [OF _ _ _ assms(13) _ assms(11)])
    have "foldr (\<lambda>v n. max (depth_of v) n) (map RString as) 0 = 0" for as by (induction as) simp_all
    then show "depth_of (RArray (map RString argv)) \<le> 8" by simp
  qed (use assms(3,12) in \<open>simp_all add: command_text_encode\<close>)
  ultimately show ?thesis by blast
qed

definition demo_context :: redis_context where
  "demo_context =
     \<lparr>rc_err = 0, rc_errstr = [], rc_block = True, rc_obuf = [], rc_reader = redisReaderCreate, rc_taken = []\<rparr>"

theorem redisCommand_exchange_witness:
  "\<exists>c' peer'.
     redisCommand demo_print demo_context ''GET %s'' [PStr ''k''] [Took 12, Took 8, Got ''$1'', Got (CRLF @ ''v'' @ CRLF)] =
       Some (Some (RString ''v''), c', []) \<and>
     idle_context c' \<and> rc_taken c' = command_text [''GET'', ''k''] \<and>
     read_pieces redisReaderCreate [command_text [''GET'', ''k'']] = Some ([Some (RArray [RString ''GET'', RString ''k''])], peer') \<and>
     idle_reader peer'"
proof -
  have f: "fmt_loop demo_print (c_str ''GET %s'') [PStr ''k''] [] False = FmtArgs [''GET'', ''k'']"
    by (simp add: formats NUL_def)
  have l: "length (command_text [''GET'', ''k'']) = 20" "encode_reply (RString ''v'') = ''$1'' @ CRLF @ ''v'' @ CRLF"
    by code_simp+
  have c: "idle_context demo_context" by (simp add: idle_context_def demo_context_def idle_reader_created)
  have "\<exists>c' peer'. redisCommand demo_print demo_context ''GET %s'' [PStr ''k''] (map Took [12, 8] @ map Got [''$1'', CRLF @ ''v'' @ CRLF] @ []) =
        Some (Some (RString ''v''), c', []) \<and>
      idle_context c' \<and> rc_taken c' = rc_taken demo_context @ command_text [''GET'', ''k''] \<and>
      read_pieces redisReaderCreate [command_text [''GET'', ''k'']] =
        Some (replicate (length [command_text [''GET'', ''k'']] - 1) None @ [Some (RArray (map RString [''GET'', ''k'']))], peer') \<and>
      idle_reader peer'"
    by (rule redisCommand_exchange [OF c f]) (use l idle_reader_created in \<open>simp_all add: command_text_encode not_sym [OF encode_reply_nonempty] del: encode_reply.simps(6)\<close>)
  then show ?thesis by (simp add: demo_context_def)
qed

end
