(* ===== verification/Spec2Isabelle.thy ===== *)
theory Spec2Isabelle
  imports Api_Common Api_Deal_Sharefile Api_Dealfile Api_Login Api_Md5 Api_Myfiles Api_Register
    Api_Sharefiles Api_Sharepicture Api_Upload Http_Conn Json_Grammar Cache_Conn Util_Pdu Util
    Config_Reader Startup Thread_Pool Conn_Pool Server Request_Dispatch
    Http_Parser_Url Cache_Command
begin

text \<open>
  picBed: the HTTP server of a picture store

  The program. main.cc reads a configuration file, builds pools of MySQL and Redis connections,
  starts worker threads and enters an event loop. The loop accepts connections; the bytes of a
  client are parsed as HTTP; the URL decides which function of src/api answers; that function takes
  the JSON or form body apart, asks MySQL and Redis through borrowed connections, and its text goes
  back as the response. Registration and login run on worker threads, which leave their responses in
  a queue the loop empties. Uploads are stored by nginx first; the server hands the file to FastDFS
  through a child process.

  How it is modelled. Pure code is a HOL function of the same name. Code with effects is a value of
  the type proc (theory Proc): a tree of reads and writes of the shared state srv (Server_State) and
  of requests to the services outside of the repository. These are the record env, an argument of
  run: MySQL (env_mysql, env_stmt), Redis (env_redis), the operating system (env_os) and the floating
  point conversions of the C library (env_libc), each a function on a world of any type. Nothing is
  assumed of them except where a theorem has it as a premise. A fault (buffer overflow, use after
  free, NULL or an uninitialised value read, int overflow, a failed assert, an exception) is an
  outcome of run, so that theorems about results say that none occurs. A blocked thread is Await.

  The theories, from the bottom up, and the files under src/ they model.

    Prelude            C strings, atoi, printf, integer ranges; the collections of simp rules
    Proc               programs, run, and the proof rules: results, keeps, secures, ensures, calls
    Server_State       the memory requests share: connections, pools, queues, configuration
    Http_Parser        base/http_parser.cc, base/http_parser.h: the automaton of http_parser_execute
    Http_Parser_Safety its invariant px_ok, kept byte by byte
    Http_Parser_Object callbacks that only differ in their object leave the parser the same
    Http_Parser_Url    http_parser_parse_url and http_parse_host
    Http_Parser_Wrapper base/http_parser_wrapper.cc
    Http_Request       what the parser makes of the text of a request
    Util, Util_Pdu     base/util.cc, base/util_pdu.cc: strings, buffers, byte streams
    Json_Value, Json_Reader, Json_Grammar
                       jsoncpp: values, the two writers and the reader; the grammar both keep to
    Common             base/common.cc
    Config_Reader      base/config_file_reader.cc
    Thread_Pool        base/thread_pool.h, base/thread_pool.cc: workers, Stop and WaitForAllDone with their
                       condition variable, as a step relation
    Db_Conn, Cache_Conn, Conn_Pool, Lending
                       mysql/db_pool.cc, redis/cache_pool.cpp: connections, commands, pools, and the
                       proof that borrowing is balanced whatever a handler does
    Redis_Reader, Redis_Command, Cache_Command
                       redis/read.c, redis/hiredis.c: replies read from pieces, commands formatted and
                       exchanged over a socket; the commands of Cache_Conn put together with them
    Api_Common, Api_Login, Api_Register, Api_Md5, Api_Upload, Api_Dealfile, Api_Deal_Sharefile,
    Api_Myfiles, Api_Sharefiles, Api_Sharepicture, Listing
                       the files of src/api with the same names; Listing has what the lists share
    Demo, Scenario     concrete services for the examples, and symbolic runs on services that answer
    Http_Response      the text of a response and the queue of responses
    Http_Conn          http_conn.cc and the callbacks of main.cc: connections, reading, dispatch
    Request_Dispatch   from the bytes of a client to the handler
    Netlib, Net_Safety base/base_socket.cc, base/event_dispatch.cc, base/netlib.cc on Linux
    Startup            main and the Init functions of the managers
    Server             the server run on its socket layer: main up to the loop, and its turns

  What the lemmas show. Invariants: the maps of sockets and of connections lead to living objects,
  reference counts cover the map and the calls in progress, pools lend a connection once and get back
  what they lent, from main on and for every kernel, client and database (Server, Net_Safety,
  Lending). Functional behaviour: what each kind of request writes to MySQL and Redis and in which
  order, on every branch that matters, errors included (the Api theories). The parser: any bytes in
  any buffers are safe, and the text of a request gives back what it was made of. Redis: a command is
  what hiredis makes of the format in the code, the server reads its arguments back, and a reply comes
  out whole however its bytes are cut. Round trips: JSON,
  the configuration file, the upload form, URL encoding. The workers: every task once and in order,
  no wake-up missing, so that every task and every caller of WaitForAllDone comes to its end, and a
  Stop that joins all. The responses of a queue of any length reach their connections. The file of
  the repository does not configure a server that starts. Interfaces are locales, each interpreted on the model of the code:
  conn_pool by the two pools, keyed_store by JSON objects and by the configuration map, fifo by the
  queues of tasks and of responses, callbacks by what the dispatcher may call.

  Machine integers. A size_t, uint32_t or uint64_t is a nat or int with the wrap-around written out
  (u32, mod 2 ^ 64) where it can happen; int arithmetic that may leave its range is a fault; a char is
  a char, with its code as a byte where the code compares it so.

  Loops and fuel. Most loops are structural or have a measure: a byte of the HTTP parser is looked at
  again at most three times (again_rank), and every step of the loop over the bytes shortens the text
  still to read. The JSON reader spends one unit of fuel for each recursive call and starts with
  more than twice the length of the text, which Reader_parse_returns shows to be enough. The read loop
  of a connection and a turn of the dispatcher have fuel as an argument: a client that never stops
  sending keeps the code in its loop; with more fuel than the client sends pieces the loop ends.

  Not modelled. Of hiredis the connecting, the asynchronous API and the memory of its strings and
  dictionaries; in the programs of the server a command is one request with its argument vector, and
  Redis_Command models how it is carried. The containers, iterators,
  comments and error messages of jsoncpp. The logger, which no request reads. base/lock.h: what the
  code does under a mutex is one step of Thread_Pool, and a run of GetDBConn or RelDBConn one step of
  Conn_Pool. In Startup and Server a callback of the loop and a task of a worker are one step each,
  run to its end; tasks of several workers are not interleaved there, and a run that crashes or
  blocks ends the sequence. That the event loop can delete a connection while a task holds it, and
  that OnWrite uses one it has deleted, is therefore outside of what started_server_sound says. The
  test client. The branches for Windows and
  macOS. FastDFS, nginx, MySQL and Redis themselves are services of the environment.
\<close>

end
